(* ===== verification/Prelude.thy ===== *)
theory Prelude
  imports Main "HOL-Library.Multiset" "HOL-Library.AList" "HOL-Library.Sublist"
begin

text \<open>
  What the components share: the errors a Python program raises, as values; the part of
  Python's sequences, strings, dictionaries and \<^verbatim>\<open>os.path\<close> that the modelled scripts
  use; and the generic lemmas about them.

  A string is a \<^typ>\<open>char list\<close>.  A Python list is an Isabelle list, a Python 2
  \<^verbatim>\<open>int\<close>/\<^verbatim>\<open>long\<close> or Python 3 \<^verbatim>\<open>int\<close> is an \<^typ>\<open>int\<close>.  A dictionary is
  an association list with distinct keys in insertion order (\<open>AList.update\<close> overwrites in
  place or appends, as \<^verbatim>\<open>d[k] = v\<close> does).
\<close>

section \<open>Errors as values\<close>

datatype py_error =
    KeyError
  | IndexError
  | ValueError
  | TypeError
  | ZeroDivisionError
  | UnboundLocalError
  | NameError
  | AttributeError
  | FileNotFoundError string
  | UnicodeDecodeError
  | PlainException string
  | WafError string
  | AssertionError
  | OSError
  | SystemExit int

type_synonym 'a res = "py_error + 'a"

definition rbind :: "'a res \<Rightarrow> ('a \<Rightarrow> 'b res) \<Rightarrow> 'b res" where
  "rbind r f = (case r of Inl e \<Rightarrow> Inl e | Inr x \<Rightarrow> f x)"

named_theorems res_simps "equations of the error monad"

lemma rbind_simps [simp, res_simps]:
  "rbind (Inl e) f = Inl e"
  "rbind (Inr x) f = f x"
  by (simp_all add: rbind_def)

lemma rbind_eq_Inr [res_simps]:
  "rbind r f = Inr y \<longleftrightarrow> (\<exists>x. r = Inr x \<and> f x = Inr y)"
  by (cases r) simp_all

text \<open>A comprehension whose body may raise stops at the first error.\<close>

fun rmap :: "('a \<Rightarrow> 'b res) \<Rightarrow> 'a list \<Rightarrow> 'b list res" where
  "rmap f [] = Inr []"
| "rmap f (x # xs) = rbind (f x) (\<lambda>y. rbind (rmap f xs) (\<lambda>ys. Inr (y # ys)))"

lemma rmap_Inr [res_simps]:
  "(\<And>x. x \<in> set xs \<Longrightarrow> f x = Inr (g x)) \<Longrightarrow> rmap f xs = Inr (map g xs)"
  by (induction xs) simp_all

lemma rmap_cong [fundef_cong]:
  "xs = ys \<Longrightarrow> (\<And>x. x \<in> set ys \<Longrightarrow> f x = g x) \<Longrightarrow> rmap f xs = rmap g ys"
  by (induction xs arbitrary: ys) auto

lemma rmap_length: "rmap f xs = Inr ys \<Longrightarrow> length ys = length xs"
  by (induction xs arbitrary: ys) (auto simp: rbind_eq_Inr)

lemma rmap_all2: "rmap f xs = Inr ys \<longleftrightarrow> list_all2 (\<lambda>x y. f x = Inr y) xs ys"
  by (induction xs arbitrary: ys) (auto simp: rbind_eq_Inr list_all2_Cons1)

lemma rmap_error: "rmap f xs = Inl e \<Longrightarrow> \<exists>x \<in> set xs. f x = Inl e"
  by (induction xs) (auto simp: rbind_def split: sum.splits)

lemma rbind_assoc: "rbind (rbind r f) g = rbind r (\<lambda>x. rbind (f x) g)"
  by (cases r) simp_all

lemma rmap_append: "rmap f (xs @ ys) = rbind (rmap f xs) (\<lambda>as. rbind (rmap f ys) (\<lambda>bs. Inr (as @ bs)))"
  by (induction xs) (auto simp: rbind_def split: sum.splits)

lemma rmap_concat_map:
  "rmap f (concat (map t cs)) = rbind (rmap (\<lambda>c. rmap f (t c)) cs) (\<lambda>yss. Inr (concat yss))"
  by (induction cs) (auto simp: rmap_append rbind_assoc)

lemma rmap_post:
  "rbind (rmap (\<lambda>c. rbind (g c) (\<lambda>x. Inr (h x))) cs) k = rbind (rmap g cs) (\<lambda>ys. k (map h ys))"
  by (induction cs arbitrary: k) (simp_all add: rbind_assoc)

lemma rmap_Inr_target: "rmap f xs = Inr ys \<Longrightarrow> x \<in> set xs \<Longrightarrow> \<exists>y \<in> set ys. f x = Inr y"
  by (induction xs arbitrary: ys) (auto simp: rbind_eq_Inr)

lemma rmap_Inr_source: "rmap f xs = Inr ys \<Longrightarrow> y \<in> set ys \<Longrightarrow> \<exists>x \<in> set xs. f x = Inr y"
  by (induction xs arbitrary: ys) (auto simp: rbind_eq_Inr)

text \<open>
  Code that changes a state and may raise: a function of the state that returns a result or an error
  together with the state at that moment.
\<close>

definition st_bind :: "('s \<Rightarrow> 'a res \<times> 's) \<Rightarrow> ('a \<Rightarrow> 's \<Rightarrow> 'b res \<times> 's) \<Rightarrow> 's \<Rightarrow> 'b res \<times> 's" where
  "st_bind m f st = (case m st of (Inl e, st) \<Rightarrow> (Inl e, st) | (Inr x, st) \<Rightarrow> f x st)"

lemma st_bind_eq [res_simps]:
  "st_bind m f st = (Inr y, st2) \<longleftrightarrow> (\<exists>x st1. m st = (Inr x, st1) \<and> f x st1 = (Inr y, st2))"
  by (auto simp: st_bind_def split: sum.splits prod.splits)

text \<open>What every part of a sequence keeps, the sequence keeps.\<close>

lemma st_bind_keeps:
  assumes "st_bind m f st = (r, st2)" "P st"
    and "\<And>x st1. m st = (x, st1) \<Longrightarrow> P st1" "\<And>x st1. m st = (Inr x, st1) \<Longrightarrow> P st1 \<Longrightarrow> f x st1 = (r, st2) \<Longrightarrow> P st2"
  shows "P st2"
  using assms by (cases "m st") (auto simp: st_bind_def split: sum.splits)

section \<open>Python indexing and slicing\<close>

text \<open>A negative index counts from the end; a slice bound is clamped to the sequence.\<close>

definition py_index :: "'a list \<Rightarrow> int \<Rightarrow> 'a res" where
  "py_index xs i =
     (let j = (if i < 0 then int (length xs) + i else i)
      in if 0 \<le> j \<and> j < int (length xs) then Inr (xs ! nat j) else Inl IndexError)"

definition norm_index :: "nat \<Rightarrow> int \<Rightarrow> nat" where
  "norm_index n i = (if i < 0 then nat (int n + i) else min n (nat i))"

definition slice_to :: "'a list \<Rightarrow> int \<Rightarrow> 'a list" where
  "slice_to xs j = take (norm_index (length xs) j) xs"

definition slice_from :: "'a list \<Rightarrow> int \<Rightarrow> 'a list" where
  "slice_from xs i = drop (norm_index (length xs) i) xs"

definition slice :: "'a list \<Rightarrow> int \<Rightarrow> int \<Rightarrow> 'a list" where
  "slice xs i j = drop (norm_index (length xs) i) (take (norm_index (length xs) j) xs)"

lemma slice_parts: "slice_to xs j @ slice_from xs j = xs"
  by (simp add: slice_to_def slice_from_def)

lemma slice_to_neg: "0 < n \<Longrightarrow> slice_to xs (- int n) = take (length xs - n) xs"
  by (simp add: slice_to_def norm_index_def nat_diff_distrib' flip: of_nat_diff)

lemma slice_from_neg: "0 < n \<Longrightarrow> slice_from xs (- int n) = drop (length xs - n) xs"
  by (simp add: slice_from_def norm_index_def nat_diff_distrib' flip: of_nat_diff)

lemma slice_nat: "i \<le> j \<Longrightarrow> slice xs (int i) (int j) = take (j - i) (drop i xs)"
  by (auto simp: slice_def norm_index_def drop_take min_def)

lemma py_index_nat [simp]: "i < length xs \<Longrightarrow> py_index xs (int i) = Inr (xs ! i)"
  by (simp add: py_index_def)

section \<open>Dictionaries\<close>

text \<open>
  A dictionary has its keys in insertion order, but the order in which Python 2 iterates over
  them is arbitrary.  The interface \<open>key_order\<close> is all a client may rely on: the iteration
  visits every key exactly once.
\<close>

locale key_order =
  fixes ord :: "'k list \<Rightarrow> 'k list"
  assumes perm: "mset (ord ks) = mset ks"
begin

lemma set_ord: "set (ord ks) = set ks"
  by (rule mset_eq_setD) (rule perm)

lemma distinct_ord: "distinct (ord ks) \<longleftrightarrow> distinct ks"
  by (rule mset_eq_imp_distinct_iff) (rule perm)

lemma ord_Nil: "ord [] = []"
  using perm [of "[]"] by simp

end

interpretation insertion_order: key_order "\<lambda>ks. ks"
  by unfold_locales simp

interpretation reverse_order: key_order rev
  by unfold_locales simp

abbreviation keys :: "('k \<times> 'v) list \<Rightarrow> 'k list" where
  "keys d \<equiv> map fst d"

lemma map_of_update [simp]: "map_of (AList.update k v d) = (map_of d)(k \<mapsto> v)"
  by (simp add: update_conv')

lemma map_of_delete [simp]: "map_of (AList.delete k d) = (map_of d)(k := None)"
  by (simp add: delete_conv')

lemma keys_update: "keys (AList.update k v d) = (if k \<in> set (keys d) then keys d else keys d @ [k])"
  by (rule update_keys)

lemma distinct_keys_update [simp]: "distinct (keys d) \<Longrightarrow> distinct (keys (AList.update k v d))"
  by (simp add: keys_update)

lemma keys_delete: "keys (AList.delete k d) = filter (\<lambda>x. x \<noteq> k) (keys d)"
  by (induction d) auto

lemma length_update_same: "k \<in> set (keys d) \<Longrightarrow> length (AList.update k v d) = length d"
  using arg_cong [OF keys_update [of k v d], of length] by simp

lemma length_delete_less: "k \<in> set (keys d) \<Longrightarrow> length (AList.delete k d) < length d"
  using length_filter_less [of k "keys d" "\<lambda>x. x \<noteq> k"] by (simp flip: keys_delete)

lemma map_of_Some_key: "map_of d k = Some v \<Longrightarrow> k \<in> set (keys d)"
  by (metis domI dom_map_of_conv_image_fst set_map)

end
