(* ===== verification/PyLib.thy ===== *)
theory PyLib
  imports Prelude
begin

text \<open>
  The part of Python's \<open>str\<close>, of \<^verbatim>\<open>os.path\<close> (on a POSIX host) and of file iteration that
  the scripts use, with the lemmas the components share about them.
\<close>

section \<open>Strings\<close>

abbreviation nl :: char where "nl \<equiv> CHR 0x0A"
abbreviation tab :: char where "tab \<equiv> CHR 0x09"
abbreviation dquote :: char where "dquote \<equiv> CHR 0x22"
abbreviation squote :: char where "squote \<equiv> CHR 0x27"
abbreviation backslash :: char where "backslash \<equiv> CHR 0x5C"
abbreviation esc :: char where "esc \<equiv> CHR 0x1B"

text \<open>\<open>s.split(c)\<close> and \<open>s.split(c, 1)\<close> for a single character.\<close>

fun split_on :: "char \<Rightarrow> string \<Rightarrow> string list" where
  "split_on c [] = [[]]"
| "split_on c (x # xs) =
     (if x = c then [] # split_on c xs
      else (case split_on c xs of [] \<Rightarrow> [[x]] | w # ws \<Rightarrow> (x # w) # ws))"

definition split_once :: "char \<Rightarrow> string \<Rightarrow> string list" where
  "split_once c s = (if c \<in> set s
     then [takeWhile (\<lambda>x. x \<noteq> c) s, drop 1 (dropWhile (\<lambda>x. x \<noteq> c) s)] else [s])"

fun join_with :: "string \<Rightarrow> string list \<Rightarrow> string" where
  "join_with sep [] = []"
| "join_with sep [x] = x"
| "join_with sep (x # y # zs) = x @ sep @ join_with sep (y # zs)"

definition strip_by :: "(char \<Rightarrow> bool) \<Rightarrow> string \<Rightarrow> string" where
  "strip_by p s = rev (dropWhile p (rev (dropWhile p s)))"

text \<open>The characters below 128 that Python 3 counts as white space.\<close>

definition py3_space :: "char \<Rightarrow> bool" where
  "py3_space c \<longleftrightarrow> c \<in> set [CHR '' '', CHR 0x09, CHR 0x0A, CHR 0x0B, CHR 0x0C, CHR 0x0D,
                            CHR 0x1C, CHR 0x1D, CHR 0x1E, CHR 0x1F]"

text \<open>White space of Python 2.\<close>

definition py2_space :: "char \<Rightarrow> bool" where
  "py2_space c \<longleftrightarrow> c \<in> set [CHR '' '', CHR 0x09, CHR 0x0A, CHR 0x0B, CHR 0x0C, CHR 0x0D]"

abbreviation py_strip :: "string \<Rightarrow> string" where
  "py_strip s \<equiv> strip_by py3_space s"

definition startswith :: "string \<Rightarrow> string \<Rightarrow> bool" where
  "startswith s p \<longleftrightarrow> take (length p) s = p"

definition endswith :: "string \<Rightarrow> string \<Rightarrow> bool" where
  "endswith s p \<longleftrightarrow> length p \<le> length s \<and> drop (length s - length p) s = p"

text \<open>\<open>needle in hay\<close>.\<close>

fun occurs :: "string \<Rightarrow> string \<Rightarrow> bool" where
  "occurs needle [] \<longleftrightarrow> needle = []"
| "occurs needle (x # xs) \<longleftrightarrow> startswith (x # xs) needle \<or> occurs needle xs"

text \<open>\<open>s.replace(old, new)\<close> for a single character.\<close>

definition replace_char :: "char \<Rightarrow> string \<Rightarrow> string \<Rightarrow> string" where
  "replace_char c new s = concat (map (\<lambda>x. if x = c then new else [x]) s)"

definition upper_char :: "char \<Rightarrow> char" where
  "upper_char c = (let n = of_char c :: nat in if 97 \<le> n \<and> n \<le> 122 then char_of (n - 32) else c)"

definition lower_char :: "char \<Rightarrow> char" where
  "lower_char c = (let n = of_char c :: nat in if 65 \<le> n \<and> n \<le> 90 then char_of (n + 32) else c)"

text \<open>The characters of the class \<open>\w\<close> below 128.\<close>

definition word_char :: "char \<Rightarrow> bool" where
  "word_char c \<longleftrightarrow> (let n = of_char c :: nat in
     48 \<le> n \<and> n \<le> 57 \<or> 65 \<le> n \<and> n \<le> 90 \<or> 97 \<le> n \<and> n \<le> 122 \<or> n = 95)"

text \<open>The decimal digits of an integer, \<open>"%d" % n\<close>.\<close>

fun dec_nat :: "nat \<Rightarrow> string" where
  "dec_nat n = (if n < 10 then [char_of (48 + n)] else dec_nat (n div 10) @ [char_of (48 + n mod 10)])"

declare dec_nat.simps [simp del]

definition dec :: "int \<Rightarrow> string" where
  "dec i = (if i < 0 then CHR ''-'' # dec_nat (nat (- i)) else dec_nat (nat i))"

text \<open>Iterating over a file: its lines, each with its newline.\<close>

fun file_lines :: "string \<Rightarrow> string list" where
  "file_lines [] = []"
| "file_lines (x # xs) =
     (if x = nl then [x] # file_lines xs
      else (case file_lines xs of [] \<Rightarrow> [[x]] | l # ls \<Rightarrow> (x # l) # ls))"

lemma split_on_not_Nil [simp]: "split_on c s \<noteq> []"
  by (induction s) (auto split: list.splits)

lemma split_on_parts: "w \<in> set (split_on c s) \<Longrightarrow> c \<notin> set w"
  by (induction s arbitrary: w) (auto split: list.splits if_splits)

lemma join_with_Cons: "join_with sep (x # xs) = x @ (if xs = [] then [] else sep @ join_with sep xs)"
  by (cases xs) simp_all

lemma join_split_on: "join_with [c] (split_on c s) = s"
  by (induction s) (auto split: list.splits simp: join_with_Cons)

lemma split_on_append: "split_on c (w @ c # s) = split_on c w @ split_on c s"
  by (induction w) (auto split: list.splits simp: Cons_eq_append_conv)

lemma split_on_single: "c \<notin> set w \<Longrightarrow> split_on c w = [w]"
  by (induction w) auto

lemma split_join_on: "ws \<noteq> [] \<Longrightarrow> (\<forall>w \<in> set ws. c \<notin> set w) \<Longrightarrow> split_on c (join_with [c] ws) = ws"
  by (induction ws rule: induct_list012) (simp_all add: split_on_single split_on_append)

lemma split_once_append: "c \<notin> set a \<Longrightarrow> split_once c (a @ c # b) = [a, b]"
proof -
  assume "c \<notin> set a"
  then have "takeWhile (\<lambda>x. x \<noteq> c) (a @ c # b) = a" "dropWhile (\<lambda>x. x \<noteq> c) (a @ c # b) = c # b"
    by (induction a) auto
  then show ?thesis by (simp add: split_once_def)
qed

lemma concat_file_lines: "concat (file_lines s) = s"
  by (induction s) (auto split: list.splits)

lemma file_lines_line: "nl \<notin> set t \<Longrightarrow> file_lines (t @ nl # rest) = (t @ [nl]) # file_lines rest"
  by (induction t) auto

lemma file_lines_concat: "(\<forall>w \<in> set ws. \<exists>t. w = t @ [nl] \<and> nl \<notin> set t) \<Longrightarrow> file_lines (concat ws) = ws"
proof (induction ws)
  case (Cons w ws)
  then obtain t where "w = t @ [nl]" "nl \<notin> set t" by auto
  then show ?case using Cons file_lines_line by simp
qed simp

lemma startswith_append [simp]: "startswith (p @ s) p"
  by (simp add: startswith_def)

lemma startswith_iff: "startswith s p \<longleftrightarrow> (\<exists>t. s = p @ t)"
  unfolding startswith_def by (metis append_eq_conv_conj append_take_drop_id)

lemma occurs_Nil [simp]: "occurs [] s"
  by (cases s) (simp_all add: startswith_def)

lemma occurs_iff: "occurs n s \<longleftrightarrow> (\<exists>a b. s = a @ n @ b)"
proof (induction n s rule: occurs.induct)
  case (2 n x xs)
  show ?case
  proof
    assume "occurs n (x # xs)"
    then consider "startswith (x # xs) n" | "occurs n xs" by auto
    then show "\<exists>a b. x # xs = a @ n @ b"
    proof cases
      case 1
      then show ?thesis unfolding startswith_iff by (metis append_Nil)
    next
      case two: 2
      then obtain a b where "xs = a @ n @ b" using 2 by blast
      then have "x # xs = (x # a) @ n @ b" by simp
      then show ?thesis by blast
    qed
  next
    assume "\<exists>a b. x # xs = a @ n @ b"
    then obtain a b where ab: "x # xs = a @ n @ b" by blast
    show "occurs n (x # xs)"
    proof (cases a)
      case Nil
      then show ?thesis using ab by (metis append_Nil occurs.simps(2) startswith_append)
    next
      case (Cons y ys)
      then show ?thesis using ab 2 by auto
    qed
  qed
qed simp

lemma dec_nat_not_Nil [simp]: "dec_nat n \<noteq> []"
  by (subst dec_nat.simps) simp

text \<open>\<open>int(s)\<close> of a string: blanks around it, a sign, digits with single underscores between them.\<close>

definition py_int :: "string \<Rightarrow> int res" where
  "py_int s =
     (let t = py_strip s;
          neg = (take 1 t = ''-'');
          digits = (if take 1 t = ''-'' \<or> take 1 t = ''+'' then drop 1 t else t);
          groups = split_on (CHR ''_'') digits
      in if list_all (\<lambda>g. g \<noteq> [] \<and> list_all (\<lambda>c. (48 :: nat) \<le> of_char c \<and> (of_char c :: nat) \<le> 57) g) groups
         then (let v = foldl (\<lambda>a c. 10 * a + (int (of_char c) - 48)) 0 (concat groups)
               in Inr (if neg then - v else v))
         else Inl ValueError)"

lemma dec_nat_digits: "c \<in> set (dec_nat n) \<Longrightarrow> 48 \<le> (of_char c :: nat) \<and> (of_char c :: nat) \<le> 57"
proof (induction n rule: dec_nat.induct)
  case (1 n)
  then show ?case
    by (cases "n < 10") (auto simp: dec_nat.simps [of n] of_char_of)
qed

lemma dec_nat_value: "foldl (\<lambda>a c. 10 * a + (int (of_char c) - 48)) 0 (dec_nat n) = int n"
proof (induction n rule: dec_nat.induct)
  case (1 n)
  then show ?case
    by (cases "n < 10") (simp_all add: dec_nat.simps [of n] of_char_of, presburger)
qed

lemma digit_char:
  "48 \<le> (of_char c :: nat) \<Longrightarrow> (of_char c :: nat) \<le> 57 \<Longrightarrow>
     c \<noteq> CHR ''-'' \<and> c \<noteq> CHR ''+'' \<and> c \<noteq> CHR ''_'' \<and> c \<noteq> CHR '' '' \<and> \<not> py3_space c"
  by (auto simp: py3_space_def)

lemma dropWhile_none: "(\<And>c. c \<in> set s \<Longrightarrow> \<not> p c) \<Longrightarrow> dropWhile p s = s"
  by (cases s) auto

lemma strip_by_none: "(\<And>c. c \<in> set s \<Longrightarrow> \<not> p c) \<Longrightarrow> strip_by p s = s"
  using dropWhile_none [of s p] dropWhile_none [of "rev s" p] by (simp add: strip_by_def)

text \<open>\<open>int(str(n))\<close> is \<open>n\<close>.\<close>

lemma py_int_dec: "py_int (dec_nat n) = Inr (int n)"
proof -
  have d: "c \<noteq> CHR ''-'' \<and> c \<noteq> CHR ''+'' \<and> c \<noteq> CHR ''_'' \<and> \<not> py3_space c" if "c \<in> set (dec_nat n)" for c
    using digit_char dec_nat_digits that by blast
  then have "py_strip (dec_nat n) = dec_nat n" by (simp add: strip_by_none)
  moreover have "split_on (CHR ''_'') (dec_nat n) = [dec_nat n]" using d by (blast intro: split_on_single)
  moreover have "take 1 (dec_nat n) \<noteq> ''-''" "take 1 (dec_nat n) \<noteq> ''+''" using d by (cases "dec_nat n"; auto)+
  moreover have "list_all (\<lambda>c. (48 :: nat) \<le> of_char c \<and> (of_char c :: nat) \<le> 57) (dec_nat n)"
    using dec_nat_digits by (auto simp: list_all_iff)
  ultimately show ?thesis by (simp add: py_int_def Let_def dec_nat_value)
qed

section \<open>Paths\<close>

definition path_join :: "string \<Rightarrow> string \<Rightarrow> string" where
  "path_join a b =
     (if take 1 b = ''/'' then b
      else if a = [] \<or> last a = CHR ''/'' then a @ b else a @ ''/'' @ b)"

definition basename :: "string \<Rightarrow> string" where
  "basename p = last (split_on (CHR ''/'') p)"

lemma path_join_abs: "path_join a (CHR ''/'' # b) = CHR ''/'' # b"
  by (simp add: path_join_def)

lemma basename_no_slash: "CHR ''/'' \<notin> set (basename p)"
  unfolding basename_def by (rule split_on_parts, rule last_in_set) simp

lemma basename_join: "CHR ''/'' \<notin> set b \<Longrightarrow> basename (path_join a b) = b"
proof -
  assume b: "CHR ''/'' \<notin> set b"
  have *: "last (split_on (CHR ''/'') (w @ CHR ''/'' # b)) = b" for w
    using b by (simp add: split_on_append split_on_single)
  have b1: "take 1 b \<noteq> ''/''" using b by (cases b) auto
  show ?thesis
  proof (cases "a = []")
    case True
    then show ?thesis using b b1 by (simp add: path_join_def basename_def split_on_single)
  next
    case False
    then have "\<exists>w. path_join a b = w @ CHR ''/'' # b"
      using b1 by (cases a rule: rev_cases) (auto simp: path_join_def)
    then show ?thesis using * by (auto simp: basename_def)
  qed
qed

text \<open>\<open>normpath\<close>, \<open>abspath\<close> and \<open>relpath\<close> of POSIX paths.\<close>

fun norm_comps :: "bool \<Rightarrow> string list \<Rightarrow> string list \<Rightarrow> string list" where
  "norm_comps rooted acc [] = acc"
| "norm_comps rooted acc (c # cs) =
     (if c = '''' \<or> c = ''.'' then norm_comps rooted acc cs
      else if c \<noteq> ''..'' \<or> (\<not> rooted \<and> acc = []) \<or> (acc \<noteq> [] \<and> last acc = ''..'')
      then norm_comps rooted (acc @ [c]) cs
      else norm_comps rooted (butlast acc) cs)"

definition root_slashes :: "string \<Rightarrow> nat" where
  "root_slashes p =
     (if take 1 p \<noteq> ''/'' then 0
      else if take 2 p = ''//'' \<and> take 3 p \<noteq> ''///'' then 2 else 1)"

definition normpath :: "string \<Rightarrow> string" where
  "normpath p =
     (let q = replicate (root_slashes p) (CHR ''/'') @
              join_with ''/'' (norm_comps (0 < root_slashes p) [] (split_on (CHR ''/'') p))
      in if q = '''' then ''.'' else q)"

definition abspath :: "string \<Rightarrow> string \<Rightarrow> string" where
  "abspath cwd_path p = normpath (if take 1 p = ''/'' then p else path_join cwd_path p)"

fun common_len :: "'a list \<Rightarrow> 'a list \<Rightarrow> nat" where
  "common_len (x # xs) (y # ys) = (if x = y then Suc (common_len xs ys) else 0)"
| "common_len _ _ = 0"

definition relpath :: "string \<Rightarrow> string \<Rightarrow> string \<Rightarrow> string res" where
  "relpath cwd_path path start =
     (if path = '''' then Inl ValueError
      else
        (let parts = (\<lambda>p. filter (\<lambda>x. x \<noteq> '''') (split_on (CHR ''/'') (abspath cwd_path p)));
             start_list = parts start; path_list = parts path;
             i = common_len start_list path_list;
             rel = replicate (length start_list - i) ''..'' @ drop i path_list
         in Inr (if rel = [] then ''.'' else join_with ''/'' rel)))"

section \<open>Shell patterns\<close>

text \<open>\<open>fnmatch.filter\<close> on a POSIX host: the pattern is split into tokens, as \<open>fnmatch.translate\<close> does.\<close>

datatype glob = Star | AnyChar | OneOf bool "(char \<times> char) list" | Lit char

fun class_items :: "string \<Rightarrow> (char \<times> char) list" where
  "class_items (a # CHR ''-'' # b # cs) = (a, b) # class_items cs"
| "class_items (a # cs) = (a, a) # class_items cs"
| "class_items [] = []"

text \<open>The text of a bracket expression and what follows it; a first \<open>]\<close> belongs to it.\<close>

definition bracket_text :: "string \<Rightarrow> (string \<times> string) option" where
  "bracket_text r =
     (let j = (if take 1 r = ''!'' then 1 else 0);
          j = (if take 1 (drop j r) = '']'' then j + 1 else j);
          k = j + length (takeWhile (\<lambda>c. c \<noteq> CHR '']'') (drop j r))
      in if length r \<le> k then None else Some (take k r, drop (k + 1) r))"

lemma bracket_text_shorter: "bracket_text r = Some (t, rest) \<Longrightarrow> length rest < length r"
  by (auto simp: bracket_text_def Let_def split: if_splits)

function parse_glob :: "string \<Rightarrow> glob list" where
  "parse_glob [] = []"
| "parse_glob (c # cs) =
     (if c = CHR ''*'' then Star # parse_glob cs
      else if c = CHR ''?'' then AnyChar # parse_glob cs
      else if c = CHR ''['' then
        (case bracket_text cs of
           None \<Rightarrow> Lit c # parse_glob cs
         | Some (t, rest) \<Rightarrow>
             (if take 1 t = ''!'' then OneOf False (class_items (drop 1 t)) else OneOf True (class_items t))
               # parse_glob rest)
      else Lit c # parse_glob cs)"
  by pat_completeness auto
termination
  by (relation "measure length") (auto dest!: bracket_text_shorter)

fun glob_char :: "glob \<Rightarrow> char \<Rightarrow> bool" where
  "glob_char AnyChar x \<longleftrightarrow> True"
| "glob_char (Lit c) x \<longleftrightarrow> x = c"
| "glob_char (OneOf b rs) x \<longleftrightarrow>
     b = list_ex (\<lambda>(lo, hi). (of_char lo :: nat) \<le> of_char x \<and> (of_char x :: nat) \<le> of_char hi) rs"
| "glob_char Star x \<longleftrightarrow> False"

fun glob_match :: "glob list \<Rightarrow> string \<Rightarrow> bool" where
  "glob_match [] s \<longleftrightarrow> s = []"
| "glob_match (Star # g) [] \<longleftrightarrow> glob_match g []"
| "glob_match (Star # g) (x # xs) \<longleftrightarrow> glob_match g (x # xs) \<or> glob_match (Star # g) xs"
| "glob_match (t # g) [] \<longleftrightarrow> False"
| "glob_match (t # g) (x # xs) \<longleftrightarrow> glob_char t x \<and> glob_match g xs"

definition fnmatch_filter :: "string list \<Rightarrow> string \<Rightarrow> string list" where
  "fnmatch_filter names pat = filter (glob_match (parse_glob pat)) names"

lemma glob_match_Star: "glob_match (Star # g) s \<longleftrightarrow> (\<exists>a b. s = a @ b \<and> glob_match g b)"
proof (induction s)
  case (Cons x xs)
  then show ?case by (auto simp: Cons_eq_append_conv)
qed simp

lemma parse_glob_plain:
  "(\<forall>c \<in> set p. c \<notin> {CHR ''*'', CHR ''?'', CHR ''[''}) \<Longrightarrow> parse_glob p = map Lit p"
  by (induction p) auto

lemma glob_match_Lits: "glob_match (map Lit p) s \<longleftrightarrow> s = p"
proof (induction p arbitrary: s)
  case (Cons c p)
  then show ?case by (cases s) auto
qed simp

lemma fnmatch_filter_plain:
  "(\<forall>c \<in> set p. c \<notin> {CHR ''*'', CHR ''?'', CHR ''[''}) \<Longrightarrow> fnmatch_filter names p = filter (\<lambda>n. n = p) names"
  unfolding fnmatch_filter_def by (rule filter_cong [OF refl]) (simp only: parse_glob_plain glob_match_Lits)

section \<open>Queues\<close>

text \<open>
  The contract of \<open>queue.Queue(0)\<close> that threads rely on: what goes in comes out once, in order,
  and \<open>get\<close> blocks exactly on the empty queue.
\<close>

locale fifo =
  fixes empty :: 'q
    and put :: "'q \<Rightarrow> 'a \<Rightarrow> 'q"
    and get :: "'q \<Rightarrow> ('a \<times> 'q) option"
    and contents :: "'q \<Rightarrow> 'a list"
  assumes contents_empty: "contents empty = []"
    and contents_put: "contents (put q x) = contents q @ [x]"
    and get_blocked: "get q = None \<longleftrightarrow> contents q = []"
    and get_head: "get q = Some (x, q') \<Longrightarrow> contents q = x # contents q'"
begin

lemma contents_puts: "contents (foldl put q xs) = contents q @ xs"
  by (induction xs arbitrary: q) (simp_all add: contents_put)

lemma get_conserves: "get q = Some (x, q') \<Longrightarrow> mset (contents q) = add_mset x (mset (contents q'))"
  by (simp add: get_head)

lemma get_ready: "contents q = x # xs \<Longrightarrow> \<exists>q'. get q = Some (x, q') \<and> contents q' = xs"
proof -
  assume q: "contents q = x # xs"
  then obtain y q' where g: "get q = Some (y, q')" using get_blocked [of q] by (cases "get q") auto
  from get_head [OF g] q g show ?thesis by simp
qed

end

definition q_put :: "'a list \<Rightarrow> 'a \<Rightarrow> 'a list" where
  "q_put q x = q @ [x]"

fun q_get :: "'a list \<Rightarrow> ('a \<times> 'a list) option" where
  "q_get [] = None"
| "q_get (x # q) = Some (x, q)"

interpretation queue: fifo "[]" q_put q_get "\<lambda>q. q"
proof
  show "q_get q = None \<longleftrightarrow> q = []" for q :: "'a list" by (cases q) simp_all
  show "q_get q = Some (x, q') \<Longrightarrow> q = x # q'" for q :: "'a list" and x q' by (cases q) simp_all
qed (simp_all add: q_put_def)

end
