(* ===== verification/Transition.thy ===== *)
theory Transition
  imports Main
begin

text \<open>
  Event-driven state machines: a partial step function, runs along a list of events, and the
  interfaces \<open>invariant_system\<close> (a predicate every step keeps), \<open>bounded_system\<close> (a weight that every
  visible step lowers), \<open>progress_system\<close> (in every healthy state that is not final a visible step
  leads to a healthy state), and
  \<open>simulation\<close> (a specification, given as a relation on abstract states, that every step follows).
  The components that are state machines interpret these locales on their own step functions.
\<close>

fun run_steps :: "('e \<Rightarrow> 's \<Rightarrow> 's option) \<Rightarrow> 'e list \<Rightarrow> 's \<Rightarrow> 's option" where
  "run_steps step [] s = Some s"
| "run_steps step (e # es) s =
     (case step e s of None \<Rightarrow> None | Some s' \<Rightarrow> run_steps step es s')"

lemma run_steps_append:
  "run_steps step (es @ fs) s =
     (case run_steps step es s of None \<Rightarrow> None | Some s' \<Rightarrow> run_steps step fs s')"
  by (induction es arbitrary: s) (auto split: option.splits)

locale invariant_system =
  fixes step :: "'e \<Rightarrow> 's \<Rightarrow> 's option"
    and good :: "'s \<Rightarrow> bool"
  assumes step_good: "good s \<Longrightarrow> step e s = Some s' \<Longrightarrow> good s'"
begin

lemma run_good: "good s \<Longrightarrow> run_steps step es s = Some s' \<Longrightarrow> good s'"
  by (induction es arbitrary: s) (auto split: option.splits dest: step_good)

end

locale bounded_system = invariant_system +
  fixes weight :: "'s \<Rightarrow> nat"
    and silent :: "'e \<Rightarrow> bool"
  assumes step_less: "good s \<Longrightarrow> \<not> silent e \<Longrightarrow> step e s = Some s' \<Longrightarrow> weight s' < weight s"
    and silent_le: "good s \<Longrightarrow> silent e \<Longrightarrow> step e s = Some s' \<Longrightarrow> weight s' \<le> weight s"
begin

lemma run_bounded:
  "good s \<Longrightarrow> run_steps step es s = Some s' \<Longrightarrow>
     length (filter (\<lambda>e. \<not> silent e) es) + weight s' \<le> weight s"
proof (induction es arbitrary: s)
  case (Cons e es)
  then obtain t where t: "step e s = Some t" "run_steps step es t = Some s'" by (auto split: option.splits)
  from Cons.IH [OF step_good [OF Cons.prems(1) t(1)] t(2)]
  show ?case using step_less [OF Cons.prems(1) _ t(1)] silent_le [OF Cons.prems(1) _ t(1)]
    by (cases "silent e") fastforce+
qed simp

end

locale progress_system = bounded_system +
  fixes healthy :: "'s \<Rightarrow> bool"
    and final :: "'s \<Rightarrow> bool"
  assumes enabled: "good s \<Longrightarrow> healthy s \<Longrightarrow> \<not> final s \<Longrightarrow>
    \<exists>e s'. \<not> silent e \<and> step e s = Some s' \<and> healthy s'"
begin

lemma run_completes:
  "good s \<Longrightarrow> healthy s \<Longrightarrow> \<exists>es s'. (\<forall>e \<in> set es. \<not> silent e) \<and> run_steps step es s = Some s' \<and> final s'"
proof (induction "weight s" arbitrary: s rule: less_induct)
  case less
  show ?case
  proof (cases "final s")
    case True
    then show ?thesis by (intro exI [of _ "[]"] exI [of _ s]) simp
  next
    case False
    then obtain e t where e: "\<not> silent e" "step e s = Some t" and h: "healthy t" using enabled less.prems by blast
    from less.hyps [OF step_less [OF less.prems(1) e] step_good [OF less.prems(1) e(2)] h]
    obtain es s' where "\<forall>e \<in> set es. \<not> silent e" "run_steps step es t = Some s'" "final s'" by blast
    with e show ?thesis by (intro exI [of _ "e # es"] exI [of _ s']) simp
  qed
qed

end

locale simulation = invariant_system +
  fixes abs :: "'s \<Rightarrow> 'a"
    and spec :: "'a \<Rightarrow> 'a \<Rightarrow> bool"
  assumes step_sim: "good s \<Longrightarrow> step e s = Some s' \<Longrightarrow> spec\<^sup>*\<^sup>* (abs s) (abs s')"
begin

lemma run_refines: "good s \<Longrightarrow> run_steps step es s = Some s' \<Longrightarrow> spec\<^sup>*\<^sup>* (abs s) (abs s')"
proof (induction es arbitrary: s)
  case (Cons e es)
  then obtain t where t: "step e s = Some t" "run_steps step es t = Some s'" by (auto split: option.splits)
  with Cons.IH [OF step_good [OF Cons.prems(1) t(1)]] step_sim [OF Cons.prems(1) t(1)] show ?case
    by (simp add: rtranclp_trans)
qed simp

lemma run_invariant:
  assumes "good s" "run_steps step es s = Some s'" "I (abs s)" "\<And>a b. I a \<Longrightarrow> spec a b \<Longrightarrow> I b"
  shows "I (abs s')"
  using run_refines [OF assms(1,2)] assms(3) by (induction rule: rtranclp_induct) (auto dest: assms(4))

end

end
