(* ===== verification/RadUtil.thy ===== *)
theory RadUtil
  imports PyLib
begin

unbundle bit_operations_syntax

text \<open>
  The helper functions of \<^verbatim>\<open>bindings/python/rad_util.py\<close> (a Python 2 module): number
  bases and bit tricks, Euclid's algorithm and what is built on it, permutations, rotations,
  common prefixes and suffixes, duplicate removal.  Numbers are Python integers; \<open>/\<close> and
  \<open>%\<close> on them are Isabelle's \<open>div\<close> and \<open>mod\<close> (both round towards minus infinity).
\<close>

section \<open>Binary strings: int2bin, bin2int\<close>

definition hex_digit :: "nat \<Rightarrow> char" where
  "hex_digit d = ''0123456789abcdef'' ! d"

fun hex_digits :: "nat \<Rightarrow> string" where
  "hex_digits n = (if n < 16 then [hex_digit n] else hex_digits (n div 16) @ [hex_digit (n mod 16)])"

declare hex_digits.simps [simp del]

text \<open>Python 2's \<^verbatim>\<open>hex\<close>: a value of type \<^verbatim>\<open>long\<close> prints with a trailing \<open>L\<close>.\<close>

definition py_hex :: "bool \<Rightarrow> int \<Rightarrow> string" where
  "py_hex is_long i =
     (if i < 0 then ''-0x'' else ''0x'') @ hex_digits (nat \<bar>i\<bar>) @ (if is_long then ''L'' else [])"

definition py_lower_hex :: "char \<Rightarrow> char" where
  "py_lower_hex c = (if c = CHR ''L'' then CHR ''l'' else c)"

text \<open>The dictionary \<open>hex2bin\<close> of the function.\<close>

definition hex2bin :: "char \<rightharpoonup> string" where
  "hex2bin = map_of
     [(CHR ''0'', ''0000''), (CHR ''1'', ''0001''), (CHR ''2'', ''0010''), (CHR ''3'', ''0011''),
      (CHR ''4'', ''0100''), (CHR ''5'', ''0101''), (CHR ''6'', ''0110''), (CHR ''7'', ''0111''),
      (CHR ''8'', ''1000''), (CHR ''9'', ''1001''), (CHR ''a'', ''1010''), (CHR ''b'', ''1011''),
      (CHR ''c'', ''1100''), (CHR ''d'', ''1101''), (CHR ''e'', ''1110''), (CHR ''f'', ''1111'')]"

definition hex2bin_lookup :: "char \<Rightarrow> string res" where
  "hex2bin_lookup c = (case hex2bin c of None \<Rightarrow> Inl KeyError | Some s \<Rightarrow> Inr s)"

text \<open>
  \<open>is_long\<close> tells whether the argument is a Python 2 \<^verbatim>\<open>long\<close> (\<^verbatim>\<open>123L\<close>); the
  slices \<open>[:-n]\<close> and \<open>[-n:]\<close> keep Python's reading for \<open>n \<le> 0\<close>.
\<close>

definition int2bin :: "bool \<Rightarrow> int \<Rightarrow> int \<Rightarrow> string res" where
  "int2bin is_long i n =
     rbind (rmap hex2bin_lookup
              (slice_from (filter (\<lambda>c. c \<noteq> CHR ''l'') (map py_lower_hex (py_hex is_long i))) 2))
       (\<lambda>parts. let result = concat parts in
          if CHR ''1'' \<in> set (slice_to result (- n)) then Inl ValueError
          else (let result = slice_from result (- n)
                in Inr (replicate (nat (n - int (length result))) (CHR ''0'') @ result)))"

fun bits_value :: "nat \<Rightarrow> string \<Rightarrow> nat" where
  "bits_value a [] = a"
| "bits_value a (c # cs) = bits_value (2 * a + (if c = CHR ''1'' then 1 else 0)) cs"

definition is_bin_string :: "string \<Rightarrow> bool" where
  "is_bin_string s \<longleftrightarrow> s \<noteq> [] \<and> (\<forall>c \<in> set s. c = CHR ''0'' \<or> c = CHR ''1'')"

text \<open>\<^verbatim>\<open>int(bin_string, 2)\<close>: surrounding white space, a sign and a \<open>0b\<close> prefix are accepted.\<close>

definition drop_0b :: "string \<Rightarrow> string" where
  "drop_0b s = (if take 2 s = ''0b'' \<or> take 2 s = ''0B'' then drop 2 s else s)"

definition bin2int :: "string \<Rightarrow> int res" where
  "bin2int s =
     (let t = strip_by py2_space s;
          neg = (take 1 t = ''-'');
          u = drop_0b (if neg \<or> take 1 t = ''+'' then drop 1 t else t)
      in if is_bin_string u
         then Inr ((if neg then -1 else 1) * int (bits_value 0 u)) else Inl ValueError)"

lemma bits_value_acc: "bits_value a s = a * 2 ^ length s + bits_value 0 s"
proof (induction s arbitrary: a)
  case (Cons c cs)
  show ?case
    using Cons.IH [of "2 * a + (if c = CHR ''1'' then 1 else 0)"]
      Cons.IH [of "if c = CHR ''1'' then 1 else 0"]
    by (simp add: algebra_simps)
qed simp

lemma bits_value_append: "bits_value 0 (s @ t) = bits_value 0 s * 2 ^ length t + bits_value 0 t"
proof -
  have "bits_value a (s @ t) = bits_value (bits_value a s) t" for a
    by (induction s arbitrary: a) simp_all
  then show ?thesis by (metis bits_value_acc)
qed

lemma bits_value_Cons:
  "bits_value 0 (c # s) = (if c = CHR ''1'' then 2 ^ length s else 0) + bits_value 0 s"
  using bits_value_acc [of 1 s] by simp

lemma bits_value_less: "bits_value 0 s < 2 ^ length s"
  by (induction s) (simp_all add: bits_value_Cons del: bits_value.simps(2))

lemma bits_value_zero_iff: "bits_value 0 s = 0 \<longleftrightarrow> CHR ''1'' \<notin> set s"
  by (induction s) (simp_all add: bits_value_Cons del: bits_value.simps(2))

lemma bits_value_replicate0: "bits_value 0 (replicate k (CHR ''0'') @ s) = bits_value 0 s"
  by (induction k) simp_all

lemma hex2bin_digit:
  assumes "d < 16"
  shows "\<exists>s. hex2bin (hex_digit d) = Some s \<and> length s = 4 \<and> bits_value 0 s = d \<and>
             set s \<subseteq> {CHR ''0'', CHR ''1''}"
proof -
  have "\<forall>d \<in> set [0..<16]. \<exists>s. hex2bin (hex_digit d) = Some s \<and> length s = 4 \<and>
          bits_value 0 s = d \<and> set s \<subseteq> {CHR ''0'', CHR ''1''}"
    by (simp add: hex2bin_def hex_digit_def upt_rec)
  with assms show ?thesis by simp
qed

lemma hex_digit_no_l:
  assumes "d < 16" shows "hex_digit d \<noteq> CHR ''l'' \<and> hex_digit d \<noteq> CHR ''L''"
proof -
  have "\<forall>d \<in> set [0..<16]. hex_digit d \<noteq> CHR ''l'' \<and> hex_digit d \<noteq> CHR ''L''"
    by (simp add: hex_digit_def upt_rec)
  with assms show ?thesis by simp
qed

lemma hex_digits_no_l: "CHR ''l'' \<notin> set (hex_digits n) \<and> CHR ''L'' \<notin> set (hex_digits n)"
proof (induction n rule: hex_digits.induct)
  case (1 n)
  then show ?case
    using hex_digit_no_l [of n] hex_digit_no_l [of "n mod 16"]
    by (cases "n < 16") (auto simp: hex_digits.simps [of n])
qed

text \<open>The string \<open>result\<close> before it is cut: one nibble per hexadecimal digit.\<close>

lemma rmap_hex_digits:
  "\<exists>parts. rmap hex2bin_lookup (hex_digits n) = Inr parts \<and> bits_value 0 (concat parts) = n \<and>
           set (concat parts) \<subseteq> {CHR ''0'', CHR ''1''} \<and> concat parts \<noteq> []"
proof (induction n rule: hex_digits.induct)
  case (1 n)
  show ?case
  proof (cases "n < 16")
    case True
    with hex2bin_digit [OF True] show ?thesis
      by (auto simp: hex_digits.simps [of n] hex2bin_lookup_def)
  next
    case False
    from 1 False obtain parts where parts: "rmap hex2bin_lookup (hex_digits (n div 16)) = Inr parts"
      "bits_value 0 (concat parts) = n div 16" "set (concat parts) \<subseteq> {CHR ''0'', CHR ''1''}"
      "concat parts \<noteq> []"
      by auto
    obtain s where s: "hex2bin (hex_digit (n mod 16)) = Some s" "length s = 4"
      "bits_value 0 s = n mod 16" "set s \<subseteq> {CHR ''0'', CHR ''1''}"
      using hex2bin_digit [of "n mod 16"] by auto
    have rmap_snoc: "rmap f (xs @ [x]) =
        rbind (rmap f xs) (\<lambda>ys. rbind (f x) (\<lambda>y. Inr (ys @ [y])))"
      for f :: "char \<Rightarrow> string res" and xs x
      by (induction xs) (auto simp: rbind_def split: sum.splits)
    have "rmap hex2bin_lookup (hex_digits n) = Inr (parts @ [s])"
      using False parts(1) s(1) by (simp add: hex_digits.simps [of n] rmap_snoc hex2bin_lookup_def)
    moreover have "bits_value 0 (concat (parts @ [s])) = n"
      using parts(2) s(2,3) by (simp add: bits_value_append)
    ultimately show ?thesis using parts(3,4) s(4) by auto
  qed
qed

lemma hex_body:
  assumes "0 \<le> i"
  shows "slice_from (filter (\<lambda>c. c \<noteq> CHR ''l'') (map py_lower_hex (py_hex l i))) 2
         = hex_digits (nat i)"
proof -
  have keep: "filter (\<lambda>c. c \<noteq> CHR ''l'') (map py_lower_hex (hex_digits n)) = hex_digits n" for n
  proof -
    have "map py_lower_hex (hex_digits n) = hex_digits n"
      using hex_digits_no_l [of n] by (intro map_idI) (auto simp: py_lower_hex_def)
    then show ?thesis using hex_digits_no_l [of n] by (simp only: filter_id_conv) auto
  qed
  show ?thesis using assms keep [of "nat i"]
    by (simp add: py_hex_def slice_from_def norm_index_def) (simp add: py_lower_hex_def)
qed

lemma bin2int_bits:
  assumes "is_bin_string s" shows "bin2int s = Inr (int (bits_value 0 s))"
proof -
  from assms obtain c cs where s: "s = c # cs" by (auto simp: is_bin_string_def neq_Nil_conv)
  have "\<not> py2_space (CHR ''0'')" "\<not> py2_space (CHR ''1'')" by (simp_all add: py2_space_def)
  with assms have nosp: "c \<in> set s \<Longrightarrow> \<not> py2_space c" for c
    unfolding is_bin_string_def by metis
  have dw: "dropWhile py2_space xs = xs" if "\<And>x. x \<in> set xs \<Longrightarrow> \<not> py2_space x" for xs
    using that by (cases xs) auto
  have "dropWhile py2_space (rev s) = rev s" by (rule dw) (use nosp in simp)
  then have "strip_by py2_space s = s" by (simp add: strip_by_def dw nosp)
  moreover have "take 1 s \<noteq> ''-''" "take 1 s \<noteq> ''+''" "drop_0b s = s"
    using assms by (cases cs; auto simp: s is_bin_string_def drop_0b_def)+
  ultimately show ?thesis using assms by (simp add: bin2int_def)
qed

text \<open>Cutting the nibble string to its last \<open>n\<close> digits loses a one exactly when it is too big.\<close>

lemma cut_bits:
  assumes "0 < n"
  shows "CHR ''1'' \<in> set (take (length r - n) r) \<longleftrightarrow> 2 ^ n \<le> bits_value 0 r"
    and "CHR ''1'' \<notin> set (take (length r - n) r) \<Longrightarrow>
           bits_value 0 (drop (length r - n) r) = bits_value 0 r"
proof -
  let ?p = "take (length r - n) r" and ?q = "drop (length r - n) r"
  have split: "bits_value 0 r = bits_value 0 ?p * 2 ^ length ?q + bits_value 0 ?q"
    by (metis append_take_drop_id bits_value_append)
  have q: "bits_value 0 ?q < 2 ^ length ?q" by (rule bits_value_less)
  show "CHR ''1'' \<in> set ?p \<longleftrightarrow> 2 ^ n \<le> bits_value 0 r"
  proof
    assume one: "CHR ''1'' \<in> set ?p"
    then have "length ?q = n" by (cases "n \<le> length r") auto
    moreover obtain k where "bits_value 0 ?p = Suc k"
      using one bits_value_zero_iff [of ?p] by (cases "bits_value 0 ?p") auto
    ultimately show "2 ^ n \<le> bits_value 0 r" using split by simp
  next
    assume big: "2 ^ n \<le> bits_value 0 r"
    show "CHR ''1'' \<in> set ?p"
    proof (rule ccontr)
      assume "\<not> ?thesis"
      then have "bits_value 0 r = bits_value 0 ?q" using split bits_value_zero_iff [of ?p] by simp
      moreover have "(2::nat) ^ length ?q \<le> 2 ^ n" by (rule power_increasing) auto
      ultimately show False using q big by linarith
    qed
  qed
  show "CHR ''1'' \<notin> set ?p \<Longrightarrow> bits_value 0 ?q = bits_value 0 r"
    using split bits_value_zero_iff [of ?p] by simp
qed

lemma is_bin_string_pad:
  "set s \<subseteq> {CHR ''0'', CHR ''1''} \<Longrightarrow> replicate k (CHR ''0'') @ s \<noteq> [] \<Longrightarrow>
     is_bin_string (replicate k (CHR ''0'') @ s)"
  unfolding is_bin_string_def by (auto dest: in_set_replicate [THEN iffD1])

lemma int2bin_spec:
  assumes "0 \<le> i" and "0 < n"
  shows "if i < 2 ^ nat n
         then \<exists>s. int2bin l i n = Inr s \<and> length s = nat n \<and> is_bin_string s \<and> bits_value 0 s = nat i
         else int2bin l i n = Inl ValueError"
proof -
  obtain m where n: "n = int m" and m: "0 < m" using \<open>0 < n\<close> zero_less_imp_eq_int by auto
  obtain parts where parts: "rmap hex2bin_lookup (hex_digits (nat i)) = Inr parts"
    and val: "bits_value 0 (concat parts) = nat i"
    and bin: "set (concat parts) \<subseteq> {CHR ''0'', CHR ''1''}" and ne: "concat parts \<noteq> []"
    using rmap_hex_digits by blast
  define r where "r = concat parts"
  define q where "q = drop (length r - m) r"
  have run: "int2bin l i n = (if CHR ''1'' \<in> set (take (length r - m) r) then Inl ValueError
      else Inr (replicate (m - length q) (CHR ''0'') @ q))"
    using m by (simp add: int2bin_def hex_body [OF assms(1)] parts n slice_to_neg slice_from_neg
        Let_def r_def q_def del: length_concat flip: of_nat_diff)
  have small: "i < 2 ^ nat n \<longleftrightarrow> bits_value 0 r < 2 ^ m"
    using assms(1) val by (simp add: r_def n nat_less_iff flip: of_nat_power)
  have "length r - m < length r" using m ne by (simp add: r_def [symmetric])
  then have "q \<noteq> []" by (simp add: q_def)
  then have "is_bin_string (replicate (m - length q) (CHR ''0'') @ q)"
    using bin set_drop_subset [of "length r - m" r] by (intro is_bin_string_pad) (auto simp: q_def r_def)
  moreover have "length (replicate (m - length q) (CHR ''0'') @ q) = m" by (simp add: q_def)
  ultimately show ?thesis
    using run small cut_bits [OF m, of r] val
    by (auto simp: n bits_value_replicate0 q_def r_def [symmetric])
qed

section \<open>Bits: lsb and the Gray code\<close>

text \<open>For a negative \<open>n\<close>, \<^verbatim>\<open>2 ** n\<close> is a float and \<^verbatim>\<open>&\<close> rejects it.\<close>

definition lsb :: "int \<Rightarrow> int \<Rightarrow> int res" where
  "lsb x n = (if n < 0 then Inl TypeError else Inr (x AND (2 ^ nat n - 1)))"

definition gray_encode :: "int \<Rightarrow> int" where
  "gray_encode i = i XOR drop_bit 1 i"

lemma lsb_mod: "0 \<le> n \<Longrightarrow> lsb x n = Inr (x mod 2 ^ nat n)"
  by (simp add: lsb_def flip: take_bit_eq_mask mask_eq_exp_minus_1 take_bit_eq_mod)

text \<open>
  The increment flips a block of low bits; the shifted exclusive or keeps the top one of them.
\<close>

lemma xor_succ: "\<exists>k. (int n) XOR (int n + 1) = mask (Suc k)"
proof (induction n rule: less_induct)
  case (less n)
  show ?case
  proof (cases "even n")
    case True
    then obtain m where n: "n = 2 * m" by (auto elim: evenE)
    have "(2 * int m) XOR (2 * int m + 1) = 1"
      by (simp add: xor_rec [of "2 * int m"])
    then show ?thesis using n by (intro exI [of _ 0]) simp
  next
    case False
    then obtain m where n: "n = 2 * m + 1" by (auto elim: oddE)
    then have "m < n" by simp
    from less [OF this] obtain k where k: "int m XOR (int m + 1) = mask (Suc k)" by blast
    have "(2 * int m + 1) XOR (2 * (int m + 1)) = 2 * (int m XOR (int m + 1)) + 1"
      by (simp add: xor_rec [of "2 * int m + 1"])
    with k have "int n XOR (int n + 1) = 2 * mask (Suc k) + 1" by (simp add: n algebra_simps)
    also have "2 * mask (Suc k) + 1 = (mask (Suc (Suc k)) :: int)"
      by (simp add: mask_eq_exp_minus_1)
    finally show ?thesis by blast
  qed
qed

lemma gray_step:
  "gray_encode a XOR gray_encode b = (a XOR b) XOR drop_bit 1 (a XOR b)"
  by (rule bit_eqI) (auto simp: gray_encode_def bit_simps)

lemma mask_xor_half: "mask (Suc k) XOR drop_bit 1 (mask (Suc k)) = (2 ^ k :: int)"
  by (rule bit_eqI) (auto simp: bit_simps bit_exp_iff)

lemma xor_zeroD: "x XOR y = 0 \<Longrightarrow> x = (y::int)"
  by (metis xor.assoc xor.left_neutral xor.right_neutral xor_self_eq)

lemma gray_encode_inj_nonneg:
  assumes "gray_encode a = gray_encode b" "0 \<le> a" "0 \<le> b" shows "a = b"
proof -
  have "(a XOR b) XOR drop_bit 1 (a XOR b) = 0"
    using gray_step [of a b] assms(1) by simp
  then have "a XOR b = (a XOR b) div 2" by (auto dest: xor_zeroD simp: drop_bit_eq_div)
  moreover have "0 \<le> a XOR b" using assms by simp
  ultimately have "a XOR b = 0" by arith
  then show ?thesis by (rule xor_zeroD)
qed

section \<open>Euclid: gcf, lcm, reduce\_fraction\<close>

text \<open>
  The integer case.  An integer remainder is above the default \<open>epsilon = 1e-16\<close> in
  magnitude exactly when it is not zero, so the loop test is \<open>remainder \<noteq> 0\<close>.
\<close>

function gcf_loop :: "int \<Rightarrow> int \<Rightarrow> int" where
  "gcf_loop result remainder =
     (if remainder \<noteq> 0 then gcf_loop remainder (result mod remainder) else \<bar>result\<bar>)"
  by pat_completeness auto
termination
  by (relation "measure (\<lambda>(a, b). nat \<bar>b\<bar>)") (auto simp: abs_mod_less)

declare gcf_loop.simps [simp del]

definition gcf :: "int \<Rightarrow> int \<Rightarrow> int" where
  "gcf a b = gcf_loop (max a b) (min a b)"

definition lcm_py :: "int \<Rightarrow> int \<Rightarrow> int" where
  "lcm_py a b = (let denom = gcf a b in if denom = 0 then 0 else a * (b div denom))"

definition reduce_fraction :: "int \<times> int \<Rightarrow> (int \<times> int) res" where
  "reduce_fraction fraction =
     (let (numerator, denominator) = fraction; common_factor = \<bar>gcf numerator denominator\<bar>
      in if common_factor = 0 then Inl ZeroDivisionError
         else Inr (numerator div common_factor, denominator div common_factor))"

lemma gcf_loop_gcd: "gcf_loop a b = gcd a b"
proof (induction a b rule: gcf_loop.induct)
  case (1 a b)
  show ?case
  proof (cases "b = 0")
    case True
    then show ?thesis by (simp add: gcf_loop.simps [of a 0])
  next
    case False
    with 1 show ?thesis by (simp add: gcf_loop.simps [of a b] gcd_red_int [of a b])
  qed
qed

lemma gcf_gcd: "gcf a b = gcd a b"
  by (simp add: gcf_def gcf_loop_gcd max_def min_def gcd.commute)

lemma lcm_py_abs: "\<bar>lcm_py a b\<bar> = lcm a b"
proof (cases "gcd a b = 0")
  case False
  then show ?thesis
    by (simp add: lcm_py_def gcf_gcd Let_def div_mult_swap lcm_gcd)
qed (simp add: lcm_py_def gcf_gcd)

lemma reduce_fraction_spec:
  "(n, d) \<noteq> (0, 0) \<Longrightarrow>
     \<exists>n' d'. reduce_fraction (n, d) = Inr (n', d') \<and> coprime n' d' \<and> n * d' = n' * d \<and>
             sgn n' = sgn n \<and> sgn d' = sgn d"
proof -
  assume "(n, d) \<noteq> (0, 0)"
  then have g: "gcd n d \<noteq> 0" by auto
  let ?g = "gcd n d"
  have n: "n = n div ?g * ?g" and d: "d = d div ?g * ?g" by simp_all
  have pos: "0 < ?g" using g by simp
  have cp: "coprime (n div ?g) (d div ?g)" using g by (auto intro: div_gcd_coprime)
  have sg: "sgn (x div ?g) = sgn x" if "x = x div ?g * ?g" for x
    using pos by (subst (2) that) (simp add: sgn_mult)
  have "n * (d div ?g) = (n div ?g) * d" 
    by (metis div_mult_swap dvd_div_mult gcd_dvd1 gcd_dvd2)
  with cp sg [OF n] sg [OF d] g show ?thesis by (simp add: reduce_fraction_def gcf_gcd Let_def)
qed

section \<open>Permutations\<close>

definition list_insert :: "nat \<Rightarrow> 'a \<Rightarrow> 'a list \<Rightarrow> 'a list" where
  "list_insert i x xs = take i xs @ x # drop i xs"

fun permutations :: "'a list \<Rightarrow> 'a list list" where
  "permutations input_list =
     (if 1 < length input_list then
        concat (map (\<lambda>sub_list. map (\<lambda>i. list_insert i (hd input_list) sub_list)
                                  [0..<length input_list])
                    (permutations (tl input_list)))
      else [input_list])"

declare permutations.simps [simp del]

lemma permutations_Nil: "permutations [] = [[]]"
  by (simp add: permutations.simps)

lemma permutations_one: "permutations [x] = [[x]]"
  by (simp add: permutations.simps)

lemma permutations_Cons:
  "xs \<noteq> [] \<Longrightarrow> permutations (x # xs) =
     concat (map (\<lambda>sub. map (\<lambda>i. list_insert i x sub) [0..<Suc (length xs)]) (permutations xs))"
  by (subst permutations.simps) (simp del: upt_Suc)

lemma mset_list_insert: "mset (list_insert i x xs) = add_mset x (mset xs)"
proof -
  have "mset (take i xs) + mset (drop i xs) = mset xs"
    by (metis append_take_drop_id mset_append)
  then show ?thesis by (simp add: list_insert_def)
qed

lemma permutations_mset: "ys \<in> set (permutations xs) \<longleftrightarrow> mset ys = mset xs"
proof (induction xs arbitrary: ys)
  case Nil
  then show ?case by (simp add: permutations_Nil)
next
  case (Cons x xs)
  show ?case
  proof (cases "xs = []")
    case True
    then show ?thesis by (auto simp: permutations_one)
  next
    case False
    let ?L = "\<exists>zs i. mset zs = mset xs \<and> i \<le> length xs \<and> ys = list_insert i x zs"
    have "?L \<longleftrightarrow> mset ys = add_mset x (mset xs)" (is "_ \<longleftrightarrow> ?R")
    proof
      assume ?L then show ?R by (auto simp: mset_list_insert)
    next
      assume r: ?R
      then have "x \<in> set ys" by (metis set_mset_mset union_single_eq_member)
      then obtain as bs where ys: "ys = as @ x # bs" by (auto dest: split_list)
      with r have zs: "mset (as @ bs) = mset xs" by simp
      then have "length as \<le> length xs" by (metis length_append le_add1 size_mset)
      moreover have "ys = list_insert (length as) x (as @ bs)" by (simp add: ys list_insert_def)
      ultimately show ?L using zs by blast
    qed
    moreover have "ys \<in> set (permutations (x # xs)) \<longleftrightarrow> ?L"
      using False by (force simp: permutations_Cons Cons.IH less_Suc_eq_le simp del: upt_Suc)
    ultimately show ?thesis by simp
  qed
qed

lemma permutations_length: "length (permutations xs) = fact (length xs)"
proof (induction xs)
  case (Cons x xs)
  then show ?case
    by (cases "xs = []")
      (simp_all add: permutations_one permutations_Cons length_concat comp_def sum_list_triv
        del: upt_Suc)
qed (simp add: permutations_Nil)

section \<open>Duplicates and reversed dictionaries\<close>

text \<open>
  \<open>d.keys()\<close> has an arbitrary order in Python 2: \<open>ko\<close> is that order, a
  permutation.  \<open>hashable\<close> tells which items can be dictionary keys; the first one that
  cannot raises the \<^verbatim>\<open>TypeError\<close> that selects the slow algorithm.
\<close>

fun uniq_scan :: "'a list \<Rightarrow> 'a list \<Rightarrow> 'a list" where
  "uniq_scan d [] = []"
| "uniq_scan d (x # xs) = (if x \<in> set d then uniq_scan d xs else x # uniq_scan (d @ [x]) xs)"

fun uniq_keys :: "'a list \<Rightarrow> 'a list \<Rightarrow> 'a list" where
  "uniq_keys d [] = d"
| "uniq_keys d (x # xs) = uniq_keys (if x \<in> set d then d else d @ [x]) xs"

fun uniq_slow :: "'a list \<Rightarrow> 'a list \<Rightarrow> 'a list" where
  "uniq_slow result [] = result"
| "uniq_slow result (x # xs) = uniq_slow (if x \<in> set result then result else result @ [x]) xs"

definition uniquify ::
  "('a list \<Rightarrow> 'a list) \<Rightarrow> ('a \<Rightarrow> bool) \<Rightarrow> 'a list \<Rightarrow> bool \<Rightarrow> 'a list" where
  "uniquify ko hashable seq preserve_order =
     (if list_all hashable seq
      then if preserve_order then uniq_scan [] seq else ko (uniq_keys [] seq)
      else uniq_slow [] seq)"

lemma uniq_keys_scan: "uniq_keys d xs = d @ uniq_scan d xs"
  by (induction xs arbitrary: d) simp_all

lemma uniq_slow_scan: "uniq_slow d xs = d @ uniq_scan d xs"
  by (induction xs arbitrary: d) simp_all

lemma uniq_scan_set: "set (uniq_scan d xs) = set xs - set d"
  by (induction xs arbitrary: d) auto

lemma uniq_scan_distinct: "distinct (uniq_scan d xs)"
  by (induction xs arbitrary: d) (auto simp: uniq_scan_set)

lemma uniq_scan_subseq: "subseq (uniq_scan d xs) xs"
  by (induction xs arbitrary: d) auto

lemma uniq_scan_filter: "uniq_scan d xs = uniq_scan [] (filter (\<lambda>x. x \<notin> set d) xs)"
proof (induction xs arbitrary: d rule: length_induct)
  case (1 xs)
  show ?case
  proof (cases xs)
    case (Cons x ys)
    have "uniq_scan (d @ [x]) ys = uniq_scan [] (filter (\<lambda>y. y \<notin> set (d @ [x])) ys)"
      using 1 [rule_format, of ys "d @ [x]"] Cons by simp
    moreover have "uniq_scan [x] (filter (\<lambda>y. y \<notin> set d) ys) =
        uniq_scan [] (filter (\<lambda>y. y \<notin> set [x]) (filter (\<lambda>y. y \<notin> set d) ys))"
      using 1 [rule_format, of "filter (\<lambda>y. y \<notin> set d) ys" "[x]"] Cons
      by (simp add: le_imp_less_Suc)
    moreover have "uniq_scan d ys = uniq_scan [] (filter (\<lambda>x. x \<notin> set d) ys)"
      using 1 [rule_format, of ys d] Cons by simp
    ultimately show ?thesis using Cons by (simp add: conj_commute)
  qed simp
qed

lemma remdups_snoc: "remdups (xs @ [x]) = remdups (filter (\<lambda>y. y \<noteq> x) xs) @ [x]"
  by (induction xs) auto

lemma uniq_scan_first: "uniq_scan [] xs = rev (remdups (rev xs))"
proof (induction xs rule: length_induct)
  case (1 xs)
  show ?case
  proof (cases xs)
    case (Cons x ys)
    have "length (filter (\<lambda>y. y \<noteq> x) ys) < length xs" by (simp add: Cons le_imp_less_Suc)
    then have "uniq_scan [x] ys = rev (remdups (rev (filter (\<lambda>y. y \<noteq> x) ys)))"
      using 1 by (subst uniq_scan_filter) simp
    then show ?thesis by (simp add: Cons remdups_snoc rev_filter)
  qed simp
qed

text \<open>\<open>reverse_dict\<close>: later items win when a value occurs twice.\<close>

fun reverse_dict_loop :: "('v \<times> 'k) list \<Rightarrow> ('k \<times> 'v) list \<Rightarrow> ('v \<times> 'k) list" where
  "reverse_dict_loop result [] = result"
| "reverse_dict_loop result ((key, val) # items) =
     reverse_dict_loop (AList.update val key result) items"

definition reverse_dict :: "('k \<times> 'v) list \<Rightarrow> ('v \<times> 'k) list" where
  "reverse_dict d = reverse_dict_loop [] d"

lemma reverse_dict_loop_map_of:
  "distinct (map snd d) \<Longrightarrow> set (map snd d) \<inter> dom (map_of r) = {} \<Longrightarrow>
     map_of (reverse_dict_loop r d) v =
       (case map_of (map prod.swap d) v of Some k \<Rightarrow> Some k | None \<Rightarrow> map_of r v)"
proof (induction r d rule: reverse_dict_loop.induct)
  case (2 result key val items)
  have "set (map snd items) \<inter> dom (map_of (AList.update val key result)) = {}"
    using "2.prems" by (auto simp: update_conv')
  moreover have "distinct (map snd items)" using "2.prems"(1) by simp
  ultimately have "map_of (reverse_dict_loop (AList.update val key result) items) v =
      (case map_of (map prod.swap items) v of Some k \<Rightarrow> Some k
       | None \<Rightarrow> map_of (AList.update val key result) v)"
    by (intro "2.IH")
  moreover have "map_of (map prod.swap items) val = None"
    using "2.prems"(1) by (force simp: map_of_eq_None_iff)
  ultimately show ?case by (auto simp: update_conv' split: option.splits)
qed simp

section \<open>All binary numbers of a width: binary\_range\<close>

text \<open>
  The inner loop ripples a carry through the digits \<open>v\<close>, least significant first;
  \<open>toggle ! i\<close> is the carry into digit \<open>i\<close>.
\<close>

function incr_loop :: "nat \<Rightarrow> nat \<Rightarrow> string \<Rightarrow> nat list \<Rightarrow> string \<times> nat list" where
  "incr_loop bits i v toggle =
     (if i < bits \<and> toggle ! i = 1 then
        (if v ! i = CHR ''0''
         then incr_loop bits (i + 1) (v[i := CHR ''1'']) (toggle[i + 1 := 0])
         else incr_loop bits (i + 1) (v[i := CHR ''0'']) (toggle[i + 1 := 1]))
      else (v, toggle))"
  by pat_completeness auto
termination
  by (relation "measure (\<lambda>(bits, i, v, toggle). bits - i)") auto

declare incr_loop.simps [simp del]

partial_function (option) binary_loop ::
  "nat \<Rightarrow> string \<Rightarrow> nat list \<Rightarrow> string list \<Rightarrow> string list option" where
  "binary_loop bits v toggle l =
     (if toggle ! bits \<noteq> 1 then
        binary_loop bits (fst (incr_loop bits 0 v (1 # replicate bits 0)))
                         (snd (incr_loop bits 0 v (1 # replicate bits 0))) (l @ [rev v])
      else Some l)"

definition binary_range :: "nat \<Rightarrow> string list option" where
  "binary_range bits = binary_loop bits (replicate bits (CHR ''0'')) (1 # replicate bits 0) []"

text \<open>What the inner loop computes on the digits from position \<open>i\<close> on.\<close>

fun incr :: "string \<Rightarrow> string" where
  "incr [] = []"
| "incr (c # cs) = (if c = CHR ''0'' then CHR ''1'' # cs else CHR ''0'' # incr cs)"

lemma incr_loop_spec:
  "length v = bits \<Longrightarrow> length toggle = Suc bits \<Longrightarrow> i \<le> bits \<Longrightarrow> toggle ! i = 1 \<Longrightarrow>
   (\<forall>j. i < j \<and> j \<le> bits \<longrightarrow> toggle ! j = 0) \<Longrightarrow>
   fst (incr_loop bits i v toggle) = take i v @ incr (drop i v) \<and>
   (snd (incr_loop bits i v toggle) ! bits = 1 \<longleftrightarrow> CHR ''0'' \<notin> set (drop i v))"
proof (induction bits i v toggle rule: incr_loop.induct)
  case (1 bits i v toggle)
  show ?case
  proof (cases "i < bits")
    case False
    then show ?thesis using "1.prems" by (simp add: incr_loop.simps [of bits bits])
  next
    case True
    have dr: "drop i v = v ! i # drop (Suc i) v" using True "1.prems"(1) by (simp add: Cons_nth_drop_Suc)
    show ?thesis
    proof (cases "v ! i = CHR ''0''")
      case zero: True
      have "incr_loop bits (Suc i) (v[i := CHR ''1'']) (toggle[Suc i := 0]) =
              (v[i := CHR ''1''], toggle[Suc i := 0])"
        using True "1.prems" by (simp add: incr_loop.simps [of bits "Suc i"])
      then have run: "incr_loop bits i v toggle = (v[i := CHR ''1''], toggle[Suc i := 0])"
        using True zero "1.prems" by (simp add: incr_loop.simps [of bits i])
      have "toggle[Suc i := 0] ! bits = 0"
        using True "1.prems" by (cases "bits = Suc i") auto
      then show ?thesis using True "1.prems"(1) zero run
        by (simp add: dr upd_conv_take_nth_drop)
    next
      case one: False
      have "incr_loop bits i v toggle =
          incr_loop bits (Suc i) (v[i := CHR ''0'']) (toggle[Suc i := 1])"
        using True one "1.prems" by (simp add: incr_loop.simps [of bits i])
      moreover have "fst (incr_loop bits (Suc i) (v[i := CHR ''0'']) (toggle[Suc i := 1])) =
            take (Suc i) (v[i := CHR ''0'']) @ incr (drop (Suc i) (v[i := CHR ''0''])) \<and>
          (snd (incr_loop bits (Suc i) (v[i := CHR ''0'']) (toggle[Suc i := 1])) ! bits = 1 \<longleftrightarrow>
            CHR ''0'' \<notin> set (drop (Suc i) (v[i := CHR ''0''])))"
        using "1.IH"(2) True one "1.prems" by simp
      ultimately show ?thesis using True one "1.prems"(1)
        by (simp add: dr take_Suc_conv_app_nth)
    qed
  qed
qed

lemma incr_value:
  "CHR ''0'' \<in> set v \<Longrightarrow> set v \<subseteq> {CHR ''0'', CHR ''1''} \<Longrightarrow>
     bits_value 0 (rev (incr v)) = Suc (bits_value 0 (rev v))"
  by (induction v) (auto simp: bits_value_append)

lemma incr_digits: "set v \<subseteq> {CHR ''0'', CHR ''1''} \<Longrightarrow> set (incr v) \<subseteq> {CHR ''0'', CHR ''1''}"
  by (induction v) auto

lemma length_incr [simp]: "length (incr v) = length v"
  by (induction v) auto

lemma all_ones_value:
  "set v \<subseteq> {CHR ''0'', CHR ''1''} \<Longrightarrow> CHR ''0'' \<notin> set v \<longleftrightarrow> Suc (bits_value 0 v) = 2 ^ length v"
proof (induction v)
  case (Cons c v)
  have "bits_value 0 v < 2 ^ length v" by (rule bits_value_less)
  then show ?case using Cons by (auto simp: bits_value_Cons simp del: bits_value.simps(2))
qed simp

text \<open>Two digit strings of one length with one value are equal.\<close>

lemma bits_value_inj:
  "set s \<subseteq> {CHR ''0'', CHR ''1''} \<Longrightarrow> set t \<subseteq> {CHR ''0'', CHR ''1''} \<Longrightarrow> length s = length t \<Longrightarrow>
     bits_value 0 s = bits_value 0 t \<Longrightarrow> s = t"
proof (induction s arbitrary: t)
  case (Cons c s)
  then obtain d t' where t: "t = d # t'" by (cases t) auto
  have less: "bits_value 0 s < 2 ^ length s" "bits_value 0 t' < 2 ^ length t'"
    by (rule bits_value_less)+
  have len: "length t' = length s" using Cons.prems(3) t by simp
  have c: "c = CHR ''0'' \<or> c = CHR ''1''" and d: "d = CHR ''0'' \<or> d = CHR ''1''"
    using Cons.prems(1,2) t by auto
  have val: "(if c = CHR ''1'' then 2 ^ length s else 0) + bits_value 0 s =
      (if d = CHR ''1'' then 2 ^ length s else 0) + bits_value 0 t'"
    using Cons.prems(4) len unfolding t bits_value_Cons by simp
  have cd: "c = d"
    using c d val less len by (elim disjE) simp_all
  with val have "bits_value 0 s = bits_value 0 t'" by simp
  moreover have "set s \<subseteq> {CHR ''0'', CHR ''1''}" "set t' \<subseteq> {CHR ''0'', CHR ''1''}"
    using Cons.prems(1,2) t by simp_all
  ultimately have "s = t'" using Cons.IH len by metis
  with cd t show ?case by simp
qed simp

lemma binary_loop_spec:
  assumes "length v = bits" "set v \<subseteq> {CHR ''0'', CHR ''1''}" "toggle ! bits \<noteq> 1"
  shows "\<exists>m. binary_loop bits v toggle l = Some (l @ m) \<and>
             map (bits_value 0) m = [bits_value 0 (rev v)..<2 ^ bits] \<and>
             (\<forall>s \<in> set m. length s = bits \<and> set s \<subseteq> {CHR ''0'', CHR ''1''})"
  using assms
proof (induction "2 ^ bits - bits_value 0 (rev v)" arbitrary: v toggle l rule: less_induct)
  case less
  let ?v = "fst (incr_loop bits 0 v (1 # replicate bits 0))"
  let ?t = "snd (incr_loop bits 0 v (1 # replicate bits 0))"
  have inner: "?v = incr v" "?t ! bits = 1 \<longleftrightarrow> CHR ''0'' \<notin> set v"
  proof -
    have "\<forall>j. 0 < j \<and> j \<le> bits \<longrightarrow> (1 # replicate bits 0) ! j = (0::nat)"
      by (auto simp: nth_Cons' )
    with incr_loop_spec [of v bits "1 # replicate bits 0" 0] less.prems(1)
    show "?v = incr v" "?t ! bits = 1 \<longleftrightarrow> CHR ''0'' \<notin> set v" by simp_all
  qed
  have lt: "bits_value 0 (rev v) < 2 ^ bits"
    using bits_value_less [of "rev v"] less.prems(1) by simp
  have step: "binary_loop bits v toggle l = binary_loop bits ?v ?t (l @ [rev v])"
    using less.prems(3) by (subst binary_loop.simps) simp
  show ?case
  proof (cases "CHR ''0'' \<in> set v")
    case True
    then have val: "bits_value 0 (rev (incr v)) = Suc (bits_value 0 (rev v))"
      using less.prems(2) by (rule incr_value)
    have "\<exists>m. binary_loop bits ?v ?t (l @ [rev v]) = Some ((l @ [rev v]) @ m) \<and>
             map (bits_value 0) m = [bits_value 0 (rev ?v)..<2 ^ bits] \<and>
             (\<forall>s \<in> set m. length s = bits \<and> set s \<subseteq> {CHR ''0'', CHR ''1''})"
      using True less.prems lt inner val by (intro less.hyps) (auto simp: incr_digits)
    then obtain m where m: "binary_loop bits v toggle l = Some (l @ rev v # m)"
      "map (bits_value 0) m = [Suc (bits_value 0 (rev v))..<2 ^ bits]"
      "\<forall>s \<in> set m. length s = bits \<and> set s \<subseteq> {CHR ''0'', CHR ''1''}"
      using step inner(1) val by auto
    show ?thesis using m lt less.prems(1,2)
      by (intro exI [of _ "rev v # m"]) (simp add: upt_conv_Cons)
  next
    case False
    then have "Suc (bits_value 0 (rev v)) = 2 ^ bits"
      using all_ones_value [of "rev v"] less.prems(1,2) by simp
    moreover have "binary_loop bits ?v ?t (l @ [rev v]) = Some (l @ [rev v])"
      using inner False by (subst binary_loop.simps) simp
    ultimately show ?thesis using step less.prems(1,2)
      by (intro exI [of _ "[rev v]"]) (simp flip: \<open>Suc _ = _\<close>)
  qed
qed

section \<open>Common prefix and suffix\<close>

function prefix_loop :: "string \<Rightarrow> string \<Rightarrow> nat \<Rightarrow> string" where
  "prefix_loop s1 s2 i =
     (if i < min (length s1) (length s2) then
        (if s1 ! i \<noteq> s2 ! i then [] else s1 ! i # prefix_loop s1 s2 (i + 1))
      else [])"
  by pat_completeness auto
termination
  by (relation "measure (\<lambda>(s1, s2, i). min (length s1) (length s2) - i)") auto

declare prefix_loop.simps [simp del]

text \<open>\<open>s1[-i]\<close> with \<open>1 \<le> i \<le> len(s1)\<close> is \<open>s1 ! (length s1 - i)\<close>.\<close>

function suffix_loop :: "string \<Rightarrow> string \<Rightarrow> nat \<Rightarrow> string" where
  "suffix_loop s1 s2 i =
     (if i < min (length s1) (length s2) + 1 then
        (if s1 ! (length s1 - i) \<noteq> s2 ! (length s2 - i) then []
         else s1 ! (length s1 - i) # suffix_loop s1 s2 (i + 1))
      else [])"
  by pat_completeness auto
termination
  by (relation "measure (\<lambda>(s1, s2, i). min (length s1) (length s2) + 1 - i)") auto

declare suffix_loop.simps [simp del]

definition find_common_fixes :: "string \<Rightarrow> string \<Rightarrow> string \<times> string" where
  "find_common_fixes s1 s2 = (prefix_loop s1 s2 0, rev (suffix_loop s1 s2 1))"

lemma prefix_loop_lcp: "prefix_loop s1 s2 i = longest_common_prefix (drop i s1) (drop i s2)"
proof (induction s1 s2 i rule: prefix_loop.induct)
  case (1 s1 s2 i)
  show ?case
  proof (cases "i < min (length s1) (length s2)")
    case True
    then have "drop i s1 = s1 ! i # drop (Suc i) s1" "drop i s2 = s2 ! i # drop (Suc i) s2"
      by (simp_all add: Cons_nth_drop_Suc)
    then show ?thesis using 1 True by (simp add: prefix_loop.simps [of s1 s2 i])
  next
    case False
    then have "drop i s1 = [] \<or> drop i s2 = []" by auto
    then have "longest_common_prefix (drop i s1) (drop i s2) = []"
      by (metis longest_common_prefix.simps(2,3))
    with False show ?thesis by (simp add: prefix_loop.simps [of s1 s2 i])
  qed
qed

lemma suffix_loop_prefix_loop: "suffix_loop s1 s2 (Suc i) = prefix_loop (rev s1) (rev s2) i"
proof (induction "rev s1" "rev s2" i rule: prefix_loop.induct)
  case (1 i)
  then show ?case
    by (cases "i < min (length s1) (length s2)")
      (simp_all add: prefix_loop.simps [of "rev s1" "rev s2" i] suffix_loop.simps [of s1 s2 "Suc i"]
        rev_nth)
qed

lemma find_common_fixes_lcp:
  "find_common_fixes s1 s2 =
     (longest_common_prefix s1 s2, rev (longest_common_prefix (rev s1) (rev s2)))"
  using suffix_loop_prefix_loop [of s1 s2 0]
  by (simp add: find_common_fixes_def prefix_loop_lcp)

section \<open>Rotations\<close>

definition is_rotated :: "'a list \<Rightarrow> 'a list \<Rightarrow> bool res" where
  "is_rotated seq1 seq2 =
     (if length seq1 \<noteq> length seq2 then Inr False
      else rbind (py_index seq2 0) (\<lambda>head_item.
        let start_indexes = filter (\<lambda>index1. seq1 ! index1 = head_item) [0..<length seq1];
            double_seq1 = seq1 @ seq1
        in Inr (list_ex (\<lambda>index1. slice double_seq1 (int index1) (int (index1 + length seq1)) = seq2)
                        start_indexes)))"

lemma rotate_window:
  assumes "i < length xs"
  shows "slice (xs @ xs) (int i) (int (i + length xs)) = rotate i xs"
proof -
  have "slice (xs @ xs) (int i) (int (i + length xs)) = take (length xs) (drop i (xs @ xs))"
    using slice_nat [of i "i + length xs" "xs @ xs"] by simp
  also have "\<dots> = rotate i xs"
    using assms by (simp add: rotate_drop_take)
  finally show ?thesis .
qed

lemma is_rotated_iff:
  assumes "seq1 \<noteq> []"
  shows "is_rotated seq1 seq2 = Inr (\<exists>k. seq2 = rotate k seq1)"
proof (cases "length seq1 = length seq2")
  case False
  then show ?thesis by (auto simp: is_rotated_def)
next
  case True
  have ne: "seq2 \<noteq> []" using True assms by auto
  have "(\<exists>i < length seq1. seq1 ! i = seq2 ! 0 \<and> rotate i seq1 = seq2) \<longleftrightarrow>
        (\<exists>k. seq2 = rotate k seq1)" (is "?L \<longleftrightarrow> ?R")
  proof
    assume ?R
    then obtain k where k: "seq2 = rotate k seq1" by blast
    let ?i = "k mod length seq1"
    have i: "?i < length seq1" using assms by simp
    have "seq2 = rotate ?i seq1" using k by (simp add: rotate_conv_mod [of k])
    moreover from this have "seq1 ! ?i = seq2 ! 0" using i nth_rotate [of 0 seq1 ?i] assms by simp
    ultimately show ?L using i by metis
  qed auto
  moreover have "py_index seq2 0 = Inr (seq2 ! 0)"
    using ne py_index_nat [of 0 seq2] by simp
  ultimately show ?thesis using True rotate_window [of _ seq1]
    by (auto simp: is_rotated_def Let_def list_ex_iff)
qed

section \<open>Rounding to a grid\<close>

text \<open>
  Integer arguments.  \<open>add_one\<close> is assigned on three branches only; the last expression
  reads it on every path.
\<close>

definition round_grid :: "int \<Rightarrow> int \<Rightarrow> int \<Rightarrow> int res" where
  "round_grid val grid mode =
     (if grid = 0 then Inl ZeroDivisionError
      else (let off_grid = val mod grid;
                add_one = (if mode = 0 then Some (if 2 * off_grid \<ge> grid then 1 else 0)
                           else if mode = 1 \<and> off_grid \<noteq> 0 then Some 1
                           else if mode = -1 \<and> off_grid \<noteq> 0 then Some 0
                           else None)
            in case add_one of None \<Rightarrow> Inl UnboundLocalError
               | Some k \<Rightarrow> Inr ((val div grid + k) * grid)))"

lemma round_grid_nearest:
  assumes "0 < grid"
  shows "\<exists>r. round_grid val grid 0 = Inr r \<and> grid dvd r \<and> 2 * \<bar>r - val\<bar> \<le> grid"
proof -
  have b: "0 \<le> val mod grid" "val mod grid < grid" using assms by simp_all
  show ?thesis
  proof (cases "grid \<le> 2 * (val mod grid)")
    case True
    have "(val div grid + 1) * grid - val = grid - val mod grid"
      by (simp add: algebra_simps flip: minus_div_mult_eq_mod)
    moreover have "2 * \<bar>grid - val mod grid\<bar> \<le> grid" using True b by (simp add: abs_of_nonneg)
    ultimately show ?thesis using True assms
      by (intro exI [of _ "(val div grid + 1) * grid"]) (simp add: round_grid_def Let_def)
  next
    case False
    have "val div grid * grid - val = - (val mod grid)"
      by (simp flip: minus_div_mult_eq_mod)
    with False b assms show ?thesis
      by (intro exI [of _ "val div grid * grid"]) (simp add: round_grid_def Let_def)
  qed
qed

lemma round_grid_exact_up: "round_grid (k * grid) grid 1 = (if grid = 0 then Inl ZeroDivisionError else Inl UnboundLocalError)"
  by (simp add: round_grid_def)

section \<open>Strings and matrices: reverse, transpose, get\_args\<close>

definition reverse :: "string \<Rightarrow> string" where
  "reverse input_string = (let str_list = input_string in concat (map (\<lambda>c. [c]) (rev str_list)))"

text \<open>\<^verbatim>\<open>zip(*matrix)\<close> stops at the shortest row; without rows it is empty.\<close>

definition min_len :: "'a list list \<Rightarrow> nat" where
  "min_len m = (case m of [] \<Rightarrow> 0 | r # rs \<Rightarrow> foldl (\<lambda>n r. min n (length r)) (length r) rs)"

definition transpose_py :: "'a list list \<Rightarrow> 'a list list" where
  "transpose_py matrix = map (\<lambda>j. map (\<lambda>row. row ! j) matrix) [0..<min_len matrix]"

lemma foldl_min_le: "foldl (\<lambda>n r. min n (length r)) k rs \<le> k"
proof (induction rs arbitrary: k)
  case (Cons r rs)
  show ?case using Cons.IH [of "min k (length r)"] by simp
qed simp

lemma min_len_rect:
  assumes "\<And>r. r \<in> set m \<Longrightarrow> length r = c" and "m \<noteq> []"
  shows "min_len m = c"
proof -
  have "foldl (\<lambda>n r. min n (length r)) c rs = c" if "\<And>r. r \<in> set rs \<Longrightarrow> length r = c" for rs :: "'a list list"
    using that by (induction rs) simp_all
  with assms show ?thesis by (cases m) (simp_all add: min_len_def)
qed

lemma transpose_py_involution:
  assumes rect: "\<And>r. r \<in> set m \<Longrightarrow> length r = c" and "m \<noteq> []" and "0 < c"
  shows "transpose_py (transpose_py m) = m"
proof -
  have t: "transpose_py m = map (\<lambda>j. map (\<lambda>row. row ! j) m) [0..<c]"
    using min_len_rect [of m c] assms by (simp add: transpose_py_def)
  have "min_len (transpose_py m) = length m"
    using assms(3) by (intro min_len_rect) (auto simp: t)
  then show ?thesis
    by (simp add: transpose_py_def [of "transpose_py m"]) (rule nth_equalityI; auto simp: t rect intro!: nth_equalityI)
qed

text \<open>\<open>re.sub(r'^-+', '', arg).split('=')\<close> and the dictionary of options.\<close>

datatype arg_value = ArgNone | ArgString string | ArgList "string list"

fun get_args_loop ::
  "(string \<times> arg_value) list \<Rightarrow> string list \<Rightarrow> string list \<Rightarrow> (string \<times> arg_value) list" where
  "get_args_loop d args [] = AList.update ''args'' (ArgList args) d"
| "get_args_loop d args (arg # argv) =
     (if take 1 arg = ''-'' then
        (let parts = split_on (CHR ''='') (dropWhile (\<lambda>c. c = CHR ''-'') arg)
         in if length parts = 2
            then get_args_loop (AList.update (parts ! 0) (ArgString (parts ! 1)) d) args argv
            else get_args_loop (AList.update (parts ! 0) ArgNone d) args argv)
      else get_args_loop d (args @ [arg]) argv)"

definition get_args :: "string list \<Rightarrow> (string \<times> arg_value) list" where
  "get_args argv = get_args_loop [] [] argv"

lemma get_args_positional:
  "map_of (get_args argv) ''args'' = Some (ArgList (filter (\<lambda>a. take 1 a \<noteq> ''-'') argv))"
proof -
  have "map_of (get_args_loop d args argv) ''args'' =
      Some (ArgList (args @ filter (\<lambda>a. take 1 a \<noteq> ''-'') argv))" for d args
    by (induction argv arbitrary: d args) (simp_all add: update_conv' Let_def)
  then show ?thesis by (simp add: get_args_def)
qed

section \<open>Properties\<close>

text \<open>
  For a non-negative integer and a positive width, \<open>int2bin\<close> (on an \<open>int\<close> or a
  \<open>long\<close>) returns exactly when the integer fits, the result has that many digits, and
  \<open>bin2int\<close> reads it back; otherwise it raises \<open>ValueError\<close>.
\<close>

theorem int2bin_roundtrip:
  assumes "0 \<le> i" and "0 < n"
  shows "if i < 2 ^ nat n
         then \<exists>s. int2bin is_long i n = Inr s \<and> length s = nat n \<and> bin2int s = Inr i
         else int2bin is_long i n = Inl ValueError"
  using int2bin_spec [OF assms, of is_long] assms(1) by (auto simp: bin2int_bits split: if_splits)

theorem int2bin_roundtrip_witness:
  "\<exists>s. int2bin True 123 8 = Inr s \<and> length s = nat 8 \<and> bin2int s = Inr 123"
  using int2bin_roundtrip [of 123 8 True] by simp

text \<open>
  \<open>gray_encode\<close> is a Gray code: consecutive non-negative integers get codes that
  differ in exactly one bit, and different integers get different codes.
\<close>

theorem gray_encode_adjacent:
  "(\<exists>k. gray_encode (int n) XOR gray_encode (int n + 1) = 2 ^ k) \<and>
   (gray_encode (int n) = gray_encode (int m) \<longleftrightarrow> n = m)"
proof -
  obtain k where "int n XOR (int n + 1) = mask (Suc k)" using xor_succ by blast
  then have "gray_encode (int n) XOR gray_encode (int n + 1) = 2 ^ k"
    by (simp only: gray_step mask_xor_half)
  then show ?thesis using gray_encode_inj_nonneg [of "int n" "int m"] by auto
qed

text \<open>
  On integers, signs included, \<open>gcf\<close> is the greatest common divisor, the magnitude of
  \<open>lcm\<close> is the least common multiple, and \<open>reduce_fraction\<close> raises
  \<open>ZeroDivisionError\<close> only on \<open>(0, 0)\<close> and otherwise returns an equal fraction in
  lowest terms with the signs kept.
\<close>

theorem euclid_correct:
  "gcf a b = gcd a b \<and> \<bar>lcm_py a b\<bar> = lcm a b \<and>
   (if a = 0 \<and> b = 0 then reduce_fraction (a, b) = Inl ZeroDivisionError
    else \<exists>n d. reduce_fraction (a, b) = Inr (n, d) \<and> coprime n d \<and> a * d = n * b \<and>
               sgn n = sgn a \<and> sgn d = sgn b)"
proof -
  have "reduce_fraction (0, 0) = Inl ZeroDivisionError" by (simp add: reduce_fraction_def gcf_gcd)
  then show ?thesis using reduce_fraction_spec [of a b] by (simp add: gcf_gcd lcm_py_abs)
qed

text \<open>
  \<open>permutations\<close> returns exactly the lists with the same elements, each with the same
  multiplicity, and n! lists in all.
\<close>

theorem permutations_correct:
  "set (permutations xs) = {ys. mset ys = mset xs} \<and> length (permutations xs) = fact (length xs)"
  by (auto simp: permutations_mset permutations_length)

text \<open>
  For a positive width the loops of \<open>binary_range\<close> stop, and the list they build holds
  at each position the \<open>int2bin\<close> string of that position, for all \<open>2 ^ bits\<close> numbers.
\<close>

theorem binary_range_complete:
  assumes "0 < bits"
  shows "\<exists>l. binary_range bits = Some l \<and> length l = 2 ^ bits \<and>
             (\<forall>j < 2 ^ bits. int2bin False (int j) (int bits) = Inr (l ! j))"
proof -
  have "(1 # replicate bits 0) ! bits \<noteq> (1::nat)" using assms by (simp add: nth_Cons')
  moreover have "set (replicate bits (CHR ''0'')) \<subseteq> {CHR ''0'', CHR ''1''}"
    by (simp add: set_replicate_conv_if)
  ultimately obtain m where m: "binary_range bits = Some m"
    "map (bits_value 0) m = [bits_value 0 (replicate bits (CHR ''0''))..<2 ^ bits]"
    "\<forall>s \<in> set m. length s = bits \<and> set s \<subseteq> {CHR ''0'', CHR ''1''}"
    using binary_loop_spec [of "replicate bits (CHR ''0'')" bits "1 # replicate bits 0" "[]"]
    unfolding binary_range_def by (auto simp del: One_nat_def)
  then have vals: "map (bits_value 0) m = [0..<2 ^ bits]"
    using bits_value_replicate0 [of bits "[]"] by simp
  then have len: "length m = 2 ^ bits" by (metis length_map length_upt diff_zero)
  have "int2bin False (int j) (int bits) = Inr (m ! j)" if j: "j < 2 ^ bits" for j
  proof -
    from int2bin_spec [of "int j" "int bits" False] assms j obtain s where
      s: "int2bin False (int j) (int bits) = Inr s" "length s = bits" "is_bin_string s"
         "bits_value 0 s = j" by auto
    have "bits_value 0 (m ! j) = j" using vals j len by (metis add_0 nth_map nth_upt)
    moreover have "m ! j \<in> set m" using j len by simp
    ultimately have "m ! j = s" using m(3) s
      by (intro bits_value_inj) (auto simp: is_bin_string_def)
    then show ?thesis using s by simp
  qed
  with m(1) len show ?thesis by blast
qed

theorem binary_range_complete_witness:
  "\<exists>l. binary_range 3 = Some l \<and> length l = 2 ^ 3 \<and>
       int2bin False (int 5) (int 3) = Inr (l ! 5)"
proof -
  obtain l where "binary_range 3 = Some l" "length l = 2 ^ 3"
    and all: "\<forall>j < 2 ^ 3. int2bin False (int j) (int 3) = Inr (l ! j)"
    using binary_range_complete [of 3] by auto
  moreover from all have "int2bin False (int 5) (int 3) = Inr (l ! 5)"
    by (rule allE [where x = 5]) simp
  ultimately show ?thesis by blast
qed

text \<open>
  On a non-empty first sequence \<open>is_rotated\<close> never raises, and answers whether the
  second sequence is a rotation of the first.
\<close>

theorem is_rotated_correct:
  assumes "seq1 \<noteq> []"
  shows "is_rotated seq1 seq2 = Inr (\<exists>k. seq2 = rotate k seq1)"
  using assms by (rule is_rotated_iff)

theorem is_rotated_correct_witness:
  "is_rotated [1, 2, 3::nat] [3, 1, 2] = Inr (\<exists>k. [3, 1, 2::nat] = rotate k [1, 2, 3])"
  using is_rotated_correct [of "[1, 2, 3::nat]" "[3, 1, 2]"] by simp

text \<open>
  \<open>uniquify\<close> returns every item of the sequence exactly once, whichever of its three
  algorithms runs, and when order is to be preserved (or an item is unhashable) the result is
  a subsequence of the input that keeps first occurrences.
\<close>

theorem uniquify_correct:
  assumes perm: "key_order ko"
  shows "set (uniquify ko hashable seq preserve) = set seq \<and>
         distinct (uniquify ko hashable seq preserve) \<and>
         (preserve \<or> \<not> list_all hashable seq \<longrightarrow>
            uniquify ko hashable seq preserve = rev (remdups (rev seq)))"
proof -
  have keys: "mset (ko (uniq_scan [] seq)) = mset (uniq_scan [] seq)" by (rule key_order.perm [OF perm])
  then have "set (ko (uniq_scan [] seq)) = set seq"
    using mset_eq_setD [OF keys] by (simp add: uniq_scan_set)
  moreover have "distinct (ko (uniq_scan [] seq))"
    using mset_eq_imp_distinct_iff [OF keys] by (simp add: uniq_scan_distinct)
  ultimately show ?thesis
    by (simp add: uniquify_def uniq_keys_scan uniq_slow_scan uniq_scan_set uniq_scan_distinct
        uniq_scan_first)
qed

theorem uniquify_correct_witness:
  "uniquify rev (\<lambda>x. x < 10) [3, 3, 1, 2 :: nat] True = rev (remdups (rev [3, 3, 1, 2])) \<and>
   distinct (uniquify rev (\<lambda>x. x < 10) [3, 3, 1, 2 :: nat] False)"
  using uniquify_correct [OF reverse_order.key_order_axioms, of "\<lambda>x. x < 10" "[3, 3, 1, 2 :: nat]" True]
    uniquify_correct [OF reverse_order.key_order_axioms, of "\<lambda>x. x < 10" "[3, 3, 1, 2 :: nat]" False]
  by simp

text \<open>
  \<open>find_common_fixes\<close> returns the longest common prefix and the longest common suffix
  of its two strings.
\<close>

theorem find_common_fixes_longest:
  "find_common_fixes s1 s2 = (p, q) \<Longrightarrow>
     prefix p s1 \<and> prefix p s2 \<and> suffix q s1 \<and> suffix q s2 \<and>
     (prefix p' s1 \<and> prefix p' s2 \<longrightarrow> prefix p' p) \<and>
     (suffix q' s1 \<and> suffix q' s2 \<longrightarrow> suffix q' q)"
  by (auto simp: find_common_fixes_lcp suffix_to_prefix longest_common_prefix_prefix1
      longest_common_prefix_prefix2 longest_common_prefix_max_prefix)

theorem find_common_fixes_longest_witness:
  "prefix ''abc'' ''abcelephantdef'' \<and> prefix ''abc'' ''abccowdef'' \<and>
   suffix ''def'' ''abcelephantdef'' \<and> suffix ''def'' ''abccowdef''"
proof -
  have "find_common_fixes ''abcelephantdef'' ''abccowdef'' = (''abc'', ''def'')"
    by (simp add: find_common_fixes_lcp)
  from find_common_fixes_longest [OF this, of "[]" "[]"] show ?thesis by blast
qed

end
