(* ===== verification/Topsort.thy ===== *)
theory Topsort
  imports RadUtil
begin

text \<open>
  Dependency sorting, \<^verbatim>\<open>bindings/python/topsort.py\<close>: \<open>topsort\<close>, \<open>topsort_levels\<close>,
  \<open>topsort_levels_core\<close> and \<open>find_cycles\<close>.  The dictionaries \<open>num_parents\<close> and
  \<open>children\<close> are association lists; the order in which \<open>num_parents.keys()\<close> is visited
  is the parameter \<open>ko\<close>.  Every dictionary access that could raise \<open>KeyError\<close> does so in
  the model.  The lemmas show that it never happens, that the answer is a topological order of
  all the elements, and that \<open>CycleError\<close> is raised exactly on cyclic input.
\<close>

type_synonym 'a counts = "('a \<times> int) list"
type_synonym 'a succs = "('a \<times> 'a list) list"

datatype 'a topsort_error =
    TopKeyError
  | CycleError "'a list" "'a counts" "'a succs"

section \<open>Counting parents\<close>

definition add_pair :: "'a counts \<times> 'a succs \<Rightarrow> 'a \<times> 'a \<Rightarrow> 'a counts \<times> 'a succs" where
  "add_pair st pair =
     (let (num_parents, children) = st; (parent, child) = pair;
          num_parents = (if map_of num_parents parent = None
                         then AList.update parent 0 num_parents else num_parents);
          num_parents = (if map_of num_parents child = None
                         then AList.update child 0 num_parents else num_parents);
          num_parents = AList.update child (the (map_of num_parents child) + 1) num_parents;
          children = AList.update parent
                       ((case map_of children parent of None \<Rightarrow> [] | Some cs \<Rightarrow> cs) @ [child]) children
      in (num_parents, children))"

definition count_parents :: "('a \<times> 'a) list \<Rightarrow> 'a counts \<times> 'a succs" where
  "count_parents pairlist = foldl add_pair ([], []) pairlist"

section \<open>topsort\<close>

text \<open>The inner loop over \<open>children[parent]\<close>; the second result is what it appends.\<close>

fun knock_down :: "'a counts \<Rightarrow> 'a list \<Rightarrow> 'a list \<Rightarrow> 'a topsort_error + 'a counts \<times> 'a list" where
  "knock_down num_parents [] app = Inr (num_parents, app)"
| "knock_down num_parents (child # cs) app =
     (case map_of num_parents child of
        None \<Rightarrow> Inl TopKeyError
      | Some k \<Rightarrow> knock_down (AList.update child (k - 1) num_parents) cs
                    (if k - 1 = 0 then app @ [child] else app))"

lemma knock_down_length:
  "knock_down np cs app = Inr (np', app') \<Longrightarrow> length np' = length np"
proof (induction np cs app rule: knock_down.induct)
  case (2 np c cs app)
  then show ?case
    by (auto split: option.splits simp: length_update_same [OF map_of_Some_key])
qed simp

text \<open>
  The loop over the growing list \<open>answer\<close>, which is \<open>done @ todo\<close>: it ends because every
  round deletes a key of \<open>num_parents\<close>.
\<close>

function topsort_loop ::
  "'a counts \<Rightarrow> 'a succs \<Rightarrow> 'a list \<Rightarrow> 'a list \<Rightarrow>
     'a topsort_error + 'a list \<times> 'a counts \<times> 'a succs" where
  "topsort_loop num_parents children done [] = Inr (done, num_parents, children)"
| "topsort_loop num_parents children done (parent # todo) =
     (if map_of num_parents parent = None then Inl TopKeyError
      else (let num_parents = AList.delete parent num_parents
            in case map_of children parent of
                 None \<Rightarrow> topsort_loop num_parents children (done @ [parent]) todo
               | Some cs \<Rightarrow>
                   (case knock_down num_parents cs [] of
                      Inl e \<Rightarrow> Inl e
                    | Inr (num_parents, app) \<Rightarrow>
                        topsort_loop num_parents (AList.delete parent children) (done @ [parent])
                          (todo @ app))))"
  by pat_completeness auto
termination
proof (relation "measure (\<lambda>(np, ch, done, todo). length np)", goal_cases)
  case (2 np ch don p todo np')
  then show ?case by (auto simp: length_delete_less [OF map_of_Some_key])
next
  case (3 np ch don p todo np' cs r np2 app)
  then show ?case
    by (auto dest!: knock_down_length simp: length_delete_less [OF map_of_Some_key])
qed simp

definition topsort ::
  "('a list \<Rightarrow> 'a list) \<Rightarrow> ('a \<times> 'a) list \<Rightarrow> 'a topsort_error + 'a list" where
  "topsort ko pairlist =
     (let (num_parents, children) = count_parents pairlist;
          answer = filter (\<lambda>x. map_of num_parents x = Some 0) (ko (keys num_parents))
      in case topsort_loop num_parents children [] answer of
           Inl e \<Rightarrow> Inl e
         | Inr (answer, num_parents, children) \<Rightarrow>
             (if num_parents \<noteq> [] then Inl (CycleError answer num_parents children)
              else Inr answer))"

subsection \<open>The abstract graph\<close>

definition nodes :: "('a \<times> 'a) list \<Rightarrow> 'a set" where
  "nodes E = fst ` set E \<union> snd ` set E"

definition open_parents :: "('a \<times> 'a) list \<Rightarrow> 'a set \<Rightarrow> 'a \<Rightarrow> nat" where
  "open_parents E D x = length (filter (\<lambda>(p, c). c = x \<and> p \<notin> D) E)"

definition kids :: "('a \<times> 'a) list \<Rightarrow> 'a \<Rightarrow> 'a list" where
  "kids E p = map snd (filter (\<lambda>(q, c). q = p) E)"

lemma nodesI: "(p, c) \<in> set E \<Longrightarrow> p \<in> nodes E \<and> c \<in> nodes E"
  by (force simp: nodes_def)

lemma nodes_snoc: "nodes (E @ [(p, c)]) = insert p (insert c (nodes E))"
  by (auto simp: nodes_def)

lemma open_parents_snoc:
  "open_parents (E @ [(p, c)]) D x = open_parents E D x + (if c = x \<and> p \<notin> D then 1 else 0)"
  by (simp add: open_parents_def)

lemma kids_snoc: "kids (E @ [(p, c)]) q = kids E q @ (if p = q then [c] else [])"
  by (simp add: kids_def)

lemma open_parents_0: "open_parents E D x = 0 \<longleftrightarrow> (\<forall>p. (p, x) \<in> set E \<longrightarrow> p \<in> D)"
  by (auto simp: open_parents_def filter_empty_conv)

lemma open_parents_outside: "x \<notin> nodes E \<Longrightarrow> open_parents E D x = 0"
  by (force simp: open_parents_0 nodes_def)

lemma set_kids: "set (kids E p) = {c. (p, c) \<in> set E}"
  by (force simp: kids_def)

lemma kids_Nil: "p \<notin> fst ` set E \<Longrightarrow> kids E p = []"
  by (force simp: kids_def filter_empty_conv)

lemma open_parents_insert:
  "p \<notin> D \<Longrightarrow> open_parents E D x = open_parents E (insert p D) x + count_list (kids E p) x"
  by (induction E) (auto simp: open_parents_def kids_def)

lemma count_parents_spec:
  assumes "count_parents E = (np, ch)"
  shows "distinct (keys np) \<and>
    map_of np = (\<lambda>x. if x \<in> nodes E then Some (int (open_parents E {} x)) else None) \<and>
    map_of ch = (\<lambda>p. if p \<in> fst ` set E then Some (kids E p) else None)"
  using assms
proof (induction E arbitrary: np ch rule: rev_induct)
  case Nil
  then show ?case by (auto simp: count_parents_def nodes_def)
next
  case (snoc e E)
  obtain p c where e: "e = (p, c)" by (cases e)
  obtain np0 ch0 where st: "count_parents E = (np0, ch0)" by (cases "count_parents E")
  note IH = snoc.IH [OF st]
  have run: "add_pair (np0, ch0) (p, c) = (np, ch)"
    using snoc.prems st by (simp add: count_parents_def e)
  have ch: "map_of ch = (map_of ch0)(p \<mapsto> (case map_of ch0 p of None \<Rightarrow> [] | Some cs \<Rightarrow> cs) @ [c])"
    using run by (auto simp: add_pair_def Let_def)
  have f: "map_of np =
      (let f1 = (if map_of np0 p = None then (map_of np0)(p \<mapsto> 0) else map_of np0);
           f2 = (if f1 c = None then f1(c \<mapsto> 0) else f1)
       in f2(c \<mapsto> the (f2 c) + 1))"
  proof -
    have "np = fst (add_pair (np0, ch0) (p, c))" using run by simp
    moreover have "map_of (if b then d1 else d2) = (if b then map_of d1 else map_of d2)"
      for b and d1 d2 :: "'a counts" by simp
    ultimately show ?thesis by (simp only: add_pair_def Let_def prod.case fst_conv map_of_update)
  qed
  have f0: "map_of np0 = (\<lambda>x. if x \<in> nodes E then Some (int (open_parents E {} x)) else None)"
    using IH by blast
  have np: "map_of np x = (if x \<in> nodes (E @ [e]) then Some (int (open_parents (E @ [e]) {} x)) else None)" for x
    using open_parents_outside [of p E "{}"] open_parents_outside [of c E "{}"]
    unfolding f f0 by (auto simp: Let_def e nodes_snoc open_parents_snoc)
  have "distinct (keys np)" using run IH by (auto simp: add_pair_def Let_def split: if_splits)
  moreover have "map_of ch = (\<lambda>q. if q \<in> fst ` set (E @ [e]) then Some (kids (E @ [e]) q) else None)"
    using IH kids_Nil [of p E] by (auto simp: ch e kids_snoc)
  ultimately show ?case using np by auto
qed

lemma knock_down_spec:
  "(\<forall>c \<in> set cs. \<exists>k. map_of np c = Some k \<and> 0 < k \<and> int (count_list cs c) \<le> k) \<Longrightarrow>
   \<exists>np' app'. knock_down np cs app = Inr (np', app @ app') \<and> keys np' = keys np \<and>
     map_of np' = (\<lambda>x. map_option (\<lambda>k. k - int (count_list cs x)) (map_of np x)) \<and>
     distinct app' \<and> set app' = {c \<in> set cs. map_of np c = Some (int (count_list cs c))}"
proof (induction cs arbitrary: np app)
  case Nil
  then show ?case by (auto simp: map_option.identity fun_eq_iff option.map_ident)
next
  case (Cons c cs)
  from Cons.prems obtain k where k: "map_of np c = Some k" "0 < k" "1 + int (count_list cs c) \<le> k"
    by auto
  let ?np = "AList.update c (k - 1) np"
  let ?app = "if k - 1 = 0 then app @ [c] else app"
  have "\<forall>d \<in> set cs. \<exists>k. map_of ?np d = Some k \<and> 0 < k \<and> int (count_list cs d) \<le> k"
  proof
    fix d assume d: "d \<in> set cs"
    then have "0 < count_list cs d" by (metis count_list_0_iff gr0I)
    with d k Cons.prems show "\<exists>k. map_of ?np d = Some k \<and> 0 < k \<and> int (count_list cs d) \<le> k"
      by (cases "d = c") auto
  qed
  from Cons.IH [OF this, of ?app] obtain np' app' where
    IH: "knock_down ?np cs ?app = Inr (np', ?app @ app')" "keys np' = keys ?np"
      "map_of np' = (\<lambda>x. map_option (\<lambda>k. k - int (count_list cs x)) (map_of ?np x))"
      "distinct app'" "set app' = {d \<in> set cs. map_of ?np d = Some (int (count_list cs d))}"
    by blast
  let ?app' = "(if k - 1 = 0 then [c] else []) @ app'"
  have "knock_down np (c # cs) app = Inr (np', app @ ?app')"
    using k(1) IH(1) by (auto split: if_splits)
  moreover have "keys np' = keys np"
    using IH(2) k(1) map_of_Some_key [OF k(1)] by (simp add: keys_update)
  moreover have "map_of np' = (\<lambda>x. map_option (\<lambda>k. k - int (count_list (c # cs) x)) (map_of np x))"
    using k(1) by (auto simp: IH(3) fun_eq_iff)
  moreover have once: "k - 1 = 0 \<Longrightarrow> c \<notin> set cs"
    using k(3) by (auto simp: count_list_0_iff [symmetric])
  then have "distinct ?app'" using IH(4,5) by auto
  moreover have "d \<in> set ?app' \<longleftrightarrow>
      d \<in> {d \<in> set (c # cs). map_of np d = Some (int (count_list (c # cs) d))}" for d
  proof (cases "d = c")
    case True
    have "k = 1 + int (count_list cs c) \<Longrightarrow> k - 1 \<noteq> 0 \<Longrightarrow> c \<in> set cs"
      by (rule ccontr) simp
    moreover have "count_list cs c = 0" if "k - 1 = 0" using once [OF that] by simp
    moreover have "c \<in> set ?app' \<longleftrightarrow> k - 1 = 0 \<or> (c \<in> set cs \<and> k - 1 = int (count_list cs c))"
      by (simp add: IH(5))
    moreover have "c \<in> {d \<in> set (c # cs). map_of np d = Some (int (count_list (c # cs) d))} \<longleftrightarrow>
        k = 1 + int (count_list cs c)"
      using k(1) by simp
    ultimately show ?thesis unfolding True by (cases "k - 1 = 0") auto
  next
    case False
    then show ?thesis by (simp add: IH(5))
  qed
  then have "set ?app' = {d \<in> set (c # cs). map_of np d = Some (int (count_list (c # cs) d))}" by blast
  ultimately show ?case by blast
qed

subsection \<open>The loop invariant\<close>

definition sort_inv ::
  "('a \<times> 'a) list \<Rightarrow> 'a counts \<Rightarrow> 'a succs \<Rightarrow> 'a list \<Rightarrow> 'a list \<Rightarrow> bool" where
  "sort_inv E np ch don todo \<longleftrightarrow>
     distinct (don @ todo) \<and> set don \<subseteq> nodes E \<and>
     map_of np = (\<lambda>x. if x \<in> nodes E - set don then Some (int (open_parents E (set don) x)) else None) \<and>
     map_of ch = (\<lambda>p. if p \<in> fst ` set E - set don then Some (kids E p) else None) \<and>
     set todo = {x \<in> nodes E - set don. open_parents E (set don) x = 0} \<and>
     (\<forall>i < length don. \<forall>q. (q, don ! i) \<in> set E \<longrightarrow> q \<in> set (take i don))"

lemma sort_inv_order_snoc:
  assumes "sort_inv E np ch don (p # todo)"
  shows "\<forall>i < length (don @ [p]). \<forall>q. (q, (don @ [p]) ! i) \<in> set E \<longrightarrow> q \<in> set (take i (don @ [p]))"
proof (intro allI impI)
  fix i q assume i: "i < length (don @ [p])" and e: "(q, (don @ [p]) ! i) \<in> set E"
  have "open_parents E (set don) p = 0" using assms by (auto simp: sort_inv_def)
  then show "q \<in> set (take i (don @ [p]))"
    using assms i e by (cases "i = length don") (auto simp: sort_inv_def open_parents_0 nth_append)
qed

lemma sort_inv_step:
  assumes inv: "sort_inv E np ch don (p # todo)"
  shows "\<exists>np' ch' app. topsort_loop np ch don (p # todo) = topsort_loop np' ch' (don @ [p]) (todo @ app) \<and>
           sort_inv E np' ch' (don @ [p]) (todo @ app)"
proof -
  let ?D = "insert p (set don)"
  from inv have pN: "p \<in> nodes E" and pD: "p \<notin> set don" and p0: "open_parents E (set don) p = 0"
    and dist: "distinct (don @ p # todo)" by (auto simp: sort_inv_def)
  let ?np = "AList.delete p np"
  have np: "map_of ?np = (\<lambda>x. if x \<in> nodes E - ?D then Some (int (open_parents E (set don) x)) else None)"
    using inv by (auto simp: sort_inv_def)
  have np_some: "map_of np p \<noteq> None" using inv pN pD by (auto simp: sort_inv_def)
  have kid: "c \<in> nodes E \<and> c \<notin> ?D \<and> 0 < open_parents E (set don) c" if "c \<in> set (kids E p)" for c
  proof -
    from that have e: "(p, c) \<in> set E" by (simp add: set_kids)
    have "c \<notin> set don"
    proof
      assume "c \<in> set don"
      then obtain i where "i < length don" "don ! i = c" by (auto simp: in_set_conv_nth)
      with inv e have "p \<in> set (take i don)" by (auto simp: sort_inv_def)
      with pD show False by (auto dest: in_set_takeD)
    qed
    moreover have "open_parents E (set don) c \<noteq> 0" using e pD by (auto simp: open_parents_0)
    ultimately show ?thesis using e p0 by (force simp: nodes_def)
  qed
  have opn: "open_parents E (set don) x = open_parents E ?D x + count_list (kids E p) x" for x
    using pD by (rule open_parents_insert)
  have new: "{x \<in> nodes E - ?D. open_parents E ?D x = 0} =
      set todo \<union> {c \<in> set (kids E p). open_parents E ?D c = 0}"
  proof -
    have "x \<in> set (kids E p)" if "open_parents E ?D x = 0" "open_parents E (set don) x \<noteq> 0" for x
      using opn [of x] that by (metis add_0 count_notin)
    moreover have "open_parents E ?D x = 0" if "open_parents E (set don) x = 0" for x
      using opn [of x] that by simp
    moreover have "set todo = {x \<in> nodes E - set don. open_parents E (set don) x = 0} - {p}"
      using inv dist by (auto simp: sort_inv_def)
    ultimately show ?thesis using kid by auto
  qed
  show ?thesis
  proof (cases "p \<in> fst ` set E")
    case False
    then have ch: "map_of ch p = None" using inv by (simp add: sort_inv_def)
    have k: "kids E p = []" using False by (rule kids_Nil)
    have "sort_inv E ?np ch (don @ [p]) (todo @ [])"
      using inv False pN dist new k np opn sort_inv_order_snoc [OF inv]
      by (auto simp: sort_inv_def)
    moreover have "topsort_loop np ch don (p # todo) = topsort_loop ?np ch (don @ [p]) (todo @ [])"
      using np_some ch by (auto simp: Let_def)
    ultimately show ?thesis by blast
  next
    case True
    then have ch: "map_of ch p = Some (kids E p)" using inv pD by (simp add: sort_inv_def)
    have "\<forall>c \<in> set (kids E p). \<exists>k. map_of ?np c = Some k \<and> 0 < k \<and> int (count_list (kids E p) c) \<le> k"
    proof
      fix c assume "c \<in> set (kids E p)"
      then have "0 < open_parents E (set don) c \<and> c \<in> nodes E - ?D" using kid by blast
      moreover have "count_list (kids E p) c \<le> open_parents E (set don) c" using opn [of c] by simp
      ultimately show "\<exists>k. map_of ?np c = Some k \<and> 0 < k \<and> int (count_list (kids E p) c) \<le> k"
        unfolding np by (intro exI [of _ "int (open_parents E (set don) c)"]) simp
    qed
    from knock_down_spec [OF this, of "[]"] obtain np' app where
      r: "knock_down ?np (kids E p) [] = Inr (np', app)" "distinct app"
        "map_of np' = (\<lambda>x. map_option (\<lambda>k. k - int (count_list (kids E p) x)) (map_of ?np x))"
        "set app = {c \<in> set (kids E p). map_of ?np c = Some (int (count_list (kids E p) c))}"
      by auto
    have app: "set app = {c \<in> set (kids E p). open_parents E ?D c = 0}"
      unfolding r(4) np using kid opn by auto
    have np': "map_of np' = (\<lambda>x. if x \<in> nodes E - ?D then Some (int (open_parents E ?D x)) else None)"
      unfolding r(3) np using opn by (auto simp: fun_eq_iff)
    have disj: "set app \<inter> set todo = {}"
    proof -
      have "open_parents E (set don) x = 0" if "x \<in> set todo" for x
        using inv that by (auto simp: sort_inv_def)
      with kid show ?thesis unfolding app by fastforce
    qed
    have "sort_inv E np' (AList.delete p ch) (don @ [p]) (todo @ app)"
      using inv pN dist new app np' r(2) disj kid sort_inv_order_snoc [OF inv]
      by (auto simp: sort_inv_def)
    with np_some ch r(1) show ?thesis by (auto simp: Let_def)
  qed
qed

lemma topsort_loop_inv:
  "sort_inv E np ch don todo \<Longrightarrow>
     \<exists>ans np' ch'. topsort_loop np ch don todo = Inr (ans, np', ch') \<and> sort_inv E np' ch' ans []"
proof (induction "card (nodes E - set don)" arbitrary: np ch don todo rule: less_induct)
  case less
  show ?case
  proof (cases todo)
    case Nil
    with less.prems show ?thesis by auto
  next
    case (Cons p todo')
    from sort_inv_step [of E np ch don p todo'] less.prems Cons obtain np' ch' app where
      st: "topsort_loop np ch don todo = topsort_loop np' ch' (don @ [p]) (todo' @ app)"
        "sort_inv E np' ch' (don @ [p]) (todo' @ app)" by auto
    have "finite (nodes E)" by (simp add: nodes_def)
    moreover have "nodes E - set (don @ [p]) \<subset> nodes E - set don"
      using st(2) less.prems Cons by (auto simp: sort_inv_def)
    ultimately have "card (nodes E - set (don @ [p])) < card (nodes E - set don)"
      by (intro psubset_card_mono) auto
    from less.hyps [OF this st(2)] st(1) show ?thesis by simp
  qed
qed

context key_order
begin

lemma sort_inv_start:
  assumes "count_parents E = (np, ch)"
  shows "sort_inv E np ch [] (filter (\<lambda>x. map_of np x = Some 0) (ord (keys np)))"
proof -
  note cp = count_parents_spec [OF assms]
  have "set (keys np) = dom (map_of np)" by (simp add: dom_map_of_conv_image_fst)
  then have "set (keys np) = nodes E" using cp by (auto split: if_splits)
  then show ?thesis using cp by (auto simp: sort_inv_def set_ord distinct_ord)
qed

text \<open>Whatever is left over when the loop ends has a parent that is left over too.\<close>

lemma topsort_cases:
  obtains ans where "topsort ord E = Inr ans" "distinct ans" "set ans = nodes E"
      "\<forall>i < length ans. \<forall>q. (q, ans ! i) \<in> set E \<longrightarrow> q \<in> set (take i ans)"
    | ans np ch S where "topsort ord E = Inl (CycleError ans np ch)"
      "S \<noteq> {}" "finite S" "\<forall>x \<in> S. \<exists>p \<in> S. (p, x) \<in> set E"
proof -
  obtain np ch where cp: "count_parents E = (np, ch)" by (cases "count_parents E")
  let ?todo = "filter (\<lambda>x. map_of np x = Some 0) (ord (keys np))"
  obtain ans np' ch' where run: "topsort_loop np ch [] ?todo = Inr (ans, np', ch')"
    and inv: "sort_inv E np' ch' ans []"
    using topsort_loop_inv [OF sort_inv_start [OF cp]] by blast
  have top: "topsort ord E = (if np' \<noteq> [] then Inl (CycleError ans np' ch') else Inr ans)"
    using cp run by (simp add: topsort_def)
  have dom: "dom (map_of np') = nodes E - set ans" using inv by (auto simp: sort_inv_def split: if_splits)
  show thesis
  proof (cases "np' = []")
    case True
    then have "nodes E \<subseteq> set ans" using dom by simp
    with True top inv show ?thesis by (intro that(1) [of ans]) (auto simp: sort_inv_def)
  next
    case False
    then have ne: "nodes E - set ans \<noteq> {}" using dom by (cases np') auto
    have "\<exists>p \<in> nodes E - set ans. (p, x) \<in> set E" if x: "x \<in> nodes E - set ans" for x
    proof -
      from x inv have "open_parents E (set ans) x \<noteq> 0" by (auto simp: sort_inv_def)
      then obtain q where "(q, x) \<in> set E" "q \<notin> set ans" by (auto simp: open_parents_0)
      then show ?thesis by (auto dest: nodesI)
    qed
    moreover have "finite (nodes E - set ans)" by (simp add: nodes_def)
    ultimately show ?thesis using False top ne by (intro that(2) [of ans np' ch' "nodes E - set ans"]) simp_all
  qed
qed

end

lemma no_source_cyclic:
  assumes "S \<noteq> {}" "\<forall>x \<in> S. \<exists>p \<in> S. (p, x) \<in> r" "finite r"
  shows "\<not> acyclic r"
proof
  assume "acyclic r"
  then have "wf r" using assms(3) by (rule finite_acyclic_wf [rotated])
  then show False using assms(1,2) by (metis all_not_in_conv wfE_min)
qed

lemma ordered_acyclic:
  assumes ord: "\<forall>i < length ans. \<forall>q. (q, ans ! i) \<in> set E \<longrightarrow> q \<in> set (take i ans)"
    and "distinct ans" "snd ` set E \<subseteq> set ans"
  shows "acyclic (set E)"
proof (rule acyclicI, intro allI notI)
  have lt: "\<exists>i j. i < j \<and> j < length ans \<and> ans ! i = x \<and> ans ! j = y" if "(x, y) \<in> (set E)\<^sup>+" for x y
    using that
  proof (induction rule: trancl_induct)
    case (base y)
    then obtain j where "j < length ans" "ans ! j = y" using assms(3) by (force simp: in_set_conv_nth)
    with ord base obtain i where "i < j" "ans ! i = x" by (fastforce simp: in_set_conv_nth)
    with \<open>j < length ans\<close> \<open>ans ! j = y\<close> show ?case by blast
  next
    case (step y z)
    then obtain k where k: "k < length ans" "ans ! k = z" using assms(3) by (force simp: in_set_conv_nth)
    with ord step(2) obtain j where j: "j < k" "ans ! j = y" by (fastforce simp: in_set_conv_nth)
    from step(3) obtain i j' where "i < j'" "j' < length ans" "ans ! i = x" "ans ! j' = y" by blast
    with j k assms(2) show ?case by (metis less_trans nth_eq_iff_index_eq)
  qed
  fix x assume "(x, x) \<in> (set E)\<^sup>+"
  from lt [OF this] assms(2) show False by (metis less_trans nat_neq_iff nth_eq_iff_index_eq)
qed

section \<open>topsort\_levels\<close>

text \<open>
  The generator is the list of the levels it yields together with how it ends: \<open>None\<close> for
  the end of the iteration, \<open>Some e\<close> for the exception it raises (its \<open>CycleError\<close> carries no
  answer, which is the empty list here).  The levels are taken
  from the current keys, so a round deletes at least one key.
\<close>

fun lower_children :: "'a counts \<Rightarrow> 'a list \<Rightarrow> 'a topsort_error + 'a counts" where
  "lower_children num_parents [] = Inr num_parents"
| "lower_children num_parents (c # cs) =
     (case map_of num_parents c of
        None \<Rightarrow> Inl TopKeyError
      | Some k \<Rightarrow> lower_children (AList.update c (k - 1) num_parents) cs)"

fun consume_level ::
  "'a counts \<Rightarrow> 'a succs \<Rightarrow> 'a list \<Rightarrow> 'a topsort_error + 'a counts \<times> 'a succs" where
  "consume_level num_parents children [] = Inr (num_parents, children)"
| "consume_level num_parents children (level_parent # level_parents) =
     (if map_of num_parents level_parent = None then Inl TopKeyError
      else (let num_parents = AList.delete level_parent num_parents
            in case map_of children level_parent of
                 None \<Rightarrow> consume_level num_parents children level_parents
               | Some cs \<Rightarrow>
                   (case lower_children num_parents cs of
                      Inl e \<Rightarrow> Inl e
                    | Inr num_parents \<Rightarrow>
                        consume_level num_parents (AList.delete level_parent children) level_parents)))"

lemma lower_children_length: "lower_children np cs = Inr np' \<Longrightarrow> length np' = length np"
proof (induction np cs rule: lower_children.induct)
  case (2 np c cs)
  then show ?case by (auto split: option.splits simp: length_update_same [OF map_of_Some_key])
qed simp

lemma consume_level_length:
  "consume_level np ch ps = Inr (np', ch') \<Longrightarrow> length np' + length ps \<le> length np"
proof (induction np ch ps arbitrary: np' ch' rule: consume_level.induct)
  case (2 np ch p ps)
  from "2.prems" have some: "map_of np p \<noteq> None" by (auto split: if_splits)
  then have less: "length (AList.delete p np) < length np"
    by (auto simp: length_delete_less [OF map_of_Some_key])
  show ?case
  proof (cases "map_of ch p")
    case None
    with "2.prems" some have "consume_level (AList.delete p np) ch ps = Inr (np', ch')" by simp
    with "2.IH"(1) [OF some refl None] less show ?thesis by fastforce
  next
    case (Some cs)
    with "2.prems" some obtain np2 where np2: "lower_children (AList.delete p np) cs = Inr np2"
      "consume_level np2 (AList.delete p ch) ps = Inr (np', ch')"
      by (auto split: sum.splits)
    with "2.IH"(2) [OF some refl Some np2(1)] lower_children_length [OF np2(1)] less
    show ?thesis by fastforce
  qed
qed simp

function topsort_levels_core ::
  "('a list \<Rightarrow> 'a list) \<Rightarrow> 'a counts \<Rightarrow> 'a succs \<Rightarrow> 'a list list \<times> 'a topsort_error option" where
  "topsort_levels_core ko num_parents children =
     (let level_parents = filter (\<lambda>x. map_of num_parents x = Some 0) (ko (keys num_parents))
      in if level_parents = [] then
           ([], if num_parents \<noteq> [] then Some (CycleError [] num_parents children) else None)
         else (case consume_level num_parents children level_parents of
                 Inl e \<Rightarrow> ([level_parents], Some e)
               | Inr (np, ch) \<Rightarrow>
                   (let (levels, end) = topsort_levels_core ko np ch
                    in (level_parents # levels, end))))"
  by pat_completeness auto
termination
proof (relation "measure (\<lambda>(ko, np, ch). length np)", goal_cases)
  case (2 ko np ch lp r np' ch')
  then have "consume_level np ch lp = Inr (np', ch')" and "0 < length lp" by simp_all
  from consume_level_length [OF this(1)] this(2) have "length np' < length np" by linarith
  then show ?case using 2(4) by auto
qed simp

declare topsort_levels_core.simps [simp del]

definition topsort_levels ::
  "('a list \<Rightarrow> 'a list) \<Rightarrow> ('a \<times> 'a) list \<Rightarrow> 'a list list \<times> 'a topsort_error option" where
  "topsort_levels ko pairlist =
     (let (num_parents, children) = count_parents pairlist
      in topsort_levels_core ko num_parents children)"

definition level_inv :: "('a \<times> 'a) list \<Rightarrow> 'a set \<Rightarrow> 'a counts \<Rightarrow> 'a succs \<Rightarrow> bool" where
  "level_inv E D np ch \<longleftrightarrow>
     D \<subseteq> nodes E \<and> distinct (keys np) \<and> (\<forall>x \<in> D. \<forall>q. (q, x) \<in> set E \<longrightarrow> q \<in> D) \<and>
     map_of np = (\<lambda>x. if x \<in> nodes E - D then Some (int (open_parents E D x)) else None) \<and>
     map_of ch = (\<lambda>p. if p \<in> fst ` set E - D then Some (kids E p) else None)"

lemma lower_children_spec:
  "(\<forall>c \<in> set cs. map_of np c \<noteq> None) \<Longrightarrow>
   \<exists>np'. lower_children np cs = Inr np' \<and> keys np' = keys np \<and>
     map_of np' = (\<lambda>x. map_option (\<lambda>k. k - int (count_list cs x)) (map_of np x))"
proof (induction cs arbitrary: np)
  case Nil
  then show ?case by (auto simp: fun_eq_iff option.map_ident)
next
  case (Cons c cs)
  then obtain k where k: "map_of np c = Some k" by auto
  have "\<forall>d \<in> set cs. map_of (AList.update c (k - 1) np) d \<noteq> None" using Cons.prems by auto
  from Cons.IH [OF this] obtain np' where "lower_children (AList.update c (k - 1) np) cs = Inr np'"
    "keys np' = keys (AList.update c (k - 1) np)"
    "map_of np' = (\<lambda>x. map_option (\<lambda>j. j - int (count_list cs x)) (map_of (AList.update c (k - 1) np) x))"
    by blast
  then show ?case using k map_of_Some_key [OF k]
    by (intro exI [of _ np']) (auto simp: fun_eq_iff keys_update)
qed

lemma open_parents_mono: "open_parents E D x = 0 \<Longrightarrow> D \<subseteq> D' \<Longrightarrow> open_parents E D' x = 0"
  by (auto simp: open_parents_0)

lemma level_inv_step:
  assumes inv: "level_inv E D np ch" and p: "p \<in> nodes E - D" and p0: "open_parents E D p = 0"
  shows "\<exists>np' ch'. consume_level np ch (p # ps) = consume_level np' ch' ps \<and>
           level_inv E (insert p D) np' ch'"
proof -
  let ?np = "AList.delete p np"
  have np: "map_of ?np = (\<lambda>x. if x \<in> nodes E - insert p D then Some (int (open_parents E D x)) else None)"
    using inv by (auto simp: level_inv_def)
  have some: "map_of np p \<noteq> None" using inv p by (auto simp: level_inv_def)
  have closed: "\<forall>x \<in> insert p D. \<forall>q. (q, x) \<in> set E \<longrightarrow> q \<in> insert p D"
    using inv p0 by (auto simp: level_inv_def open_parents_0)
  have opn: "open_parents E D x = open_parents E (insert p D) x + count_list (kids E p) x" for x
    using p by (intro open_parents_insert) simp
  have dk: "distinct (keys ?np)" using inv by (auto simp: level_inv_def keys_delete)
  show ?thesis
  proof (cases "p \<in> fst ` set E")
    case False
    then have "map_of ch p = None" and "kids E p = []" using inv by (simp_all add: level_inv_def kids_Nil)
    moreover have "level_inv E (insert p D) ?np ch"
      using inv False p np opn closed dk \<open>kids E p = []\<close> by (auto simp: level_inv_def)
    ultimately show ?thesis using some by auto
  next
    case True
    have ch: "map_of ch p = Some (kids E p)" using inv True p by (simp add: level_inv_def)
    have "c \<in> nodes E - insert p D" if "c \<in> set (kids E p)" for c
    proof -
      from that have e: "(p, c) \<in> set E" by (simp add: set_kids)
      with inv p p0 show ?thesis by (auto simp: level_inv_def open_parents_0 dest: nodesI)
    qed
    then have "\<forall>c \<in> set (kids E p). map_of ?np c \<noteq> None" unfolding np by auto
    from lower_children_spec [OF this] obtain np' where
      r: "lower_children ?np (kids E p) = Inr np'" "keys np' = keys ?np"
        "map_of np' = (\<lambda>x. map_option (\<lambda>k. k - int (count_list (kids E p) x)) (map_of ?np x))" by blast
    have "map_of np' = (\<lambda>x. if x \<in> nodes E - insert p D then Some (int (open_parents E (insert p D) x)) else None)"
      unfolding r(3) np using opn by (auto simp: fun_eq_iff)
    then have "level_inv E (insert p D) np' (AList.delete p ch)"
      using inv p closed dk r(2) by (auto simp: level_inv_def)
    then show ?thesis using some ch r(1) by auto
  qed
qed

lemma consume_level_inv:
  "level_inv E D np ch \<Longrightarrow> distinct ps \<Longrightarrow> set ps \<subseteq> {x \<in> nodes E - D. open_parents E D x = 0} \<Longrightarrow>
     \<exists>np' ch'. consume_level np ch ps = Inr (np', ch') \<and> level_inv E (D \<union> set ps) np' ch'"
proof (induction ps arbitrary: D np ch)
  case (Cons p ps)
  then obtain np' ch' where st: "consume_level np ch (p # ps) = consume_level np' ch' ps"
    "level_inv E (insert p D) np' ch'"
    using level_inv_step [of E D np ch p ps] by auto
  moreover have "set ps \<subseteq> {x \<in> nodes E - insert p D. open_parents E (insert p D) x = 0}"
    using Cons.prems by (auto intro: open_parents_mono)
  ultimately show ?case using Cons.IH [of "insert p D" np' ch'] Cons.prems(2) by auto
qed simp

text \<open>The levels of a graph below a set of finished nodes.\<close>

fun is_levels :: "('a \<times> 'a) list \<Rightarrow> 'a set \<Rightarrow> 'a list list \<Rightarrow> bool" where
  "is_levels E D [] \<longleftrightarrow> True"
| "is_levels E D (l # ls) \<longleftrightarrow>
     l \<noteq> [] \<and> distinct l \<and> set l = {x \<in> nodes E - D. open_parents E D x = 0} \<and>
     is_levels E (D \<union> set l) ls"

lemma is_levels_nth:
  "is_levels E D ls \<Longrightarrow> k < length ls \<Longrightarrow> ls ! k \<noteq> [] \<and> distinct (ls ! k) \<and>
     set (ls ! k) = {x \<in> nodes E - (D \<union> set (concat (take k ls))).
                      open_parents E (D \<union> set (concat (take k ls))) x = 0}"
proof (induction E D ls arbitrary: k rule: is_levels.induct)
  case (2 E D l ls)
  show ?case
  proof (cases k)
    case 0
    then show ?thesis using 2 by simp
  next
    case (Suc j)
    have "D \<union> set (concat (take k (l # ls))) = D \<union> set l \<union> set (concat (take j ls))"
      by (simp only: Suc take_Suc_Cons concat.simps set_append Un_assoc)
    moreover have "is_levels E (D \<union> set l) ls" using 2(2) unfolding is_levels.simps by blast
    moreover have "j < length ls" using 2(3) Suc by simp
    moreover have "(l # ls) ! k = ls ! j" by (simp add: Suc)
    ultimately show ?thesis using 2(1) [of j] by (simp only: simp_thms)
  qed
qed simp

text \<open>A subset closed under levels supports no cycle: its elements have strictly earlier parents.\<close>

lemma levels_wf:
  "is_levels E D ls \<Longrightarrow> (\<And>x. x \<in> D \<Longrightarrow> x \<in> Wellfounded.acc (set E)) \<Longrightarrow> x \<in> D \<union> set (concat ls) \<Longrightarrow>
     x \<in> Wellfounded.acc (set E)"
proof (induction E D ls rule: is_levels.induct)
  case (2 E D l ls)
  have "x \<in> Wellfounded.acc (set E)" if "x \<in> D \<union> set l" for x
    using that 2(2,3) by (auto simp: open_parents_0 intro: acc.accI)
  with 2 show ?case by auto
qed auto

lemma levels_acyclic:
  assumes "is_levels E {} ls" "set (concat ls) = nodes E"
  shows "acyclic (set E)"
proof -
  have "x \<in> Wellfounded.acc (set E)" for x
  proof (cases "x \<in> nodes E")
    case True
    then show ?thesis using levels_wf [OF assms(1)] assms(2) by blast
  next
    case False
    then have "(y, x) \<notin> set E" for y using nodesI by metis
    then show ?thesis by (blast intro: acc.accI)
  qed
  then have "wf (set E)" by (blast intro: acc_wfI)
  then show ?thesis by (rule wf_acyclic)
qed

context key_order
begin

lemma levels_core_spec:
  "level_inv E D np ch \<Longrightarrow>
     \<exists>ls e. topsort_levels_core ord np ch = (ls, e) \<and> is_levels E D ls \<and>
       (e = None \<and> D \<union> set (concat ls) = nodes E \<or>
        (\<exists>np' ch' S. e = Some (CycleError [] np' ch') \<and> S \<noteq> {} \<and> (\<forall>x \<in> S. \<exists>p \<in> S. (p, x) \<in> set E)))"
proof (induction "length np" arbitrary: D np ch rule: less_induct)
  case less
  let ?l = "filter (\<lambda>x. map_of np x = Some 0) (ord (keys np))"
  have dom: "set (keys np) = nodes E - D"
  proof -
    have "set (keys np) = dom (map_of np)" by (simp add: dom_map_of_conv_image_fst)
    then show ?thesis using less.prems by (auto simp: level_inv_def split: if_splits)
  qed
  have l: "set ?l = {x \<in> nodes E - D. open_parents E D x = 0}"
    using less.prems dom by (auto simp: level_inv_def set_ord)
  have dl: "distinct ?l" using less.prems by (simp add: level_inv_def distinct_ord)
  show ?case
  proof (cases "?l = []")
    case True
    show ?thesis
    proof (cases "np = []")
      case True
      then have "topsort_levels_core ord np ch = ([], None)"
        by (simp add: topsort_levels_core.simps [of ord "[]"] ord_Nil)
      moreover have "D = nodes E" using True dom less.prems by (auto simp: level_inv_def)
      ultimately show ?thesis by auto
    next
      case False
      let ?S = "nodes E - D"
      have "?S \<noteq> {}" using False dom by (cases np) auto
      moreover have "\<exists>p \<in> ?S. (p, x) \<in> set E" if "x \<in> ?S" for x
      proof -
        from that l True have "open_parents E D x \<noteq> 0" by auto
        then show ?thesis by (auto simp: open_parents_0 dest: nodesI)
      qed
      moreover have "topsort_levels_core ord np ch = ([], Some (CycleError [] np ch))"
        using True False by (simp add: topsort_levels_core.simps [of ord np] Let_def)
      ultimately show ?thesis
        by (intro exI [of _ "[]"] exI [of _ "Some (CycleError [] np ch)"])
          (simp, intro exI [of _ ?S], simp)
    qed
  next
    case False
    obtain np' ch' where c: "consume_level np ch ?l = Inr (np', ch')" "level_inv E (D \<union> set ?l) np' ch'"
      using consume_level_inv [OF less.prems dl] l by blast
    obtain ls e where IH: "topsort_levels_core ord np' ch' = (ls, e)" "is_levels E (D \<union> set ?l) ls"
       "e = None \<and> D \<union> set ?l \<union> set (concat ls) = nodes E \<or>
        (\<exists>np' ch' S. e = Some (CycleError [] np' ch') \<and> S \<noteq> {} \<and> (\<forall>x \<in> S. \<exists>p \<in> S. (p, x) \<in> set E))"
    proof -
      have "length np' < length np" using consume_level_length [OF c(1)] False by (cases ?l) auto
      from less.hyps [OF this c(2)] show ?thesis using that by blast
    qed
    have "topsort_levels_core ord np ch = (?l # ls, e)"
      using False c(1) IH(1) by (simp add: topsort_levels_core.simps [of ord np] Let_def)
    moreover have "is_levels E D (?l # ls)" using False dl l IH(2) by simp
    ultimately show ?thesis using IH(3) by (intro exI [of _ "?l # ls"] exI [of _ e]) (auto simp: Un_assoc)
  qed
qed

end

section \<open>find\_cycles\<close>

text \<open>
  \<open>parent_children\<close> is the dictionary \<open>g\<close>.  The cycles the generator yields are the list
  \<open>cycles\<close> it also keeps.  The stack \<open>paths\<close> has its top first.  \<open>scan_children\<close> is the
  loop over the children of the last node of a path.  (\<open>is_rotated\<close> raises on empty
  sequences only, and a cycle is never empty.)
\<close>

type_synonym 'a graph = "('a \<times> 'a list) list"

fun scan_children ::
  "'a list \<Rightarrow> 'a list \<Rightarrow> 'a list list \<Rightarrow> 'a list list \<Rightarrow> 'a list \<Rightarrow>
     'a list list \<times> 'a list list \<times> 'a list" where
  "scan_children path [] cycles paths visited = (cycles, paths, visited)"
| "scan_children path (child # children) cycles paths visited =
     (if child \<in> set path then
        (let cycle = dropWhile (\<lambda>x. x \<noteq> child) path;
             is_dup = list_ex (\<lambda>other_cycle. is_rotated other_cycle cycle = Inr True) cycles
         in scan_children path children (if is_dup then cycles else cycles @ [cycle]) paths visited)
      else scan_children path children cycles ((path @ [child]) # paths) (List.insert child visited))"

partial_function (option) cycles_loop ::
  "'a graph \<Rightarrow> 'a list list \<Rightarrow> 'a list list \<Rightarrow> 'a list \<Rightarrow> ('a list list \<times> 'a list) option" where
  "cycles_loop g paths cycles visited =
     (case paths of
        [] \<Rightarrow> Some (cycles, visited)
      | path # paths \<Rightarrow>
          (case map_of g (last path) of
             None \<Rightarrow> cycles_loop g paths cycles visited
           | Some children \<Rightarrow>
               (case scan_children path children cycles paths visited of
                  (cycles, paths, visited) \<Rightarrow> cycles_loop g paths cycles visited)))"

fun cycles_roots ::
  "'a graph \<Rightarrow> 'a list \<Rightarrow> 'a list list \<Rightarrow> 'a list \<Rightarrow> 'a list list option" where
  "cycles_roots g [] cycles visited = Some cycles"
| "cycles_roots g (parent # parents) cycles visited =
     (if parent \<in> set visited then cycles_roots g parents cycles visited
      else (case cycles_loop g [[parent]] cycles visited of
              None \<Rightarrow> None
            | Some (cycles, visited) \<Rightarrow> cycles_roots g parents cycles visited))"

definition find_cycles :: "('a list \<Rightarrow> 'a list) \<Rightarrow> 'a graph \<Rightarrow> 'a list list option" where
  "find_cycles ko g = cycles_roots g (ko (keys g)) [] []"

subsection \<open>Walks and elementary cycles\<close>

definition edge :: "'a graph \<Rightarrow> 'a \<Rightarrow> 'a \<Rightarrow> bool" where
  "edge g x y \<longleftrightarrow> (case map_of g x of None \<Rightarrow> False | Some cs \<Rightarrow> y \<in> set cs)"

fun walk :: "'a graph \<Rightarrow> 'a list \<Rightarrow> bool" where
  "walk g [] \<longleftrightarrow> True"
| "walk g [x] \<longleftrightarrow> True"
| "walk g (x # y # zs) \<longleftrightarrow> edge g x y \<and> walk g (y # zs)"

definition elem_cycle :: "'a graph \<Rightarrow> 'a list \<Rightarrow> bool" where
  "elem_cycle g c \<longleftrightarrow> c \<noteq> [] \<and> distinct c \<and> walk g c \<and> edge g (last c) (hd c)"

definition rotation_of :: "'a list \<Rightarrow> 'a list \<Rightarrow> bool" where
  "rotation_of c d \<longleftrightarrow> (\<exists>k. d = rotate k c)"

lemma walk_append:
  "walk g (xs @ ys) \<longleftrightarrow> walk g xs \<and> walk g ys \<and> (xs \<noteq> [] \<and> ys \<noteq> [] \<longrightarrow> edge g (last xs) (hd ys))"
proof (induction g xs rule: walk.induct)
  case (2 g x)
  then show ?case by (cases ys) auto
qed auto

lemma rotation_of_refl: "rotation_of c c"
  unfolding rotation_of_def by (rule exI [of _ 0]) simp

lemma rotation_of_sym: "rotation_of c d \<Longrightarrow> rotation_of d c"
proof -
  assume "rotation_of c d"
  then obtain k where d: "d = rotate k c" by (auto simp: rotation_of_def)
  show ?thesis
  proof (cases "c = []")
    case False
    let ?n = "length c"
    have "rotate (?n - k mod ?n) d = rotate (?n - k mod ?n + k mod ?n) c"
      unfolding d by (subst (2) rotate_conv_mod) (simp add: rotate_rotate)
    also have "?n - k mod ?n + k mod ?n = ?n"
      using False mod_less_divisor [of ?n k] by (simp add: less_imp_le)
    finally have "rotate (?n - k mod ?n) d = c" by simp
    then show ?thesis unfolding rotation_of_def by metis
  qed (use d in \<open>simp add: rotation_of_refl\<close>)
qed

lemma rotation_of_trans: "rotation_of b c \<Longrightarrow> rotation_of c d \<Longrightarrow> rotation_of b d"
  by (auto simp: rotation_of_def rotate_rotate)

lemma is_rotated_rotation: "c \<noteq> [] \<Longrightarrow> is_rotated c d = Inr True \<longleftrightarrow> rotation_of c d"
  by (simp add: is_rotated_iff rotation_of_def)

lemma hd_dropWhile_neq: "c \<in> set p \<Longrightarrow> hd (dropWhile (\<lambda>x. x \<noteq> c) p) = c"
  by (induction p) auto

lemma dropWhile_split: "c \<in> set p \<Longrightarrow> \<exists>as. p = as @ dropWhile (\<lambda>x. x \<noteq> c) p \<and> c \<notin> set as \<and>
    dropWhile (\<lambda>x. x \<noteq> c) p \<noteq> [] \<and> hd (dropWhile (\<lambda>x. x \<noteq> c) p) = c"
  by (intro exI [of _ "takeWhile (\<lambda>x. x \<noteq> c) p"])
    (auto simp: dropWhile_eq_Nil_conv hd_dropWhile_neq dest: set_takeWhileD)

text \<open>Closing a simple walk at one of its nodes gives an elementary cycle.\<close>

lemma close_path:
  assumes "distinct p" "walk g p" "c \<in> set p" "edge g (last p) c"
  shows "elem_cycle g (dropWhile (\<lambda>x. x \<noteq> c) p)"
proof -
  let ?q = "dropWhile (\<lambda>x. x \<noteq> c) p"
  obtain as where as: "p = as @ ?q" "?q \<noteq> []" "hd ?q = c" using dropWhile_split [OF assms(3)] by blast
  have "walk g ?q" using assms(2) as(1) walk_append [of g as ?q] by simp
  moreover have "last p = last ?q" using as(1,2) by (metis last_appendR)
  ultimately show ?thesis using assms as by (simp add: elem_cycle_def)
qed

abbreviation apart :: "'a list list \<Rightarrow> bool" where
  "apart cs \<equiv> sorted_wrt (\<lambda>a b. \<not> rotation_of a b) cs"

lemma scan_children_spec:
  assumes "scan_children p cs C P V = (C', P', V')" "\<forall>d \<in> set C. d \<noteq> []" "apart C"
  shows "P' = rev (map (\<lambda>c. p @ [c]) (filter (\<lambda>c. c \<notin> set p) cs)) @ P \<and>
    set V' = set V \<union> (set cs - set p) \<and> set C \<subseteq> set C' \<and> apart C' \<and>
    (\<forall>d \<in> set C' - set C. \<exists>c \<in> set cs \<inter> set p. d = dropWhile (\<lambda>x. x \<noteq> c) p) \<and>
    (\<forall>c \<in> set cs \<inter> set p. \<exists>d \<in> set C'. rotation_of d (dropWhile (\<lambda>x. x \<noteq> c) p))"
  using assms
proof (induction p cs C P V rule: scan_children.induct)
  case (1 p C P V)
  then show ?case by auto
next
  case (2 p c cs C P V)
  show ?case
  proof (cases "c \<in> set p")
    case False
    with "2.prems" have run: "scan_children p cs C ((p @ [c]) # P) (List.insert c V) = (C', P', V')" by simp
    from "2.IH"(2) [OF False run "2.prems"(2,3)] False show ?thesis by auto
  next
    case True
    let ?y = "dropWhile (\<lambda>x. x \<noteq> c) p"
    let ?dup = "list_ex (\<lambda>oc. is_rotated oc ?y = Inr True) C"
    let ?C = "if ?dup then C else C @ [?y]"
    have y: "?y \<noteq> []" using dropWhile_split [OF True] by blast
    have dup: "?dup \<longleftrightarrow> (\<exists>d \<in> set C. rotation_of d ?y)"
      using "2.prems"(2) by (auto simp: list_ex_iff is_rotated_rotation)
    have run: "scan_children p cs ?C P V = (C', P', V')" using "2.prems"(1) True by (simp add: Let_def)
    have "\<forall>d \<in> set ?C. d \<noteq> []" using "2.prems"(2) y by auto
    moreover have "apart ?C" using "2.prems"(3) dup by (auto simp: sorted_wrt_append)
    ultimately have IH: "P' = rev (map (\<lambda>c. p @ [c]) (filter (\<lambda>c. c \<notin> set p) cs)) @ P \<and>
      set V' = set V \<union> (set cs - set p) \<and> set ?C \<subseteq> set C' \<and> apart C' \<and>
      (\<forall>d \<in> set C' - set ?C. \<exists>c \<in> set cs \<inter> set p. d = dropWhile (\<lambda>x. x \<noteq> c) p) \<and>
      (\<forall>c \<in> set cs \<inter> set p. \<exists>d \<in> set C'. rotation_of d (dropWhile (\<lambda>x. x \<noteq> c) p))"
      using "2.IH"(1) [OF True refl refl run] by blast
    have "\<exists>d \<in> set ?C. rotation_of d ?y" using dup rotation_of_refl by (cases ?dup) auto
    then have "\<exists>d \<in> set C'. rotation_of d ?y" using IH by blast
    moreover have "set C \<subseteq> set ?C" "set ?C - set C \<subseteq> {?y}" by auto
    ultimately show ?thesis using IH True by auto
  qed
qed

subsection \<open>The search returns, soundly and completely\<close>

definition graph_nodes :: "'a graph \<Rightarrow> 'a set" where
  "graph_nodes g = set (keys g) \<union> (\<Union>cs \<in> snd ` set g. set cs)"

definition branching :: "'a graph \<Rightarrow> nat" where
  "branching g = sum_list (map (\<lambda>(k, cs). length cs) g)"

definition simple_path :: "'a graph \<Rightarrow> 'a list \<Rightarrow> bool" where
  "simple_path g p \<longleftrightarrow> p \<noteq> [] \<and> distinct p \<and> walk g p \<and> set p \<subseteq> graph_nodes g"

definition path_weight :: "'a graph \<Rightarrow> 'a list \<Rightarrow> nat" where
  "path_weight g p = Suc (branching g) ^ (card (graph_nodes g) - length p)"

definition closed_below :: "'a graph \<Rightarrow> 'a list \<Rightarrow> 'a list list \<Rightarrow> bool" where
  "closed_below g p C \<longleftrightarrow>
     (\<forall>r c. distinct (p @ r) \<and> walk g (p @ r) \<and> c \<in> set (p @ r) \<and> edge g (last (p @ r)) c \<longrightarrow>
        (\<exists>d \<in> set C. rotation_of d (dropWhile (\<lambda>x. x \<noteq> c) (p @ r))))"

lemma finite_graph_nodes: "finite (graph_nodes g)"
  by (auto simp: graph_nodes_def)

lemma edge_nodes: "edge g x y \<Longrightarrow> x \<in> graph_nodes g \<and> y \<in> graph_nodes g"
  by (force simp: edge_def graph_nodes_def split: option.splits dest: map_of_SomeD)

lemma children_length: "map_of g x = Some cs \<Longrightarrow> length cs \<le> branching g"
  unfolding branching_def by (induction g) (auto split: if_splits)

lemma simple_path_length: "simple_path g p \<Longrightarrow> length p \<le> card (graph_nodes g)"
  by (metis card_mono distinct_card finite_graph_nodes simple_path_def)

lemma simple_path_extend:
  "simple_path g p \<Longrightarrow> edge g (last p) c \<Longrightarrow> c \<notin> set p \<Longrightarrow> simple_path g (p @ [c])"
  by (auto simp: simple_path_def walk_append dest: edge_nodes)

lemma walk_reaches: "walk g p \<Longrightarrow> y \<in> set p \<Longrightarrow> (edge g)\<^sup>*\<^sup>* (hd p) y"
proof (induction g p rule: walk.induct)
  case (3 g x y' zs)
  then show ?case by (cases "y = x") (auto intro: converse_rtranclp_into_rtranclp)
qed auto

text \<open>Replacing a path by its extensions makes the total weight of the stack smaller.\<close>

lemma extensions_weight:
  assumes p: "simple_path g p" and cs: "map_of g (last p) = Some cs"
  shows "sum_list (map (path_weight g) (map (\<lambda>c. p @ [c]) (filter (\<lambda>c. c \<notin> set p) cs))) < path_weight g p"
proof (cases "filter (\<lambda>c. c \<notin> set p) cs = []")
  case True
  then show ?thesis by (simp add: path_weight_def)
next
  case False
  let ?n = "card (graph_nodes g)"
  obtain c where "c \<in> set cs" "c \<notin> set p" using False by (auto simp: filter_empty_conv)
  then have "simple_path g (p @ [c])" using p cs by (intro simple_path_extend) (auto simp: edge_def)
  from simple_path_length [OF this] have n: "?n - length p = Suc (?n - Suc (length p))" by simp
  have "sum_list (map (path_weight g) (map (\<lambda>c. p @ [c]) (filter (\<lambda>c. c \<notin> set p) cs))) =
      length (filter (\<lambda>c. c \<notin> set p) cs) * Suc (branching g) ^ (?n - Suc (length p))"
    by (simp add: path_weight_def comp_def sum_list_triv)
  also have "\<dots> \<le> branching g * Suc (branching g) ^ (?n - Suc (length p))"
    by (rule mult_le_mono1) (rule le_trans [OF length_filter_le children_length [OF cs]])
  also have "\<dots> < path_weight g p" by (simp add: path_weight_def n)
  finally show ?thesis .
qed

lemma closed_below_mono: "closed_below g p C \<Longrightarrow> set C \<subseteq> set C' \<Longrightarrow> closed_below g p C'"
  unfolding closed_below_def by blast

lemma closed_below_extend:
  assumes "p \<noteq> []"
    and here: "\<And>c. c \<in> set p \<Longrightarrow> edge g (last p) c \<Longrightarrow> \<exists>d \<in> set C. rotation_of d (dropWhile (\<lambda>x. x \<noteq> c) p)"
    and deeper: "\<And>c. c \<notin> set p \<Longrightarrow> edge g (last p) c \<Longrightarrow> closed_below g (p @ [c]) C"
  shows "closed_below g p C"
  unfolding closed_below_def
proof (intro allI impI)
  fix r c assume *: "distinct (p @ r) \<and> walk g (p @ r) \<and> c \<in> set (p @ r) \<and> edge g (last (p @ r)) c"
  show "\<exists>d \<in> set C. rotation_of d (dropWhile (\<lambda>x. x \<noteq> c) (p @ r))"
  proof (cases r)
    case Nil
    with * here show ?thesis by simp
  next
    case (Cons y ys)
    with * assms(1) have "y \<notin> set p" "edge g (last p) y" by (auto simp: walk_append)
    from deeper [OF this] * Cons show ?thesis by (simp add: closed_below_def)
  qed
qed

lemma edge_children: "map_of g x = Some cs \<Longrightarrow> edge g x c \<longleftrightarrow> c \<in> set cs"
  by (simp add: edge_def)

text \<open>
  The \<open>while\<close> loop ends, because a path never holds a node twice, and leaves every cycle that
  a continuation of a path on the stack closes among the ones it has found.
\<close>

definition search_result ::
  "'a graph \<Rightarrow> 'a list list \<Rightarrow> 'a list list \<Rightarrow> 'a list \<Rightarrow> 'a list list \<Rightarrow> 'a list \<Rightarrow> bool" where
  "search_result g P C V C' V' \<longleftrightarrow>
     (\<forall>d \<in> set C'. elem_cycle g d) \<and> apart C' \<and> set C \<subseteq> set C' \<and>
     (\<forall>p \<in> set P. closed_below g p C') \<and>
     (\<forall>v \<in> set V' - set V. \<exists>p \<in> set P. (edge g)\<^sup>*\<^sup>* (last p) v)"

lemma search_result_step:
  assumes p: "simple_path g p" and cs: "map_of g (last p) = Some cs"
    and scan: "scan_children p cs C P V = (C1, P1, V1)"
    and C: "\<forall>d \<in> set C. elem_cycle g d" "apart C"
  shows "(\<forall>d \<in> set C1. elem_cycle g d) \<and> apart C1 \<and>
    (search_result g P1 C1 V1 C' V' \<longrightarrow> search_result g (p # P) C V C' V')"
proof -
  have ne: "\<forall>d \<in> set C. d \<noteq> []" using C(1) by (auto simp: elem_cycle_def)
  note sp = scan_children_spec [OF scan ne C(2)]
  have P1: "P1 = rev (map (\<lambda>c. p @ [c]) (filter (\<lambda>c. c \<notin> set p) cs)) @ P" using sp by blast
  have V1: "set V1 = set V \<union> (set cs - set p)" and mono: "set C \<subseteq> set C1" using sp by blast+
  have new: "elem_cycle g d" if "d \<in> set C1 - set C" for d
  proof -
    from sp that obtain c where "c \<in> set cs" "c \<in> set p" "d = dropWhile (\<lambda>x. x \<noteq> c) p" by blast
    then show ?thesis using close_path [of p g c] p by (simp add: simple_path_def edge_children [OF cs])
  qed
  have "search_result g (p # P) C V C' V'" if r: "search_result g P1 C1 V1 C' V'"
  proof -
    have "closed_below g p C'"
    proof (rule closed_below_extend)
      show "p \<noteq> []" using p by (simp add: simple_path_def)
      show "\<exists>d \<in> set C'. rotation_of d (dropWhile (\<lambda>x. x \<noteq> c) p)" if "c \<in> set p" "edge g (last p) c" for c
      proof -
        have "c \<in> set cs \<inter> set p" using that by (simp add: edge_children [OF cs])
        moreover have "set C1 \<subseteq> set C'" using r by (simp add: search_result_def)
        ultimately show ?thesis using sp by blast
      qed
      show "closed_below g (p @ [c]) C'" if "c \<notin> set p" "edge g (last p) c" for c
        using r that by (simp add: search_result_def P1 edge_children [OF cs])
    qed
    moreover have "\<exists>q \<in> set (p # P). (edge g)\<^sup>*\<^sup>* (last q) v" if v: "v \<in> set V' - set V" for v
    proof (cases "v \<in> set V1")
      case True
      then have "edge g (last p) v" using v V1 by (auto simp: edge_children [OF cs])
      then show ?thesis by auto
    next
      case False
      then obtain q where q: "q \<in> set P1" "(edge g)\<^sup>*\<^sup>* (last q) v"
        using r v unfolding search_result_def by blast
      show ?thesis
      proof (cases "q \<in> set P")
        case False
        then obtain c where "c \<in> set cs" "q = p @ [c]" using q(1) P1 by auto
        then show ?thesis using q(2)
          by (auto simp: edge_children [OF cs] intro: converse_rtranclp_into_rtranclp)
      qed (use q in auto)
    qed
    moreover have "\<forall>q \<in> set P. closed_below g q C'" "set C \<subseteq> set C'"
      using r mono P1 unfolding search_result_def by auto
    ultimately show ?thesis using r unfolding search_result_def by simp
  qed
  then show ?thesis using new C(1) sp by blast
qed

lemma search_result_dead:
  assumes "simple_path g p" "map_of g (last p) = None" "search_result g P C V C' V'"
  shows "search_result g (p # P) C V C' V'"
proof -
  have "closed_below g p C'"
  proof (rule closed_below_extend)
    show "p \<noteq> []" using assms(1) by (simp add: simple_path_def)
  qed (use assms(2) in \<open>simp_all add: edge_def\<close>)
  then show ?thesis using assms(3) unfolding search_result_def by simp
qed

lemma cycles_loop_spec:
  "(\<forall>p \<in> set P. simple_path g p) \<Longrightarrow> (\<forall>d \<in> set C. elem_cycle g d) \<Longrightarrow> apart C \<Longrightarrow>
   \<exists>C' V'. cycles_loop g P C V = Some (C', V') \<and> search_result g P C V C' V'"
proof (induction "sum_list (map (path_weight g) P)" arbitrary: P C V rule: less_induct)
  case less
  show ?case
  proof (cases P)
    case Nil
    with less.prems show ?thesis by (simp add: cycles_loop.simps [of g "[]"] search_result_def)
  next
    case (Cons p P0)
    then have p: "simple_path g p" using less.prems(1) by simp
    have pos: "0 < path_weight g p" by (simp add: path_weight_def)
    show ?thesis
    proof (cases "map_of g (last p)")
      case None
      have "sum_list (map (path_weight g) P0) < sum_list (map (path_weight g) P)" using Cons pos by simp
      from less.hyps [OF this, of C V] less.prems Cons obtain C' V' where
        "cycles_loop g P0 C V = Some (C', V')" "search_result g P0 C V C' V'" by auto
      moreover from this have "cycles_loop g P C V = Some (C', V')"
        using Cons None by (simp add: cycles_loop.simps [of g "p # P0"])
      ultimately show ?thesis using search_result_dead [OF p None] Cons by blast
    next
      case (Some cs)
      obtain C1 P1 V1 where scan: "scan_children p cs C P0 V = (C1, P1, V1)"
        by (cases "scan_children p cs C P0 V") auto
      note st = search_result_step [OF p Some scan less.prems(2,3)]
      have ne: "\<forall>d \<in> set C. d \<noteq> []" using less.prems(2) by (auto simp: elem_cycle_def)
      have P1: "P1 = rev (map (\<lambda>c. p @ [c]) (filter (\<lambda>c. c \<notin> set p) cs)) @ P0"
        using scan_children_spec [OF scan ne less.prems(3)] by blast
      have "\<forall>q \<in> set P1. simple_path g q"
        using less.prems(1) Cons p simple_path_extend [OF p] by (auto simp: P1 edge_children [OF Some])
      moreover have "sum_list (map (path_weight g) P1) < sum_list (map (path_weight g) P)"
        using extensions_weight [OF p Some] by (simp add: P1 Cons rev_map [symmetric] sum_list_rev)
      ultimately obtain C' V' where run: "cycles_loop g P1 C1 V1 = Some (C', V')"
        "search_result g P1 C1 V1 C' V'" using less.hyps [of P1 C1 V1] st by blast
      moreover have "cycles_loop g P C V = Some (C', V')"
        using Cons Some scan run(1) by (simp add: cycles_loop.simps [of g "p # P0"])
      ultimately show ?thesis using st Cons by blast
    qed
  qed
qed

lemma cycles_roots_spec:
  "(\<forall>d \<in> set C. elem_cycle g d) \<Longrightarrow> apart C \<Longrightarrow> set ks \<subseteq> graph_nodes g \<Longrightarrow>
   (\<forall>v \<in> set V. \<exists>r. (edge g)\<^sup>*\<^sup>* r v \<and> closed_below g [r] C) \<Longrightarrow>
   \<exists>C'. cycles_roots g ks C V = Some C' \<and> (\<forall>d \<in> set C'. elem_cycle g d) \<and> apart C' \<and> set C \<subseteq> set C' \<and>
     (\<forall>k \<in> set ks. \<exists>r. (edge g)\<^sup>*\<^sup>* r k \<and> closed_below g [r] C')"
proof (induction ks arbitrary: C V)
  case Nil
  then show ?case by simp
next
  case (Cons k ks)
  show ?case
  proof (cases "k \<in> set V")
    case True
    obtain C' where C': "cycles_roots g ks C V = Some C'" "\<forall>d \<in> set C'. elem_cycle g d" "apart C'"
      "set C \<subseteq> set C'" "\<forall>k \<in> set ks. \<exists>r. (edge g)\<^sup>*\<^sup>* r k \<and> closed_below g [r] C'"
      using Cons.IH [OF Cons.prems(1,2) _ Cons.prems(4)] Cons.prems(3) by auto
    moreover have "\<exists>r. (edge g)\<^sup>*\<^sup>* r k \<and> closed_below g [r] C'"
      using Cons.prems(4) True C'(4) closed_below_mono by metis
    ultimately show ?thesis using True by auto
  next
    case False
    have "\<forall>p \<in> set [[k]]. simple_path g p" using Cons.prems(3) by (simp add: simple_path_def)
    from cycles_loop_spec [OF this Cons.prems(1,2), of V] obtain C1 V1
      where run: "cycles_loop g [[k]] C V = Some (C1, V1)" and res: "search_result g [[k]] C V C1 V1" by blast
    from res have C1: "\<forall>d \<in> set C1. elem_cycle g d" "apart C1" "set C \<subseteq> set C1" "closed_below g [k] C1"
      and V1: "\<And>v. v \<in> set V1 - set V \<Longrightarrow> (edge g)\<^sup>*\<^sup>* k v"
      by (auto simp: search_result_def)
    have "\<exists>r. (edge g)\<^sup>*\<^sup>* r v \<and> closed_below g [r] C1" if "v \<in> set V1" for v
      using that V1 [of v] C1 Cons.prems(4) closed_below_mono by (cases "v \<in> set V") blast+
    then have V1': "\<forall>v \<in> set V1. \<exists>r. (edge g)\<^sup>*\<^sup>* r v \<and> closed_below g [r] C1" by blast
    obtain C' where C': "cycles_roots g ks C1 V1 = Some C'" "\<forall>d \<in> set C'. elem_cycle g d" "apart C'"
      "set C1 \<subseteq> set C'" "\<forall>k \<in> set ks. \<exists>r. (edge g)\<^sup>*\<^sup>* r k \<and> closed_below g [r] C'"
      using Cons.IH [OF C1(1,2) _ V1'] Cons.prems(3) by auto
    moreover have "closed_below g [k] C'" using C1(4) C'(4) by (rule closed_below_mono)
    ultimately show ?thesis using False run C1(3) by auto
  qed
qed

text \<open>A reachable cycle is entered by a simple path that meets it at its end only.\<close>

lemma entering_path:
  assumes "(edge g)\<^sup>*\<^sup>* r k" "k \<in> K"
  shows "\<exists>p. p \<noteq> [] \<and> hd p = r \<and> distinct p \<and> walk g p \<and> last p \<in> K \<and> set (butlast p) \<inter> K = {}"
  using assms
proof (induction rule: converse_rtranclp_induct)
  case base
  then show ?case by (intro exI [of _ "[k]"]) simp
next
  case (step r s)
  then obtain p where p: "p \<noteq> []" "hd p = s" "distinct p" "walk g p" "last p \<in> K" "set (butlast p) \<inter> K = {}"
    by blast
  show ?case
  proof (cases "r \<in> set p")
    case True
    let ?q = "dropWhile (\<lambda>x. x \<noteq> r) p"
    obtain as where as: "p = as @ ?q" "?q \<noteq> []" "hd ?q = r" using dropWhile_split [OF True] by blast
    have "walk g ?q" using p(4) as(1) walk_append [of g as ?q] by simp
    moreover have "last p = last ?q" using as(1,2) by (metis last_appendR)
    moreover have "set (butlast ?q) \<subseteq> set (butlast p)" using as(1,2) by (metis butlast_append set_append Un_upper2)
    ultimately show ?thesis using p as(2,3) by (intro exI [of _ ?q]) auto
  next
    case False
    show ?thesis
    proof (cases "r \<in> K")
      case True
      then show ?thesis by (intro exI [of _ "[r]"]) simp
    next
      case notK: False
      have "walk g (r # p)" using p step(1) by (cases p) auto
      then show ?thesis using p False notK by (intro exI [of _ "r # p"]) simp
    qed
  qed
qed

lemma elem_cycle_rotate: "elem_cycle g (as @ bs) \<Longrightarrow> elem_cycle g (bs @ as)"
  by (cases "as = []"; cases "bs = []") (auto simp: elem_cycle_def walk_append)

lemma cycle_covered:
  assumes K: "elem_cycle g K" and r: "(edge g)\<^sup>*\<^sup>* r (hd K)" "closed_below g [r] C"
  shows "\<exists>d \<in> set C. rotation_of d K"
proof -
  have "hd K \<in> set K" using K by (simp add: elem_cycle_def)
  from entering_path [OF r(1) this] obtain p where p: "p \<noteq> []" "hd p = r" "distinct p" "walk g p"
    "last p \<in> set K" "set (butlast p) \<inter> set K = {}" by blast
  let ?k = "last p"
  obtain as bs where ab: "K = as @ ?k # bs" using p(5) by (meson split_list)
  have rot: "elem_cycle g (?k # bs @ as)" using elem_cycle_rotate [of g as "?k # bs"] K ab by simp
  have pk: "p = butlast p @ [?k]" using p(1) by simp
  have dis: "distinct (p @ bs @ as)"
    using p(3,6) rot ab by (subst pk, subst (asm) (2) pk) (auto simp: elem_cycle_def)
  have wk: "walk g (p @ bs @ as)"
    using p(1,4) rot by (cases "bs @ as") (auto simp: walk_append elem_cycle_def)
  have nk: "?k \<notin> set (butlast p)" using p(5,6) by blast
  have drop: "dropWhile (\<lambda>x. x \<noteq> ?k) (p @ bs @ as) = ?k # bs @ as"
  proof -
    have "dropWhile (\<lambda>x. x \<noteq> ?k) (butlast p @ (?k # bs @ as)) = dropWhile (\<lambda>x. x \<noteq> ?k) (?k # bs @ as)"
      using nk by (intro dropWhile_append2) auto
    moreover have "p @ bs @ as = butlast p @ (?k # bs @ as)" by (subst pk) simp
    ultimately show ?thesis by (simp only: dropWhile.simps if_True if_False not_False_eq_True simp_thms)
  qed
  have last: "edge g (last (p @ bs @ as)) ?k" using rot p(1) by (auto simp: elem_cycle_def split: if_splits)
  obtain p' where "p = r # p'" using p(1,2) by (cases p) auto
  then have "p @ bs @ as = [r] @ (p' @ bs @ as)" by simp
  then obtain d where d: "d \<in> set C" "rotation_of d (dropWhile (\<lambda>x. x \<noteq> ?k) (p @ bs @ as))"
    using r(2) dis wk last p(1) unfolding closed_below_def by (metis last_in_set Un_iff set_append)
  have "rotate (length (?k # bs)) ((?k # bs) @ as) = as @ ?k # bs" by (rule rotate_append)
  then have "rotation_of (?k # bs @ as) K" using ab unfolding rotation_of_def by (metis append_Cons)
  with d drop show ?thesis using rotation_of_trans by metis
qed

context key_order
begin

lemma find_cycles_spec:
  "\<exists>cs. find_cycles ord g = Some cs \<and> (\<forall>c \<in> set cs. elem_cycle g c) \<and> apart cs \<and>
     (\<forall>K. elem_cycle g K \<longrightarrow> (\<exists>c \<in> set cs. rotation_of c K))"
proof -
  have "set (ord (keys g)) \<subseteq> graph_nodes g" by (auto simp: set_ord graph_nodes_def)
  from cycles_roots_spec [OF _ _ this, of "[]" "[]"] obtain cs where
    cs: "find_cycles ord g = Some cs" "\<forall>c \<in> set cs. elem_cycle g c" "apart cs"
    "\<forall>k \<in> set (keys g). \<exists>r. (edge g)\<^sup>*\<^sup>* r k \<and> closed_below g [r] cs"
    by (auto simp: find_cycles_def set_ord)
  have "\<exists>c \<in> set cs. rotation_of c K" if K: "elem_cycle g K" for K
  proof -
    have "\<exists>y. edge g (hd K) y" using K by (cases K; cases "tl K") (auto simp: elem_cycle_def)
    then have "hd K \<in> set (keys g)" by (force simp: edge_def split: option.splits dest: map_of_SomeD)
    then show ?thesis using cs(4) cycle_covered [OF K] by blast
  qed
  then show ?thesis using cs by blast
qed

end

section \<open>What dependency sorting promises\<close>

text \<open>
  C1: \<open>topsort\<close> never fails on a dictionary access.  On acyclic input it returns every element
  exactly once, each one after all of its parents; on cyclic input it raises \<open>CycleError\<close>.
  This holds for every order in which the dictionary may list its keys.\<close>
theorem topsort_correct:
  assumes "key_order ko"
  shows "if acyclic (set E)
    then (\<exists>ans. topsort ko E = Inr ans \<and> distinct ans \<and> set ans = nodes E \<and>
            (\<forall>p c. (p, c) \<in> set E \<longrightarrow> (\<exists>i j. i < j \<and> j < length ans \<and> ans ! i = p \<and> ans ! j = c)))
    else (\<exists>ans np ch. topsort ko E = Inl (CycleError ans np ch))"
proof (cases rule: key_order.topsort_cases [OF assms, of E])
  case (1 ans)
  have "snd ` set E \<subseteq> set ans" using 1(3) by (auto simp: nodes_def)
  then have "acyclic (set E)" using ordered_acyclic [OF 1(4,2)] by blast
  moreover have "\<exists>i j. i < j \<and> j < length ans \<and> ans ! i = p \<and> ans ! j = c" if "(p, c) \<in> set E" for p c
  proof -
    from that 1(3) obtain j where "j < length ans" "ans ! j = c" by (metis in_set_conv_nth nodesI)
    with 1(4) that show ?thesis by (fastforce simp: in_set_conv_nth)
  qed
  ultimately show ?thesis using 1 by auto
next
  case (2 ans np ch S)
  then show ?thesis using no_source_cyclic [OF 2(2,4)] by simp
qed

theorem topsort_correct_witness:
  "acyclic (set [(1::nat, 2), (2, 3)]) \<and> topsort rev [(1::nat, 2), (2, 3)] = Inr [1, 2, 3] \<and>
   (\<exists>ans np ch. topsort rev [(1::nat, 2), (2, 1)] = Inl (CycleError ans np ch))"
proof -
  have run: "topsort rev [(1::nat, 2), (2, 3)] = Inr [1, 2, 3]"
    "topsort rev [(1::nat, 2), (2, 1)] = Inl (CycleError [] [(1, 1), (2, 1)] [(1, [2]), (2, [1])])"
    by (simp_all add: topsort_def count_parents_def add_pair_def Let_def)
  have "acyclic (set [(1::nat, 2), (2, 3)])"
    using topsort_correct [OF reverse_order.key_order_axioms, of "[(1::nat, 2), (2, 3)]"] run(1)
    by (metis Inl_Inr_False)
  with run show ?thesis by simp
qed

text \<open>
  C3: \<open>topsort_levels\<close> yields, level by level, exactly the elements not yet yielded whose
  parents have all been yielded in earlier levels.  On acyclic input the levels cover all the
  elements and the generator ends; on cyclic input it ends with \<open>CycleError\<close>.\<close>
theorem topsort_levels_correct:
  assumes "key_order ko"
  shows "\<exists>ls e. topsort_levels ko E = (ls, e) \<and>
    (\<forall>k < length ls. ls ! k \<noteq> [] \<and> distinct (ls ! k) \<and>
       set (ls ! k) = {x \<in> nodes E - set (concat (take k ls)).
                        \<forall>p. (p, x) \<in> set E \<longrightarrow> p \<in> set (concat (take k ls))}) \<and>
    (if acyclic (set E) then e = None \<and> set (concat ls) = nodes E
     else (\<exists>np ch. e = Some (CycleError [] np ch)))"
proof -
  obtain np ch where cp: "count_parents E = (np, ch)" by (cases "count_parents E")
  have "level_inv E {} np ch" using count_parents_spec [OF cp] by (simp add: level_inv_def)
  from key_order.levels_core_spec [OF assms this] obtain ls e where
    run: "topsort_levels_core ko np ch = (ls, e)" and ls: "is_levels E {} ls" and
    e: "e = None \<and> set (concat ls) = nodes E \<or>
      (\<exists>np' ch' S. e = Some (CycleError [] np' ch') \<and> S \<noteq> {} \<and> (\<forall>x \<in> S. \<exists>p \<in> S. (p, x) \<in> set E))"
    by (metis sup_bot.left_neutral)
  have "topsort_levels ko E = (ls, e)" using cp run by (simp add: topsort_levels_def)
  moreover have "\<forall>k < length ls. ls ! k \<noteq> [] \<and> distinct (ls ! k) \<and>
       set (ls ! k) = {x \<in> nodes E - set (concat (take k ls)).
                        \<forall>p. (p, x) \<in> set E \<longrightarrow> p \<in> set (concat (take k ls))}"
    using is_levels_nth [OF ls] by (simp add: open_parents_0)
  moreover have "if acyclic (set E) then e = None \<and> set (concat ls) = nodes E
     else (\<exists>np ch. e = Some (CycleError [] np ch))"
  proof (cases "e = None")
    case True
    then have "acyclic (set E)" using e levels_acyclic [OF ls] by simp
    with True e show ?thesis by simp
  next
    case False
    then show ?thesis using e no_source_cyclic [of _ "set E"] by auto
  qed
  ultimately show ?thesis by blast
qed

theorem topsort_levels_correct_witness:
  "topsort_levels rev [(1::nat, 2), (1, 3), (2, 4)] = ([[1], [3, 2], [4]], None) \<and>
   nodes [(1::nat, 2), (1, 3), (2, 4)] = set (concat [[1], [3, 2], [4]])"
  using topsort_levels_correct [OF reverse_order.key_order_axioms, of "[(1::nat, 2), (1, 3), (2, 4)]"]
  by (auto simp: nodes_def topsort_levels_def count_parents_def add_pair_def Let_def topsort_levels_core.simps)

text \<open>
  C2: \<open>find_cycles\<close> always returns.  What it yields are elementary cycles of the graph, no two of
  them rotations of each other, and every elementary cycle is a rotation of one of them.\<close>
theorem find_cycles_correct:
  assumes "key_order ko"
  shows "\<exists>cs. find_cycles ko g = Some cs \<and> (\<forall>c \<in> set cs. elem_cycle g c) \<and>
    sorted_wrt (\<lambda>a b. \<not> rotation_of a b) cs \<and>
    (\<forall>K. elem_cycle g K \<longrightarrow> (\<exists>c \<in> set cs. rotation_of c K))"
  by (rule key_order.find_cycles_spec [OF assms])

theorem find_cycles_correct_witness:
  "find_cycles rev [(1::nat, [2]), (2, [1, 3])] = Some [[2, 1]] \<and>
   elem_cycle [(1::nat, [2]), (2, [1, 3])] [2, 1]"
proof -
  have run: "find_cycles rev [(1::nat, [2]), (2, [1, 3])] = Some [[2, 1]]"
    by (simp add: find_cycles_def cycles_loop.simps Let_def)
  with find_cycles_correct [OF reverse_order.key_order_axioms, of "[(1::nat, [2]), (2, [1, 3])]"]
  show ?thesis by simp
qed

end
