(* ===== verification/TestJobs.thy ===== *)
theory TestJobs
  imports PyLib Transition Complex_Main "HOL-Library.List_Lexorder" "HOL-Library.Char_ord"
begin

text \<open>
  The parallel test runner of \<^verbatim>\<open>test.py\<close>: the class \<open>Job\<close>, \<open>run_job_synchronously\<close>,
  \<open>worker_thread\<close>, and the part of \<open>run_tests\<close> that starts the workers, dispatches the jobs
  and the break jobs, collects the results and joins the threads.

  The threads are a state machine: \<open>main_step\<close> and \<open>worker_step\<close> are the atomic actions of
  the main thread and of one worker, \<open>sigint_step\<close> is the signal handler, and a run is a
  sequence of events in any order the scheduler likes.  A step that would block is \<open>None\<close>.
  What an external process did (return code, decoded output, elapsed time, and the results file
  it wrote) is carried by the event that ends it; the event carries nothing when the process could
  not be started.  A worker whose job raises an exception is \<open>Dead\<close>: the thread is over and the job
  is never put into the output queue.
\<close>

section \<open>Options, configuration and jobs\<close>

record options =
  opt_buildpath :: string
  opt_constrain :: string
  opt_duration :: bool
  opt_example :: string
  opt_update_data :: bool
  opt_fullness :: string
  opt_valgrind :: bool
  opt_kinds :: bool
  opt_list :: bool
  opt_multiple :: bool
  opt_nowaf :: bool
  opt_pyexample :: string
  opt_retain :: bool
  opt_suite :: string
  opt_text :: string
  opt_verbose :: bool
  opt_html :: string
  opt_xml :: string
  opt_nocolor :: bool
  opt_process_limit :: int

definition default_options :: options where
  "default_options = \<lparr> opt_buildpath = '''', opt_constrain = '''', opt_duration = False,
     opt_example = '''', opt_update_data = False, opt_fullness = ''QUICK'', opt_valgrind = False,
     opt_kinds = False, opt_list = False, opt_multiple = False, opt_nowaf = False,
     opt_pyexample = '''', opt_retain = False, opt_suite = '''', opt_text = '''',
     opt_verbose = False, opt_html = '''', opt_xml = '''', opt_nocolor = False,
     opt_process_limit = 0 \<rparr>"

text \<open>The globals that \<open>read_waf_config\<close> takes from waf's files.\<close>

record waf_config =
  NS3_BASEDIR :: string
  NS3_BUILDDIR :: string
  NS3_MODULE_PATH :: "string list"
  NS3_ENABLED_MODULES :: "string list"
  NS3_ENABLED_CONTRIBUTED_MODULES :: "string list"
  NSC_ENABLED :: bool
  ENABLE_EXAMPLES :: bool
  ENABLE_TESTS :: bool
  ENABLE_PYTHON_BINDINGS :: bool
  EXAMPLE_DIRECTORIES :: "string list"
  APPNAME :: string
  BUILD_PROFILE :: string
  VERSION :: string
  PYTHON :: "string list"
  VALGRIND_FOUND :: bool

record job =
  is_break :: bool
  is_skip :: bool
  skip_reason :: string
  is_example :: bool
  is_pyexample :: bool
  shell_command :: string
  display_name :: string
  basedir :: string
  tempdir :: string
  cwd :: string
  tmp_file_name :: string
  returncode :: int
  elapsed_time :: rat
  build_path :: string

definition Job :: job where
  "Job = \<lparr> is_break = False, is_skip = False, skip_reason = '''', is_example = False,
     is_pyexample = False, shell_command = '''', display_name = '''', basedir = '''', tempdir = '''',
     cwd = '''', tmp_file_name = '''', returncode = 0, elapsed_time = 0, build_path = '''' \<rparr>"

section \<open>Running one command\<close>

text \<open>
  \<open>communicate()\<close> gives bytes; \<open>Text\<close> is output that decodes, \<open>Undecodable\<close> output that
  raises \<open>UnicodeDecodeError\<close> and stays as it is.
\<close>

datatype proc_output = Text string | Undecodable

record proc_result =
  p_returncode :: int
  p_stdout :: proc_output
  p_stderr :: proc_output
  p_elapsed :: rat

definition job_command ::
  "waf_config \<Rightarrow> string \<Rightarrow> bool \<Rightarrow> bool \<Rightarrow> string \<Rightarrow> string res" where
  "job_command conf command valgrind is_python buildpath =
     (let suppressions_path = path_join (NS3_BASEDIR conf) ''testpy.supp''
      in rbind
           (if is_python then
              rbind (py_index (PYTHON conf) 0)
                (\<lambda>python. Inr (python @ '' '' @ path_join (NS3_BASEDIR conf) command))
            else if 0 < length buildpath then Inr (path_join buildpath command)
            else Inr (path_join (NS3_BUILDDIR conf) command))
           (\<lambda>path_cmd.
              Inr (if valgrind
                   then ''valgrind --suppressions='' @ suppressions_path @
                        '' --leak-check=full --show-reachable=yes --error-exitcode=2 '' @
                        ''--errors-for-leak-kinds=all '' @ path_cmd
                   else path_cmd)))"

definition decoded_retval :: "proc_result \<Rightarrow> int" where
  "decoded_retval r =
     (if p_stdout r = Undecodable \<or> p_stderr r = Undecodable then 1 else p_returncode r)"

text \<open>The external process is the parameter \<open>popen\<close>: command and directory to result.\<close>

definition run_job_synchronously ::
  "waf_config \<Rightarrow> (string \<Rightarrow> string \<Rightarrow> proc_result) \<Rightarrow> string \<Rightarrow> string \<Rightarrow> bool \<Rightarrow> bool \<Rightarrow> string \<Rightarrow>
     proc_result res" where
  "run_job_synchronously conf popen command directory valgrind is_python buildpath =
     rbind (job_command conf command valgrind is_python buildpath)
       (\<lambda>cmd. let r = popen cmd directory in Inr (r\<lparr>p_returncode := decoded_retval r\<rparr>))"

text \<open>The command line a worker runs for a job.\<close>

definition worker_command :: "waf_config \<Rightarrow> options \<Rightarrow> job \<Rightarrow> string res" where
  "worker_command conf opts job =
     (if is_example job \<or> is_pyexample job then
        job_command conf (shell_command job) (opt_valgrind opts) (is_pyexample job) (build_path job)
      else
        job_command conf
          (shell_command job @ '' --xml --tempdir='' @ tempdir job @ '' --out='' @
           tmp_file_name job @ '' '' @ (if opt_update_data opts then ''--update-data'' else ''''))
          (opt_valgrind opts) False '''')"

section \<open>Collecting a result\<close>

datatype status = PASS | FAIL | VALGR | CRASH | SKIP

definition job_status :: "job \<Rightarrow> status" where
  "job_status job =
     (if is_skip job then SKIP
      else if returncode job = 0 then PASS
      else if returncode job = 1 then FAIL
      else if returncode job = 2 then VALGR
      else CRASH)"

fun status_text :: "status \<Rightarrow> string" where
  "status_text PASS = ''PASS''"
| "status_text FAIL = ''FAIL''"
| "status_text VALGR = ''VALGR''"
| "status_text CRASH = ''CRASH''"
| "status_text SKIP = ''SKIP''"

definition colors_lst :: "(string \<times> string) list" where
  "colors_lst =
     [(''BOLD'', esc # ''[01;1m''), (''RED'', esc # ''[01;31m''), (''GREEN'', esc # ''[32m''),
      (''YELLOW'', esc # ''[33m''), (''PINK'', esc # ''[35m''), (''BLUE'', esc # ''[01;34m''),
      (''CYAN'', esc # ''[36m''), (''GREY'', esc # ''[37m''), (''NORMAL'', esc # ''[0m''),
      (''cursor_on'', esc # ''[?25h''), (''cursor_off'', esc # ''[?25l'')]"

definition get_color :: "bool \<Rightarrow> string \<Rightarrow> string" where
  "get_color use cl =
     (if use then (case map_of colors_lst cl of None \<Rightarrow> '''' | Some c \<Rightarrow> c) else '''')"

fun status_color :: "status \<Rightarrow> string" where
  "status_color PASS = ''GREEN''"
| "status_color FAIL = ''RED''"
| "status_color VALGR = ''CYAN''"
| "status_color CRASH = ''PINK''"
| "status_color SKIP = ''GREY''"

definition status_print :: "bool \<Rightarrow> status \<Rightarrow> string" where
  "status_print use st = get_color use (status_color st) @ status_text st @ get_color use ''NORMAL''"

text \<open>\<open>"%.3f" % x\<close>: the exact value is rounded to thousandths, ties to even.\<close>

definition thousandths :: "rat \<Rightarrow> int" where
  "thousandths x =
     (let y = x * 1000; f = \<lfloor>y\<rfloor>; r = y - of_int f
      in if r < 1 / 2 then f else if 1 / 2 < r then f + 1 else if even f then f else f + 1)"

definition fmt_f3 :: "rat \<Rightarrow> string" where
  "fmt_f3 x =
     (let n = nat (thousandths \<bar>x\<bar>)
      in (if x < 0 then ''-'' else '''') @ dec_nat (n div 1000) @ ''.'' @
         [char_of (48 + n div 100 mod 10), char_of (48 + n div 10 mod 10), char_of (48 + n mod 10)])"

record report =
  passed_tests :: nat
  failed_tests :: nat
  crashed_tests :: nat
  valgrind_errors :: nat
  skipped_tests :: nat
  failed_testnames :: "string list"
  crashed_testnames :: "string list"
  valgrind_testnames :: "string list"
  skipped_testnames :: "string list"
  xml_results :: string
  console :: string

definition start_report :: report where
  "start_report = \<lparr> passed_tests = 0, failed_tests = 0, crashed_tests = 0, valgrind_errors = 0,
     skipped_tests = 0, failed_testnames = [], crashed_testnames = [], valgrind_testnames = [],
     skipped_testnames = [],
     xml_results = ''<?xml version=\"1.0\"?>'' @ [nl] @ ''<Results>'' @ [nl], console = '''' \<rparr>"

definition tally :: "job \<Rightarrow> report \<Rightarrow> report" where
  "tally job rep =
     (case job_status job of
        SKIP \<Rightarrow> rep\<lparr>skipped_tests := skipped_tests rep + 1,
                     skipped_testnames := skipped_testnames rep @
                       [display_name job @ '' ('' @ skip_reason job @ '')'']\<rparr>
      | PASS \<Rightarrow> rep\<lparr>passed_tests := passed_tests rep + 1\<rparr>
      | FAIL \<Rightarrow> rep\<lparr>failed_tests := failed_tests rep + 1,
                     failed_testnames := failed_testnames rep @ [display_name job]\<rparr>
      | VALGR \<Rightarrow> rep\<lparr>valgrind_errors := valgrind_errors rep + 1,
                     valgrind_testnames := valgrind_testnames rep @ [display_name job]\<rparr>
      | CRASH \<Rightarrow> rep\<lparr>crashed_tests := crashed_tests rep + 1,
                     crashed_testnames := crashed_testnames rep @ [display_name job]\<rparr>)"

definition progress_line :: "options \<Rightarrow> bool \<Rightarrow> nat \<Rightarrow> job \<Rightarrow> report \<Rightarrow> string" where
  "progress_line opts use total_n job rep =
     (let kind = (if is_example job \<or> is_pyexample job then ''Example'' else ''TestSuite'')
      in ''['' @ dec_nat (passed_tests rep + failed_tests rep + skipped_tests rep + crashed_tests rep) @
         ''/'' @ dec_nat total_n @ ''] '' @ status_print use (job_status job) @
         (if opt_duration opts \<or> opt_constrain opts = ''performance''
          then '' ('' @ fmt_f3 (elapsed_time job) @ ''): '' else '': '') @
         kind @ '' '' @ display_name job @ [nl])"

definition example_xml :: "job \<Rightarrow> string" where
  "example_xml job =
     ''<Example>'' @ [nl] @
     ''  <Name>'' @ display_name job @ ''</Name>'' @ [nl] @
     ''  <Result>'' @ status_text (job_status job) @ ''</Result>'' @ [nl] @
     ''  <Time real=\"'' @ fmt_f3 (elapsed_time job) @ ''\"/>'' @ [nl] @
     ''</Example>'' @ [nl]"

text \<open>The file system is the map from the names of temporary result files to their contents.\<close>

definition suite_xml :: "(string \<rightharpoonup> string) \<Rightarrow> job \<Rightarrow> string res" where
  "suite_xml files job =
     (if is_skip job then
        Inr (''<Test>'' @ [nl] @ ''  <Name>'' @ display_name job @ ''</Name>'' @ [nl] @
             ''  <Result>SKIP</Result>'' @ [nl] @
             ''  <Reason>'' @ skip_reason job @ ''</Reason>'' @ [nl] @ ''</Test>'' @ [nl])
      else if returncode job = 0 \<or> returncode job = 1 \<or> returncode job = 2 then
        (case files (tmp_file_name job) of
           None \<Rightarrow> Inl (FileNotFoundError (tmp_file_name job))
         | Some text \<Rightarrow> Inr text)
      else
        Inr (''<Test>'' @ [nl] @ ''  <Name>'' @ display_name job @ ''</Name>'' @ [nl] @
             ''  <Result>CRASH</Result>'' @ [nl] @ ''</Test>'' @ [nl]))"

text \<open>The body of the loop \<open>for i in range(jobs)\<close> after \<open>output_queue.get()\<close>.\<close>

definition collect_job ::
  "options \<Rightarrow> bool \<Rightarrow> (string \<rightharpoonup> string) \<Rightarrow> nat \<Rightarrow> job \<Rightarrow> report \<Rightarrow> report res" where
  "collect_job opts use files total_n job rep =
     (if is_break job then Inr rep
      else
        (let rep = tally job rep;
             rep = rep\<lparr>console := console rep @ progress_line opts use total_n job rep\<rparr>
         in rbind (if is_example job \<or> is_pyexample job then Inr (example_xml job)
                   else suite_xml files job)
              (\<lambda>xml. Inr (rep\<lparr>xml_results := xml_results rep @ xml\<rparr>))))"

text \<open>What follows the joins: closing the document, the summary, and the notes to the user.\<close>

definition names_block :: "string \<Rightarrow> string list \<Rightarrow> string" where
  "names_block title names =
     (if names = [] then ''''
      else title @ [nl] @ ''    '' @ join_with (nl # ''    '') (sort names) @ [nl])"

definition summary :: "waf_config \<Rightarrow> options \<Rightarrow> nat \<Rightarrow> report \<Rightarrow> report" where
  "summary conf opts total_n rep =
     rep\<lparr>xml_results := xml_results rep @ ''</Results>'' @ [nl],
         console := console rep @
           dec_nat (passed_tests rep) @ '' of '' @ dec_nat total_n @ '' tests passed ('' @
           dec_nat (passed_tests rep) @ '' passed, '' @ dec_nat (skipped_tests rep) @ '' skipped, '' @
           dec_nat (failed_tests rep) @ '' failed, '' @ dec_nat (crashed_tests rep) @ '' crashed, '' @
           dec_nat (valgrind_errors rep) @ '' valgrind errors)'' @ [nl] @
           names_block ''List of SKIPped tests:'' (skipped_testnames rep) @
           names_block ''List of FAILed tests:'' (failed_testnames rep) @
           names_block ''List of CRASHed tests:'' (crashed_testnames rep) @
           names_block ''List of VALGR failures:'' (valgrind_testnames rep) @
           (if opt_html opts \<noteq> '''' \<or> opt_text opts \<noteq> '''' \<or> opt_xml opts \<noteq> '''' then [nl] else '''') @
           (if \<not> ENABLE_TESTS conf \<or> \<not> ENABLE_EXAMPLES conf then
              [nl] @
              (if \<not> ENABLE_TESTS conf then
                 ''***  Note: ns-3 tests are currently disabled. Enable them by adding'' @ [nl] @
                 ''***  \"--enable-tests\" to ./waf configure or modifying your .ns3rc file.'' @ [nl, nl]
               else '''') @
              (if \<not> ENABLE_EXAMPLES conf then
                 ''***  Note: ns-3 examples are currently disabled. Enable them by adding'' @ [nl] @
                 ''***  \"--enable-examples\" to ./waf configure or modifying your .ns3rc file.'' @ [nl, nl]
               else '''')
            else '''') @
           (if opt_valgrind opts \<and> \<not> VALGRIND_FOUND conf then
              [nl] @
              ''***  Note: you are trying to use valgrind, but valgrind could not be found'' @ [nl] @
              ''***  on your machine.  All tests and examples will crash or be skipped.'' @ [nl, nl]
            else '''')\<rparr>"

definition exit_code :: "nat \<Rightarrow> report \<Rightarrow> int" where
  "exit_code total_n rep = (if passed_tests rep + skipped_tests rep = total_n then 0 else 1)"

section \<open>The threads\<close>

text \<open>Where a worker is in the loop of \<open>worker_thread.run\<close>.\<close>

datatype worker =
    Idle
  | Got job
  | Running job
  | Outgoing job
  | Stopped
  | Dead job

fun ended :: "worker \<Rightarrow> bool" where
  "ended Stopped \<longleftrightarrow> True"
| "ended (Dead j) \<longleftrightarrow> True"
| "ended _ \<longleftrightarrow> False"

text \<open>Where the main thread is in \<open>run_tests\<close>.\<close>

datatype main_pc =
    Dispatching "job list"
  | Breaking nat
  | Collecting nat
  | Joining nat
  | Done int
  | Raised py_error

text \<open>\<open>collected\<close> records what \<open>output_queue.get()\<close> has returned so far.\<close>

record sys =
  input_queue :: "job list"
  output_queue :: "job list"
  workers :: "worker list"
  thread_exit :: bool
  main_thread :: main_pc
  jobs :: nat
  total_tests :: nat
  tmp_files :: "string \<rightharpoonup> string"
  rep :: report
  collected :: "job list"

definition start_sys :: "nat \<Rightarrow> job list \<Rightarrow> sys" where
  "start_sys processors js =
     \<lparr> input_queue = [], output_queue = [], workers = replicate processors Idle,
       thread_exit = False, main_thread = Dispatching js, jobs = 0, total_tests = 0,
       tmp_files = Map.empty, rep = start_report, collected = [] \<rparr>"

definition main_step :: "waf_config \<Rightarrow> options \<Rightarrow> bool \<Rightarrow> sys \<Rightarrow> sys option" where
  "main_step conf opts use s =
     (case main_thread s of
        Dispatching [] \<Rightarrow> Some (s\<lparr>main_thread := Breaking (length (workers s))\<rparr>)
      | Dispatching (job # js) \<Rightarrow>
          Some (s\<lparr>input_queue := q_put (input_queue s) job, jobs := jobs s + 1,
                  total_tests := total_tests s + 1, main_thread := Dispatching js\<rparr>)
      | Breaking 0 \<Rightarrow> Some (s\<lparr>main_thread := Collecting (jobs s)\<rparr>)
      | Breaking (Suc k) \<Rightarrow>
          Some (s\<lparr>input_queue := q_put (input_queue s) (Job\<lparr>is_break := True\<rparr>),
                  main_thread := Breaking k\<rparr>)
      | Collecting 0 \<Rightarrow> Some (s\<lparr>main_thread := Joining 0\<rparr>)
      | Collecting (Suc k) \<Rightarrow>
          (case q_get (output_queue s) of
             None \<Rightarrow> None
           | Some (job, q) \<Rightarrow>
               (let s = s\<lparr>output_queue := q, collected := collected s @ [job]\<rparr>
                in case collect_job opts use (tmp_files s) (total_tests s) job (rep s) of
                     Inl e \<Rightarrow> Some (s\<lparr>main_thread := Raised e\<rparr>)
                   | Inr r \<Rightarrow> Some (s\<lparr>rep := r, main_thread := Collecting k\<rparr>)))
      | Joining i \<Rightarrow>
          (if i = length (workers s) then
             Some (s\<lparr>rep := summary conf opts (total_tests s) (rep s),
                     main_thread := Done (exit_code (total_tests s) (rep s))\<rparr>)
           else if ended (workers s ! i) then Some (s\<lparr>main_thread := Joining (Suc i)\<rparr>)
           else None)
      | Done rc \<Rightarrow> None
      | Raised e \<Rightarrow> None)"

text \<open>The checks a worker makes on the job it got, in the order of the code.\<close>

definition worker_decide :: "bool \<Rightarrow> job \<Rightarrow> worker" where
  "worker_decide exiting job =
     (if is_break job then Stopped
      else if exiting then Outgoing (job\<lparr>is_break := True\<rparr>)
      else if is_skip job then Outgoing job
      else Running job)"

type_synonym outcome = "proc_result \<times> string option"

definition finish_job :: "outcome \<Rightarrow> job \<Rightarrow> job" where
  "finish_job out job = job\<lparr>returncode := decoded_retval (fst out), elapsed_time := p_elapsed (fst out)\<rparr>"

text \<open>
  Running a job has the outcome \<open>None\<close> when \<open>Popen\<close> raises an \<open>OSError\<close>.  Neither that nor an error in
  making up the command (\<open>PYTHON[0]\<close>) is caught in \<open>worker_thread.run\<close>.\<close>

definition run_job :: "waf_config \<Rightarrow> options \<Rightarrow> outcome option \<Rightarrow> job \<Rightarrow> outcome res" where
  "run_job conf opts out job =
     rbind (worker_command conf opts job)
       (\<lambda>cmd. case out of None \<Rightarrow> Inl OSError | Some r \<Rightarrow> Inr r)"

definition worker_step :: "waf_config \<Rightarrow> options \<Rightarrow> nat \<Rightarrow> outcome option \<Rightarrow> sys \<Rightarrow> sys option" where
  "worker_step conf opts i out s =
     (if i < length (workers s) then
        (case workers s ! i of
           Idle \<Rightarrow>
             (case q_get (input_queue s) of
                None \<Rightarrow> None
              | Some (job, q) \<Rightarrow> Some (s\<lparr>input_queue := q, workers := (workers s)[i := Got job]\<rparr>))
         | Got job \<Rightarrow> Some (s\<lparr>workers := (workers s)[i := worker_decide (thread_exit s) job]\<rparr>)
         | Running job \<Rightarrow>
             (case run_job conf opts out job of
                Inl e \<Rightarrow> Some (s\<lparr>workers := (workers s)[i := Dead job]\<rparr>)
              | Inr r \<Rightarrow>
                  Some (s\<lparr>workers := (workers s)[i := Outgoing (finish_job r job)],
                          tmp_files := (case snd r of None \<Rightarrow> tmp_files s
                                        | Some text \<Rightarrow> (tmp_files s)(tmp_file_name job \<mapsto> text))\<rparr>))
         | Outgoing job \<Rightarrow>
             Some (s\<lparr>output_queue := q_put (output_queue s) job, workers := (workers s)[i := Idle]\<rparr>)
         | Stopped \<Rightarrow> None
         | Dead job \<Rightarrow> None)
      else None)"

definition sigint_step :: "sys \<Rightarrow> sys" where
  "sigint_step s = s\<lparr>thread_exit := True\<rparr>"

datatype event = Main | Worker nat "outcome option" | Sigint

fun sys_step :: "waf_config \<Rightarrow> options \<Rightarrow> bool \<Rightarrow> event \<Rightarrow> sys \<Rightarrow> sys option" where
  "sys_step conf opts use Main s = main_step conf opts use s"
| "sys_step conf opts use (Worker i out) s = worker_step conf opts i out s"
| "sys_step conf opts use Sigint s = Some (sigint_step s)"

abbreviation runs :: "waf_config \<Rightarrow> options \<Rightarrow> bool \<Rightarrow> event list \<Rightarrow> sys \<Rightarrow> sys option" where
  "runs conf opts use \<equiv> run_steps (sys_step conf opts use)"

subsection \<open>The cases of a step\<close>

lemma worker_step_cases:
  assumes "worker_step conf opts i out s = Some s'"
  obtains
    (fetch) j q where "i < length (workers s)" "workers s ! i = Idle" "input_queue s = j # q"
      "s' = s\<lparr>input_queue := q, workers := (workers s)[i := Got j]\<rparr>"
  | (stop) j where "i < length (workers s)" "workers s ! i = Got j" "is_break j"
      "s' = s\<lparr>workers := (workers s)[i := Stopped]\<rparr>"
  | (interrupt) j where "i < length (workers s)" "workers s ! i = Got j" "\<not> is_break j" "thread_exit s"
      "s' = s\<lparr>workers := (workers s)[i := Outgoing (j\<lparr>is_break := True\<rparr>)]\<rparr>"
  | (skip) j where "i < length (workers s)" "workers s ! i = Got j" "\<not> is_break j" "\<not> thread_exit s" "is_skip j"
      "s' = s\<lparr>workers := (workers s)[i := Outgoing j]\<rparr>"
  | (launch) j where "i < length (workers s)" "workers s ! i = Got j" "\<not> is_break j" "\<not> thread_exit s" "\<not> is_skip j"
      "s' = s\<lparr>workers := (workers s)[i := Running j]\<rparr>"
  | (finish) j r fs where "i < length (workers s)" "workers s ! i = Running j" "run_job conf opts out j = Inr r"
      "s' = s\<lparr>workers := (workers s)[i := Outgoing (finish_job r j)], tmp_files := fs\<rparr>"
  | (die) j e where "i < length (workers s)" "workers s ! i = Running j" "run_job conf opts out j = Inl e"
      "s' = s\<lparr>workers := (workers s)[i := Dead j]\<rparr>"
  | (ship) j where "i < length (workers s)" "workers s ! i = Outgoing j"
      "s' = s\<lparr>output_queue := output_queue s @ [j], workers := (workers s)[i := Idle]\<rparr>"
proof -
  from assms have i: "i < length (workers s)" by (simp add: worker_step_def split: if_splits)
  show thesis
  proof (cases "workers s ! i")
    case Idle
    then show ?thesis using assms i
      by (cases "input_queue s") (auto simp: worker_step_def intro: fetch)
  next
    case (Got j)
    then have "s' = s\<lparr>workers := (workers s)[i := worker_decide (thread_exit s) j]\<rparr>"
      using assms i by (simp add: worker_step_def)
    then consider "is_break j" "s' = s\<lparr>workers := (workers s)[i := Stopped]\<rparr>"
      | "\<not> is_break j" "thread_exit s" "s' = s\<lparr>workers := (workers s)[i := Outgoing (j\<lparr>is_break := True\<rparr>)]\<rparr>"
      | "\<not> is_break j" "\<not> thread_exit s" "is_skip j" "s' = s\<lparr>workers := (workers s)[i := Outgoing j]\<rparr>"
      | "\<not> is_break j" "\<not> thread_exit s" "\<not> is_skip j" "s' = s\<lparr>workers := (workers s)[i := Running j]\<rparr>"
      unfolding worker_decide_def by presburger
    then show ?thesis
    proof cases
      case 1
      then show ?thesis by (rule stop [OF i Got])
    next
      case 2
      then show ?thesis by (rule interrupt [OF i Got])
    next
      case 3
      then show ?thesis by (rule skip [OF i Got])
    next
      case 4
      then show ?thesis by (rule launch [OF i Got])
    qed
  next
    case (Running j)
    then show ?thesis using assms i finish die
      by (cases "run_job conf opts out j") (auto simp: worker_step_def)
  next
    case (Outgoing j)
    then show ?thesis using assms i ship by (auto simp: worker_step_def q_put_def)
  qed (use assms i in \<open>simp_all add: worker_step_def\<close>)
qed

lemma main_step_cases:
  assumes "main_step conf opts use s = Some s'"
  obtains
    (dispatched) "main_thread s = Dispatching []" "s' = s\<lparr>main_thread := Breaking (length (workers s))\<rparr>"
  | (dispatch) j js where "main_thread s = Dispatching (j # js)"
      "s' = s\<lparr>input_queue := input_queue s @ [j], jobs := jobs s + 1, total_tests := total_tests s + 1,
              main_thread := Dispatching js\<rparr>"
  | (broken) "main_thread s = Breaking 0" "s' = s\<lparr>main_thread := Collecting (jobs s)\<rparr>"
  | (break) k where "main_thread s = Breaking (Suc k)"
      "s' = s\<lparr>input_queue := input_queue s @ [Job\<lparr>is_break := True\<rparr>], main_thread := Breaking k\<rparr>"
  | (complete) "main_thread s = Collecting 0" "s' = s\<lparr>main_thread := Joining 0\<rparr>"
  | (fail) k j q e where "main_thread s = Collecting (Suc k)" "output_queue s = j # q"
      "collect_job opts use (tmp_files s) (total_tests s) j (rep s) = Inl e"
      "s' = s\<lparr>output_queue := q, collected := collected s @ [j], main_thread := Raised e\<rparr>"
  | (collect) k j q r where "main_thread s = Collecting (Suc k)" "output_queue s = j # q"
      "collect_job opts use (tmp_files s) (total_tests s) j (rep s) = Inr r"
      "s' = s\<lparr>output_queue := q, collected := collected s @ [j], rep := r, main_thread := Collecting k\<rparr>"
  | (return) "main_thread s = Joining (length (workers s))"
      "s' = s\<lparr>rep := summary conf opts (total_tests s) (rep s),
              main_thread := Done (exit_code (total_tests s) (rep s))\<rparr>"
  | (join) i where "main_thread s = Joining i" "i \<noteq> length (workers s)" "ended (workers s ! i)"
      "s' = s\<lparr>main_thread := Joining (Suc i)\<rparr>"
proof (cases "main_thread s")
  case (Dispatching js)
  then show thesis using assms dispatched dispatch
    by (cases js) (auto simp: main_step_def q_put_def)
next
  case (Breaking k)
  then show thesis using assms broken break by (cases k) (auto simp: main_step_def q_put_def)
next
  case (Collecting k)
  show thesis
  proof (cases k)
    case 0
    then show thesis using assms Collecting complete by (auto simp: main_step_def)
  next
    case (Suc k')
    then obtain j q where q: "output_queue s = j # q"
      using assms Collecting by (cases "output_queue s") (auto simp: main_step_def)
    show thesis
    proof (cases "collect_job opts use (tmp_files s) (total_tests s) j (rep s)")
      case (Inl e)
      then show thesis using assms Collecting Suc q fail by (auto simp: main_step_def)
    next
      case (Inr r)
      then show thesis using assms Collecting Suc q collect by (auto simp: main_step_def)
    qed
  qed
next
  case (Joining i)
  then show thesis using assms return join by (auto simp: main_step_def split: if_splits)
next
  case (Done rc)
  then have False using assms by (simp add: main_step_def)
  then show thesis by blast
next
  case (Raised e)
  then have False using assms by (simp add: main_step_def)
  then show thesis by blast
qed

section \<open>Invariants of the running system\<close>

lemma sum_list_update:
  "i < length xs \<Longrightarrow>
     sum_list (map f (xs[i := y])) + f (xs ! i) = sum_list (map f xs) + (f y :: 'b :: comm_monoid_add)"
proof (induction xs arbitrary: i)
  case (Cons x xs)
  then show ?case by (cases i) (auto simp: ac_simps)
qed simp

text \<open>What identifies a job while it travels: everything but the fields the workers write.\<close>

definition job_key :: "job \<Rightarrow> job" where
  "job_key j = j\<lparr>is_break := False, returncode := 0, elapsed_time := 0\<rparr>"

fun todo :: "main_pc \<Rightarrow> job list" where
  "todo (Dispatching js) = js"
| "todo _ = []"

fun breaks_due :: "nat \<Rightarrow> main_pc \<Rightarrow> nat" where
  "breaks_due n (Dispatching js) = n"
| "breaks_due n (Breaking k) = k"
| "breaks_due n _ = 0"

fun hand :: "worker \<Rightarrow> job multiset" where
  "hand (Got j) = (if is_break j then {#} else {#job_key j#})"
| "hand (Running j) = {#job_key j#}"
| "hand (Outgoing j) = {#job_key j#}"
| "hand (Dead j) = {#job_key j#}"
| "hand _ = {#}"

fun gone :: "worker \<Rightarrow> nat" where
  "gone (Got j) = (if is_break j then 1 else 0)"
| "gone Stopped = 1"
| "gone _ = 0"

abbreviation queued_jobs :: "sys \<Rightarrow> job list" where
  "queued_jobs s \<equiv> filter (\<lambda>j. \<not> is_break j) (input_queue s)"

abbreviation queued_breaks :: "sys \<Rightarrow> job list" where
  "queued_breaks s \<equiv> filter is_break (input_queue s)"

definition whereabouts :: "sys \<Rightarrow> job multiset" where
  "whereabouts s =
     mset (map job_key (todo (main_thread s))) + mset (map job_key (queued_jobs s)) +
     sum_list (map hand (workers s)) + mset (map job_key (output_queue s)) +
     mset (map job_key (collected s))"

text \<open>No job is lost or duplicated.\<close>

definition conserved :: "job list \<Rightarrow> sys \<Rightarrow> bool" where
  "conserved js s \<longleftrightarrow> whereabouts s = mset (map job_key js) \<and> (\<forall>j \<in> set (todo (main_thread s)). \<not> is_break j)"

text \<open>Every worker is owed exactly one break job, and the breaks queue up behind the work.\<close>

definition breaks_ok :: "nat \<Rightarrow> sys \<Rightarrow> bool" where
  "breaks_ok n s \<longleftrightarrow>
     length (workers s) = n \<and>
     sum_list (map gone (workers s)) + length (queued_breaks s) + breaks_due n (main_thread s) = n \<and>
     input_queue s = queued_jobs s @ queued_breaks s \<and>
     (queued_jobs s \<noteq> [] \<longrightarrow> sum_list (map gone (workers s)) = 0)"

fun stage_ok :: "nat \<Rightarrow> sys \<Rightarrow> main_pc \<Rightarrow> bool" where
  "stage_ok m s (Dispatching js) \<longleftrightarrow> collected s = []"
| "stage_ok m s (Breaking k) \<longleftrightarrow> collected s = []"
| "stage_ok m s (Collecting k) \<longleftrightarrow> k + length (collected s) = m"
| "stage_ok m s (Joining i) \<longleftrightarrow> length (collected s) = m \<and> i \<le> length (workers s) \<and>
     (\<forall>k < i. ended (workers s ! k))"
| "stage_ok m s (Done rc) \<longleftrightarrow> length (collected s) = m \<and> (\<forall>k < length (workers s). ended (workers s ! k))"
| "stage_ok m s (Raised e) \<longleftrightarrow> True"

definition staged :: "job list \<Rightarrow> sys \<Rightarrow> bool" where
  "staged js s \<longleftrightarrow>
     jobs s + length (todo (main_thread s)) = length js \<and> total_tests s = jobs s \<and>
     stage_ok (length js) s (main_thread s)"

lemma sum_list_zero: "(\<And>x. x \<in> set xs \<Longrightarrow> f x = (0 :: 'b :: comm_monoid_add)) \<Longrightarrow> sum_list (map f xs) = 0"
  by (induction xs) simp_all

definition runner_inv :: "job list \<Rightarrow> nat \<Rightarrow> sys \<Rightarrow> bool" where
  "runner_inv js n s \<longleftrightarrow> 0 < n \<and> conserved js s \<and> breaks_ok n s \<and> staged js s"

lemma job_key_simps [simp]:
  "job_key (j\<lparr>is_break := b\<rparr>) = job_key j"
  "job_key (finish_job out j) = job_key j"
  "display_name (job_key j) = display_name j"
  by (simp_all add: job_key_def finish_job_def)

lemma conserved_worker: "conserved js s \<Longrightarrow> worker_step conf opts i out s = Some s' \<Longrightarrow> conserved js s'"
proof -
  assume c: "conserved js s" and st: "worker_step conf opts i out s = Some s'"
  have upd: "sum_list (map hand ((workers s)[i := w])) + hand (workers s ! i) = sum_list (map hand (workers s)) + hand w"
    if "i < length (workers s)" for w using that by (rule sum_list_update)
  show ?thesis using st
  proof (cases rule: worker_step_cases)
    case (fetch j q)
    then show ?thesis using c upd [of "Got j"] by (auto simp: conserved_def whereabouts_def)
  next
    case (stop j)
    then show ?thesis using c upd [of "Stopped"] by (auto simp: conserved_def whereabouts_def)
  next
    case (interrupt j)
    then show ?thesis using c upd [of "Outgoing (j\<lparr>is_break := True\<rparr>)"] by (auto simp: conserved_def whereabouts_def)
  next
    case (skip j)
    then show ?thesis using c upd [of "Outgoing j"] by (auto simp: conserved_def whereabouts_def)
  next
    case (launch j)
    then show ?thesis using c upd [of "Running j"] by (auto simp: conserved_def whereabouts_def)
  next
    case (finish j r fs)
    then show ?thesis using c upd [of "Outgoing (finish_job r j)"] by (auto simp: conserved_def whereabouts_def)
  next
    case (die j e)
    then show ?thesis using c upd [of "Dead j"] by (auto simp: conserved_def whereabouts_def)
  next
    case (ship j)
    have "sum_list (map hand (workers s)) = add_mset (job_key j) (sum_list (map hand ((workers s)[i := Idle])))"
      using ship upd [of Idle] by simp
    then show ?thesis using c ship by (simp add: conserved_def whereabouts_def)
  qed
qed

lemma conserved_main: "conserved js s \<Longrightarrow> main_step conf opts use s = Some s' \<Longrightarrow> conserved js s'"
  by (elim main_step_cases) (auto simp: conserved_def whereabouts_def Job_def)

lemma breaks_ok_worker: "breaks_ok n s \<Longrightarrow> worker_step conf opts i out s = Some s' \<Longrightarrow> breaks_ok n s'"
proof -
  assume c: "breaks_ok n s" and st: "worker_step conf opts i out s = Some s'"
  have upd: "sum_list (map gone ((workers s)[i := w])) + gone (workers s ! i) = sum_list (map gone (workers s)) + gone w"
    if "i < length (workers s)" for w using that by (rule sum_list_update)
  show ?thesis using st
  proof (cases rule: worker_step_cases)
    case (fetch j q)
    have q: "\<not> is_break j \<or> filter (\<lambda>j. \<not> is_break j) q = []"
    proof (rule disjCI)
      assume ne: "filter (\<lambda>j. \<not> is_break j) q \<noteq> []"
      have "j # q = queued_jobs s @ queued_breaks s" using c fetch(3) by (simp add: breaks_ok_def)
      moreover have "queued_jobs s \<noteq> []" using ne fetch(3) by auto
      ultimately have "j = hd (queued_jobs s)" by (metis hd_append2 list.sel(1))
      then have "j \<in> set (queued_jobs s)" using \<open>queued_jobs s \<noteq> []\<close> by (metis hd_in_set)
      then show "\<not> is_break j" by simp
    qed
    show ?thesis using q c fetch upd [of "Got j"] by (auto simp: breaks_ok_def split: if_splits)
  next
    case (stop j)
    then show ?thesis using c upd [of "Stopped"] by (auto simp: breaks_ok_def)
  next
    case (interrupt j)
    then show ?thesis using c upd [of "Outgoing (j\<lparr>is_break := True\<rparr>)"] by (auto simp: breaks_ok_def)
  next
    case (skip j)
    then show ?thesis using c upd [of "Outgoing j"] by (auto simp: breaks_ok_def)
  next
    case (launch j)
    then show ?thesis using c upd [of "Running j"] by (auto simp: breaks_ok_def)
  next
    case (finish j r fs)
    then show ?thesis using c upd [of "Outgoing (finish_job r j)"] by (auto simp: breaks_ok_def)
  next
    case (die j e)
    then show ?thesis using c upd [of "Dead j"] by (auto simp: breaks_ok_def)
  next
    case (ship j)
    then show ?thesis using c upd [of Idle] by (auto simp: breaks_ok_def)
  qed
qed

lemma breaks_ok_main:
  "breaks_ok n s \<Longrightarrow> conserved js s \<Longrightarrow> main_step conf opts use s = Some s' \<Longrightarrow> breaks_ok n s'"
  by (elim main_step_cases) (auto simp: breaks_ok_def conserved_def)

lemma staged_worker: "staged js s \<Longrightarrow> worker_step conf opts i out s = Some s' \<Longrightarrow> staged js s'"
  by (elim worker_step_cases; cases "main_thread s") (auto simp: staged_def nth_list_update)

lemma staged_main: "staged js s \<Longrightarrow> main_step conf opts use s = Some s' \<Longrightarrow> staged js s'"
  by (elim main_step_cases) (auto simp: staged_def less_Suc_eq)

lemma runner_inv_step:
  assumes inv: "runner_inv js n s" and st: "sys_step conf opts use e s = Some s'"
  shows "runner_inv js n s'"
proof (cases e)
  case Main
  then have m: "main_step conf opts use s = Some s'" using st by simp
  show ?thesis using inv conserved_main [OF _ m] breaks_ok_main [OF _ _ m] staged_main [OF _ m]
    unfolding runner_inv_def by blast
next
  case (Worker i out)
  then have w: "worker_step conf opts i out s = Some s'" using st by simp
  show ?thesis using inv conserved_worker [OF _ w] breaks_ok_worker [OF _ w] staged_worker [OF _ w]
    by (simp add: runner_inv_def)
next
  case Sigint
  have "stage_ok m (s\<lparr>thread_exit := True\<rparr>) pc = stage_ok m s pc" for m pc by (cases pc) simp_all
  then show ?thesis using Sigint inv st
    by (auto simp: sigint_step_def runner_inv_def conserved_def breaks_ok_def staged_def whereabouts_def)
qed

lemma runner_inv_start: "0 < n \<Longrightarrow> \<forall>j \<in> set js. \<not> is_break j \<Longrightarrow> runner_inv js n (start_sys n js)"
  using sum_list_zero [of "replicate n Idle" hand]
  by (simp add: runner_inv_def conserved_def whereabouts_def breaks_ok_def staged_def start_sys_def
      sum_list_replicate)

subsection \<open>Termination\<close>

definition queue_weight :: "job \<Rightarrow> nat" where
  "queue_weight j = (if is_break j then 2 else 5)"

fun worker_weight :: "worker \<Rightarrow> nat" where
  "worker_weight (Got j) = (if is_break j then 1 else 4)"
| "worker_weight (Running j) = 3"
| "worker_weight (Outgoing j) = 2"
| "worker_weight _ = 0"

fun main_weight :: "nat \<Rightarrow> main_pc \<Rightarrow> nat" where
  "main_weight n (Dispatching js) = 6 * length js + 4 * n + 4"
| "main_weight n (Breaking k) = 3 * k + n + 3"
| "main_weight n (Collecting k) = n + 2"
| "main_weight n (Joining i) = Suc n - i"
| "main_weight n _ = 0"

definition sys_weight :: "nat \<Rightarrow> sys \<Rightarrow> nat" where
  "sys_weight n s =
     main_weight n (main_thread s) + sum_list (map queue_weight (input_queue s)) +
     sum_list (map worker_weight (workers s)) + length (output_queue s)"

lemma worker_step_weight: "worker_step conf opts i out s = Some s' \<Longrightarrow> sys_weight n s' < sys_weight n s"
proof -
  assume st: "worker_step conf opts i out s = Some s'"
  have upd: "sum_list (map worker_weight ((workers s)[i := w])) + worker_weight (workers s ! i) =
      sum_list (map worker_weight (workers s)) + worker_weight w"
    if "i < length (workers s)" for w using that by (rule sum_list_update)
  show ?thesis using st
  proof (cases rule: worker_step_cases)
    case (fetch j q)
    then show ?thesis using upd [of "Got j"] by (auto simp: sys_weight_def queue_weight_def)
  next
    case (stop j)
    then show ?thesis using upd [of "Stopped"] by (auto simp: sys_weight_def)
  next
    case (interrupt j)
    then show ?thesis using upd [of "Outgoing (j\<lparr>is_break := True\<rparr>)"] by (auto simp: sys_weight_def)
  next
    case (skip j)
    then show ?thesis using upd [of "Outgoing j"] by (auto simp: sys_weight_def)
  next
    case (launch j)
    then show ?thesis using upd [of "Running j"] by (auto simp: sys_weight_def)
  next
    case (finish j r fs)
    then show ?thesis using upd [of "Outgoing (finish_job r j)"] by (auto simp: sys_weight_def)
  next
    case (die j e)
    then show ?thesis using upd [of "Dead j"] by (auto simp: sys_weight_def)
  next
    case (ship j)
    then show ?thesis using upd [of Idle] by (auto simp: sys_weight_def)
  qed
qed

lemma main_step_weight:
  "runner_inv js n s \<Longrightarrow> main_step conf opts use s = Some s' \<Longrightarrow> sys_weight n s' < sys_weight n s"
  by (elim main_step_cases)
    (auto simp: sys_weight_def queue_weight_def runner_inv_def conserved_def breaks_ok_def staged_def Job_def)

subsection \<open>No deadlock\<close>

definition finished :: "sys \<Rightarrow> bool" where
  "finished s \<longleftrightarrow>
     (case main_thread s of Done rc \<Rightarrow> True | Raised e \<Rightarrow> True | _ \<Rightarrow> False) \<and>
     (\<forall>w \<in> set (workers s). w = Stopped)"

lemma gone_le_1: "gone w \<le> 1"
  by (cases w) simp_all

lemma all_gone:
  assumes "sum_list (map gone ws) = length ws" "w \<in> set ws"
  shows "gone w = 1"
proof -
  have le: "sum_list (map gone ws) \<le> length ws" for ws
    using sum_list_mono [of ws gone "\<lambda>_. 1"] gone_le_1 by (simp add: sum_list_triv)
  obtain as bs where ws: "ws = as @ w # bs" using assms(2) by (meson split_list)
  with assms(1) le [of as] le [of bs] gone_le_1 [of w] show ?thesis by simp
qed

lemma worker_not_blocked:
  assumes "i < length (workers s)" "\<not> ended (workers s ! i)" "workers s ! i = Idle \<Longrightarrow> input_queue s \<noteq> []"
  shows "\<exists>s'. worker_step conf opts i out s = Some s'"
proof (cases "workers s ! i")
  case Idle
  then show ?thesis using assms by (cases "input_queue s") (simp_all add: worker_step_def)
next
  case (Running j)
  then show ?thesis using assms by (cases "run_job conf opts out j") (simp_all add: worker_step_def)
qed (use assms in \<open>simp_all add: worker_step_def\<close>)

text \<open>No worker was killed by an exception.\<close>

definition no_death :: "sys \<Rightarrow> bool" where
  "no_death s \<longleftrightarrow> (\<forall>j. Dead j \<notin> set (workers s))"

lemma ended_alive: "no_death s \<Longrightarrow> w \<in> set (workers s) \<Longrightarrow> ended w \<longleftrightarrow> w = Stopped"
  by (cases w) (auto simp: no_death_def)

text \<open>With every worker idle or stopped and nothing queued, the main thread can go on.\<close>

lemma quiescent_main:
  assumes inv: "runner_inv js n s" and empty: "input_queue s = []"
    and quiet: "\<forall>w \<in> set (workers s). w = Idle \<or> w = Stopped"
  shows "finished s \<or> (\<exists>s'. main_step conf opts use s = Some s')"
proof -
  have stopped: "\<forall>w \<in> set (workers s). w = Stopped" if "breaks_due n (main_thread s) = 0"
  proof
    fix w assume w: "w \<in> set (workers s)"
    have "sum_list (map gone (workers s)) = length (workers s)"
      using inv empty that by (simp add: runner_inv_def breaks_ok_def)
    from all_gone [OF this w] quiet w show "w = Stopped" by auto
  qed
  have "hand w = {#}" if "w \<in> set (workers s)" for w using quiet that by auto
  then have hands: "sum_list (map hand (workers s)) = {#}" by (rule sum_list_zero)
  show ?thesis
  proof (cases "main_thread s")
    case (Dispatching js')
    then show ?thesis by (cases js') (simp_all add: main_step_def)
  next
    case (Breaking k)
    then show ?thesis by (cases k) (simp_all add: main_step_def)
  next
    case (Collecting k)
    show ?thesis
    proof (cases k)
      case 0
      then show ?thesis using Collecting by (simp add: main_step_def)
    next
      case (Suc k')
      have "output_queue s \<noteq> []"
      proof
        assume "output_queue s = []"
        then have "size (mset (map job_key (collected s))) = size (mset (map job_key js))"
          using inv empty hands Collecting by (simp add: runner_inv_def conserved_def whereabouts_def)
        then show False using inv Collecting Suc by (simp add: runner_inv_def staged_def)
      qed
      then show ?thesis using Collecting Suc
        by (cases "output_queue s") (auto simp: main_step_def Let_def split: sum.splits)
    qed
  next
    case (Joining i)
    then have "i = length (workers s) \<or> ended (workers s ! i)"
      using stopped inv by (metis ended.simps(1) breaks_due.simps(4) le_neq_implies_less nth_mem runner_inv_def staged_def stage_ok.simps(4))
    then show ?thesis using Joining by (auto simp: main_step_def)
  qed (use stopped in \<open>simp_all add: finished_def\<close>)
qed

lemma runner_enabled:
  assumes inv: "runner_inv js n s" and alive: "no_death s" and "\<not> finished s"
  shows "\<exists>e s'. e \<noteq> Sigint \<and> (\<forall>i. e \<noteq> Worker i None) \<and> sys_step conf opts use e s = Some s'"
proof (cases "\<exists>i < length (workers s). workers s ! i \<noteq> Stopped \<and> (workers s ! i = Idle \<longrightarrow> input_queue s \<noteq> [])")
  case True
  then obtain i s' where "worker_step conf opts i (Some undefined) s = Some s'"
    using worker_not_blocked ended_alive [OF alive nth_mem] by metis
  then show ?thesis by (intro exI [of _ "Worker i (Some undefined)"] exI [of _ s']) simp
next
  case False
  then have quiet: "\<forall>w \<in> set (workers s). w = Stopped \<or> (w = Idle \<and> input_queue s = [])"
    by (auto simp: in_set_conv_nth)
  have "input_queue s = []"
  proof (rule ccontr)
    assume ne: "input_queue s \<noteq> []"
    have "map gone (workers s) = replicate (length (workers s)) 1"
      by (rule nth_equalityI) (use quiet ne in \<open>auto dest!: nth_mem\<close>)
    then have "sum_list (map gone (workers s)) = n" "0 < n"
      using inv by (simp_all add: runner_inv_def breaks_ok_def sum_list_replicate)
    then show False using inv ne by (auto simp: runner_inv_def breaks_ok_def)
  qed
  with quiescent_main [OF inv this] quiet assms(3) obtain s' where "main_step conf opts use s = Some s'" by blast
  then show ?thesis by (intro exI [of _ Main] exI [of _ s']) simp
qed

subsection \<open>Jobs that can be run\<close>

text \<open>Making up the command of the job raises nothing, or the job is not run at all.\<close>

definition startable :: "waf_config \<Rightarrow> options \<Rightarrow> job \<Rightarrow> bool" where
  "startable conf opts j \<longleftrightarrow> is_break j \<or> is_skip j \<or> (\<exists>cmd. worker_command conf opts j = Inr cmd)"

fun at_hand :: "worker \<Rightarrow> job list" where
  "at_hand (Got j) = [j]"
| "at_hand (Running j) = [j]"
| "at_hand _ = []"

lemma worker_command_returns: "\<not> is_pyexample j \<or> PYTHON conf \<noteq> [] \<Longrightarrow> \<exists>cmd. worker_command conf opts j = Inr cmd"
  by (cases "PYTHON conf") (auto simp: worker_command_def job_command_def py_index_def Let_def)

text \<open>
  Nobody has died, and every job still to be run can be; jobs that run are neither break jobs
  nor to be skipped.\<close>

definition healthy :: "waf_config \<Rightarrow> options \<Rightarrow> sys \<Rightarrow> bool" where
  "healthy conf opts s \<longleftrightarrow> no_death s \<and>
     (\<forall>j. Running j \<in> set (workers s) \<longrightarrow> \<not> is_break j \<and> \<not> is_skip j) \<and>
     (\<forall>j \<in> set (todo (main_thread s)) \<union> set (input_queue s) \<union> set (concat (map at_hand (workers s))).
        startable conf opts j)"

lemma in_update: "x \<in> set (xs[i := y]) \<Longrightarrow> x \<noteq> y \<Longrightarrow> x \<in> set xs"
  using set_update_subset_insert [of xs i y] by blast

lemma at_hand_update:
  "set (concat (map at_hand (ws[i := w]))) \<subseteq> set (at_hand w) \<union> set (concat (map at_hand ws))"
  using set_update_subset_insert [of ws i w] by auto

lemma running_dies:
  "run_job conf opts out j = Inl e \<Longrightarrow> out = None \<or> (\<exists>e. worker_command conf opts j = Inl e)"
  by (auto simp: run_job_def rbind_def split: sum.splits option.splits)

lemma healthy_update:
  assumes h: "healthy conf opts s" and w: "\<forall>k. w \<noteq> Dead k" "\<forall>k. w = Running k \<longrightarrow> \<not> is_break k \<and> \<not> is_skip k"
      "\<forall>k \<in> set (at_hand w). startable conf opts k"
    and t: "workers t = (workers s)[i := w]" "main_thread t = main_thread s" "set (input_queue t) \<subseteq> set (input_queue s)"
  shows "healthy conf opts t"
proof -
  have "no_death t" unfolding no_death_def t
    by (metis h healthy_def in_update no_death_def w(1))
  moreover have "\<forall>j. Running j \<in> set (workers t) \<longrightarrow> \<not> is_break j \<and> \<not> is_skip j" unfolding t
    by (metis h healthy_def in_update w(2))
  moreover have "\<forall>j \<in> set (todo (main_thread t)) \<union> set (input_queue t) \<union> set (concat (map at_hand (workers t))).
      startable conf opts j"
    using h w(3) t(3) at_hand_update [of "workers s" i w] unfolding t healthy_def by blast
  ultimately show ?thesis by (simp add: healthy_def)
qed

lemma healthy_worker:
  assumes h: "healthy conf opts s" and st: "worker_step conf opts i out s = Some s'" and out: "out \<noteq> None"
  shows "healthy conf opts s'"
proof -
  have hand: "startable conf opts k" if "i < length (workers s)" "k \<in> set (at_hand (workers s ! i))" for k
    using h nth_mem [OF that(1)] that(2) by (auto simp: healthy_def)
  show ?thesis using st
  proof (cases rule: worker_step_cases)
    case (fetch j q)
    moreover have "startable conf opts j" using h fetch(3) by (simp add: healthy_def)
    ultimately show ?thesis by (intro healthy_update [OF h, of "Got j"]) auto
  next
    case (die j e)
    then have "Running j \<in> set (workers s)" by (metis nth_mem)
    then have "\<not> is_break j" "\<not> is_skip j" using h by (auto simp: healthy_def)
    then show ?thesis using running_dies [OF die(3)] out hand [of j] die by (auto simp: startable_def)
  next
    case (launch j)
    then show ?thesis using hand [of j] by (intro healthy_update [OF h, of "Running j"]) auto
  qed (auto intro: healthy_update [OF h])
qed

lemma healthy_main: "healthy conf opts s \<Longrightarrow> main_step conf opts use s = Some s' \<Longrightarrow> healthy conf opts s'"
  by (elim main_step_cases) (auto simp: healthy_def no_death_def startable_def Job_def)

lemma healthy_step:
  "healthy conf opts s \<Longrightarrow> sys_step conf opts use e s = Some s' \<Longrightarrow> \<forall>i. e \<noteq> Worker i None \<Longrightarrow> healthy conf opts s'"
proof (cases e)
  case Sigint
  assume "healthy conf opts s" "sys_step conf opts use e s = Some s'"
  with Sigint show ?thesis by (auto simp: sigint_step_def healthy_def no_death_def)
qed (auto dest: healthy_main healthy_worker)

interpretation runner: progress_system "sys_step conf opts use" "runner_inv js n" "sys_weight n"
    "\<lambda>e. e = Sigint" "healthy conf opts" finished
  for conf opts use js n
proof
  show "runner_inv js n s \<Longrightarrow> sys_step conf opts use e s = Some s' \<Longrightarrow> runner_inv js n s'" for e s s'
    by (rule runner_inv_step)
  show "sys_weight n s' < sys_weight n s"
    if "runner_inv js n s" "e \<noteq> Sigint" "sys_step conf opts use e s = Some s'" for s e s'
    using that main_step_weight worker_step_weight by (cases e) auto
  show "sys_weight n s' \<le> sys_weight n s"
    if "runner_inv js n s" "e = Sigint" "sys_step conf opts use e s = Some s'" for s e s'
    using that by (auto simp: sigint_step_def sys_weight_def)
  show "\<exists>e s'. e \<noteq> Sigint \<and> sys_step conf opts use e s = Some s' \<and> healthy conf opts s'"
    if inv: "runner_inv js n s" and h: "healthy conf opts s" and nf: "\<not> finished s" for s
  proof -
    from h have "no_death s" by (simp add: healthy_def)
    from runner_enabled [OF inv this nf, of conf opts use] healthy_step [OF h] show ?thesis by blast
  qed
qed

lemma healthy_start: "\<forall>j \<in> set js. startable conf opts j \<Longrightarrow> healthy conf opts (start_sys n js)"
  by (auto simp: healthy_def no_death_def start_sys_def)

lemma healthy_run:
  "run_steps (sys_step conf opts use) es s = Some s' \<Longrightarrow> healthy conf opts s \<Longrightarrow> \<forall>i. Worker i None \<notin> set es \<Longrightarrow>
     healthy conf opts s'"
proof (induction es arbitrary: s)
  case (Cons e es)
  then obtain u where u: "sys_step conf opts use e s = Some u" "run_steps (sys_step conf opts use) es u = Some s'"
    by (auto split: option.splits)
  have "\<forall>i. e \<noteq> Worker i None" "\<forall>i. Worker i None \<notin> set es" using Cons.prems(3) by auto
  then show ?case using Cons.IH [OF u(2)] healthy_step [OF Cons.prems(2) u(1)] by blast
qed simp

subsection \<open>Dead workers\<close>

lemma dead_step: "sys_step conf opts use e s = Some s' \<Longrightarrow> Dead j \<in> set (workers s) \<Longrightarrow> Dead j \<in> set (workers s')"
proof (cases e)
  case (Worker i out)
  assume st: "sys_step conf opts use e s = Some s'" and d: "Dead j \<in> set (workers s)"
  from d obtain k where k: "k < length (workers s)" "workers s ! k = Dead j" by (auto simp: in_set_conv_nth)
  have w: "worker_step conf opts i out s = Some s'" using st Worker by simp
  then have "k \<noteq> i" using k by (auto simp: worker_step_def)
  then have "k < length (workers s') \<and> workers s' ! k = Dead j"
    using w k by (elim worker_step_cases) simp_all
  then show ?thesis by (metis nth_mem)
qed (auto simp: sigint_step_def elim: main_step_cases)

lemma dead_worker_stays:
  "run_steps (sys_step conf opts use) es s = Some s' \<Longrightarrow> Dead j \<in> set (workers s) \<Longrightarrow> Dead j \<in> set (workers s')"
  by (induction es arbitrary: s) (auto split: option.splits dest: dead_step)

lemma death_step:
  assumes "sys_step conf opts use e s = Some s'" "Dead j \<in> set (workers s')"
  shows "Dead j \<in> set (workers s) \<or> (\<exists>i. e = Worker i None) \<or> (\<exists>err. worker_command conf opts j = Inl err)"
proof (cases e)
  case (Worker i out)
  then have "worker_step conf opts i out s = Some s'" using assms by simp
  then show ?thesis
  proof (cases rule: worker_step_cases)
    case (die k err)
    then show ?thesis using running_dies [OF die(3)] Worker assms(2) by (auto dest: in_update)
  qed (use assms(2) in \<open>auto dest: in_update\<close>)
qed (use assms in \<open>auto simp: sigint_step_def elim: main_step_cases\<close>)

lemma death_cause:
  "run_steps (sys_step conf opts use) es s = Some s' \<Longrightarrow> Dead j \<in> set (workers s') \<Longrightarrow>
     Dead j \<in> set (workers s) \<or> (\<exists>i. Worker i None \<in> set es) \<or> (\<exists>err. worker_command conf opts j = Inl err)"
proof (induction es arbitrary: s)
  case (Cons e es)
  then obtain u where u: "sys_step conf opts use e s = Some u" "run_steps (sys_step conf opts use) es u = Some s'"
    by (auto split: option.splits)
  then show ?case using Cons.IH [OF u(2) Cons.prems(2)] death_step [OF u(1)] by auto
qed simp

text \<open>Once everything is collected, no worker can have died with a job in its hands.\<close>

lemma sum_list_mset_empty: "sum_list (map f xs) = {#} \<Longrightarrow> x \<in> set xs \<Longrightarrow> f x = {#}"
  by (induction xs) auto

lemma collected_no_death:
  assumes "conserved js s" "length (collected s) = length js"
  shows "no_death s"
proof -
  have "size (whereabouts s) = length js" using assms(1) by (simp add: conserved_def)
  then have "sum_list (map hand (workers s)) = {#}" using assms(2) by (simp add: whereabouts_def)
  from sum_list_mset_empty [OF this] show ?thesis by (force simp: no_death_def)
qed

subsection \<open>The report agrees with what was collected\<close>

abbreviation reported :: "sys \<Rightarrow> job list" where
  "reported s \<equiv> filter (\<lambda>j. \<not> is_break j) (collected s)"

definition with_status :: "status \<Rightarrow> job list \<Rightarrow> job list" where
  "with_status st js = filter (\<lambda>j. job_status j = st) js"

lemma length_filter_full: "length (filter p xs) = length xs \<longleftrightarrow> (\<forall>x \<in> set xs. p x)"
  by (metis filter_id_conv length_filter_less less_irrefl)

definition counts :: "report \<Rightarrow> job list \<Rightarrow> bool" where
  "counts r js \<longleftrightarrow>
     passed_tests r = length (with_status PASS js) \<and> skipped_tests r = length (with_status SKIP js) \<and>
     failed_testnames r = map display_name (with_status FAIL js) \<and>
     failed_tests r = length (with_status FAIL js) \<and>
     crashed_testnames r = map display_name (with_status CRASH js) \<and>
     crashed_tests r = length (with_status CRASH js) \<and>
     valgrind_testnames r = map display_name (with_status VALGR js) \<and>
     valgrind_errors r = length (with_status VALGR js)"

definition tallied :: "sys \<Rightarrow> bool" where
  "tallied s \<longleftrightarrow>
     ((\<forall>e. main_thread s \<noteq> Raised e) \<longrightarrow> counts (rep s) (reported s)) \<and>
     (\<forall>rc. main_thread s = Done rc \<longrightarrow> rc = exit_code (total_tests s) (rep s))"

lemma counts_tally: "counts r js \<Longrightarrow> counts (tally j r) (js @ [j])"
  by (cases "job_status j") (simp_all add: counts_def tally_def with_status_def)

lemma counts_collect:
  assumes "counts r (filter (\<lambda>j. \<not> is_break j) js)" "collect_job opts use fs t j r = Inr r'"
  shows "counts r' (filter (\<lambda>j. \<not> is_break j) (js @ [j]))"
proof (cases "is_break j")
  case True
  then show ?thesis using assms by (simp add: collect_job_def)
next
  case False
  have keep: "counts (q\<lparr>console := c, xml_results := x\<rparr>) ks = counts q ks" for q c x ks by (simp add: counts_def)
  from assms(2) False obtain c x where "r' = (tally j r)\<lparr>console := c, xml_results := x\<rparr>"
    by (auto simp: collect_job_def Let_def rbind_eq_Inr)
  then show ?thesis using counts_tally [OF assms(1), of j] False keep by simp
qed

lemma status_partition:
  "length (filter is_break js) + length (with_status PASS (filter (\<lambda>j. \<not> is_break j) js)) +
   length (with_status SKIP (filter (\<lambda>j. \<not> is_break j) js)) + length (with_status FAIL (filter (\<lambda>j. \<not> is_break j) js)) +
   length (with_status CRASH (filter (\<lambda>j. \<not> is_break j) js)) + length (with_status VALGR (filter (\<lambda>j. \<not> is_break j) js)) =
   length js"
  by (induction js) (auto simp: with_status_def intro: status.exhaust)

lemma passed_or_skipped:
  "length (with_status PASS (filter (\<lambda>j. \<not> is_break j) js)) + length (with_status SKIP (filter (\<lambda>j. \<not> is_break j) js)) =
     length js \<longleftrightarrow> (\<forall>j \<in> set js. \<not> is_break j \<and> job_status j \<in> {PASS, SKIP})"
proof -
  have "length (with_status PASS (filter (\<lambda>j. \<not> is_break j) js)) + length (with_status SKIP (filter (\<lambda>j. \<not> is_break j) js)) =
      length (filter (\<lambda>j. \<not> is_break j \<and> job_status j \<in> {PASS, SKIP}) js)"
    by (induction js) (auto simp: with_status_def)
  then show ?thesis by (simp add: length_filter_full)
qed

lemma tallied_worker: "tallied s \<Longrightarrow> worker_step conf opts i out s = Some s' \<Longrightarrow> tallied s'"
  by (elim worker_step_cases) (simp_all add: tallied_def)

lemma tallied_main:
  assumes inv: "tallied s" and m: "main_step conf opts use s = Some s'"
  shows "tallied s'"
  using m
proof (cases rule: main_step_cases)
  case (collect k j q r)
  then show ?thesis using inv counts_collect [of "rep s" "collected s" opts use "tmp_files s" "total_tests s" j r]
    by (simp add: tallied_def)
next
  case return
  have "counts (summary conf opts t r) js = counts r js" "exit_code t (summary conf opts t r) = exit_code t r"
    for t r js by (simp_all add: counts_def summary_def exit_code_def)
  with return inv show ?thesis by (simp add: tallied_def)
qed (use inv in \<open>simp_all add: tallied_def\<close>)

text \<open>Only a signal makes the workers hand jobs back undone.\<close>

definition undisturbed :: "sys \<Rightarrow> bool" where
  "undisturbed s \<longleftrightarrow>
     (\<forall>j. Running j \<in> set (workers s) \<longrightarrow> \<not> is_break j) \<and>
     (\<not> thread_exit s \<longrightarrow>
        (\<forall>j. Outgoing j \<in> set (workers s) \<longrightarrow> \<not> is_break j) \<and>
        (\<forall>j \<in> set (output_queue s) \<union> set (collected s). \<not> is_break j))"

lemma undisturbed_worker: "undisturbed s \<Longrightarrow> worker_step conf opts i out s = Some s' \<Longrightarrow> undisturbed s'"
  unfolding undisturbed_def
  by (elim worker_step_cases)
    (auto simp: finish_job_def dest: in_update dest!: nth_mem [of i "workers s"])

lemma undisturbed_main: "undisturbed s \<Longrightarrow> main_step conf opts use s = Some s' \<Longrightarrow> undisturbed s'"
  by (elim main_step_cases) (auto simp: undisturbed_def)

interpretation bookkeeping: invariant_system "sys_step conf opts use" "\<lambda>s. tallied s \<and> undisturbed s"
  for conf opts use
proof
  fix s e s' assume inv: "tallied s \<and> undisturbed s" and st: "sys_step conf opts use e s = Some s'"
  show "tallied s' \<and> undisturbed s'"
  proof (cases e)
    case Main
    then have m: "main_step conf opts use s = Some s'" using st by simp
    then show ?thesis using inv tallied_main [OF _ m] undisturbed_main [OF _ m] by blast
  next
    case (Worker i out)
    then have w: "worker_step conf opts i out s = Some s'" using st by simp
    then show ?thesis using inv tallied_worker [OF _ w] undisturbed_worker [OF _ w] by blast
  next
    case Sigint
    then show ?thesis using inv st by (auto simp: sigint_step_def tallied_def undisturbed_def)
  qed
qed

lemma step_keeps_thread_exit:
  "sys_step conf opts use e t = Some t' \<Longrightarrow> e \<noteq> Sigint \<Longrightarrow> thread_exit t' = thread_exit t"
  by (cases e) (auto elim!: main_step_cases worker_step_cases)

lemma run_keeps_thread_exit:
  "run_steps (sys_step conf opts use) es t = Some t' \<Longrightarrow> Sigint \<notin> set es \<Longrightarrow> thread_exit t' = thread_exit t"
proof (induction es arbitrary: t)
  case (Cons e es)
  then obtain u where u: "sys_step conf opts use e t = Some u" "run_steps (sys_step conf opts use) es u = Some t'"
    by (auto split: option.splits)
  then show ?case using Cons step_keeps_thread_exit [OF u(1)] by auto
qed simp

lemma bookkeeping_start: "tallied (start_sys n js) \<and> undisturbed (start_sys n js)"
  by (simp add: tallied_def undisturbed_def start_sys_def start_report_def counts_def with_status_def)

subsection \<open>The state in which the runner returns\<close>

lemma done_collected:
  assumes "0 < n" "\<forall>j \<in> set js. \<not> is_break j"
    and "run_steps (sys_step conf opts use) es (start_sys n js) = Some s" "main_thread s = Done rc"
  shows "mset (map job_key (collected s)) = mset (map job_key js) \<and>
    input_queue s = [] \<and> output_queue s = [] \<and> (\<forall>w \<in> set (workers s). w = Stopped)"
proof -
  have inv: "runner_inv js n s" by (rule runner.run_good [OF runner_inv_start [OF assms(1,2)] assms(3)])
  then have len: "length (collected s) = length js" using assms(4) by (simp add: runner_inv_def staged_def)
  have "no_death s" using inv len by (intro collected_no_death) (simp_all add: runner_inv_def)
  then have st: "\<forall>w \<in> set (workers s). w = Stopped"
    using inv assms(4) ended_alive [OF \<open>no_death s\<close>]
    by (metis in_set_conv_nth runner_inv_def stage_ok.simps(5) staged_def)
  have "map gone (workers s) = replicate (length (workers s)) 1"
    by (rule nth_equalityI) (use st in \<open>auto dest!: nth_mem\<close>)
  then have gone: "sum_list (map gone (workers s)) = n" "0 < n"
    using inv by (simp_all add: runner_inv_def breaks_ok_def sum_list_replicate)
  have q: "input_queue s = []"
  proof -
    have b: "breaks_ok n s" using inv by (simp add: runner_inv_def)
    have "queued_jobs s = []" using b gone unfolding breaks_ok_def by linarith
    moreover have "length (queued_breaks s) = 0" using b gone unfolding breaks_ok_def by linarith
    moreover have "input_queue s = queued_jobs s @ queued_breaks s" using b unfolding breaks_ok_def by blast
    ultimately show ?thesis by (metis append_Nil length_0_conv)
  qed
  have "sum_list (map hand (workers s)) = {#}" by (rule sum_list_zero) (use st in auto)
  then have w: "mset (map job_key (output_queue s)) + mset (map job_key (collected s)) = mset (map job_key js)"
    using inv q assms(4) by (simp add: runner_inv_def conserved_def whereabouts_def)
  from arg_cong [OF w, of size] len have "output_queue s = []" by simp
  then show ?thesis using w q st by simp
qed

lemma done_exit_code:
  assumes "0 < n" "\<forall>j \<in> set js. \<not> is_break j"
    and "run_steps (sys_step conf opts use) es (start_sys n js) = Some s" "main_thread s = Done rc"
  shows "rc = (if \<forall>j \<in> set (collected s). \<not> is_break j \<and> job_status j \<in> {PASS, SKIP} then 0 else 1) \<and>
    (let r = rep s in
       passed_tests r + failed_tests r + crashed_tests r + valgrind_errors r + skipped_tests r +
         length (filter is_break (collected s)) = length js \<and>
       failed_testnames r = map display_name (filter (\<lambda>j. \<not> is_break j \<and> job_status j = FAIL) (collected s)))"
proof -
  have inv: "runner_inv js n s" by (rule runner.run_good [OF runner_inv_start [OF assms(1,2)] assms(3)])
  have bk: "tallied s" using bookkeeping.run_good [OF bookkeeping_start assms(3)] by blast
  have len: "total_tests s = length js" "length (collected s) = length js"
    using inv assms(4) by (simp_all add: runner_inv_def staged_def)
  have c: "counts (rep s) (reported s)" and rc: "rc = exit_code (total_tests s) (rep s)"
    using bk assms(4) by (simp_all add: tallied_def)
  have all: "length (filter is_break (collected s)) + length (with_status PASS (reported s)) +
      length (with_status SKIP (reported s)) + length (with_status FAIL (reported s)) +
      length (with_status CRASH (reported s)) + length (with_status VALGR (reported s)) = length (collected s)"
    by (rule status_partition)
  have "passed_tests (rep s) + skipped_tests (rep s) = total_tests s \<longleftrightarrow>
      (\<forall>j \<in> set (collected s). \<not> is_break j \<and> job_status j \<in> {PASS, SKIP})"
    using c passed_or_skipped [of "collected s"] by (simp only: counts_def len)
  then have "rc = (if \<forall>j \<in> set (collected s). \<not> is_break j \<and> job_status j \<in> {PASS, SKIP} then 0 else 1)"
    by (simp only: rc exit_code_def)
  moreover have "failed_testnames (rep s) =
      map display_name (filter (\<lambda>j. \<not> is_break j \<and> job_status j = FAIL) (collected s))"
    using c by (simp add: counts_def with_status_def conj_commute)
  ultimately show ?thesis using c all len by (simp add: counts_def Let_def)
qed

section \<open>What the parallel runner promises\<close>

text \<open>A run with one worker and one example job that passes, for the witnesses.\<close>

definition demo_job :: job where
  "demo_job = Job\<lparr>is_example := True, display_name := ''a'', shell_command := ''a''\<rparr>"

definition demo_out :: outcome where
  "demo_out = (\<lparr>p_returncode = 0, p_stdout = Text [], p_stderr = Text [], p_elapsed = 0\<rparr>, None)"

definition demo_conf :: waf_config where
  "demo_conf = \<lparr>NS3_BASEDIR = ''/ns3'', NS3_BUILDDIR = ''/ns3/build'', NS3_MODULE_PATH = [],
     NS3_ENABLED_MODULES = [''ns3-core''], NS3_ENABLED_CONTRIBUTED_MODULES = [], NSC_ENABLED = False,
     ENABLE_EXAMPLES = True, ENABLE_TESTS = True, ENABLE_PYTHON_BINDINGS = False,
     EXAMPLE_DIRECTORIES = [], APPNAME = ''ns'', BUILD_PROFILE = ''debug'', VERSION = ''3-dev'',
     PYTHON = [''/usr/bin/python3''], VALGRIND_FOUND = False\<rparr>"

abbreviation demo_step :: "event \<Rightarrow> sys \<Rightarrow> sys option" where
  "demo_step \<equiv> sys_step demo_conf default_options True"

definition demo_events :: "event list" where
  "demo_events = replicate 4 Main @ replicate 4 (Worker 0 (Some demo_out)) @ replicate 2 Main @
     replicate 2 (Worker 0 (Some demo_out)) @ replicate 2 Main"

lemmas run_eval = demo_events_def sys_step.simps main_step_def worker_step_def worker_decide_def run_job_def
  worker_command_def job_command_def
  start_sys_def q_put_def finish_job_def collect_job_def decoded_retval_def demo_job_def demo_out_def
  Job_def numeral_eq_Suc Let_def

lemma demo_done:
  "\<exists>s. run_steps (sys_step conf opts use) demo_events (start_sys 1 [demo_job]) = Some s \<and>
     main_thread s = Done 0 \<and> collected s = [demo_job]"
  by (simp add: run_eval tally_def job_status_def exit_code_def start_report_def)

definition dead_job :: job where
  "dead_job = Job\<lparr>is_pyexample := True, display_name := ''b'', shell_command := ''b.py''\<rparr>"

definition dead_events :: "event list" where
  "dead_events = replicate 4 Main @ replicate 3 (Worker 0 (Some demo_out))"

lemma dead_worker_run:
  "\<exists>s. run_steps (sys_step (demo_conf\<lparr>PYTHON := []\<rparr>) default_options True) dead_events (start_sys 1 [dead_job]) = Some s \<and>
     Dead dead_job \<in> set (workers s) \<and> main_thread s = Collecting 1"
  by (simp add: run_eval dead_job_def dead_events_def py_index_def demo_conf_def default_options_def)



text \<open>
  C13: every interleaving of the runner is finite: for m jobs and n workers the threads take at
  most 6 m + 4 n + 4 steps, however often the user interrupts and whether or not workers die; and as long
  as the command of every job that is run can be made up and no process has failed to start, the run
  can be completed from every state reached.\<close>
theorem runner_terminates:
  assumes "0 < n" "\<forall>j \<in> set js. \<not> is_break j"
    and "run_steps (sys_step conf opts use) es (start_sys n js) = Some s"
  shows "length (filter (\<lambda>e. e \<noteq> Sigint) es) \<le> 6 * length js + 4 * n + 4 \<and>
    ((\<forall>j \<in> set js. startable conf opts j) \<and> (\<forall>i. Worker i None \<notin> set es) \<longrightarrow>
      (\<exists>es' s'. (\<forall>e \<in> set es'. e \<noteq> Sigint) \<and> run_steps (sys_step conf opts use) es' s = Some s' \<and> finished s'))"
proof -
  note inv = runner_inv_start [OF assms(1,2)]
  have "sys_weight n (start_sys n js) = 6 * length js + 4 * n + 4"
    by (simp add: sys_weight_def start_sys_def sum_list_zero)
  then show ?thesis
    using runner.run_bounded [OF inv assms(3)] runner.run_completes [OF runner.run_good [OF inv assms(3)]]
      healthy_run [OF assms(3) healthy_start]
    by simp
qed

theorem runner_terminates_witness:
  "\<exists>es' s'. run_steps demo_step es' (start_sys 1 [demo_job]) = Some s' \<and> finished s'"
  using runner_terminates [of 1 "[demo_job]" demo_conf default_options True "[]" "start_sys 1 [demo_job]"]
    worker_command_returns [of demo_job demo_conf default_options]
  by (auto simp: demo_job_def Job_def startable_def)

text \<open>
  C11: when \<open>run_tests\<close> returns, the main thread has collected every dispatched job exactly once
  (no result is lost or counted twice), both queues are empty and every worker thread has exited.\<close>
theorem runner_collects_all:
  assumes "0 < n" "\<forall>j \<in> set js. \<not> is_break j"
    and "run_steps (sys_step conf opts use) es (start_sys n js) = Some s" "main_thread s = Done rc"
  shows "mset (map job_key (collected s)) = mset (map job_key js) \<and>
    input_queue s = [] \<and> output_queue s = [] \<and> (\<forall>w \<in> set (workers s). w = Stopped)"
  by (rule done_collected [OF assms])

theorem runner_collects_all_witness:
  "\<exists>s. run_steps demo_step demo_events (start_sys 1 [demo_job]) = Some s \<and> main_thread s = Done 0 \<and>
     mset (map job_key (collected s)) = {#job_key demo_job#} \<and> output_queue s = []"
proof -
  obtain s where s: "run_steps demo_step demo_events (start_sys 1 [demo_job]) = Some s" "main_thread s = Done 0"
    using demo_done by blast
  have "\<forall>j \<in> set [demo_job]. \<not> is_break j" by (simp add: demo_job_def Job_def)
  from runner_collects_all [OF _ this s] s show ?thesis by auto
qed

text \<open>
  C12: the value \<open>run_tests\<close> returns is 0 exactly when every dispatched job was run to a pass or
  was skipped, and 1 otherwise; the five counters count the collected jobs by their status, and
  together with the jobs a signal cut short they add up to the number of tests.\<close>
theorem exit_code_correct:
  assumes "0 < n" "\<forall>j \<in> set js. \<not> is_break j"
    and "run_steps (sys_step conf opts use) es (start_sys n js) = Some s" "main_thread s = Done rc"
  shows "rc = (if \<forall>j \<in> set (collected s). \<not> is_break j \<and> job_status j \<in> {PASS, SKIP} then 0 else 1) \<and>
    (let r = rep s in
       passed_tests r + failed_tests r + crashed_tests r + valgrind_errors r + skipped_tests r +
         length (filter is_break (collected s)) = length js \<and>
       failed_testnames r = map display_name (filter (\<lambda>j. \<not> is_break j \<and> job_status j = FAIL) (collected s)))"
  by (rule done_exit_code [OF assms])

theorem exit_code_correct_witness:
  "\<exists>s. run_steps demo_step demo_events (start_sys 1 [demo_job]) = Some s \<and> main_thread s = Done 0 \<and>
     passed_tests (rep s) + failed_tests (rep s) + crashed_tests (rep s) + valgrind_errors (rep s) +
       skipped_tests (rep s) + length (filter is_break (collected s)) = 1"
proof -
  obtain s where s: "run_steps demo_step demo_events (start_sys 1 [demo_job]) = Some s" "main_thread s = Done 0"
    using demo_done by blast
  have "\<forall>j \<in> set [demo_job]. \<not> is_break j" by (simp add: demo_job_def Job_def)
  from exit_code_correct [OF _ this s] s show ?thesis by (auto simp: Let_def)
qed

text \<open>
  As long as no signal arrives, no result in the output queue or collected by the main
  thread is a job that a worker handed back undone.\<close>
theorem no_signal_no_break:
  assumes "run_steps (sys_step conf opts use) es (start_sys n js) = Some s" "Sigint \<notin> set es"
  shows "\<forall>j \<in> set (collected s) \<union> set (output_queue s). \<not> is_break j"
proof -
  have "\<not> thread_exit s" using run_keeps_thread_exit [OF assms] by (simp add: start_sys_def)
  moreover have "undisturbed s" using bookkeeping.run_good [OF bookkeeping_start assms(1)] by blast
  ultimately show ?thesis by (auto simp: undisturbed_def)
qed

theorem no_signal_no_break_witness:
  "\<exists>s. run_steps demo_step demo_events (start_sys 1 [demo_job]) = Some s \<and> collected s = [demo_job] \<and>
     \<not> is_break (hd (collected s))"
proof -
  obtain s where s: "run_steps demo_step demo_events (start_sys 1 [demo_job]) = Some s" "collected s = [demo_job]"
    using demo_done by blast
  have "Sigint \<notin> set demo_events" by (simp add: demo_events_def)
  from no_signal_no_break [OF s(1) this] s show ?thesis by simp
qed

text \<open>
  With no worker thread, which a negative \<open>--jobs\<close> limit gives, and at least one job,
  \<open>run_tests\<close> never returns: the main thread waits for ever for the first result.\<close>
theorem no_workers_never_done:
  assumes "js \<noteq> []" "run_steps (sys_step conf opts use) es (start_sys 0 js) = Some s"
  shows "main_thread s \<noteq> Done rc \<and> collected s = []"
proof -
  define stuck where "stuck s \<longleftrightarrow> workers s = [] \<and> output_queue s = [] \<and> collected s = [] \<and> staged js s" for s
  have step: "stuck t'" if t: "stuck t" and st: "sys_step conf opts use e t = Some t'" for t t' e
  proof (cases e)
    case Main
    then have m: "main_step conf opts use t = Some t'" using st by simp
    then have "workers t' = [] \<and> output_queue t' = [] \<and> collected t' = []"
      using t by (elim main_step_cases) (simp_all add: stuck_def)
    then show ?thesis using t staged_main [OF _ m] by (simp add: stuck_def)
  next
    case (Worker i out)
    then show ?thesis using t st by (simp add: stuck_def worker_step_def)
  next
    case Sigint
    have "stage_ok m (t\<lparr>thread_exit := True\<rparr>) pc = stage_ok m t pc" for m pc by (cases pc) simp_all
    then show ?thesis using t st Sigint by (auto simp: stuck_def sigint_step_def staged_def)
  qed
  have "stuck (start_sys 0 js)" by (simp add: stuck_def start_sys_def staged_def)
  then have "run_steps (sys_step conf opts use) es t = Some s \<Longrightarrow> stuck t \<Longrightarrow> stuck s" for t
    by (induction es arbitrary: t) (auto split: option.splits dest: step)
  then have "stuck s" using assms(2) \<open>stuck (start_sys 0 js)\<close> by blast
  then show ?thesis using assms(1) by (auto simp: stuck_def staged_def)
qed

theorem no_workers_never_done_witness:
  "\<exists>s. run_steps demo_step [Main, Main, Main] (start_sys 0 [demo_job]) = Some s \<and> main_thread s = Collecting 1 \<and>
     demo_step Main s = None \<and> collected s = []"
proof -
  obtain s where s: "run_steps demo_step [Main, Main, Main] (start_sys 0 [demo_job]) = Some s"
    "main_thread s = Collecting 1" "demo_step Main s = None"
    by (simp add: run_eval)
  with no_workers_never_done [OF _ s(1)] show ?thesis by blast
qed

end
