(* ===== verification/JobPool.thy ===== *)
theory JobPool
  imports TestJobs
begin

text \<open>
  What the worker threads of \<^verbatim>\<open>test.py\<close> promise, without threads and queues: a pool takes
  jobs in the order of the plan, works on at most as many at a time as there are workers, and
  delivers at most one result for each (a job stays in work for ever when its worker dies).  The specification is the relation \<open>pool_step\<close>; the thread system of
  \<open>TestJobs\<close> refines it, and what holds of every pool run holds of \<open>run_tests\<close>.
\<close>

section \<open>The specification\<close>

record pool =
  waiting :: "job list"
  in_work :: "job multiset"
  results :: "job multiset"
  delivered :: "job list"

inductive pool_step :: "nat \<Rightarrow> pool \<Rightarrow> pool \<Rightarrow> bool" for n where
  begin_job: "waiting p = j # js \<Longrightarrow> size (in_work p) < n \<Longrightarrow>
    pool_step n p (p\<lparr>waiting := js, in_work := add_mset j (in_work p)\<rparr>)"
| finish: "in_work p = add_mset j m \<Longrightarrow>
    pool_step n p (p\<lparr>in_work := m, results := add_mset (finish_job out j) (results p)\<rparr>)"
| skip: "in_work p = add_mset j m \<Longrightarrow> is_skip j \<Longrightarrow>
    pool_step n p (p\<lparr>in_work := m, results := add_mset j (results p)\<rparr>)"
| abandon: "in_work p = add_mset j m \<Longrightarrow>
    pool_step n p (p\<lparr>in_work := m, results := add_mset (j\<lparr>is_break := True\<rparr>) (results p)\<rparr>)"
| deliver: "results p = add_mset j m \<Longrightarrow>
    pool_step n p (p\<lparr>results := m, delivered := delivered p @ [j]\<rparr>)"

text \<open>What every pool run keeps: the jobs are begun in the order of the plan and none is lost.\<close>

definition pool_inv :: "nat \<Rightarrow> job list \<Rightarrow> pool \<Rightarrow> bool" where
  "pool_inv n js p \<longleftrightarrow> (\<exists>k \<le> length js. waiting p = drop k js \<and> size (in_work p) \<le> n \<and>
     mset (map job_key (take k js)) =
       image_mset job_key (in_work p) + image_mset job_key (results p) + mset (map job_key (delivered p)))"

lemma pool_invI:
  "k \<le> length js \<Longrightarrow> waiting p = drop k js \<Longrightarrow> size (in_work p) \<le> n \<Longrightarrow>
     mset (map job_key (take k js)) =
       image_mset job_key (in_work p) + image_mset job_key (results p) + mset (map job_key (delivered p)) \<Longrightarrow>
     pool_inv n js p"
  by (auto simp: pool_inv_def)

lemma job_key_written [simp]: "job_key (finish_job out j) = job_key j" "job_key (j\<lparr>is_break := True\<rparr>) = job_key j"
  by (simp_all add: job_key_def finish_job_def)

lemma pool_inv_step: "pool_step n p p' \<Longrightarrow> pool_inv n js p \<Longrightarrow> pool_inv n js p'"
proof (induction rule: pool_step.induct)
  case (begin_job p j rest)
  then obtain k where k: "k \<le> length js" "drop k js = j # rest"
    "mset (map job_key (take k js)) =
       image_mset job_key (in_work p) + image_mset job_key (results p) + mset (map job_key (delivered p))"
    by (auto simp: pool_inv_def)
  then have "k < length js" "js ! k = j" "drop (Suc k) js = rest"
    by (metis drop_all linorder_not_le list.distinct(1), metis hd_drop_conv_nth drop_all linorder_not_le list.distinct(1) list.sel(1),
        metis drop_Suc tl_drop list.sel(3))
  then show ?case using k begin_job by (intro pool_invI [of "Suc k"]) (simp_all add: take_Suc_conv_app_nth)
qed (auto simp: pool_inv_def)

section \<open>The thread system refines it\<close>

fun working :: "worker \<Rightarrow> job multiset" where
  "working (Got j) = (if is_break j then {#} else {#j#})"
| "working (Running j) = {#j#}"
| "working (Dead j) = {#j#}"
| "working _ = {#}"

fun sending :: "worker \<Rightarrow> job multiset" where
  "sending (Outgoing j) = {#j#}"
| "sending _ = {#}"

definition pool_of :: "sys \<Rightarrow> pool" where
  "pool_of s = \<lparr>waiting = queued_jobs s @ todo (main_thread s),
     in_work = sum_list (map working (workers s)),
     results = sum_list (map sending (workers s)) + mset (output_queue s),
     delivered = collected s\<rparr>"

definition plain_plan :: "nat \<Rightarrow> sys \<Rightarrow> bool" where
  "plain_plan n s \<longleftrightarrow> length (workers s) = n \<and> (\<forall>j \<in> set (todo (main_thread s)). \<not> is_break j)"

lemma sum_list_split:
  assumes "i < length ws"
  obtains R where "sum_list (map f ws) = f (ws ! i) + R" "\<And>y. sum_list (map f (ws[i := y])) = f y + (R :: 'b multiset)"
proof
  let ?R = "sum_list (map f (take i ws)) + sum_list (map f (drop (Suc i) ws))"
  have upd: "sum_list (map f (ws[i := y])) = f y + ?R" for y
    by (simp add: upd_conv_take_nth_drop [OF assms] ac_simps)
  then show "sum_list (map f ws) = f (ws ! i) + ?R" using upd [of "ws ! i"] by simp
  show "sum_list (map f (ws[i := y])) = f y + ?R" for y by (rule upd)
qed

lemma size_working: "size (working w) \<le> 1"
  by (cases w) simp_all

lemma size_all_working: "size (sum_list (map working ws)) \<le> length ws"
proof (induction ws)
  case (Cons w ws)
  then show ?case using size_working [of w] by simp
qed simp

lemma room_for_job:
  assumes "i < length ws" "ws ! i = Idle"
  shows "size (sum_list (map working ws)) < length ws"
  using assms
proof (induction ws arbitrary: i)
  case (Cons w ws)
  then show ?case using size_working [of w] size_all_working [of ws] by (cases i) fastforce+
qed simp

lemma worker_simulated:
  assumes n: "length (workers s) = n" and st: "worker_step conf opts i out s = Some s'"
  shows "(pool_step n)\<^sup>*\<^sup>* (pool_of s) (pool_of s')"
proof -
  from st have i: "i < length (workers s)" by (simp add: worker_step_def split: if_splits)
  obtain R where R: "sum_list (map working (workers s)) = working (workers s ! i) + R"
    "\<And>y. sum_list (map working ((workers s)[i := y])) = working y + R" using sum_list_split [OF i, of working] by blast
  obtain S where S: "sum_list (map sending (workers s)) = sending (workers s ! i) + S"
    "\<And>y. sum_list (map sending ((workers s)[i := y])) = sending y + S" using sum_list_split [OF i, of sending] by blast
  note abs = pool_of_def R S
  show ?thesis using st
  proof (cases rule: worker_step_cases)
    case (fetch j q)
    show ?thesis
    proof (cases "is_break j")
      case True
      then have "pool_of s' = pool_of s" using fetch by (simp add: abs)
      then show ?thesis by simp
    next
      case False
      have "size (in_work (pool_of s)) < n" using room_for_job [OF i fetch(2)] n by (simp add: pool_of_def)
      from begin_job [OF _ this, of j "filter (\<lambda>j. \<not> is_break j) q @ todo (main_thread s)"] show ?thesis
        using fetch False by (intro r_into_rtranclp) (simp add: abs)
    qed
  next
    case (stop j)
    then have "pool_of s' = pool_of s" by (simp add: abs)
    then show ?thesis by simp
  next
    case (interrupt j)
    from abandon [of "pool_of s" j R n] show ?thesis
      using interrupt by (intro r_into_rtranclp) (simp add: abs)
  next
    case (skip j)
    from pool_step.skip [of "pool_of s" j R n] show ?thesis
      using skip by (intro r_into_rtranclp) (simp add: abs)
  next
    case (launch j)
    then have "pool_of s' = pool_of s" by (simp add: abs)
    then show ?thesis by simp
  next
    case (finish j r fs)
    from pool_step.finish [of "pool_of s" j R n r] show ?thesis
      using finish by (intro r_into_rtranclp) (simp add: abs)
  next
    case (die j e)
    then have "pool_of s' = pool_of s" by (simp add: abs)
    then show ?thesis by simp
  next
    case (ship j)
    then have "pool_of s' = pool_of s" by (simp add: abs)
    then show ?thesis by simp
  qed
qed

lemma main_simulated:
  assumes pp: "\<forall>j \<in> set (todo (main_thread s)). \<not> is_break j" and st: "main_step conf opts use s = Some s'"
  shows "(pool_step n)\<^sup>*\<^sup>* (pool_of s) (pool_of s')"
  using st
proof (cases rule: main_step_cases)
  case (fail k j q e)
  from deliver [of "pool_of s" j "sum_list (map sending (workers s)) + mset q" n] show ?thesis
    using fail by (intro r_into_rtranclp) (simp add: pool_of_def)
next
  case (collect k j q r)
  from deliver [of "pool_of s" j "sum_list (map sending (workers s)) + mset q" n] show ?thesis
    using collect by (intro r_into_rtranclp) (simp add: pool_of_def)
qed (use pp in \<open>simp_all add: pool_of_def\<close>)

lemma plain_plan_step: "plain_plan n s \<Longrightarrow> sys_step conf opts use e s = Some s' \<Longrightarrow> plain_plan n s'"
proof (cases e)
  case Main
  assume "plain_plan n s" "sys_step conf opts use e s = Some s'"
  with Main show ?thesis by (auto simp: plain_plan_def elim: main_step_cases)
next
  case (Worker i out)
  assume "plain_plan n s" "sys_step conf opts use e s = Some s'"
  with Worker show ?thesis by (auto simp: plain_plan_def elim: worker_step_cases)
next
  case Sigint
  assume "plain_plan n s" "sys_step conf opts use e s = Some s'"
  with Sigint show ?thesis by (auto simp: plain_plan_def sigint_step_def)
qed

interpretation pooled: simulation "sys_step conf opts use" "plain_plan n" pool_of "pool_step n" for conf opts use n
proof
  fix s e s'
  assume pp: "plain_plan n s" and st: "sys_step conf opts use e s = Some s'"
  show "plain_plan n s'" by (rule plain_plan_step [OF pp st])
  show "(pool_step n)\<^sup>*\<^sup>* (pool_of s) (pool_of s')"
  proof (cases e)
    case Main
    then show ?thesis using st pp by (intro main_simulated) (simp_all add: plain_plan_def)
  next
    case (Worker i out)
    then show ?thesis using st pp by (intro worker_simulated) (simp_all add: plain_plan_def)
  next
    case Sigint
    then show ?thesis using st by (auto simp: sigint_step_def pool_of_def)
  qed
qed

lemma plain_plan_start: "\<forall>j \<in> set js. \<not> is_break j \<Longrightarrow> plain_plan n (start_sys n js)"
  by (simp add: plain_plan_def start_sys_def)

lemma sum_list_replicate_empty: "sum_list (replicate n {#}) = {#}"
  by (induction n) simp_all

lemma pool_of_start: "pool_of (start_sys n js) = \<lparr>waiting = js, in_work = {#}, results = {#}, delivered = []\<rparr>"
  by (simp add: pool_of_def start_sys_def sum_list_replicate_empty)

section \<open>Properties\<close>

text \<open>
  C9: the thread system implements the pool: every interleaving of the main thread, the worker
  threads and signals is a run of the specification that starts with the whole plan waiting.\<close>
theorem runner_refines_pool:
  assumes "\<forall>j \<in> set js. \<not> is_break j" "run_steps (sys_step conf opts use) es (start_sys n js) = Some s"
  shows "(pool_step n)\<^sup>*\<^sup>* \<lparr>waiting = js, in_work = {#}, results = {#}, delivered = []\<rparr> (pool_of s)"
  using pooled.run_refines [OF plain_plan_start [OF assms(1)] assms(2)] unfolding pool_of_start .

theorem runner_refines_pool_witness:
  "\<exists>s. run_steps demo_step demo_events (start_sys 1 [demo_job]) = Some s \<and>
     (pool_step 1)\<^sup>*\<^sup>* \<lparr>waiting = [demo_job], in_work = {#}, results = {#}, delivered = []\<rparr> (pool_of s)"
proof -
  obtain s where s: "run_steps demo_step demo_events (start_sys 1 [demo_job]) = Some s" using demo_done by blast
  have "\<forall>j \<in> set [demo_job]. \<not> is_break j" by (simp add: demo_job_def Job_def)
  from runner_refines_pool [OF this s] s show ?thesis by blast
qed

text \<open>
  At every moment the jobs not yet begun are a final part of the plan, so jobs are begun in the
  order of the plan; at most as many jobs are being worked on as there are workers; and the jobs
  begun so far are exactly those in work, those on their way back and those delivered.\<close>
theorem runner_in_order:
  assumes "\<forall>j \<in> set js. \<not> is_break j" "run_steps (sys_step conf opts use) es (start_sys n js) = Some s"
  shows "\<exists>k \<le> length js. queued_jobs s @ todo (main_thread s) = drop k js \<and>
    size (in_work (pool_of s)) \<le> n \<and>
    mset (map job_key (take k js)) = image_mset job_key (in_work (pool_of s)) +
      image_mset job_key (results (pool_of s)) + mset (map job_key (collected s))"
proof -
  have "pool_inv n js (pool_of (start_sys n js))"
    unfolding pool_of_start by (rule pool_invI [of 0]) simp_all
  from pooled.run_invariant [OF plain_plan_start [OF assms(1)] assms(2), of "pool_inv n js", OF this] pool_inv_step
  have "pool_inv n js (pool_of s)" by blast
  then show ?thesis by (simp add: pool_inv_def pool_of_def)
qed

theorem runner_in_order_witness:
  "\<exists>s. run_steps demo_step [Main] (start_sys 1 [demo_job, demo_job]) = Some s \<and>
     input_queue s = [demo_job] \<and> size (in_work (pool_of s)) \<le> 1"
proof -
  have plain: "\<not> is_break demo_job" by (simp add: demo_job_def Job_def)
  obtain s where s: "run_steps demo_step [Main] (start_sys 1 [demo_job, demo_job]) = Some s" "input_queue s = [demo_job]"
    by (simp add: run_eval)
  from runner_in_order [OF _ s(1)] plain s show ?thesis by auto
qed

end
