(* ===== verification/ConfigFile.thy ===== *)
theory ConfigFile
  imports PyLib
begin

text \<open>
  Reading \<^verbatim>\<open>.ns3rc\<close> and the build status files, \<^verbatim>\<open>utils.py\<close>.  The file system is a map
  from paths to contents.  Python's \<open>eval\<close> of the right-hand side is the parameter \<open>ev\<close>.
\<close>

section \<open>The readers\<close>

definition uncomment :: "string \<Rightarrow> string" where
  "uncomment line = (if CHR ''#'' \<in> set line then takeWhile (\<lambda>c. c \<noteq> CHR ''#'') line else line)"

text \<open>\<open>eval(text.split('=', 1)[1].strip())\<close>.\<close>

definition eval_assignment :: "(string \<Rightarrow> 'v res) \<Rightarrow> string \<Rightarrow> 'v res" where
  "eval_assignment ev text = rbind (py_index (split_once (CHR ''='') text) 1) (\<lambda>rhs. ev (py_strip rhs))"

fun list_loop ::
  "(string \<Rightarrow> 'v list res) \<Rightarrow> string \<Rightarrow> string list \<Rightarrow> string \<Rightarrow> bool \<Rightarrow> 'v list res" where
  "list_loop ev list_name [] list_string parsing = Inr []"
| "list_loop ev list_name (line # ls) list_string parsing =
     (let line = uncomment line
      in if occurs list_name line \<or> parsing then
           (let list_string = list_string @ line
            in if CHR '']'' \<notin> set list_string then list_loop ev list_name ls list_string True
               else eval_assignment ev list_string)
         else list_loop ev list_name ls list_string parsing)"

definition get_list_from_file ::
  "(string \<rightharpoonup> string) \<Rightarrow> (string \<Rightarrow> 'v list res) \<Rightarrow> string \<Rightarrow> string \<Rightarrow> 'v list res" where
  "get_list_from_file fs ev file_path list_name =
     (case fs file_path of
        None \<Rightarrow> Inr []
      | Some text \<Rightarrow> list_loop ev list_name (file_lines text) '''' False)"

fun bool_loop :: "(string \<Rightarrow> 'b res) \<Rightarrow> string \<Rightarrow> string list \<Rightarrow> 'b option res" where
  "bool_loop ev bool_name [] = Inr None"
| "bool_loop ev bool_name (line # ls) =
     (let line = uncomment line
      in if occurs bool_name line then rbind (eval_assignment ev line) (\<lambda>b. Inr (Some b))
         else bool_loop ev bool_name ls)"

text \<open>The variable \<open>bool_found\<close> is only assigned when the file exists.\<close>

definition get_bool_from_file ::
  "(string \<rightharpoonup> string) \<Rightarrow> (string \<Rightarrow> 'b res) \<Rightarrow> string \<Rightarrow> string \<Rightarrow> 'b \<Rightarrow> 'b res" where
  "get_bool_from_file fs ev file_path bool_name value_if_missing =
     (case fs file_path of
        None \<Rightarrow> Inl UnboundLocalError
      | Some text \<Rightarrow>
          rbind (bool_loop ev bool_name (file_lines text))
            (\<lambda>found. case found of Some b \<Rightarrow> Inr b | None \<Rightarrow> Inr value_if_missing))"

definition read_config_file ::
  "(string \<rightharpoonup> string) \<Rightarrow> string \<Rightarrow> (string \<Rightarrow> string list res) \<Rightarrow> (string \<Rightarrow> bool res) \<Rightarrow>
     (bool \<times> string list \<times> bool \<times> bool) res" where
  "read_config_file fs home ev_list ev_bool =
     (let path = (if fs ''.ns3rc'' \<noteq> None then ''.ns3rc'' else home @ ''.ns3rc'')
      in if fs path = None then Inr (False, [''all_modules''], False, False)
         else
           rbind (get_list_from_file fs ev_list path ''modules_enabled'') (\<lambda>modules_enabled.
           rbind (get_bool_from_file fs ev_bool path ''examples_enabled'' False) (\<lambda>examples_enabled.
           rbind (get_bool_from_file fs ev_bool path ''tests_enabled'' False) (\<lambda>tests_enabled.
             Inr (True, if modules_enabled = [] then [''all_modules''] else modules_enabled,
                  examples_enabled, tests_enabled)))))"

section \<open>Lemmas\<close>

lemma uncomment_no_hash: "CHR ''#'' \<notin> set (uncomment line)"
  by (auto simp: uncomment_def dest: set_takeWhileD)

lemma list_loop_skip:
  "(\<forall>l \<in> set pre. \<not> occurs name (uncomment l)) \<Longrightarrow>
     list_loop ev name (pre @ rest) acc False = list_loop ev name rest acc False"
  by (induction pre) (simp_all add: Let_def)

lemma list_loop_body:
  "body \<noteq> [] \<Longrightarrow> CHR '']'' \<notin> set acc \<Longrightarrow> CHR '']'' \<notin> set (concat (map uncomment (butlast body))) \<Longrightarrow>
   CHR '']'' \<in> set (uncomment (last body)) \<Longrightarrow>
     list_loop ev name (body @ post) acc True = eval_assignment ev (acc @ concat (map uncomment body))"
proof (induction body arbitrary: acc)
  case (Cons l body)
  show ?case
  proof (cases "body = []")
    case True
    then show ?thesis using Cons.prems by (simp add: Let_def)
  next
    case False
    then show ?thesis using Cons.prems Cons.IH [of "acc @ uncomment l"] by (auto simp: Let_def)
  qed
qed simp

lemma list_loop_entered:
  "occurs name (uncomment l) \<Longrightarrow> list_loop ev name (l # ls) acc parsing = list_loop ev name (l # ls) acc True"
  by (simp add: Let_def)

lemma bool_loop_skip:
  "(\<forall>l \<in> set pre. \<not> occurs name (uncomment l)) \<Longrightarrow> bool_loop ev name (pre @ rest) = bool_loop ev name rest"
  by (induction pre) (simp_all add: Let_def)

lemma bool_loop_error: "bool_loop ev name ls = Inl e \<Longrightarrow> e = IndexError \<or> (\<exists>t. ev t = Inl e)"
proof (induction ls)
  case (Cons l ls)
  then show ?case
    by (auto simp: Let_def eval_assignment_def rbind_def py_index_def split: if_splits sum.splits)
qed simp

lemma list_loop_error: "list_loop ev name ls acc p = Inl e \<Longrightarrow> e = IndexError \<or> (\<exists>t. ev t = Inl e)"
proof (induction ls arbitrary: acc p)
  case (Cons l ls)
  then show ?case
    by (auto simp: Let_def eval_assignment_def rbind_def py_index_def split: if_splits sum.splits)
qed simp

section \<open>Properties\<close>

text \<open>An evaluator for the witnesses: it knows one list and one truth value.\<close>

definition demo_ev_list :: "string \<Rightarrow> string list res" where
  "demo_ev_list t = (if t = ''[core]'' then Inr [''core''] else Inl ValueError)"

definition demo_ev_bool :: "string \<Rightarrow> bool res" where
  "demo_ev_bool t = (if t = ''True'' then Inr True else Inl ValueError)"

definition demo_rc :: string where
  "demo_rc = ''# m'' @ [nl] @ ''modules_enabled = [core] # c'' @ [nl]"

text \<open>
  \<open>get_list_from_file\<close> evaluates the first assignment that mentions the name.  Let the lines
  of the file be \<open>pre @ body @ post\<close>, where no line of \<open>pre\<close> mentions the name outside a
  comment, the first line of \<open>body\<close> does, and the first closing bracket stands in its last
  line.  Then the value is that of \<open>body\<close> without its comments, after the first equals sign.\<close>
theorem get_list_first_assignment:
  assumes "fs path = Some text" "file_lines text = pre @ body @ post"
    and "\<forall>l \<in> set pre. \<not> occurs name (uncomment l)"
    and "body \<noteq> []" "occurs name (uncomment (hd body))"
    and "CHR '']'' \<notin> set (concat (map uncomment (butlast body)))" "CHR '']'' \<in> set (uncomment (last body))"
    and "concat (map uncomment body) = lhs @ CHR ''='' # rhs" "CHR ''='' \<notin> set lhs"
  shows "get_list_from_file fs ev path name = ev (py_strip rhs)"
proof -
  obtain l ls where b: "body = l # ls" using assms(4) by (cases body) auto
  have "get_list_from_file fs ev path name = list_loop ev name (body @ post) [] False"
    using assms(1-3) by (simp add: get_list_from_file_def list_loop_skip)
  also have "\<dots> = list_loop ev name (body @ post) [] True"
    using list_loop_entered [of name l ev "ls @ post" "[]" False] assms(5) b by simp
  also have "\<dots> = eval_assignment ev (lhs @ CHR ''='' # rhs)"
    using list_loop_body [OF assms(4) _ assms(6,7), of "[]" ev name post] assms(8) by simp
  also have "\<dots> = ev (py_strip rhs)"
    using assms(9) by (simp add: eval_assignment_def split_once_append py_index_def)
  finally show ?thesis .
qed

theorem get_list_first_assignment_witness:
  "get_list_from_file [''rc'' \<mapsto> demo_rc] demo_ev_list ''rc'' ''modules_enabled'' = Inr [''core'']"
proof -
  have "get_list_from_file [''rc'' \<mapsto> demo_rc] demo_ev_list ''rc'' ''modules_enabled'' = demo_ev_list (py_strip '' [core] '')"
    by (rule get_list_first_assignment [where pre = "[''# m'' @ [nl]]" and
          body = "[''modules_enabled = [core] # c'' @ [nl]]" and post = "[]" and lhs = "''modules_enabled ''"])
      (simp, code_simp, simp_all add: uncomment_def startswith_def)
  then show ?thesis by (simp add: demo_ev_list_def strip_by_def py3_space_def)
qed

text \<open>
  \<open>get_bool_from_file\<close> raises \<open>UnboundLocalError\<close> when the file does not exist, although
  its documentation promises \<open>value_if_missing\<close>; with an existing file that does not mention the
  variable it does return \<open>value_if_missing\<close>.\<close>
theorem get_bool_missing:
  "(fs path = None \<longrightarrow> get_bool_from_file fs ev path name v = Inl UnboundLocalError) \<and>
   (\<forall>text. fs path = Some text \<and> (\<forall>l \<in> set (file_lines text). \<not> occurs name (uncomment l)) \<longrightarrow>
      get_bool_from_file fs ev path name v = Inr v)"
  using bool_loop_skip [of _ name ev "[]"] by (auto simp: get_bool_from_file_def)

theorem get_bool_missing_witness:
  "get_bool_from_file Map.empty demo_ev_bool ''rc'' ''tests_enabled'' False = Inl UnboundLocalError \<and>
   get_bool_from_file [''rc'' \<mapsto> ''x'' @ [nl]] demo_ev_bool ''rc'' ''tests_enabled'' False = Inr False"
  using get_bool_missing [of Map.empty "''rc''" demo_ev_bool "''tests_enabled''" False]
    get_bool_missing [of "[''rc'' \<mapsto> ''x'' @ [nl]]" "''rc''" demo_ev_bool "''tests_enabled''" False]
  by (simp add: uncomment_def startswith_def)

text \<open>
  \<open>read_config_file\<close> never raises that error.  It returns, or it raises what the evaluation of
  a right-hand side raises, or \<open>IndexError\<close> for a line without an equals sign; the defaults are
  returned when neither file exists, and the list of modules it returns is never empty.\<close>
theorem read_config_file_result:
  assumes "\<And>t. ev_list t \<noteq> Inl UnboundLocalError" "\<And>t. ev_bool t \<noteq> Inl UnboundLocalError"
  shows "(case read_config_file fs home ev_list ev_bool of
      Inl e \<Rightarrow> e \<noteq> UnboundLocalError \<and> (e = IndexError \<or> (\<exists>t. ev_list t = Inl e \<or> ev_bool t = Inl e))
    | Inr (found, mods, ex, tests) \<Rightarrow>
        found = (fs ''.ns3rc'' \<noteq> None \<or> fs (home @ ''.ns3rc'') \<noteq> None) \<and> mods \<noteq> [] \<and>
        (\<not> found \<longrightarrow> mods = [''all_modules''] \<and> \<not> ex \<and> \<not> tests))"
proof -
  define path where "path = (if fs ''.ns3rc'' \<noteq> None then ''.ns3rc'' else home @ ''.ns3rc'')"
  show ?thesis
  proof (cases "fs path")
    case None
    then show ?thesis by (auto simp: read_config_file_def path_def Let_def split: if_splits)
  next
    case (Some contents)
    have l: "get_list_from_file fs ev_list path n = Inl e \<Longrightarrow> e = IndexError \<or> (\<exists>t. ev_list t = Inl e)" for n e
      using Some by (auto simp: get_list_from_file_def dest: list_loop_error)
    have b: "get_bool_from_file fs ev_bool path n v = Inl e \<Longrightarrow> e = IndexError \<or> (\<exists>t. ev_bool t = Inl e)" for n v e
      using Some by (auto simp: get_bool_from_file_def rbind_def split: sum.splits option.splits dest: bool_loop_error)
    have "fs ''.ns3rc'' \<noteq> None \<or> fs (home @ ''.ns3rc'') \<noteq> None"
      using Some by (auto simp: path_def split: if_splits)
    then show ?thesis unfolding read_config_file_def Let_def path_def [symmetric]
      using Some assms by (auto simp: rbind_def split: sum.splits dest!: l b)
  qed
qed

theorem read_config_file_result_witness:
  "read_config_file [''.ns3rc'' \<mapsto> demo_rc] ''/home/'' demo_ev_list demo_ev_bool = Inr (True, [''core''], False, False) \<and>
   [''core''] \<noteq> ([] :: string list)"
proof -
  have run: "read_config_file [''.ns3rc'' \<mapsto> demo_rc] ''/home/'' demo_ev_list demo_ev_bool = Inr (True, [''core''], False, False)"
    by code_simp
  have "demo_ev_list t \<noteq> Inl UnboundLocalError" "demo_ev_bool t \<noteq> Inl UnboundLocalError" for t
    by (simp_all add: demo_ev_list_def demo_ev_bool_def)
  from read_config_file_result [OF this, where fs = "[''.ns3rc'' \<mapsto> demo_rc]" and home = "''/home/''"] run show ?thesis by simp
qed

end
