(* ===== verification/TestPlan.thy ===== *)
theory TestPlan
  imports TestJobs ConfigFile
begin

text \<open>
  What \<^verbatim>\<open>test.py\<close> does before its worker threads have work: the environment
  (\<open>make_paths\<close>), the example lists (\<open>parse_examples_to_run_file\<close>), the selection of test
  suites, and the jobs that \<open>run_tests\<close> dispatches for suites, examples and Python examples.

  The record \<open>host\<close> holds what the script reads from the machine: the platform, the working
  directory, the files, the processes it runs, and Python's evaluation of the expressions it
  finds in files.
\<close>

section \<open>The host\<close>

record host =
  platform :: string
  getcwd :: string
  path_exists :: "string \<Rightarrow> bool"
  files :: "string \<rightharpoonup> string"
  popen :: "string \<Rightarrow> string \<Rightarrow> proc_result"
  eval_cpp :: "string \<Rightarrow> (string \<times> string \<times> string) list res"
  eval_py :: "string \<Rightarrow> (string \<times> string) list res"
  eval_names :: "string \<Rightarrow> string list res"
  eval_cond :: "string \<Rightarrow> bool res"
  sysconf_nprocessors :: "int option"
  cpu_count :: int

definition core_kinds :: "string list" where
  "core_kinds = [''core'', ''performance'', ''system'', ''unit'']"

definition core_valgrind_skip_tests :: "string list" where
  "core_valgrind_skip_tests =
     [''ns3-tcp-cwnd'', ''nsc-tcp-loss'', ''ns3-tcp-interoperability'', ''routing-click'',
      ''lte-rr-ff-mac-scheduler'', ''lte-tdmt-ff-mac-scheduler'', ''lte-fdmt-ff-mac-scheduler'',
      ''lte-pf-ff-mac-scheduler'', ''lte-tta-ff-mac-scheduler'', ''lte-fdbet-ff-mac-scheduler'',
      ''lte-ttbet-ff-mac-scheduler'', ''lte-fdtbfq-ff-mac-scheduler'',
      ''lte-tdtbfq-ff-mac-scheduler'', ''lte-pss-ff-mac-scheduler'']"

definition core_nsc_missing_skip_tests :: "string list" where
  "core_nsc_missing_skip_tests = [''ns3-tcp-cwnd'', ''nsc-tcp-loss'', ''ns3-tcp-interoperability'']"

section \<open>The environment of the tests\<close>

definition append_paths :: "string \<Rightarrow> string \<Rightarrow> bool \<Rightarrow> string list \<Rightarrow> (string \<times> string) list \<Rightarrow>
    (string \<times> string) list" where
  "append_paths var sep have_var paths env =
     (let env = (if have_var then env else AList.update var '''' env)
      in foldl (\<lambda>env path. AList.update var (the (map_of env var) @ sep @ path) env) env paths)"

definition make_paths :: "waf_config \<Rightarrow> string \<Rightarrow> (string \<times> string) list \<Rightarrow> (string \<times> string) list" where
  "make_paths conf plat environ =
     (let has = (\<lambda>key. map_of environ key \<noteq> None);
          pypath = path_join (path_join (NS3_BUILDDIR conf) ''bindings'') ''python'';
          env = AList.update ''PYTHONPATH'' pypath environ;
          env = (if \<not> has ''PYTHONPATH'' then AList.update ''PYTHONPATH'' pypath env
                 else AList.update ''PYTHONPATH'' (the (map_of env ''PYTHONPATH'') @ '':'' @ pypath) env)
      in if plat = ''darwin'' then
           append_paths ''DYLD_LIBRARY_PATH'' '':'' (has ''DYLD_LIBRARY_PATH'') (NS3_MODULE_PATH conf) env
         else if plat = ''win32'' then append_paths ''PATH'' '';'' (has ''PATH'') (NS3_MODULE_PATH conf) env
         else if plat = ''cygwin'' then append_paths ''PATH'' '':'' (has ''PATH'') (NS3_MODULE_PATH conf) env
         else append_paths ''LD_LIBRARY_PATH'' '':'' (has ''LD_LIBRARY_PATH'') (NS3_MODULE_PATH conf) env)"

section \<open>Names and commands\<close>

definition build_profile_suffix :: "waf_config \<Rightarrow> string" where
  "build_profile_suffix conf =
     (if BUILD_PROFILE conf = ''release'' then '''' else ''-'' @ BUILD_PROFILE conf)"

definition program_name :: "waf_config \<Rightarrow> string \<Rightarrow> string" where
  "program_name conf name = APPNAME conf @ VERSION conf @ ''-'' @ name @ build_profile_suffix conf"

definition exe_suffix :: "host \<Rightarrow> string" where
  "exe_suffix h = (if platform h = ''win32'' then ''.exe'' else '''')"

definition test_runner_name :: "host \<Rightarrow> waf_config \<Rightarrow> string" where
  "test_runner_name h conf =
     (let name = program_name conf ''test-runner'' @ exe_suffix h;
          name = (if path_exists h (path_join (path_join (NS3_BUILDDIR conf) ''utils'') name)
                  then name else ''test-runner'')
      in name @ exe_suffix h)"

definition waf_cmd :: "host \<Rightarrow> options \<Rightarrow> string" where
  "waf_cmd h opts =
     (let waf = (if platform h = ''win32'' then ''.'' @ [backslash] @ ''waf'' else ''./waf'')
      in if opt_kinds opts \<or> opt_list opts \<or> (opt_constrain opts \<noteq> '''' \<and> opt_constrain opts \<in> set core_kinds)
         then waf @ '' --target=test-runner''
         else if opt_example opts \<noteq> '''' then waf @ '' --target='' @ basename (opt_example opts)
         else waf)"

section \<open>The lists of examples\<close>

record example_lists =
  example_tests :: "(string \<times> string \<times> string \<times> string) list"
  example_names_original :: "string list"
  python_tests :: "(string \<times> string) list"

definition add_cpp_example ::
  "host \<Rightarrow> waf_config \<Rightarrow> string \<Rightarrow> string \<times> string \<times> string \<Rightarrow> example_lists \<Rightarrow> example_lists res" where
  "add_cpp_example h conf cpp_executable_dir entry exs =
     (let (example_name_original, do_run, do_valgrind_run) = entry;
          parts = split_once (CHR '' '') example_name_original;
          example_name = hd parts;
          example_arguments = (if length parts = 1 then '''' else parts ! 1);
          example_path = path_join cpp_executable_dir (program_name conf example_name);
          example_path = (if \<not> path_exists h example_path
                          then path_join cpp_executable_dir example_name else example_path);
          example_path = example_path @ exe_suffix h
      in rbind (relpath (getcwd h) cpp_executable_dir (NS3_BUILDDIR conf)) (\<lambda>rel.
           let example_name = path_join rel example_name
           in if path_exists h example_path then
                (let args = (if length parts \<noteq> 1 then '' '' @ example_arguments else '''')
                 in Inr (exs\<lparr>example_tests := example_tests exs @
                                 [(example_name @ args, example_path @ args, do_run, do_valgrind_run)],
                               example_names_original := example_names_original exs @
                                 [example_name_original]\<rparr>))
              else Inr exs))"

definition add_py_example ::
  "host \<Rightarrow> string \<Rightarrow> string \<times> string \<Rightarrow> example_lists \<Rightarrow> example_lists" where
  "add_py_example h python_script_dir entry exs =
     (let (example_name, do_run) = entry;
          parts = split_once (CHR '' '') example_name;
          example_path = path_join python_script_dir (hd parts)
      in if path_exists h example_path then
           exs\<lparr>python_tests := python_tests exs @
             [(example_path @ (if length parts \<noteq> 1 then '' '' @ parts ! 1 else ''''), do_run)]\<rparr>
         else exs)"

fun add_cpp_examples ::
  "host \<Rightarrow> waf_config \<Rightarrow> string \<Rightarrow> (string \<times> string \<times> string) list \<Rightarrow> example_lists \<Rightarrow> example_lists res" where
  "add_cpp_examples h conf dir [] exs = Inr exs"
| "add_cpp_examples h conf dir (e # es) exs =
     rbind (add_cpp_example h conf dir e exs) (add_cpp_examples h conf dir es)"

definition parse_examples_to_run_file ::
  "host \<Rightarrow> waf_config \<Rightarrow> string \<Rightarrow> string \<Rightarrow> string \<Rightarrow> example_lists \<Rightarrow> example_lists res" where
  "parse_examples_to_run_file h conf examples_to_run_path cpp_executable_dir python_script_dir exs =
     (if path_exists h examples_to_run_path then
        rbind (get_list_from_file (files h) (eval_cpp h) examples_to_run_path ''cpp_examples'') (\<lambda>cpp_examples.
        rbind (add_cpp_examples h conf cpp_executable_dir cpp_examples exs) (\<lambda>exs.
        rbind (get_list_from_file (files h) (eval_py h) examples_to_run_path ''python_examples'') (\<lambda>python_examples.
          Inr (foldl (\<lambda>exs e. add_py_example h python_script_dir e exs) exs python_examples))))
      else Inr exs)"

text \<open>The three loops over example directories, modules and contributed modules.\<close>

fun parse_directories :: "host \<Rightarrow> waf_config \<Rightarrow> string list \<Rightarrow> example_lists \<Rightarrow> example_lists res" where
  "parse_directories h conf [] exs = Inr exs"
| "parse_directories h conf (d # ds) exs =
     (let example_directory = path_join ''examples'' d
      in rbind (parse_examples_to_run_file h conf
                  (path_join example_directory ''examples-to-run.py'')
                  (path_join (NS3_BUILDDIR conf) example_directory) example_directory exs)
           (parse_directories h conf ds))"

fun parse_modules ::
  "host \<Rightarrow> waf_config \<Rightarrow> string \<Rightarrow> string list \<Rightarrow> example_lists \<Rightarrow> example_lists res" where
  "parse_modules h conf topdir [] exs = Inr exs"
| "parse_modules h conf topdir (m # ms) exs =
     (let module = drop (length ''ns3-'') m;
          module_directory = path_join topdir module;
          example_directory = path_join module_directory ''examples''
      in rbind (parse_examples_to_run_file h conf
                  (path_join (path_join module_directory ''test'') ''examples-to-run.py'')
                  (path_join (NS3_BUILDDIR conf) example_directory) example_directory exs)
           (parse_modules h conf topdir ms))"

definition collect_examples :: "host \<Rightarrow> waf_config \<Rightarrow> example_lists res" where
  "collect_examples h conf =
     rbind (parse_directories h conf (EXAMPLE_DIRECTORIES conf)
              \<lparr>example_tests = [], example_names_original = [], python_tests = []\<rparr>) (\<lambda>exs.
     rbind (parse_modules h conf ''src'' (NS3_ENABLED_MODULES conf) exs) (\<lambda>exs.
       parse_modules h conf ''contrib'' (NS3_ENABLED_CONTRIBUTED_MODULES conf) exs))"

definition runnable_dictionary :: "string list \<Rightarrow> (string \<times> string) list" where
  "runnable_dictionary programs = foldl (\<lambda>d p. AList.update (basename p) p d) [] programs"

section \<open>Which test suites to run\<close>

text \<open>Asking the test runner: output that does not decode raises when the script decodes it again.\<close>

definition ask_runner :: "host \<Rightarrow> waf_config \<Rightarrow> string \<Rightarrow> string res" where
  "ask_runner h conf args =
     rbind (run_job_synchronously conf (popen h)
              (path_join ''utils'' (test_runner_name h conf @ args)) (getcwd h) False False '''')
       (\<lambda>r. case p_stdout r of Text s \<Rightarrow> Inr s | Undecodable \<Rightarrow> Inl UnicodeDecodeError)"

fun remove_each :: "string list \<Rightarrow> string list \<Rightarrow> string list" where
  "remove_each [] suites = suites"
| "remove_each (p # ps) suites = remove_each ps (if p \<in> set suites then remove1 p suites else suites)"

definition select_suites :: "host \<Rightarrow> waf_config \<Rightarrow> options \<Rightarrow> (bool \<times> string list) res" where
  "select_suites h conf opts =
     (if opt_suite opts \<noteq> '''' then
        rbind (ask_runner h conf '' --print-test-name-list'') (\<lambda>suites.
          let suites_found = fnmatch_filter (split_on nl suites) (opt_suite opts)
          in if suites_found = [] then Inl (SystemExit 2)
             else Inr (length suites_found = 1, split_on nl (join_with [nl] suites_found)))
      else if opt_example opts = '''' \<and> opt_pyexample opts = '''' then
        rbind (ask_runner h conf
                 (if opt_constrain opts \<noteq> ''''
                  then '' --print-test-name-list --test-type='' @ opt_constrain opts
                  else '' --print-test-name-list''))
          (\<lambda>suites. Inr (False, split_on nl suites))
      else Inr (False, split_on nl ''''))"

definition suite_list :: "host \<Rightarrow> waf_config \<Rightarrow> options \<Rightarrow> string list res" where
  "suite_list h conf opts =
     rbind (select_suites h conf opts) (\<lambda>(single_suite, suites).
       if \<not> single_suite \<and> opt_constrain opts \<noteq> ''performance'' then
         rbind (ask_runner h conf '' --print-test-name-list --test-type=performance'')
           (\<lambda>performance_tests. Inr (remove_each (split_on nl performance_tests) suites))
       else Inr suites)"

section \<open>How many workers\<close>

definition processors :: "host \<Rightarrow> options \<Rightarrow> int res" where
  "processors h opts =
     rbind
       (if platform h \<noteq> ''win32'' then
          (case sysconf_nprocessors h of
             Some n \<Rightarrow> Inr n
           | None \<Rightarrow>
               (let r = popen h ''sysctl -n hw.ncpu'' (getcwd h)
                in case (p_stdout r, p_stderr r) of
                     (Text out, Text err) \<Rightarrow> if length err = 0 then py_int out else Inr 1
                   | _ \<Rightarrow> Inl UnicodeDecodeError))
        else Inr (cpu_count h))
       (\<lambda>n. Inr (if opt_process_limit opts \<noteq> 0
                 then (if n < opt_process_limit opts then n else opt_process_limit opts) else n))"

section \<open>The jobs\<close>

text \<open>\<open>set_is_skip(True)\<close> and \<open>set_skip_reason\<close> under a condition.\<close>

definition skip_if :: "bool \<Rightarrow> string \<Rightarrow> job \<Rightarrow> job" where
  "skip_if b reason job = (if b then job\<lparr>is_skip := True, skip_reason := reason\<rparr> else job)"

lemma skip_if_simps [simp]:
  "is_break (skip_if b r j) = is_break j" "is_example (skip_if b r j) = is_example j"
  "is_pyexample (skip_if b r j) = is_pyexample j" "display_name (skip_if b r j) = display_name j"
  "is_skip (skip_if b r j) \<longleftrightarrow> b \<or> is_skip j"
  by (simp_all add: skip_if_def)

definition suite_job :: "host \<Rightarrow> waf_config \<Rightarrow> options \<Rightarrow> string \<Rightarrow> string \<Rightarrow> job" where
  "suite_job h conf opts out_dir test =
     (let multiple = (if opt_multiple opts then '''' else '' --stop-on-failure'');
          fullness = (if opt_fullness opts \<noteq> ''''
                      then '' --fullness='' @ map upper_char (opt_fullness opts) else '' --fullness=QUICK'');
          job = Job\<lparr>is_example := False, is_pyexample := False, display_name := test,
                    tmp_file_name := path_join out_dir (test @ ''.xml''), cwd := getcwd h,
                    basedir := getcwd h, tempdir := out_dir,
                    shell_command := path_join ''utils''
                      (test_runner_name h conf @ '' --test-name='' @ test @ multiple @ fullness)\<rparr>;
          job = skip_if (opt_valgrind opts \<and> test \<in> set core_valgrind_skip_tests) ''crashes valgrind'' job
      in skip_if (\<not> NSC_ENABLED conf \<and> test \<in> set core_nsc_missing_skip_tests) ''requires NSC'' job)"

definition suite_jobs :: "host \<Rightarrow> waf_config \<Rightarrow> options \<Rightarrow> string \<Rightarrow> string list \<Rightarrow> job list" where
  "suite_jobs h conf opts out_dir suites =
     map (suite_job h conf opts out_dir) (filter (\<lambda>t. 0 < length t) (map py_strip suites))"

definition example_job :: "host \<Rightarrow> options \<Rightarrow> string \<Rightarrow> string \<Rightarrow> string \<Rightarrow> job" where
  "example_job h opts out_dir name command =
     Job\<lparr>is_example := True, is_pyexample := False, display_name := name, tmp_file_name := '''',
         cwd := out_dir, basedir := getcwd h, tempdir := out_dir, shell_command := command,
         build_path := opt_buildpath opts\<rparr>"

definition listed_name :: "host \<Rightarrow> string \<Rightarrow> string" where
  "listed_name h test =
     (let test_name = basename (hd (split_once (CHR '' '') test))
      in if platform h = ''win32'' then slice_to test_name (- 4) else test_name)"

definition listed_example ::
  "host \<Rightarrow> options \<Rightarrow> string \<Rightarrow> (string \<times> string) list \<Rightarrow> string \<times> string \<times> string \<times> string \<Rightarrow>
     job list res" where
  "listed_example h opts out_dir programs entry =
     (case entry of (name, test, do_run, do_valgrind_run) \<Rightarrow>
        if listed_name h test \<in> set (keys programs) then
          rbind (eval_cond h do_run) (\<lambda>run.
            if run then
              rbind (if opt_valgrind opts then rbind (eval_cond h do_valgrind_run) (\<lambda>b. Inr (\<not> b))
                     else Inr False) (\<lambda>skip.
                Inr [skip_if skip ''skip in valgrind runs'' (example_job h opts out_dir name test)])
            else Inr [])
        else Inr [])"

definition listed_example_jobs ::
  "host \<Rightarrow> options \<Rightarrow> string \<Rightarrow> (string \<times> string) list \<Rightarrow> (string \<times> string \<times> string \<times> string) list \<Rightarrow>
     job list res" where
  "listed_example_jobs h opts out_dir programs tests =
     rbind (rmap (listed_example h opts out_dir programs) tests) (\<lambda>jss. Inr (concat jss))"

definition example_jobs ::
  "host \<Rightarrow> waf_config \<Rightarrow> options \<Rightarrow> string \<Rightarrow> (string \<times> string) list \<Rightarrow> example_lists \<Rightarrow> job list res" where
  "example_jobs h conf opts out_dir programs exs =
     (if opt_suite opts = '''' \<and> opt_example opts = '''' \<and> opt_pyexample opts = '''' then
        (if (opt_constrain opts = '''' \<or> opt_constrain opts = ''example'') \<and> ENABLE_EXAMPLES conf
         then listed_example_jobs h opts out_dir programs (example_tests exs) else Inr [])
      else if opt_example opts \<noteq> '''' then
        (let example_name_key_list = fnmatch_filter (keys programs) (program_name conf (opt_example opts))
         in Inr (map (\<lambda>k. let example_path = abspath (getcwd h) (the (map_of programs k))
                          in example_job h opts out_dir example_path example_path)
                   example_name_key_list))
      else Inr [])"

definition pyexample_job :: "host \<Rightarrow> string \<Rightarrow> string \<Rightarrow> job" where
  "pyexample_job h out_dir test =
     Job\<lparr>is_example := False, is_pyexample := True, display_name := test, tmp_file_name := '''',
         cwd := out_dir, basedir := getcwd h, tempdir := out_dir, shell_command := test,
         build_path := ''''\<rparr>"

definition listed_pyexample ::
  "host \<Rightarrow> waf_config \<Rightarrow> options \<Rightarrow> string \<Rightarrow> string list \<Rightarrow> string \<times> string \<Rightarrow> job list res" where
  "listed_pyexample h conf opts out_dir scripts entry =
     (case entry of (test, do_run) \<Rightarrow>
        if basename (hd (split_once (CHR '' '') test)) \<in> set scripts then
          rbind (eval_cond h do_run) (\<lambda>run.
            if run then
              Inr [skip_if (\<not> ENABLE_PYTHON_BINDINGS conf) ''requires Python bindings''
                    (skip_if (opt_valgrind opts) ''skip in valgrind runs'' (pyexample_job h out_dir test))]
            else Inr [])
        else Inr [])"

definition listed_pyexample_jobs ::
  "host \<Rightarrow> waf_config \<Rightarrow> options \<Rightarrow> string \<Rightarrow> string list \<Rightarrow> (string \<times> string) list \<Rightarrow> job list res" where
  "listed_pyexample_jobs h conf opts out_dir scripts tests =
     rbind (rmap (listed_pyexample h conf opts out_dir scripts) tests) (\<lambda>jss. Inr (concat jss))"

definition pyexample_jobs ::
  "host \<Rightarrow> waf_config \<Rightarrow> options \<Rightarrow> string \<Rightarrow> string list \<Rightarrow> example_lists \<Rightarrow> job list res" where
  "pyexample_jobs h conf opts out_dir scripts exs =
     (if opt_suite opts = '''' \<and> opt_example opts = '''' \<and> opt_pyexample opts = '''' then
        (if (opt_constrain opts = '''' \<or> opt_constrain opts = ''pyexample'') \<and> ENABLE_EXAMPLES conf
         then listed_pyexample_jobs h conf opts out_dir scripts (python_tests exs) else Inr [])
      else if opt_pyexample opts \<noteq> '''' then
        (if basename (opt_pyexample opts) \<notin> set scripts then Inr []
         else Inr [pyexample_job h out_dir (opt_pyexample opts)])
      else Inr [])"

section \<open>run\_tests up to the worker threads\<close>

datatype plan = ReturnNow "int option" | RunJobs int "job list"

definition run_tests_plan :: "host \<Rightarrow> waf_config \<Rightarrow> options \<Rightarrow> string \<Rightarrow> plan res" where
  "run_tests_plan h conf opts date_and_time =
     (let waf_rc = (if opt_nowaf opts then 0 else p_returncode (popen h (waf_cmd h opts) (getcwd h)))
      in if waf_rc \<noteq> 0 then Inr (ReturnNow (Some waf_rc))
         else
           (let build_status_file = path_join (NS3_BUILDDIR conf) ''build-status.py''
            in if \<not> path_exists h build_status_file then Inl (SystemExit 2)
               else
                 rbind (get_list_from_file (files h) (eval_names h) build_status_file ''ns3_runnable_programs'') (\<lambda>programs.
                 rbind (get_list_from_file (files h) (eval_names h) build_status_file ''ns3_runnable_scripts'') (\<lambda>scripts.
                 rbind (collect_examples h conf) (\<lambda>exs.
                   if opt_kinds opts \<or> opt_list opts then Inr (ReturnNow None)
                   else
                     (let out_dir = path_join ''testpy-output'' date_and_time;
                          dictionary = runnable_dictionary programs
                      in rbind (suite_list h conf opts) (\<lambda>suites.
                         rbind (processors h opts) (\<lambda>n.
                         rbind (example_jobs h conf opts out_dir dictionary exs) (\<lambda>examples.
                         rbind (pyexample_jobs h conf opts out_dir scripts exs) (\<lambda>pyexamples.
                           Inr (RunJobs n (suite_jobs h conf opts out_dir suites @ examples @ pyexamples))))))))))))"

section \<open>Lemmas about the plan\<close>

lemma run_tests_planE:
  assumes "run_tests_plan h conf opts d = Inr (RunJobs n js)"
  obtains programs scripts exs suites examples pyexamples where
    "suite_list h conf opts = Inr suites" "processors h opts = Inr n"
    "example_jobs h conf opts (path_join ''testpy-output'' d) programs exs = Inr examples"
    "pyexample_jobs h conf opts (path_join ''testpy-output'' d) scripts exs = Inr pyexamples"
    "js = suite_jobs h conf opts (path_join ''testpy-output'' d) suites @ examples @ pyexamples"
  using assms unfolding run_tests_plan_def Let_def
  by (simp add: rbind_eq_Inr split: if_splits) metis+

lemma suite_job_kind [simp]:
  "is_break (suite_job h conf opts o_dir t) = False" "is_example (suite_job h conf opts o_dir t) = False"
  "is_pyexample (suite_job h conf opts o_dir t) = False" "display_name (suite_job h conf opts o_dir t) = t"
  by (simp_all add: suite_job_def Job_def Let_def)

lemma example_job_kind [simp]:
  "is_break (example_job h opts o_dir n t) = False" "is_example (example_job h opts o_dir n t)"
  "is_pyexample (example_job h opts o_dir n t) = False"
  by (simp_all add: example_job_def Job_def)

lemma pyexample_job_kind [simp]:
  "is_break (pyexample_job h o_dir t) = False" "is_example (pyexample_job h o_dir t) = False"
  "is_pyexample (pyexample_job h o_dir t)" "is_skip (pyexample_job h o_dir t) = False"
  by (simp_all add: pyexample_job_def Job_def)

lemma suite_jobs_kind: "j \<in> set (suite_jobs h conf opts o_dir ss) \<Longrightarrow> \<not> is_break j \<and> \<not> is_example j \<and> \<not> is_pyexample j"
  by (auto simp: suite_jobs_def)

lemma listed_example_jobs_kind:
  "listed_example_jobs h opts o_dir ps ts = Inr js \<Longrightarrow> j \<in> set js \<Longrightarrow> \<not> is_break j \<and> is_example j"
proof -
  have one: "listed_example h opts o_dir ps e = Inr js \<Longrightarrow> j \<in> set js \<Longrightarrow> \<not> is_break j \<and> is_example j" for e js j
    by (cases e) (auto simp: listed_example_def rbind_eq_Inr split: if_split_asm)
  assume "listed_example_jobs h opts o_dir ps ts = Inr js" "j \<in> set js"
  then obtain jss ks where "rmap (listed_example h opts o_dir ps) ts = Inr jss" "ks \<in> set jss" and j: "j \<in> set ks"
    by (auto simp: listed_example_jobs_def rbind_eq_Inr)
  from rmap_Inr_source [OF this(1,2)] obtain e where "listed_example h opts o_dir ps e = Inr ks" ..
  from one [OF this j] show ?thesis .
qed

lemma listed_pyexample_jobs_kind:
  "listed_pyexample_jobs h conf opts o_dir ss ts = Inr js \<Longrightarrow> j \<in> set js \<Longrightarrow>
     \<not> is_break j \<and> is_pyexample j \<and> (opt_valgrind opts \<or> \<not> ENABLE_PYTHON_BINDINGS conf \<longrightarrow> is_skip j)"
proof -
  have one: "listed_pyexample h conf opts o_dir ss e = Inr js \<Longrightarrow> j \<in> set js \<Longrightarrow>
      \<not> is_break j \<and> is_pyexample j \<and> (opt_valgrind opts \<or> \<not> ENABLE_PYTHON_BINDINGS conf \<longrightarrow> is_skip j)" for e js j
    by (cases e) (auto simp: listed_pyexample_def rbind_eq_Inr split: if_split_asm)
  assume "listed_pyexample_jobs h conf opts o_dir ss ts = Inr js" "j \<in> set js"
  then obtain jss ks where "rmap (listed_pyexample h conf opts o_dir ss) ts = Inr jss" "ks \<in> set jss" and j: "j \<in> set ks"
    by (auto simp: listed_pyexample_jobs_def rbind_eq_Inr)
  from rmap_Inr_source [OF this(1,2)] obtain e where "listed_pyexample h conf opts o_dir ss e = Inr ks" ..
  from one [OF this j] show ?thesis .
qed

lemma example_jobs_kind:
  "example_jobs h conf opts o_dir ps exs = Inr js \<Longrightarrow> j \<in> set js \<Longrightarrow> \<not> is_break j \<and> is_example j"
  by (auto simp: example_jobs_def Let_def split: if_splits dest: listed_example_jobs_kind)

lemma pyexample_jobs_kind:
  "pyexample_jobs h conf opts o_dir ss exs = Inr js \<Longrightarrow> j \<in> set js \<Longrightarrow> \<not> is_break j \<and> is_pyexample j"
  by (auto simp: pyexample_jobs_def split: if_splits dest: listed_pyexample_jobs_kind)

lemma plan_not_break:
  assumes "run_tests_plan h conf opts d = Inr (RunJobs n js)"
  shows "\<forall>j \<in> set js. \<not> is_break j"
  using assms
proof (cases rule: run_tests_planE)
  case (1 programs scripts exs suites examples pyexamples)
  then show ?thesis
    using suite_jobs_kind example_jobs_kind [OF 1(3)] pyexample_jobs_kind [OF 1(4)] by (metis Un_iff set_append)
qed

lemma set_remove_each: "set (remove_each ps ss) \<subseteq> set ss"
proof (induction ps arbitrary: ss)
  case (Cons p ps)
  then show ?case using set_remove1_subset [of p ss] by (cases "p \<in> set ss") auto
qed simp

lemma remove_each_distinct: "distinct ss \<Longrightarrow> remove_each ps ss = filter (\<lambda>s. s \<notin> set ps) ss"
proof (induction ps arbitrary: ss)
  case (Cons p ps)
  have "(if p \<in> set ss then remove1 p ss else ss) = filter (\<lambda>s. s \<noteq> p) ss"
  proof (cases "p \<in> set ss")
    case True
    have "filter (\<lambda>s. s \<noteq> p) ss = removeAll p ss" by (simp add: removeAll_filter_not_eq) (metis (mono_tags))
    then show ?thesis using True Cons.prems by (simp add: distinct_remove1_removeAll)
  next
    case False
    then have "filter (\<lambda>s. s \<noteq> p) ss = ss" by (intro filter_True) auto
    then show ?thesis using False by simp
  qed
  then show ?case using Cons.IH [of "filter (\<lambda>s. s \<noteq> p) ss"] Cons.prems by (simp add: conj_commute)
qed simp

lemma fnmatch_lines_plain: "w \<in> set (fnmatch_filter (split_on nl t) p) \<Longrightarrow> nl \<notin> set w"
  by (auto simp: fnmatch_filter_def dest: split_on_parts)

lemma append_paths_value:
  "map_of (append_paths v sep has ps env) v =
     (if has \<and> ps = [] then map_of env v
      else Some ((if has then the (map_of env v) else '''') @ concat (map (\<lambda>p. sep @ p) ps)))"
proof -
  have "map_of (foldl (\<lambda>env path. AList.update v (the (map_of env v) @ sep @ path) env) e ps) v =
      (if ps = [] then map_of e v else Some (the (map_of e v) @ concat (map (\<lambda>p. sep @ p) ps)))" for e
    by (induction ps arbitrary: e) auto
  then show ?thesis by (simp add: append_paths_def Let_def)
qed

lemma append_paths_other: "k \<noteq> v \<Longrightarrow> map_of (append_paths v sep has ps env) k = map_of env k"
proof -
  assume k: "k \<noteq> v"
  have "map_of (foldl (\<lambda>env path. AList.update v (the (map_of env v) @ sep @ path) env) e ps) k = map_of e k" for e
    by (induction ps arbitrary: e) (use k in auto)
  then show ?thesis using k by (simp add: append_paths_def Let_def)
qed

section \<open>Properties\<close>

text \<open>A host for the witnesses: a test runner that knows two suites, one a performance test.\<close>

definition demo_host :: host where
  "demo_host = \<lparr>platform = ''linux'', getcwd = ''/ns3'',
     path_exists = (\<lambda>p. p = ''/ns3/build/build-status.py''),
     files = Map.empty,
     popen = (\<lambda>cmd d. \<lparr>p_returncode = 0, p_stdout = Text
       (if endswith cmd ''performance'' then ''b'' else ''a'' @ [nl] @ ''b''), p_stderr = Text [], p_elapsed = 0\<rparr>),
     eval_cpp = (\<lambda>t. Inr []), eval_py = (\<lambda>t. Inr []), eval_names = (\<lambda>t. Inr []), eval_cond = (\<lambda>t. Inr True),
     sysconf_nprocessors = Some 1, cpu_count = 1\<rparr>"

definition demo_opts :: options where
  "demo_opts = default_options\<lparr>opt_suite := ''?'', opt_nowaf := True\<rparr>"

definition demo_suite_events :: "event list" where
  "demo_suite_events = replicate 4 Main @ replicate 4 (Worker 0 (Some (fst demo_out, Some ''<Test/>''))) @ replicate 2 Main @
     replicate 2 (Worker 0 (Some demo_out)) @ replicate 2 Main"

lemma demo_suite_run:
  "\<exists>s. run_steps (sys_step demo_conf demo_opts True) demo_suite_events
      (start_sys (nat 1) [suite_job demo_host demo_conf demo_opts ''testpy-output/d'' ''a'']) = Some s \<and>
     main_thread s = Done 0"
proof -
  let ?j = "suite_job demo_host demo_conf demo_opts ''testpy-output/d'' ''a''"
  have "is_skip ?j = False" by code_simp
  then show ?thesis
    by (simp add: demo_suite_events_def run_eval suite_xml_def tally_def job_status_def exit_code_def start_report_def)
qed

lemma demo_suites: "suite_list demo_host demo_conf demo_opts = Inr [''a'']"
  by code_simp

lemma demo_plan:
  "run_tests_plan demo_host demo_conf demo_opts ''d'' =
     Inr (RunJobs 1 [suite_job demo_host demo_conf demo_opts ''testpy-output/d'' ''a''])"
  by code_simp

text \<open>
  The options decide which kinds of job are dispatched.  With only a suite named, every job is
  a test suite; with only an example or Python example named, no job is a test suite, and it is
  an example only if one was named.\<close>
theorem plan_selection:
  assumes "run_tests_plan h conf opts d = Inr (RunJobs n js)"
  shows "(opt_suite opts \<noteq> '''' \<and> opt_example opts = '''' \<and> opt_pyexample opts = '''' \<longrightarrow>
           (\<forall>j \<in> set js. \<not> is_example j \<and> \<not> is_pyexample j)) \<and>
         (opt_suite opts = '''' \<and> opt_example opts \<noteq> '''' \<and> opt_pyexample opts = '''' \<longrightarrow>
           (\<forall>j \<in> set js. is_example j)) \<and>
         (opt_suite opts = '''' \<and> opt_example opts = '''' \<and> opt_pyexample opts \<noteq> '''' \<longrightarrow>
           (\<forall>j \<in> set js. is_pyexample j))"
  using assms
proof (cases rule: run_tests_planE)
  case (1 programs scripts exs suites examples pyexamples)
  have none: "suite_jobs h conf opts (path_join ''testpy-output'' d) suites = []"
    if "opt_suite opts = ''''" "opt_example opts \<noteq> '''' \<or> opt_pyexample opts \<noteq> ''''"
  proof -
    from 1(1) that have "set suites \<subseteq> {''''}"
      using set_remove_each [of _ "[[]]"]
      by (fastforce simp: suite_list_def select_suites_def rbind_eq_Inr split: if_splits)
    then show ?thesis by (auto simp: suite_jobs_def filter_empty_conv strip_by_def)
  qed
  have "examples = []" if "opt_example opts = ''''" "opt_suite opts \<noteq> '''' \<or> opt_pyexample opts \<noteq> ''''"
    using 1(3) that by (auto simp: example_jobs_def)
  moreover have "pyexamples = []" if "opt_pyexample opts = ''''" "opt_suite opts \<noteq> '''' \<or> opt_example opts \<noteq> ''''"
    using 1(4) that by (auto simp: pyexample_jobs_def)
  ultimately show ?thesis
    using 1(5) none suite_jobs_kind example_jobs_kind [OF 1(3)] pyexample_jobs_kind [OF 1(4)] by auto
qed

theorem plan_selection_witness:
  "\<exists>j. run_tests_plan demo_host demo_conf demo_opts ''d'' = Inr (RunJobs 1 [j]) \<and> \<not> is_example j \<and> \<not> is_pyexample j"
  using plan_selection [OF demo_plan] demo_plan by (simp add: demo_opts_def default_options_def)

text \<open>
  \<open>--suite\<close> selects the suites the test runner lists whose names match the pattern.  One match
  is run even if it is a performance test; of several, the performance tests are left out, unless
  the run is constrained to performance tests; no match ends the script with status 2.\<close>
theorem suite_option_selects:
  assumes "opt_suite opts \<noteq> ''''"
    and "ask_runner h conf '' --print-test-name-list'' = Inr listing" "distinct (split_on nl listing)"
    and "ask_runner h conf '' --print-test-name-list --test-type=performance'' = Inr perf"
  shows "suite_list h conf opts =
    (let found = filter (glob_match (parse_glob (opt_suite opts))) (split_on nl listing)
     in if found = [] then Inl (SystemExit 2)
        else if length found = 1 \<or> opt_constrain opts = ''performance'' then Inr found
        else Inr (filter (\<lambda>t. t \<notin> set (split_on nl perf)) found))"
proof (cases "fnmatch_filter (split_on nl listing) (opt_suite opts) = []")
  case True
  then show ?thesis using assms by (simp add: suite_list_def select_suites_def fnmatch_filter_def)
next
  case False
  let ?found = "fnmatch_filter (split_on nl listing) (opt_suite opts)"
  have "split_on nl (join_with [nl] ?found) = ?found"
    using False by (intro split_join_on) (auto dest: fnmatch_lines_plain)
  moreover have "distinct ?found" using assms(3) by (simp add: fnmatch_filter_def)
  ultimately show ?thesis using assms False
    by (simp add: suite_list_def select_suites_def remove_each_distinct Let_def fnmatch_filter_def)
qed

theorem suite_option_selects_witness: "suite_list demo_host demo_conf demo_opts = Inr [''a'']"
proof -
  have ask: "ask_runner demo_host demo_conf '' --print-test-name-list'' = Inr (''a'' @ [nl] @ ''b'')"
    "ask_runner demo_host demo_conf '' --print-test-name-list --test-type=performance'' = Inr ''b''"
    by code_simp+
  have "opt_suite demo_opts \<noteq> ''''" "distinct (split_on nl (''a'' @ [nl] @ ''b''))" by code_simp+
  from suite_option_selects [OF this(1) ask(1) this(2) ask(2)] show ?thesis
    by (simp add: demo_opts_def default_options_def Let_def)
qed

text \<open>
  \<open>make_paths\<close> adds the module paths to the library search path of the platform (here on Linux),
  leaves every other variable alone, and discards the user's \<open>PYTHONPATH\<close>: the new value is the
  bindings directory, written twice when the variable was set before.\<close>
theorem make_paths_result:
  assumes "plat \<notin> {''darwin'', ''win32'', ''cygwin''}"
  shows "(let env = make_paths conf plat environ;
              py = path_join (path_join (NS3_BUILDDIR conf) ''bindings'') ''python''
          in map_of env ''PYTHONPATH'' =
               Some (if map_of environ ''PYTHONPATH'' = None then py else py @ '':'' @ py) \<and>
             map_of env ''LD_LIBRARY_PATH'' =
               Some ((case map_of environ ''LD_LIBRARY_PATH'' of None \<Rightarrow> '''' | Some v \<Rightarrow> v) @
                     concat (map (\<lambda>p. '':'' @ p) (NS3_MODULE_PATH conf))) \<and>
             (\<forall>k. k \<noteq> ''PYTHONPATH'' \<and> k \<noteq> ''LD_LIBRARY_PATH'' \<longrightarrow> map_of env k = map_of environ k))"
  using assms by (auto simp: make_paths_def Let_def append_paths_value append_paths_other)

theorem make_paths_result_witness:
  "map_of (make_paths demo_conf ''linux'' [(''PYTHONPATH'', ''mine'')]) ''PYTHONPATH'' =
     Some ''/ns3/build/bindings/python:/ns3/build/bindings/python''"
  using make_paths_result [of "''linux''" demo_conf "[(''PYTHONPATH'', ''mine'')]"]
  by (simp add: Let_def demo_conf_def path_join_def)

text \<open>
  C15: a return value of 0 means what the user takes it for.  Whatever the interleaving, if
  \<open>run_tests\<close> returns 0 then for every selected test suite a job of that name was collected, and
  its process returned 0 or the suite was marked to be skipped.\<close>
theorem success_means_suites_ok:
  assumes "run_tests_plan h conf opts d = Inr (RunJobs n js)" "0 < n"
    and "run_steps (sys_step conf opts use) es (start_sys (nat n) js) = Some s" "main_thread s = Done 0"
    and "suite_list h conf opts = Inr suites" "t \<in> set suites" "py_strip t \<noteq> ''''"
  shows "\<exists>j \<in> set (collected s). display_name j = py_strip t \<and> \<not> is_break j \<and>
    (returncode j = 0 \<or> is_skip j)"
proof -
  have nb: "\<forall>j \<in> set js. \<not> is_break j" by (rule plan_not_break [OF assms(1)])
  have n: "0 < nat n" using assms(2) by simp
  obtain j0 where j0: "j0 \<in> set js" "display_name j0 = py_strip t"
    using assms(1)
  proof (cases rule: run_tests_planE)
    case (1 programs scripts exs suites' examples pyexamples)
    then have "suite_job h conf opts (path_join ''testpy-output'' d) (py_strip t) \<in> set js"
      using assms(5,6,7) by (auto simp: suite_jobs_def)
    then show ?thesis using that by (metis suite_job_kind(4))
  qed
  have "mset (map job_key (collected s)) = mset (map job_key js)"
    using done_collected [OF n nb assms(3,4)] by blast
  then have "job_key j0 \<in> job_key ` set (collected s)" using j0(1) by (metis image_eqI set_map mset_eq_setD)
  then obtain j where j: "j \<in> set (collected s)" "job_key j = job_key j0" by auto
  have "\<forall>j \<in> set (collected s). \<not> is_break j \<and> job_status j \<in> {PASS, SKIP}"
    using done_exit_code [OF n nb assms(3,4)] by (metis zero_neq_one)
  with j have "\<not> is_break j" "job_status j = PASS \<or> job_status j = SKIP" by auto
  then have "returncode j = 0 \<or> is_skip j" by (auto simp: job_status_def split: if_splits)
  moreover have "display_name j = py_strip t" using j(2) j0(2) by (metis job_key_simps(3))
  ultimately show ?thesis using j(1) \<open>\<not> is_break j\<close> by blast
qed

theorem success_means_suites_ok_witness:
  "\<exists>s. run_steps (sys_step demo_conf demo_opts True) (demo_suite_events)
      (start_sys (nat 1) [suite_job demo_host demo_conf demo_opts ''testpy-output/d'' ''a'']) = Some s \<and>
     (\<exists>j. j \<in> set (collected s) \<and> display_name j = ''a'' \<and> (returncode j = 0 \<or> is_skip j))"
proof -
  obtain s where s: "run_steps (sys_step demo_conf demo_opts True) demo_suite_events
      (start_sys (nat 1) [suite_job demo_host demo_conf demo_opts ''testpy-output/d'' ''a'']) = Some s"
    "main_thread s = Done 0" using demo_suite_run by blast
  have strip: "py_strip ''a'' = ''a''" by code_simp
  from success_means_suites_ok [OF demo_plan _ s demo_suites, of "''a''"] s(1) strip show ?thesis by auto
qed

end
