(* ===== verification/TestReport.thy ===== *)
theory TestReport
  imports PyLib
begin

text \<open>
  The reports of \<^verbatim>\<open>test.py\<close>: \<open>read_test\<close>, \<open>node_to_text\<close>, \<open>translate_to_text\<close> and
  \<open>translate_to_html\<close>.  The input is the element tree that \<open>ET.parse\<close> builds from
  \<^verbatim>\<open>results.xml\<close>; the output is the sequence of the strings written to the file.  A
  missing child element is \<open>None\<close>, on which \<open>.text\<close> raises \<open>AttributeError\<close>; a missing
  text or attribute is \<open>None\<close>, which \<open>%s\<close> prints as such.
\<close>

section \<open>Element trees\<close>

datatype xml = Elem (x_tag: string) (x_attrib: "(string \<times> string) list")
  (x_text: "string option") (x_children: "xml list")

definition find_all :: "string \<Rightarrow> xml \<Rightarrow> xml list" where
  "find_all t e = filter (\<lambda>c. x_tag c = t) (x_children e)"

definition find_child :: "string \<Rightarrow> xml \<Rightarrow> xml option" where
  "find_child t e = (case find_all t e of [] \<Rightarrow> None | c # cs \<Rightarrow> Some c)"

definition child_text :: "xml \<Rightarrow> string \<Rightarrow> string option res" where
  "child_text e t = (case find_child t e of None \<Rightarrow> Inl AttributeError | Some c \<Rightarrow> Inr (x_text c))"

fun show_opt :: "string option \<Rightarrow> string" where
  "show_opt None = ''None''"
| "show_opt (Some s) = s"

lemma find_all_size: "c \<in> set (find_all t e) \<Longrightarrow> size c < size e"
proof -
  assume "c \<in> set (find_all t e)"
  then have "c \<in> set (x_children e)" by (simp add: find_all_def)
  then show ?thesis by (cases e) (auto dest: size_list_estimation' [where f = size, OF _ le_refl])
qed

section \<open>The text report\<close>

record test_info =
  t_result :: "string option"
  t_name :: "string option"
  t_reason :: "string option"
  t_time :: "string option"

definition read_test :: "xml \<Rightarrow> test_info res" where
  "read_test test =
     rbind (child_text test ''Result'') (\<lambda>result.
     rbind (child_text test ''Name'') (\<lambda>name.
       let reason = (case find_child ''Reason'' test of None \<Rightarrow> Some '''' | Some c \<Rightarrow> x_text c);
           time_real = (case find_child ''Time'' test of None \<Rightarrow> Some ''''
                        | Some c \<Rightarrow> map_of (x_attrib c) ''real'')
       in Inr \<lparr>t_result = result, t_name = name, t_reason = reason, t_time = time_real\<rparr>))"

definition detail_lines :: "xml \<Rightarrow> string res" where
  "detail_lines details =
     rbind (rmap (\<lambda>(label, field). rbind (child_text details field)
                    (\<lambda>v. Inr (label @ show_opt v @ [nl])))
              [(''      Message:   '', ''Message''), (''      Condition: '', ''Condition''),
               (''      Actual:    '', ''Actual''), (''      Limit:     '', ''Limit''),
               (''      File:      '', ''File''), (''      Line:      '', ''Line'')])
       (\<lambda>ls. Inr (''    Details:'' @ [nl] @ concat ls))"

definition status_line :: "test_info \<Rightarrow> string \<Rightarrow> string" where
  "status_line i test_type =
     (let reason = (if t_reason i = None \<or> t_reason i = Some '''' then show_opt (t_reason i)
                    else '' ('' @ show_opt (t_reason i) @ '')'')
      in show_opt (t_result i) @ '': Test '' @ test_type @ '' '' @ [dquote] @ show_opt (t_name i) @
         [dquote] @ '' ('' @ show_opt (t_time i) @ '')'' @ reason @ [nl])"

function node_to_text :: "xml \<Rightarrow> string \<Rightarrow> string res" where
  "node_to_text test test_type =
     rbind (read_test test) (\<lambda>i.
     rbind (rmap detail_lines (find_all ''FailureDetails'' test)) (\<lambda>details.
     rbind (rmap (\<lambda>child. node_to_text child ''Case'') (find_all ''Test'' test)) (\<lambda>children.
       Inr (status_line i test_type @ concat details @ concat children))))"
  by pat_completeness auto
termination
  by (relation "measure (\<lambda>(t, ty). size t)") (auto dest: find_all_size)

declare node_to_text.simps [simp del]

definition example_line :: "xml \<Rightarrow> string res" where
  "example_line example =
     rbind (child_text example ''Result'') (\<lambda>result.
     rbind (child_text example ''Name'') (\<lambda>name.
       let time_real = (case find_child ''Time'' example of None \<Rightarrow> Some ''''
                        | Some c \<Rightarrow> map_of (x_attrib c) ''real'')
       in Inr (show_opt result @ '': Example '' @ [dquote] @ show_opt name @ [dquote] @
               '' ('' @ show_opt time_real @ '')'' @ [nl])))"

definition translate_to_text :: "xml \<Rightarrow> string res" where
  "translate_to_text et =
     rbind (rmap (\<lambda>test. node_to_text test ''Suite'') (find_all ''Test'' et)) (\<lambda>tests.
     rbind (rmap example_line (find_all ''Example'' et)) (\<lambda>examples.
       Inr (concat tests @ concat examples)))"

section \<open>The HTML report\<close>

definition line :: "string \<Rightarrow> string" where
  "line s = s @ [nl]"

definition cell :: "string option \<Rightarrow> string" where
  "cell v = line (''<td>'' @ show_opt v @ ''</td>'')"

definition colored_cell :: "string \<Rightarrow> string option \<Rightarrow> string" where
  "colored_cell color v =
     line (''<td style='' @ [dquote] @ ''color:'' @ color @ [dquote] @ ''>'' @ show_opt v @ ''</td>'')"

definition suite_header :: "test_info \<Rightarrow> string" where
  "suite_header i =
     (let h = (\<lambda>color. ''<h3 style='' @ [dquote] @ ''color:'' @ color @ [dquote] @ ''>'' @
                show_opt (t_result i) @ '': '' @ show_opt (t_name i) @ '' ('' @ show_opt (t_time i) @ '')'')
      in line (if t_result i = Some ''PASS'' then h ''green'' @ ''</h3>''
               else if t_result i = Some ''SKIP'' then h ''#ff6600'' @ '' ('' @ show_opt (t_reason i) @ '')</h3>''
               else h ''red'' @ ''</h3>''))"

definition detail_cell :: "xml \<Rightarrow> string list res" where
  "detail_cell details =
     rbind (rmap (\<lambda>(label, field, sep). rbind (child_text details field)
                    (\<lambda>v. Inr (''<b>'' @ label @ '': </b>'' @ show_opt v @ sep)))
              [(''Message'', ''Message'', '', ''), (''Condition'', ''Condition'', '', ''),
               (''Actual'', ''Actual'', '', ''), (''Limit'', ''Limit'', '', ''),
               (''File'', ''File'', '', ''), (''Line'', ''Line'', '''')])
       (\<lambda>ws. Inr ([''<td>''] @ ws @ [line ''</td>'']))"

text \<open>The rows of a failed test case; the end of a row is written as the code writes it.\<close>

fun failure_rows :: "test_info \<Rightarrow> bool \<Rightarrow> xml list \<Rightarrow> string list res" where
  "failure_rows i first_row [] = Inr []"
| "failure_rows i first_row (d # ds) =
     rbind (detail_cell d) (\<lambda>dc.
     rbind (failure_rows i False ds) (\<lambda>rest.
       Inr ([line ''<tr>''] @
            (if first_row then [colored_cell ''red'' (t_result i), cell (t_name i), cell (t_time i)]
             else [cell (Some ''''), cell (Some ''''), cell (Some '''')]) @
            dc @ [line ''</td>''] @ rest)))"

definition case_rows :: "xml \<Rightarrow> string list res" where
  "case_rows c =
     rbind (read_test c) (\<lambda>i.
       if t_result i = Some ''FAIL'' then failure_rows i True (find_all ''FailureDetails'' c)
       else Inr [line ''<tr>'', colored_cell ''green'' (t_result i), cell (t_name i), cell (t_time i),
                 cell (t_reason i), line ''</tr>''])"

definition table_start :: string where
  "table_start = line (''<table border='' @ [dquote] @ ''1'' @ [dquote] @ ''>'')"

definition suite_table :: "xml \<Rightarrow> string list res" where
  "suite_table suite =
     rbind (read_test suite) (\<lambda>i.
       let start = [suite_header i, table_start, line ''<th> Result </th>'']
       in if t_result i \<in> {Some ''CRASH'', Some ''SKIP'', Some ''VALGR''} then
            Inr (start @ [line ''<tr>'',
                          if t_result i = Some ''SKIP'' then colored_cell ''#ff6600'' (t_result i)
                          else colored_cell ''red'' (t_result i),
                          line ''</tr>'', line ''</table>''])
          else
            rbind (rmap case_rows (find_all ''Test'' suite)) (\<lambda>rows.
              Inr (start @ [line ''<th>Test Case Name</th>'', line ''<th> Time </th>''] @
                   (if t_result i = Some ''FAIL'' then [line ''<th>Failure Details</th>''] else []) @
                   concat rows @ [line ''</table>''])))"

definition example_row :: "xml \<Rightarrow> string list res" where
  "example_row example =
     rbind (read_test example) (\<lambda>i.
       Inr [line ''<tr>'',
            if t_result i = Some ''PASS'' then colored_cell ''green'' (t_result i)
            else if t_result i = Some ''SKIP'' then
              line (''<td style='' @ [dquote] @ ''color:#ff6600'' @ [dquote] @ ''>'' @
                    show_opt (t_result i) @ ''</fd>'')
            else colored_cell ''red'' (t_result i),
            cell (t_name i), cell (t_time i), cell (t_reason i), line ''</tr>''])"

definition translate_to_html :: "xml \<Rightarrow> string list res" where
  "translate_to_html et =
     rbind (rmap suite_table (find_all ''Test'' et)) (\<lambda>suites.
     rbind (rmap example_row (find_all ''Example'' et)) (\<lambda>examples.
       Inr ([line ''<html>'', line ''<body>'', line ''<center><h1>ns-3 Test Results</h1></center>'',
             line ''<h2>Test Suites</h2>''] @ concat suites @
            [line ''<h2>Examples</h2>'', table_start, line ''<th> Result </th>'',
             line ''<th>Example Name</th>'', line ''<th>Elapsed Time</th>'', line ''<th>Details</th>''] @
            concat examples @ [line ''</table>'', line ''</body>'', line ''</html>''])))"

section \<open>The text report covers every test\<close>

text \<open>The tests at and below an element, each before its cases, and what is written for one of them.\<close>

function tests_below :: "xml \<Rightarrow> string \<Rightarrow> (xml \<times> string) list" where
  "tests_below t ty = (t, ty) # concat (map (\<lambda>c. tests_below c ''Case'') (find_all ''Test'' t))"
  by pat_completeness auto
termination
  by (relation "measure (\<lambda>(t, ty). size t)") (auto dest: find_all_size)

declare tests_below.simps [simp del]

definition own_text :: "xml \<times> string \<Rightarrow> string res" where
  "own_text p =
     rbind (read_test (fst p)) (\<lambda>i.
     rbind (rmap detail_lines (find_all ''FailureDetails'' (fst p))) (\<lambda>details.
       Inr (status_line i (snd p) @ concat details)))"

lemma concat_map_concat: "concat (map concat xss) = concat (concat xss)"
  by (induction xss) simp_all

lemma node_to_text_flat:
  "node_to_text t ty = rbind (rmap own_text (tests_below t ty)) (\<lambda>ls. Inr (concat ls))"
proof (induction t ty rule: node_to_text.induct)
  case (1 t ty)
  let ?cs = "find_all ''Test'' t"
  have "rmap (\<lambda>c. node_to_text c ''Case'') ?cs =
      rmap (\<lambda>c. rbind (rmap own_text (tests_below c ''Case'')) (\<lambda>ls. Inr (concat ls))) ?cs"
    by (rule rmap_cong [OF refl]) (rule 1)
  then show ?case
    unfolding node_to_text.simps [of t ty] tests_below.simps [of t ty]
    by (simp add: own_text_def [of "(t, ty)"] rbind_assoc rmap_concat_map rmap_post concat_map_concat)
qed

section \<open>The rows of the HTML report\<close>

abbreviation rows :: "string list \<Rightarrow> nat" where
  "rows w \<equiv> count_list w (line ''<tr>'')"

abbreviation row_ends :: "string list \<Rightarrow> nat" where
  "row_ends w \<equiv> count_list w (line ''</tr>'')"

lemma count_list_concat: "count_list (concat xss) y = sum_list (map (\<lambda>xs. count_list xs y) xss)"
  by (induction xss) simp_all

lemma line_eq [simp]: "line a = line b \<longleftrightarrow> a = b"
  by (simp add: line_def)

lemma other_lines [simp]:
  "cell v \<noteq> line ''<tr>''" "cell v \<noteq> line ''</tr>''"
  "colored_cell c v \<noteq> line ''<tr>''" "colored_cell c v \<noteq> line ''</tr>''"
  "suite_header i \<noteq> line ''<tr>''" "suite_header i \<noteq> line ''</tr>''"
  "table_start \<noteq> line ''<tr>''" "table_start \<noteq> line ''</tr>''"
  by (simp_all add: cell_def colored_cell_def suite_header_def table_start_def line_def Let_def)

lemma detail_cell_rows: "detail_cell d = Inr w \<Longrightarrow> rows w = 0 \<and> row_ends w = 0"
  by (auto simp: detail_cell_def rbind_eq_Inr line_def)

lemma failure_rows_count: "failure_rows i b ds = Inr w \<Longrightarrow> rows w = length ds \<and> row_ends w = 0"
proof (induction i b ds arbitrary: w rule: failure_rows.induct)
  case (2 i b d ds)
  then obtain dc rest where "detail_cell d = Inr dc" "failure_rows i False ds = Inr rest"
    and w: "w = [line ''<tr>''] @
            (if b then [colored_cell ''red'' (t_result i), cell (t_name i), cell (t_time i)]
             else [cell (Some ''''), cell (Some ''''), cell (Some '''')]) @
            dc @ [line ''</td>''] @ rest" by (auto simp: rbind_eq_Inr)
  then show ?case using 2(1) detail_cell_rows [of d dc] by simp
qed simp

text \<open>How many rows the code leaves open: one per failure detail of a failed case that is shown.\<close>

definition open_rows_case :: "xml \<Rightarrow> nat" where
  "open_rows_case c =
     (if child_text c ''Result'' = Inr (Some ''FAIL'') then length (find_all ''FailureDetails'' c) else 0)"

definition open_rows :: "xml \<Rightarrow> nat" where
  "open_rows suite =
     (if child_text suite ''Result'' \<in> {Inr (Some ''CRASH''), Inr (Some ''SKIP''), Inr (Some ''VALGR'')} then 0
      else sum_list (map open_rows_case (find_all ''Test'' suite)))"

lemma read_test_result: "read_test t = Inr i \<Longrightarrow> child_text t ''Result'' = Inr (t_result i)"
  by (auto simp: read_test_def rbind_eq_Inr Let_def)

lemma case_rows_count: "case_rows c = Inr w \<Longrightarrow> rows w = row_ends w + open_rows_case c"
proof -
  assume run: "case_rows c = Inr w"
  then obtain i where i: "read_test c = Inr i" by (auto simp: case_rows_def rbind_eq_Inr)
  then show ?thesis using run failure_rows_count read_test_result [OF i]
    by (cases "t_result i = Some ''FAIL''") (auto simp: case_rows_def open_rows_case_def)
qed

lemma rmap_rows:
  "rmap f xs = Inr ws \<Longrightarrow> (\<And>x w. x \<in> set xs \<Longrightarrow> f x = Inr w \<Longrightarrow> rows w = row_ends w + g x) \<Longrightarrow>
     rows (concat ws) = row_ends (concat ws) + sum_list (map g xs)"
proof (induction xs arbitrary: ws)
  case (Cons x xs)
  then obtain y ys where y: "f x = Inr y" "rmap f xs = Inr ys" "ws = y # ys" by (auto simp: rbind_eq_Inr)
  then show ?case using Cons.IH [of ys] Cons.prems(2) [of x y] Cons.prems(2) by simp
qed simp

lemma suite_table_count: "suite_table s = Inr w \<Longrightarrow> rows w = row_ends w + open_rows s"
proof -
  assume run: "suite_table s = Inr w"
  then obtain i where i: "read_test s = Inr i" by (auto simp: suite_table_def rbind_eq_Inr)
  show ?thesis
  proof (cases "t_result i \<in> {Some ''CRASH'', Some ''SKIP'', Some ''VALGR''}")
    case True
    then have "open_rows s = 0" using read_test_result [OF i] by (auto simp: open_rows_def)
    then show ?thesis using run i True by (auto simp: suite_table_def Let_def)
  next
    case False
    then have o: "open_rows s = sum_list (map open_rows_case (find_all ''Test'' s))"
      using read_test_result [OF i] by (auto simp: open_rows_def)
    from run i False obtain rs where rs: "rmap case_rows (find_all ''Test'' s) = Inr rs"
      and w: "w = [suite_header i, table_start, line ''<th> Result </th>''] @
        [line ''<th>Test Case Name</th>'', line ''<th> Time </th>''] @
        (if t_result i = Some ''FAIL'' then [line ''<th>Failure Details</th>''] else []) @
        concat rs @ [line ''</table>'']"
      unfolding suite_table_def Let_def by (simp add: rbind_eq_Inr) blast
    from rmap_rows [OF rs case_rows_count] show ?thesis by (simp add: w o)
  qed
qed

lemma example_row_count: "example_row e = Inr w \<Longrightarrow> rows w = row_ends w + 0"
  by (auto simp: example_row_def rbind_eq_Inr)

section \<open>Properties\<close>

text \<open>
  C32: the text report lists every test of the results, at every depth of nesting, exactly once and
  before the cases it contains, then every example, all in document order; it fails exactly when
  one of these entries lacks a field it needs.\<close>
theorem text_report_complete:
  "translate_to_text et =
     rbind (rmap own_text (concat (map (\<lambda>t. tests_below t ''Suite'') (find_all ''Test'' et)))) (\<lambda>tests.
     rbind (rmap example_line (find_all ''Example'' et)) (\<lambda>examples.
       Inr (concat tests @ concat examples)))"
  unfolding translate_to_text_def node_to_text_flat
  by (simp add: rmap_concat_map rmap_post rbind_assoc concat_map_concat)

text \<open>
  In the HTML report every table row that is opened is closed, except one row for each failure
  detail of a failed test case, which the code ends with a cell end instead of a row end.\<close>
theorem html_rows_closed:
  assumes "translate_to_html et = Inr w"
  shows "rows w = row_ends w + sum_list (map open_rows (find_all ''Test'' et))"
proof -
  from assms obtain ss es where s: "rmap suite_table (find_all ''Test'' et) = Inr ss"
    and e: "rmap example_row (find_all ''Example'' et) = Inr es"
    and w: "w = [line ''<html>'', line ''<body>'', line ''<center><h1>ns-3 Test Results</h1></center>'',
             line ''<h2>Test Suites</h2>''] @ concat ss @
            [line ''<h2>Examples</h2>'', table_start, line ''<th> Result </th>'',
             line ''<th>Example Name</th>'', line ''<th>Elapsed Time</th>'', line ''<th>Details</th>''] @
            concat es @ [line ''</table>'', line ''</body>'', line ''</html>'']"
    unfolding translate_to_html_def rbind_eq_Inr by blast
  from rmap_rows [OF s suite_table_count] rmap_rows [OF e example_row_count] show ?thesis
    by (simp add: w)
qed

definition demo_case :: xml where
  "demo_case = Elem ''Test'' [] None
     [Elem ''Result'' [] (Some ''FAIL'') [], Elem ''Name'' [] (Some ''c'') [],
      Elem ''FailureDetails'' [] None
        (map (\<lambda>t. Elem t [] (Some ''x'') []) [''Message'', ''Condition'', ''Actual'', ''Limit'', ''File'', ''Line''])]"

definition demo_results :: xml where
  "demo_results = Elem ''Results'' [] None [Elem ''Test'' [] None
     [Elem ''Result'' [] (Some ''FAIL'') [], Elem ''Name'' [] (Some ''s'') [], demo_case]]"

theorem html_rows_closed_witness:
  "\<exists>w. translate_to_html demo_results = Inr w \<and> rows w = row_ends w + 1"
proof -
  have "\<not> isl (translate_to_html demo_results)" by code_simp
  then obtain w where w: "translate_to_html demo_results = Inr w" by (cases "translate_to_html demo_results") auto
  have "sum_list (map open_rows (find_all ''Test'' demo_results)) = 1" by code_simp
  then show ?thesis using html_rows_closed [OF w] w by simp
qed

end
