(* ===== verification/CheckStyle.thy ===== *)
theory CheckStyle
  imports PyLib
begin

text \<open>
  The coding-style checker \<^verbatim>\<open>utils/check-style.py\<close>: the configuration it gives to
  uncrustify, the classes \<open>PatchChunkLine\<close>, \<open>PatchChunk\<close> and \<open>Patch\<close>, the parser
  \<open>parse_patchset\<close>, the pass \<open>remove_trailing_whitespace_changes\<close>, and \<open>indent\<close> and
  \<open>indent_files\<close> around the external programs.

  The objects that Python shares by reference are modelled by their position: the current chunk
  is the pair of the index of its patch and its own index, and the lists \<open>src()\<close> and \<open>dst()\<close>
  of a chunk are lists of indices of its lines.
\<close>

section \<open>The uncrustify configuration\<close>

definition level0_lines :: "string list" where
  "level0_lines =
     [''sp_func_proto_paren=Add'', ''sp_func_def_paren=Add'', ''sp_func_call_paren=Add'',
      ''sp_after_semi_for=Ignore'', ''sp_before_sparen=Ignore'', ''sp_before_ellipsis=Remove'',
      ''sp_type_func=Ignore'', ''sp_after_type=Ignore'', ''nl_class_leave_one_liners=True'',
      ''nl_enum_leave_one_liners=True'', ''nl_func_leave_one_liners=True'',
      ''nl_assign_leave_one_liners=True'', ''nl_collapse_empty_body=True'',
      ''nl_getset_leave_one_liners=True'', ''nl_if_leave_one_liners=True'',
      ''nl_fdef_brace=Ignore'', ''# finally, indentation configuration'', ''indent_with_tabs=0'',
      ''indent_namespace=false'', ''indent_columns=2'', ''indent_brace=2'',
      ''indent_case_brace=indent_columns'', ''indent_class=true'', ''indent_class_colon=True'',
      ''indent_switch_case=indent_columns'', ''# alignment'', ''indent_align_assign=False'',
      ''align_left_shift=True'', ''# comment reformating disabled'',
      ''cmt_reflow_mode=1 # do not touch comments at all'',
      ''cmt_indent_multi=False # really, do not touch them'',
      ''disable_processing_cmt= \" *NS_CHECK_STYLE_OFF*\"'',
      ''enable_processing_cmt=  \" *NS_CHECK_STYLE_ON*\"'']"

definition level1_lines :: "string list" where
  "level1_lines =
     [''# extra spaces here and there'', ''sp_brace_typedef=Add'', ''sp_enum_assign=Add'',
      ''sp_before_sparen=Add'', ''sp_after_semi_for=Add'', ''sp_arith=Add'', ''sp_assign=Add'',
      ''sp_compare=Add'', ''sp_func_class_paren=Add'', ''sp_after_type=Add'',
      ''sp_type_func=Add'', ''sp_angle_paren=Add'']"

definition level2_lines :: "string list" where
  "level2_lines =
     [''nl_if_brace=Add'', ''nl_brace_else=Add'', ''nl_elseif_brace=Add'', ''nl_else_brace=Add'',
      ''nl_while_brace=Add'', ''nl_do_brace=Add'', ''nl_for_brace=Add'', ''nl_brace_while=Add'',
      ''nl_switch_brace=Add'', ''nl_after_case=True'', ''nl_namespace_brace=ignore'',
      ''nl_after_brace_open=True'', ''nl_class_leave_one_liners=False'',
      ''nl_enum_leave_one_liners=False'', ''nl_func_leave_one_liners=False'',
      ''nl_if_leave_one_liners=False'', ''nl_class_colon=Ignore'', ''nl_before_access_spec=2'',
      ''nl_after_access_spec=0'', ''indent_access_spec=-indent_columns'',
      ''nl_after_semicolon=True'', ''pos_class_colon=Lead'', ''pos_class_comma=Trail'',
      ''indent_constr_colon=true'', ''pos_bool=Lead'', ''nl_class_init_args=Add'',
      ''nl_template_class=Add'', ''nl_class_brace=Add'', ''# does not work very well'',
      ''nl_func_type_name=Ignore'', ''nl_func_scope_name=Ignore'',
      ''nl_func_type_name_class=Ignore'', ''nl_func_proto_type_name=Ignore'',
      ''# function'' @ [backslash] @ ''n('', ''nl_func_paren=Remove'', ''nl_fdef_brace=Add'',
      ''nl_struct_brace=Add'', ''nl_enum_brace=Add'', ''nl_union_brace=Add'',
      ''mod_full_brace_do=Add'', ''mod_full_brace_for=Add'', ''mod_full_brace_if=Add'',
      ''mod_full_brace_while=Add'', ''mod_full_brace_for=Add'',
      ''mod_remove_extra_semicolon=True'', ''# max code width'', ''#code_width=128'',
      ''#ls_for_split_full=True'', ''#ls_func_split_full=True'',
      ''nl_cpp_lambda_leave_one_liners=True'']"

definition config_text :: "string list \<Rightarrow> string" where
  "config_text ls = [nl] @ concat (map (\<lambda>l. l @ [nl]) ls)"

definition uncrustify_config_file :: "int \<Rightarrow> string" where
  "uncrustify_config_file level =
     config_text level0_lines @
     (if 1 \<le> level then config_text level1_lines else '''') @
     (if 2 \<le> level then config_text level2_lines else '''')"

section \<open>Patches\<close>

record patch_line =
  pl_type :: nat
  pl_line :: string

abbreviation SRC :: nat where "SRC \<equiv> 1"
abbreviation DST :: nat where "DST \<equiv> 2"
abbreviation BOTH :: nat where "BOTH \<equiv> 3"

definition is_src :: "patch_line \<Rightarrow> bool" where
  "is_src l \<longleftrightarrow> pl_type l = SRC \<or> pl_type l = BOTH"

definition is_dst :: "patch_line \<Rightarrow> bool" where
  "is_dst l \<longleftrightarrow> pl_type l = DST \<or> pl_type l = BOTH"

definition append_to_line :: "string \<Rightarrow> patch_line \<Rightarrow> patch_line" where
  "append_to_line s l = l\<lparr>pl_line := pl_line l @ s\<rparr>"

definition write_line :: "patch_line \<Rightarrow> string res" where
  "write_line l =
     (if pl_type l = SRC then Inr (''-'' @ pl_line l @ [nl])
      else if pl_type l = DST then Inr (''+'' @ pl_line l @ [nl])
      else if pl_type l = BOTH then Inr ('' '' @ pl_line l @ [nl])
      else Inl (PlainException ''invalid patch''))"

record patch_chunk =
  pc_lines :: "patch_line list"
  pc_src_pos :: int
  pc_dst_pos :: int

definition chunk_src :: "patch_chunk \<Rightarrow> nat list" where
  "chunk_src c = filter (\<lambda>i. is_src (pc_lines c ! i)) [0..<length (pc_lines c)]"

definition chunk_dst :: "patch_chunk \<Rightarrow> nat list" where
  "chunk_dst c = filter (\<lambda>i. is_dst (pc_lines c ! i)) [0..<length (pc_lines c)]"

definition chunk_header :: "patch_chunk \<Rightarrow> string" where
  "chunk_header c =
     ''@@ -'' @ dec (pc_src_pos c) @ '','' @ dec (int (length (chunk_src c))) @
     '' +'' @ dec (pc_dst_pos c) @ '','' @ dec (int (length (chunk_dst c))) @ '' @@'' @ [nl]"

text \<open>The result is the list of the strings passed to \<open>f.write\<close>.\<close>

definition write_chunk :: "patch_chunk \<Rightarrow> string list res" where
  "write_chunk c = rbind (rmap write_line (pc_lines c)) (\<lambda>ls. Inr (chunk_header c # ls))"

record patch =
  p_src :: string
  p_dst :: string
  p_chunks :: "patch_chunk list"

definition write_patch :: "patch \<Rightarrow> string list res" where
  "write_patch p =
     rbind (rmap write_chunk (p_chunks p)) (\<lambda>cs.
       Inr ([''--- '' @ p_src p @ [nl], ''+++ '' @ p_dst p @ [nl]] @ concat cs))"

section \<open>parse\_patchset\<close>

text \<open>\<open>^<prefix>(.*)$\<close>: the rest of the line, which may end in one newline but holds no other.\<close>

definition rest_of_line :: "string \<Rightarrow> string option" where
  "rest_of_line s =
     (let t = (if s \<noteq> [] \<and> last s = nl then butlast s else s)
      in if nl \<in> set t then None else Some t)"

definition match_prefix :: "string \<Rightarrow> string \<Rightarrow> string option" where
  "match_prefix p s = (if startswith s p then rest_of_line (drop (length p) s) else None)"

definition is_digit :: "char \<Rightarrow> bool" where
  "is_digit c \<longleftrightarrow> (48 :: nat) \<le> of_char c \<and> (of_char c :: nat) \<le> 57"

definition digits_value :: "string \<Rightarrow> int" where
  "digits_value ds = foldl (\<lambda>a c. 10 * a + (int (of_char c) - 48)) 0 ds"

definition take_number :: "string \<Rightarrow> (int \<times> string) option" where
  "take_number s =
     (let ds = takeWhile is_digit s
      in if ds = [] then None else Some (digits_value ds, dropWhile is_digit s))"

definition expect :: "string \<Rightarrow> string \<Rightarrow> string option" where
  "expect p s = (if startswith s p then Some (drop (length p) s) else None)"

definition match_chunk_start :: "string \<Rightarrow> (int \<times> int) option" where
  "match_chunk_start s =
     Option.bind (expect ''@@ -'' s) (\<lambda>s.
     Option.bind (take_number s) (\<lambda>(a, s).
     Option.bind (expect '','' s) (\<lambda>s.
     Option.bind (take_number s) (\<lambda>(b, s).
     Option.bind (expect '' +'' s) (\<lambda>s.
     Option.bind (take_number s) (\<lambda>(c, s).
     Option.bind (expect '','' s) (\<lambda>s.
     Option.bind (take_number s) (\<lambda>(d, s).
     Option.bind (expect '' @@'' s) (\<lambda>s. Some (a, c))))))))))"

text \<open>The patches so far, the last one being current, and where the current chunk is.\<close>

type_synonym parse_state = "patch list \<times> (nat \<times> nat) option"

definition add_line :: "parse_state \<Rightarrow> patch_line \<Rightarrow> parse_state res" where
  "add_line st l =
     (case st of
        (ps, None) \<Rightarrow> Inl UnboundLocalError
      | (ps, Some (i, j)) \<Rightarrow>
          (let p = ps ! i; c = p_chunks p ! j; c = c\<lparr>pc_lines := pc_lines c @ [l]\<rparr>
           in Inr (ps[i := p\<lparr>p_chunks := (p_chunks p)[j := c]\<rparr>], Some (i, j))))"

definition parse_line :: "parse_state \<Rightarrow> string \<Rightarrow> parse_state res" where
  "parse_line st line =
     (case match_prefix ''--- '' line of
        Some name \<Rightarrow> Inr (fst st @ [\<lparr>p_src = name, p_dst = '''', p_chunks = []\<rparr>], snd st)
      | None \<Rightarrow>
     (case match_prefix ''+++ '' line of
        Some name \<Rightarrow>
          (if fst st = [] then Inl AttributeError
           else Inr ((fst st)[length (fst st) - 1 := (last (fst st))\<lparr>p_dst := name\<rparr>], snd st))
      | None \<Rightarrow>
     (case match_chunk_start line of
        Some (a, b) \<Rightarrow>
          (if fst st = [] then Inl AttributeError
           else
             (let p = last (fst st); i = length (fst st) - 1;
                  c = \<lparr>pc_lines = [], pc_src_pos = a, pc_dst_pos = b\<rparr>
              in Inr ((fst st)[i := p\<lparr>p_chunks := p_chunks p @ [c]\<rparr>], Some (i, length (p_chunks p)))))
      | None \<Rightarrow>
     (case match_prefix ''-'' line of
        Some t \<Rightarrow> add_line st \<lparr>pl_type = SRC, pl_line = t\<rparr>
      | None \<Rightarrow>
     (case match_prefix ''+'' line of
        Some t \<Rightarrow> add_line st \<lparr>pl_type = DST, pl_line = t\<rparr>
      | None \<Rightarrow>
     (case match_prefix '' '' line of
        Some t \<Rightarrow> add_line st \<lparr>pl_type = BOTH, pl_line = t\<rparr>
      | None \<Rightarrow> Inl (PlainException '''')))))))"

fun parse_lines :: "parse_state \<Rightarrow> string list \<Rightarrow> parse_state res" where
  "parse_lines st [] = Inr st"
| "parse_lines st (l # ls) = rbind (parse_line st l) (\<lambda>st. parse_lines st ls)"

definition parse_patchset :: "string list \<Rightarrow> patch list res" where
  "parse_patchset ls = rbind (parse_lines ([], None) ls) (\<lambda>st. Inr (fst st))"

section \<open>remove\_trailing\_whitespace\_changes\<close>

text \<open>\<open>^(.*)([ \\t]+)$\<close>: the first group is greedy and leaves exactly one blank to the second.\<close>

definition whitespace :: "string \<Rightarrow> (string \<times> string) option" where
  "whitespace s =
     (if s \<noteq> [] \<and> (last s = CHR '' '' \<or> last s = tab) then Some (butlast s, [last s]) else None)"

text \<open>The loop over \<open>range(0, len(src))\<close>; the flag says that \<open>dst[i]\<close> raised \<open>IndexError\<close>.\<close>

fun restore_loop :: "nat list \<Rightarrow> nat list \<Rightarrow> patch_line list \<Rightarrow> patch_line list \<times> bool" where
  "restore_loop [] dst ls = (ls, False)"
| "restore_loop (s # src) [] ls = (ls, True)"
| "restore_loop (s # src) (d # dst) ls =
     restore_loop src dst
       (case whitespace (pl_line (ls ! s)) of
          Some (g1, g2) \<Rightarrow> if g1 = pl_line (ls ! d) then ls[d := append_to_line g2 (ls ! d)] else ls
        | None \<Rightarrow> ls)"

definition restore_chunk :: "patch_chunk \<Rightarrow> patch_chunk \<times> bool" where
  "restore_chunk c =
     (case restore_loop (chunk_src c) (chunk_dst c) (pc_lines c) of
        (ls, stop) \<Rightarrow> (c\<lparr>pc_lines := ls\<rparr>, stop))"

text \<open>The first error ends the pass over all chunks and patches.\<close>

fun restore_chunks :: "patch_chunk list \<Rightarrow> patch_chunk list \<times> bool" where
  "restore_chunks [] = ([], False)"
| "restore_chunks (c # cs) =
     (case restore_chunk c of
        (c', True) \<Rightarrow> (c' # cs, True)
      | (c', False) \<Rightarrow> (case restore_chunks cs of (cs', stop) \<Rightarrow> (c' # cs', stop)))"

fun restore_patches :: "patch list \<Rightarrow> patch list" where
  "restore_patches [] = []"
| "restore_patches (p # ps) =
     (case restore_chunks (p_chunks p) of
        (cs, stop) \<Rightarrow> p\<lparr>p_chunks := cs\<rparr> # (if stop then ps else restore_patches ps))"

definition remove_trailing_whitespace_changes :: "string list \<Rightarrow> patch list res" where
  "remove_trailing_whitespace_changes generator =
     rbind (parse_patchset generator) (\<lambda>ps. Inr (restore_patches ps))"

section \<open>indent and indent\_files\<close>

text \<open>
  The programs and the diff algorithm the script calls: uncrustify from configuration and text to
  text, \<open>difflib.unified_diff\<close>, and \<^verbatim>\<open>patch\<close> from a diff and a text to a text.  \<open>same_signature f s r\<close> says
  that \<open>os.stat\<close> gives the file \<open>f\<close> with text \<open>s\<close> and the temporary file with text \<open>r\<close> the same type,
  size and time of modification.
\<close>

record tools =
  uncrustify :: "string \<Rightarrow> string \<Rightarrow> string"
  unified_diff :: "string list \<Rightarrow> string list \<Rightarrow> string list"
  patch_tool :: "string \<Rightarrow> string \<Rightarrow> string"
  same_signature :: "string \<Rightarrow> string \<Rightarrow> string \<Rightarrow> bool"

text \<open>\<open>filecmp.cmp\<close> is shallow: it reads the files only when their signatures differ.\<close>

definition filecmp_cmp :: "tools \<Rightarrow> string \<Rightarrow> string \<Rightarrow> string \<Rightarrow> bool" where
  "filecmp_cmp t f s r = (same_signature t f s r \<or> s = r)"

definition final_diff :: "tools \<Rightarrow> bool \<Rightarrow> int \<Rightarrow> string \<Rightarrow> string \<Rightarrow> string res" where
  "final_diff t debug level source output =
     (let diff = unified_diff t (file_lines source) (file_lines output);
          diff = (if debug then [] else diff)
      in if level < 3 then
           rbind (remove_trailing_whitespace_changes diff) (\<lambda>patchset.
             case patchset of
               [] \<Rightarrow> Inr ''''
             | p # ps \<Rightarrow> rbind (write_patch p) (\<lambda>ws. Inr (concat ws)))
         else Inr (concat diff))"

definition indent :: "tools \<Rightarrow> bool \<Rightarrow> int \<Rightarrow> string \<Rightarrow> string res" where
  "indent t debug level source =
     rbind (final_diff t debug level source (uncrustify t (uncrustify_config_file level) source))
       (\<lambda>d. Inr (patch_tool t d source))"

text \<open>The files are a map from names to contents; \<open>open\<close> raises on a missing one.\<close>

definition indent_files ::
  "tools \<Rightarrow> (string \<rightharpoonup> string) \<Rightarrow> string list \<Rightarrow> bool \<Rightarrow> int \<Rightarrow> bool \<Rightarrow> (bool \<times> (string \<rightharpoonup> string)) res" where
  "indent_files t fs names debug level inplace =
     rbind (rmap (\<lambda>f. case fs f of
                        None \<Rightarrow> Inl (FileNotFoundError f)
                      | Some source \<Rightarrow> rbind (indent t debug level source) (\<lambda>r. Inr (f, r))) names)
       (\<lambda>output.
          if inplace then Inr (True, foldl (\<lambda>fs (f, r). fs(f \<mapsto> r)) fs output)
          else Inr (filter (\<lambda>(f, r). \<not> filecmp_cmp t f (the (fs f)) r) output = [], fs))"

text \<open>Which files the script looks at, and its exit status.\<close>

definition git_modified_files :: "string \<Rightarrow> string list \<Rightarrow> string list" where
  "git_modified_files root_dir changed =
     map (\<lambda>f. butlast root_dir @ ''/'' @ py_strip f)
       (filter (\<lambda>f. endswith f ''.h'' \<or> endswith f ''.cc'') (map py_strip changed))"

definition run_as_main ::
  "tools \<Rightarrow> (string \<rightharpoonup> string) \<Rightarrow> string list option \<Rightarrow> string \<Rightarrow> bool \<Rightarrow> int \<Rightarrow> bool \<Rightarrow> int \<times> (string \<rightharpoonup> string)" where
  "run_as_main t fs git_files file debug level inplace =
     (case (case git_files of
              Some names \<Rightarrow> indent_files t fs names debug level inplace
            | None \<Rightarrow>
                (if file \<noteq> '''' then
                   (if fs file = None then Inl (SystemExit 1)
                    else indent_files t fs [file] debug level inplace)
                 else Inr (False, fs))) of
        Inl e \<Rightarrow> (1, fs)
      | Inr (ok, fs') \<Rightarrow> (if ok then 0 else 1, fs'))"

section \<open>Numbers and line ends\<close>

lemma dec_is_digits: "(\<forall>c \<in> set (dec_nat n). is_digit c) \<and> digits_value (dec_nat n) = int n"
  using dec_nat_digits by (simp add: is_digit_def digits_value_def dec_nat_value)

lemma take_number_dec: "0 \<le> i \<Longrightarrow> \<not> is_digit c \<Longrightarrow> take_number (dec i @ c # s) = Some (i, c # s)"
proof -
  assume i: "0 \<le> i" and c: "\<not> is_digit c"
  have d: "\<And>x. x \<in> set (dec_nat (nat i)) \<Longrightarrow> is_digit x" and v: "digits_value (dec_nat (nat i)) = int (nat i)"
    using dec_is_digits [of "nat i"] by auto
  have "takeWhile is_digit (dec_nat (nat i) @ c # s) = dec_nat (nat i)"
    "dropWhile is_digit (dec_nat (nat i) @ c # s) = c # s"
    using d c by (auto simp: takeWhile_append2 dropWhile_append2)
  then show ?thesis using i v by (simp add: take_number_def dec_def Let_def)
qed

lemma expect_append: "expect p (p @ s) = Some s"
  by (simp add: expect_def)

lemma not_digits: "\<not> is_digit (CHR '','')" "\<not> is_digit (CHR '' '')"
  by (simp_all add: is_digit_def)

lemma match_chunk_header:
  assumes "0 \<le> pc_src_pos c" "0 \<le> pc_dst_pos c"
  shows "match_chunk_start (chunk_header c) = Some (pc_src_pos c, pc_dst_pos c)"
proof -
  have e: "expect '','' (CHR '','' # s) = Some s" "expect '' +'' (CHR '' '' # CHR ''+'' # s) = Some s"
    "expect '' @@'' (CHR '' '' # CHR ''@'' # CHR ''@'' # s) = Some s" for s
    by (simp_all add: expect_def startswith_def)
  show ?thesis
    unfolding match_chunk_start_def chunk_header_def expect_append
    using assms by (simp add: take_number_dec not_digits e)
qed

lemma startswith_nl: "nl \<notin> set p \<Longrightarrow> startswith (s @ [nl]) p \<longleftrightarrow> startswith s p"
proof -
  assume p: "nl \<notin> set p"
  have "startswith s p \<longleftrightarrow> prefix p s" for s by (auto simp: startswith_iff prefix_def)
  moreover have "p \<noteq> s @ [nl]" using p by auto
  ultimately show ?thesis by (simp add: prefix_snoc)
qed

lemma rest_of_line_nl: "nl \<notin> set s \<Longrightarrow> rest_of_line (s @ [nl]) = Some s"
  by (simp add: rest_of_line_def)

lemma match_prefix_append: "nl \<notin> set s \<Longrightarrow> match_prefix p (p @ s @ [nl]) = Some s"
  by (simp add: match_prefix_def rest_of_line_nl)

section \<open>Reading back what was written\<close>

definition wf_line :: "patch_line \<Rightarrow> bool" where
  "wf_line l \<longleftrightarrow> nl \<notin> set (pl_line l) \<and>
     (pl_type l = SRC \<and> \<not> startswith (pl_line l) ''-- '' \<or>
      pl_type l = DST \<and> \<not> startswith (pl_line l) ''++ '' \<or> pl_type l = BOTH)"

definition wf_chunk :: "patch_chunk \<Rightarrow> bool" where
  "wf_chunk c \<longleftrightarrow> 0 \<le> pc_src_pos c \<and> 0 \<le> pc_dst_pos c \<and> list_all wf_line (pc_lines c)"

definition wf_patch :: "patch \<Rightarrow> bool" where
  "wf_patch p \<longleftrightarrow> nl \<notin> set (p_src p) \<and> nl \<notin> set (p_dst p) \<and> list_all wf_chunk (p_chunks p)"

lemma no_match: "take 1 s \<noteq> take 1 p \<Longrightarrow> p \<noteq> [] \<Longrightarrow> match_prefix p s = None"
  by (cases s; cases p) (auto simp: match_prefix_def startswith_def)

lemma no_chunk: "take 1 s \<noteq> ''@'' \<Longrightarrow> match_chunk_start s = None"
  by (cases s) (auto simp: match_chunk_start_def expect_def startswith_def)

lemma parse_written_line:
  assumes "wf_line l"
  shows "\<exists>w. write_line l = Inr w \<and> (\<exists>t. w = t @ [nl] \<and> nl \<notin> set t) \<and> parse_line st w = add_line st l"
proof -
  have nl: "nl \<notin> set (pl_line l)" using assms by (simp add: wf_line_def)
  consider (src) "pl_type l = SRC" "\<not> startswith (pl_line l) ''-- ''"
    | (dst) "pl_type l = DST" "\<not> startswith (pl_line l) ''++ ''" | (both) "pl_type l = BOTH"
    using assms by (auto simp: wf_line_def)
  then show ?thesis
  proof cases
    case src
    have "match_prefix ''--- '' (CHR ''-'' # pl_line l @ [nl]) = None"
      using src(2) startswith_nl [of "''-- ''" "pl_line l"] by (simp add: match_prefix_def startswith_def)
    then show ?thesis using src nl match_prefix_append [OF nl, of "''-''"]
      by (cases l) (auto simp: write_line_def parse_line_def no_match no_chunk)
  next
    case dst
    have "match_prefix ''+++ '' (CHR ''+'' # pl_line l @ [nl]) = None"
      using dst(2) startswith_nl [of "''++ ''" "pl_line l"] by (simp add: match_prefix_def startswith_def)
    then show ?thesis using dst nl match_prefix_append [OF nl, of "''+''"]
      by (cases l) (auto simp: write_line_def parse_line_def no_match no_chunk)
  next
    case both
    then show ?thesis using nl match_prefix_append [OF nl, of "'' ''"]
      by (cases l) (auto simp: write_line_def parse_line_def no_match no_chunk)
  qed
qed

text \<open>The state of the parser inside the last chunk \<open>c\<close> of the last patch.\<close>

abbreviation in_chunk :: "patch list \<Rightarrow> patch \<Rightarrow> patch_chunk list \<Rightarrow> patch_chunk \<Rightarrow> parse_state" where
  "in_chunk ps p cs c \<equiv> (ps @ [p\<lparr>p_chunks := cs @ [c]\<rparr>], Some (length ps, length cs))"

lemma add_line_in_chunk: "add_line (in_chunk ps p cs c) l = Inr (in_chunk ps p cs (c\<lparr>pc_lines := pc_lines c @ [l]\<rparr>))"
  by (simp add: add_line_def Let_def)

lemma parse_lines_append: "parse_lines st (xs @ ys) = rbind (parse_lines st xs) (\<lambda>st. parse_lines st ys)"
  by (induction xs arbitrary: st) (simp_all add: rbind_assoc)

abbreviation proper_lines :: "string list \<Rightarrow> bool" where
  "proper_lines ws \<equiv> \<forall>w \<in> set ws. \<exists>t. w = t @ [nl] \<and> nl \<notin> set t"

lemma parse_written_lines:
  "list_all wf_line ls \<Longrightarrow> \<exists>ws. rmap write_line ls = Inr ws \<and> proper_lines ws \<and>
     parse_lines (in_chunk ps p cs c) ws = Inr (in_chunk ps p cs (c\<lparr>pc_lines := pc_lines c @ ls\<rparr>))"
proof (induction ls arbitrary: c)
  case (Cons l ls)
  then obtain w where w: "write_line l = Inr w" "\<exists>t. w = t @ [nl] \<and> nl \<notin> set t"
    "parse_line (in_chunk ps p cs c) w = Inr (in_chunk ps p cs (c\<lparr>pc_lines := pc_lines c @ [l]\<rparr>))"
    using parse_written_line [of l "in_chunk ps p cs c"] by (auto simp: add_line_in_chunk)
  from Cons.IH [of "c\<lparr>pc_lines := pc_lines c @ [l]\<rparr>"] Cons.prems w show ?case by auto
qed simp

lemma dec_no_nl: "nl \<notin> set (dec i)"
proof -
  have "is_digit nl \<Longrightarrow> False" by (simp add: is_digit_def)
  then show ?thesis using dec_is_digits by (auto simp: dec_def)
qed

lemma parse_written_chunk:
  assumes "wf_chunk c"
  shows "\<exists>ws. write_chunk c = Inr ws \<and> proper_lines ws \<and>
    parse_lines (ps @ [p\<lparr>p_chunks := cs\<rparr>], x) ws = Inr (in_chunk ps p cs c)"
proof -
  let ?c = "\<lparr>pc_lines = [], pc_src_pos = pc_src_pos c, pc_dst_pos = pc_dst_pos c\<rparr>"
  obtain ws where ws: "rmap write_line (pc_lines c) = Inr ws" "proper_lines ws"
    "parse_lines (in_chunk ps p cs ?c) ws = Inr (in_chunk ps p cs (?c\<lparr>pc_lines := pc_lines c\<rparr>))"
    using parse_written_lines [where ls = "pc_lines c" and ps = ps and p = p and cs = cs and c = ?c] assms by (auto simp: wf_chunk_def)
  have first: "take (Suc 0) (chunk_header c) = ''@''" by (simp add: chunk_header_def)
  have "match_prefix ''--- '' (chunk_header c) = None" "match_prefix ''+++ '' (chunk_header c) = None"
    by (simp_all add: no_match first)
  then have "parse_line (ps @ [p\<lparr>p_chunks := cs\<rparr>], x) (chunk_header c) = Inr (in_chunk ps p cs ?c)"
    using assms by (simp add: parse_line_def match_chunk_header wf_chunk_def Let_def)
  moreover have "\<exists>t. chunk_header c = t @ [nl] \<and> nl \<notin> set t"
    by (rule exI [of _ "butlast (chunk_header c)"]) (simp add: chunk_header_def dec_no_nl butlast_append)
  ultimately show ?thesis using ws by (auto simp: write_chunk_def)
qed

lemma parse_written_chunks:
  "list_all wf_chunk ds \<Longrightarrow> \<exists>wss y. rmap write_chunk ds = Inr wss \<and> proper_lines (concat wss) \<and>
     parse_lines (ps @ [p\<lparr>p_chunks := cs\<rparr>], x) (concat wss) = Inr (ps @ [p\<lparr>p_chunks := cs @ ds\<rparr>], y)"
proof (induction ds arbitrary: cs x)
  case (Cons d ds)
  then obtain ws where ws: "write_chunk d = Inr ws" "proper_lines ws"
    "parse_lines (ps @ [p\<lparr>p_chunks := cs\<rparr>], x) ws = Inr (in_chunk ps p cs d)"
    using parse_written_chunk [where c = d and ps = ps and p = p and cs = cs and x = x] by auto
  obtain wss y where "rmap write_chunk ds = Inr wss" "proper_lines (concat wss)"
    "parse_lines (in_chunk ps p cs d) (concat wss) = Inr (ps @ [p\<lparr>p_chunks := (cs @ [d]) @ ds\<rparr>], y)"
    using Cons.IH [where cs = "cs @ [d]" and x = "Some (length ps, length cs)"] Cons.prems by auto
  with ws show ?case by (intro exI [of _ "ws # wss"] exI [of _ y]) (auto simp: parse_lines_append)
qed simp

lemma parse_written_patch:
  assumes "wf_patch p"
  shows "\<exists>ws y. write_patch p = Inr ws \<and> proper_lines ws \<and> parse_lines (ps, x) ws = Inr (ps @ [p], y)"
proof -
  let ?p = "\<lparr>p_src = p_src p, p_dst = p_dst p, p_chunks = []\<rparr>"
  obtain wss y where w: "rmap write_chunk (p_chunks p) = Inr wss" "proper_lines (concat wss)"
    "parse_lines (ps @ [?p\<lparr>p_chunks := []\<rparr>], x) (concat wss) = Inr (ps @ [?p\<lparr>p_chunks := p_chunks p\<rparr>], y)"
    using parse_written_chunks [where ds = "p_chunks p" and ps = ps and p = ?p and cs = "[]" and x = x] assms by (auto simp: wf_patch_def)
  have n: "nl \<notin> set (p_src p)" "nl \<notin> set (p_dst p)" using assms by (simp_all add: wf_patch_def)
  have "parse_line (ps, x) (''--- '' @ p_src p @ [nl]) = Inr (ps @ [?p\<lparr>p_dst := ''''\<rparr>], x)"
    using match_prefix_append [OF n(1), of "''--- ''"] by (simp add: parse_line_def)
  moreover have "parse_line (ps @ [?p\<lparr>p_dst := ''''\<rparr>], x) (''+++ '' @ p_dst p @ [nl]) = Inr (ps @ [?p], x)"
    using match_prefix_append [OF n(2), of "''+++ ''"] by (simp add: parse_line_def no_match)
  ultimately show ?thesis using w n
    by (intro exI [of _ "[''--- '' @ p_src p @ [nl], ''+++ '' @ p_dst p @ [nl]] @ concat wss"] exI [of _ y])
      (auto simp: write_patch_def)
qed

lemma parse_written_patches:
  "list_all wf_patch qs \<Longrightarrow> \<exists>wss y. rmap write_patch qs = Inr wss \<and> proper_lines (concat wss) \<and>
     parse_lines (ps, x) (concat wss) = Inr (ps @ qs, y)"
proof (induction qs arbitrary: ps x)
  case (Cons q qs)
  then obtain ws y where ws: "write_patch q = Inr ws" "proper_lines ws" "parse_lines (ps, x) ws = Inr (ps @ [q], y)"
    using parse_written_patch [of q ps x] by auto
  obtain wss z where "rmap write_patch qs = Inr wss" "proper_lines (concat wss)"
    "parse_lines (ps @ [q], y) (concat wss) = Inr ((ps @ [q]) @ qs, z)"
    using Cons.IH [of "ps @ [q]" y] Cons.prems by auto
  with ws show ?case by (intro exI [of _ "ws # wss"] exI [of _ z]) (auto simp: parse_lines_append)
qed simp

section \<open>The whitespace pass\<close>

text \<open>What the pass may do to a line: nothing, or append one blank to a line of the new file.\<close>

definition blank_added :: "patch_line \<Rightarrow> patch_line \<Rightarrow> bool" where
  "blank_added old new \<longleftrightarrow>
     new = old \<or> is_dst old \<and> (new = append_to_line '' '' old \<or> new = append_to_line [tab] old)"

definition chunk_kept :: "patch_chunk \<Rightarrow> patch_chunk \<Rightarrow> bool" where
  "chunk_kept c c' \<longleftrightarrow> pc_src_pos c' = pc_src_pos c \<and> pc_dst_pos c' = pc_dst_pos c \<and>
     list_all2 blank_added (pc_lines c) (pc_lines c')"

definition patch_kept :: "patch \<Rightarrow> patch \<Rightarrow> bool" where
  "patch_kept p p' \<longleftrightarrow> p_src p' = p_src p \<and> p_dst p' = p_dst p \<and>
     list_all2 chunk_kept (p_chunks p) (p_chunks p')"

lemma whitespace_blank: "whitespace s = Some (g1, g2) \<Longrightarrow> s = g1 @ g2 \<and> (g2 = '' '' \<or> g2 = [tab])"
  by (cases s rule: rev_cases) (auto simp: whitespace_def split: if_splits)

lemma restore_loop_kept:
  "distinct dst \<Longrightarrow> (\<forall>d \<in> set dst. d < length ls \<and> is_dst (ls ! d)) \<Longrightarrow>
     length (fst (restore_loop src dst ls)) = length ls \<and>
     (\<forall>k < length ls. blank_added (ls ! k) (fst (restore_loop src dst ls) ! k) \<and>
        (k \<notin> set dst \<longrightarrow> fst (restore_loop src dst ls) ! k = ls ! k))"
proof (induction src dst ls rule: restore_loop.induct)
  case (3 s src d dst ls)
  define ls' where "ls' = (case whitespace (pl_line (ls ! s)) of
      Some (g1, g2) \<Rightarrow> if g1 = pl_line (ls ! d) then ls[d := append_to_line g2 (ls ! d)] else ls | None \<Rightarrow> ls)"
  have len: "length ls' = length ls" by (auto simp: ls'_def split: option.splits)
  have other: "k \<noteq> d \<Longrightarrow> ls' ! k = ls ! k" for k by (auto simp: ls'_def split: option.splits)
  have here: "blank_added (ls ! d) (ls' ! d)"
    using 3(3) by (auto simp: ls'_def blank_added_def split: option.splits dest!: whitespace_blank)
  have "\<forall>e \<in> set dst. e < length ls' \<and> is_dst (ls' ! e)" using 3(2,3) len other by (metis distinct.simps(2) list.set_intros(2))
  moreover have "distinct dst" using 3(2) by simp
  ultimately have IH: "length (fst (restore_loop src dst ls')) = length ls' \<and>
     (\<forall>k < length ls'. blank_added (ls' ! k) (fst (restore_loop src dst ls') ! k) \<and>
        (k \<notin> set dst \<longrightarrow> fst (restore_loop src dst ls') ! k = ls' ! k))"
    using 3(1) unfolding ls'_def by blast
  have run: "fst (restore_loop (s # src) (d # dst) ls) = fst (restore_loop src dst ls')" by (simp add: ls'_def)
  show ?case unfolding run using IH len other here 3(2)
    by (metis distinct.simps(2) set_ConsD list.set_intros)
qed (auto simp: blank_added_def)

lemma restore_chunk_kept: "chunk_kept c (fst (restore_chunk c))"
proof -
  have "distinct (chunk_dst c)" "\<forall>d \<in> set (chunk_dst c). d < length (pc_lines c) \<and> is_dst (pc_lines c ! d)"
    by (auto simp: chunk_dst_def)
  from restore_loop_kept [OF this, of "chunk_src c"] show ?thesis
    by (auto simp: chunk_kept_def restore_chunk_def list_all2_conv_all_nth split: prod.splits)
qed

lemma kept_refl [simp]: "chunk_kept c c" "patch_kept p p"
  by (auto simp: chunk_kept_def patch_kept_def blank_added_def list_all2_refl)

lemma restore_chunks_kept: "list_all2 chunk_kept cs (fst (restore_chunks cs))"
proof (induction cs rule: restore_chunks.induct)
  case (2 c cs)
  show ?case using 2 restore_chunk_kept [of c]
    by (cases "restore_chunk c"; cases "snd (restore_chunk c)") (auto simp: list_all2_refl split: prod.splits)
qed simp

text \<open>A replaced block: the old lines followed by as many new ones.\<close>

abbreviation Line :: "nat \<Rightarrow> string \<Rightarrow> patch_line" where
  "Line t s \<equiv> \<lparr>pl_type = t, pl_line = s\<rparr>"

definition block_chunk :: "int \<Rightarrow> int \<Rightarrow> string list \<Rightarrow> string list \<Rightarrow> patch_chunk" where
  "block_chunk a b xs ys = \<lparr>pc_lines = map (Line SRC) xs @ map (Line DST) ys, pc_src_pos = a, pc_dst_pos = b\<rparr>"

definition one_blank_less :: "string \<Rightarrow> string \<Rightarrow> bool" where
  "one_blank_less x y \<longleftrightarrow> y = x \<or> x = y @ '' '' \<or> x = y @ [tab]"

lemma filter_upt_split:
  "n \<le> m \<Longrightarrow> (\<And>i. i < m \<Longrightarrow> p i \<longleftrightarrow> i < n) \<Longrightarrow> filter p [0..<m] = [0..<n] \<and> filter (\<lambda>i. \<not> p i) [0..<m] = [n..<m]"
proof -
  assume n: "n \<le> m" and p: "\<And>i. i < m \<Longrightarrow> p i \<longleftrightarrow> i < n"
  have m: "[0..<m] = [0..<n] @ [n..<m]" using n by (metis le_add_diff_inverse upt_add_eq_append zero_le)
  show ?thesis unfolding m filter_append using p n
    by (intro conjI) (simp_all add: filter_empty_conv filter_id_conv)
qed

lemma block_indices:
  assumes "length ys = length xs"
  shows "chunk_src (block_chunk a b xs ys) = [0..<length xs]"
    "chunk_dst (block_chunk a b xs ys) = [length xs..<length xs + length xs]"
proof -
  let ?ls = "pc_lines (block_chunk a b xs ys)" and ?n = "length xs"
  have len: "length ?ls = ?n + ?n" using assms by (simp add: block_chunk_def)
  have k: "i < ?n + ?n \<Longrightarrow> pl_type (?ls ! i) = (if i < ?n then SRC else DST)" for i
    using assms by (auto simp: block_chunk_def nth_append)
  have s: "i < ?n + ?n \<Longrightarrow> is_src (?ls ! i) \<longleftrightarrow> i < ?n" and d: "i < ?n + ?n \<Longrightarrow> is_dst (?ls ! i) \<longleftrightarrow> \<not> i < ?n" for i
    using k [of i] by (auto simp: is_src_def is_dst_def)
  have "filter (\<lambda>i. is_dst (?ls ! i)) [0..<?n + ?n] = filter (\<lambda>i. \<not> is_src (?ls ! i)) [0..<?n + ?n]"
    by (rule filter_cong [OF refl]) (use s d in auto)
  then show "chunk_src (block_chunk a b xs ys) = [0..<?n]" "chunk_dst (block_chunk a b xs ys) = [?n..<?n + ?n]"
    using filter_upt_split [of ?n "?n + ?n" "\<lambda>i. is_src (?ls ! i)"] s by (simp_all add: chunk_src_def chunk_dst_def len)
qed

lemma restore_one:
  assumes "one_blank_less x y"
  shows "(case whitespace x of Some (g1, g2) \<Rightarrow> if g1 = y then y @ g2 else y | None \<Rightarrow> y) = x"
  using assms by (cases x rule: rev_cases) (auto simp: one_blank_less_def whitespace_def)

lemma upd_mix:
  "i < length xs \<Longrightarrow> length ys = length xs \<Longrightarrow>
     (take i xs @ drop i ys)[i := xs ! i] = take (Suc i) xs @ drop (Suc i) ys"
  by (simp add: list_update_append take_Suc_conv_app_nth Cons_nth_drop_Suc [symmetric])

lemma restore_block:
  assumes len: "length ys = length xs" and p: "\<forall>i < length xs. one_blank_less (xs ! i) (ys ! i)" and "i \<le> length xs"
  shows "restore_loop [i..<length xs] [length xs + i..<length xs + length xs]
      (map (Line SRC) xs @ map (Line DST) (take i xs @ drop i ys)) =
    (map (Line SRC) xs @ map (Line DST) xs, False)"
  using assms(3)
proof (induction "length xs - i" arbitrary: i)
  case 0
  then show ?case using len by simp
next
  case (Suc k)
  let ?n = "length xs" and ?ls = "map (Line SRC) xs @ map (Line DST) (take i xs @ drop i ys)"
  have i: "i < ?n" using Suc by simp
  have s: "?ls ! i = Line SRC (xs ! i)" using i by (simp add: nth_append)
  have d: "?ls ! (?n + i) = Line DST (ys ! i)" using i len by (simp add: nth_append)
  have up: "?ls[?n + i := Line DST (xs ! i)] = map (Line SRC) xs @ map (Line DST) (take (Suc i) xs @ drop (Suc i) ys)"
  proof -
    have "(map (Line DST) (take i xs @ drop i ys))[i := Line DST (xs ! i)] =
        map (Line DST) ((take i xs @ drop i ys)[i := xs ! i])" by (rule map_update [symmetric])
    then show ?thesis unfolding upd_mix [OF i len]
      by (simp only: list_update_append length_map not_add_less1 if_False diff_add_inverse)
  qed
  have new: "(case whitespace (pl_line (?ls ! i)) of
      Some (g1, g2) \<Rightarrow> if g1 = pl_line (?ls ! (?n + i)) then ?ls[?n + i := append_to_line g2 (?ls ! (?n + i))] else ?ls
    | None \<Rightarrow> ?ls) = ?ls[?n + i := Line DST (xs ! i)]"
  proof -
    have keep: "?ls = ?ls[?n + i := Line DST (ys ! i)]" using d by (metis list_update_id)
    show ?thesis using restore_one [of "xs ! i" "ys ! i"] p i keep
      unfolding s d by (auto simp: append_to_line_def split: option.splits if_splits)
  qed
  have "[i..<?n] = i # [Suc i..<?n]" "[?n + i..<?n + ?n] = (?n + i) # [?n + Suc i..<?n + ?n]"
    using i by (simp_all add: upt_conv_Cons)
  then show ?case using Suc.hyps(1) [of "Suc i"] Suc.hyps(2) i by (simp only: restore_loop.simps new up)
qed

section \<open>Properties\<close>

text \<open>
  C21: writing patches and parsing the file gives them back, provided no text holds a newline, no
  removed line starts with two dashes and a space, and no added line with two plus signs and a
  space (those are read as file headers).\<close>
theorem parse_write_roundtrip:
  assumes "list_all wf_patch ps"
  shows "\<exists>wss. rmap write_patch ps = Inr wss \<and>
    parse_patchset (file_lines (concat (concat wss))) = Inr ps"
proof -
  from parse_written_patches [OF assms, of "[]" None] obtain wss y where
    w: "rmap write_patch ps = Inr wss" "proper_lines (concat wss)" "parse_lines ([], None) (concat wss) = Inr (ps, y)"
    by auto
  then show ?thesis by (simp add: parse_patchset_def file_lines_concat)
qed

definition demo_patch :: patch where
  "demo_patch = \<lparr>p_src = ''a'', p_dst = ''b'', p_chunks = [block_chunk 1 1 [''x '', ''y''] [''x'', ''y'']]\<rparr>"

theorem parse_write_roundtrip_witness:
  "\<exists>wss. rmap write_patch [demo_patch] = Inr wss \<and>
     parse_patchset (file_lines (concat (concat wss))) = Inr [demo_patch]"
  by (rule parse_write_roundtrip)
    (simp add: demo_patch_def wf_patch_def wf_chunk_def wf_line_def block_chunk_def startswith_def)

lemma restore_patches_kept: "list_all2 patch_kept ps (restore_patches ps)"
proof (induction ps rule: restore_patches.induct)
  case (2 p ps)
  obtain cs stop where r: "restore_chunks (p_chunks p) = (cs, stop)" by (cases "restore_chunks (p_chunks p)")
  then have "patch_kept p (p\<lparr>p_chunks := cs\<rparr>)"
    using restore_chunks_kept [of "p_chunks p"] by (simp add: patch_kept_def)
  then show ?case using 2 [OF r [symmetric]] r by (cases stop) (auto simp: list_all2_refl)
qed simp

text \<open>
  C22: the whitespace pass undoes changes of one trailing blank and nothing else.  Whatever the patches,
  it changes nothing but lines of the new file (added and context lines), and each of those by at most one
  blank at its end: patches, chunks, positions, kinds and removed lines stay as they are.  And where a block
  of lines was replaced by as many lines that differ at most by one blank missing at the end, the pass over
  that chunk gives every new line the text of the old one, so that the change disappears.\<close>
theorem whitespace_pass_correct:
  assumes "length ys = length xs" "\<forall>i < length xs. one_blank_less (xs ! i) (ys ! i)"
  shows "restore_chunk (block_chunk a b xs ys) = (block_chunk a b xs xs, False) \<and>
    list_all2 patch_kept ps (restore_patches ps)"
  using restore_block [OF assms, of 0] block_indices [OF assms(1), of a b] restore_patches_kept
  by (simp add: restore_chunk_def) (simp add: block_chunk_def)

theorem whitespace_pass_correct_witness:
  "restore_chunk (block_chunk 1 1 [''x '', ''y''] [''x'', ''y'']) = (block_chunk 1 1 [''x '', ''y''] [''x '', ''y''], False)"
  using whitespace_pass_correct [of "[''x'', ''y'']" "[''x '', ''y'']" 1 1 "[]"]
  by (auto simp: one_blank_less_def less_Suc_eq nth_Cons split: nat.splits)

definition demo_tools :: tools where
  "demo_tools = \<lparr>uncrustify = (\<lambda>cfg s. s), unified_diff = (\<lambda>a b. []), patch_tool = (\<lambda>d s. s),
     same_signature = (\<lambda>f s r. False)\<rparr>"

text \<open>
  With \<open>--debug\<close> the checker reports every existing file as correct, whatever uncrustify makes
  of it: writing the diff to the debug file uses up the generator, so the diff that is applied is
  empty (and an empty patch leaves a text as it is).\<close>
theorem debug_hides_style_errors:
  assumes "\<And>s. patch_tool t '''' s = s" "\<forall>f \<in> set names. fs f \<noteq> None"
  shows "indent_files t fs names True level False = Inr (True, fs)"
proof -
  have "indent t True level s = Inr s" for s
    using assms(1) by (simp add: indent_def final_diff_def remove_trailing_whitespace_changes_def parse_patchset_def)
  then have "rmap (\<lambda>f. case fs f of None \<Rightarrow> Inl (FileNotFoundError f)
      | Some source \<Rightarrow> rbind (indent t True level source) (\<lambda>r. Inr (f, r))) names = Inr (map (\<lambda>f. (f, the (fs f))) names)"
    using assms(2) by (intro rmap_Inr) auto
  then show ?thesis using assms(2) by (auto simp: indent_files_def filecmp_cmp_def filter_empty_conv)
qed

theorem debug_hides_style_errors_witness:
  "indent_files (demo_tools\<lparr>uncrustify := (\<lambda>cfg s. ''bad'' @ s)\<rparr>) [''f.cc'' \<mapsto> ''int x;''] [''f.cc''] True 0 False =
     Inr (True, [''f.cc'' \<mapsto> ''int x;''])"
  by (rule debug_hides_style_errors) (simp_all add: demo_tools_def)

text \<open>
  Three limits of the parser and of the pass: a removed line that starts with two dashes becomes a
  second patch; a hunk of one line, whose header has no comma, is rejected; and of two blanks at the end
  of a line none is restored.  A context line may gain a blank, too.
\<close>

lemma dashes_misread:
  "\<exists>p q. parse_patchset [''--- a'', ''+++ b'', ''@@ -1,1 +1,0 @@'', ''--- x''] = Inr [p, q] \<and> p_src q = ''x''"
  by (simp add: parse_patchset_def parse_line_def match_prefix_def startswith_def rest_of_line_def
      match_chunk_start_def expect_def take_number_def is_digit_def digits_value_def)

lemma single_line_hunk_rejected: "parse_patchset [''--- a'', ''+++ b'', ''@@ -1 +1 @@''] = Inl (PlainException '''')"
  by (simp add: parse_patchset_def parse_line_def match_prefix_def startswith_def rest_of_line_def
      match_chunk_start_def expect_def take_number_def is_digit_def digits_value_def)

lemma two_blanks_not_restored: "restore_chunk (block_chunk 1 1 [''x  ''] [''x'']) = (block_chunk 1 1 [''x  ''] [''x''], False)"
  by code_simp

lemma context_line_changed:
  "restore_loop [0, 1] [1] [Line SRC ''x '', Line BOTH ''x''] = ([Line SRC ''x '', Line BOTH ''x ''], True)"
  by code_simp

lemma config_levels: "prefix (uncrustify_config_file 0) (uncrustify_config_file 1) \<and>
    prefix (uncrustify_config_file 1) (uncrustify_config_file 2) \<and>
    (2 \<le> level \<longrightarrow> uncrustify_config_file level = uncrustify_config_file 2)"
  by (simp add: uncrustify_config_file_def)

end
