(* ===== verification/GridData.thy ===== *)
theory GridData
  imports CheckStyle
begin

text \<open>
  The data of the timeline viewer \<^verbatim>\<open>utils/grid.py\<close>: ranges and events, their binary
  searches, \<open>Timeline\<close> and \<open>Timelines\<close>, \<open>Colors\<close>, the reader \<open>read_data\<close>, and the tick
  distance that \<open>ScaleRenderer.layout\<close> chooses.  The script is Python 2 code; its integers are
  unbounded and \<open>/\<close> on them rounds down.
\<close>

section \<open>Ranges and events\<close>

record data_range =
  dr_start :: int
  dr_end :: int
  dr_value :: string

record 'v timed_event =
  ev_at :: int
  ev_value :: 'v

definition ranges_cmp :: "data_range \<Rightarrow> data_range \<Rightarrow> int" where
  "ranges_cmp a b = (let diff = dr_start a - dr_start b in if diff < 0 then - 1 else if 0 < diff then 1 else 0)"

definition events_cmp :: "'v timed_event \<Rightarrow> 'v timed_event \<Rightarrow> int" where
  "events_cmp a b = (let diff = ev_at a - ev_at b in if diff < 0 then - 1 else if 0 < diff then 1 else 0)"

text \<open>\<open>list.sort(cmp)\<close> is stable; here as insertion from the right.\<close>

fun insert_cmp :: "('a \<Rightarrow> 'a \<Rightarrow> int) \<Rightarrow> 'a \<Rightarrow> 'a list \<Rightarrow> 'a list" where
  "insert_cmp cmp x [] = [x]"
| "insert_cmp cmp x (y # ys) = (if cmp x y \<le> 0 then x # y # ys else y # insert_cmp cmp x ys)"

definition sort_cmp :: "('a \<Rightarrow> 'a \<Rightarrow> int) \<Rightarrow> 'a list \<Rightarrow> 'a list" where
  "sort_cmp cmp xs = foldr (insert_cmp cmp) xs []"

lemma insert_cmp_ranges: "insert_cmp ranges_cmp x xs = insort_key dr_start x xs"
  by (induction xs) (simp_all add: ranges_cmp_def Let_def)

lemma insert_cmp_events: "insert_cmp events_cmp x xs = insort_key ev_at x xs"
  by (induction xs) (simp_all add: events_cmp_def Let_def)

lemma sort_ranges: "sort_cmp ranges_cmp xs = sort_key dr_start xs"
  by (simp add: sort_cmp_def sort_key_def insert_cmp_ranges fun_eq_iff cong: foldr_cong)

lemma sort_events: "sort_cmp events_cmp xs = sort_key ev_at xs"
  by (simp add: sort_cmp_def sort_key_def insert_cmp_events fun_eq_iff cong: foldr_cong)

section \<open>Binary search\<close>

text \<open>\<open>TimelineDataRange.__search\<close>: the bounds are Python integers, \<open>u\<close> may become \<open>-1\<close>.\<close>

function search_ranges :: "data_range list \<Rightarrow> int \<Rightarrow> int \<Rightarrow> int \<Rightarrow> int" where
  "search_ranges rs key l u =
     (if l \<le> u then
        (let i = (l + u) div 2; r = rs ! nat i
         in if dr_start r \<le> key \<and> key \<le> dr_end r then i
            else if key < dr_start r then search_ranges rs key l (i - 1)
            else search_ranges rs key (i + 1) u)
      else - 1)"
  by pat_completeness auto
termination
  by (relation "measure (\<lambda>(rs, key, l, u). nat (u + 1 - l))") auto

declare search_ranges.simps [simp del]

definition range_search :: "data_range list \<Rightarrow> int \<Rightarrow> int" where
  "range_search rs key = search_ranges rs key 0 (int (length rs) - 1)"

function search_events :: "'v timed_event list \<Rightarrow> int \<Rightarrow> int \<Rightarrow> int \<Rightarrow> int" where
  "search_events es key l u =
     (if l \<le> u then
        (let i = (l + u) div 2; e = es ! nat i
         in if key = ev_at e then i
            else if key < ev_at e then search_events es key l (i - 1)
            else search_events es key (i + 1) u)
      else l)"
  by pat_completeness auto
termination
  by (relation "measure (\<lambda>(es, key, l, u). nat (u + 1 - l))") auto

declare search_events.simps [simp del]

definition event_search :: "'v timed_event list \<Rightarrow> int \<Rightarrow> int" where
  "event_search es key = search_events es key 0 (int (length es) - 1)"

section \<open>Timelines\<close>

record timeline_data_range =
  tdr_name :: string
  tdr_ranges :: "data_range list"

definition get_ranges_bounds :: "data_range list \<Rightarrow> int \<Rightarrow> int \<Rightarrow> int \<times> int" where
  "get_ranges_bounds rs start end =
     (let s = range_search rs start; e = range_search rs end
      in if s = - 1 \<and> e = - 1 then (0, 0)
         else if s = - 1 then (0, e + 1)
         else if e = - 1 then (s, int (length rs))
         else (s, e + 1))"

definition get_ranges :: "data_range list \<Rightarrow> int \<Rightarrow> int \<Rightarrow> data_range list" where
  "get_ranges rs start end =
     (let s = range_search rs start; e = range_search rs end
      in if s = - 1 \<and> e = - 1 then []
         else if s = - 1 then slice rs 0 (e + 1)
         else if e = - 1 then slice rs s (int (length rs))
         else slice rs s (e + 1))"

definition range_bounds :: "data_range list \<Rightarrow> int \<times> int" where
  "range_bounds rs = (if 0 < length rs then (dr_start (rs ! 0), dr_end (rs ! (length rs - 1))) else (0, 0))"

record 'v timeline_event =
  te_name :: string
  te_events :: "'v timed_event list"

definition get_events :: "'v timed_event list \<Rightarrow> int \<Rightarrow> int \<Rightarrow> 'v timed_event list" where
  "get_events es start end = slice es (event_search es start) (event_search es end + 1)"

definition get_events_bounds :: "'v timed_event list \<Rightarrow> int \<Rightarrow> int \<Rightarrow> int \<times> int" where
  "get_events_bounds es start end = (event_search es start, event_search es end + 1)"

definition event_bounds :: "'v timed_event list \<Rightarrow> int \<times> int" where
  "event_bounds es = (if 0 < length es then (ev_at (es ! 0), ev_at (last es)) else (0, 0))"

record timeline =
  tl_name :: string
  tl_ranges :: "timeline_data_range list"
  tl_event_str :: "string timeline_event list"
  tl_event_int :: "int timeline_event list"

text \<open>
  \<open>get_range\<close>, \<open>get_event_str\<close>, \<open>get_event_int\<close> and \<open>Timelines.get\<close> return the object of that
  name, or append a new one; what the caller does to it is the function \<open>upd\<close>.
\<close>

fun on_named :: "('a \<Rightarrow> string) \<Rightarrow> (string \<Rightarrow> 'a) \<Rightarrow> string \<Rightarrow> ('a \<Rightarrow> 'a) \<Rightarrow> 'a list \<Rightarrow> 'a list" where
  "on_named nm new name upd [] = [upd (new name)]"
| "on_named nm new name upd (x # xs) = (if nm x = name then upd x # xs else x # on_named nm new name upd xs)"

definition new_timeline :: "string \<Rightarrow> timeline" where
  "new_timeline name = \<lparr>tl_name = name, tl_ranges = [], tl_event_str = [], tl_event_int = []\<rparr>"

definition get_range :: "string \<Rightarrow> (timeline_data_range \<Rightarrow> timeline_data_range) \<Rightarrow> timeline \<Rightarrow> timeline" where
  "get_range name upd t =
     t\<lparr>tl_ranges := on_named tdr_name (\<lambda>n. \<lparr>tdr_name = n, tdr_ranges = []\<rparr>) name upd (tl_ranges t)\<rparr>"

definition get_event_str :: "string \<Rightarrow> (string timeline_event \<Rightarrow> string timeline_event) \<Rightarrow> timeline \<Rightarrow> timeline" where
  "get_event_str name upd t =
     t\<lparr>tl_event_str := on_named te_name (\<lambda>n. \<lparr>te_name = n, te_events = []\<rparr>) name upd (tl_event_str t)\<rparr>"

definition get_event_int :: "string \<Rightarrow> (int timeline_event \<Rightarrow> int timeline_event) \<Rightarrow> timeline \<Rightarrow> timeline" where
  "get_event_int name upd t =
     t\<lparr>tl_event_int := on_named te_name (\<lambda>n. \<lparr>te_name = n, te_events = []\<rparr>) name upd (tl_event_int t)\<rparr>"

definition timelines_get :: "string \<Rightarrow> (timeline \<Rightarrow> timeline) \<Rightarrow> timeline list \<Rightarrow> timeline list" where
  "timelines_get name upd ts = on_named tl_name new_timeline name upd ts"

definition timeline_sort :: "timeline \<Rightarrow> timeline" where
  "timeline_sort t =
     t\<lparr>tl_ranges := map (\<lambda>r. r\<lparr>tdr_ranges := sort_cmp ranges_cmp (tdr_ranges r)\<rparr>) (tl_ranges t),
       tl_event_int := map (\<lambda>e. e\<lparr>te_events := sort_cmp events_cmp (te_events e)\<rparr>) (tl_event_int t),
       tl_event_str := map (\<lambda>e. e\<lparr>te_events := sort_cmp events_cmp (te_events e)\<rparr>) (tl_event_str t)\<rparr>"

definition timelines_sort :: "timeline list \<Rightarrow> timeline list" where
  "timelines_sort ts = map timeline_sort ts"

definition widen :: "int \<times> int \<Rightarrow> int \<times> int \<Rightarrow> int \<times> int" where
  "widen b c = (if fst c < fst b then fst c else fst b, if snd b < snd c then snd c else snd b)"

definition timeline_bounds :: "timeline \<Rightarrow> int \<times> int" where
  "timeline_bounds t =
     (let b = foldl widen (0, 0) (map (\<lambda>r. range_bounds (tdr_ranges r)) (tl_ranges t));
          b = foldl widen b (map (\<lambda>e. event_bounds (te_events e)) (tl_event_str t))
      in foldl widen b (map (\<lambda>e. event_bounds (te_events e)) (tl_event_int t)))"

definition timelines_bounds :: "timeline list \<Rightarrow> int \<times> int" where
  "timelines_bounds ts = foldl widen (0, 0) (map timeline_bounds ts)"

text \<open>The keys of the dictionary that has every value of a range as key.\<close>

definition get_all_range_values :: "timeline list \<Rightarrow> string list" where
  "get_all_range_values ts =
     keys (foldl (\<lambda>d v. AList.update v (1 :: int) d) []
       (concat (map (\<lambda>t. concat (map (\<lambda>r. map dr_value (tdr_ranges r)) (tl_ranges t))) ts)))"

section \<open>Colours\<close>

record color =
  c_r :: int
  c_g :: int
  c_b :: int

abbreviation rgb :: "int \<Rightarrow> int \<Rightarrow> int \<Rightarrow> color" where
  "rgb r g b \<equiv> \<lparr>c_r = r, c_g = g, c_b = b\<rparr>"

text \<open>
  \<open>default_colors\<close> is an attribute of the class that all instances share; \<open>read_data\<close> makes the only
  instance, so the list is kept in its record.
\<close>

record colors =
  assigned :: "(string \<times> color) list"
  default_colors :: "color list"

definition start_colors :: colors where
  "start_colors = \<lparr>assigned = [], default_colors =
     [rgb 1 0 0, rgb 0 1 0, rgb 0 0 1, rgb 1 1 0, rgb 1 0 1, rgb 0 1 1]\<rparr>"

definition add_color :: "string \<Rightarrow> color \<Rightarrow> colors \<Rightarrow> colors" where
  "add_color name c cs = cs\<lparr>assigned := AList.update name c (assigned cs)\<rparr>"

definition lookup_color :: "string \<Rightarrow> colors \<Rightarrow> (color \<times> colors) res" where
  "lookup_color name cs =
     (case map_of (assigned cs) name of
        Some c \<Rightarrow> Inr (c, cs)
      | None \<Rightarrow>
          (if default_colors cs = [] then Inl IndexError
           else
             (let c = last (default_colors cs)
              in Inr (c, add_color name c (cs\<lparr>default_colors := butlast (default_colors cs)\<rparr>)))))"

section \<open>read\_data\<close>

definition all_digits :: "string \<Rightarrow> bool" where
  "all_digits s \<longleftrightarrow> s \<noteq> [] \<and> list_all is_digit s"

definition lead_digits :: "string \<Rightarrow> string" where
  "lead_digits s = takeWhile is_digit s"

definition hex_val :: "char \<Rightarrow> int option" where
  "hex_val c =
     (let n = of_char c :: nat
      in if 48 \<le> n \<and> n \<le> 57 then Some (int n - 48)
         else if 97 \<le> n \<and> n \<le> 102 then Some (int n - 87)
         else if 65 \<le> n \<and> n \<le> 70 then Some (int n - 55) else None)"

definition hex2 :: "string \<Rightarrow> int option" where
  "hex2 s = (if length s \<noteq> 2 then None else
     Option.bind (hex_val (s ! 0)) (\<lambda>a. Option.bind (hex_val (s ! 1)) (\<lambda>b. Some (16 * a + b))))"

datatype entry =
    RangeLine string string data_range
  | EventStrLine string string "string timed_event"
  | EventIntLine string string "int timed_event"
  | ColorLine string color

text \<open>
  The four patterns, which are anchored at the start of the line only.  Their groups are separated by
  single blanks, and the last group of digits may be followed by anything.
\<close>

definition match_line :: "string \<Rightarrow> entry option" where
  "match_line line =
     (let w = split_on (CHR '' '') line
      in if 6 \<le> length w \<and> w ! 0 = ''range'' \<and> w ! 1 \<noteq> '''' \<and> w ! 2 \<noteq> '''' \<and> w ! 3 \<noteq> '''' \<and>
            all_digits (w ! 4) \<and> lead_digits (w ! 5) \<noteq> '''' then
           Some (RangeLine (w ! 1) (w ! 2)
             \<lparr>dr_start = digits_value (w ! 4), dr_end = digits_value (lead_digits (w ! 5)), dr_value = w ! 3\<rparr>)
         else if 5 \<le> length w \<and> w ! 0 = ''event-str'' \<and> w ! 1 \<noteq> '''' \<and> w ! 2 \<noteq> '''' \<and> w ! 3 \<noteq> '''' \<and>
            lead_digits (w ! 4) \<noteq> '''' then
           Some (EventStrLine (w ! 1) (w ! 2) \<lparr>ev_at = digits_value (lead_digits (w ! 4)), ev_value = w ! 3\<rparr>)
         else if 5 \<le> length w \<and> w ! 0 = ''event-int'' \<and> w ! 1 \<noteq> '''' \<and> w ! 2 \<noteq> '''' \<and>
            all_digits (w ! 3) \<and> lead_digits (w ! 4) \<noteq> '''' then
           Some (EventIntLine (w ! 1) (w ! 2)
             \<lparr>ev_at = digits_value (lead_digits (w ! 4)), ev_value = digits_value (w ! 3)\<rparr>)
         else if 3 \<le> length w \<and> w ! 0 = ''color'' \<and> w ! 1 \<noteq> '''' \<and> take 1 (w ! 2) = ''#'' then
           (case (hex2 (take 2 (drop 1 (w ! 2))), hex2 (take 2 (drop 3 (w ! 2))), hex2 (take 2 (drop 5 (w ! 2)))) of
              (Some r, Some g, Some b) \<Rightarrow> Some (ColorLine (w ! 1) (rgb (r div 255) (g div 255) (b div 255)))
            | _ \<Rightarrow> None)
         else None)"

fun add_entry :: "colors \<times> timeline list \<Rightarrow> entry option \<Rightarrow> colors \<times> timeline list" where
  "add_entry (cs, ts) None = (cs, ts)"
| "add_entry (cs, ts) (Some (RangeLine a b d)) =
     (cs, timelines_get a (get_range b (\<lambda>r. r\<lparr>tdr_ranges := tdr_ranges r @ [d]\<rparr>)) ts)"
| "add_entry (cs, ts) (Some (EventStrLine a b e)) =
     (cs, timelines_get a (get_event_str b (\<lambda>l. l\<lparr>te_events := te_events l @ [e]\<rparr>)) ts)"
| "add_entry (cs, ts) (Some (EventIntLine a b e)) =
     (cs, timelines_get a (get_event_int b (\<lambda>l. l\<lparr>te_events := te_events l @ [e]\<rparr>)) ts)"
| "add_entry (cs, ts) (Some (ColorLine n c)) = (add_color n c cs, ts)"

definition read_data :: "string \<Rightarrow> colors \<times> timeline list" where
  "read_data contents =
     (let (cs, ts) = foldl add_entry (start_colors, []) (map match_line (file_lines contents))
      in (cs, timelines_sort ts))"

section \<open>The scale\<close>

text \<open>
  \<open>ScaleRenderer.layout\<close> and the ticks of \<open>ScaleRenderer.draw\<close>, for integer bounds \<open>lo\<close> and \<open>hi\<close>,
  which is what \<open>main\<close> starts with.
\<close>

function closest_loop :: "int \<Rightarrow> int \<Rightarrow> int" where
  "closest_loop data_delta closest =
     (if 0 < closest \<and> closest * 10 < data_delta then closest_loop data_delta (closest * 10) else closest)"
  by pat_completeness auto
termination
  by (relation "measure (\<lambda>(d, c). nat (d - c))") auto

declare closest_loop.simps [simp del]

definition scale_delta :: "int \<Rightarrow> int \<Rightarrow> int res" where
  "scale_delta lo hi =
     (let data_delta = hi - lo;
          closest = closest_loop data_delta 1;
          delta = (if data_delta div closest = 0 then closest
                   else if data_delta div closest = 1 then closest div 10 else closest)
      in if delta = 0 then Inl ZeroDivisionError else Inr delta)"

definition scale_ticks :: "int \<Rightarrow> int \<Rightarrow> int \<Rightarrow> int list" where
  "scale_ticks lo hi delta =
     (let start = lo - lo mod delta + delta; end = hi - hi mod delta
      in map (\<lambda>k. start + int k * delta) [0..<nat ((end - start) div delta + 1)])"

section \<open>Correctness of the searches\<close>

abbreviation covers :: "data_range \<Rightarrow> int \<Rightarrow> bool" where
  "covers r key \<equiv> dr_start r \<le> key \<and> key \<le> dr_end r"

definition wf_ranges :: "data_range list \<Rightarrow> bool" where
  "wf_ranges rs \<longleftrightarrow> sorted_wrt (\<lambda>a b. dr_end a < dr_start b) rs \<and> (\<forall>r \<in> set rs. dr_start r \<le> dr_end r)"

lemma wf_ranges_nth: "wf_ranges rs \<Longrightarrow> i < j \<Longrightarrow> j < length rs \<Longrightarrow> dr_end (rs ! i) < dr_start (rs ! j)"
  by (simp add: wf_ranges_def sorted_wrt_iff_nth_less)

lemma wf_ranges_le: "wf_ranges rs \<Longrightarrow> i < length rs \<Longrightarrow> dr_start (rs ! i) \<le> dr_end (rs ! i)"
  by (simp add: wf_ranges_def)

lemma search_ranges_spec:
  "wf_ranges rs \<Longrightarrow> 0 \<le> l \<Longrightarrow> u < int (length rs) \<Longrightarrow>
     (search_ranges rs key l u = - 1 \<and> (\<forall>k. l \<le> k \<and> k \<le> u \<longrightarrow> \<not> covers (rs ! nat k) key)) \<or>
     (l \<le> search_ranges rs key l u \<and> search_ranges rs key l u \<le> u \<and> covers (rs ! nat (search_ranges rs key l u)) key)"
proof (induction rs key l u rule: search_ranges.induct)
  case (1 rs key l u)
  show ?case
  proof (cases "l \<le> u")
    case False
    then show ?thesis by (simp add: search_ranges.simps [of rs key l u])
  next
    case True
    define i where "i = (l + u) div 2"
    have i: "l \<le> i" "i \<le> u" using True by (auto simp: i_def)
    have idx: "nat i < length rs" using i 1(3,4,5) by simp
    consider (hit) "covers (rs ! nat i) key" | (low) "key < dr_start (rs ! nat i)"
      | (high) "dr_start (rs ! nat i) \<le> key" "dr_end (rs ! nat i) < key" by linarith
    then show ?thesis
    proof cases
      case hit
      then have "search_ranges rs key l u = i" using True by (simp add: search_ranges.simps [of rs key l u] i_def)
      then show ?thesis using hit i by simp
    next
      case low
      have rec: "search_ranges rs key l u = search_ranges rs key l (i - 1)"
        using low True by (simp add: search_ranges.simps [of rs key l u] i_def Let_def)
      have above: "\<not> covers (rs ! nat k) key" if "i \<le> k" "k \<le> u" for k
      proof (cases "k = i")
        case False
        then have "nat i < nat k" "nat k < length rs" using that i 1(4,5) by (auto simp: nat_less_iff)
        from wf_ranges_nth [OF 1(3) this] low wf_ranges_le [OF 1(3) idx] show ?thesis by linarith
      qed (use low in simp)
      have cond: "\<not> covers (rs ! nat i) key" using low by simp
      have "i - 1 < int (length rs)" using i 1(5) by simp
      from 1(1) [OF True i_def refl cond low 1(3,4) this] show ?thesis unfolding rec
      proof (elim disjE conjE)
        assume "search_ranges rs key l (i - 1) = - 1" "\<forall>k. l \<le> k \<and> k \<le> i - 1 \<longrightarrow> \<not> covers (rs ! nat k) key"
        then show "search_ranges rs key l (i - 1) = - 1 \<and> (\<forall>k. l \<le> k \<and> k \<le> u \<longrightarrow> \<not> covers (rs ! nat k) key) \<or>
            l \<le> search_ranges rs key l (i - 1) \<and> search_ranges rs key l (i - 1) \<le> u \<and>
            covers (rs ! nat (search_ranges rs key l (i - 1))) key"
          using above by (metis zle_diff1_eq not_le)
      qed (use i in auto)
    next
      case high
      have rec: "search_ranges rs key l u = search_ranges rs key (i + 1) u"
        using high True by (simp add: search_ranges.simps [of rs key l u] i_def Let_def)
      have below: "\<not> covers (rs ! nat k) key" if "l \<le> k" "k \<le> i" for k
      proof (cases "k = i")
        case False
        then have "nat k < nat i" using that i 1(4,5) by auto
        from wf_ranges_nth [OF 1(3) this idx] high show ?thesis by linarith
      qed (use high in simp)
      have cond: "\<not> covers (rs ! nat i) key" "\<not> key < dr_start (rs ! nat i)" using high by simp_all
      have "0 \<le> i + 1" using i 1(4) by simp
      from 1(2) [OF True i_def refl cond 1(3) this 1(5)] show ?thesis unfolding rec
      proof (elim disjE conjE)
        assume "search_ranges rs key (i + 1) u = - 1" "\<forall>k. i + 1 \<le> k \<and> k \<le> u \<longrightarrow> \<not> covers (rs ! nat k) key"
        then show "search_ranges rs key (i + 1) u = - 1 \<and> (\<forall>k. l \<le> k \<and> k \<le> u \<longrightarrow> \<not> covers (rs ! nat k) key) \<or>
            l \<le> search_ranges rs key (i + 1) u \<and> search_ranges rs key (i + 1) u \<le> u \<and>
            covers (rs ! nat (search_ranges rs key (i + 1) u)) key"
          using below by (metis add1_zle_eq not_le)
      qed (use i in auto)
    qed
  qed
qed

lemma covers_unique: "wf_ranges rs \<Longrightarrow> i < length rs \<Longrightarrow> j < length rs \<Longrightarrow> covers (rs ! i) key \<Longrightarrow> covers (rs ! j) key \<Longrightarrow> i = j"
  using wf_ranges_nth [of rs i j] wf_ranges_nth [of rs j i] by (cases i j rule: linorder_cases) auto

lemma range_search_found: "wf_ranges rs \<Longrightarrow> i < length rs \<Longrightarrow> covers (rs ! i) key \<Longrightarrow> range_search rs key = int i"
proof -
  assume wf: "wf_ranges rs" and i: "i < length rs" "covers (rs ! i) key"
  let ?k = "search_ranges rs key 0 (int (length rs) - 1)"
  from search_ranges_spec [OF wf, of 0 "int (length rs) - 1" key] i
  have k: "0 \<le> ?k" "?k < int (length rs)" "covers (rs ! nat ?k) key" by (auto dest: spec [of _ "int i"])
  then have "nat ?k = i" using covers_unique [OF wf, of "nat ?k" i key] i by simp
  then show ?thesis using k(1) by (simp add: range_search_def)
qed

lemma range_search_missed: "wf_ranges rs \<Longrightarrow> (\<forall>r \<in> set rs. \<not> covers r key) \<Longrightarrow> range_search rs key = - 1"
proof -
  assume wf: "wf_ranges rs" and none: "\<forall>r \<in> set rs. \<not> covers r key"
  let ?k = "search_ranges rs key 0 (int (length rs) - 1)"
  have "\<not> (0 \<le> ?k \<and> ?k \<le> int (length rs) - 1 \<and> covers (rs ! nat ?k) key)"
    using none nth_mem [of "nat ?k" rs] by auto
  moreover have "?k = - 1 \<or> (0 \<le> ?k \<and> ?k \<le> int (length rs) - 1 \<and> covers (rs ! nat ?k) key)"
    using search_ranges_spec [OF wf, of 0 "int (length rs) - 1" key] by linarith
  ultimately show ?thesis unfolding range_search_def by blast
qed

text \<open>A filter that keeps a block of indices is a slice.\<close>

lemma filter_block:
  assumes "\<And>k. k < length xs \<Longrightarrow> p (xs ! k) \<longleftrightarrow> i \<le> k \<and> k < j"
  shows "filter p xs = take (j - i) (drop i xs)"
proof -
  have split: "xs = take i xs @ take (j - i) (drop i xs) @ drop (j - i) (drop i xs)"
    by (simp only: append_take_drop_id)
  have "filter p (take i xs) = []" using assms by (auto simp: filter_empty_conv in_set_conv_nth)
  moreover have "filter p (take (j - i) (drop i xs)) = take (j - i) (drop i xs)"
    using assms by (auto simp: filter_id_conv in_set_conv_nth)
  moreover have "filter p (drop (j - i) (drop i xs)) = []"
    using assms by (auto simp: filter_empty_conv in_set_conv_nth)
  ultimately show ?thesis by (subst split, simp only: filter_append) simp
qed

lemma event_count:
  assumes "i \<le> length es" "\<And>k. k < i \<Longrightarrow> ev_at (es ! k) < key" "\<And>k. i \<le> k \<Longrightarrow> k < length es \<Longrightarrow> \<not> ev_at (es ! k) < key"
  shows "length (filter (\<lambda>e. ev_at e < key) es) = i"
proof -
  have "ev_at (es ! k) < key \<longleftrightarrow> 0 \<le> k \<and> k < i" if "k < length es" for k
    using assms that by (metis le0 not_le)
  from filter_block [of es "\<lambda>e. ev_at e < key" 0 i, OF this] assms(1) show ?thesis by simp
qed

lemma search_events_spec:
  "sorted_wrt (\<lambda>a b. ev_at a < ev_at b) es \<Longrightarrow> 0 \<le> l \<Longrightarrow> l \<le> u + 1 \<Longrightarrow> u < int (length es) \<Longrightarrow>
   (\<forall>k < nat l. ev_at (es ! k) < key) \<Longrightarrow> (\<forall>k. u < int k \<and> k < length es \<longrightarrow> key < ev_at (es ! k)) \<Longrightarrow>
     search_events es key l u = int (length (filter (\<lambda>e. ev_at e < key) es))"
proof (induction es key l u rule: search_events.induct)
  case (1 es key l u)
  have mono: "i < j \<Longrightarrow> j < length es \<Longrightarrow> ev_at (es ! i) < ev_at (es ! j)" for i j
    using 1(3) by (simp add: sorted_wrt_iff_nth_less)
  show ?case
  proof (cases "l \<le> u")
    case False
    have "\<not> ev_at (es ! k) < key" if "nat l \<le> k" "k < length es" for k
    proof -
      have "u < int k" using False that(1) 1(4) by linarith
      then show ?thesis using 1(8) that(2) by (simp add: order_less_imp_not_less)
    qed
    then have "length (filter (\<lambda>e. ev_at e < key) es) = nat l" using 1(4-7) by (intro event_count) auto
    then show ?thesis using False 1(4) by (simp add: search_events.simps [of es key l u])
  next
    case True
    define i where "i = (l + u) div 2"
    have i: "l \<le> i" "i \<le> u" using True by (auto simp: i_def)
    have idx: "nat i < length es" "0 \<le> i" using i 1(4,6) by auto
    consider (hit) "key = ev_at (es ! nat i)" | (low) "key < ev_at (es ! nat i)" | (high) "ev_at (es ! nat i) < key"
      by linarith
    then show ?thesis
    proof cases
      case hit
      have "length (filter (\<lambda>e. ev_at e < key) es) = nat i"
        using hit idx mono [of _ "nat i"] mono [of "nat i"]
        by (intro event_count) (auto simp: le_less dest: order_less_asym)
      moreover have "search_events es key l u = i"
        using hit True unfolding search_events.simps [of es key l u] i_def [symmetric] Let_def by simp
      ultimately show ?thesis using idx by simp
    next
      case low
      have "search_events es key l u = search_events es key l (i - 1)"
        using low True by (simp add: search_events.simps [of es key l u] i_def Let_def)
      moreover have "key < ev_at (es ! k)" if "i - 1 < int k" "k < length es" for k
        using low mono [of "nat i" k] that idx by (cases "k = nat i") fastforce+
      ultimately show ?thesis using 1(1) [OF True i_def refl] low 1(3-8) i by auto
    next
      case high
      have "search_events es key l u = search_events es key (i + 1) u"
        using high True by (simp add: search_events.simps [of es key l u] i_def Let_def)
      moreover have "ev_at (es ! k) < key" if "k < nat (i + 1)" for k
        using high mono [of k "nat i"] that idx by (cases "k = nat i") fastforce+
      ultimately show ?thesis using 1(2) [OF True i_def refl] high 1(3-8) i by auto
    qed
  qed
qed

lemma event_search_count:
  "sorted_wrt (\<lambda>a b. ev_at a < ev_at b) es \<Longrightarrow>
     event_search es key = int (length (filter (\<lambda>e. ev_at e < key) es))"
  unfolding event_search_def by (rule search_events_spec) auto

section \<open>Get or create\<close>

text \<open>
  The contract of the four lookup methods: an object is found by its name, a new one is appended
  under the name asked for, and the caller's update does not rename it.
\<close>

locale named =
  fixes nm :: "'a \<Rightarrow> string" and new :: "string \<Rightarrow> 'a"
  assumes nm_new: "nm (new n) = n"
begin

lemma names_on_named:
  "(\<And>x. nm (upd x) = nm x) \<Longrightarrow> map nm (on_named nm new n upd xs) = (if n \<in> set (map nm xs) then map nm xs else map nm xs @ [n])"
  by (induction xs) (auto simp: nm_new)

lemma distinct_on_named:
  "(\<And>x. nm (upd x) = nm x) \<Longrightarrow> distinct (map nm xs) \<Longrightarrow> distinct (map nm (on_named nm new n upd xs))"
  by (subst names_on_named) auto

lemma filter_on_named:
  "(\<And>x. nm (upd x) = nm x) \<Longrightarrow> distinct (map nm xs) \<Longrightarrow>
     filter (\<lambda>x. nm x = m) (on_named nm new n upd xs) =
       (if m = n then [upd (case filter (\<lambda>x. nm x = n) xs of [] \<Rightarrow> new n | x # _ \<Rightarrow> x)]
        else filter (\<lambda>x. nm x = m) xs)"
proof (induction xs)
  case (Cons x xs)
  have "n = nm x \<Longrightarrow> filter (\<lambda>x. nm x = n) xs = []"
    using Cons.prems(2) unfolding filter_empty_conv by (metis distinct.simps(2) image_eqI list.simps(9) set_map)
  then show ?case using Cons by auto
qed (simp add: nm_new)

end

interpretation timelines: named tl_name new_timeline
  by unfold_locales (simp add: new_timeline_def)

interpretation ranges: named tdr_name "\<lambda>n. \<lparr>tdr_name = n, tdr_ranges = []\<rparr>"
  by unfold_locales simp

interpretation events: named te_name "\<lambda>n. \<lparr>te_name = n, te_events = []\<rparr>"
  by unfold_locales simp

text \<open>All ranges stored under a pair of names, and the lines that carry them.\<close>

definition stored_ranges :: "timeline list \<Rightarrow> string \<Rightarrow> string \<Rightarrow> data_range list" where
  "stored_ranges ts a b =
     concat (map (\<lambda>t. concat (map tdr_ranges (filter (\<lambda>r. tdr_name r = b) (tl_ranges t))))
       (filter (\<lambda>t. tl_name t = a) ts))"

fun range_of_entry :: "string \<Rightarrow> string \<Rightarrow> entry option \<Rightarrow> data_range list" where
  "range_of_entry a b (Some (RangeLine a' b' d)) = (if a' = a \<and> b' = b then [d] else [])"
| "range_of_entry a b _ = []"

definition names_distinct :: "timeline list \<Rightarrow> bool" where
  "names_distinct ts \<longleftrightarrow> distinct (map tl_name ts) \<and> (\<forall>t \<in> set ts. distinct (map tdr_name (tl_ranges t)))"

lemma set_on_named: "y \<in> set (on_named nm new n upd xs) \<Longrightarrow> y \<in> set xs \<or> y = upd (new n) \<or> (\<exists>x \<in> set xs. y = upd x)"
  by (induction xs) (auto split: if_splits)

lemma distinct_singleton: "distinct (map f xs) \<Longrightarrow> filter (\<lambda>x. f x = n) xs = [] \<or> (\<exists>x \<in> set xs. filter (\<lambda>x. f x = n) xs = [x])"
proof (induction xs)
  case (Cons x xs)
  show ?case
  proof (cases "f x = n")
    case True
    then have "filter (\<lambda>x. f x = n) xs = []" 
      using Cons.prems unfolding filter_empty_conv by (metis distinct.simps(2) image_eqI list.simps(9) set_map)
    then show ?thesis using True by simp
  qed (use Cons in auto)
qed simp

lemma get_range_ranges:
  assumes "distinct (map tdr_name (tl_ranges t))"
  shows "concat (map tdr_ranges (filter (\<lambda>r. tdr_name r = m) (tl_ranges (get_range n (\<lambda>r. r\<lparr>tdr_ranges := tdr_ranges r @ [d]\<rparr>) t)))) =
    concat (map tdr_ranges (filter (\<lambda>r. tdr_name r = m) (tl_ranges t))) @ (if m = n then [d] else [])"
proof -
  have "filter (\<lambda>r. tdr_name r = n) (tl_ranges t) = [] \<or> (\<exists>r. filter (\<lambda>r. tdr_name r = n) (tl_ranges t) = [r])"
    using distinct_singleton [OF assms] by blast
  then show ?thesis using assms by (auto simp: get_range_def ranges.filter_on_named)
qed

lemma names_distinct_get:
  assumes "names_distinct ts" "\<And>t. tl_name (upd t) = tl_name t"
    and "\<And>t. distinct (map tdr_name (tl_ranges t)) \<Longrightarrow> distinct (map tdr_name (tl_ranges (upd t)))"
  shows "names_distinct (timelines_get n upd ts)"
proof -
  have "distinct (map tdr_name (tl_ranges (new_timeline n)))" by (simp add: new_timeline_def)
  then show ?thesis using assms timelines.distinct_on_named [of upd ts n]
    by (auto simp: names_distinct_def timelines_get_def dest!: set_on_named)
qed

lemma stored_ranges_get:
  assumes nd: "names_distinct ts" and nm: "\<And>t. tl_name (upd t) = tl_name t"
    and step: "\<And>t. distinct (map tdr_name (tl_ranges t)) \<Longrightarrow>
      concat (map tdr_ranges (filter (\<lambda>r. tdr_name r = b) (tl_ranges (upd t)))) =
      concat (map tdr_ranges (filter (\<lambda>r. tdr_name r = b) (tl_ranges t))) @ ext"
  shows "stored_ranges (timelines_get n upd ts) a b = stored_ranges ts a b @ (if a = n then ext else [])"
proof (cases "a = n")
  case False
  then show ?thesis using nd nm timelines.filter_on_named [of upd ts a n]
    by (simp add: stored_ranges_def timelines_get_def names_distinct_def)
next
  case True
  have d: "distinct (map tl_name ts)" using nd by (simp add: names_distinct_def)
  have new: "concat (map tdr_ranges (filter (\<lambda>r. tdr_name r = b) (tl_ranges (upd (new_timeline n))))) = ext"
    using step [of "new_timeline n"] by (simp add: new_timeline_def)
  from distinct_singleton [OF d, of n] show ?thesis
  proof (elim disjE bexE)
    assume "filter (\<lambda>t. tl_name t = n) ts = []"
    then show ?thesis using True d nm new timelines.filter_on_named [of upd ts n n]
      by (simp add: stored_ranges_def timelines_get_def)
  next
    fix t assume t: "t \<in> set ts" "filter (\<lambda>t. tl_name t = n) ts = [t]"
    then have "distinct (map tdr_name (tl_ranges t))" using nd by (simp add: names_distinct_def)
    then show ?thesis using True d nm t step [of t] timelines.filter_on_named [of upd ts n n]
      by (simp add: stored_ranges_def timelines_get_def)
  qed
qed

lemma add_entry_spec:
  assumes "names_distinct ts" "add_entry (cs, ts) e = (cs', ts')"
  shows "names_distinct ts' \<and> stored_ranges ts' a b = stored_ranges ts a b @ range_of_entry a b e"
proof (cases e)
  case (Some l)
  show ?thesis
  proof (cases l)
    case (RangeLine n m d)
    let ?upd = "get_range m (\<lambda>r. r\<lparr>tdr_ranges := tdr_ranges r @ [d]\<rparr>)"
    have ts': "ts' = timelines_get n ?upd ts" using assms(2) Some RangeLine by simp
    have nm: "tl_name (?upd t) = tl_name t" for t by (simp add: get_range_def)
    have "distinct (map tdr_name (tl_ranges t)) \<Longrightarrow> distinct (map tdr_name (tl_ranges (?upd t)))" for t
      using ranges.distinct_on_named by (simp add: get_range_def)
    then have "names_distinct ts'" unfolding ts' by (intro names_distinct_get assms(1) nm)
    moreover have "stored_ranges ts' a b = stored_ranges ts a b @ (if a = n then if b = m then [d] else [] else [])"
      unfolding ts' by (rule stored_ranges_get [OF assms(1) nm]) (rule get_range_ranges)
    ultimately show ?thesis using Some RangeLine by auto
  next
    case (EventStrLine n m d)
    let ?upd = "get_event_str m (\<lambda>l. l\<lparr>te_events := te_events l @ [d]\<rparr>)"
    have ts': "ts' = timelines_get n ?upd ts" using assms(2) Some EventStrLine by simp
    have nm: "tl_name (?upd t) = tl_name t" "tl_ranges (?upd t) = tl_ranges t" for t by (simp_all add: get_event_str_def)
    have "names_distinct ts'" unfolding ts' by (intro names_distinct_get assms(1)) (simp_all add: nm)
    moreover have "stored_ranges ts' a b = stored_ranges ts a b @ (if a = n then [] else [])"
      unfolding ts' by (rule stored_ranges_get [OF assms(1)]) (simp_all add: nm)
    ultimately show ?thesis using Some EventStrLine by auto
  next
    case (EventIntLine n m d)
    let ?upd = "get_event_int m (\<lambda>l. l\<lparr>te_events := te_events l @ [d]\<rparr>)"
    have ts': "ts' = timelines_get n ?upd ts" using assms(2) Some EventIntLine by simp
    have nm: "tl_name (?upd t) = tl_name t" "tl_ranges (?upd t) = tl_ranges t" for t by (simp_all add: get_event_int_def)
    have "names_distinct ts'" unfolding ts' by (intro names_distinct_get assms(1)) (simp_all add: nm)
    moreover have "stored_ranges ts' a b = stored_ranges ts a b @ (if a = n then [] else [])"
      unfolding ts' by (rule stored_ranges_get [OF assms(1)]) (simp_all add: nm)
    ultimately show ?thesis using Some EventIntLine by auto
  next
    case (ColorLine n c)
    then show ?thesis using assms Some by auto
  qed
qed (use assms in simp)

lemma add_entries_spec:
  "names_distinct ts \<Longrightarrow> foldl add_entry (cs, ts) es = (cs', ts') \<Longrightarrow>
     names_distinct ts' \<and> stored_ranges ts' a b = stored_ranges ts a b @ concat (map (range_of_entry a b) es)"
proof (induction es arbitrary: cs ts)
  case (Cons e es)
  obtain cs1 ts1 where st: "add_entry (cs, ts) e = (cs1, ts1)" by (cases "add_entry (cs, ts) e")
  from add_entry_spec [OF Cons.prems(1) st, of a b] Cons.IH [of ts1 cs1] Cons.prems(2) st show ?case by simp
qed simp

lemma stored_ranges_sort:
  assumes "names_distinct ts"
  shows "stored_ranges (timelines_sort ts) a b = sort_key dr_start (stored_ranges ts a b) \<and> names_distinct (timelines_sort ts)"
proof -
  have one: "concat (map tdr_ranges (filter (\<lambda>r. tdr_name r = b) (tl_ranges (timeline_sort t)))) =
      sort_key dr_start (concat (map tdr_ranges (filter (\<lambda>r. tdr_name r = b) (tl_ranges t))))"
    if "distinct (map tdr_name (tl_ranges t))" for t
    using distinct_singleton [OF that, of b] by (auto simp: timeline_sort_def filter_map comp_def sort_ranges)
  have nm: "tl_name (timeline_sort t) = tl_name t" for t by (simp add: timeline_sort_def)
  have d: "distinct (map tl_name ts)" using assms by (simp add: names_distinct_def)
  have "stored_ranges (timelines_sort ts) a b = sort_key dr_start (stored_ranges ts a b)"
    using distinct_singleton [OF d, of a] assms one
    by (auto simp: stored_ranges_def timelines_sort_def filter_map comp_def nm names_distinct_def)
  moreover have "names_distinct (timelines_sort ts)"
    using assms by (auto simp: names_distinct_def timelines_sort_def comp_def nm) (simp add: timeline_sort_def comp_def)
  ultimately show ?thesis by simp
qed

section \<open>Colours and scale\<close>

text \<open>The loop of \<open>main\<close> that looks up a colour for every range value.\<close>

fun lookup_all :: "string list \<Rightarrow> colors \<Rightarrow> (color list \<times> colors) res" where
  "lookup_all [] cs = Inr ([], cs)"
| "lookup_all (n # ns) cs =
     rbind (lookup_color n cs) (\<lambda>(c, cs). rbind (lookup_all ns cs) (\<lambda>(rest, cs). Inr (c # rest, cs)))"

lemma lookup_all_spec:
  "distinct ns \<Longrightarrow> (\<forall>n \<in> set ns. map_of (assigned cs) n = None) \<Longrightarrow>
     (if length ns \<le> length (default_colors cs)
      then (\<exists>cs'. lookup_all ns cs = Inr (take (length ns) (rev (default_colors cs)), cs') \<and>
             (\<forall>m. m \<notin> set ns \<longrightarrow> map_of (assigned cs') m = map_of (assigned cs) m) \<and>
             (\<forall>i < length ns. map_of (assigned cs') (ns ! i) = Some (rev (default_colors cs) ! i)))
      else lookup_all ns cs = Inl IndexError)"
proof (induction ns arbitrary: cs)
  case (Cons n ns)
  show ?case
  proof (cases "default_colors cs" rule: rev_cases)
    case Nil
    then show ?thesis using Cons.prems by (simp add: lookup_color_def)
  next
    case (snoc P c)
    let ?cs = "\<lparr>assigned = AList.update n c (assigned cs), default_colors = P\<rparr>"
    have look: "lookup_color n cs = Inr (c, ?cs)" using Cons.prems snoc by (simp add: lookup_color_def add_color_def)
    have IH: "if length ns \<le> length P
      then (\<exists>cs'. lookup_all ns ?cs = Inr (take (length ns) (rev P), cs') \<and>
             (\<forall>m. m \<notin> set ns \<longrightarrow> map_of (assigned cs') m = ((map_of (assigned cs))(n \<mapsto> c)) m) \<and>
             (\<forall>i < length ns. map_of (assigned cs') (ns ! i) = Some (rev P ! i)))
      else lookup_all ns ?cs = Inl IndexError"
    proof -
      have "distinct ns" "\<forall>m \<in> set ns. map_of (assigned ?cs) m = None" using Cons.prems by auto
      from Cons.IH [OF this] show ?thesis by (simp only: colors.simps map_of_update)
    qed
    show ?thesis
    proof (cases "length ns \<le> length P")
      case True
      with IH obtain cs' where cs': "lookup_all ns ?cs = Inr (take (length ns) (rev P), cs')"
        "\<And>m. m \<notin> set ns \<Longrightarrow> map_of (assigned cs') m = ((map_of (assigned cs))(n \<mapsto> c)) m"
        "\<And>i. i < length ns \<Longrightarrow> map_of (assigned cs') (ns ! i) = Some (rev P ! i)" by auto
      have "map_of (assigned cs') ((n # ns) ! i) = Some ((c # rev P) ! i)" if "i < Suc (length ns)" for i
        using cs'(2) [of n] cs'(3) that Cons.prems(1) by (cases i) auto
      then show ?thesis using True look cs' snoc by auto
    next
      case False
      then show ?thesis using IH look snoc by simp
    qed
  qed
qed simp

lemma closest_loop_spec:
  "0 < c \<Longrightarrow> c \<le> closest_loop d c \<and> d \<le> closest_loop d c * 10 \<and>
     (closest_loop d c = c \<or> closest_loop d c < d \<and> closest_loop d c mod 10 = 0)"
proof (induction d c rule: closest_loop.induct)
  case (1 d c)
  show ?case
  proof (cases "c * 10 < d")
    case True
    then have rec: "closest_loop d c = closest_loop d (c * 10)" using 1(2) by (simp add: closest_loop.simps [of d c])
    have "c * 10 \<le> closest_loop d (c * 10) \<and> d \<le> closest_loop d (c * 10) * 10 \<and>
      (closest_loop d (c * 10) = c * 10 \<or> closest_loop d (c * 10) < d \<and> closest_loop d (c * 10) mod 10 = 0)"
      using 1 True by simp
    then show ?thesis unfolding rec using True 1(2) by auto
  next
    case False
    then show ?thesis by (simp add: closest_loop.simps [of d c])
  qed
qed

lemma scale_delta_spec:
  assumes "2 \<le> hi - lo"
  shows "\<exists>delta > 0. scale_delta lo hi = Inr delta \<and> hi - lo \<le> 20 * delta"
proof -
  let ?d = "hi - lo" and ?c = "closest_loop (hi - lo) 1"
  have c: "1 \<le> ?c" "?d \<le> ?c * 10" "?c = 1 \<or> ?c < ?d \<and> ?c mod 10 = 0" using closest_loop_spec [of 1 ?d] by auto
  show ?thesis
  proof (cases "?d div ?c = 1")
    case True
    then have lt: "?d < 2 * ?c" using c(1) by (metis div_mult_mod_eq mult_1 mult_2 pos_mod_bound add_strict_left_mono zless_add1_eq zero_less_one le_less_trans int_one_le_iff_zero_less)
    then have "?c \<noteq> 1" using assms by auto
    then have m: "?c mod 10 = 0" using c(3) by simp
    then have "0 < ?c div 10" "?c = 10 * (?c div 10)" using c(1) by presburger+
    then show ?thesis using True lt by (intro exI [of _ "?c div 10"]) (simp add: scale_delta_def Let_def)
  next
    case False
    then show ?thesis using c by (intro exI [of _ ?c]) (simp add: scale_delta_def Let_def)
  qed
qed

section \<open>Slices\<close>

abbreviation meets :: "data_range \<Rightarrow> int \<Rightarrow> int \<Rightarrow> bool" where
  "meets r start end \<equiv> dr_start r \<le> end \<and> start \<le> dr_end r"

lemma covers_order:
  assumes "wf_ranges rs" "i < length rs" "covers (rs ! i) key" "k < length rs"
  shows "key \<le> dr_end (rs ! k) \<longleftrightarrow> i \<le> k" "dr_start (rs ! k) \<le> key \<longleftrightarrow> k \<le> i"
proof -
  have le: "dr_start (rs ! k) \<le> dr_end (rs ! k)" using wf_ranges_le [OF assms(1,4)] .
  consider "i < k" | "i = k" | "k < i" by linarith
  then have "(key \<le> dr_end (rs ! k) \<longleftrightarrow> i \<le> k) \<and> (dr_start (rs ! k) \<le> key \<longleftrightarrow> k \<le> i)"
  proof cases
    case 1
    from wf_ranges_nth [OF assms(1) this assms(4)] show ?thesis using 1 assms(3) le by auto
  next
    case 3
    from wf_ranges_nth [OF assms(1) this assms(2)] show ?thesis using 3 assms(3) le by auto
  qed (use assms(3) in auto)
  then show "key \<le> dr_end (rs ! k) \<longleftrightarrow> i \<le> k" "dr_start (rs ! k) \<le> key \<longleftrightarrow> k \<le> i" by blast+
qed

lemma slice_Suc: "i \<le> Suc j \<Longrightarrow> slice xs (int i) (int j + 1) = take (Suc j - i) (drop i xs)"
  using slice_nat [of i "Suc j" xs] by (simp add: add.commute)

lemma sorted_filter_split:
  assumes "sorted_wrt (\<lambda>a b. f a < (f b :: int)) xs"
  shows "xs = filter (\<lambda>x. f x < k) xs @ filter (\<lambda>x. \<not> f x < k) xs"
  using assms
proof (induction xs)
  case (Cons x xs)
  have "\<not> f x < k \<Longrightarrow> filter (\<lambda>x. f x < k) xs = []" using Cons.prems by (auto simp: filter_empty_conv)
  then show ?case using Cons by auto
qed simp

lemma filter_filter_conj_start:
  "start \<le> end \<Longrightarrow> filter (\<lambda>e. ev_at e < end) (filter (\<lambda>e. \<not> ev_at e < start) es) = filter (\<lambda>e. start \<le> ev_at e \<and> ev_at e < end) es \<and>
     filter (\<lambda>e. \<not> ev_at e < end) (filter (\<lambda>e. \<not> ev_at e < start) es) = filter (\<lambda>e. \<not> ev_at e < (end :: int)) es"
  by (auto simp: filter_filter intro!: filter_cong)

lemma if_weak_mono: "(if b then p else q) \<Longrightarrow> (p \<Longrightarrow> b \<Longrightarrow> p') \<Longrightarrow> (if b then p' else q)"
  by (cases b) simp_all

lemma scale_ticks_bounds:
  assumes d: "0 < d" and span: "hi - lo \<le> 20 * d"
  shows "length (scale_ticks lo hi d) \<le> 20 \<and> (\<forall>x \<in> set (scale_ticks lo hi d). lo < x \<and> x \<le> hi \<and> x mod d = 0)"
proof -
  let ?a = "lo div d" and ?b = "hi div d"
  have lo: "lo - lo mod d = ?a * d" and hi: "hi - hi mod d = ?b * d"
    by (simp_all add: minus_mod_eq_div_mult)
  have "(?b * d - (?a * d + d)) div d = ?b - ?a - 1"
  proof -
    have "?b * d - (?a * d + d) = (?b - ?a - 1) * d" by (simp add: algebra_simps)
    then show ?thesis using d by simp
  qed
  then have ticks: "scale_ticks lo hi d = map (\<lambda>k. ?a * d + d + int k * d) [0..<nat (?b - ?a)]"
    by (simp add: scale_ticks_def Let_def lo hi)
  have "hi \<le> lo + 20 * d" using span by simp
  then have "?b \<le> (lo + 20 * d) div d" using d by (rule zdiv_mono1)
  then have "?b - ?a \<le> 20" using d by simp
  then have "length (scale_ticks lo hi d) \<le> 20" by (simp add: ticks del: upt_conv_Nil)
  moreover have "lo < x \<and> x \<le> hi \<and> x mod d = 0" if "x \<in> set (scale_ticks lo hi d)" for x
  proof -
    from that obtain k where "k \<in> set [0..<nat (?b - ?a)]" and k2: "x = ?a * d + d + int k * d"
      unfolding ticks set_map by (rule imageE)
    then have "int k < ?b - ?a" by simp
    note k = this k2
    have x: "x = (?a + 1 + int k) * d" using k(2) by (simp add: algebra_simps)
    have "lo mod d < d" using d by simp
    moreover have "(?a + 1) * d = ?a * d + d" by (simp add: distrib_right)
    ultimately have "lo < (?a + 1) * d" using lo by linarith
    also have "\<dots> \<le> x" using d by (simp add: x)
    finally have 1: "lo < x" .
    have "?a + 1 + int k \<le> ?b" using k(1) by linarith
    then have "x \<le> ?b * d" unfolding x using d by (intro mult_right_mono) simp_all
    also have "\<dots> \<le> hi" using hi pos_mod_sign [OF d, of hi] by linarith
    finally have 2: "x \<le> hi" .
    have "x mod d = 0" unfolding x by (rule mod_mult_self2_is_0)
    with 1 2 show ?thesis by (intro conjI)
  qed
  ultimately show ?thesis by blast
qed

section \<open>Properties\<close>

text \<open>
  On ranges in order that do not overlap, the binary search returns the index of the range that
  holds the key, and \<open>-1\<close> when none does.\<close>
theorem range_search_correct:
  assumes "wf_ranges rs"
  shows "(\<forall>i < length rs. covers (rs ! i) key \<longrightarrow> range_search rs key = int i) \<and>
    ((\<forall>r \<in> set rs. \<not> covers r key) \<longrightarrow> range_search rs key = - 1)"
  using range_search_found [OF assms] range_search_missed [OF assms] by blast

definition demo_ranges :: "data_range list" where
  "demo_ranges = [\<lparr>dr_start = 1, dr_end = 3, dr_value = ''a''\<rparr>, \<lparr>dr_start = 5, dr_end = 6, dr_value = ''b''\<rparr>]"

lemma demo_ranges_wf: "wf_ranges demo_ranges"
  by (simp add: wf_ranges_def demo_ranges_def)

theorem range_search_correct_witness: "range_search demo_ranges 6 = 1 \<and> range_search demo_ranges 4 = - 1"
  using range_search_correct [OF demo_ranges_wf, of 6] range_search_correct [OF demo_ranges_wf, of 4]
  by (simp add: demo_ranges_def All_less_Suc)

text \<open>
  \<open>get_ranges\<close> on ranges in order that do not overlap.  When both ends of the window lie in
  ranges it returns exactly the ranges that meet the window; when one end does, it returns at least
  those; when both ends fall between ranges it returns nothing, even if ranges lie in the window.\<close>
theorem get_ranges_correct:
  assumes wf: "wf_ranges rs" and "start \<le> end"
  shows "((\<exists>r \<in> set rs. covers r start) \<and> (\<exists>r \<in> set rs. covers r end) \<longrightarrow>
            get_ranges rs start end = filter (\<lambda>r. meets r start end) rs) \<and>
         ((\<exists>r \<in> set rs. covers r start \<or> covers r end) \<longrightarrow>
            (\<forall>r \<in> set rs. meets r start end \<longrightarrow> r \<in> set (get_ranges rs start end))) \<and>
         ((\<forall>r \<in> set rs. \<not> covers r start \<and> \<not> covers r end) \<longrightarrow> get_ranges rs start end = [])"
proof -
  let ?S = "\<exists>r \<in> set rs. covers r start" and ?E = "\<exists>r \<in> set rs. covers r end"
  have both: "get_ranges rs start end = filter (\<lambda>r. meets r start end) rs" if S: ?S and E: ?E
  proof -
    obtain i where i: "i < length rs" "covers (rs ! i) start" using S by (auto simp: in_set_conv_nth)
    obtain j where j: "j < length rs" "covers (rs ! j) end" using E by (auto simp: in_set_conv_nth)
    have ij: "i \<le> j" using covers_order(1) [OF wf i j(1)] j(2) assms(2) by simp
    have "meets (rs ! k) start end \<longleftrightarrow> i \<le> k \<and> k < Suc j" if "k < length rs" for k
      using covers_order(1) [OF wf i that] covers_order(2) [OF wf j that] by auto
    from filter_block [of rs "\<lambda>r. meets r start end" i "Suc j", OF this] show ?thesis
      using range_search_found [OF wf i] range_search_found [OF wf j] ij by (simp add: get_ranges_def slice_Suc)
  qed
  have left: "set (filter (\<lambda>r. meets r start end) rs) \<subseteq> set (get_ranges rs start end)" if S: ?S and E: "\<not> ?E"
  proof -
    obtain i where i: "i < length rs" "covers (rs ! i) start" using S by (auto simp: in_set_conv_nth)
    have e: "range_search rs end = - 1" using E by (intro range_search_missed [OF wf]) auto
    have "get_ranges rs start end = drop i rs"
      using range_search_found [OF wf i] e i slice_nat [of i "length rs" rs] by (simp add: get_ranges_def)
    moreover have "rs ! k \<in> set (drop i rs)" if "k < length rs" "meets (rs ! k) start end" for k
      using covers_order(1) [OF wf i that(1)] that by (auto simp: in_set_conv_nth intro!: exI [of _ "k - i"])
    ultimately show ?thesis by (auto simp: in_set_conv_nth [of _ rs])
  qed
  have right: "set (filter (\<lambda>r. meets r start end) rs) \<subseteq> set (get_ranges rs start end)" if S: "\<not> ?S" and E: ?E
  proof -
    obtain j where j: "j < length rs" "covers (rs ! j) end" using E by (auto simp: in_set_conv_nth)
    have s: "range_search rs start = - 1" using S by (intro range_search_missed [OF wf]) auto
    have "get_ranges rs start end = take (Suc j) rs"
      using range_search_found [OF wf j] s slice_Suc [of 0 j rs] by (simp add: get_ranges_def)
    moreover have "rs ! k \<in> set (take (Suc j) rs)" if "k < length rs" "meets (rs ! k) start end" for k
      using covers_order(2) [OF wf j that(1)] that by (auto simp: in_set_conv_nth intro!: exI [of _ k])
    ultimately show ?thesis by (auto simp: in_set_conv_nth [of _ rs])
  qed
  have none: "get_ranges rs start end = []" if "\<not> ?S" "\<not> ?E"
    using that range_search_missed [OF wf, of start] range_search_missed [OF wf, of "end"] by (simp add: get_ranges_def)
  have "set (filter (\<lambda>r. meets r start end) rs) \<subseteq> set (get_ranges rs start end)" if "?S \<or> ?E"
    using that both left right by (cases ?S; cases ?E) simp_all
  then show ?thesis using both none by auto
qed

theorem get_ranges_correct_witness:
  "get_ranges demo_ranges 2 5 = demo_ranges \<and> get_ranges demo_ranges 0 10 = []"
  using get_ranges_correct [OF demo_ranges_wf, of 2 5] get_ranges_correct [OF demo_ranges_wf, of 0 10]
  by (simp add: demo_ranges_def)

text \<open>
  \<open>get_events\<close> on events with increasing times returns the events of the window, and also the
  next event after it unless an event lies exactly at its end.\<close>
theorem get_events_correct:
  assumes so: "sorted_wrt (\<lambda>a b. ev_at a < ev_at b) es" and "start \<le> end"
  shows "get_events es start end = filter (\<lambda>e. start \<le> ev_at e \<and> ev_at e \<le> end) es @
    (if end \<in> ev_at ` set es then [] else take 1 (filter (\<lambda>e. end < ev_at e) es))"
proof -
  let ?A = "filter (\<lambda>e. ev_at e < start) es" and ?R = "filter (\<lambda>e. \<not> ev_at e < start) es"
  let ?B = "filter (\<lambda>e. start \<le> ev_at e \<and> ev_at e < end) es" and ?C = "filter (\<lambda>e. \<not> ev_at e < end) es"
  have "sorted_wrt (\<lambda>a b. ev_at a < ev_at b) ?R" using so by (rule sorted_wrt_filter)
  from sorted_filter_split [OF this, of "end"] have "?R = ?B @ ?C"
    unfolding filter_filter_conj_start [OF assms(2), THEN conjunct1] filter_filter_conj_start [OF assms(2), THEN conjunct2] .
  with sorted_filter_split [OF so, of start] have es: "es = ?A @ ?B @ ?C" by simp
  have ce: "length (filter (\<lambda>e. ev_at e < end) es) = length ?A + length ?B"
  proof -
    have "filter (\<lambda>e. ev_at e < end) es = ?A @ ?B"
      by (subst es) (use assms(2) in \<open>auto simp: filter_empty_conv intro!: filter_cong\<close>)
    then show ?thesis by simp
  qed
  have "get_events es start end = take (Suc (length ?B)) (?B @ ?C)"
    unfolding get_events_def event_search_count [OF so] ce
    by (subst slice_Suc) (simp, subst (3) es, simp)
  then have run: "get_events es start end = ?B @ take 1 ?C" by simp
  show ?thesis
  proof (cases "end \<in> ev_at ` set es")
    case True
    then obtain e where e: "e \<in> set es" "ev_at e = end" by auto
    then have "e \<in> set ?C" by simp
    moreover have soC: "sorted_wrt (\<lambda>a b. ev_at a < ev_at b) ?C" using so by (rule sorted_wrt_filter)
    ultimately obtain cs where C: "?C = e # cs" using e by (cases ?C) (auto simp: filter_eq_Cons_iff)
    have "filter (\<lambda>e. start \<le> ev_at e \<and> ev_at e \<le> end) es = ?B @ filter (\<lambda>x. ev_at x \<le> end) ?C"
      by (subst es) (use assms(2) in \<open>auto simp: filter_empty_conv intro!: arg_cong2 [where f = append] filter_cong\<close>)
    also have "filter (\<lambda>x. ev_at x \<le> end) ?C = [e]" using soC e unfolding C by (auto simp: filter_empty_conv)
    finally show ?thesis using run True C by simp
  next
    case False
    then have "?C = filter (\<lambda>e. end < ev_at e) es" "?B = filter (\<lambda>e. start \<le> ev_at e \<and> ev_at e \<le> end) es"
      by (auto intro!: filter_cong simp: less_le)
    then show ?thesis using run False by simp
  qed
qed

theorem get_events_correct_witness:
  "get_events [\<lparr>ev_at = 1, ev_value = ''a''\<rparr>, \<lparr>ev_at = 5, ev_value = ''b''\<rparr>, \<lparr>ev_at = 9, ev_value = ''c''\<rparr>] 2 6 =
     [\<lparr>ev_at = 5, ev_value = ''b''\<rparr>, \<lparr>ev_at = 9, ev_value = ''c''\<rparr>]"
  by (subst get_events_correct) (auto simp: image_iff)

text \<open>
  \<open>read_data\<close> groups the data by name, whatever the file holds.  Each timeline and each of its range
  lists occurs once, and the ranges stored under a pair of names are those of the lines with these names,
  in the order of their start (lines with equal start keep their order).
\<close>
theorem read_data_groups:
  "(let ts = snd (read_data contents) in
     names_distinct ts \<and>
     stored_ranges ts a b =
       sort_key dr_start (concat (map (range_of_entry a b) (map match_line (file_lines contents)))))"
proof -
  obtain cs ts where run: "foldl add_entry (start_colors, []) (map match_line (file_lines contents)) = (cs, ts)"
    by (cases "foldl add_entry (start_colors, []) (map match_line (file_lines contents))")
  have "names_distinct ([] :: timeline list)" by (simp add: names_distinct_def)
  from add_entries_spec [OF this run, of a b]
  have nd: "names_distinct ts"
    and st: "stored_ranges ts a b = concat (map (range_of_entry a b) (map match_line (file_lines contents)))"
    by (simp_all add: stored_ranges_def)
  have "snd (read_data contents) = timelines_sort ts" by (simp add: read_data_def run)
  then show ?thesis using stored_ranges_sort [OF nd, of a b] st by (simp only: Let_def)
qed

section \<open>The bounds of the data\<close>

text \<open>
  \<open>get_bounds\<close> starts with 0 on both sides.  The lines of a file give times that are not negative, so
  that its lower bound is 0 for every file; its upper bound is a time of the file, or 0.
\<close>

fun entry_times :: "entry option \<Rightarrow> int list" where
  "entry_times (Some (RangeLine a b d)) = [dr_start d, dr_end d]"
| "entry_times (Some (EventStrLine a b e)) = [ev_at e]"
| "entry_times (Some (EventIntLine a b e)) = [ev_at e]"
| "entry_times _ = []"

definition file_times :: "string \<Rightarrow> int list" where
  "file_times contents = concat (map (\<lambda>line. entry_times (match_line line)) (file_lines contents))"

definition range_times :: "data_range list \<Rightarrow> int set" where
  "range_times rs = dr_start ` set rs \<union> dr_end ` set rs"

definition timeline_times :: "timeline \<Rightarrow> int set" where
  "timeline_times t = (\<Union>r \<in> set (tl_ranges t). range_times (tdr_ranges r)) \<union>
     (\<Union>e \<in> set (tl_event_str t). ev_at ` set (te_events e)) \<union> (\<Union>e \<in> set (tl_event_int t). ev_at ` set (te_events e))"

definition timelines_times :: "timeline list \<Rightarrow> int set" where
  "timelines_times ts = (\<Union>t \<in> set ts. timeline_times t)"

lemma digits_value_nonneg: "list_all is_digit ds \<Longrightarrow> 0 \<le> digits_value ds"
proof -
  have "list_all is_digit ds \<Longrightarrow> 0 \<le> a \<Longrightarrow> 0 \<le> foldl (\<lambda>a c. 10 * a + (int (of_char c) - 48)) a ds" for a
    by (induction ds arbitrary: a) (auto simp: is_digit_def)
  then show "list_all is_digit ds \<Longrightarrow> 0 \<le> digits_value ds" by (simp add: digits_value_def)
qed

lemma lead_digits_are_digits: "list_all is_digit (lead_digits s)"
  by (auto simp: lead_digits_def list_all_iff dest: set_takeWhileD)

lemma entry_times_nonneg: "t \<in> set (entry_times (match_line line)) \<Longrightarrow> 0 \<le> t"
  by (auto simp: match_line_def Let_def all_digits_def digits_value_nonneg lead_digits_are_digits split: if_splits option.splits)

lemma file_times_nonneg: "t \<in> set (file_times contents) \<Longrightarrow> 0 \<le> t"
  by (auto simp: file_times_def entry_times_nonneg)

lemma timelines_times_get:
  assumes "\<And>t. timeline_times (upd t) \<subseteq> timeline_times t \<union> T"
  shows "timelines_times (timelines_get n upd ts) \<subseteq> timelines_times ts \<union> T"
proof -
  have "timeline_times (upd (new_timeline n)) \<subseteq> T" using assms [of "new_timeline n"] by (simp add: timeline_times_def new_timeline_def)
  then show ?thesis using assms by (fastforce simp: timelines_times_def timelines_get_def dest!: set_on_named)
qed

lemma timeline_times_add:
  "timeline_times (get_range n (\<lambda>r. r\<lparr>tdr_ranges := tdr_ranges r @ [d]\<rparr>) t) \<subseteq> timeline_times t \<union> {dr_start d, dr_end d}"
  "timeline_times (get_event_str n (\<lambda>l. l\<lparr>te_events := te_events l @ [e]\<rparr>) t) \<subseteq> timeline_times t \<union> {ev_at e}"
  "timeline_times (get_event_int n (\<lambda>l. l\<lparr>te_events := te_events l @ [e']\<rparr>) t) \<subseteq> timeline_times t \<union> {ev_at e'}"
  by (fastforce simp: timeline_times_def range_times_def get_range_def get_event_str_def get_event_int_def dest!: set_on_named)+

lemma add_entry_times: "timelines_times (snd (add_entry (cs, ts) e)) \<subseteq> timelines_times ts \<union> set (entry_times e)"
proof -
  have get: "timelines_times (timelines_get n (get_range m (\<lambda>r. r\<lparr>tdr_ranges := tdr_ranges r @ [d]\<rparr>)) ts) \<subseteq> timelines_times ts \<union> {dr_start d, dr_end d}"
    "timelines_times (timelines_get n (get_event_str m (\<lambda>l. l\<lparr>te_events := te_events l @ [s]\<rparr>)) ts) \<subseteq> timelines_times ts \<union> {ev_at s}"
    "timelines_times (timelines_get n (get_event_int m (\<lambda>l. l\<lparr>te_events := te_events l @ [i]\<rparr>)) ts) \<subseteq> timelines_times ts \<union> {ev_at i}"
    for n m d s i by (rule timelines_times_get, rule timeline_times_add)+
  show ?thesis by (cases "((cs, ts), e)" rule: add_entry.cases) (use get in simp_all)
qed

lemma add_entries_times:
  "timelines_times (snd (foldl add_entry (cs, ts) es)) \<subseteq> timelines_times ts \<union> (\<Union>e \<in> set es. set (entry_times e))"
proof (induction es arbitrary: cs ts)
  case (Cons e es)
  obtain cs' ts' where e: "add_entry (cs, ts) e = (cs', ts')" by fastforce
  show ?case using Cons.IH [of cs' ts'] add_entry_times [of cs ts e] by (auto simp: e)
qed simp

lemma timelines_times_sort: "timelines_times (timelines_sort ts) = timelines_times ts"
  by (simp add: timelines_times_def timelines_sort_def timeline_times_def timeline_sort_def range_times_def sort_ranges sort_events)

lemma read_data_times: "timelines_times (snd (read_data contents)) \<subseteq> set (file_times contents)"
proof -
  obtain cs ts where run: "foldl add_entry (start_colors, []) (map match_line (file_lines contents)) = (cs, ts)" by fastforce
  have "timelines_times [] = {}" by (simp add: timelines_times_def)
  then have "timelines_times ts \<subseteq> set (file_times contents)"
    using add_entries_times [of start_colors "[]" "map match_line (file_lines contents)"] by (simp add: run file_times_def)
  then show ?thesis by (simp add: read_data_def run timelines_times_sort)
qed

text \<open>Widening from a pair of bounds within a set of times that are not negative.\<close>

definition within :: "int set \<Rightarrow> int \<times> int \<Rightarrow> bool" where
  "within T b \<longleftrightarrow> 0 \<le> fst b \<and> snd b \<in> insert 0 T"

lemma foldl_widen_within:
  "(\<And>b. b \<in> set bs \<Longrightarrow> within T b) \<Longrightarrow> fst b0 = 0 \<Longrightarrow> snd b0 \<in> insert 0 T \<Longrightarrow>
     fst (foldl widen b0 bs) = 0 \<and> snd (foldl widen b0 bs) \<in> insert 0 T"
proof (induction bs arbitrary: b0)
  case (Cons b bs)
  have "within T b" using Cons.prems(1) by simp
  then have "fst (widen b0 b) = 0" "snd (widen b0 b) \<in> insert 0 T" using Cons.prems(2,3) by (auto simp: widen_def within_def)
  then show ?case using Cons.IH [of "widen b0 b"] Cons.prems(1) by simp
qed simp

lemma part_bounds_within:
  assumes "\<And>t. t \<in> T \<Longrightarrow> 0 \<le> t"
  shows "range_times rs \<subseteq> T \<Longrightarrow> within T (range_bounds rs)" "ev_at ` set es \<subseteq> T \<Longrightarrow> within T (event_bounds es)"
proof -
  show "within T (range_bounds rs)" if "range_times rs \<subseteq> T"
  proof (cases "rs = []")
    case False
    then have "rs ! 0 \<in> set rs" "rs ! (length rs - 1) \<in> set rs" by simp_all
    then have "dr_start (rs ! 0) \<in> T" "dr_end (rs ! (length rs - 1)) \<in> T" using that by (auto simp: range_times_def)
    then show ?thesis using assms by (simp add: within_def range_bounds_def)
  qed (simp add: within_def range_bounds_def)
  show "within T (event_bounds es)" if "ev_at ` set es \<subseteq> T"
  proof (cases "es = []")
    case False
    then have "es ! 0 \<in> set es" "last es \<in> set es" by simp_all
    then have "ev_at (es ! 0) \<in> T" "ev_at (last es) \<in> T" using that by auto
    then show ?thesis using assms by (simp add: within_def event_bounds_def)
  qed (simp add: within_def event_bounds_def)
qed

lemma timeline_bounds_within:
  assumes T: "\<And>t. t \<in> T \<Longrightarrow> 0 \<le> t" and sub: "timeline_times t \<subseteq> T"
  shows "fst (timeline_bounds t) = 0 \<and> snd (timeline_bounds t) \<in> insert 0 T"
proof -
  let ?r = "map (\<lambda>r. range_bounds (tdr_ranges r)) (tl_ranges t)"
  let ?s = "map (\<lambda>e. event_bounds (te_events e)) (tl_event_str t)"
  let ?i = "map (\<lambda>e. event_bounds (te_events e)) (tl_event_int t)"
  have parts: "\<And>r. r \<in> set (tl_ranges t) \<Longrightarrow> range_times (tdr_ranges r) \<subseteq> T"
    "\<And>e. e \<in> set (tl_event_str t) \<Longrightarrow> ev_at ` set (te_events e) \<subseteq> T"
    "\<And>e. e \<in> set (tl_event_int t) \<Longrightarrow> ev_at ` set (te_events e) \<subseteq> T"
    using sub by (simp_all add: timeline_times_def UN_subset_iff)
  have "\<And>b. b \<in> set (?r @ ?s @ ?i) \<Longrightarrow> within T b"
  proof -
    fix b assume "b \<in> set (?r @ ?s @ ?i)"
    then consider r where "r \<in> set (tl_ranges t)" "b = range_bounds (tdr_ranges r)"
      | e where "e \<in> set (tl_event_str t)" "b = event_bounds (te_events e)"
      | e where "e \<in> set (tl_event_int t)" "b = event_bounds (te_events e)" by auto
    then show "within T b" by cases (simp_all add: part_bounds_within T parts)
  qed
  moreover have "timeline_bounds t = foldl widen (0, 0) (?r @ ?s @ ?i)" by (simp add: timeline_bounds_def Let_def)
  ultimately show ?thesis using foldl_widen_within [of "?r @ ?s @ ?i" T "(0, 0)"] by (simp del: foldl_append set_append)
qed

lemma timelines_bounds_within:
  assumes "\<And>t. t \<in> T \<Longrightarrow> 0 \<le> t" "timelines_times ts \<subseteq> T"
  shows "fst (timelines_bounds ts) = 0 \<and> snd (timelines_bounds ts) \<in> insert 0 T"
proof -
  have "within T (timeline_bounds t)" if "t \<in> set ts" for t
    using timeline_bounds_within [of T t] assms that by (simp add: within_def timelines_times_def UN_subset_iff)
  then show ?thesis unfolding timelines_bounds_def by (intro foldl_widen_within) auto
qed

lemma file_bounds: "\<exists>hi. timelines_bounds (snd (read_data contents)) = (0, hi) \<and> hi \<in> insert 0 (set (file_times contents))"
  using timelines_bounds_within [OF file_times_nonneg read_data_times [of contents]]
  by (cases "timelines_bounds (snd (read_data contents))") auto

section \<open>Colours and ticks\<close>

text \<open>
  Up to six different names get different default colours, and looking a name up again gives
  the same colour; a seventh name makes the lookup raise \<open>IndexError\<close>.\<close>
theorem color_lookup_correct:
  assumes "distinct ns"
  shows "if length ns \<le> 6
    then (\<exists>cols cs. lookup_all ns start_colors = Inr (cols, cs) \<and> length cols = length ns \<and> distinct cols \<and>
            (\<forall>i < length ns. lookup_color (ns ! i) cs = Inr (cols ! i, cs)))
    else lookup_all ns start_colors = Inl IndexError"
proof -
  let ?P = "default_colors start_colors"
  have P: "length ?P = 6" "distinct ?P" by (simp_all add: start_colors_def)
  have "\<forall>n \<in> set ns. map_of (assigned start_colors) n = None" by (simp add: start_colors_def)
  from lookup_all_spec [OF assms this] show ?thesis
    unfolding P(1)
  proof (rule if_weak_mono)
    assume "\<exists>cs'. lookup_all ns start_colors = Inr (take (length ns) (rev ?P), cs') \<and>
        (\<forall>m. m \<notin> set ns \<longrightarrow> map_of (assigned cs') m = map_of (assigned start_colors) m) \<and>
        (\<forall>i < length ns. map_of (assigned cs') (ns ! i) = Some (rev ?P ! i))" and len: "length ns \<le> 6"
    then obtain cs where cs: "lookup_all ns start_colors = Inr (take (length ns) (rev ?P), cs)"
      "\<forall>i < length ns. map_of (assigned cs) (ns ! i) = Some (rev ?P ! i)" by blast
    then show "\<exists>cols cs. lookup_all ns start_colors = Inr (cols, cs) \<and> length cols = length ns \<and> distinct cols \<and>
            (\<forall>i < length ns. lookup_color (ns ! i) cs = Inr (cols ! i, cs))"
      using P len by (intro exI [of _ "take (length ns) (rev ?P)"] exI [of _ cs]) (simp add: lookup_color_def distinct_take)
  qed
qed

theorem color_lookup_correct_witness:
  "\<exists>cols cs. lookup_all [''x'', ''y''] start_colors = Inr (cols, cs) \<and> length cols = 2 \<and> distinct cols"
  using color_lookup_correct [of "[''x'', ''y'']"] by auto

text \<open>
  For a span of at least two the tick distance is positive, the ticks are multiples of it inside
  the span, and there are at most twenty; for a span of one the distance is zero and computing the
  first tick raises \<open>ZeroDivisionError\<close>.\<close>
theorem scale_ticks_correct:
  "(2 \<le> hi - lo \<longrightarrow> (\<exists>delta > 0. scale_delta lo hi = Inr delta \<and> length (scale_ticks lo hi delta) \<le> 20 \<and>
      (\<forall>x \<in> set (scale_ticks lo hi delta). lo < x \<and> x \<le> hi \<and> x mod delta = 0))) \<and>
   (hi - lo = 1 \<longrightarrow> scale_delta lo hi = Inl ZeroDivisionError)"
proof -
  have "\<exists>delta > 0. scale_delta lo hi = Inr delta \<and> length (scale_ticks lo hi delta) \<le> 20 \<and>
      (\<forall>x \<in> set (scale_ticks lo hi delta). lo < x \<and> x \<le> hi \<and> x mod delta = 0)" if span: "2 \<le> hi - lo"
  proof -
    obtain d where d: "0 < d" "scale_delta lo hi = Inr d" "hi - lo \<le> 20 * d" using scale_delta_spec [OF span] by blast
    then show ?thesis using scale_ticks_bounds [OF d(1,3)] by blast
  qed
  moreover have "scale_delta lo hi = Inl ZeroDivisionError" if "hi - lo = 1"
    using that by (simp add: scale_delta_def closest_loop.simps)
  ultimately show ?thesis by blast
qed

theorem scale_ticks_correct_witness:
  "(\<exists>delta. 0 < delta \<and> scale_delta 0 100 = Inr delta \<and> length (scale_ticks 0 100 delta) \<le> 20) \<and>
   scale_delta 4 5 = Inl ZeroDivisionError"
  using scale_ticks_correct [of 100 0] scale_ticks_correct [of 5 4] by auto

end
