(* ===== verification/GridWindow.thy ===== *)
theory GridWindow
  imports Complex_Main GridData Transition
begin

text \<open>
  The window of the timeline viewer \<^verbatim>\<open>utils/grid.py\<close>: the layout of the renderers, the visible range
  kept by \<open>GraphicRenderer\<close>, and the mouse and zoom handlers of \<open>GtkGraphicRenderer\<close> as a state machine.
  The script mixes integers and floats under the division of Python 2, so a number of the range is one or
  the other; floats are exact, without rounding.  The extents of texts are those cairo reports, a parameter;
  painting is not modelled.
\<close>

section \<open>Numbers\<close>

datatype pynum = PyInt int | PyFloat rat

fun nval :: "pynum \<Rightarrow> rat" where
  "nval (PyInt i) = of_int i"
| "nval (PyFloat r) = r"

fun n_add :: "pynum \<Rightarrow> pynum \<Rightarrow> pynum" where
  "n_add (PyInt a) (PyInt b) = PyInt (a + b)"
| "n_add a b = PyFloat (nval a + nval b)"

fun n_sub :: "pynum \<Rightarrow> pynum \<Rightarrow> pynum" where
  "n_sub (PyInt a) (PyInt b) = PyInt (a - b)"
| "n_sub a b = PyFloat (nval a - nval b)"

fun n_mul :: "pynum \<Rightarrow> pynum \<Rightarrow> pynum" where
  "n_mul (PyInt a) (PyInt b) = PyInt (a * b)"
| "n_mul a b = PyFloat (nval a * nval b)"

fun n_div :: "pynum \<Rightarrow> pynum \<Rightarrow> pynum res" where
  "n_div (PyInt a) (PyInt b) = (if b = 0 then Inl ZeroDivisionError else Inr (PyInt (a div b)))"
| "n_div a b = (if nval b = 0 then Inl ZeroDivisionError else Inr (PyFloat (nval a / nval b)))"

definition n_max :: "pynum \<Rightarrow> pynum \<Rightarrow> pynum" where
  "n_max a b = (if nval a < nval b then b else a)"

definition n_min :: "pynum \<Rightarrow> pynum \<Rightarrow> pynum" where
  "n_min a b = (if nval b < nval a then b else a)"

lemma nval_ops [simp]:
  "nval (n_add a b) = nval a + nval b" "nval (n_sub a b) = nval a - nval b" "nval (n_mul a b) = nval a * nval b"
  "nval (n_max a b) = max (nval a) (nval b)" "nval (n_min a b) = min (nval a) (nval b)"
  by (cases a; cases b; simp add: n_max_def n_min_def)+

section \<open>Layout\<close>

record display =
  text_width :: "string \<Rightarrow> rat"
  text_height :: "string \<Rightarrow> rat"

abbreviation sample_text :: string where
  "sample_text \<equiv> ''ABCDEFGHIJKLMNOPQRSTUVWXYZabcedefghijklmnopqrstuvwxyz0123456789''"

abbreviation padding :: rat where "padding \<equiv> 10"

text \<open>\<open>TopLegendRenderer.layout\<close>: the height of the legends set in lines.\<close>

fun legend_lines :: "display \<Rightarrow> rat \<Rightarrow> string list \<Rightarrow> rat \<Rightarrow> rat \<Rightarrow> rat \<Rightarrow> rat" where
  "legend_lines disp width [] line_height total_height line_used = total_height + line_height"
| "legend_lines disp width (legend # legends) line_height total_height line_used =
     (let item_width = padding + padding + text_width disp legend + padding;
          item_height = text_height disp legend + padding;
          line_height = (if item_height > line_height then item_height else line_height)
      in if line_used + item_width > width
         then legend_lines disp width legends line_height (total_height + line_height) (padding + item_width)
         else legend_lines disp width legends line_height total_height (line_used + item_width))"

definition legend_layout :: "display \<Rightarrow> int \<Rightarrow> string list \<Rightarrow> rat" where
  "legend_layout disp width legends = legend_lines disp (of_int width) legends 0 padding padding"

text \<open>\<open>TimelinesRenderer.layout\<close>: the two columns of names and the height of the data.\<close>

definition series_names :: "timeline \<Rightarrow> string list" where
  "series_names t = map tdr_name (tl_ranges t) @ map te_name (tl_event_int t) @ map te_name (tl_event_str t)"

definition max_width :: "display \<Rightarrow> string list \<Rightarrow> rat" where
  "max_width disp names = foldl (\<lambda>w name. max w (text_width disp name)) 0 names"

definition data_layout :: "display \<Rightarrow> timeline list \<Rightarrow> rat \<times> rat \<times> rat" where
  "data_layout disp ts =
     (let max_text_height = text_height disp sample_text;
          left_width = max_width disp (map tl_name ts);
          right_width = max_width disp (concat (map series_names ts));
          left_n_lines = rat_of_nat (length ts);
          range_n = rat_of_nat (length (concat (map tl_ranges ts)));
          eventint_n = rat_of_nat (length (concat (map tl_event_int ts)));
          eventstr_n = rat_of_nat (length (concat (map tl_event_str ts)));
          left_height = left_n_lines * max_text_height + (left_n_lines - 1) * padding;
          right_n_lines = range_n + eventint_n + eventstr_n;
          right_height = (right_n_lines - 1) * padding + right_n_lines * max_text_height;
          right_data_height = (eventint_n + eventstr_n) * (max_text_height + 5) + range_n * 10;
          right_data_height = right_data_height + (right_n_lines - 1) * padding;
          height = max (max left_height right_height) right_data_height
      in (left_width, right_width, height + padding))"

definition get_data_x_start :: "rat \<Rightarrow> rat \<Rightarrow> rat" where
  "get_data_x_start left_width right_width = 5 + left_width + padding + right_width + 5"

text \<open>\<open>ScaleRenderer.layout\<close> for a scale whose bounds may be floats; a distance of 0 makes the modulo fail.\<close>

function num_closest :: "rat \<Rightarrow> int \<Rightarrow> int" where
  "num_closest data_delta closest =
     (if 0 < closest \<and> of_int (closest * 10) < data_delta then num_closest data_delta (closest * 10) else closest)"
  by pat_completeness auto
termination
proof (relation "measure (\<lambda>(d, c). nat (ceiling d - c))", goal_cases)
  case (2 d c)
  then have "c * 10 < ceiling d" by (simp add: less_ceiling_iff)
  then show ?case using 2 by auto
qed simp

declare num_closest.simps [simp del]

definition num_scale_delta :: "pynum \<Rightarrow> pynum \<Rightarrow> int res" where
  "num_scale_delta lo hi =
     (let data_delta = n_sub hi lo; closest = num_closest (nval data_delta) 1
      in rbind (n_div data_delta (PyInt closest)) (\<lambda>q.
           let delta = (if nval q = 0 then closest else if nval q = 1 then closest div 10 else closest)
           in if delta = 0 then Inl ZeroDivisionError else Inr delta))"

definition scale_height :: "display \<Rightarrow> rat" where
  "scale_height disp = text_height disp sample_text + 10"

section \<open>The state of the window\<close>

datatype cursor = SB_H_DOUBLE_ARROW | FLEUR

text \<open>
  The fields of \<open>GraphicRenderer\<close> and its parts, then those of \<open>GtkGraphicRenderer\<close>.  An attribute that is only
  set by some event is \<open>None\<close> before it, and reading it raises \<open>AttributeError\<close>.
\<close>

record window =
  g_legends :: "string list"
  g_timelines :: "timeline list"
  g_start :: rat
  g_end :: rat
  bot_lo :: int
  bot_hi :: int
  r_start :: pynum
  r_end :: pynum
  g_width :: int
  g_height :: int
  legend_height :: rat
  data_height :: rat
  data_x_start :: rat
  mid_height :: rat
  bot_height :: rat
  bot_width :: int
  moving_left :: bool
  moving_right :: bool
  moving_both :: bool
  moving_top :: bool
  force_full_redraw :: bool
  moving_left_cur :: "pynum option"
  moving_right_cur :: "pynum option"
  moving_both_start :: "pynum option"
  moving_both_cur :: "pynum option"
  moving_top_start :: "pynum option"
  moving_top_cur :: "pynum option"
  gtk_width :: "int option"
  gtk_height :: "int option"
  cursor_shape :: "cursor option"

type_synonym 'a window_op = "window \<Rightarrow> 'a res \<times> window"

definition attr :: "'a option \<Rightarrow> 'a res" where
  "attr v = (case v of None \<Rightarrow> Inl AttributeError | Some x \<Rightarrow> Inr x)"

definition layout :: "display \<Rightarrow> int \<Rightarrow> int \<Rightarrow> unit window_op" where
  "layout disp width height w =
     (let (lw, rw, dh) = data_layout disp (g_timelines w);
          w = w\<lparr>g_width := width, g_height := height, legend_height := legend_layout disp width (g_legends w),
               data_height := dh, data_x_start := get_data_x_start lw rw\<rparr>
      in case num_scale_delta (r_start w) (r_end w) of
           Inl e \<Rightarrow> (Inl e, w)
         | Inr _ \<Rightarrow>
             (let w = w\<lparr>mid_height := scale_height disp\<rparr>
              in case num_scale_delta (PyInt (bot_lo w)) (PyInt (bot_hi w)) of
                   Inl e \<Rightarrow> (Inl e, w)
                 | Inr _ \<Rightarrow> (Inr (), w\<lparr>bot_height := scale_height disp, bot_width := width\<rparr>)))"

definition set_range :: "display \<Rightarrow> pynum \<Rightarrow> pynum \<Rightarrow> unit window_op" where
  "set_range disp start end w =
     (let s = n_min start end; e = n_max start end;
          w = w\<lparr>r_start := n_max (PyFloat (g_start w)) s, r_end := n_min (PyFloat (g_end w)) e\<rparr>
      in layout disp (g_width w) (g_height w) w)"

definition get_position :: "window \<Rightarrow> pynum \<Rightarrow> pynum res" where
  "get_position w x = n_div (n_mul (n_sub x (PyInt (bot_lo w))) (PyInt (bot_width w))) (PyInt (bot_hi w - bot_lo w))"

definition get_data_rectangle :: "window \<Rightarrow> rat \<times> rat \<times> rat \<times> rat" where
  "get_data_rectangle w = (data_x_start w, legend_height w, of_int (g_width w) - data_x_start w, data_height w)"

definition get_selection_rectangle :: "window \<Rightarrow> (pynum \<times> rat \<times> pynum \<times> rat) res" where
  "get_selection_rectangle w =
     (let y_start = legend_height w + data_height w + mid_height w + 20; y_height = bot_height w + 20
      in rbind (get_position w (r_start w)) (\<lambda>x_start.
         rbind (get_position w (r_end w)) (\<lambda>x_end.
           Inr (x_start, y_start, n_sub x_end x_start, y_height))))"

definition scale_data :: "window \<Rightarrow> pynum \<Rightarrow> pynum res" where
  "scale_data w x =
     rbind (n_div x (PyFloat (of_int (g_width w) - data_x_start w))) (\<lambda>q. Inr (n_mul q (n_sub (r_end w) (r_start w))))"

definition scale_selection :: "window \<Rightarrow> pynum \<Rightarrow> pynum res" where
  "scale_selection w x = rbind (n_div x (PyInt (g_width w))) (\<lambda>q. Inr (n_mul q (PyFloat (g_end w - g_start w))))"

section \<open>The handlers\<close>

text \<open>A value that may fail to be computed, in a handler.\<close>

definition need :: "(window \<Rightarrow> 'a res) \<Rightarrow> 'a window_op" where
  "need f w = (f w, w)"

definition finish :: "'a \<Rightarrow> 'a window_op" where
  "finish x w = (Inr x, w)"

definition redraw :: "bool window_op" where
  "redraw w = (Inr True, w\<lparr>force_full_redraw := True\<rparr>)"

definition set_smaller_zoom :: "display \<Rightarrow> bool window_op" where
  "set_smaller_zoom disp w =
     st_bind (set_range disp (r_start w) (n_add (r_start w) (n_mul (n_sub (r_end w) (r_start w)) (PyInt 2))))
       (\<lambda>_. redraw) w"

definition set_bigger_zoom :: "display \<Rightarrow> bool window_op" where
  "set_bigger_zoom disp w =
     st_bind (need (\<lambda>w. n_div (n_sub (r_end w) (r_start w)) (PyInt 2))) (\<lambda>half.
     st_bind (set_range disp (r_start w) (n_add (r_start w) half)) (\<lambda>_. redraw)) w"

definition near :: "rat \<Rightarrow> pynum \<Rightarrow> bool" where
  "near x p \<longleftrightarrow> \<bar>x - nval p\<bar> < 5"

definition inside :: "rat \<Rightarrow> rat \<Rightarrow> rat \<Rightarrow> bool" where
  "inside v start len \<longleftrightarrow> start < v \<and> v < start + len"

definition button_press :: "rat \<Rightarrow> rat \<Rightarrow> bool window_op" where
  "button_press ex ey =
     st_bind (need get_selection_rectangle) (\<lambda>(x, y, width, height) w.
       let (d_x, d_y, d_width, d_height) = get_data_rectangle w
       in if inside ey y height \<and> near ex x then (Inr True, w\<lparr>moving_left := True\<rparr>)
          else if inside ey y height \<and> near ex (n_add x width) then (Inr True, w\<lparr>moving_right := True\<rparr>)
          else if inside ey y height \<and> inside ex (nval x) (nval width) then
            (Inr True, w\<lparr>moving_both := True, moving_both_start := Some (PyFloat ex), moving_both_cur := Some (PyFloat ex)\<rparr>)
          else if inside ey d_y d_height \<and> inside ex d_x d_width then
            (Inr True, w\<lparr>moving_top := True, moving_top_start := Some (PyFloat ex), moving_top_cur := Some (PyFloat ex)\<rparr>)
          else (Inr False, w))"

definition button_release :: "display \<Rightarrow> bool window_op" where
  "button_release disp w =
     (if moving_left w then
        st_bind (need (\<lambda>w. rbind (attr (moving_left_cur w)) (scale_selection w))) (\<lambda>left w.
        st_bind (set_range disp left (r_end w)) (\<lambda>_. redraw) w) (w\<lparr>moving_left := False\<rparr>)
      else if moving_right w then
        st_bind (need (\<lambda>w. rbind (attr (moving_right_cur w)) (scale_selection w))) (\<lambda>right w.
        st_bind (set_range disp (r_start w) right) (\<lambda>_. redraw) w) (w\<lparr>moving_right := False\<rparr>)
      else if moving_both w then
        st_bind (need (\<lambda>w. rbind (attr (moving_both_cur w)) (\<lambda>cur. rbind (attr (moving_both_start w)) (\<lambda>start.
                    scale_selection w (n_sub cur start))))) (\<lambda>delta w.
        st_bind (set_range disp (n_add (r_start w) delta) (n_add (r_end w) delta)) (\<lambda>_. redraw) w) (w\<lparr>moving_both := False\<rparr>)
      else (Inr False, w\<lparr>moving_top := False\<rparr>))"

text \<open>\<open>queue_draw_area\<close> reads the width of the widget.\<close>

definition redraw_selection :: "bool window_op" where
  "redraw_selection = st_bind (need (\<lambda>w. attr (gtk_width w))) (\<lambda>_. finish True)"

definition drag_left :: "rat \<Rightarrow> pynum \<Rightarrow> pynum \<Rightarrow> bool window_op" where
  "drag_left ex x width w =
     redraw_selection (w\<lparr>moving_left_cur := Some (if ex \<le> 0 then PyInt 0
        else if nval (n_add x width) \<le> ex then n_add x width else PyFloat ex)\<rparr>)"

definition drag_right :: "rat \<Rightarrow> pynum \<Rightarrow> bool window_op" where
  "drag_right ex x =
     st_bind (need (\<lambda>w. attr (gtk_width w))) (\<lambda>gw w.
       redraw_selection
         (if of_int gw \<le> ex then w\<lparr>moving_right := (gw \<noteq> 0)\<rparr>
          else w\<lparr>moving_right_cur := Some (if ex < nval x then x else PyFloat ex)\<rparr>))"

definition drag_both :: "rat \<Rightarrow> pynum \<Rightarrow> pynum \<Rightarrow> bool window_op" where
  "drag_both ex x width =
     st_bind (need (\<lambda>w. attr (gtk_width w))) (\<lambda>gw.
     st_bind (need (\<lambda>w. attr (moving_both_start w))) (\<lambda>start w.
       let cur_e = n_sub (PyInt gw) (n_sub (n_add x width) start); cur_s = n_sub start x
       in redraw_selection (w\<lparr>moving_both_cur := Some (if ex < nval cur_s then cur_s
             else if nval cur_e < ex then cur_e else PyFloat ex)\<rparr>)))"

definition drag_top :: "display \<Rightarrow> rat \<Rightarrow> bool window_op" where
  "drag_top disp ex w =
     st_bind (need (\<lambda>w. rbind (attr (moving_top_start w)) (\<lambda>start. scale_data w (n_sub start (PyFloat ex))))) (\<lambda>delta w.
     st_bind (set_range disp (n_add (r_start w) delta) (n_add (r_end w) delta)) (\<lambda>_ w.
       (Inr True, w\<lparr>force_full_redraw := True, moving_top_start := Some (PyFloat ex)\<rparr>)) w)
     (w\<lparr>moving_top_cur := Some (PyFloat ex)\<rparr>)"

definition motion_notify :: "display \<Rightarrow> rat \<Rightarrow> rat \<Rightarrow> bool window_op" where
  "motion_notify disp ex ey =
     st_bind (need get_selection_rectangle) (\<lambda>(x, y, width, height) w.
       if moving_left w then drag_left ex x width w
       else if moving_right w then drag_right ex x w
       else if moving_both w then drag_both ex x width w
       else if moving_top w then drag_top disp ex w
       else
         (let (d_x, d_y, d_width, d_height) = get_data_rectangle w
          in if inside ey y height \<and> (near ex x \<or> near ex (n_add x width)) then (Inr True, w\<lparr>cursor_shape := Some SB_H_DOUBLE_ARROW\<rparr>)
             else if inside ey y height \<and> inside ex (nval x) (nval width) then (Inr True, w\<lparr>cursor_shape := Some FLEUR\<rparr>)
             else if inside ey d_y d_height \<and> inside ex d_x d_width then (Inr True, w\<lparr>cursor_shape := Some FLEUR\<rparr>)
             else (Inr False, w\<lparr>cursor_shape := None\<rparr>)))"

definition size_allocate :: "display \<Rightarrow> int \<Rightarrow> int \<Rightarrow> bool window_op" where
  "size_allocate disp width height w =
     st_bind (layout disp width height) (\<lambda>_. redraw) (w\<lparr>gtk_width := Some width, gtk_height := Some height\<rparr>)"

text \<open>An exception in a handler is reported and the main loop goes on with the next event.\<close>

datatype gtk_event = Press rat rat | Release | Motion rat rat | Allocate int int | ZoomOut | ZoomIn

fun handle :: "display \<Rightarrow> gtk_event \<Rightarrow> bool window_op" where
  "handle disp (Press x y) w = button_press x y w"
| "handle disp Release w = button_release disp w"
| "handle disp (Motion x y) w = motion_notify disp x y w"
| "handle disp (Allocate width height) w = size_allocate disp width height w"
| "handle disp ZoomOut w = set_smaller_zoom disp w"
| "handle disp ZoomIn w = set_bigger_zoom disp w"

text \<open>\<open>main\<close> up to the main loop: the window shows a tenth of the time.\<close>

definition fresh_window :: "string list \<Rightarrow> timeline list \<Rightarrow> int \<Rightarrow> int \<Rightarrow> window" where
  "fresh_window legends ts lo hi =
     \<lparr>g_legends = legends, g_timelines = ts, g_start = of_int lo, g_end = of_int hi, bot_lo = lo, bot_hi = hi,
      r_start = PyInt 0, r_end = PyInt 0, g_width = 1, g_height = 1, legend_height = 0, data_height = 0, data_x_start = 0,
      mid_height = 0, bot_height = 0, bot_width = 0, moving_left = False, moving_right = False, moving_both = False,
      moving_top = False, force_full_redraw = True, moving_left_cur = None, moving_right_cur = None, moving_both_start = None,
      moving_both_cur = None, moving_top_start = None, moving_top_cur = None, gtk_width = None, gtk_height = None,
      cursor_shape = None\<rparr>"

definition grid_main :: "display \<Rightarrow> string \<Rightarrow> window res" where
  "grid_main disp contents =
     (let (colors, timelines) = read_data contents; (lower_bound, upper_bound) = timelines_bounds timelines;
          range_values = get_all_range_values timelines
      in rbind (lookup_all range_values colors) (\<lambda>_.
           let range_mid = (upper_bound - lower_bound) div 2; range_width = (upper_bound - lower_bound) div 10;
               range_lo = range_mid - range_width div 2; range_hi = range_mid + range_width div 2
           in case set_range disp (PyInt range_lo) (PyInt range_hi) (fresh_window range_values timelines lower_bound upper_bound) of
                (Inl e, w) \<Rightarrow> Inl e
              | (Inr _, w) \<Rightarrow> Inr w))"

section \<open>The bounds of the visible range\<close>

definition grid_step :: "display \<Rightarrow> gtk_event \<Rightarrow> window \<Rightarrow> window option" where
  "grid_step disp e w = Some (snd (handle disp e w))"

definition bounded :: "rat \<Rightarrow> rat \<Rightarrow> window \<Rightarrow> bool" where
  "bounded lo hi w \<longleftrightarrow> g_start w = lo \<and> g_end w = hi \<and> lo \<le> nval (r_start w) \<and> nval (r_end w) \<le> hi"

definition keeps :: "rat \<Rightarrow> rat \<Rightarrow> 'a window_op \<Rightarrow> bool" where
  "keeps lo hi f \<longleftrightarrow> (\<forall>w. bounded lo hi w \<longrightarrow> bounded lo hi (snd (f w)))"

named_theorems keeps_intros

lemma keeps_bind [keeps_intros]: "keeps lo hi f \<Longrightarrow> (\<And>x. keeps lo hi (g x)) \<Longrightarrow> keeps lo hi (st_bind f g)"
  by (auto simp: keeps_def st_bind_def split: sum.splits prod.splits)

lemma keeps_need [keeps_intros]: "keeps lo hi (need f)"
  by (simp add: keeps_def need_def)

lemma keeps_finish [keeps_intros]: "keeps lo hi (finish x)"
  by (simp add: keeps_def finish_def)

lemma keeps_redraw [keeps_intros]: "keeps lo hi redraw"
  by (simp add: keeps_def redraw_def bounded_def)

lemma keeps_redraw_selection [keeps_intros]: "keeps lo hi redraw_selection"
  unfolding redraw_selection_def by (intro keeps_intros)

lemma layout_range:
  "r_start (snd (layout disp a b w)) = r_start w" "r_end (snd (layout disp a b w)) = r_end w"
  "g_start (snd (layout disp a b w)) = g_start w" "g_end (snd (layout disp a b w)) = g_end w"
  by (simp_all add: layout_def Let_def split: prod.splits sum.splits)

lemma keeps_layout [keeps_intros]: "keeps lo hi (layout disp a b)"
  by (simp add: keeps_def bounded_def layout_range)

lemma keeps_set_range [keeps_intros]: "keeps lo hi (set_range disp a b)"
  by (simp add: keeps_def bounded_def set_range_def Let_def layout_range)

lemma keepsD: "keeps lo hi f \<Longrightarrow> bounded lo hi w \<Longrightarrow> bounded lo hi (snd (f w))"
  by (simp add: keeps_def)

lemma keepsI: "(\<And>w. bounded lo hi w \<Longrightarrow> bounded lo hi (snd (f w))) \<Longrightarrow> keeps lo hi f"
  by (simp add: keeps_def)

lemmas bind_keepsD = keepsD [OF keeps_bind]

lemma keeps_zoom [keeps_intros]: "keeps lo hi (set_smaller_zoom disp)" "keeps lo hi (set_bigger_zoom disp)"
  unfolding set_smaller_zoom_def set_bigger_zoom_def by (rule keepsI; (intro bind_keepsD keeps_intros; assumption))+

lemma keeps_button_press [keeps_intros]: "keeps lo hi (button_press x y)"
  unfolding button_press_def by (intro keeps_intros) (auto simp: keeps_def bounded_def Let_def split: prod.splits)

lemma bounded_fields [simp]:
  "bounded lo hi (w\<lparr>moving_left := b\<rparr>) = bounded lo hi w" "bounded lo hi (w\<lparr>moving_right := b\<rparr>) = bounded lo hi w"
  "bounded lo hi (w\<lparr>moving_both := b\<rparr>) = bounded lo hi w" "bounded lo hi (w\<lparr>moving_top := b\<rparr>) = bounded lo hi w"
  "bounded lo hi (w\<lparr>moving_left_cur := c\<rparr>) = bounded lo hi w" "bounded lo hi (w\<lparr>moving_right_cur := c\<rparr>) = bounded lo hi w"
  "bounded lo hi (w\<lparr>moving_both_cur := c\<rparr>) = bounded lo hi w" "bounded lo hi (w\<lparr>moving_top_cur := c\<rparr>) = bounded lo hi w"
  "bounded lo hi (w\<lparr>gtk_width := g, gtk_height := h\<rparr>) = bounded lo hi w"
  by (simp_all add: bounded_def)

lemma keeps_button_release [keeps_intros]: "keeps lo hi (button_release disp)"
proof (rule keepsI)
  fix w assume "bounded lo hi w"
  then show "bounded lo hi (snd (button_release disp w))"
    unfolding button_release_def by (auto intro!: bind_keepsD keeps_intros keepsI)
qed

lemma keeps_drags [keeps_intros]:
  "keeps lo hi (drag_left ex x width)" "keeps lo hi (drag_right ex x)" "keeps lo hi (drag_both ex x width)"
proof -
  show "keeps lo hi (drag_left ex x width)"
    unfolding drag_left_def by (rule keepsI) (auto intro: keepsD [OF keeps_redraw_selection])
  show "keeps lo hi (drag_right ex x)"
    unfolding drag_right_def by (intro keeps_intros, rule keepsI) (auto intro: keepsD [OF keeps_redraw_selection])
  show "keeps lo hi (drag_both ex x width)"
    unfolding drag_both_def Let_def by (intro keeps_intros, rule keepsI) (auto intro: keepsD [OF keeps_redraw_selection])
qed

lemma keeps_drag_top [keeps_intros]: "keeps lo hi (drag_top disp ex)"
proof (rule keepsI)
  fix w assume "bounded lo hi w"
  moreover have "keeps lo hi (\<lambda>w. (Inr True, w\<lparr>force_full_redraw := True, moving_top_start := Some (PyFloat ex)\<rparr>))"
    by (rule keepsI) (simp add: bounded_def)
  ultimately show "bounded lo hi (snd (drag_top disp ex w))"
    unfolding drag_top_def by (auto intro!: bind_keepsD keeps_intros keepsI)
qed

lemma keeps_motion_notify [keeps_intros]: "keeps lo hi (motion_notify disp x y)"
proof -
  have "bounded lo hi (w\<lparr>cursor_shape := c\<rparr>) = bounded lo hi w" for w c by (simp add: bounded_def)
  then show ?thesis unfolding motion_notify_def
    by (intro keeps_intros) (auto simp: Let_def intro!: keepsI keeps_intros [THEN keepsD] split: prod.splits)
qed

lemma keeps_size_allocate [keeps_intros]: "keeps lo hi (size_allocate disp a b)"
  unfolding size_allocate_def by (rule keepsI, rule bind_keepsD) (auto intro: keeps_intros)

lemma keeps_handle: "keeps lo hi (handle disp e)"
proof (cases e)
qed (simp_all add: keeps_def keeps_intros [THEN keepsD])

interpretation grid: invariant_system "grid_step disp" "bounded lo hi" for disp lo hi
  by unfold_locales (auto simp: grid_step_def intro: keepsD [OF keeps_handle])

lemma set_range_bounded: "bounded (g_start w) (g_end w) (snd (set_range disp a b w))"
  by (simp add: bounded_def set_range_def Let_def layout_range)

section \<open>Dragging the left edge\<close>

lemma n_div_int_le:
  assumes "n_div a (PyInt b) = Inr q" "0 < b"
  shows "nval q \<le> nval a / of_int b"
proof (cases a)
  case (PyInt i)
  have "of_int (i div b) \<le> of_int i / (of_int b :: rat)"
    using floor_divide_of_int_eq [of i b, where ?'a = rat] of_int_floor_le [of "of_int i / (of_int b :: rat)"] by simp
  then show ?thesis using assms PyInt by auto
qed (use assms in auto)

lemma drag_left_motion:
  assumes "moving_left w" "gtk_width w = Some W" "get_selection_rectangle w = Inr (x, y, width, h)"
  shows "snd (motion_notify disp ex ey w) = w\<lparr>moving_left_cur := Some (if ex \<le> 0 then PyInt 0
        else if nval (n_add x width) \<le> ex then n_add x width else PyFloat ex)\<rparr>"
  using assms by (simp add: motion_notify_def drag_left_def redraw_selection_def need_def st_bind_def attr_def finish_def)

lemma selection_rectangle_cur [simp]:
  "get_selection_rectangle (w\<lparr>moving_left_cur := c\<rparr>) = get_selection_rectangle w"
  "get_selection_rectangle (w\<lparr>moving_left := b\<rparr>) = get_selection_rectangle w"
  by (simp_all add: get_selection_rectangle_def get_position_def)

definition motions :: "(rat \<times> rat) list \<Rightarrow> gtk_event list" where
  "motions ms = map (\<lambda>(a, b). Motion a b) ms"

lemma drag_left_motions:
  assumes "moving_left w" "gtk_width w = Some W" "get_selection_rectangle w = Inr (x, y, width, h)"
    and "0 < ex" "ex < nval (n_add x width)"
  shows "run_steps (grid_step disp) (motions (ms @ [(ex, ey)])) w = Some (w\<lparr>moving_left_cur := Some (PyFloat ex)\<rparr>)"
  using assms
proof (induction ms arbitrary: w)
  case Nil
  then show ?case by (simp add: motions_def grid_step_def drag_left_motion)
next
  case (Cons m ms)
  obtain a b where m: "m = (a, b)" by (cases m)
  define c where "c = (if a \<le> 0 then PyInt 0 else if nval (n_add x width) \<le> a then n_add x width else PyFloat a)"
  have "grid_step disp (Motion a b) w = Some (w\<lparr>moving_left_cur := Some c\<rparr>)"
    using Cons.prems(1-3) by (simp add: grid_step_def drag_left_motion c_def)
  moreover have "run_steps (grid_step disp) (motions (ms @ [(ex, ey)])) (w\<lparr>moving_left_cur := Some c\<rparr>)
      = Some (w\<lparr>moving_left_cur := Some c, moving_left_cur := Some (PyFloat ex)\<rparr>)"
    using Cons.prems by (intro Cons.IH) simp_all
  ultimately show ?case by (simp add: motions_def m)
qed

lemma layout_bot_width: "bot_width (snd (layout disp (g_width w) b w)) \<in> {bot_width w, g_width w}"
  and layout_bot: "bot_lo (snd (layout disp a b w)) = bot_lo w" "bot_hi (snd (layout disp a b w)) = bot_hi w"
  and layout_moving: "moving_left (snd (layout disp a b w)) = moving_left w"
  by (simp_all add: layout_def Let_def split: prod.splits sum.splits)

text \<open>The range that \<open>set_range\<close> leaves, whether or not the layout fails.\<close>

lemma set_range_result:
  assumes "w' = snd (set_range disp a b w)"
  shows "r_start w' = n_max (PyFloat (g_start w)) (n_min a b)" "r_end w' = n_min (PyFloat (g_end w)) (n_max a b)"
    "bot_lo w' = bot_lo w" "bot_hi w' = bot_hi w" "bot_width w' \<in> {bot_width w, g_width w}" "moving_left w' = moving_left w"
  using layout_bot_width [of disp "w\<lparr>r_start := n_max (PyFloat (g_start w)) (n_min a b), r_end := n_min (PyFloat (g_end w)) (n_max a b)\<rparr>" "g_height w"]
  by (simp_all add: assms set_range_def Let_def layout_range layout_bot layout_moving)

lemma bind_redraw_fields:
  "snd (st_bind f (\<lambda>_. redraw) w) = snd (f w) \<or> snd (st_bind f (\<lambda>_. redraw) w) = snd (f w)\<lparr>force_full_redraw := True\<rparr>"
  by (auto simp: st_bind_def redraw_def split: sum.splits prod.splits)

lemma release_left:
  assumes "moving_left w" "moving_left_cur w = Some c" "scale_selection w c = Inr left"
    and "w' = snd (button_release disp w)"
  shows "r_start w' = n_max (PyFloat (g_start w)) (n_min left (r_end w))" "r_end w' = n_min (PyFloat (g_end w)) (n_max left (r_end w))"
    "bot_lo w' = bot_lo w" "bot_hi w' = bot_hi w" "bot_width w' \<in> {bot_width w, g_width w}" "\<not> moving_left w'"
proof -
  have scale: "scale_selection (w\<lparr>moving_left := False\<rparr>) c = Inr left" using assms(3) by (simp add: scale_selection_def)
  define v where "v = snd (set_range disp left (r_end w) (w\<lparr>moving_left := False\<rparr>))"
  have "w' = v \<or> w' = v\<lparr>force_full_redraw := True\<rparr>"
    using bind_redraw_fields [of "set_range disp left (r_end w)" "w\<lparr>moving_left := False\<rparr>"] assms(1,2,4) scale
    by (simp add: button_release_def need_def st_bind_def attr_def v_def)
  then show "r_start w' = n_max (PyFloat (g_start w)) (n_min left (r_end w))" "r_end w' = n_min (PyFloat (g_end w)) (n_max left (r_end w))"
    "bot_lo w' = bot_lo w" "bot_hi w' = bot_hi w" "bot_width w' \<in> {bot_width w, g_width w}" "\<not> moving_left w'"
    using set_range_result [OF v_def] by auto
qed

section \<open>Where the handlers go wrong\<close>

text \<open>Dragging the data beyond the last time turns the range around.\<close>

lemma set_range_inverts:
  assumes "g_end w < nval a" "nval a \<le> nval b" "g_start w \<le> nval a" "w' = snd (set_range disp a b w)"
  shows "nval (r_end w') < nval (r_start w')"
  using set_range_result [OF assms(4)] assms(1-3) by simp

text \<open>Moving the right edge past the border stores the width in the flag, so that the release finds no position.\<close>

lemma right_edge_lost:
  assumes "\<not> moving_left w" "moving_right w" "moving_right_cur w = None" "gtk_width w = Some gw" "0 < gw" "of_int gw \<le> ex"
    and "get_selection_rectangle w = Inr r"
  shows "fst (button_release disp (snd (motion_notify disp ex ey w))) = Inl AttributeError"
  using assms by (cases r) (simp add: motion_notify_def drag_right_def redraw_selection_def need_def st_bind_def attr_def
      finish_def button_release_def)

text \<open>A click on an edge without any motion reads a position that was never set.\<close>

lemma click_on_edge_raises:
  assumes "moving_left_cur w = None" "get_selection_rectangle w = Inr (x, y, width, h)" "inside py y h" "near px x"
  shows "fst (button_release disp (snd (button_press px py w))) = Inl AttributeError"
  using assms by (simp add: button_press_def button_release_def need_def st_bind_def attr_def split: prod.splits)

section \<open>A display and a window\<close>

definition fixed_display :: display where
  "fixed_display = \<lparr>text_width = (\<lambda>s. 6 * of_nat (length s)), text_height = (\<lambda>_. 8)\<rparr>"

definition open_window :: window where
  "open_window = (fresh_window [] [] 0 1000)\<lparr>r_start := PyFloat 200, r_end := PyFloat 600, g_width := 500, bot_width := 500,
     gtk_width := Some 500\<rparr>"

lemma open_window_rectangle: "get_selection_rectangle open_window = Inr (PyFloat 100, 20, PyFloat 200, 20)"
  by (simp add: get_selection_rectangle_def get_position_def open_window_def fresh_window_def)

lemma run_steps_total: "\<exists>w'. run_steps (grid_step disp) es w = Some w'"
  by (induction es arbitrary: w) (simp_all add: grid_step_def)

section \<open>Properties\<close>

text \<open>
  C33: In Python 2, which the script needs: from the window that \<open>main\<close> opens on a file, through any sequence of mouse, zoom and resize events and
  whatever the handlers raise, the visible range never starts before 0, which is the lower bound that
  \<open>get_bounds\<close> gives for every file, whatever its first time is, and never ends after the upper bound, which
  is a time in the file, or 0.
\<close>
theorem visible_range_bounded:
  assumes "grid_main disp contents = Inr w" "run_steps (grid_step disp) es w = Some w'"
  shows "\<exists>hi. timelines_bounds (snd (read_data contents)) = (0, hi) \<and> hi \<in> insert 0 (set (file_times contents)) \<and>
    0 \<le> nval (r_start w') \<and> nval (r_end w') \<le> of_int hi"
proof -
  obtain cs ts where rd: "read_data contents = (cs, ts)" by fastforce
  obtain hi where hi: "timelines_bounds (snd (read_data contents)) = (0, hi)" "hi \<in> insert 0 (set (file_times contents))"
    using file_bounds by blast
  have "bounded (of_int 0) (of_int hi) w"
    using assms(1) hi(1) set_range_bounded [of "fresh_window (get_all_range_values ts) ts 0 hi"]
    by (auto simp: grid_main_def rd rbind_eq_Inr Let_def fresh_window_def split: prod.splits sum.splits) (metis snd_conv)
  then have "bounded (of_int 0) (of_int hi) w'" using grid.run_good assms(2) by blast
  then show ?thesis using hi by (simp add: bounded_def)
qed

theorem visible_range_bounded_witness:
  "\<exists>w w'. grid_main fixed_display (''range node state busy 10 90'' @ [nl]) = Inr w \<and>
     run_steps (grid_step fixed_display) [Allocate 500 200, ZoomOut] w = Some w' \<and> 0 \<le> nval (r_start w') \<and> nval (r_end w') \<le> 90"
proof -
  let ?c = "''range node state busy 10 90'' @ [nl]"
  have main: "\<not> isl (grid_main fixed_display ?c)" and times: "timelines_bounds (snd (read_data ?c)) = (0, 90)" by code_simp+
  then obtain w where w: "grid_main fixed_display ?c = Inr w" by (cases "grid_main fixed_display ?c") auto
  obtain w' where w': "run_steps (grid_step fixed_display) [Allocate 500 200, ZoomOut] w = Some w'"
    using run_steps_total by blast
  have "0 \<le> nval (r_start w') \<and> nval (r_end w') \<le> 90" using visible_range_bounded [OF w w'] times by auto
  then show ?thesis using w w' by blast
qed

text \<open>A file whose only range is from 100 to 200 opens at 90, before its first time.\<close>

lemma opens_before_first_time:
  "map_sum id (\<lambda>w. (nval (r_start w), nval (r_end w))) (grid_main fixed_display (''range node state busy 100 200'' @ [nl])) = Inr (90, 110)"
  by code_simp

text \<open>
  Pressing the button on the left edge of the selection, moving the mouse any number of times and
  releasing it at a place between the left border and the right edge puts the left edge exactly there, on
  the scale below the data, and leaves the right end of the range where it was.
\<close>
theorem drag_left_lands:
  assumes "g_start w = 0" "g_end w = of_int E" "bot_lo w = 0" "bot_hi w = E" "0 < E"
    and "g_width w = W" "bot_width w = W" "gtk_width w = Some W" "0 < W" "nval (r_end w) \<le> of_int E"
    and "get_selection_rectangle w = Inr (x, y, width, h)" "inside py y h" "near px x"
    and "0 < ex" "ex < nval (n_add x width)"
  shows "\<exists>w'. run_steps (grid_step disp) (Press px py # motions (ms @ [(ex, ey)]) @ [Release]) w = Some w' \<and>
    get_position w' (r_start w') = Inr (PyFloat ex) \<and> nval (r_end w') = nval (r_end w) \<and> \<not> moving_left w'"
proof -
  define v where "v = w\<lparr>moving_left := True, moving_left_cur := Some (PyFloat ex)\<rparr>"
  define left where "left = ex / of_int W * (of_int E :: rat)"
  define w' where "w' = snd (button_release disp v)"
  have press: "grid_step disp (Press px py) w = Some (w\<lparr>moving_left := True\<rparr>)"
    using assms(11-13) by (simp add: grid_step_def button_press_def need_def st_bind_def split: prod.splits)
  have moved: "run_steps (grid_step disp) (motions (ms @ [(ex, ey)])) (w\<lparr>moving_left := True\<rparr>) = Some v"
    using drag_left_motions [of "w\<lparr>moving_left := True\<rparr>" W x y width h ex disp ms ey] assms(8,11,14,15) by (simp add: v_def)
  have scale: "scale_selection v (PyFloat ex) = Inr (PyFloat left)"
    using assms(1,2,6,9) by (simp add: scale_selection_def v_def left_def)
  obtain x_end where x_end: "get_position w (r_end w) = Inr x_end" "nval (n_add x width) = nval x_end"
    using assms(11) by (auto simp: get_selection_rectangle_def Let_def rbind_eq_Inr)
  have "nval x_end \<le> nval (r_end w) * of_int W / of_int E"
    using n_div_int_le [of "n_mul (n_sub (r_end w) (PyInt 0)) (PyInt W)" E x_end] x_end(1) assms(3-5,7) by (simp add: get_position_def)
  then have "ex < nval (r_end w) * of_int W / of_int E" using assms(15) x_end(2) by simp
  then have less: "left < nval (r_end w)" using assms(5,9) by (simp add: left_def field_simps)
  have pos: "0 < left" using assms(5,9,14) by (simp add: left_def)
  note rel = release_left [OF _ _ scale w'_def, unfolded v_def, simplified]
  have "r_start w' = PyFloat left" using rel(1) less pos assms(1) by (simp add: n_max_def n_min_def)
  moreover have "bot_width w' = W" "bot_lo w' = 0" "bot_hi w' = E" using rel(3-5) assms(3,4,6,7) by auto
  ultimately have "get_position w' (r_start w') = Inr (PyFloat ex)"
    using assms(5,9) by (simp add: get_position_def left_def)
  moreover have "nval (r_end w') = nval (r_end w)" using rel(2) less assms(2,10) by simp
  moreover have "run_steps (grid_step disp) (Press px py # motions (ms @ [(ex, ey)]) @ [Release]) w = Some w'"
    using press moved by (simp add: run_steps_append grid_step_def w'_def)
  ultimately show ?thesis using rel(6) by blast
qed

theorem drag_left_lands_witness:
  "\<exists>w'. run_steps (grid_step fixed_display) (Press 102 30 # motions ([(90, 30), (- 5, 31)] @ [(50, 30)]) @ [Release]) open_window = Some w' \<and>
     get_position w' (r_start w') = Inr (PyFloat 50) \<and> nval (r_end w') = 600"
proof -
  have "inside 30 20 20" "near 102 (PyFloat 100)" by (simp_all add: inside_def near_def)
  moreover have "g_start open_window = 0" "g_end open_window = of_int 1000" "bot_lo open_window = 0" "bot_hi open_window = 1000"
    "g_width open_window = 500" "bot_width open_window = 500" "gtk_width open_window = Some 500" "r_end open_window = PyFloat 600"
    by (simp_all add: open_window_def fresh_window_def)
  ultimately show ?thesis
    using drag_left_lands [of open_window 1000 500 "PyFloat 100" 20 "PyFloat 200" 20 30 102 50 fixed_display "[(90, 30), (- 5, 31)]" 30]
      open_window_rectangle by auto
qed

text \<open>Zooming in and out again shows the same range, if it is held as floats.\<close>

lemma zoom_in_out:
  assumes "r_start w = PyFloat a" "r_end w = PyFloat b" "g_start w \<le> a" "a \<le> b" "b \<le> g_end w"
    and "w1 = snd (set_bigger_zoom disp w)" "w2 = snd (set_smaller_zoom disp w1)"
  shows "nval (r_start w2) = a \<and> nval (r_end w2) = b"
proof -
  define v where "v = snd (set_range disp (PyFloat a) (PyFloat (a + (b - a) / 2)) w)"
  have "w1 = v \<or> w1 = v\<lparr>force_full_redraw := True\<rparr>"
    using bind_redraw_fields [of "set_range disp (PyFloat a) (PyFloat (a + (b - a) / 2))" w] assms(1,2,6)
    by (simp add: set_bigger_zoom_def need_def st_bind_def v_def)
  moreover have "g_start v = g_start w \<and> g_end v = g_end w"
    by (simp add: v_def set_range_def Let_def layout_range)
  ultimately have w1: "nval (r_start w1) = a" "nval (r_end w1) = a + (b - a) / 2" "g_start w1 = g_start w" "g_end w1 = g_end w"
    using set_range_result [OF v_def] assms(3-5) by (auto simp: field_simps)
  define u where "u = snd (set_range disp (r_start w1) (n_add (r_start w1) (n_mul (n_sub (r_end w1) (r_start w1)) (PyInt 2))) w1)"
  have "w2 = u \<or> w2 = u\<lparr>force_full_redraw := True\<rparr>"
    using bind_redraw_fields [of "set_range disp (r_start w1) (n_add (r_start w1) (n_mul (n_sub (r_end w1) (r_start w1)) (PyInt 2)))" w1]
    by (simp add: set_smaller_zoom_def u_def assms(7))
  then show ?thesis using set_range_result [OF u_def] w1 assms(3-5) by (auto simp: field_simps)
qed

end
