(* ===== verification/Shlex.thy ===== *)
theory Shlex
  imports PyLib
begin

text \<open>
  \<open>shlex.split\<close> of the Python library, which \<^verbatim>\<open>waf-tools/shellcmd.py\<close> and
  \<^verbatim>\<open>wutils.py\<close> use to split command lines: the scanner in POSIX mode, with words separated
  by white space only and without comments.  Its state says how the next character is read.
\<close>

section \<open>The scanner\<close>

datatype lex_state =
    Between
  | InWord
  | Quoted char
  | Escaped
  | EscapedIn char

definition lex_space :: "char \<Rightarrow> bool" where
  "lex_space c \<longleftrightarrow> c \<in> set [CHR '' '', tab, CHR 0x0D, nl]"

definition lex_quote :: "char \<Rightarrow> bool" where
  "lex_quote c \<longleftrightarrow> c = squote \<or> c = dquote"

text \<open>
  The word read so far is \<open>tok\<close>; it is empty outside words.  A word that ends is handed out also
  when it is empty, since it then has quotes in it.
\<close>

fun lex_loop :: "lex_state \<Rightarrow> string \<Rightarrow> string \<Rightarrow> string list res" where
  "lex_loop Between tok [] = Inr []"
| "lex_loop Between tok (c # cs) =
     (if lex_space c then lex_loop Between tok cs
      else if c = backslash then lex_loop Escaped tok cs
      else if lex_quote c then lex_loop (Quoted c) tok cs
      else lex_loop InWord [c] cs)"
| "lex_loop InWord tok [] = Inr [tok]"
| "lex_loop InWord tok (c # cs) =
     (if lex_space c then rbind (lex_loop Between [] cs) (\<lambda>ws. Inr (tok # ws))
      else if lex_quote c then lex_loop (Quoted c) tok cs
      else if c = backslash then lex_loop Escaped tok cs
      else lex_loop InWord (tok @ [c]) cs)"
| "lex_loop (Quoted q) tok [] = Inl ValueError"
| "lex_loop (Quoted q) tok (c # cs) =
     (if c = q then lex_loop InWord tok cs
      else if c = backslash \<and> q = dquote then lex_loop (EscapedIn q) tok cs
      else lex_loop (Quoted q) (tok @ [c]) cs)"
| "lex_loop Escaped tok [] = Inl ValueError"
| "lex_loop Escaped tok (c # cs) = lex_loop InWord (tok @ [c]) cs"
| "lex_loop (EscapedIn q) tok [] = Inl ValueError"
| "lex_loop (EscapedIn q) tok (c # cs) =
     lex_loop (Quoted q) (tok @ (if c \<noteq> backslash \<and> c \<noteq> q then [backslash, c] else [c])) cs"

definition shlex_split :: "string \<Rightarrow> string list res" where
  "shlex_split s = lex_loop Between [] s"

section \<open>Plain words and quoted words\<close>

definition plain_char :: "char \<Rightarrow> bool" where
  "plain_char c \<longleftrightarrow> \<not> lex_space c \<and> \<not> lex_quote c \<and> c \<noteq> backslash"

definition plain_word :: "string \<Rightarrow> bool" where
  "plain_word w \<longleftrightarrow> w \<noteq> [] \<and> list_all plain_char w"

text \<open>A shell quotes a word by single quotes, with every single quote in it escaped outside of them.\<close>

definition quote_char :: "char \<Rightarrow> string" where
  "quote_char c = (if c = squote then [squote, backslash, squote, squote] else [c])"

definition quote_word :: "string \<Rightarrow> string" where
  "quote_word w = squote # concat (map quote_char w) @ [squote]"

lemma lex_space_blank [simp]: "lex_space (CHR '' '')"
  by (simp add: lex_space_def)

lemma lex_plain_chars: "list_all plain_char w \<Longrightarrow> lex_loop InWord tok (w @ cs) = lex_loop InWord (tok @ w) cs"
  by (induction w arbitrary: tok) (simp_all add: plain_char_def)

lemma lex_plain_word: "plain_word w \<Longrightarrow> lex_loop Between [] (w @ cs) = lex_loop InWord w cs"
  by (cases w) (simp_all add: plain_word_def plain_char_def lex_plain_chars)

lemma quote_class [simp]: "\<not> lex_space squote" "lex_quote squote" "squote \<noteq> backslash" "\<not> lex_space backslash"
  "\<not> lex_quote backslash" "squote \<noteq> dquote"
  by (simp_all add: lex_space_def lex_quote_def)

lemma lex_quoted_chars:
  "lex_loop (Quoted squote) tok (concat (map quote_char w) @ cs) = lex_loop (Quoted squote) (tok @ w) cs"
  by (induction w arbitrary: tok) (simp_all add: quote_char_def)

lemma lex_quoted_word: "lex_loop Between [] (quote_word w @ cs) = lex_loop InWord w cs"
  by (simp add: quote_word_def lex_quoted_chars)

text \<open>A backslash outside quotes is written twice.\<close>

definition double_backslash :: "string \<Rightarrow> string" where
  "double_backslash w = replace_char backslash [backslash, backslash] w"

definition unquoted_word :: "string \<Rightarrow> bool" where
  "unquoted_word w \<longleftrightarrow> w \<noteq> [] \<and> list_all (\<lambda>c. \<not> lex_space c \<and> \<not> lex_quote c) w"

lemma double_backslash_simps:
  "double_backslash [] = []"
  "double_backslash (c # w) = (if c = backslash then [backslash, backslash] else [c]) @ double_backslash w"
  by (simp_all add: double_backslash_def replace_char_def)

lemma lex_doubled_chars:
  "list_all (\<lambda>c. \<not> lex_space c \<and> \<not> lex_quote c) w \<Longrightarrow>
     lex_loop InWord tok (double_backslash w @ cs) = lex_loop InWord (tok @ w) cs"
proof (induction w arbitrary: tok)
  case (Cons c w)
  then show ?case by (cases "c = backslash") (simp_all add: double_backslash_simps)
qed (simp add: double_backslash_simps)

lemma lex_doubled_word:
  assumes "unquoted_word w"
  shows "lex_loop Between [] (double_backslash w @ cs) = lex_loop InWord w cs"
proof -
  obtain c v where w: "w = c # v" using assms by (cases w) (simp_all add: unquoted_word_def)
  show ?thesis using assms lex_doubled_chars [of v "[c]" cs] unfolding w
    by (cases "c = backslash") (simp_all add: double_backslash_simps unquoted_word_def)
qed

text \<open>How a word may be written: plainly, in quotes, or with doubled backslashes.\<close>

definition spelling :: "string \<Rightarrow> string \<Rightarrow> bool" where
  "spelling s w \<longleftrightarrow> s = quote_word w \<or> s = w \<and> plain_word w \<or> s = double_backslash w \<and> unquoted_word w"

lemma lex_spelling: "spelling s w \<Longrightarrow> lex_loop Between [] (s @ cs) = lex_loop InWord w cs"
  unfolding spelling_def using lex_plain_word lex_quoted_word lex_doubled_word by blast

lemma plain_word_unquoted: "plain_word w \<Longrightarrow> unquoted_word w \<and> double_backslash w = w"
proof -
  have "list_all plain_char w \<Longrightarrow> list_all (\<lambda>c. \<not> lex_space c \<and> \<not> lex_quote c) w \<and> double_backslash w = w" for w
    by (induction w) (auto simp: double_backslash_simps plain_char_def)
  then show "plain_word w \<Longrightarrow> ?thesis" by (simp add: plain_word_def unquoted_word_def)
qed

lemma double_backslash_append: "double_backslash (a @ b) = double_backslash a @ double_backslash b"
  by (induction a) (simp_all add: double_backslash_simps)

lemma double_backslash_join: "double_backslash (join_with '' '' ws) = join_with '' '' (map double_backslash ws)"
  by (induction ws rule: induct_list012) (simp_all add: double_backslash_append double_backslash_simps)

text \<open>A text that the scanner reads as one word, whatever follows it.\<close>

definition lexes :: "string \<Rightarrow> string \<Rightarrow> bool" where
  "lexes s w \<longleftrightarrow> (\<forall>cs. lex_loop Between [] (s @ cs) = lex_loop InWord w cs)"

lemma split_join_lexes:
  "list_all2 lexes ss ws \<Longrightarrow> shlex_split (join_with '' '' ss) = Inr ws"
proof (induction ss ws rule: list_all2_induct)
  case Nil
  then show ?case by (simp add: shlex_split_def)
next
  case (Cons s ss w ws)
  then have s: "lex_loop Between [] (s @ cs) = lex_loop InWord w cs" for cs by (simp add: lexes_def)
  show ?case
  proof (cases "ss = []")
    case True
    then show ?thesis using Cons s [of "[]"] by (simp add: shlex_split_def)
  next
    case False
    then have "join_with '' '' (s # ss) = s @ CHR '' '' # join_with '' '' ss" by (simp add: join_with_Cons)
    then show ?thesis using Cons s by (simp add: shlex_split_def)
  qed
qed

lemma split_join_words: "list_all2 spelling ss ws \<Longrightarrow> shlex_split (join_with '' '' ss) = Inr ws"
  by (rule split_join_lexes) (auto simp: lexes_def lex_spelling elim: list_all2_mono)

section \<open>Quoting\<close>

text \<open>
  \<open>shlex.quote\<close>: a word of safe characters is left alone, any other is put in single quotes, with the
  single quotes in it in double quotes.
\<close>

definition safe_char :: "char \<Rightarrow> bool" where
  "safe_char c \<longleftrightarrow> word_char c \<or> c \<in> set ''@%+=:,./-''"

definition quote_hard :: "char \<Rightarrow> string" where
  "quote_hard c = (if c = squote then [squote, dquote, squote, dquote, squote] else [c])"

definition shlex_quote :: "string \<Rightarrow> string" where
  "shlex_quote s =
     (if s = '''' then [squote, squote] else if list_all safe_char s then s
      else squote # concat (map quote_hard s) @ [squote])"

lemma safe_plain: "safe_char c \<Longrightarrow> plain_char c"
  by (auto simp: safe_char_def plain_char_def lex_space_def lex_quote_def word_char_def)

lemma lex_hard_chars:
  "lex_loop (Quoted squote) tok (concat (map quote_hard w) @ cs) = lex_loop (Quoted squote) (tok @ w) cs"
proof (induction w arbitrary: tok)
  case (Cons c w)
  have "lex_quote dquote" "\<not> lex_space dquote" by (simp_all add: lex_quote_def lex_space_def)
  then show ?case using Cons by (simp add: quote_hard_def)
qed simp

lemma shlex_quote_lexes: "lexes (shlex_quote w) w"
proof -
  consider "w = []" | "w \<noteq> []" "list_all safe_char w" | "w \<noteq> []" "\<not> list_all safe_char w" by blast
  then show ?thesis
  proof cases
    case 2
    then have "plain_word w" by (auto simp: plain_word_def list_all_iff safe_plain)
    then show ?thesis using 2 by (simp add: lexes_def shlex_quote_def lex_plain_word)
  qed (simp_all add: lexes_def shlex_quote_def lex_hard_chars)
qed

lemma split_quoted: "shlex_split (join_with '' '' (map shlex_quote ws)) = Inr ws"
  by (rule split_join_lexes) (simp add: list_all2_conv_all_nth shlex_quote_lexes)

end
