(* ===== verification/ShellCmd.thy ===== *)
theory ShellCmd
  imports Shlex
begin

text \<open>
  Command lines of build rules, \<^verbatim>\<open>waf-tools/shellcmd.py\<close> and \<^verbatim>\<open>waf-tools/command.py\<close>:
  the parser \<open>Pipeline.parse\<close>, the executor \<open>Pipeline.run\<close> and the substitution of variables in
  the arguments.  The processes that are started, the files that are opened and the evaluation of
  the substituted expressions are parameters.  Strings are ASCII.
\<close>

section \<open>Nodes\<close>

text \<open>Where a command writes: \<open>Command.PIPE\<close>, \<open>Command.STDOUT\<close> or a file.\<close>

datatype target = ToPipe | ToStdout | ToFile string

record command =
  cmd_name :: string
  argv :: "string list"
  cmd_stdin :: "string option"
  cmd_stdout :: "target option"
  cmd_stderr :: "target option"
  env_vars :: "(string \<times> string) list option"

datatype node =
    Cmd command
  | Chdir "string option"
  | PipeOp
  | AndOp
  | OrOp

definition Command :: "string \<Rightarrow> command" where
  "Command name = \<lparr>cmd_name = name, argv = [name], cmd_stdin = None, cmd_stdout = None, cmd_stderr = None,
     env_vars = None\<rparr>"

text \<open>
  Two \<open>if\<close> statements in a row; the second asks for \<open>And\<close> twice, so \<open>Or\<close> adds nothing.
\<close>

fun abbreviate :: "node \<Rightarrow> string list" where
  "abbreviate (Cmd c) = [cmd_name c]"
| "abbreviate (Chdir d) = [''cd '' @ (case d of None \<Rightarrow> ''None'' | Some d \<Rightarrow> d)]"
| "abbreviate PipeOp = [''|'']"
| "abbreviate AndOp = [''&&'']"
| "abbreviate OrOp = []"

definition get_abbreviated_command :: "node list \<Rightarrow> string" where
  "get_abbreviated_command pipeline = join_with '' '' (concat (map abbreviate pipeline))"

section \<open>The parser\<close>

text \<open>
  \<open>env_var_rx\<close>: a name, an equals sign and a value without white space; the end of the pattern also
  matches in front of a final newline.
\<close>

definition env_var_match :: "string \<Rightarrow> (string \<times> string) option" where
  "env_var_match token =
     (let name = takeWhile (\<lambda>c. c \<noteq> CHR ''='') token;
          val = drop 1 (dropWhile (\<lambda>c. c \<noteq> CHR ''='') token);
          val = (if val \<noteq> [] \<and> last val = nl then butlast val else val)
      in if CHR ''='' \<in> set token \<and> name \<noteq> [] \<and> list_all word_char name \<and>
            val \<noteq> [] \<and> list_all (\<lambda>c. \<not> py3_space c) val
         then Some (name, val) else None)"

datatype parse_pc = BEGIN | COMMAND | CHDIR | STDERR | STDOUT | STDIN

record parser =
  pc :: parse_pc
  current_command :: "node option"
  pipeline :: "node list"
  pending_env :: "(string \<times> string) list"

definition start_parser :: parser where
  "start_parser = \<lparr>pc = BEGIN, current_command = None, pipeline = [], pending_env = []\<rparr>"

definition commit_command :: "parser \<Rightarrow> parser res" where
  "commit_command p =
     (case current_command p of
        None \<Rightarrow> Inl AssertionError
      | Some node \<Rightarrow> Inr (p\<lparr>pipeline := pipeline p @ [node], current_command := None\<rparr>))"

text \<open>\<open>_commit_command()\<close>, the operator, and back to \<open>BEGIN\<close>.\<close>

definition end_command :: "node \<Rightarrow> parser \<Rightarrow> parser res" where
  "end_command op p = rbind (commit_command p) (\<lambda>p. Inr (p\<lparr>pipeline := pipeline p @ [op], pc := BEGIN\<rparr>))"

text \<open>An attribute of a command that is not there raises \<open>AttributeError\<close>.\<close>

definition with_command :: "parser \<Rightarrow> (command \<Rightarrow> parser res) \<Rightarrow> parser res" where
  "with_command p f = (case current_command p of Some (Cmd c) \<Rightarrow> f c | _ \<Rightarrow> Inl AttributeError)"

definition set_command :: "command \<Rightarrow> parser \<Rightarrow> parser" where
  "set_command c p = p\<lparr>current_command := Some (Cmd c)\<rparr>"

definition begin_token :: "parser \<Rightarrow> string \<Rightarrow> parser res" where
  "begin_token p token =
     (case env_var_match token of
        Some (name, val) \<Rightarrow> Inr (p\<lparr>pending_env := AList.update name val (pending_env p)\<rparr>)
      | None \<Rightarrow>
          if current_command p \<noteq> None then Inl AssertionError
          else if token = ''cd'' then
            (if pending_env p \<noteq> [] then Inl AssertionError
             else Inr (p\<lparr>current_command := Some (Chdir None), pc := CHDIR\<rparr>))
          else
            (let c = Command token;
                 c = (if pending_env p \<noteq> [] then c\<lparr>env_vars := Some (pending_env p)\<rparr> else c)
             in Inr ((set_command c p)\<lparr>pending_env := [], pc := COMMAND\<rparr>)))"

definition command_token :: "parser \<Rightarrow> string \<Rightarrow> parser res" where
  "command_token p token =
     (if token = ''>'' then Inr (p\<lparr>pc := STDOUT\<rparr>)
      else if token = ''2>'' then Inr (p\<lparr>pc := STDERR\<rparr>)
      else if token = ''2>&1'' then
        with_command p (\<lambda>c. if cmd_stderr c \<noteq> None then Inl AssertionError
                            else Inr (set_command (c\<lparr>cmd_stderr := Some ToStdout\<rparr>) p))
      else if token = ''<'' then Inr (p\<lparr>pc := STDIN\<rparr>)
      else if token = ''|'' then
        with_command p (\<lambda>c. if cmd_stdout c \<noteq> None then Inl AssertionError
                            else end_command PipeOp (set_command (c\<lparr>cmd_stdout := Some ToPipe\<rparr>) p))
      else if token = ''&&'' then end_command AndOp p
      else if token = ''||'' then end_command OrOp p
      else with_command p (\<lambda>c. Inr (set_command (c\<lparr>argv := argv c @ [token]\<rparr>) p)))"

definition chdir_token :: "parser \<Rightarrow> string \<Rightarrow> parser res" where
  "chdir_token p token =
     (if token = ''&&'' then end_command AndOp p
      else (case current_command p of
              Some (Chdir None) \<Rightarrow> Inr (p\<lparr>current_command := Some (Chdir (Some token))\<rparr>)
            | Some (Chdir (Some d)) \<Rightarrow> Inl AssertionError
            | _ \<Rightarrow> Inl AttributeError))"

fun parse_token :: "parser \<Rightarrow> string \<Rightarrow> parser res" where
  "parse_token p token =
     (case pc p of
        BEGIN \<Rightarrow> begin_token p token
      | COMMAND \<Rightarrow> command_token p token
      | CHDIR \<Rightarrow> chdir_token p token
      | STDOUT \<Rightarrow> with_command p (\<lambda>c. if cmd_stdout c \<noteq> None then Inl AssertionError
          else Inr ((set_command (c\<lparr>cmd_stdout := Some (ToFile token)\<rparr>) p)\<lparr>pc := COMMAND\<rparr>))
      | STDERR \<Rightarrow> with_command p (\<lambda>c. if cmd_stderr c \<noteq> None then Inl AssertionError
          else Inr ((set_command (c\<lparr>cmd_stderr := Some (ToFile token)\<rparr>) p)\<lparr>pc := COMMAND\<rparr>))
      | STDIN \<Rightarrow> with_command p (\<lambda>c. if cmd_stdin c \<noteq> None then Inl AssertionError
          else Inr ((set_command (c\<lparr>cmd_stdin := Some token\<rparr>) p)\<lparr>pc := COMMAND\<rparr>)))"

declare parse_token.simps [simp del]

fun parse_tokens_from :: "parser \<Rightarrow> string list \<Rightarrow> parser res" where
  "parse_tokens_from p [] = Inr p"
| "parse_tokens_from p (t # ts) = rbind (parse_token p t) (\<lambda>p. parse_tokens_from p ts)"

definition parse_tokens :: "string list \<Rightarrow> node list res" where
  "parse_tokens tokens =
     rbind (parse_tokens_from start_parser tokens) (\<lambda>p. rbind (commit_command p) (\<lambda>p. Inr (pipeline p)))"

text \<open>\<open>parse\<close> takes a list of tokens or a text to split.\<close>

datatype command_line = Tokens "string list" | Text string

fun parse :: "command_line \<Rightarrow> node list res" where
  "parse (Tokens ts) = parse_tokens ts"
| "parse (Text s) = rbind (shlex_split s) parse_tokens"

section \<open>The executor\<close>

text \<open>Where the standard streams of a process are connected.\<close>

datatype channel = Inherit | PipeFrom nat | NewPipe | SameAsStdout | DevNull | Opened string

record launch =
  l_argv :: "string list"
  l_stdin :: channel
  l_stdout :: channel
  l_stderr :: channel
  l_env :: "(string \<times> string) list option"
  l_cwd :: "string option"

text \<open>
  The machine the commands run on: its environment variables, which files and processes can be
  opened and started, and the exit code of a process, which may depend on everything that has been
  started when it is waited for; \<open>None\<close> is a process that does not end.  (A reader that ends early does not
  end its writer: \<open>run\<close> keeps the reading ends of its pipes open, so the writer gets no signal.)
\<close>

record machine =
  environ :: "(string \<times> string) list"
  can_read :: "string \<Rightarrow> bool"
  can_write :: "string \<Rightarrow> bool"
  can_start :: "launch \<Rightarrow> bool"
  exit_of :: "launch list \<Rightarrow> nat \<Rightarrow> int option"

text \<open>
  The local variables of \<open>run\<close>, with \<open>piped_commands\<close> as indices into the processes started, and a
  record of what it did: processes started, files opened and closed, lines printed.
\<close>

record run_state =
  files_to_close :: "channel list"
  piped_commands :: "nat list"
  display :: "string list"
  in_pipe :: bool
  cwd :: string
  launched :: "launch list"
  opened :: "string list"
  closed :: "string list"
  printed :: "string list"

definition start_run :: run_state where
  "start_run = \<lparr>files_to_close = [], piped_commands = [], display = [], in_pipe = False, cwd = ''.'',
     launched = [], opened = [], closed = [], printed = []\<rparr>"

type_synonym 'a run = "run_state \<Rightarrow> 'a res \<times> run_state"

definition show_text :: "bool \<Rightarrow> string \<Rightarrow> run_state \<Rightarrow> run_state" where
  "show_text verbose s st = (if verbose then st\<lparr>display := display st @ [s]\<rparr> else st)"

definition open_file :: "bool \<Rightarrow> string \<Rightarrow> channel run" where
  "open_file ok f st =
     (if ok then (Inr (Opened f), st\<lparr>opened := opened st @ [f], files_to_close := files_to_close st @ [Opened f]\<rparr>)
      else (Inl OSError, st))"

definition open_out_file :: "machine \<Rightarrow> string \<Rightarrow> channel run" where
  "open_out_file w f st =
     (if f = ''NUL:'' \<or> f = ''/dev/null'' then (Inr DevNull, st\<lparr>files_to_close := files_to_close st @ [DevNull]\<rparr>)
      else open_file (can_write w f) f st)"

definition get_stdin :: "machine \<Rightarrow> bool \<Rightarrow> command \<Rightarrow> channel run" where
  "get_stdin w verbose c st =
     (if in_pipe st then
        (if piped_commands st = [] then (Inl IndexError, st) else (Inr (PipeFrom (last (piped_commands st))), st))
      else (case cmd_stdin c of
              None \<Rightarrow> (Inr Inherit, st)
            | Some f \<Rightarrow> st_bind (open_file (can_read w f) f)
                (\<lambda>ch st. (Inr ch, show_text verbose (''< '' @ f) st)) st))"

definition get_stdout :: "machine \<Rightarrow> bool \<Rightarrow> command \<Rightarrow> channel run" where
  "get_stdout w verbose c st =
     (case cmd_stdout c of
        None \<Rightarrow> (Inr Inherit, st)
      | Some ToPipe \<Rightarrow> (Inr NewPipe, st)
      | Some ToStdout \<Rightarrow> (Inl TypeError, st)
      | Some (ToFile f) \<Rightarrow> st_bind (open_out_file w f) (\<lambda>ch st. (Inr ch, show_text verbose (''> '' @ f) st)) st)"

definition get_stderr :: "machine \<Rightarrow> bool \<Rightarrow> command \<Rightarrow> channel run" where
  "get_stderr w verbose c st =
     (case cmd_stderr c of
        None \<Rightarrow> (Inr Inherit, st)
      | Some ToPipe \<Rightarrow> (Inr NewPipe, st)
      | Some ToStdout \<Rightarrow> (Inr SameAsStdout, show_text verbose ''2>&1'' st)
      | Some (ToFile f) \<Rightarrow> st_bind (open_out_file w f) (\<lambda>ch st. (Inr ch, show_text verbose (''2> '' @ f) st)) st)"

definition command_text :: "command \<Rightarrow> string" where
  "command_text c =
     (case env_vars c of
        Some (v # vs) \<Rightarrow> join_with '' '' (map (\<lambda>(k, x). k @ ''='' @ x) (v # vs)) @ '' '' @ join_with '' '' (argv c)
      | _ \<Rightarrow> join_with '' '' (argv c))"

definition process_env :: "machine \<Rightarrow> command \<Rightarrow> (string \<times> string) list option" where
  "process_env w c =
     (case env_vars c of
        Some (v # vs) \<Rightarrow> Some (foldl (\<lambda>env (k, x). AList.update k x env) (environ w) (v # vs))
      | _ \<Rightarrow> None)"

definition popen_process :: "machine \<Rightarrow> launch \<Rightarrow> unit run" where
  "popen_process w l st =
     (if can_start w l
      then (Inr (), st\<lparr>launched := launched st @ [l], piped_commands := piped_commands st @ [length (launched st)]\<rparr>)
      else (Inl OSError, st))"

definition start_command :: "machine \<Rightarrow> bool \<Rightarrow> command \<Rightarrow> unit run" where
  "start_command w verbose c st =
     st_bind (get_stdin w verbose c) (\<lambda>i.
     st_bind (get_stdout w verbose c) (\<lambda>out.
     st_bind (get_stderr w verbose c) (\<lambda>err st.
       popen_process w \<lparr>l_argv = argv c, l_stdin = i, l_stdout = out, l_stderr = err, l_env = process_env w c,
                         l_cwd = (if cwd st = ''.'' then None else Some (cwd st))\<rparr> st)))
       (show_text verbose (command_text c) st)"

text \<open>\<open>_exec_piped_commands\<close>: \<open>None\<close> when one of the calls of \<open>wait\<close> does not return.\<close>

fun wait_all :: "(nat \<Rightarrow> int option) \<Rightarrow> nat list \<Rightarrow> int list option" where
  "wait_all wait [] = Some []"
| "wait_all wait (k # ks) =
     (case wait k of None \<Rightarrow> None | Some r \<Rightarrow> map_option (\<lambda>rs. r # rs) (wait_all wait ks))"

definition exec_piped_commands :: "machine \<Rightarrow> run_state \<Rightarrow> int option" where
  "exec_piped_commands w st =
     map_option (\<lambda>retvals. if list_ex (\<lambda>r. r \<noteq> 0) retvals then last retvals else 0)
       (wait_all (exit_of w (launched st)) (piped_commands st))"

fun closable :: "channel \<Rightarrow> string list" where
  "closable (Opened f) = [f]"
| "closable _ = []"

definition close_files :: "run_state \<Rightarrow> run_state" where
  "close_files st = st\<lparr>closed := closed st @ concat (map closable (files_to_close st)), files_to_close := []\<rparr>"

definition next_group :: "run_state \<Rightarrow> run_state" where
  "next_group st = st\<lparr>in_pipe := False, piped_commands := [], display := []\<rparr>"

text \<open>
  The branches of \<open>||\<close> and \<open>&&\<close>: with \<open>verbose\<close> they print \<open>retval\<close>, which has no value there.
\<close>

definition group_code :: "machine \<Rightarrow> bool \<Rightarrow> run_state \<Rightarrow> (int res \<times> run_state) option" where
  "group_code w verbose st =
     (case exec_piped_commands w st of
        None \<Rightarrow> None
      | Some r \<Rightarrow> Some (if verbose then Inl UnboundLocalError else Inr r, close_files st))"

definition last_code :: "machine \<Rightarrow> bool \<Rightarrow> run_state \<Rightarrow> (int option res \<times> run_state) option" where
  "last_code w verbose st =
     (case exec_piped_commands w st of
        None \<Rightarrow> None
      | Some r \<Rightarrow>
          (let st = (if verbose then st\<lparr>printed := printed st @ [join_with '' '' (display st) @ '': exit code '' @ dec r]\<rparr> else st)
           in Some (Inr (Some r), close_files st)))"

text \<open>The result \<open>None\<close> stands for a run that does not return.\<close>

fun run_loop :: "machine \<Rightarrow> bool \<Rightarrow> node list \<Rightarrow> run_state \<Rightarrow> (int option res \<times> run_state) option" where
  "run_loop w verbose [] st = Some (Inr None, st)"
| "run_loop w verbose (Chdir d # rest) st =
     (case rest of
        [] \<Rightarrow> Some (Inl IndexError, st)
      | op # rest' \<Rightarrow>
          (if op \<noteq> AndOp then Some (Inl AssertionError, st)
           else (case d of
                   None \<Rightarrow> Some (Inl TypeError, st)
                 | Some d \<Rightarrow> run_loop w verbose rest'
                     (show_text verbose (''cd '' @ d @ '' &&'') (st\<lparr>cwd := path_join (cwd st) d\<rparr>)))))"
| "run_loop w verbose (Cmd c # rest) st =
     (case start_command w verbose c st of
        (Inl e, st) \<Rightarrow> Some (Inl e, st)
      | (Inr _, st) \<Rightarrow>
          (case rest of
             [] \<Rightarrow> last_code w verbose st
           | op # rest' \<Rightarrow>
               (if op = PipeOp then
                  run_loop w verbose rest' (st\<lparr>in_pipe := True, display := display st @ [''|'']\<rparr>)
                else if op = OrOp then
                  (case group_code w verbose st of
                     None \<Rightarrow> None
                   | Some (Inl e, st) \<Rightarrow> Some (Inl e, st)
                   | Some (Inr r, st) \<Rightarrow>
                       if r = 0 then Some (Inr (Some r), st) else run_loop w verbose rest' (next_group st))
                else if op = AndOp then
                  (case group_code w verbose st of
                     None \<Rightarrow> None
                   | Some (Inl e, st) \<Rightarrow> Some (Inl e, st)
                   | Some (Inr r, st) \<Rightarrow>
                       if r \<noteq> 0 then Some (Inr (Some r), st) else run_loop w verbose rest' (next_group st))
                else run_loop w verbose rest' st)))"
| "run_loop w verbose (op # rest) st = Some (Inl AssertionError, st)"

definition run_pipeline :: "machine \<Rightarrow> bool \<Rightarrow> node list \<Rightarrow> (int option res \<times> run_state) option" where
  "run_pipeline w verbose p = run_loop w verbose p start_run"

section \<open>Substitution in the arguments\<close>

text \<open>
  A file node of waf: \<open>srcpath()\<close>, \<open>bldpath()\<close> and \<open>get_bld().abspath()\<close>.
\<close>

record file_node =
  srcpath :: string
  bldpath :: string
  bld_abspath :: string

text \<open>
  What an expression in braces evaluates to: a file node, the very lists of inputs and outputs of the task, another list, a string, \<open>None\<close>,
  or anything else.
\<close>

datatype subst_value =
    VNode file_node
  | VInputs
  | VOutputs
  | VList "subst_value list"
  | VStr string
  | VNone
  | VOther

text \<open>The pattern \<open>${\<close>name code\<open>}\<close> at the start of a text: name, code, and what follows.\<close>

definition match_subst :: "string \<Rightarrow> (string \<times> string \<times> string) option" where
  "match_subst s =
     (let t = drop 2 s; var = takeWhile word_char t; u = dropWhile word_char t;
          code = takeWhile (\<lambda>c. c \<noteq> CHR ''}'') u; r = dropWhile (\<lambda>c. c \<noteq> CHR ''}'') u
      in if take 2 s = ''${'' \<and> var \<noteq> [] \<and> nl \<notin> set code \<and> r \<noteq> []
         then Some (var, code, drop 1 r) else None)"

text \<open>What \<open>re.sub\<close> makes of the value that \<open>repl\<close> returns: \<open>None\<close> counts as empty.\<close>

fun replacement :: "subst_value \<Rightarrow> string res" where
  "replacement (VStr s) = Inr s"
| "replacement VNone = Inr ''''"
| "replacement _ = Inl TypeError"

fun repl :: "file_node list \<Rightarrow> file_node list \<Rightarrow> string \<Rightarrow> subst_value \<Rightarrow> string res" where
  "repl inputs outputs var (VNode n) =
     (if var = ''TGT'' then Inr (bld_abspath n) else if var = ''SRC'' then Inr (srcpath n) else Inl ValueError)"
| "repl inputs outputs var VInputs = (case inputs of [n] \<Rightarrow> Inr (srcpath n) | _ \<Rightarrow> Inl ValueError)"
| "repl inputs outputs var VOutputs = (case outputs of [n] \<Rightarrow> Inr (bld_abspath n) | _ \<Rightarrow> Inl ValueError)"
| "repl inputs outputs var (VList vs) = (case vs of [v] \<Rightarrow> replacement v | _ \<Rightarrow> Inl AssertionError)"
| "repl inputs outputs var v = replacement v"

lemma match_subst_shorter: "match_subst s = Some (var, code, rest) \<Longrightarrow> length rest < length s"
proof -
  assume m: "match_subst s = Some (var, code, rest)"
  define r where "r = dropWhile (\<lambda>c. c \<noteq> CHR ''}'') (dropWhile word_char (drop 2 s))"
  from m have "rest = drop 1 r" "r \<noteq> []" by (simp_all add: match_subst_def r_def Let_def split: if_splits)
  moreover have "length r \<le> length (drop 2 s)" unfolding r_def
    by (rule order_trans [OF length_dropWhile_le length_dropWhile_le])
  ultimately show ?thesis by (cases r) simp_all
qed

function subst_arg ::
  "(string \<Rightarrow> subst_value res) \<Rightarrow> file_node list \<Rightarrow> file_node list \<Rightarrow> string \<Rightarrow> string res" where
  "subst_arg ev inputs outputs [] = Inr []"
| "subst_arg ev inputs outputs (c # cs) =
     (if c = CHR ''$'' \<and> take 1 cs = ''$'' then
        rbind (subst_arg ev inputs outputs (drop 1 cs)) (\<lambda>r. Inr (CHR ''$'' # r))
      else
        (case match_subst (c # cs) of
           None \<Rightarrow> rbind (subst_arg ev inputs outputs cs) (\<lambda>r. Inr (c # r))
         | Some (var, code, rest) \<Rightarrow>
             rbind (ev (var @ code)) (\<lambda>v.
             rbind (repl inputs outputs var v) (\<lambda>x.
             rbind (subst_arg ev inputs outputs rest) (\<lambda>r. Inr (x @ r))))))"
  by pat_completeness auto
termination
  by (relation "measure (\<lambda>(ev, ins, outs, s). length s)") (auto dest: match_subst_shorter)

declare subst_arg.simps [simp del]

definition subst_opt :: "(string \<Rightarrow> string res) \<Rightarrow> string option \<Rightarrow> string option res" where
  "subst_opt sub x = (case x of None \<Rightarrow> Inr None | Some s \<Rightarrow> rbind (sub s) (\<lambda>s. Inr (Some s)))"

definition subst_target :: "(string \<Rightarrow> string res) \<Rightarrow> target option \<Rightarrow> target option res" where
  "subst_target sub x = (case x of Some (ToFile s) \<Rightarrow> rbind (sub s) (\<lambda>s. Inr (Some (ToFile s))) | _ \<Rightarrow> Inr x)"

fun subst_node :: "(string \<Rightarrow> string res) \<Rightarrow> node \<Rightarrow> node res" where
  "subst_node sub (Cmd c) =
     rbind (subst_opt sub (cmd_stdin c)) (\<lambda>i.
     rbind (subst_target sub (cmd_stdout c)) (\<lambda>out.
     rbind (subst_target sub (cmd_stderr c)) (\<lambda>err.
     rbind (rmap sub (argv c)) (\<lambda>args.
     rbind (case env_vars c of
              None \<Rightarrow> Inr None
            | Some vs \<Rightarrow> rbind (rmap (\<lambda>(k, x). rbind (sub x) (\<lambda>x. Inr (k, x))) vs) (\<lambda>vs. Inr (Some vs))) (\<lambda>vs.
       Inr (Cmd (c\<lparr>cmd_stdin := i, cmd_stdout := out, cmd_stderr := err, argv := args, env_vars := vs\<rparr>)))))))"
| "subst_node sub (Chdir None) = Inl TypeError"
| "subst_node sub (Chdir (Some d)) = rbind (sub d) (\<lambda>d. Inr (Chdir (Some d)))"
| "subst_node sub op = Inr op"

definition command_run ::
  "machine \<Rightarrow> bool \<Rightarrow> (string \<Rightarrow> subst_value res) \<Rightarrow> file_node list \<Rightarrow> file_node list \<Rightarrow>
     command_line \<Rightarrow> (int option res \<times> run_state) option" where
  "command_run w verbose ev inputs outputs line =
     (case rbind (parse line) (rmap (subst_node (subst_arg ev inputs outputs))) of
        Inl e \<Rightarrow> Some (Inl e, start_run)
      | Inr p \<Rightarrow> run_pipeline w verbose p)"

definition command_str :: "file_node list \<Rightarrow> file_node list \<Rightarrow> command_line \<Rightarrow> string res" where
  "command_str inputs outputs line =
     rbind (parse line) (\<lambda>p. Inr (''command ('' @ get_abbreviated_command p @ ''): '' @
       join_with '' '' (map bldpath inputs) @ (if outputs \<noteq> [] then '' -> '' else '''') @ join_with '' '' (map bldpath outputs)))"

end
