(* ===== verification/ShellGrammar.thy ===== *)
theory ShellGrammar
  imports ShellCmd
begin

text \<open>
  The language that \<open>Pipeline.parse\<close> accepts, as a grammar: \<open>redirected\<close> for the arguments and
  redirections of a command, \<open>stage\<close> for a command or a change of directory, and \<open>sentence\<close> for stages
  joined by operators.  The parser accepts exactly the sentences and builds their nodes.
\<close>

section \<open>The grammar\<close>

abbreviation redirections :: "string list" where
  "redirections \<equiv> [''>'', ''2>'', ''<'']"

definition ordinary :: "string \<Rightarrow> bool" where
  "ordinary t \<longleftrightarrow> t \<notin> set (redirections @ [''2>&1'', ''|'', ''&&'', ''||''])"

inductive redirected :: "string list \<Rightarrow> command \<Rightarrow> command \<Rightarrow> bool" where
  no_more: "redirected [] c c"
| argument: "ordinary t \<Longrightarrow> redirected ts (c\<lparr>argv := argv c @ [t]\<rparr>) c' \<Longrightarrow> redirected (t # ts) c c'"
| to_file: "cmd_stdout c = None \<Longrightarrow> redirected ts (c\<lparr>cmd_stdout := Some (ToFile f)\<rparr>) c' \<Longrightarrow>
    redirected (''>'' # f # ts) c c'"
| errors_to_file: "cmd_stderr c = None \<Longrightarrow> redirected ts (c\<lparr>cmd_stderr := Some (ToFile f)\<rparr>) c' \<Longrightarrow>
    redirected (''2>'' # f # ts) c c'"
| errors_to_stdout: "cmd_stderr c = None \<Longrightarrow> redirected ts (c\<lparr>cmd_stderr := Some ToStdout\<rparr>) c' \<Longrightarrow>
    redirected (''2>&1'' # ts) c c'"
| from_file: "cmd_stdin c = None \<Longrightarrow> redirected ts (c\<lparr>cmd_stdin := Some f\<rparr>) c' \<Longrightarrow>
    redirected (''<'' # f # ts) c c'"

definition assign :: "(string \<times> string) list \<Rightarrow> string \<Rightarrow> (string \<times> string) list" where
  "assign env t = (case env_var_match t of Some (n, v) \<Rightarrow> AList.update n v env | None \<Rightarrow> env)"

definition new_command :: "(string \<times> string) list \<Rightarrow> string \<Rightarrow> command" where
  "new_command env name = (if env = [] then Command name else (Command name)\<lparr>env_vars := Some env\<rparr>)"

inductive stage :: "string list \<Rightarrow> node \<Rightarrow> bool" where
  command: "\<forall>e \<in> set es. env_var_match e \<noteq> None \<Longrightarrow> env_var_match name = None \<Longrightarrow> name \<noteq> ''cd'' \<Longrightarrow>
    redirected ts (new_command (foldl assign [] es) name) c \<Longrightarrow> stage (es @ name # ts) (Cmd c)"
| cd_nowhere: "stage [''cd''] (Chdir None)"
| cd: "d \<noteq> ''&&'' \<Longrightarrow> stage [''cd'', d] (Chdir (Some d))"

inductive sentence :: "string list \<Rightarrow> node list \<Rightarrow> bool" where
  single: "stage ts n \<Longrightarrow> sentence ts [n]"
| dangling: "stage ts (Cmd c) \<Longrightarrow> t \<in> set redirections \<Longrightarrow> sentence (ts @ [t]) [Cmd c]"
| and_then: "stage ts n \<Longrightarrow> sentence us ns \<Longrightarrow> sentence (ts @ ''&&'' # us) (n # AndOp # ns)"
| or_else: "stage ts (Cmd c) \<Longrightarrow> sentence us ns \<Longrightarrow> sentence (ts @ ''||'' # us) (Cmd c # OrOp # ns)"
| piped: "stage ts (Cmd c) \<Longrightarrow> cmd_stdout c = None \<Longrightarrow> sentence us ns \<Longrightarrow>
    sentence (ts @ ''|'' # us) (Cmd (c\<lparr>cmd_stdout := Some ToPipe\<rparr>) # PipeOp # ns)"

section \<open>Sentences are parsed\<close>

definition at_begin :: "node list \<Rightarrow> (string \<times> string) list \<Rightarrow> parser" where
  "at_begin ns env = \<lparr>pc = BEGIN, current_command = None, pipeline = ns, pending_env = env\<rparr>"

definition after_node :: "node list \<Rightarrow> node \<Rightarrow> parser" where
  "after_node ns n =
     \<lparr>pc = (case n of Chdir d \<Rightarrow> CHDIR | _ \<Rightarrow> COMMAND), current_command = Some n, pipeline = ns, pending_env = []\<rparr>"

definition in_redirection :: "string \<Rightarrow> node list \<Rightarrow> command \<Rightarrow> parser" where
  "in_redirection t ns c = (after_node ns (Cmd c))\<lparr>pc := (if t = ''>'' then STDOUT else if t = ''2>'' then STDERR else STDIN)\<rparr>"

lemmas parser_defs = at_begin_def after_node_def in_redirection_def start_parser_def
lemmas token_defs = begin_token_def command_token_def chdir_token_def end_command_def commit_command_def
  with_command_def set_command_def

lemma start_at_begin: "start_parser = at_begin [] []"
  by (simp add: parser_defs)

lemma cd_no_assignment: "env_var_match ''cd'' = None"
  by (simp add: env_var_match_def)

lemma parse_tokens_from_append:
  "parse_tokens_from p (ts @ us) = rbind (parse_tokens_from p ts) (\<lambda>p. parse_tokens_from p us)"
  by (induction ts arbitrary: p) (simp_all add: rbind_assoc)

text \<open>One token in each state.\<close>

lemma begin_steps:
  "env_var_match t = Some (n, v) \<Longrightarrow> parse_token (at_begin ns env) t = Inr (at_begin ns (AList.update n v env))"
  "env_var_match t = None \<Longrightarrow> t \<noteq> ''cd'' \<Longrightarrow>
     parse_token (at_begin ns env) t = Inr (after_node ns (Cmd (new_command env t)))"
  "parse_token (at_begin ns env) ''cd'' = (if env = [] then Inr (after_node ns (Chdir None)) else Inl AssertionError)"
  by (simp_all add: parse_token.simps token_defs parser_defs new_command_def cd_no_assignment Let_def)

lemma command_steps:
  "ordinary t \<Longrightarrow> parse_token (after_node ns (Cmd c)) t = Inr (after_node ns (Cmd (c\<lparr>argv := argv c @ [t]\<rparr>)))"
  "t \<in> set redirections \<Longrightarrow> parse_token (after_node ns (Cmd c)) t = Inr (in_redirection t ns c)"
  "parse_token (after_node ns (Cmd c)) ''2>&1'' =
     (if cmd_stderr c = None then Inr (after_node ns (Cmd (c\<lparr>cmd_stderr := Some ToStdout\<rparr>))) else Inl AssertionError)"
  "parse_token (after_node ns (Cmd c)) ''|'' =
     (if cmd_stdout c = None then Inr (at_begin (ns @ [Cmd (c\<lparr>cmd_stdout := Some ToPipe\<rparr>), PipeOp]) []) else Inl AssertionError)"
  "parse_token (after_node ns (Cmd c)) ''&&'' = Inr (at_begin (ns @ [Cmd c, AndOp]) [])"
  "parse_token (after_node ns (Cmd c)) ''||'' = Inr (at_begin (ns @ [Cmd c, OrOp]) [])"
  by (auto simp: parse_token.simps token_defs parser_defs ordinary_def)

lemma redirection_steps:
  "parse_token (in_redirection ''>'' ns c) f =
     (if cmd_stdout c = None then Inr (after_node ns (Cmd (c\<lparr>cmd_stdout := Some (ToFile f)\<rparr>))) else Inl AssertionError)"
  "parse_token (in_redirection ''2>'' ns c) f =
     (if cmd_stderr c = None then Inr (after_node ns (Cmd (c\<lparr>cmd_stderr := Some (ToFile f)\<rparr>))) else Inl AssertionError)"
  "parse_token (in_redirection ''<'' ns c) f =
     (if cmd_stdin c = None then Inr (after_node ns (Cmd (c\<lparr>cmd_stdin := Some f\<rparr>))) else Inl AssertionError)"
  by (simp_all add: parse_token.simps token_defs parser_defs)

lemma chdir_steps:
  "parse_token (after_node ns (Chdir d)) ''&&'' = Inr (at_begin (ns @ [Chdir d, AndOp]) [])"
  "t \<noteq> ''&&'' \<Longrightarrow> parse_token (after_node ns (Chdir d)) t =
     (if d = None then Inr (after_node ns (Chdir (Some t))) else Inl AssertionError)"
  by (auto simp: parse_token.simps token_defs parser_defs split: option.splits)

lemmas parser_steps = begin_steps command_steps redirection_steps chdir_steps

lemma commit_steps:
  "commit_command (at_begin ns env) = Inl AssertionError"
  "rbind (commit_command (after_node ns n)) (\<lambda>p. Inr (pipeline p)) = Inr (ns @ [n])"
  "rbind (commit_command (in_redirection t ns c)) (\<lambda>p. Inr (pipeline p)) = Inr (ns @ [Cmd c])"
  by (simp_all add: token_defs parser_defs)

lemma redirected_parsed:
  "redirected ts c c' \<Longrightarrow> parse_tokens_from (after_node ns (Cmd c)) ts = Inr (after_node ns (Cmd c'))"
  by (induction rule: redirected.induct) (simp_all add: parser_steps)

lemma assignments_parsed:
  "\<forall>e \<in> set es. env_var_match e \<noteq> None \<Longrightarrow>
     parse_tokens_from (at_begin ns env) es = Inr (at_begin ns (foldl assign env es))"
  by (induction es arbitrary: env) (auto simp: begin_steps assign_def)

lemma stage_parsed: "stage ts n \<Longrightarrow> parse_tokens_from (at_begin ns []) ts = Inr (after_node ns n)"
proof (induction rule: stage.induct)
  case (command es name ts c)
  then show ?case
    by (simp add: parse_tokens_from_append assignments_parsed begin_steps redirected_parsed)
qed (simp_all add: parser_steps)

definition parse_from :: "parser \<Rightarrow> string list \<Rightarrow> node list res" where
  "parse_from p ts = rbind (parse_tokens_from p ts) (\<lambda>p. rbind (commit_command p) (\<lambda>p. Inr (pipeline p)))"

lemma parse_from_append: "parse_from p (ts @ us) = rbind (parse_tokens_from p ts) (\<lambda>p. parse_from p us)"
  by (simp add: parse_from_def parse_tokens_from_append rbind_assoc)

lemma parse_from_simps:
  "parse_from p [] = rbind (commit_command p) (\<lambda>p. Inr (pipeline p))"
  "parse_from p (t # ts) = rbind (parse_token p t) (\<lambda>p. parse_from p ts)"
  by (simp_all add: parse_from_def rbind_assoc)

lemma sentence_parsed: "sentence ts ns \<Longrightarrow> parse_from (at_begin ms []) ts = Inr (ms @ ns)"
proof (induction arbitrary: ms rule: sentence.induct)
  case (single ts n)
  then show ?case using stage_parsed parse_from_append [of _ ts "[]"] by (simp add: parse_from_simps commit_steps)
next
  case (dangling ts c t)
  then show ?case by (simp add: parse_from_append stage_parsed parse_from_simps command_steps commit_steps)
next
  case (and_then ts n us ns)
  then show ?case
    by (cases n) (auto simp: parse_from_append stage_parsed parse_from_simps parser_steps elim: stage.cases)
next
  case (or_else ts c us ns)
  then show ?case by (simp add: parse_from_append stage_parsed parse_from_simps parser_steps)
next
  case (piped ts c us ns)
  then show ?case by (simp add: parse_from_append stage_parsed parse_from_simps parser_steps)
qed

section \<open>What is parsed is a sentence\<close>

text \<open>What may follow a command: nothing, a redirection without a file, or an operator.\<close>

inductive continued :: "node list \<Rightarrow> command \<Rightarrow> string list \<Rightarrow> node list \<Rightarrow> bool" for ms c where
  at_end: "continued ms c [] (ms @ [Cmd c])"
| at_redirection: "t \<in> set redirections \<Longrightarrow> continued ms c [t] (ms @ [Cmd c])"
| at_and: "parse_from (at_begin (ms @ [Cmd c, AndOp]) []) us = Inr ps \<Longrightarrow> continued ms c (''&&'' # us) ps"
| at_or: "parse_from (at_begin (ms @ [Cmd c, OrOp]) []) us = Inr ps \<Longrightarrow> continued ms c (''||'' # us) ps"
| at_pipe: "cmd_stdout c = None \<Longrightarrow>
    parse_from (at_begin (ms @ [Cmd (c\<lparr>cmd_stdout := Some ToPipe\<rparr>), PipeOp]) []) us = Inr ps \<Longrightarrow>
    continued ms c (''|'' # us) ps"

definition splits :: "node list \<Rightarrow> command \<Rightarrow> string list \<Rightarrow> node list \<Rightarrow> bool" where
  "splits ms c ts ps \<longleftrightarrow> (\<exists>ts1 c' us. ts = ts1 @ us \<and> redirected ts1 c c' \<and> continued ms c' us ps)"

lemma splits_now: "continued ms c ts ps \<Longrightarrow> splits ms c ts ps"
  unfolding splits_def using no_more by blast

lemma splits_later:
  "splits ms c2 ts ps \<Longrightarrow> (\<And>ts1 c'. redirected ts1 c2 c' \<Longrightarrow> redirected (pre @ ts1) c c') \<Longrightarrow> splits ms c (pre @ ts) ps"
  unfolding splits_def by (metis append_assoc)

lemma token_kinds:
  obtains "ordinary t" | "t \<in> set redirections" | "t = ''2>&1''" | "t = ''|''" | "t = ''&&''" | "t = ''||''"
  unfolding ordinary_def by auto

lemma command_splits: "parse_from (after_node ms (Cmd c)) ts = Inr ps \<Longrightarrow> splits ms c ts ps"
proof (induction ts arbitrary: c rule: length_induct)
  case (1 ts)
  show ?case
  proof (cases ts)
    case Nil
    then show ?thesis using "1.prems" by (auto simp: parse_from_simps commit_steps intro: splits_now at_end)
  next
    case (Cons t us)
    have IH: "splits ms c2 vs ps" if "parse_from (after_node ms (Cmd c2)) vs = Inr ps" "length vs < length ts" for c2 vs
      using 1 that by blast
    have step: "rbind (parse_token (after_node ms (Cmd c)) t) (\<lambda>p. parse_from p us) = Inr ps"
      using "1.prems" Cons by (simp add: parse_from_simps)
    show ?thesis
    proof (cases t rule: token_kinds)
      case 1
      then have "splits ms (c\<lparr>argv := argv c @ [t]\<rparr>) us ps" using step Cons by (intro IH) (simp_all add: command_steps)
      from splits_later [OF this, of "[t]"] show ?thesis using 1 Cons argument by simp
    next
      case 2
      then have red: "parse_from (in_redirection t ms c) us = Inr ps" using step by (simp only: command_steps(2) rbind_simps)
      show ?thesis
      proof (cases us)
        case Nil
        then have "ps = ms @ [Cmd c]" using red by (simp add: parse_from_simps commit_steps)
        then show ?thesis using Nil Cons at_redirection [OF 2] by (auto intro: splits_now)
      next
        case (Cons f vs)
        note us = \<open>us = f # vs\<close> and ts = \<open>ts = t # us\<close>
        from 2 consider "t = ''>''" | "t = ''2>''" | "t = ''<''" by auto
        then show ?thesis
        proof cases
          case 1
          then have "cmd_stdout c = None" "parse_from (after_node ms (Cmd (c\<lparr>cmd_stdout := Some (ToFile f)\<rparr>))) vs = Inr ps"
            using red us by (auto simp: parse_from_simps redirection_steps split: if_splits)
          with IH [OF this(2)] show ?thesis using us ts 1 to_file splits_later [of ms _ vs ps "[t, f]" c] by simp
        next
          case 2
          then have "cmd_stderr c = None" "parse_from (after_node ms (Cmd (c\<lparr>cmd_stderr := Some (ToFile f)\<rparr>))) vs = Inr ps"
            using red us by (auto simp: parse_from_simps redirection_steps split: if_splits)
          with IH [OF this(2)] show ?thesis using us ts 2 errors_to_file splits_later [of ms _ vs ps "[t, f]" c] by simp
        next
          case 3
          then have "cmd_stdin c = None" "parse_from (after_node ms (Cmd (c\<lparr>cmd_stdin := Some f\<rparr>))) vs = Inr ps"
            using red us by (auto simp: parse_from_simps redirection_steps split: if_splits)
          with IH [OF this(2)] show ?thesis using us ts 3 from_file splits_later [of ms _ vs ps "[t, f]" c] by simp
        qed
      qed
    next
      case 3
      then have "cmd_stderr c = None" "parse_from (after_node ms (Cmd (c\<lparr>cmd_stderr := Some ToStdout\<rparr>))) us = Inr ps"
        using step by (auto simp: command_steps split: if_splits)
      with IH [OF this(2)] show ?thesis using Cons 3 errors_to_stdout splits_later [of ms _ us ps "[t]" c] by simp
    next
      case 4
      then show ?thesis using step Cons by (auto simp: command_steps split: if_splits intro: splits_now at_pipe)
    next
      case 5
      then show ?thesis using step Cons by (auto simp: command_steps intro: splits_now at_and)
    next
      case 6
      then show ?thesis using step Cons by (auto simp: command_steps intro: splits_now at_or)
    qed
  qed
qed

lemma assignments_split:
  assumes "parse_from (at_begin ms env) ts = Inr ps"
  obtains es t us where "ts = es @ t # us" "\<forall>e \<in> set es. env_var_match e \<noteq> None" "env_var_match t = None"
    "parse_from (at_begin ms (foldl assign env es)) (t # us) = Inr ps"
proof -
  define es where "es = takeWhile (\<lambda>t. env_var_match t \<noteq> None) ts"
  define rest where "rest = dropWhile (\<lambda>t. env_var_match t \<noteq> None) ts"
  have ts: "ts = es @ rest" by (simp add: es_def rest_def)
  have es: "\<forall>e \<in> set es. env_var_match e \<noteq> None" unfolding es_def by (metis (mono_tags) set_takeWhileD)
  from assms have run: "parse_from (at_begin ms (foldl assign env es)) rest = Inr ps"
    unfolding ts parse_from_append assignments_parsed [OF es] by simp
  then obtain t us where rest: "rest = t # us"
    by (cases rest) (auto simp: parse_from_simps commit_steps)
  then have "env_var_match t = None" unfolding rest_def by (metis (mono_tags) hd_dropWhile list.distinct(1) list.sel(1))
  then show thesis using that ts es run rest by blast
qed

lemma assign_not_Nil: "\<forall>e \<in> set es. env_var_match e \<noteq> None \<Longrightarrow> foldl assign env es = [] \<Longrightarrow> es = []"
proof (induction es arbitrary: env rule: rev_induct)
  case (snoc e es)
  then obtain n v where "env_var_match e = Some (n, v)" by auto
  then show ?case using snoc.prems(2) by (simp add: assign_def)
qed simp

lemma chdir_sentence:
  assumes "parse_from (after_node ms (Chdir None)) ts = Inr ps"
    and IH: "\<And>us ms'. length us < length ts \<Longrightarrow> parse_from (at_begin ms' []) us = Inr ps \<Longrightarrow> \<exists>ns. sentence us ns \<and> ps = ms' @ ns"
  shows "\<exists>ns. sentence (''cd'' # ts) ns \<and> ps = ms @ ns"
proof -
  have follow: "\<exists>ns. sentence (ss @ vs) ns \<and> ps = ms @ ns"
    if st: "stage ss (Chdir d)" and vs: "parse_from (after_node ms (Chdir d)) vs = Inr ps"
      and len: "length vs \<le> length ts" and "vs = [] \<or> hd vs = ''&&''" for ss d vs
  proof (cases vs)
    case Nil
    then show ?thesis using st vs single [OF st] by (auto simp: parse_from_simps commit_steps)
  next
    case (Cons t us)
    then have t: "t = ''&&''" using that(4) by simp
    with vs Cons have "parse_from (at_begin (ms @ [Chdir d, AndOp]) []) us = Inr ps"
      by (simp add: parse_from_simps chdir_steps)
    from IH [OF _ this] len Cons obtain ns where "sentence us ns" "ps = ms @ Chdir d # AndOp # ns" by auto
    then show ?thesis using and_then [OF st] Cons t by blast
  qed
  show ?thesis
  proof (cases "ts = [] \<or> hd ts = ''&&''")
    case True
    then show ?thesis using follow [OF cd_nowhere assms(1)] by simp
  next
    case False
    then obtain t us where ts: "ts = t # us" "t \<noteq> ''&&''" by (cases ts) auto
    then have us: "parse_from (after_node ms (Chdir (Some t))) us = Inr ps"
      using assms(1) by (simp add: parse_from_simps chdir_steps)
    have "us = [] \<or> hd us = ''&&''"
      using us by (cases us; cases "hd us = ''&&''") (simp_all add: parse_from_simps chdir_steps)
    then show ?thesis using follow [OF cd [OF ts(2)] us] ts by simp
  qed
qed

lemma continued_sentence:
  assumes st: "stage ss (Cmd c)" and "continued ms c us ps"
    and IH: "\<And>vs ms'. length vs < length us \<Longrightarrow> parse_from (at_begin ms' []) vs = Inr ps \<Longrightarrow> \<exists>ns. sentence vs ns \<and> ps = ms' @ ns"
  shows "\<exists>ns. sentence (ss @ us) ns \<and> ps = ms @ ns"
  using assms(2)
proof cases
  case at_end
  then show ?thesis using single [OF st] by auto
next
  case (at_redirection t)
  then show ?thesis using dangling [OF st] by auto
next
  case (at_and vs)
  from IH [OF _ at_and(2)] at_and(1) obtain ns where "sentence vs ns" "ps = ms @ Cmd c # AndOp # ns" by auto
  then show ?thesis using and_then [OF st] at_and(1) by blast
next
  case (at_or vs)
  from IH [OF _ at_or(2)] at_or(1) obtain ns where "sentence vs ns" "ps = ms @ Cmd c # OrOp # ns" by auto
  then show ?thesis using or_else [OF st] at_or(1) by blast
next
  case (at_pipe vs)
  from IH [OF _ at_pipe(3)] at_pipe(1) obtain ns where
    "sentence vs ns" "ps = ms @ Cmd (c\<lparr>cmd_stdout := Some ToPipe\<rparr>) # PipeOp # ns" by auto
  then show ?thesis using piped [OF st at_pipe(2)] at_pipe(1) by blast
qed

lemma parsed_sentence: "parse_from (at_begin ms []) ts = Inr ps \<Longrightarrow> \<exists>ns. sentence ts ns \<and> ps = ms @ ns"
proof (induction ts arbitrary: ms rule: length_induct)
  case (1 ts)
  obtain es t us where ts: "ts = es @ t # us" and es: "\<forall>e \<in> set es. env_var_match e \<noteq> None"
    and t: "env_var_match t = None" and run: "parse_from (at_begin ms (foldl assign [] es)) (t # us) = Inr ps"
    using "1.prems" by (rule assignments_split)
  have IH: "\<exists>ns. sentence vs ns \<and> ps = ms' @ ns"
    if "length vs < length ts" "parse_from (at_begin ms' []) vs = Inr ps" for vs ms'
    using 1 that by blast
  show ?case
  proof (cases "t = ''cd''")
    case True
    then have "foldl assign [] es = []" and run': "parse_from (after_node ms (Chdir None)) us = Inr ps"
      using run by (auto simp: parse_from_simps begin_steps split: if_splits)
    then have "es = []" using assign_not_Nil [OF es] by blast
    with ts True chdir_sentence [OF run' IH] show ?thesis by simp
  next
    case False
    then have "splits ms (new_command (foldl assign [] es) t) us ps"
      using run by (intro command_splits) (simp add: parse_from_simps begin_steps t)
    then obtain vs c ws where us: "us = vs @ ws" "redirected vs (new_command (foldl assign [] es) t) c"
      and c: "continued ms c ws ps" unfolding splits_def by blast
    from continued_sentence [OF command [OF es t False us(2)] c IH] show ?thesis using ts us(1) by simp
  qed
qed

section \<open>Errors\<close>

inductive parser_ok :: "parser \<Rightarrow> bool" where
  ok_begin: "parser_ok (at_begin ns env)"
| ok_command: "parser_ok (after_node ns (Cmd c))"
| ok_chdir: "parser_ok (after_node ns (Chdir d))"
| ok_redirection: "t \<in> set redirections \<Longrightarrow> parser_ok (in_redirection t ns c)"

declare parser_ok.intros [simp, intro]

definition proper :: "parser res \<Rightarrow> bool" where
  "proper r \<longleftrightarrow> (case r of Inl e \<Rightarrow> e = AssertionError | Inr p \<Rightarrow> parser_ok p)"

lemma proper_simps [simp]: "proper (Inl e) \<longleftrightarrow> e = AssertionError" "proper (Inr p) \<longleftrightarrow> parser_ok p"
  by (simp_all add: proper_def)

lemma parse_token_ok: "parser_ok p \<Longrightarrow> proper (parse_token p t)"
proof (induction rule: parser_ok.induct)
  case (ok_begin ns env)
  then show ?case
    by (cases "env_var_match t"; cases "t = ''cd''") (auto simp: begin_steps)
next
  case (ok_command ns c)
  then show ?case by (cases t rule: token_kinds) (simp_all only: command_steps proper_simps parser_ok.intros simp_thms split: if_split)
next
  case (ok_chdir ns d)
  then show ?case by (cases "t = ''&&''") (simp_all add: chdir_steps)
next
  case (ok_redirection u ns c)
  then consider "u = ''>''" | "u = ''2>''" | "u = ''<''" by auto
  then show ?case by cases (simp_all add: redirection_steps)
qed

lemma parse_tokens_from_error: "parser_ok p \<Longrightarrow> parse_tokens_from p ts = Inl e \<Longrightarrow> e = AssertionError"
proof (induction ts arbitrary: p)
  case (Cons t ts)
  then show ?case using parse_token_ok [of p t] by (cases "parse_token p t") simp_all
qed simp

lemma commit_error: "commit_command p = Inl e \<Longrightarrow> e = AssertionError"
  by (auto simp: commit_command_def split: option.splits)

lemma parse_tokens_error: "parse_tokens ts = Inl e \<Longrightarrow> e = AssertionError"
  unfolding parse_tokens_def
  using parse_tokens_from_error [of start_parser ts] commit_error
  by (auto simp: rbind_def start_at_begin split: sum.splits)

lemma parse_tokens_iff: "parse_tokens ts = Inr ps \<longleftrightarrow> sentence ts ps"
  using sentence_parsed [of ts ps "[]"] parsed_sentence [of "[]" ts ps]
  by (auto simp: parse_tokens_def parse_from_def start_at_begin)

section \<open>Properties\<close>

text \<open>
  C16: \<open>Pipeline.parse\<close> accepts exactly the sentences of the grammar and returns their nodes, whether
  it is given the tokens or a text that spells them plainly or in quotes; on every other token list
  it raises \<open>AssertionError\<close>, and nothing else.\<close>
theorem parse_accepts_sentences:
  assumes "list_all2 spelling ss ts"
  shows "(parse (Tokens ts) = Inr ps \<longleftrightarrow> sentence ts ps) \<and> parse (Text (join_with '' '' ss)) = parse (Tokens ts) \<and>
    (parse (Tokens ts) = Inl e \<longrightarrow> e = AssertionError)"
  using split_join_words [OF assms] parse_tokens_iff [of ts ps] parse_tokens_error [of ts e] by simp

theorem parse_accepts_sentences_witness:
  "\<exists>c. sentence [''V=1'', ''ls'', ''>'', ''my file'', ''&&'', ''cd'', ''d''] [Cmd c, AndOp, Chdir (Some ''d'')] \<and>
     parse (Text (join_with '' '' [''V=1'', ''ls'', ''>'', quote_word ''my file'', ''&&'', ''cd'', ''d''])) =
       Inr [Cmd c, AndOp, Chdir (Some ''d'')]"
proof -
  let ?ts = "[''V=1'', ''ls'', ''>'', ''my file'', ''&&'', ''cd'', ''d'']"
  have sp: "list_all2 spelling [''V=1'', ''ls'', ''>'', quote_word ''my file'', ''&&'', ''cd'', ''d''] ?ts"
    by (simp add: spelling_def plain_word_def plain_char_def lex_space_def lex_quote_def)
  have "parse (Tokens ?ts) = Inr [Cmd ((new_command [(''V'', ''1'')] ''ls'')\<lparr>cmd_stdout := Some (ToFile ''my file'')\<rparr>),
      AndOp, Chdir (Some ''d'')]" by code_simp
  then show ?thesis using parse_accepts_sentences [OF sp] by metis
qed

end
