(* ===== verification/ShellExec.thy ===== *)
theory ShellExec
  imports ShellGrammar
begin

text \<open>
  What \<open>Pipeline.run\<close> does: it closes the files it opens, returns the exit code of the last process
  it started, and treats \<open>&&\<close> and \<open>||\<close> as operators that nest to the right.
\<close>

section \<open>What every run keeps\<close>

text \<open>The files to close are the files opened and not yet closed; the current group is the last processes.\<close>

definition books_ok :: "run_state \<Rightarrow> bool" where
  "books_ok st \<longleftrightarrow> opened st = closed st @ concat (map closable (files_to_close st)) \<and>
     (\<exists>k \<le> length (launched st). piped_commands st = [k..<length (launched st)]) \<and>
     (in_pipe st \<longrightarrow> piped_commands st \<noteq> [])"

lemma show_text_books [simp]: "books_ok (show_text v s st) = books_ok st"
  by (simp add: show_text_def books_ok_def)

lemma open_file_books: "open_file ok f st = (r, st') \<Longrightarrow> books_ok st \<Longrightarrow> books_ok st'"
  by (auto simp: open_file_def books_ok_def split: if_splits)

lemma open_out_file_books: "open_out_file w f st = (r, st') \<Longrightarrow> books_ok st \<Longrightarrow> books_ok st'"
proof -
  assume st: "open_out_file w f st = (r, st')" "books_ok st"
  have "books_ok (st\<lparr>files_to_close := files_to_close st @ [DevNull]\<rparr>)" using st(2) by (simp add: books_ok_def)
  then show ?thesis using st open_file_books [of _ f st r st'] by (auto simp: open_out_file_def split: if_splits)
qed

lemma get_stdin_books: "get_stdin w v c st = (r, st') \<Longrightarrow> books_ok st \<Longrightarrow> books_ok st'"
  unfolding get_stdin_def
  by (auto split: if_splits option.splits elim!: st_bind_keeps [where P = books_ok] dest: open_file_books)

lemma get_stdout_books: "get_stdout w v c st = (r, st') \<Longrightarrow> books_ok st \<Longrightarrow> books_ok st'"
  unfolding get_stdout_def
  by (auto split: option.splits target.splits elim!: st_bind_keeps [where P = books_ok] dest: open_out_file_books)

lemma get_stderr_books: "get_stderr w v c st = (r, st') \<Longrightarrow> books_ok st \<Longrightarrow> books_ok st'"
  unfolding get_stderr_def
  by (auto split: option.splits target.splits elim!: st_bind_keeps [where P = books_ok] dest: open_out_file_books)

lemma popen_books:
  assumes "popen_process w l st = (r, st')" "books_ok st"
  shows "books_ok st' \<and> (r = Inr () \<longrightarrow> piped_commands st' \<noteq> [])"
proof (cases "can_start w l")
  case True
  then have st': "st' = st\<lparr>launched := launched st @ [l], piped_commands := piped_commands st @ [length (launched st)]\<rparr>"
    using assms(1) by (simp add: popen_process_def)
  obtain k where "k \<le> length (launched st)" "piped_commands st = [k..<length (launched st)]"
    using assms(2) by (auto simp: books_ok_def)
  then have "k \<le> length (launched st')" "piped_commands st' = [k..<length (launched st')]" by (simp_all add: st')
  then show ?thesis using assms(2) st' unfolding books_ok_def by auto
next
  case False
  then show ?thesis using assms by (auto simp: popen_process_def)
qed

lemma start_command_books:
  assumes "start_command w v c st = (r, st')" "books_ok st"
  shows "books_ok st' \<and> (r = Inr () \<longrightarrow> piped_commands st' \<noteq> [])"
proof -
  define st0 where "st0 = show_text v (command_text c) st"
  have ok: "books_ok st0" using assms(2) by (simp add: st0_def)
  obtain i st1 where i: "get_stdin w v c st0 = (i, st1)" by (cases "get_stdin w v c st0")
  obtain out st2 where out: "get_stdout w v c st1 = (out, st2)" by (cases "get_stdout w v c st1")
  obtain err st3 where err: "get_stderr w v c st2 = (err, st3)" by (cases "get_stderr w v c st2")
  note ok1 = get_stdin_books [OF i ok]
  note ok2 = get_stdout_books [OF out ok1]
  note ok3 = get_stderr_books [OF err ok2]
  show ?thesis using assms(1) popen_books [OF _ ok3] ok1 ok2 ok3
    unfolding start_command_def st0_def [symmetric] st_bind_def
    by (cases i; cases out; cases err) (auto simp: i out err)
qed

lemma wait_all_Some: "wait_all f ks = Some rs \<longleftrightarrow> map f ks = map Some rs"
  by (induction ks arbitrary: rs) (auto split: option.splits)

lemma exec_piped_last:
  assumes "books_ok st" "piped_commands st \<noteq> []" "exec_piped_commands w st = Some r"
  shows "launched st \<noteq> [] \<and> exit_of w (launched st) (length (launched st) - 1) = Some r"
proof -
  obtain k where k: "piped_commands st = [k..<length (launched st)]" using assms(1) by (auto simp: books_ok_def)
  then have less: "k < length (launched st)" using assms(2) by simp
  let ?f = "exit_of w (launched st)"
  obtain rs where rs: "map ?f (piped_commands st) = map Some rs" "r = (if list_ex (\<lambda>r. r \<noteq> 0) rs then last rs else 0)"
    using assms(3) by (auto simp: exec_piped_commands_def wait_all_Some)
  then have ne: "rs \<noteq> []" using assms(2) by auto
  have "?f (length (launched st) - 1) = Some (last rs)"
    using arg_cong [OF rs(1), of last] k less last_map [OF assms(2), of ?f] last_map [OF ne, of Some] by simp
  moreover have "last rs = 0" if "\<not> list_ex (\<lambda>r. r \<noteq> 0) rs"
    using that last_in_set [OF ne] by (auto simp: list_ex_iff)
  ultimately show ?thesis using less rs(2) by auto
qed

lemma close_files_books [simp]:
  "books_ok st \<Longrightarrow> books_ok (close_files st)" "files_to_close (close_files st) = []" "launched (close_files st) = launched st"
  "piped_commands (close_files st) = piped_commands st"
  by (simp_all add: close_files_def books_ok_def)

lemma next_group_books [simp]: "books_ok st \<Longrightarrow> books_ok (next_group st)"
  by (auto simp: next_group_def books_ok_def intro: exI [of _ "length (launched st)"])

definition settled :: "machine \<Rightarrow> (int option) res \<Rightarrow> run_state \<Rightarrow> bool" where
  "settled w r st \<longleftrightarrow> books_ok st \<and> (\<forall>code. r = Inr (Some code) \<longrightarrow>
     files_to_close st = [] \<and> launched st \<noteq> [] \<and> exit_of w (launched st) (length (launched st) - 1) = Some code)"

lemma settled_error [simp]: "settled w (Inl e) st = books_ok st" "settled w (Inr None) st = books_ok st"
  by (simp_all add: settled_def)

lemma group_code_settled:
  assumes "books_ok st" "piped_commands st \<noteq> []" "group_code w v st = Some (x, st')"
  shows "books_ok st' \<and> (\<forall>r. x = Inr r \<longrightarrow> settled w (Inr (Some r)) st')"
  using assms exec_piped_last [OF assms(1,2)]
  by (auto simp: group_code_def settled_def split: option.splits if_splits)

lemma last_code_settled:
  assumes "books_ok st" "piped_commands st \<noteq> []" "last_code w v st = Some (x, st')"
  shows "settled w x st'"
proof -
  have "books_ok (st\<lparr>printed := p\<rparr>)" for p using assms(1) by (simp add: books_ok_def)
  then show ?thesis using assms(1,3) exec_piped_last [OF assms(1,2)]
    by (auto simp: last_code_def Let_def settled_def split: option.splits if_splits)
qed

lemma run_loop_settled: "run_loop w v ns st = Some (r, st') \<Longrightarrow> books_ok st \<Longrightarrow> settled w r st'"
proof (induction w v ns st arbitrary: r st' rule: run_loop.induct)
  case (2 w v d rest st)
  have "books_ok (st\<lparr>cwd := x\<rparr>)" for x using "2.prems"(2) by (simp add: books_ok_def)
  then show ?case using 2 by (auto split: list.splits option.splits if_splits)
next
  case (3 w v c rest st)
  obtain x st1 where start: "start_command w v c st = (x, st1)" by (cases "start_command w v c st")
  note ok = start_command_books [OF start "3.prems"(2)]
  show ?case
  proof (cases x)
    case (Inl e)
    then show ?thesis using "3.prems" start ok by auto
  next
    case (Inr u)
    then have ok1: "books_ok st1" "piped_commands st1 \<noteq> []" using ok by simp_all
    show ?thesis
    proof (cases rest)
      case Nil
      then show ?thesis using "3.prems"(1) start Inr last_code_settled [OF ok1] by simp
    next
      case (Cons op rest')
      have piped: "books_ok (st1\<lparr>in_pipe := True, display := y\<rparr>)" for y using ok1 by (simp add: books_ok_def)
      show ?thesis
      proof (cases "group_code w v st1")
        case None
        then show ?thesis using 3 start Inr Cons piped ok1 by (auto split: if_splits)
      next
        case (Some y)
        obtain g st2 where g: "group_code w v st1 = Some (g, st2)" using Some by (cases y) simp
        show ?thesis using 3 start Inr Cons piped ok1 group_code_settled [OF ok1 g] g
          by (cases g) (auto split: if_splits)
      qed
    qed
  qed
qed simp_all

lemma start_run_books: "books_ok start_run"
  by (simp add: start_run_def books_ok_def)

section \<open>Runs that cannot fail\<close>

definition obliging :: "machine \<Rightarrow> bool" where
  "obliging w \<longleftrightarrow> can_read w = (\<lambda>f. True) \<and> can_write w = (\<lambda>f. True) \<and> can_start w = (\<lambda>l. True)"

fun plain_node :: "node \<Rightarrow> bool" where
  "plain_node (Cmd c) \<longleftrightarrow> cmd_stdout c \<noteq> Some ToStdout"
| "plain_node (Chdir d) \<longleftrightarrow> d \<noteq> None"
| "plain_node op \<longleftrightarrow> False"

text \<open>Every process that is waited for ends.\<close>

definition no_hang :: "machine \<Rightarrow> bool" where
  "no_hang w \<longleftrightarrow> (\<forall>ls k. exit_of w ls k \<noteq> None)"

lemma no_hang_code: "no_hang w \<Longrightarrow> \<exists>r. exec_piped_commands w st = Some r"
proof -
  assume "no_hang w"
  then have "\<exists>rs. wait_all (exit_of w ls) ks = Some rs" for ls ks
    by (induction ks) (auto simp: no_hang_def split: option.splits)
  then show ?thesis by (auto simp: exec_piped_commands_def)
qed

text \<open>The pipelines \<open>run\<close> can work through: commands and changes of directory, each followed by an operator but the last.\<close>

fun runnable :: "node list \<Rightarrow> bool" where
  "runnable [] \<longleftrightarrow> False"
| "runnable [n] \<longleftrightarrow> plain_node n \<and> (\<exists>c. n = Cmd c)"
| "runnable (n # op # ns) \<longleftrightarrow> plain_node n \<and> runnable ns \<and>
     (case n of Cmd c \<Rightarrow> op = PipeOp \<or> op = AndOp \<or> op = OrOp | _ \<Rightarrow> op = AndOp)"

lemma stdout_kept: "redirected ts c c' \<Longrightarrow> cmd_stdout c \<noteq> Some ToStdout \<Longrightarrow> cmd_stdout c' \<noteq> Some ToStdout"
  by (induction rule: redirected.induct) simp_all

lemma stage_node: "stage ts n \<Longrightarrow> plain_node n \<or> n = Chdir None"
proof (induction rule: stage.induct)
  case (command es name ts c)
  have "cmd_stdout (new_command env name) = None" for env by (simp add: new_command_def Command_def)
  then show ?case using stdout_kept [OF command(4)] by simp
qed simp_all

lemma sentence_runnable:
  "sentence ts ns \<Longrightarrow> Chdir None \<notin> set ns \<Longrightarrow> (\<exists>c. last ns = Cmd c) \<Longrightarrow> runnable ns"
proof (induction rule: sentence.induct)
  case (single ts n)
  then show ?case using stage_node by auto
next
  case (dangling ts c t)
  then show ?case using stage_node [OF dangling(1)] by simp
next
  case (and_then ts n us ns)
  then have "ns \<noteq> []" by (auto elim: sentence.cases)
  with and_then show ?case using stage_node [OF and_then(1)] by (cases n) (auto)
next
  case (or_else ts c us ns)
  then have "ns \<noteq> []" by (auto elim: sentence.cases)
  with or_else show ?case using stage_node [OF or_else(1)] by auto
next
  case (piped ts c us ns)
  then have "ns \<noteq> []" by (auto elim: sentence.cases)
  with piped show ?case by auto
qed

lemma open_ok: "obliging w \<Longrightarrow> \<exists>ch st'. open_out_file w f st = (Inr ch, st')"
  by (simp add: open_out_file_def open_file_def obliging_def)

lemma get_stdin_ok:
  "obliging w \<Longrightarrow> in_pipe st \<longrightarrow> piped_commands st \<noteq> [] \<Longrightarrow> \<exists>i st'. get_stdin w v c st = (Inr i, st')"
  by (cases "in_pipe st"; cases "cmd_stdin c")
    (simp_all add: get_stdin_def st_bind_def open_file_def obliging_def)

lemma redirect_ok:
  assumes "obliging w"
  shows "cmd_stdout c \<noteq> Some ToStdout \<Longrightarrow> \<exists>ch st'. get_stdout w v c st = (Inr ch, st')"
    and "\<exists>ch st'. get_stderr w v c st = (Inr ch, st')"
proof -
  have to_f: "\<exists>ch st'. st_bind (open_out_file w f) (\<lambda>ch st. (Inr ch, show_text v t st)) st = (Inr ch, st')" for f t
    using open_ok [OF assms, of f st] by (auto simp: st_bind_def)
  show "\<exists>ch st'. get_stderr w v c st = (Inr ch, st')"
    using to_f by (auto simp: get_stderr_def split: option.splits target.splits)
  show "\<exists>ch st'. get_stdout w v c st = (Inr ch, st')" if "cmd_stdout c \<noteq> Some ToStdout"
    using to_f that by (auto simp: get_stdout_def split: option.splits target.splits)
qed

lemma start_command_ok:
  assumes w: "obliging w" and c: "plain_node (Cmd c)" and st: "books_ok st"
  shows "\<exists>st'. start_command w v c st = (Inr (), st')"
proof -
  define st0 where "st0 = show_text v (command_text c) st"
  have "books_ok st0" using st by (simp add: st0_def)
  then obtain i st1 where i: "get_stdin w v c st0 = (Inr i, st1)"
    using get_stdin_ok [OF w, of st0] unfolding books_ok_def by blast
  obtain out st2 where out: "get_stdout w v c st1 = (Inr out, st2)" using redirect_ok(1) [OF w, of c] c by fastforce
  obtain err st3 where err: "get_stderr w v c st2 = (Inr err, st3)" using redirect_ok(2) [OF w] by blast
  show ?thesis unfolding start_command_def st0_def [symmetric] st_bind_def
    using w by (simp add: i out err popen_process_def obliging_def)
qed

text \<open>With \<open>verbose\<close> no command may be followed by an \<open>&&\<close> or \<open>||\<close>.\<close>

fun pure_pipe :: "node list \<Rightarrow> bool" where
  "pure_pipe (Cmd c # op # ns) \<longleftrightarrow> op = PipeOp \<and> pure_pipe ns"
| "pure_pipe (n # op # ns) \<longleftrightarrow> pure_pipe ns"
| "pure_pipe ns \<longleftrightarrow> True"

lemma run_loop_returns:
  "runnable ns \<Longrightarrow> obliging w \<Longrightarrow> no_hang w \<Longrightarrow> v \<longrightarrow> pure_pipe ns \<Longrightarrow> books_ok st \<Longrightarrow>
     \<exists>code st'. run_loop w v ns st = Some (Inr (Some code), st')"
proof (induction ns arbitrary: st rule: runnable.induct)
  case (2 n)
  then obtain c where c: "n = Cmd c" by auto
  then obtain st1 where "start_command w v c st = (Inr (), st1)" using 2 start_command_ok [of w c st v] by auto
  then show ?case using c no_hang_code [OF "2.prems"(3), of st1] by (auto simp: last_code_def Let_def)
next
  case (3 n op ns)
  show ?case
  proof (cases n)
    case (Cmd c)
    then obtain st1 where start: "start_command w v c st = (Inr (), st1)"
      using 3 start_command_ok [of w c st v] by auto
    have ok: "books_ok st1" "piped_commands st1 \<noteq> []" using start_command_books [OF start "3.prems"(5)] by simp_all
    have piped: "books_ok (st1\<lparr>in_pipe := True, display := y\<rparr>)" for y using ok by (simp add: books_ok_def)
    have IH: "\<exists>code st'. run_loop w v ns st = Some (Inr (Some code), st')" if "books_ok st" for st
      using 3 Cmd that by auto
    obtain r where "exec_piped_commands w st1 = Some r" using no_hang_code [OF "3.prems"(3)] by blast
    then show ?thesis using 3 Cmd start IH [OF piped] IH [of "next_group (close_files st1)"] ok(1)
      by (auto simp: group_code_def)
  next
    case (Chdir d)
    have "books_ok (st\<lparr>cwd := x\<rparr>)" for x using "3.prems"(5) by (simp add: books_ok_def)
    then show ?thesis using 3 Chdir by auto
  qed (use 3 in auto)
qed simp

section \<open>Operators nest to the right\<close>

text \<open>A group is what is run before a code is looked at: a pipe, with changes of directory in it.\<close>

fun pipe_group :: "node list \<Rightarrow> bool" where
  "pipe_group [Cmd c] \<longleftrightarrow> True"
| "pipe_group (Cmd c # op # ns) \<longleftrightarrow> op = PipeOp \<and> pipe_group ns"
| "pipe_group (Chdir d # op # ns) \<longleftrightarrow> op = AndOp \<and> pipe_group ns"
| "pipe_group _ \<longleftrightarrow> False"

definition stops :: "node \<Rightarrow> int option \<Rightarrow> bool" where
  "stops op r \<longleftrightarrow> (case r of None \<Rightarrow> True | Some r \<Rightarrow> (if op = AndOp then r \<noteq> 0 else r = 0))"

fun run_chain ::
  "machine \<Rightarrow> node list \<Rightarrow> (node \<times> node list) list \<Rightarrow> run_state \<Rightarrow> (int option res \<times> run_state) option" where
  "run_chain w g [] st = run_loop w False g st"
| "run_chain w g ((op, h) # rest) st =
     (case run_loop w False g st of
        Some (Inr r, st) \<Rightarrow> if stops op r then Some (Inr r, st) else run_chain w h rest (next_group st)
      | stuck \<Rightarrow> stuck)"

lemma run_group:
  assumes "pipe_group g" "op = AndOp \<or> op = OrOp"
  shows "run_loop w False (g @ op # ns) st =
    (case run_loop w False g st of
       Some (Inr r, st) \<Rightarrow> if stops op r then Some (Inr r, st) else run_loop w False ns (next_group st)
     | stuck \<Rightarrow> stuck)"
  using assms
proof (induction g arbitrary: st rule: pipe_group.induct)
  case (1 c)
  then show ?case
    by (auto simp: group_code_def last_code_def stops_def Let_def split: sum.splits prod.splits option.splits)
next
  case (2 c op' ns')
  then show ?case by (auto split: sum.splits prod.splits option.splits)
next
  case (3 d op' ns')
  then show ?case by (auto split: option.splits)
qed simp_all

lemma run_chain_run:
  "pipe_group g \<Longrightarrow> \<forall>(op, h) \<in> set rest. pipe_group h \<and> (op = AndOp \<or> op = OrOp) \<Longrightarrow>
     run_loop w False (g @ concat (map (\<lambda>(op, h). op # h) rest)) st = run_chain w g rest st"
proof (induction rest arbitrary: g st)
  case (Cons x rest)
  obtain op h where x: "x = (op, h)" by (cases x)
  have "run_loop w False (h @ concat (map (\<lambda>(op, h). op # h) rest)) st = run_chain w h rest st" for st
    using Cons x by auto
  then show ?case using Cons.prems x by (simp add: run_group split: option.splits sum.splits prod.splits)
qed simp

text \<open>With \<open>verbose\<close>, a group that is followed by an operator never lets the run return.\<close>

lemma verbose_no_return:
  assumes "pipe_group g" "op = AndOp \<or> op = OrOp"
  shows "run_loop w True (g @ op # ns) st \<noteq> Some (Inr r, st')"
  using assms
proof (induction g arbitrary: st rule: pipe_group.induct)
  case (1 c)
  then show ?case by (auto simp: group_code_def split: sum.splits prod.splits option.splits)
next
  case (2 c op' ns')
  then show ?case by (auto split: sum.splits prod.splits)
next
  case (3 d op' ns')
  then show ?case by (auto split: option.splits)
qed simp_all

lemma verbose_group:
  assumes "pipe_group g" "op = AndOp \<or> op = OrOp" "obliging w" "no_hang w"
    and "\<forall>n \<in> set g. n = PipeOp \<or> n = AndOp \<or> plain_node n" "books_ok st"
  shows "\<exists>st'. run_loop w True (g @ op # ns) st = Some (Inl UnboundLocalError, st')"
  using assms
proof (induction g arbitrary: st rule: pipe_group.induct)
  case (1 c)
  then obtain st1 where "start_command w True c st = (Inr (), st1)" using start_command_ok [of w c st True] by auto
  moreover obtain r where "exec_piped_commands w st1 = Some r" using no_hang_code [OF "1.prems"(4)] by blast
  ultimately show ?case using 1 by (auto simp: group_code_def)
next
  case (2 c op' ns')
  then obtain st1 where start: "start_command w True c st = (Inr (), st1)" using start_command_ok [of w c st True] by auto
  then have "books_ok (st1\<lparr>in_pipe := True, display := y\<rparr>)" for y
    using start_command_books [OF start "2.prems"(6)] by (simp add: books_ok_def)
  then show ?case using 2 start by simp
next
  case (3 d op' ns')
  have "books_ok (st\<lparr>cwd := x\<rparr>)" for x using "3.prems"(6) by (simp add: books_ok_def)
  then show ?case using 3 by (auto split: option.splits)
qed simp_all

section \<open>Substitution\<close>

definition double_dollars :: "string \<Rightarrow> string" where
  "double_dollars s = concat (map (\<lambda>c. if c = CHR ''$'' then ''$$'' else [c]) s)"

lemma match_subst_dollar: "c \<noteq> CHR ''$'' \<Longrightarrow> match_subst (c # cs) = None"
  by (simp add: match_subst_def Let_def)

lemma subst_other:
  "c \<noteq> CHR ''$'' \<Longrightarrow> subst_arg ev ins outs (c # s) = rbind (subst_arg ev ins outs s) (\<lambda>r. Inr (c # r))"
  by (simp add: subst_arg.simps match_subst_dollar)

lemma subst_plain:
  "CHR ''$'' \<notin> set a \<Longrightarrow> subst_arg ev ins outs (a @ s) = rbind (subst_arg ev ins outs s) (\<lambda>r. Inr (a @ r))"
proof (induction a)
  case Nil
  then show ?case by (cases "subst_arg ev ins outs s") simp_all
next
  case (Cons c a)
  then have "c \<noteq> CHR ''$''" by auto
  with Cons show ?case by (cases "subst_arg ev ins outs s") (simp_all add: subst_other)
qed

lemma subst_doubled: "subst_arg ev ins outs (double_dollars s) = Inr s"
proof (induction s)
  case (Cons c s)
  then show ?case
    by (cases "c = CHR ''$''") (simp_all add: double_dollars_def subst_other subst_arg.simps(2) [of _ _ _ "CHR ''$''"])
qed (simp add: double_dollars_def subst_arg.simps)

lemma match_subst_word:
  assumes "var \<noteq> []" "list_all word_char var"
  shows "match_subst (''${'' @ var @ ''}'' @ s) = Some (var, [], s)"
proof -
  have "\<not> word_char (CHR ''}'')" by (simp add: word_char_def)
  then have "takeWhile word_char (var @ CHR ''}'' # s) = var" "dropWhile word_char (var @ CHR ''}'' # s) = CHR ''}'' # s"
    using assms(2) by (simp_all add: list_all_iff takeWhile_tail dropWhile_append3)
  then show ?thesis using assms(1) by (simp add: match_subst_def Let_def)
qed

section \<open>Properties\<close>

text \<open>
  C18: whenever \<open>Pipeline.run\<close> returns an exit code, on any machine and for any pipeline, every file it
  opened has been closed, and the code is that of the process started last.\<close>
theorem run_settles:
  assumes "run_pipeline w verbose p = Some (Inr (Some code), st)"
  shows "closed st = opened st \<and> launched st \<noteq> [] \<and> exit_of w (launched st) (length (launched st) - 1) = Some code"
  using run_loop_settled [of w verbose p start_run "Inr (Some code)" st] assms start_run_books
  by (auto simp: run_pipeline_def settled_def books_ok_def)

definition demo_machine :: machine where
  "demo_machine = \<lparr>environ = [], can_read = (\<lambda>f. True), can_write = (\<lambda>f. True), can_start = (\<lambda>l. True),
     exit_of = (\<lambda>ls k. Some (if l_argv (ls ! k) = [''false''] then 1 else 0))\<rparr>"

definition demo_line :: "node list" where
  "demo_line = [Cmd ((Command ''ls'')\<lparr>cmd_stdout := Some (ToFile ''out'')\<rparr>), AndOp, Cmd (Command ''false''), OrOp, Cmd (Command ''true'')]"

lemmas demo_defs = demo_machine_def demo_line_def Command_def run_pipeline_def start_run_def start_command_def
  get_stdin_def get_stdout_def get_stderr_def open_out_file_def open_file_def popen_process_def st_bind_def
  show_text_def group_code_def last_code_def exec_piped_commands_def close_files_def next_group_def Let_def

lemma demo_machine_obliging: "obliging demo_machine" "no_hang demo_machine"
  by (simp_all add: obliging_def no_hang_def demo_machine_def)

theorem run_settles_witness:
  "\<exists>st. run_pipeline demo_machine False demo_line = Some (Inr (Some 0), st) \<and> opened st = [''out''] \<and> closed st = [''out'']"
proof -
  obtain st where run: "run_pipeline demo_machine False demo_line = Some (Inr (Some 0), st)" "opened st = [''out'']"
    by (simp add: demo_defs)
  from run_settles [OF run(1)] run show ?thesis by simp
qed

text \<open>
  C19: a command line that parses, gives every \<open>cd\<close> a directory and does not end in a \<open>cd\<close>, can be run:
  if every file can be opened, every process started and every process that is waited for ends,
  \<open>run\<close> returns an exit code; with \<open>verbose\<close> this needs in addition that no command is followed by an
  \<open>&&\<close> or \<open>||\<close>.  That a process ends is a real condition: in a pipe the writer can wait for ever when its reader
  has ended, since \<open>run\<close> keeps the reading end open.\<close>
theorem parsed_line_runs:
  assumes "parse (Tokens ts) = Inr p" "Chdir None \<notin> set p" "\<exists>c. last p = Cmd c"
    and "obliging w" "no_hang w" "verbose \<longrightarrow> pure_pipe p"
  shows "\<exists>code st. run_pipeline w verbose p = Some (Inr (Some code), st)"
  using run_loop_returns [OF sentence_runnable [OF _ assms(2,3)] assms(4-6) start_run_books] assms(1)
  by (simp add: run_pipeline_def parse_tokens_iff)

theorem parsed_line_runs_witness:
  "\<exists>code st. run_pipeline demo_machine True [Chdir (Some ''d''), AndOp, Cmd (Command ''ls'')] = Some (Inr (Some code), st)"
proof -
  have "parse (Tokens [''cd'', ''d'', ''&&'', ''ls'']) = Inr [Chdir (Some ''d''), AndOp, Cmd (Command ''ls'')]" by code_simp
  from parsed_line_runs [OF this _ _ demo_machine_obliging] show ?thesis by simp
qed

text \<open>
  C17: \<open>&&\<close> and \<open>||\<close> nest to the right.  Without \<open>verbose\<close>: after a group of piped commands \<open>run\<close> either
  returns the group's code, on failure before \<open>&&\<close> and on success before \<open>||\<close>, skipping everything that
  follows, or goes on with the next group (a shell would group to the left and go on after a skipped
  group); an error or a process that does not end stops it where it happens.  With \<open>verbose\<close> a line with
  such an operator behind a group never returns, neither a code nor \<open>None\<close>: it raises, or waits for ever.\<close>
theorem run_nests_right:
  assumes "pipe_group g" "\<forall>(op, h) \<in> set rest. pipe_group h \<and> (op = AndOp \<or> op = OrOp)"
  shows "run_pipeline w False (g @ concat (map (\<lambda>(op, h). op # h) rest)) = run_chain w g rest start_run \<and>
    (rest \<noteq> [] \<longrightarrow> (\<forall>r st. run_pipeline w True (g @ concat (map (\<lambda>(op, h). op # h) rest)) \<noteq> Some (Inr r, st)))"
proof -
  have "run_pipeline w True (g @ concat (map (\<lambda>(op, h). op # h) rest)) \<noteq> Some (Inr r, st)" if "rest \<noteq> []" for r st
  proof -
    from that obtain op h rest' where r: "rest = (op, h) # rest'" by (metis list.exhaust surj_pair)
    then show ?thesis using verbose_no_return [OF assms(1), of op] assms(2) by (simp add: run_pipeline_def)
  qed
  then show ?thesis using run_chain_run [OF assms] by (simp add: run_pipeline_def)
qed

theorem run_nests_right_witness:
  "map_option fst (run_pipeline demo_machine False ([Cmd (Command ''true'')] @
     concat (map (\<lambda>(op, h). op # h) [(OrOp, [Cmd (Command ''ls'')]), (AndOp, [Cmd (Command ''false'')])]))) = Some (Inr (Some 0))"
  using run_nests_right [of "[Cmd (Command ''true'')]" "[(OrOp, [Cmd (Command ''ls'')]), (AndOp, [Cmd (Command ''false'')])]" demo_machine]
  by (simp add: demo_defs stops_def)

text \<open>
  With \<open>verbose\<close>, which waf's option \<open>-v\<close> sets, every command line that reaches an \<open>&&\<close> or \<open>||\<close> after a
  group of commands raises \<open>UnboundLocalError\<close>, since the message prints a variable not yet assigned.\<close>
theorem verbose_run_raises:
  assumes "pipe_group g" "op = AndOp \<or> op = OrOp" "\<forall>n \<in> set g. n = PipeOp \<or> n = AndOp \<or> plain_node n" "obliging w" "no_hang w"
  shows "\<exists>st. run_pipeline w True (g @ op # rest) = Some (Inl UnboundLocalError, st)"
  unfolding run_pipeline_def using assms start_run_books by (intro verbose_group)

theorem verbose_run_raises_witness: "\<exists>st. run_pipeline demo_machine True demo_line = Some (Inl UnboundLocalError, st)"
  using verbose_run_raises [of "[Cmd ((Command ''ls'')\<lparr>cmd_stdout := Some (ToFile ''out'')\<rparr>)]" AndOp demo_machine
      "[Cmd (Command ''false''), OrOp, Cmd (Command ''true'')]"]
  by (simp add: demo_line_def demo_machine_obliging)

text \<open>
  The substitution in command arguments gives doubled dollar signs back as single ones and
  copies every other text; a variable in braces is replaced by its value in between.\<close>
theorem subst_arg_expands:
  assumes "var \<noteq> []" "list_all word_char var" "ev var = Inr v" "repl inputs outputs var v = Inr x"
  shows "subst_arg ev inputs outputs (double_dollars s) = Inr s \<and>
    (CHR ''$'' \<notin> set a \<longrightarrow>
      subst_arg ev inputs outputs (a @ ''${'' @ var @ ''}'' @ double_dollars s) = Inr (a @ x @ s))"
proof -
  have "take 1 (''{'' @ var @ ''}'' @ double_dollars s) = ''{''" by simp
  then have "subst_arg ev inputs outputs (''${'' @ var @ ''}'' @ double_dollars s) = Inr (x @ s)"
    using match_subst_word [OF assms(1,2), of "double_dollars s"] assms(3,4)
    by (simp add: subst_arg.simps subst_doubled)
  then show ?thesis by (simp add: subst_doubled subst_plain)
qed

theorem subst_arg_expands_witness:
  "subst_arg (\<lambda>v. if v = ''SRC'' then Inr VInputs else Inl KeyError)
     [\<lparr>srcpath = ''a.c'', bldpath = ''b/a.c'', bld_abspath = ''/b/a.c''\<rparr>] [] ''-o ${SRC}$$'' = Inr ''-o a.c$''"
proof -
  let ?ev = "\<lambda>v. if v = ''SRC'' then Inr VInputs else Inl KeyError"
  have "list_all word_char ''SRC''" by (simp add: word_char_def)
  from subst_arg_expands [of "''SRC''" ?ev VInputs "[\<lparr>srcpath = ''a.c'', bldpath = ''b/a.c'', bld_abspath = ''/b/a.c''\<rparr>]" "[]"
      "''a.c''" "''$''" "''-o ''", OF _ this]
  show ?thesis by (simp add: double_dollars_def)
qed

section \<open>Oddities\<close>

text \<open>The shell would run the last command here: \<open>(a || b) && c\<close>.\<close>

lemma skipped_after_or:
  "map_option (\<lambda>(r, st). map l_argv (launched st)) (run_pipeline demo_machine False
     [Cmd (Command ''true''), OrOp, Cmd (Command ''b''), AndOp, Cmd (Command ''c'')]) = Some [[''true'']]"
  by (simp add: demo_defs)

lemma or_not_displayed: "get_abbreviated_command [Cmd (Command ''a''), OrOp, Cmd (Command ''b'')] = ''a b''"
  by (simp add: get_abbreviated_command_def Command_def)

lemma dangling_redirection_accepted: "parse (Tokens [''ls'', ''>'']) = Inr [Cmd (Command ''ls'')]"
  by code_simp

lemma final_cd_fails: "run_pipeline w v [Chdir d] = Some (Inl IndexError, start_run)"
  by (simp add: run_pipeline_def)

end
