(* ===== verification/Launcher.thy ===== *)
theory Launcher
  imports Shlex
begin

text \<open>
  Running programs of the build tree, \<^verbatim>\<open>wutils.py\<close>: the environment of the process, the
  search for the program, the command line, and what becomes of its return code.  The build context
  and the options of waf are records; the process is a parameter.
\<close>

section \<open>The build context and the errors\<close>

text \<open>A task generator: \<open>path.abspath()\<close>, \<open>path.get_bld().abspath()\<close> and the file of its target.\<close>

record task_gen =
  is_ns3_program :: bool
  obj_path :: string
  obj_bld_path :: string
  obj_name :: string
  obj_target :: string

record build =
  all_task_gen :: "task_gen list"
  module_path :: "string list"
  executable_path :: "string list"
  valgrind_programs :: "string list"
  python_programs :: "string list"
  pymoddir :: string
  pyvizdir :: string
  launch_dir :: string
  cwd_default :: string

record waf_options =
  opt_command_template :: string
  opt_gdb :: bool
  opt_valgrind :: bool
  opt_cwd_launch :: string

text \<open>
  The messages of \<open>WafError\<close>, and the other exceptions.  \<open>UnmodelledFormat\<close> stands for command templates with
  conversions other than \<open>%s\<close> and \<open>%%\<close>, whose effect is not modelled.
\<close>

datatype launch_error =
    ProgramNotFound string "string list"
  | ConflictingOptions string string
  | ValgrindMissing
  | Signalled "string list" string
  | ExitedWith "string list" int
  | CommandRaised "string list"
  | PyError py_error
  | UnmodelledFormat

type_synonym 'a launched = "launch_error + 'a"

definition lbind :: "'a launched \<Rightarrow> ('a \<Rightarrow> 'b launched) \<Rightarrow> 'b launched" where
  "lbind r f = (case r of Inl e \<Rightarrow> Inl e | Inr x \<Rightarrow> f x)"

lemma lbind_simps [simp]: "lbind (Inl e) f = Inl e" "lbind (Inr x) f = f x"
  by (simp_all add: lbind_def)

definition lift_py :: "'a res \<Rightarrow> 'a launched" where
  "lift_py r = (case r of Inl e \<Rightarrow> Inl (PyError e) | Inr x \<Rightarrow> Inr x)"

lemma lift_py_simps [simp]: "lift_py (Inl e) = Inl (PyError e)" "lift_py (Inr x) = Inr x"
  by (simp_all add: lift_py_def)

section \<open>Finding the program\<close>

definition get_command_template :: "waf_options \<Rightarrow> string list \<Rightarrow> string" where
  "get_command_template opts arguments =
     foldl (\<lambda>cmd arg. cmd @ '' '' @ arg) (if opt_command_template opts \<noteq> '''' then opt_command_template opts else ''%s'') arguments"

definition program_names :: "string \<Rightarrow> string \<Rightarrow> task_gen \<Rightarrow> string list res" where
  "program_names cwd_path dir obj =
     rbind (relpath cwd_path (obj_path obj) dir) (\<lambda>rel. Inr [obj_name obj, path_join rel (obj_name obj)])"

fun find_loop :: "string \<Rightarrow> string \<Rightarrow> string \<Rightarrow> task_gen list \<Rightarrow> string list \<Rightarrow> task_gen launched" where
  "find_loop cwd_path dir program_name [] found = Inl (ProgramNotFound program_name found)"
| "find_loop cwd_path dir program_name (obj # objs) found =
     (if \<not> is_ns3_program obj then find_loop cwd_path dir program_name objs found
      else if \<not> (startswith (obj_path obj) dir \<or> startswith (obj_bld_path obj) dir)
      then find_loop cwd_path dir program_name objs found
      else lbind (lift_py (program_names cwd_path dir obj)) (\<lambda>names.
        if program_name \<in> set names then Inr obj
        else find_loop cwd_path dir program_name objs (found @ names)))"

definition find_program :: "build \<Rightarrow> string \<Rightarrow> string \<Rightarrow> task_gen launched" where
  "find_program bld cwd_path program_name =
     find_loop cwd_path (abspath cwd_path (launch_dir bld)) program_name (all_task_gen bld) []"

section \<open>The environment\<close>

definition pathvar :: "string \<Rightarrow> string" where
  "pathvar plat =
     (if plat = ''linux2'' \<or> plat = ''linux'' then ''LD_LIBRARY_PATH''
      else if plat = ''darwin'' then ''DYLD_LIBRARY_PATH''
      else if plat = ''win32'' \<or> plat = ''cygwin'' then ''PATH''
      else ''LD_LIBRARY_PATH'')"

definition pathsep :: "string \<Rightarrow> string" where
  "pathsep plat = (if plat = ''win32'' then '';'' else '':'')"

definition prepend_paths :: "string \<Rightarrow> string \<Rightarrow> string list \<Rightarrow> (string \<times> string) list \<Rightarrow> (string \<times> string) list" where
  "prepend_paths sep var paths env =
     (case map_of env var of
        Some old \<Rightarrow> AList.update var (join_with sep (paths @ [old])) env
      | None \<Rightarrow> AList.update var (join_with sep paths) env)"

definition get_proc_env ::
  "build \<Rightarrow> string \<Rightarrow> (string \<times> string) list \<Rightarrow> (string \<times> string) list option \<Rightarrow> (string \<times> string) list" where
  "get_proc_env bld plat environ os_env =
     (let sep = pathsep plat;
          proc_env = (case os_env of None \<Rightarrow> environ | Some e \<Rightarrow> foldl (\<lambda>d (k, v). AList.update k v d) environ e);
          proc_env = prepend_paths sep (pathvar plat) (module_path bld) proc_env;
          proc_env = prepend_paths sep ''PYTHONPATH'' [pymoddir bld, pyvizdir bld] proc_env
      in prepend_paths sep ''PATH'' (executable_path bld) proc_env)"

section \<open>Running a command\<close>

text \<open>
  What a process does: its return code and what it writes to standard error, decoded or not; \<open>None\<close> when it
  cannot be started.  The names of \<open>vars(signal)\<close> are a parameter.
\<close>

record process_result =
  retval :: int
  stderrdata :: "string option"

type_synonym starter = "string list \<Rightarrow> (string \<times> string) list \<Rightarrow> string option \<Rightarrow> process_result option"

definition signal_name :: "(string \<times> int) list \<Rightarrow> int \<Rightarrow> string option" where
  "signal_name signals r =
     (if r < 0 then
        map_option fst (find (\<lambda>(name, val). 3 < length name \<and> take 3 name = ''SIG'' \<and> name ! 3 \<noteq> CHR ''_'' \<and> val = - r) signals)
      else None)"

definition check_retval :: "(string \<times> int) list \<Rightarrow> string list \<Rightarrow> int \<Rightarrow> int launched" where
  "check_retval signals argv r =
     (if r \<noteq> 0 then
        (case signal_name signals r of
           Some name \<Rightarrow> if name \<noteq> '''' then Inl (Signalled argv name) else Inl (ExitedWith argv r)
         | None \<Rightarrow> Inl (ExitedWith argv r))
      else Inr r)"

text \<open>The loop over \<open>stderrdata\<close> visits its characters.\<close>

definition leak_found :: "string \<Rightarrow> bool" where
  "leak_found stderr = list_ex (\<lambda>line. occurs ''== LEAK SUMMARY'' line) (map (\<lambda>c. [c]) stderr)"

definition valgrind_retval :: "process_result \<Rightarrow> int launched" where
  "valgrind_retval p =
     (case stderrdata p of
        None \<Rightarrow> Inl (PyError UnicodeDecodeError)
      | Some err \<Rightarrow> Inr (if retval p = 0 \<and> leak_found err then 1 else retval p))"

definition run_argv ::
  "build \<Rightarrow> waf_options \<Rightarrow> starter \<Rightarrow> (string \<times> int) list \<Rightarrow> string \<Rightarrow> (string \<times> string) list \<Rightarrow> string list \<Rightarrow>
     (string \<times> string) list option \<Rightarrow> string option \<Rightarrow> bool \<Rightarrow> int launched" where
  "run_argv bld opts start signals plat environ argv os_env cwd force_no_valgrind =
     (let env = get_proc_env bld plat environ os_env; raised = (\<lambda>argv. if plat = ''win32'' then CommandRaised argv else PyError OSError)
      in if opt_valgrind opts \<and> opt_command_template opts \<noteq> '''' then Inl (ConflictingOptions ''--command-template'' ''--valgrind'')
         else if opt_gdb opts \<and> opt_command_template opts \<noteq> '''' then Inl (ConflictingOptions ''--command-template'' ''--gdb'')
         else if opt_gdb opts \<and> opt_valgrind opts then Inl (ConflictingOptions ''--valgrind'' ''--gdb'')
         else if opt_gdb opts then
           (case start ([''gdb'', ''--args''] @ argv) env cwd of
              None \<Rightarrow> Inl (PyError OSError)
            | Some p \<Rightarrow> Inr (retval p))
         else if opt_valgrind opts \<and> \<not> force_no_valgrind then
           (case valgrind_programs bld of
              [] \<Rightarrow> Inl ValgrindMissing
            | v # vs \<Rightarrow>
                (let argv = [v, ''--leak-check=full'', ''--show-reachable=yes'', ''--error-exitcode=1''] @ argv
                 in case start argv env cwd of
                      None \<Rightarrow> Inl (PyError OSError)
                    | Some p \<Rightarrow> lbind (valgrind_retval p) (check_retval signals argv)))
         else (case start argv env cwd of
                 None \<Rightarrow> Inl (raised argv)
               | Some p \<Rightarrow> check_retval signals argv (retval p)))"

section \<open>The command line\<close>

text \<open>\<open>template % (arg,)\<close>: the conversion \<open>%s\<close> once, and \<open>%%\<close>.\<close>

fun format_s :: "string \<Rightarrow> string option \<Rightarrow> string launched" where
  "format_s [] (Some arg) = Inl (PyError TypeError)"
| "format_s [] None = Inr []"
| "format_s (c # cs) arg =
     (if c = CHR ''%'' then
        (case cs of
           [] \<Rightarrow> Inl (PyError ValueError)
         | d # ds \<Rightarrow>
             (if d = CHR ''%'' then lbind (format_s ds arg) (\<lambda>r. Inr (CHR ''%'' # r))
              else if d = CHR ''s'' then
                (case arg of
                   None \<Rightarrow> Inl (PyError TypeError)
                 | Some a \<Rightarrow> lbind (format_s ds None) (\<lambda>r. Inr (a @ r)))
              else Inl UnmodelledFormat))
      else lbind (format_s cs arg) (\<lambda>r. Inr (c # r)))"

text \<open>A name that ends in \<open>.cc\<close> loses what follows its last dot.\<close>

definition strip_cc :: "string \<Rightarrow> string" where
  "strip_cc name = (if endswith name ''.cc'' then take (length name - 3) name else name)"

definition get_run_program :: "build \<Rightarrow> string \<Rightarrow> string \<Rightarrow> string option \<Rightarrow> (string \<times> string list) launched" where
  "get_run_program bld cwd_path program_string command_template =
     (if command_template = None \<or> command_template = Some ''%s'' then
        lbind (lift_py (shlex_split program_string)) (\<lambda>argv.
        lbind (lift_py (py_index argv 0)) (\<lambda>name.
        lbind (find_program bld cwd_path (strip_cc name)) (\<lambda>obj.
          Inr (strip_cc name, obj_target obj # drop 1 argv))))
      else
        lbind (find_program bld cwd_path (strip_cc program_string)) (\<lambda>obj.
        lbind (format_s (the command_template) (Some (obj_target obj))) (\<lambda>tmpl.
        lbind (lift_py (shlex_split (replace_char backslash [backslash, backslash] tmpl))) (\<lambda>execvec.
          Inr (strip_cc program_string, execvec)))))"

definition visual_option :: "bool \<Rightarrow> string list" where
  "visual_option visualize = (if visualize then [''--SimulatorImplementationType=ns3::VisualSimulatorImpl''] else [])"

definition launch_cwd :: "build \<Rightarrow> waf_options \<Rightarrow> string" where
  "launch_cwd bld opts = (if opt_cwd_launch opts \<noteq> '''' then opt_cwd_launch opts else cwd_default bld)"

definition run_program ::
  "build \<Rightarrow> waf_options \<Rightarrow> starter \<Rightarrow> (string \<times> int) list \<Rightarrow> string \<Rightarrow> string \<Rightarrow> (string \<times> string) list \<Rightarrow>
     string \<Rightarrow> string option \<Rightarrow> string option \<Rightarrow> bool \<Rightarrow> int launched" where
  "run_program bld opts start signals plat cwd_path environ program_string command_template cwd visualize =
     lbind (get_run_program bld cwd_path program_string command_template) (\<lambda>(name, execvec).
       run_argv bld opts start signals plat environ (execvec @ visual_option visualize) None
         (Some (case cwd of None \<Rightarrow> launch_cwd bld opts | Some c \<Rightarrow> c)) False)"

definition run_python_program ::
  "build \<Rightarrow> waf_options \<Rightarrow> starter \<Rightarrow> (string \<times> int) list \<Rightarrow> string \<Rightarrow> (string \<times> string) list \<Rightarrow> string \<Rightarrow> bool \<Rightarrow> int launched" where
  "run_python_program bld opts start signals plat environ program_string visualize =
     lbind (lift_py (shlex_split program_string)) (\<lambda>execvec.
     lbind (lift_py (py_index (python_programs bld) 0)) (\<lambda>python.
       run_argv bld opts start signals plat environ (python # execvec @ visual_option visualize) None
         (Some (launch_cwd bld opts)) False))"

fun uniquify_list :: "'a set \<Rightarrow> 'a list \<Rightarrow> 'a list" where
  "uniquify_list seen [] = []"
| "uniquify_list seen (x # xs) = (if x \<in> seen then uniquify_list seen xs else x # uniquify_list (insert x seen) xs)"

section \<open>Lemmas\<close>

lemma find_loop_member: "find_loop cwd_path dir name objs found = Inr obj \<Longrightarrow> obj \<in> set objs"
  by (induction objs arbitrary: found) (auto simp: lbind_def split: if_splits sum.splits)

lemma find_program_member: "find_program bld cwd_path name = Inr obj \<Longrightarrow> obj \<in> set (all_task_gen bld)"
  unfolding find_program_def by (rule find_loop_member)

lemma template_words:
  "opt_command_template opts = '''' \<Longrightarrow> get_command_template opts args = ''%s'' @ concat (map (\<lambda>a. '' '' @ a) args)"
proof -
  have "foldl (\<lambda>cmd arg. cmd @ '' '' @ arg) s args = s @ concat (map (\<lambda>a. '' '' @ a) args)" for s
    by (induction args arbitrary: s) simp_all
  then show "opt_command_template opts = '''' \<Longrightarrow> ?thesis" by (simp add: get_command_template_def)
qed

lemma format_literal: "CHR ''%'' \<notin> set s \<Longrightarrow> format_s s None = Inr s"
  by (induction s) auto

lemma join_blank: "w @ concat (map (\<lambda>a. '' '' @ a) args) = join_with '' '' (w # args)"
proof (induction args arbitrary: w)
  case (Cons a args)
  have "join_with '' '' (w # a # args) = w @ '' '' @ join_with '' '' (a # args)" by simp
  also have "join_with '' '' (a # args) = a @ concat (map (\<lambda>a. '' '' @ a) args)" using Cons.IH by simp
  finally show ?case by simp
qed simp

lemma spelled_words: "\<forall>a \<in> set args. plain_word a \<Longrightarrow> list_all2 spelling args args"
  by (induction args) (auto simp: spelling_def)

lemma doubled_words: "\<forall>a \<in> set ws. unquoted_word a \<Longrightarrow> list_all2 spelling (map double_backslash ws) ws"
  by (induction ws) (auto simp: spelling_def)

lemma no_leak: "\<not> leak_found s"
proof -
  have "\<not> occurs ''== LEAK SUMMARY'' [c]" for c by (simp add: startswith_def)
  then show ?thesis by (simp add: leak_found_def list_ex_iff)
qed

lemma check_retval_zero: "check_retval signals argv r = Inr x \<longleftrightarrow> x = 0 \<and> r = 0"
  by (auto simp: check_retval_def split: if_splits option.splits)

lemma map_of_prepend:
  "map_of (prepend_paths sep var paths env) =
     (map_of env)(var \<mapsto> join_with sep (paths @ (case map_of env var of None \<Rightarrow> [] | Some old \<Rightarrow> [old])))"
  by (auto simp: prepend_paths_def split: option.splits)

lemma uniquify_list_filter: "uniquify_list seen xs = filter (\<lambda>x. x \<notin> seen) (rev (remdups (rev xs)))"
proof (induction xs arbitrary: seen)
  case (Cons x xs)
  have "remdups (rev xs @ [x]) = filter (\<lambda>y. y \<noteq> x) (remdups (rev xs)) @ [x]"
    by (induction xs rule: rev_induct) auto
  then show ?case using Cons by (auto simp: rev_filter intro!: filter_cong)
qed simp

section \<open>Properties\<close>

text \<open>
  C23: naming a program with arguments and naming it with the command template made of the same
  arguments give the same program and argument vector, or fail in the same way, whatever
  backslashes the path of the program has; so \<open>run_program\<close> starts the same process, or none, and has the
  same result.  The conditions: at least one argument; the name and the arguments are words without blanks, quotes
  and backslashes, the arguments also without percent signs; the paths of the programs are not empty and
  have no blanks or quotes; and no other \<open>--command-template\<close> is given.\<close>
theorem template_equals_arguments:
  assumes "opt_command_template opts = ''''" "args \<noteq> []" "plain_word name"
    and "\<forall>a \<in> set args. plain_word a \<and> CHR ''%'' \<notin> set a" "\<forall>obj \<in> set (all_task_gen bld). unquoted_word (obj_target obj)"
  shows "get_run_program bld cwd_path (join_with '' '' (name # args)) None =
    get_run_program bld cwd_path name (Some (get_command_template opts args)) \<and>
   run_program bld opts start signals plat cwd_path environ (join_with '' '' (name # args)) None cwd visualize =
    run_program bld opts start signals plat cwd_path environ name (Some (get_command_template opts args)) cwd visualize"
proof -
  let ?rest = "concat (map (\<lambda>a. '' '' @ a) args)"
  have tmpl: "get_command_template opts args = ''%s'' @ ?rest" by (rule template_words [OF assms(1)])
  have "CHR ''%'' \<notin> set ?rest" using assms(4) by auto
  from format_literal [OF this] have "format_s (''%s'' @ ?rest) (Some p) = Inr (p @ ?rest)" for p by simp
  then have fmt: "format_s (get_command_template opts args) (Some p) = Inr (join_with '' '' (p # args))" for p
    unfolding tmpl join_blank .
  have "get_command_template opts args \<noteq> ''%s''" unfolding tmpl using assms(2) by (cases args) simp_all
  moreover have "shlex_split (join_with '' '' (name # args)) = Inr (name # args)"
    using assms(3,4) by (intro split_join_words spelled_words) auto
  moreover have "shlex_split (double_backslash (join_with '' '' (obj_target obj # args))) = Inr (obj_target obj # args)"
    if "find_program bld cwd_path (strip_cc name) = Inr obj" for obj
    unfolding double_backslash_join
    using assms(4,5) find_program_member [OF that] plain_word_unquoted by (intro split_join_words doubled_words) auto
  ultimately have "get_run_program bld cwd_path (join_with '' '' (name # args)) None =
      get_run_program bld cwd_path name (Some (get_command_template opts args))"
    by (cases "find_program bld cwd_path (strip_cc name)")
      (simp_all add: get_run_program_def py_index_def fmt flip: double_backslash_def)
  then show ?thesis by (simp add: run_program_def)
qed

definition demo_build :: build where
  "demo_build = \<lparr>all_task_gen = [\<lparr>is_ns3_program = True, obj_path = ''/ns3/src'', obj_bld_path = ''/ns3/build/src'',
       obj_name = ''sim'', obj_target = ''/ns3/build/src/sim''\<rparr>],
     module_path = [''/ns3/build''], executable_path = [''/ns3/build/bin''], valgrind_programs = [''valgrind''],
     python_programs = [''python''], pymoddir = ''/ns3/b'', pyvizdir = ''/ns3/v'', launch_dir = ''/ns3'', cwd_default = ''/ns3''\<rparr>"

definition demo_waf_options :: waf_options where
  "demo_waf_options = \<lparr>opt_command_template = '''', opt_gdb = False, opt_valgrind = True, opt_cwd_launch = ''''\<rparr>"

theorem template_equals_arguments_witness:
  "get_run_program demo_build ''/ns3'' ''sim --n=3'' None = Inr (''sim'', [''/ns3/build/src/sim'', ''--n=3'']) \<and>
   get_run_program demo_build ''/ns3'' ''sim'' (Some ''%s --n=3'') = Inr (''sim'', [''/ns3/build/src/sim'', ''--n=3''])"
proof -
  have "get_run_program demo_build ''/ns3'' ''sim --n=3'' None = Inr (''sim'', [''/ns3/build/src/sim'', ''--n=3''])"
    by code_simp
  moreover have "plain_word ''sim''" "plain_word ''--n=3''" "unquoted_word ''/ns3/build/src/sim''" by code_simp+
  ultimately show ?thesis
    using template_equals_arguments [of demo_waf_options "[''--n=3'']" "''sim''" demo_build "''/ns3''"]
    by (simp add: demo_waf_options_def demo_build_def get_command_template_def)
qed

text \<open>
  Apart from runs under gdb, \<open>run_argv\<close> returns only when the process exited with code 0.  Under
  valgrind it also returns 0 when the report of the process lists leaks: the loop that looks for the
  leak summary compares single characters.\<close>
theorem run_argv_result:
  "(run_argv bld opts start signals plat environ argv os_env cwd no_valgrind = Inr r \<longrightarrow> r = 0 \<or> opt_gdb opts) \<and>
   (opt_valgrind opts \<and> \<not> opt_gdb opts \<and> opt_command_template opts = '''' \<and> \<not> no_valgrind \<and> valgrind_programs bld = v # vs \<and>
    start ([v, ''--leak-check=full'', ''--show-reachable=yes'', ''--error-exitcode=1''] @ argv)
      (get_proc_env bld plat environ os_env) cwd = Some \<lparr>retval = 0, stderrdata = Some report\<rparr> \<longrightarrow>
    run_argv bld opts start signals plat environ argv os_env cwd no_valgrind = Inr 0)"
  by (auto simp: run_argv_def Let_def check_retval_zero valgrind_retval_def no_leak check_retval_def
      split: if_splits option.splits list.splits)

theorem run_argv_result_witness:
  "run_argv demo_build demo_waf_options
     (\<lambda>argv env cwd. Some \<lparr>retval = 0, stderrdata = Some ''== LEAK SUMMARY''\<rparr>) [] ''linux'' [] [''sim''] None None False = Inr 0"
  using run_argv_result [of demo_build demo_waf_options "\<lambda>argv env cwd. Some \<lparr>retval = 0, stderrdata = Some ''== LEAK SUMMARY''\<rparr>"
      "[]" "''linux''" "[]" "[''sim'']" None None False 0 "''valgrind''" "[]" "''== LEAK SUMMARY''"]
  by (simp add: demo_waf_options_def demo_build_def)

lemma get_proc_env_result:
  assumes "pathvar plat \<noteq> ''PATH''"
  shows "map_of (get_proc_env bld plat environ None) var =
    (let old = (case map_of environ var of None \<Rightarrow> [] | Some v \<Rightarrow> [v]); sep = pathsep plat
     in if var = ''PATH'' then Some (join_with sep (executable_path bld @ old))
        else if var = ''PYTHONPATH'' then Some (join_with sep ([pymoddir bld, pyvizdir bld] @ old))
        else if var = pathvar plat then Some (join_with sep (module_path bld @ old))
        else map_of environ var)"
proof -
  have "pathvar plat \<noteq> ''PYTHONPATH''" by (simp add: pathvar_def)
  then show ?thesis using assms by (simp add: get_proc_env_def Let_def map_of_prepend)
qed

end
