(* ===== verification/Versioning.thy ===== *)
theory Versioning
  imports CheckStyle
begin

text \<open>
  The version information of a build, \<^verbatim>\<open>waf-tools/versioning.py\<close>: reading tags of the form
  \<open>ns-3.35.1-RC2\<close>, reading the output of \<open>git describe\<close>, the task that puts the fields into the build
  environment and the cache file, and the configuration step that falls back on the cache.  The git
  commands, which answer a text or fail, are a parameter.  Strings are ASCII.
\<close>

section \<open>Patterns\<close>

type_synonym fields = "(string \<times> string) list"

text \<open>A group of digits at the start of a text, and what follows it.\<close>

definition digits_first :: "string \<Rightarrow> (string \<times> string) option" where
  "digits_first s = (let ds = takeWhile is_digit s in if ds = [] then None else Some (ds, dropWhile is_digit s))"

definition quoted :: "string \<Rightarrow> string" where
  "quoted s = [dquote] @ s @ [dquote]"

text \<open>The optional third number: any character but a newline, and digits.\<close>

definition match_patch :: "string \<Rightarrow> string option \<times> string" where
  "match_patch s =
     (case s of
        [] \<Rightarrow> (None, s)
      | c # cs \<Rightarrow> if c = nl then (None, s)
                  else (case digits_first cs of Some (ds, rest) \<Rightarrow> (Some ds, rest) | None \<Rightarrow> (None, s)))"

definition match_candidate :: "string \<Rightarrow> string option" where
  "match_candidate s =
     (let rc = takeWhile (\<lambda>c. c \<noteq> nl) (drop 1 s)
      in if startswith s ''-RC'' \<and> 2 < length rc then Some rc else None)"

record version_match =
  vm_major :: string
  vm_minor :: string
  vm_patch :: "string option"
  vm_candidate :: "string option"

definition match_version :: "string \<Rightarrow> version_match option" where
  "match_version s =
     (if \<not> startswith s ''ns-'' then None
      else (case digits_first (drop 3 s) of
              None \<Rightarrow> None
            | Some (major, s) \<Rightarrow>
                if \<not> startswith s ''.'' then None
                else (case digits_first (drop 1 s) of
                        None \<Rightarrow> None
                      | Some (minor, s) \<Rightarrow>
                          (case match_patch s of (patch, s) \<Rightarrow>
                             Some \<lparr>vm_major = major, vm_minor = minor, vm_patch = patch, vm_candidate = match_candidate s\<rparr>))))"

definition is_hex :: "char \<Rightarrow> bool" where
  "is_hex c \<longleftrightarrow> (let n = of_char c :: nat in 48 \<le> n \<and> n \<le> 57 \<or> 97 \<le> n \<and> n \<le> 102 \<or> 65 \<le> n \<and> n \<le> 70)"

text \<open>The part of \<open>git describe\<close> after the tag: distance, hash and the mark of a dirty tree.\<close>

definition match_distance :: "string \<Rightarrow> (string \<times> string \<times> bool) option" where
  "match_distance s =
     (if \<not> startswith s ''-'' then None
      else (case digits_first (drop 1 s) of
              None \<Rightarrow> None
            | Some (ds, s) \<Rightarrow>
                (let hash = takeWhile is_hex (drop 2 s); rest = dropWhile is_hex (drop 2 s)
                 in if startswith s ''-g'' \<and> hash \<noteq> [] then Some (ds, CHR ''g'' # hash, startswith rest ''-dirty'') else None)))"

text \<open>The tag is greedy: the longest beginning of the first line is tried first.\<close>

definition match_describe :: "string \<Rightarrow> (string \<times> string \<times> string \<times> bool) option" where
  "match_describe out =
     (case find (\<lambda>k. match_distance (drop k out) \<noteq> None) (rev [1..<Suc (length (takeWhile (\<lambda>c. c \<noteq> nl) out))]) of
        None \<Rightarrow> None
      | Some k \<Rightarrow> Some (take k out, the (match_distance (drop k out))))"

section \<open>The version task\<close>

definition set_field :: "string \<Rightarrow> string \<Rightarrow> fields \<Rightarrow> fields" where
  "set_field k v fs = AList.update k v fs"

definition non_empty :: "string option \<Rightarrow> string \<Rightarrow> string" where
  "non_empty x d = (case x of Some s \<Rightarrow> if s \<noteq> '''' then s else d | None \<Rightarrow> d)"

definition parse_version_tag :: "string \<Rightarrow> fields \<Rightarrow> bool \<times> fields" where
  "parse_version_tag tag fs =
     (let safe_tag = py_strip tag
      in case match_version safe_tag of
           None \<Rightarrow> (False, fs)
         | Some m \<Rightarrow>
             (True,
              set_field ''VERSION_RELEASE_CANDIDATE'' (quoted (non_empty (vm_candidate m) ''''))
                (set_field ''VERSION_PATCH'' (non_empty (vm_patch m) ''0'')
                  (set_field ''VERSION_MINOR'' (vm_minor m)
                    (set_field ''VERSION_MAJOR'' (vm_major m)
                      (set_field ''VERSION_TAG'' (quoted safe_tag) fs))))))"

type_synonym git = "string list \<Rightarrow> string option"

definition describe_cmd :: "string list" where
  "describe_cmd = [''git'', ''describe'', ''--tags'', ''--dirty'', ''--long'']"

definition find_closest_tag :: "git \<Rightarrow> fields \<Rightarrow> fields res" where
  "find_closest_tag git fs =
     (case git describe_cmd of
        None \<Rightarrow> Inl (PlainException ''git'')
      | Some out \<Rightarrow>
          (case match_describe out of
             None \<Rightarrow> Inl ValueError
           | Some (tag, distance, hash, dirty) \<Rightarrow>
               Inr (snd (parse_version_tag tag
                 (set_field ''VERSION_DIRTY_FLAG'' (if dirty then ''1'' else ''0'')
                   (set_field ''VERSION_COMMIT_HASH'' (quoted hash)
                     (set_field ''VERSION_TAG_DISTANCE'' distance
                       (set_field ''CLOSEST_TAG'' (quoted tag) fs))))))))"

definition ns3_tag_cmd :: "string list" where
  "ns3_tag_cmd = [''git'', ''describe'', ''--tags'', ''--abbrev=0'', ''--match'', ''ns-3*'', ''HEAD'']"

definition find_closest_ns3_tag :: "git \<Rightarrow> fields \<Rightarrow> fields res" where
  "find_closest_ns3_tag git fs =
     (case git ns3_tag_cmd of
        None \<Rightarrow> Inl (PlainException ''git'')
      | Some out \<Rightarrow>
          (case parse_version_tag (py_strip out) fs of
             (True, fs) \<Rightarrow> Inr fs
           | (False, fs) \<Rightarrow> Inl ValueError))"

record version_env =
  ctx_env :: fields
  cache_file :: "fields option"

definition merge_fields :: "fields \<Rightarrow> fields \<Rightarrow> fields" where
  "merge_fields env fs = foldl (\<lambda>env (k, v). AList.update k v env) env fs"

text \<open>
  What storing the fields in the cache file comes to: it succeeds, the file cannot be opened, or the
  write fails half-way and leaves something else, or nothing, in the file.  Which of them happens is up to waf's
  \<open>ConfigSet.store\<close> and the file system.\<close>

datatype store_result = Stored | Cannot_open | Write_fails "fields option"

text \<open>\<open>run\<close>: every exception is logged and answered by 1.\<close>

definition version_run :: "(fields \<Rightarrow> store_result) \<Rightarrow> git \<Rightarrow> version_env \<Rightarrow> int \<times> version_env" where
  "version_run store git env =
     (case rbind (find_closest_tag git []) (\<lambda>fs.
             if map_of fs ''VERSION_TAG'' \<noteq> None then Inr fs else find_closest_ns3_tag git fs) of
        Inl e \<Rightarrow> (1, env)
      | Inr fs \<Rightarrow>
          (case store fs of
             Cannot_open \<Rightarrow> (1, env)
           | Write_fails left \<Rightarrow> (1, env\<lparr>cache_file := left\<rparr>)
           | Stored \<Rightarrow> (0, \<lparr>ctx_env = merge_fields (ctx_env env) fs, cache_file = Some fs\<rparr>)))"

section \<open>Configuration\<close>

definition answered :: "string option \<Rightarrow> bool" where
  "answered out = (case out of None \<Rightarrow> False | Some s \<Rightarrow> py_strip s \<noteq> '''')"

definition check_git_repo :: "bool \<Rightarrow> git \<Rightarrow> bool" where
  "check_git_repo git_found git \<longleftrightarrow> git_found \<and> answered (git [''git'', ''rev-parse'', ''--show-toplevel''])"

definition check_git_repo_has_ns3_tags :: "git \<Rightarrow> bool" where
  "check_git_repo_has_ns3_tags git \<longleftrightarrow>
     answered (git [''git'', ''describe'', ''--tags'', ''--abbrev=0'', ''--match'', ''ns-3.[0-9]*''])"

definition py_bool :: "bool \<Rightarrow> string" where
  "py_bool b = (if b then ''True'' else ''False'')"

text \<open>The caches found in the tree are loaded from the first; without any, \<open>ctx.fatal\<close> raises.\<close>

definition version_configure :: "bool \<Rightarrow> bool \<Rightarrow> git \<Rightarrow> fields list \<Rightarrow> fields \<Rightarrow> fields res" where
  "version_configure enable_build_version git_found git caches env =
     (if \<not> enable_build_version then Inr env
      else
        (let has_git_repo = check_git_repo git_found git;
             has_ns3_tags = has_git_repo \<and> check_git_repo_has_ns3_tags git;
             env = AList.update ''HAVE_NS3_REPO'' (py_bool has_ns3_tags)
                     (AList.update ''HAVE_GIT_REPO'' (py_bool has_git_repo) env)
         in if has_ns3_tags then Inr env
            else (case caches of [] \<Rightarrow> Inl (WafError ''no version information'') | c # cs \<Rightarrow> Inr (merge_fields env c))))"

section \<open>Lemmas about the patterns\<close>

definition number :: "string \<Rightarrow> bool" where
  "number s \<longleftrightarrow> s \<noteq> [] \<and> list_all is_digit s"

lemma takeWhile_block: "list_all p a \<Longrightarrow> s = [] \<or> \<not> p (hd s) \<Longrightarrow> takeWhile p (a @ s) = a \<and> dropWhile p (a @ s) = s"
  by (induction a) (cases s; auto)+

lemma digits_first_number:
  assumes "number ds" "s = [] \<or> \<not> is_digit (hd s)"
  shows "digits_first (ds @ s) = Some (ds, s)"
  using takeWhile_block [of is_digit ds s] assms by (simp add: digits_first_def number_def)

lemma digits_first_numberD: "digits_first s = Some (ds, rest) \<Longrightarrow> number ds"
  by (auto simp: digits_first_def Let_def number_def list_all_iff dest: set_takeWhileD split: if_splits)

lemma strip_solid: "list_all (\<lambda>c. \<not> p c) s \<Longrightarrow> strip_by p s = s"
proof -
  assume "list_all (\<lambda>c. \<not> p c) s"
  then have "\<forall>c \<in> set s. \<not> p c" by (simp add: list_all_iff)
  then have "dropWhile p s = s" "dropWhile p (rev s) = rev s"
    unfolding dropWhile_eq_self_iff by (metis hd_in_set, metis hd_in_set set_rev)
  then show ?thesis by (simp add: strip_by_def)
qed

lemma not_digit [simp]: "\<not> is_digit (CHR ''-'')" "\<not> is_digit (CHR ''.'')" "\<not> is_digit (CHR ''R'')" "\<not> is_digit (CHR ''g'')"
  "\<not> is_digit (CHR ''d'')"
  by (simp_all add: is_digit_def)

lemma digit_not_space: "is_digit c \<Longrightarrow> \<not> py3_space c"
  by (auto simp: is_digit_def py3_space_def)

text \<open>The tags that name a release.\<close>

definition release_tag :: "string \<Rightarrow> string \<Rightarrow> string option \<Rightarrow> string option \<Rightarrow> string" where
  "release_tag major minor patch rc = ''ns-'' @ major @ ''.'' @ minor @
     (case patch of None \<Rightarrow> '''' | Some p \<Rightarrow> ''.'' @ p) @ (case rc of None \<Rightarrow> '''' | Some x \<Rightarrow> ''-RC'' @ x)"

definition release_ok :: "string \<Rightarrow> string \<Rightarrow> string option \<Rightarrow> string option \<Rightarrow> bool" where
  "release_ok major minor patch rc \<longleftrightarrow> number major \<and> number minor \<and> pred_option number patch \<and>
     pred_option (\<lambda>x. x \<noteq> [] \<and> list_all (\<lambda>c. \<not> py3_space c) x) rc"

lemma number_solid: "number s \<Longrightarrow> list_all (\<lambda>c. \<not> py3_space c) s"
  by (simp add: number_def list_all_iff digit_not_space)

lemma letters_solid: "\<not> py3_space (CHR ''n'')" "\<not> py3_space (CHR ''s'')" "\<not> py3_space (CHR ''-'')" "\<not> py3_space (CHR ''.'')"
  "\<not> py3_space (CHR ''R'')" "\<not> py3_space (CHR ''C'')"
  by (simp_all add: py3_space_def)

lemma release_tag_solid: "release_ok major minor patch rc \<Longrightarrow> list_all (\<lambda>c. \<not> py3_space c) (release_tag major minor patch rc)"
  unfolding release_tag_def release_ok_def list_all_append
  by (cases patch; cases rc) (simp_all only: number_solid letters_solid list_all_append option.case option.pred_inject list.pred_inject simp_thms)

lemma match_candidate_release:
  assumes "pred_option (\<lambda>x. x \<noteq> [] \<and> list_all (\<lambda>c. \<not> py3_space c) x) rc"
  shows "match_candidate (case rc of None \<Rightarrow> '''' | Some x \<Rightarrow> ''-RC'' @ x) = map_option (\<lambda>x. ''RC'' @ x) rc"
proof (cases rc)
  case (Some x)
  then have x: "x \<noteq> []" "\<forall>c \<in> set x. c \<noteq> nl" using assms by (auto simp: list_all_iff py3_space_def)
  have tw: "takeWhile (\<lambda>c. c \<noteq> nl) x = x" using x(2) by (simp add: takeWhile_eq_all_conv)
  show ?thesis using Some x(1) by (simp add: match_candidate_def startswith_def tw)
qed (simp add: match_candidate_def startswith_def)

lemma match_patch_release:
  assumes "pred_option number patch"
  shows "match_patch ((case patch of None \<Rightarrow> '''' | Some p \<Rightarrow> ''.'' @ p) @ (case rc of None \<Rightarrow> '''' | Some x \<Rightarrow> ''-RC'' @ x)) =
    (patch, case rc of None \<Rightarrow> '''' | Some x \<Rightarrow> ''-RC'' @ x)"
proof (cases patch)
  case None
  then show ?thesis by (cases rc) (simp_all add: match_patch_def digits_first_def Let_def)
next
  case (Some p)
  have "digits_first (p @ (case rc of None \<Rightarrow> '''' | Some x \<Rightarrow> ''-RC'' @ x)) = Some (p, case rc of None \<Rightarrow> '''' | Some x \<Rightarrow> ''-RC'' @ x)"
    using assms Some by (intro digits_first_number) (auto split: option.splits)
  then show ?thesis using Some by (simp add: match_patch_def)
qed

lemma match_release:
  assumes "release_ok major minor patch rc"
  shows "match_version (release_tag major minor patch rc) =
    Some \<lparr>vm_major = major, vm_minor = minor, vm_patch = patch, vm_candidate = map_option (\<lambda>x. ''RC'' @ x) rc\<rparr>"
proof -
  let ?rc = "case rc of None \<Rightarrow> '''' | Some x \<Rightarrow> ''-RC'' @ x" and ?p = "case patch of None \<Rightarrow> '''' | Some p \<Rightarrow> ''.'' @ p"
  have "?p @ ?rc = [] \<or> \<not> is_digit (hd (?p @ ?rc))" by (auto split: option.splits)
  then have "digits_first (minor @ ?p @ ?rc) = Some (minor, ?p @ ?rc)"
    "digits_first (major @ ''.'' @ minor @ ?p @ ?rc) = Some (major, ''.'' @ minor @ ?p @ ?rc)"
    using assms by (intro digits_first_number; simp add: release_ok_def)+
  then show ?thesis
    using match_patch_release [of patch rc] match_candidate_release [of rc] assms
    by (simp add: match_version_def release_tag_def startswith_def release_ok_def)
qed

lemma hex_block: "list_all is_hex h \<Longrightarrow> rest = [] \<or> \<not> is_hex (hd rest) \<Longrightarrow> takeWhile is_hex (h @ rest) = h \<and> dropWhile is_hex (h @ rest) = rest"
  by (rule takeWhile_block)

definition dirty_mark :: "bool \<Rightarrow> string" where
  "dirty_mark dirty = (if dirty then ''-dirty'' else '''')"

definition describe_tail :: "string \<Rightarrow> string \<Rightarrow> bool \<Rightarrow> string" where
  "describe_tail d h dirty = ''-'' @ d @ ''-g'' @ h @ dirty_mark dirty @ [nl]"

lemma match_distance_tail:
  assumes "number d" "h \<noteq> []" "list_all is_hex h"
  shows "match_distance (describe_tail d h dirty) = Some (d, CHR ''g'' # h, dirty)"
proof -
  have "digits_first (d @ ''-g'' @ h @ dirty_mark dirty @ [nl]) = Some (d, ''-g'' @ h @ dirty_mark dirty @ [nl])"
    by (rule digits_first_number [OF assms(1)]) simp
  moreover have "takeWhile is_hex (h @ dirty_mark dirty @ [nl]) = h \<and> dropWhile is_hex (h @ dirty_mark dirty @ [nl]) = dirty_mark dirty @ [nl]"
    using assms(3) by (rule hex_block) (simp add: dirty_mark_def is_hex_def)
  ultimately show ?thesis using assms(2)
    by (simp add: match_distance_def describe_tail_def startswith_def dirty_mark_def)
qed

text \<open>No later split of the line fits: what follows a later hyphen does not start with a digit.\<close>

lemma match_distance_start: "match_distance s \<noteq> None \<Longrightarrow> \<exists>c cs. s = CHR ''-'' # c # cs \<and> is_digit c"
proof -
  assume m: "match_distance s \<noteq> None"
  then obtain cs where s: "s = CHR ''-'' # cs" by (cases s) (auto simp: match_distance_def startswith_def split: if_splits)
  with m have "digits_first cs \<noteq> None" by (auto simp: match_distance_def startswith_def split: option.splits)
  then show ?thesis using s by (cases cs) (auto simp: digits_first_def Let_def split: if_splits)
qed

fun no_pair :: "string \<Rightarrow> bool" where
  "no_pair (x # y # zs) \<longleftrightarrow> \<not> (x = CHR ''-'' \<and> is_digit y) \<and> no_pair (y # zs)"
| "no_pair _ \<longleftrightarrow> True"

lemma no_pair_append: "CHR ''-'' \<notin> set a \<Longrightarrow> no_pair (a @ s) = no_pair s"
proof (induction a)
  case (Cons x a)
  then show ?case by (cases "a @ s") auto
qed simp

lemma no_pair_drop: "no_pair s \<Longrightarrow> no_pair (drop j s)"
proof (induction s arbitrary: j)
  case (Cons x s)
  then have "no_pair s" by (cases s) simp_all
  then show ?case using Cons by (cases j) simp_all
qed simp

lemma no_pair_distance: "no_pair s \<Longrightarrow> match_distance s = None"
  using match_distance_start [of s] by fastforce

lemma number_chars: "number d \<Longrightarrow> CHR ''-'' \<notin> set d \<and> nl \<notin> set d"
  by (auto simp: number_def list_all_iff is_digit_def)

lemma hex_chars: "list_all is_hex h \<Longrightarrow> CHR ''-'' \<notin> set h \<and> nl \<notin> set h"
  by (auto simp: list_all_iff is_hex_def)

lemma no_later_split:
  assumes "number d" "list_all is_hex h"
  shows "match_distance (drop (Suc j) (describe_tail d h dirty)) = None"
proof -
  have "no_pair (dirty_mark dirty @ [nl])" by (simp add: dirty_mark_def)
  then have "no_pair (CHR ''g'' # h @ dirty_mark dirty @ [nl])"
    using no_pair_append [of "CHR ''g'' # h"] hex_chars [OF assms(2)] by simp
  then have "no_pair (''-g'' @ h @ dirty_mark dirty @ [nl])" by simp
  then have "no_pair (d @ ''-g'' @ h @ dirty_mark dirty @ [nl])" using no_pair_append [of d] number_chars [OF assms(1)] by blast
  then show ?thesis unfolding describe_tail_def append_Cons append_Nil drop_Suc_Cons by (intro no_pair_distance no_pair_drop)
qed

lemma find_last: "a \<le> k \<Longrightarrow> k < b \<Longrightarrow> P k \<Longrightarrow> (\<And>j. k < j \<Longrightarrow> \<not> P j) \<Longrightarrow> find P (rev [a..<b]) = Some k"
proof (induction b)
  case (Suc b)
  then show ?case by (cases "k = b") simp_all
qed simp

lemma match_described:
  assumes "tag \<noteq> []" "nl \<notin> set tag" "number d" "h \<noteq> []" "list_all is_hex h"
  shows "match_describe (tag @ describe_tail d h dirty) = Some (tag, d, CHR ''g'' # h, dirty)"
proof -
  let ?out = "tag @ describe_tail d h dirty"
  have line: "length (takeWhile (\<lambda>c. c \<noteq> nl) ?out) \<ge> length tag"
  proof -
    have "\<And>c. c \<in> set tag \<Longrightarrow> c \<noteq> nl" using assms(2) by auto
    then show ?thesis by (subst takeWhile_append2) simp_all
  qed
  have no: "match_distance (drop j ?out) = None" if "length tag < j" for j
  proof -
    have "drop j ?out = drop (Suc (j - Suc (length tag))) (describe_tail d h dirty)" using that by (simp add: Suc_diff_Suc)
    then show ?thesis using no_later_split [OF assms(3,5)] by simp
  qed
  have yes: "match_distance (drop (length tag) ?out) = Some (d, CHR ''g'' # h, dirty)"
    using match_distance_tail [OF assms(3,4,5)] by simp
  have "find (\<lambda>k. match_distance (drop k ?out) \<noteq> None) (rev [1..<Suc (length (takeWhile (\<lambda>c. c \<noteq> nl) ?out))]) = Some (length tag)"
  proof (rule find_last)
    show "1 \<le> length tag" using assms(1) by (cases tag) simp_all
    show "length tag < Suc (length (takeWhile (\<lambda>c. c \<noteq> nl) ?out))" using line by simp
    show "match_distance (drop (length tag) ?out) \<noteq> None" unfolding yes by simp
    show "\<not> match_distance (drop j ?out) \<noteq> None" if "length tag < j" for j unfolding no [OF that] by simp
  qed
  then show ?thesis unfolding match_describe_def using yes by simp
qed

section \<open>Lemmas about the task\<close>

abbreviation describe_keys :: "string list" where
  "describe_keys \<equiv> [''CLOSEST_TAG'', ''VERSION_TAG_DISTANCE'', ''VERSION_COMMIT_HASH'', ''VERSION_DIRTY_FLAG'']"

abbreviation tag_keys :: "string list" where
  "tag_keys \<equiv> [''VERSION_TAG'', ''VERSION_MAJOR'', ''VERSION_MINOR'', ''VERSION_PATCH'', ''VERSION_RELEASE_CANDIDATE'']"

lemma match_patch_number: "match_patch s = (p, r) \<Longrightarrow> pred_option number p"
  by (auto simp: match_patch_def split: if_splits option.splits list.splits dest: digits_first_numberD)

lemma match_version_numbers:
  assumes "match_version s = Some m"
  shows "number (vm_major m) \<and> number (vm_minor m) \<and> pred_option number (vm_patch m)"
proof -
  from assms obtain major s1 where major: "digits_first (drop 3 s) = Some (major, s1)"
    by (auto simp: match_version_def split: if_splits option.splits)
  with assms obtain minor s2 where minor: "digits_first (drop 1 s1) = Some (minor, s2)"
    by (auto simp: match_version_def split: if_splits option.splits)
  obtain patch s3 where patch: "match_patch s2 = (patch, s3)" by (cases "match_patch s2")
  have "m = \<lparr>vm_major = major, vm_minor = minor, vm_patch = patch, vm_candidate = match_candidate s3\<rparr>"
    using assms major minor patch by (simp add: match_version_def split: if_splits)
  then show ?thesis using digits_first_numberD [OF major] digits_first_numberD [OF minor] match_patch_number [OF patch] by simp
qed

definition carries :: "string list \<Rightarrow> fields \<Rightarrow> bool" where
  "carries ks fs \<longleftrightarrow> list_all (\<lambda>k. map_of fs k \<noteq> None) ks"

lemma carries_mono: "carries ks fs \<Longrightarrow> map_of fs \<subseteq>\<^sub>m map_of fs' \<or> dom (map_of fs) \<subseteq> dom (map_of fs') \<Longrightarrow> carries ks fs'"
  unfolding carries_def list_all_iff by (metis domIff map_le_implies_dom_le subsetD)

definition versioned :: "fields \<Rightarrow> bool" where
  "versioned fs \<longleftrightarrow> carries tag_keys fs \<and>
     (\<forall>k \<in> {''VERSION_MAJOR'', ''VERSION_MINOR'', ''VERSION_PATCH''}. pred_option number (map_of fs k))"

lemma parse_version_tag_fields:
  assumes "parse_version_tag tag fs = (ok, fs')"
  shows "dom (map_of fs) \<subseteq> dom (map_of fs') \<and> (if ok then versioned fs' else fs' = fs)"
proof (cases "match_version (py_strip tag)")
  case None
  then show ?thesis using assms by (auto simp: parse_version_tag_def)
next
  case (Some m)
  have "number ''0''" by (simp add: number_def is_digit_def)
  then have "number (non_empty (vm_patch m) ''0'')"
    using match_version_numbers [OF Some] by (cases "vm_patch m") (simp_all add: non_empty_def)
  then show ?thesis using assms match_version_numbers [OF Some] Some
    by (auto simp: parse_version_tag_def set_field_def Let_def versioned_def carries_def)
qed

lemma closest_tag_fields:
  assumes "find_closest_tag git [] = Inr fs"
  shows "carries describe_keys fs \<and> (map_of fs ''VERSION_TAG'' \<noteq> None \<longrightarrow> versioned fs)"
proof -
  from assms obtain tag distance hash dirty where
    "fs = snd (parse_version_tag tag (set_field ''VERSION_DIRTY_FLAG'' (if dirty then ''1'' else ''0'')
        (set_field ''VERSION_COMMIT_HASH'' (quoted hash)
          (set_field ''VERSION_TAG_DISTANCE'' distance (set_field ''CLOSEST_TAG'' (quoted tag) [])))))"
    by (auto simp: find_closest_tag_def split: option.splits)
  moreover define fs0 where "fs0 = set_field ''VERSION_DIRTY_FLAG'' (if dirty then ''1'' else ''0'')
        (set_field ''VERSION_COMMIT_HASH'' (quoted hash)
          (set_field ''VERSION_TAG_DISTANCE'' distance (set_field ''CLOSEST_TAG'' (quoted tag) [])))"
  ultimately have fs: "parse_version_tag tag fs0 = (fst (parse_version_tag tag fs0), fs)" by simp
  have "carries describe_keys fs0" "map_of fs0 ''VERSION_TAG'' = None" by (simp_all add: fs0_def set_field_def carries_def)
  then show ?thesis using parse_version_tag_fields [OF fs] carries_mono [of describe_keys fs0 fs]
    by (cases "fst (parse_version_tag tag fs0)") simp_all
qed

lemma map_of_merge:
  "distinct (keys fs) \<Longrightarrow> map_of (merge_fields env fs) k = (case map_of fs k of Some v \<Rightarrow> Some v | None \<Rightarrow> map_of env k)"
proof (induction fs arbitrary: env)
  case (Cons x fs)
  obtain a b where "x = (a, b)" by (cases x)
  then show ?case using Cons by (auto simp: merge_fields_def split: option.splits dest: map_of_SomeD intro: rev_image_eqI)
qed (simp add: merge_fields_def)

lemma parse_version_tag_distinct: "distinct (keys fs) \<Longrightarrow> distinct (keys (snd (parse_version_tag tag fs)))"
  by (simp add: parse_version_tag_def set_field_def Let_def split: option.splits)

lemma find_closest_tag_distinct: "find_closest_tag git [] = Inr fs \<Longrightarrow> distinct (keys fs)"
  by (auto simp: find_closest_tag_def set_field_def intro!: parse_version_tag_distinct split: option.splits)

lemma ns3_tag_fields:
  assumes "find_closest_ns3_tag git fs = Inr fs'" "distinct (keys fs)"
  shows "dom (map_of fs) \<subseteq> dom (map_of fs') \<and> versioned fs' \<and> distinct (keys fs')"
proof -
  from assms(1) obtain tag where "parse_version_tag tag fs = (True, fs')"
    by (auto simp: find_closest_ns3_tag_def split: option.splits prod.splits bool.splits)
  then show ?thesis using parse_version_tag_fields [of tag fs True fs'] parse_version_tag_distinct [OF assms(2), of tag] by simp
qed

lemma version_run_cases:
  obtains (failed) "version_run store git env = (1, env)"
  | (broken) fs left where "store fs = Write_fails left" "version_run store git env = (1, env\<lparr>cache_file := left\<rparr>)"
  | (stored) fs where "version_run store git env = (0, \<lparr>ctx_env = merge_fields (ctx_env env) fs, cache_file = Some fs\<rparr>)"
      "carries describe_keys fs" "versioned fs" "distinct (keys fs)"
proof (cases "rbind (find_closest_tag git []) (\<lambda>fs.
    if map_of fs ''VERSION_TAG'' \<noteq> None then Inr fs else find_closest_ns3_tag git fs)")
  case (Inl e)
  then show thesis using failed by (simp add: version_run_def)
next
  case (Inr fs)
  then obtain fs0 where fs0: "find_closest_tag git [] = Inr fs0"
    "(if map_of fs0 ''VERSION_TAG'' \<noteq> None then Inr fs0 else find_closest_ns3_tag git fs0) = Inr fs"
    unfolding rbind_eq_Inr by blast
  then have fs: "fs = fs0 \<and> map_of fs0 ''VERSION_TAG'' \<noteq> None \<or>
      map_of fs0 ''VERSION_TAG'' = None \<and> find_closest_ns3_tag git fs0 = Inr fs"
    by (cases "map_of fs0 ''VERSION_TAG'' = None") simp_all
  note base = closest_tag_fields [OF fs0(1)] find_closest_tag_distinct [OF fs0(1)]
  have "carries describe_keys fs \<and> versioned fs \<and> distinct (keys fs)"
    using fs base ns3_tag_fields [of git fs0 fs] carries_mono by blast
  then show thesis using Inr failed broken [of fs] stored [of fs]
    by (cases "store fs") (simp_all add: version_run_def)
qed

lemma parse_release:
  assumes "release_ok major minor patch rc"
  shows "parse_version_tag (release_tag major minor patch rc) fs = (True,
    set_field ''VERSION_RELEASE_CANDIDATE'' (quoted (case rc of None \<Rightarrow> '''' | Some x \<Rightarrow> ''RC'' @ x))
      (set_field ''VERSION_PATCH'' (case patch of None \<Rightarrow> ''0'' | Some p \<Rightarrow> p)
        (set_field ''VERSION_MINOR'' minor (set_field ''VERSION_MAJOR'' major
          (set_field ''VERSION_TAG'' (quoted (release_tag major minor patch rc)) fs)))))"
proof -
  have ne: "non_empty patch ''0'' = (case patch of None \<Rightarrow> ''0'' | Some p \<Rightarrow> p)"
    "non_empty (map_option (\<lambda>x. ''RC'' @ x) rc) '''' = (case rc of None \<Rightarrow> '''' | Some x \<Rightarrow> ''RC'' @ x)"
    using assms by (auto simp: non_empty_def release_ok_def number_def split: option.splits)
  show ?thesis
    unfolding parse_version_tag_def Let_def strip_solid [OF release_tag_solid [OF assms]] match_release [OF assms]
      option.case version_match.simps ne by (rule refl)
qed

section \<open>Properties\<close>

text \<open>
  C24: when \<open>git describe\<close> answers with a release tag, its distance and hash, and the cache file can be
  written, the version task returns 0; the cache holds exactly the nine fields with the numbers of the tag, the
  distance, the hash and the dirty flag, and exactly these are put into the build environment.\<close>
theorem version_run_release:
  assumes "release_ok major minor patch rc" "number d" "h \<noteq> []" "list_all is_hex h"
    and "git describe_cmd = Some (release_tag major minor patch rc @ describe_tail d h dirty)"
    and "\<And>fs. store fs = Stored"
  shows "\<exists>env' fs. version_run store git env = (0, env') \<and> cache_file env' = Some fs \<and>
    map_of fs = map_of [(''VERSION_MAJOR'', major), (''VERSION_MINOR'', minor),
        (''VERSION_PATCH'', case patch of None \<Rightarrow> ''0'' | Some p \<Rightarrow> p),
        (''VERSION_RELEASE_CANDIDATE'', quoted (case rc of None \<Rightarrow> '''' | Some x \<Rightarrow> ''RC'' @ x)),
        (''VERSION_TAG'', quoted (release_tag major minor patch rc)), (''CLOSEST_TAG'', quoted (release_tag major minor patch rc)),
        (''VERSION_TAG_DISTANCE'', d), (''VERSION_COMMIT_HASH'', quoted (''g'' @ h)), (''VERSION_DIRTY_FLAG'', if dirty then ''1'' else ''0'')] \<and>
    map_of (ctx_env env') = map_of (ctx_env env) ++ map_of fs"
proof -
  let ?tag = "release_tag major minor patch rc"
  note solid = release_tag_solid [OF assms(1)]
  have "?tag \<noteq> []" by (simp add: release_tag_def)
  moreover have "nl \<notin> set ?tag" using solid by (auto simp: list_all_iff py3_space_def)
  ultimately have m: "match_describe (?tag @ describe_tail d h dirty) = Some (?tag, d, CHR ''g'' # h, dirty)"
    using assms(2-4) by (rule match_described)
  have "parse_version_tag ?tag fs = (True,
    set_field ''VERSION_RELEASE_CANDIDATE'' (quoted (case rc of None \<Rightarrow> '''' | Some x \<Rightarrow> ''RC'' @ x))
      (set_field ''VERSION_PATCH'' (case patch of None \<Rightarrow> ''0'' | Some p \<Rightarrow> p)
        (set_field ''VERSION_MINOR'' minor (set_field ''VERSION_MAJOR'' major (set_field ''VERSION_TAG'' (quoted ?tag) fs)))))" for fs
    by (rule parse_release [OF assms(1)])
  then obtain fs where run: "find_closest_tag git [] = Inr fs" and fs:
    "map_of fs = [''VERSION_RELEASE_CANDIDATE'' \<mapsto> quoted (case rc of None \<Rightarrow> '''' | Some x \<Rightarrow> ''RC'' @ x),
       ''VERSION_PATCH'' \<mapsto> case patch of None \<Rightarrow> ''0'' | Some p \<Rightarrow> p, ''VERSION_MINOR'' \<mapsto> minor, ''VERSION_MAJOR'' \<mapsto> major,
       ''VERSION_TAG'' \<mapsto> quoted ?tag, ''VERSION_DIRTY_FLAG'' \<mapsto> if dirty then ''1'' else ''0'',
       ''VERSION_COMMIT_HASH'' \<mapsto> quoted (CHR ''g'' # h), ''VERSION_TAG_DISTANCE'' \<mapsto> d, ''CLOSEST_TAG'' \<mapsto> quoted ?tag]"
    unfolding find_closest_tag_def assms(5) option.case m prod.case by (simp add: set_field_def)
  have "version_run store git env = (0, \<lparr>ctx_env = merge_fields (ctx_env env) fs, cache_file = Some fs\<rparr>)"
    using run fs assms(6) by (simp add: version_run_def)
  moreover have "map_of (merge_fields (ctx_env env) fs) = map_of (ctx_env env) ++ map_of fs"
    by (rule ext) (simp add: map_of_merge [OF find_closest_tag_distinct [OF run]] map_add_def)
  moreover have "map_of fs = map_of [(''VERSION_MAJOR'', major), (''VERSION_MINOR'', minor),
        (''VERSION_PATCH'', case patch of None \<Rightarrow> ''0'' | Some p \<Rightarrow> p),
        (''VERSION_RELEASE_CANDIDATE'', quoted (case rc of None \<Rightarrow> '''' | Some x \<Rightarrow> ''RC'' @ x)),
        (''VERSION_TAG'', quoted ?tag), (''CLOSEST_TAG'', quoted ?tag),
        (''VERSION_TAG_DISTANCE'', d), (''VERSION_COMMIT_HASH'', quoted (''g'' @ h)), (''VERSION_DIRTY_FLAG'', if dirty then ''1'' else ''0'')]"
    unfolding fs by (rule ext) simp
  ultimately show ?thesis by simp
qed

theorem version_run_release_witness:
  "\<exists>env' fs. version_run (\<lambda>fs. Stored) (\<lambda>cmd. Some (''ns-3.35-RC1-12-gab1f-dirty'' @ [nl])) \<lparr>ctx_env = [], cache_file = None\<rparr> = (0, env') \<and>
     cache_file env' = Some fs \<and> map_of fs ''VERSION_MINOR'' = Some ''35'' \<and> map_of (ctx_env env') ''VERSION_PATCH'' = Some ''0''"
proof -
  have "release_ok ''3'' ''35'' None (Some ''1'')" "number ''12''" "list_all is_hex ''ab1f''"
    by (simp_all add: release_ok_def number_def is_digit_def py3_space_def is_hex_def)
  from version_run_release [OF this(1,2) _ this(3), of "\<lambda>cmd. Some (''ns-3.35-RC1-12-gab1f-dirty'' @ [nl])" True
      "\<lambda>fs. Stored" "\<lparr>ctx_env = [], cache_file = None\<rparr>"]
  show ?thesis by (auto simp: release_tag_def describe_tail_def dirty_mark_def)
qed

text \<open>
  C37: the version task is all or nothing: either it answers 1 and leaves environment and cache alone (a
  write of the cache that fails half-way leaves the environment alone, and in the file what that write
  leaves), or it answers 0, the cache holds all nine fields, with major, minor and patch numbers made of digits, and
  the environment agrees with the cache.\<close>
theorem version_run_fields:
  "version_run store git env = (1, env) \<or>
   (\<exists>fs left. store fs = Write_fails left \<and> version_run store git env = (1, env\<lparr>cache_file := left\<rparr>)) \<or>
   (\<exists>fs env'. version_run store git env = (0, env') \<and> cache_file env' = Some fs \<and> carries (describe_keys @ tag_keys) fs \<and>
      list_all (\<lambda>k. pred_option number (map_of fs k)) [''VERSION_MAJOR'', ''VERSION_MINOR'', ''VERSION_PATCH''] \<and>
      map_of (ctx_env env') = map_of (ctx_env env) ++ map_of fs)"
proof (cases rule: version_run_cases [of store git env])
  case (stored fs)
  have "map_of (merge_fields (ctx_env env) fs) = map_of (ctx_env env) ++ map_of fs"
    by (rule ext) (simp add: map_of_merge [OF stored(4)] map_add_def)
  then show ?thesis using stored(1-3) by (simp add: versioned_def carries_def)
qed auto

text \<open>The pattern does not escape the second dot: any character may introduce the patch number.\<close>

lemma patch_after_hyphen: "map_option vm_patch (match_version ''ns-3.35-1'') = Some (Some ''1'')"
  by code_simp

end
