(* ===== verification/ModuleTemplates.thy ===== *)
theory ModuleTemplates
  imports PyLib
begin

text \<open>
  The file templates of \<^verbatim>\<open>utils/create-module.py\<close>, each as the list of its lines (the text is the lines
  joined by newlines).
\<close>

definition WSCRIPT_TEMPLATE :: "string list" where
  "WSCRIPT_TEMPLATE =
    [''# -*- Mode: python; py-indent-offset: 4; indent-tabs-mode: nil; coding: utf-8; -*-'',
     '''',
     ''# def options(opt):'',
     ''#     pass'',
     '''',
     ''# def configure(conf):'',
     ''#     conf.check_nonfatal(header_name='' @ [squote] @ ''stdint.h'' @ [squote] @ '', define_name='' @ [squote] @ ''HAVE_STDINT_H'' @ [squote] @ '')'',
     '''',
     ''def build(bld):'',
     ''    module = bld.create_ns3_module({MODULE!r}, ['' @ [squote] @ ''core'' @ [squote] @ ''])'',
     ''    module.source = ['',
     ''        '' @ [squote] @ ''model/{MODULE}.cc'' @ [squote] @ '','',
     ''        '' @ [squote] @ ''helper/{MODULE}-helper.cc'' @ [squote] @ '','',
     ''        ]'',
     '''',
     ''    module_test = bld.create_ns3_module_test_library('' @ [squote] @ ''{MODULE}'' @ [squote] @ '')'',
     ''    module_test.source = ['',
     ''        '' @ [squote] @ ''test/{MODULE}-test-suite.cc'' @ [squote] @ '','',
     ''        ]'',
     ''    # Tests encapsulating example programs should be listed here'',
     ''    if (bld.env['' @ [squote] @ ''ENABLE_EXAMPLES'' @ [squote] @ '']):'',
     ''        module_test.source.extend(['',
     ''        #    '' @ [squote] @ ''test/{MODULE}-examples-test-suite.cc'' @ [squote] @ '','',
     ''             ])'',
     '''',
     ''    headers = bld(features='' @ [squote] @ ''ns3header'' @ [squote] @ '')'',
     ''    headers.module = {MODULE!r}'',
     ''    headers.source = ['',
     ''        '' @ [squote] @ ''model/{MODULE}.h'' @ [squote] @ '','',
     ''        '' @ [squote] @ ''helper/{MODULE}-helper.h'' @ [squote] @ '','',
     ''        ]'',
     '''',
     ''    if bld.env.ENABLE_EXAMPLES:'',
     ''        bld.recurse('' @ [squote] @ ''examples'' @ [squote] @ '')'',
     '''',
     ''    # bld.ns3_python_bindings()'',
     '''',
     '''']"

definition MODEL_CC_TEMPLATE :: "string list" where
  "MODEL_CC_TEMPLATE =
    [''/* -*- Mode:C++; c-file-style:'' @ [dquote] @ ''gnu'' @ [dquote] @ ''; indent-tabs-mode:nil; -*- */'',
     '''',
     ''#include '' @ [dquote] @ ''{MODULE}.h'' @ [dquote],
     '''',
     ''namespace ns3 {{'',
     '''',
     ''/* ... */'',
     '''',
     '''',
     ''}}'',
     '''',
     '''']"

definition MODEL_H_TEMPLATE :: "string list" where
  "MODEL_H_TEMPLATE =
    [''/* -*- Mode:C++; c-file-style:'' @ [dquote] @ ''gnu'' @ [dquote] @ ''; indent-tabs-mode:nil; -*- */'',
     ''#ifndef {INCLUDE_GUARD}'',
     ''#define {INCLUDE_GUARD}'',
     '''',
     ''namespace ns3 {{'',
     '''',
     ''/* ... */'',
     '''',
     ''}}'',
     '''',
     ''#endif /* {INCLUDE_GUARD} */'',
     '''',
     '''']"

definition HELPER_CC_TEMPLATE :: "string list" where
  "HELPER_CC_TEMPLATE =
    [''/* -*- Mode:C++; c-file-style:'' @ [dquote] @ ''gnu'' @ [dquote] @ ''; indent-tabs-mode:nil; -*- */'',
     '''',
     ''#include '' @ [dquote] @ ''{MODULE}-helper.h'' @ [dquote],
     '''',
     ''namespace ns3 {{'',
     '''',
     ''/* ... */'',
     '''',
     '''',
     ''}}'',
     '''',
     '''']"

definition HELPER_H_TEMPLATE :: "string list" where
  "HELPER_H_TEMPLATE =
    [''/* -*- Mode:C++; c-file-style:'' @ [dquote] @ ''gnu'' @ [dquote] @ ''; indent-tabs-mode:nil; -*- */'',
     ''#ifndef {INCLUDE_GUARD}'',
     ''#define {INCLUDE_GUARD}'',
     '''',
     ''#include '' @ [dquote] @ ''ns3/{MODULE}.h'' @ [dquote],
     '''',
     ''namespace ns3 {{'',
     '''',
     ''/* ... */'',
     '''',
     ''}}'',
     '''',
     ''#endif /* {INCLUDE_GUARD} */'',
     '''',
     '''']"

definition EXAMPLES_WSCRIPT_TEMPLATE :: "string list" where
  "EXAMPLES_WSCRIPT_TEMPLATE =
    [''# -*- Mode: python; py-indent-offset: 4; indent-tabs-mode: nil; coding: utf-8; -*-'',
     '''',
     ''def build(bld):'',
     ''    obj = bld.create_ns3_program('' @ [squote] @ ''{MODULE}-example'' @ [squote] @ '', [{MODULE!r}])'',
     ''    obj.source = '' @ [squote] @ ''{MODULE}-example.cc'' @ [squote],
     '''',
     '''']"

definition EXAMPLE_CC_TEMPLATE :: "string list" where
  "EXAMPLE_CC_TEMPLATE =
    [''/* -*- Mode:C++; c-file-style:'' @ [dquote] @ ''gnu'' @ [dquote] @ ''; indent-tabs-mode:nil; -*- */'',
     '''',
     ''#include '' @ [dquote] @ ''ns3/core-module.h'' @ [dquote],
     ''#include '' @ [dquote] @ ''ns3/{MODULE}-helper.h'' @ [dquote],
     '''',
     ''using namespace ns3;'',
     '''',
     '''',
     ''int '',
     ''main (int argc, char *argv[])'',
     ''{{'',
     ''  bool verbose = true;'',
     '''',
     ''  CommandLine cmd (__FILE__);'',
     ''  cmd.AddValue ('' @ [dquote] @ ''verbose'' @ [dquote] @ '', '' @ [dquote] @ ''Tell application to log if true'' @ [dquote] @ '', verbose);'',
     '''',
     ''  cmd.Parse (argc,argv);'',
     '''',
     ''  /* ... */'',
     '''',
     ''  Simulator::Run ();'',
     ''  Simulator::Destroy ();'',
     ''  return 0;'',
     ''}}'',
     '''',
     '''',
     '''']"

definition TEST_CC_TEMPLATE :: "string list" where
  "TEST_CC_TEMPLATE =
    [''/* -*- Mode:C++; c-file-style:'' @ [dquote] @ ''gnu'' @ [dquote] @ ''; indent-tabs-mode:nil; -*- */'',
     '''',
     ''// Include a header file from your module to test.'',
     ''#include '' @ [dquote] @ ''ns3/{MODULE}.h'' @ [dquote],
     '''',
     ''// An essential include is test.h'',
     ''#include '' @ [dquote] @ ''ns3/test.h'' @ [dquote],
     '''',
     ''// Do not put your test classes in namespace ns3.  You may find it useful'',
     ''// to use the using directive to access the ns3 namespace directly'',
     ''using namespace ns3;'',
     '''',
     ''// This is an example TestCase.'',
     ''class {CAPITALIZED}TestCase1 : public TestCase'',
     ''{{'',
     ''public:'',
     ''  {CAPITALIZED}TestCase1 ();'',
     ''  virtual ~{CAPITALIZED}TestCase1 ();'',
     '''',
     ''private:'',
     ''  virtual void DoRun (void);'',
     ''}};'',
     '''',
     ''// Add some help text to this case to describe what it is intended to test'',
     ''{CAPITALIZED}TestCase1::{CAPITALIZED}TestCase1 ()'',
     ''  : TestCase ('' @ [dquote] @ ''{CAPITALIZED} test case (does nothing)'' @ [dquote] @ '')'',
     ''{{'',
     ''}}'',
     '''',
     ''// This destructor does nothing but we include it as a reminder that'',
     ''// the test case should clean up after itself'',
     ''{CAPITALIZED}TestCase1::~{CAPITALIZED}TestCase1 ()'',
     ''{{'',
     ''}}'',
     '''',
     ''//'',
     ''// This method is the pure virtual method from class TestCase that every'',
     ''// TestCase must implement'',
     ''//'',
     ''void'',
     ''{CAPITALIZED}TestCase1::DoRun (void)'',
     ''{{'',
     ''  // A wide variety of test macros are available in src/core/test.h'',
     ''  NS_TEST_ASSERT_MSG_EQ (true, true, '' @ [dquote] @ ''true doesn'' @ [squote] @ ''t equal true for some reason'' @ [dquote] @ '');'',
     ''  // Use this one for floating point comparisons'',
     ''  NS_TEST_ASSERT_MSG_EQ_TOL (0.01, 0.01, 0.001, '' @ [dquote] @ ''Numbers are not equal within tolerance'' @ [dquote] @ '');'',
     ''}}'',
     '''',
     ''// The TestSuite class names the TestSuite, identifies what type of TestSuite,'',
     ''// and enables the TestCases to be run.  Typically, only the constructor for'',
     ''// this class must be defined'',
     ''//'',
     ''class {CAPITALIZED}TestSuite : public TestSuite'',
     ''{{'',
     ''public:'',
     ''  {CAPITALIZED}TestSuite ();'',
     ''}};'',
     '''',
     ''{CAPITALIZED}TestSuite::{CAPITALIZED}TestSuite ()'',
     ''  : TestSuite ('' @ [dquote] @ ''{MODULE}'' @ [dquote] @ '', UNIT)'',
     ''{{'',
     ''  // TestDuration for TestCase can be QUICK, EXTENSIVE or TAKES_FOREVER'',
     ''  AddTestCase (new {CAPITALIZED}TestCase1, TestCase::QUICK);'',
     ''}}'',
     '''',
     ''// Do not forget to allocate an instance of this TestSuite'',
     ''static {CAPITALIZED}TestSuite s{COMPOUND}TestSuite;'',
     '''',
     '''']"

definition DOC_RST_TEMPLATE :: "string list" where
  "DOC_RST_TEMPLATE =
    [''Example Module Documentation'',
     ''----------------------------'',
     '''',
     ''.. include:: replace.txt'',
     ''.. highlight:: cpp'',
     '''',
     ''.. heading hierarchy:'',
     ''   ------------- Chapter'',
     ''   ************* Section (#.#)'',
     ''   ============= Subsection (#.#.#)'',
     ''   ############# Paragraph (no number)'',
     '''',
     ''This is a suggested outline for adding new module documentation to |ns3|.'',
     ''See '' @ [CHR 0x60, CHR 0x60] @ ''src/click/doc/click.rst'' @ [CHR 0x60, CHR 0x60] @ '' for an example.'',
     '''',
     ''The introductory paragraph is for describing what this code is trying to'',
     ''model.'',
     '''',
     ''For consistency (italicized formatting), please use |ns3| to refer to'',
     ''ns-3 in the documentation (and likewise, |ns2| for ns-2).  These macros'',
     ''are defined in the file '' @ [CHR 0x60, CHR 0x60] @ ''replace.txt'' @ [CHR 0x60, CHR 0x60] @ ''.'',
     '''',
     ''Model Description'',
     ''*****************'',
     '''',
     ''The source code for the new module lives in the directory '' @ [CHR 0x60, CHR 0x60] @ ''{MODULE_DIR}'' @ [CHR 0x60, CHR 0x60] @ ''.'',
     '''',
     ''Add here a basic description of what is being modeled.'',
     '''',
     ''Design'',
     ''======'',
     '''',
     ''Briefly describe the software design of the model and how it fits into '',
     ''the existing ns-3 architecture. '',
     '''',
     ''Scope and Limitations'',
     ''====================='',
     '''',
     ''What can the model do?  What can it not do?  Please use this section to'',
     ''describe the scope and limitations of the model.'',
     '''',
     ''References'',
     ''=========='',
     '''',
     ''Add academic citations here, such as if you published a paper on this'',
     ''model, or if readers should read a particular specification or other work.'',
     '''',
     ''Usage'',
     ''*****'',
     '''',
     ''This section is principally concerned with the usage of your model, using'',
     ''the public API.  Focus first on most common usage patterns, then go'',
     ''into more advanced topics.'',
     '''',
     ''Building New Module'',
     ''==================='',
     '''',
     ''Include this subsection only if there are special build instructions or'',
     ''platform limitations.'',
     '''',
     ''Helpers'',
     ''======='',
     '''',
     ''What helper API will users typically use?  Describe it here.'',
     '''',
     ''Attributes'',
     ''=========='',
     '''',
     ''What classes hold attributes, and what are the key ones worth mentioning?'',
     '''',
     ''Output'',
     ''======'',
     '''',
     ''What kind of data does the model generate?  What are the key trace'',
     ''sources?   What kind of logging output can be enabled?'',
     '''',
     ''Advanced Usage'',
     ''=============='',
     '''',
     ''Go into further details (such as using the API outside of the helpers)'',
     ''in additional sections, as needed.'',
     '''',
     ''Examples'',
     ''========'',
     '''',
     ''What examples using this new code are available?  Describe them here.'',
     '''',
     ''Troubleshooting'',
     ''==============='',
     '''',
     ''Add any tips for avoiding pitfalls, etc.'',
     '''',
     ''Validation'',
     ''**********'',
     '''',
     ''Describe how the model has been tested/validated.  What tests run in the'',
     ''test suite?  How much API and code is covered by the tests?  Again, '',
     ''references to outside published work may help here.'',
     '''']"

end
