(* ===== verification/CreateModule.thy ===== *)
theory CreateModule
  imports ModuleTemplates
begin

text \<open>
  The scaffolding generator \<^verbatim>\<open>utils/create-module.py\<close>: \<open>str.format\<close> on its templates, the
  \<open>make_\<close> functions that write the files of a module, \<open>make_module\<close> which undoes a failed attempt, and
  \<open>main\<close> which checks the names.  A file system is a map from paths (lists of components) to entries,
  together with what the operating system refuses: to create, to remove (which may then have been done in
  part) and to look at.  Strings are ASCII, and
  command-line parsing is left to \<open>argparse\<close>.
\<close>

section \<open>Formatting\<close>

definition hex_digit_of :: "nat \<Rightarrow> char" where
  "hex_digit_of d = (if d < 10 then char_of (48 + d) else char_of (87 + d))"

definition repr_char :: "char \<Rightarrow> char \<Rightarrow> string" where
  "repr_char q c =
     (let n = of_char c :: nat
      in if c = backslash \<or> c = q then [backslash, c]
         else if c = nl then [backslash, CHR ''n''] else if c = tab then [backslash, CHR ''t'']
         else if n = 13 then [backslash, CHR ''r'']
         else if n < 32 \<or> n = 127 then [backslash, CHR ''x'', hex_digit_of (n div 16), hex_digit_of (n mod 16)]
         else [c])"

definition py_repr :: "string \<Rightarrow> string" where
  "py_repr s = (let q = (if squote \<in> set s \<and> dquote \<notin> set s then dquote else squote)
     in [q] @ concat (map (repr_char q) s) @ [q])"

text \<open>A replacement field: a name, with \<open>!r\<close> for its \<open>repr\<close>.  The templates have no other fields.\<close>

definition field_value :: "(string \<times> string) list \<Rightarrow> string \<Rightarrow> string res" where
  "field_value kwargs field =
     (let raw = endswith field ''!r''; name = (if raw then take (length field - 2) field else field)
      in case map_of kwargs name of
           None \<Rightarrow> Inl KeyError
         | Some v \<Rightarrow> Inr (if raw then py_repr v else v))"

function str_format :: "(string \<times> string) list \<Rightarrow> string \<Rightarrow> string res" where
  "str_format kwargs [] = Inr []"
| "str_format kwargs (c # cs) =
     (if c = CHR ''{'' then
        (if take 1 cs = ''{'' then rbind (str_format kwargs (drop 1 cs)) (\<lambda>r. Inr (CHR ''{'' # r))
         else
           (let field = takeWhile (\<lambda>x. x \<noteq> CHR ''}'') cs; rest = dropWhile (\<lambda>x. x \<noteq> CHR ''}'') cs
            in if rest = [] then Inl ValueError
               else rbind (field_value kwargs field) (\<lambda>v.
                    rbind (str_format kwargs (drop 1 rest)) (\<lambda>r. Inr (v @ r)))))
      else if c = CHR ''}'' then
        (if take 1 cs = ''}'' then rbind (str_format kwargs (drop 1 cs)) (\<lambda>r. Inr (CHR ''}'' # r))
         else Inl ValueError)
      else rbind (str_format kwargs cs) (\<lambda>r. Inr (c # r)))"
  by pat_completeness auto
termination
  by (relation "measure (\<lambda>(kw, s). length s)") (auto simp: less_Suc_eq_le intro: le_trans [OF diff_le_self length_dropWhile_le])

declare str_format.simps [simp del]

section \<open>Files\<close>

type_synonym path = "string list"

datatype fs_entry = Dir | File string

record disk =
  entries :: "path \<Rightarrow> fs_entry option"
  refused :: "path \<Rightarrow> bool"
  removable :: "path \<Rightarrow> bool"
  survives :: "path \<Rightarrow> path \<Rightarrow> bool"
  unreadable :: "(path \<Rightarrow> fs_entry option) \<Rightarrow> path \<Rightarrow> bool"

type_synonym 'a disk_op = "disk \<Rightarrow> 'a res \<times> disk"

text \<open>
  \<open>exists\<close> and \<open>is_dir\<close> raise \<open>OSError\<close> when \<open>stat\<close> fails for another reason than a missing entry, such as a
  permission or a name that is too long; this may depend on what is on the disk.\<close>

definition path_exists :: "path \<Rightarrow> bool disk_op" where
  "path_exists p d = (if unreadable d (entries d) p then Inl OSError else Inr (entries d p \<noteq> None), d)"

fun check_dirs :: "path list \<Rightarrow> unit disk_op" where
  "check_dirs [] d = (Inr (), d)"
| "check_dirs (p # ps) d =
     (if unreadable d (entries d) p then (Inl OSError, d)
      else if entries d p \<noteq> Some Dir then (Inl (SystemExit 2), d)
      else check_dirs ps d)"

definition mkdir_one :: "path \<Rightarrow> unit disk_op" where
  "mkdir_one p d =
     (if refused d p \<or> entries d p \<noteq> None \<or> entries d (butlast p) \<noteq> Some Dir then (Inl OSError, d)
      else (Inr (), d\<lparr>entries := (entries d)(p \<mapsto> Dir)\<rparr>))"

text \<open>\<open>mkdir(parents=True)\<close>.\<close>

function mkdir_parents :: "path \<Rightarrow> unit disk_op" where
  "mkdir_parents p d =
     (if p = [] then (Inl OSError, d)
      else if entries d (butlast p) = None then
        (case mkdir_parents (butlast p) d of
           (Inl e, d) \<Rightarrow> (Inl e, d)
         | (Inr _, d) \<Rightarrow> mkdir_one p d)
      else mkdir_one p d)"
  by pat_completeness auto
termination
  by (relation "measure (\<lambda>(p, d). length p)") auto

declare mkdir_parents.simps [simp del]

definition open_wt :: "path \<Rightarrow> unit disk_op" where
  "open_wt p d =
     (if refused d p \<or> entries d p = Some Dir \<or> entries d (butlast p) \<noteq> Some Dir then (Inl OSError, d)
      else (Inr (), d\<lparr>entries := (entries d)(p \<mapsto> File '''')\<rparr>))"

definition create_file :: "path \<Rightarrow> string list \<Rightarrow> (string \<times> string) list \<Rightarrow> unit disk_op" where
  "create_file p template kwargs =
     st_bind (open_wt p) (\<lambda>_ d.
       case str_format kwargs (join_with [nl] template) of
         Inl e \<Rightarrow> (Inl e, d)
       | Inr text \<Rightarrow> (Inr (), d\<lparr>entries := (entries d)(p \<mapsto> File text)\<rparr>))"

text \<open>A removal that fails has removed what does not survive it.\<close>

definition rmtree :: "path \<Rightarrow> unit disk_op" where
  "rmtree p d =
     (if removable d p then (Inr (), d\<lparr>entries := (\<lambda>q. if prefix p q then None else entries d q)\<rparr>)
      else (Inl OSError, d\<lparr>entries := (\<lambda>q. if prefix p q \<and> \<not> survives d p q then None else entries d q)\<rparr>))"

text \<open>\<open>with_suffix\<close>: the part of a name after its last dot is replaced, unless the dot is its first or last character.\<close>

definition with_suffix :: "string \<Rightarrow> string \<Rightarrow> string" where
  "with_suffix name ext =
     (let tail = rev (takeWhile (\<lambda>c. c \<noteq> CHR ''.'') (rev name)); stem = take (length name - length tail - 1) name
      in if CHR ''.'' \<in> set name \<and> tail \<noteq> [] \<and> stem \<noteq> [] then stem @ ext else name @ ext)"

section \<open>The parts of a module\<close>

definition capitalize :: "string \<Rightarrow> string" where
  "capitalize w = (case w of [] \<Rightarrow> [] | c # cs \<Rightarrow> upper_char c # map lower_char cs)"

definition guard_name :: "string \<Rightarrow> string" where
  "guard_name modname = map upper_char (replace_char (CHR ''-'') ''_'' modname)"

definition make_wscript :: "path \<Rightarrow> string \<Rightarrow> bool disk_op" where
  "make_wscript moduledir modname =
     st_bind (create_file (moduledir @ [''wscript'']) WSCRIPT_TEMPLATE [(''MODULE'', modname)]) (\<lambda>_ d. (Inr True, d))"

definition make_model :: "path \<Rightarrow> string \<Rightarrow> bool disk_op" where
  "make_model moduledir modname =
     (let modelpath = moduledir @ [''model'']
      in st_bind (mkdir_parents modelpath) (\<lambda>_.
         st_bind (create_file (modelpath @ [with_suffix modname ''.cc'']) MODEL_CC_TEMPLATE [(''MODULE'', modname)]) (\<lambda>_.
         st_bind (create_file (modelpath @ [with_suffix modname ''.h'']) MODEL_H_TEMPLATE
                    [(''MODULE'', modname), (''INCLUDE_GUARD'', guard_name modname @ ''_H'')]) (\<lambda>_ d.
           (Inr True, d)))))"

definition make_test :: "path \<Rightarrow> string \<Rightarrow> bool disk_op" where
  "make_test moduledir modname =
     (let testpath = moduledir @ [''test'']; name_parts = split_on (CHR ''-'') modname
      in st_bind (mkdir_parents testpath) (\<lambda>_.
         st_bind (create_file (testpath @ [with_suffix (modname @ ''-test-suite'') ''.cc'']) TEST_CC_TEMPLATE
                    [(''MODULE'', modname), (''CAPITALIZED'', concat (map capitalize name_parts)),
                     (''COMPOUND'', concat (hd name_parts # map capitalize (tl name_parts)))]) (\<lambda>_ d.
           (Inr True, d))))"

definition make_helper :: "path \<Rightarrow> string \<Rightarrow> bool disk_op" where
  "make_helper moduledir modname =
     (let helperpath = moduledir @ [''helper'']; name = modname @ ''-helper''
      in st_bind (mkdir_parents helperpath) (\<lambda>_.
         st_bind (create_file (helperpath @ [with_suffix name ''.cc'']) HELPER_CC_TEMPLATE [(''MODULE'', modname)]) (\<lambda>_.
         st_bind (create_file (helperpath @ [with_suffix name ''.h'']) HELPER_H_TEMPLATE
                    [(''MODULE'', modname), (''INCLUDE_GUARD'', guard_name modname @ ''_HELPER_H'')]) (\<lambda>_ d.
           (Inr True, d)))))"

definition make_examples :: "path \<Rightarrow> string \<Rightarrow> bool disk_op" where
  "make_examples moduledir modname =
     (let examplespath = moduledir @ [''examples'']
      in st_bind (mkdir_parents examplespath) (\<lambda>_.
         st_bind (create_file (examplespath @ [''wscript'']) EXAMPLES_WSCRIPT_TEMPLATE [(''MODULE'', modname)]) (\<lambda>_.
         st_bind (create_file (examplespath @ [with_suffix (modname @ ''-example'') ''.cc'']) EXAMPLE_CC_TEMPLATE
                    [(''MODULE'', modname)]) (\<lambda>_ d.
           (Inr True, d)))))"

definition path_text :: "path \<Rightarrow> string" where
  "path_text p = ''/'' @ join_with ''/'' p"

definition make_doc :: "path \<Rightarrow> path \<Rightarrow> string \<Rightarrow> bool disk_op" where
  "make_doc cwd moduledir modname =
     (let docpath = moduledir @ [''doc'']
      in st_bind (mkdir_parents docpath) (\<lambda>_.
         st_bind (\<lambda>d. (relpath (path_text cwd) (path_text moduledir) (path_text cwd), d)) (\<lambda>mod_relpath.
         st_bind (create_file (docpath @ [modname @ ''.rst'']) DOC_RST_TEMPLATE
                    [(''MODULE'', modname), (''MODULE_DIR'', mod_relpath)]) (\<lambda>_ d.
           (Inr True, d)))))"

text \<open>\<open>all(func(..) for func in functions)\<close> stops at the first that returns \<open>False\<close>.\<close>

fun run_all :: "bool disk_op list \<Rightarrow> bool disk_op" where
  "run_all [] d = (Inr True, d)"
| "run_all (f # fs) d =
     (case f d of
        (Inl e, d) \<Rightarrow> (Inl e, d)
      | (Inr ok, d) \<Rightarrow> if ok then run_all fs d else (Inr False, d))"

definition module_functions :: "path \<Rightarrow> path \<Rightarrow> string \<Rightarrow> bool disk_op list" where
  "module_functions cwd modulepath modname =
     [make_wscript modulepath modname, make_model modulepath modname, make_test modulepath modname,
      make_helper modulepath modname, make_examples modulepath modname, make_doc cwd modulepath modname]"

definition fill_module :: "path \<Rightarrow> path \<Rightarrow> string \<Rightarrow> unit disk_op" where
  "fill_module cwd modulepath modname =
     st_bind (mkdir_parents modulepath) (\<lambda>_.
     st_bind (run_all (module_functions cwd modulepath modname)) (\<lambda>success d.
       (if success then Inr () else Inl ValueError, d)))"

definition make_module :: "path \<Rightarrow> path \<Rightarrow> string \<Rightarrow> bool disk_op" where
  "make_module cwd modpath modname d =
     (let modulepath = modpath @ [modname]
      in st_bind (path_exists modulepath) (\<lambda>there d.
         if there then (Inr False, d)
         else (case fill_module cwd modulepath modname d of
                 (Inr _, d) \<Rightarrow> (Inr True, d)
               | (Inl e, d) \<Rightarrow>
                   st_bind (path_exists modulepath) (\<lambda>there.
                     if there then st_bind (rmtree modulepath) (\<lambda>_ d. (Inr False, d))
                     else (\<lambda>d. (Inr False, d))) d)) d)"

section \<open>The names\<close>

text \<open>\<open>^(\w|-)+$\<close>, where \<open>$\<close> also matches in front of a final newline.\<close>

definition allowed_name :: "string \<Rightarrow> bool" where
  "allowed_name part =
     (let s = (if part \<noteq> [] \<and> last part = nl then butlast part else part)
      in s \<noteq> [] \<and> list_all (\<lambda>c. word_char c \<or> c = CHR ''-'') s)"

text \<open>The components of a relative \<open>Path\<close>.\<close>

definition path_parts :: "string \<Rightarrow> path" where
  "path_parts s = filter (\<lambda>c. c \<noteq> '''' \<and> c \<noteq> ''.'') (split_on (CHR ''/'') s)"

text \<open>\<open>parser.error\<close> exits with 2; two leading slashes are another root, so \<open>relative_to\<close> raises.\<close>

definition project_parts :: "string \<Rightarrow> path res" where
  "project_parts project =
     (if startswith project ''//'' \<and> \<not> startswith project ''///'' then Inl ValueError
      else if \<not> list_all allowed_name (path_parts project) then Inl (SystemExit 2)
      else Inr (path_parts project))"

definition select_module :: "path \<Rightarrow> string \<Rightarrow> path \<Rightarrow> string \<Rightarrow> (path \<times> string) list res" where
  "select_module base project project_path name =
     (let name = strip_by (\<lambda>c. c = CHR ''/'') name; parts = path_parts name
      in if name = '''' then Inr []
         else if 2 < length parts then Inr []
         else
           rbind (py_index parts 0) (\<lambda>first.
             if first = ''src'' \<and> project \<noteq> '''' then Inl (SystemExit 2)
             else
               (let modpath = (if first = ''src'' then base @ [''src''] else base @ [''contrib'']);
                    parts = (if first = ''src'' \<or> first = ''contrib'' then drop 1 parts else parts);
                    modpath = (if project \<noteq> '''' then base @ [''contrib''] @ project_path else modpath)
                in rbind (py_index parts 0) (\<lambda>modname.
                     Inr (if allowed_name modname then [(modpath, modname)] else [])))))"

definition select_modules :: "path \<Rightarrow> string \<Rightarrow> string list \<Rightarrow> (path \<times> string) list res" where
  "select_modules base project names =
     rbind (if project \<noteq> '''' then project_parts project else Inr []) (\<lambda>project_path.
     rbind (rmap (select_module base project project_path) names) (\<lambda>mods. Inr (concat mods)))"

definition exit_status :: "py_error \<Rightarrow> int" where
  "exit_status e = (case e of SystemExit n \<Rightarrow> n | _ \<Rightarrow> 1)"

definition create_main :: "path \<Rightarrow> string \<Rightarrow> string list \<Rightarrow> disk \<Rightarrow> int \<times> disk" where
  "create_main base project names d =
     (case check_dirs [base @ [''src''], base @ [''contrib'']] d of
        (Inl e, d) \<Rightarrow> (exit_status e, d)
      | (Inr _, d) \<Rightarrow>
          (case select_modules base project names of
             Inl e \<Rightarrow> (exit_status e, d)
           | Inr modules \<Rightarrow>
               (case run_all (map (\<lambda>(modpath, modname). make_module base modpath modname) modules) d of
                  (Inl e, d) \<Rightarrow> (exit_status e, d)
                | (Inr ok, d) \<Rightarrow> (0, d))))"

section \<open>The templates have only the fields they are given\<close>

function fields_ok :: "string list \<Rightarrow> string \<Rightarrow> bool" where
  "fields_ok ks [] \<longleftrightarrow> True"
| "fields_ok ks (c # cs) \<longleftrightarrow>
     (if c = CHR ''{'' then
        (if take 1 cs = ''{'' then fields_ok ks (drop 1 cs)
         else
           (let field = takeWhile (\<lambda>x. x \<noteq> CHR ''}'') cs; rest = dropWhile (\<lambda>x. x \<noteq> CHR ''}'') cs
            in rest \<noteq> [] \<and> (if endswith field ''!r'' then take (length field - 2) field else field) \<in> set ks \<and>
               fields_ok ks (drop 1 rest)))
      else if c = CHR ''}'' then take 1 cs = ''}'' \<and> fields_ok ks (drop 1 cs)
      else fields_ok ks cs)"
  by pat_completeness auto
termination
  by (relation "measure (\<lambda>(kw, s). length s)") (auto simp: less_Suc_eq_le intro: le_trans [OF diff_le_self length_dropWhile_le])

declare fields_ok.simps [simp del]

lemma field_value_ok:
  "(if endswith f ''!r'' then take (length f - 2) f else f) \<in> set (keys kw) \<Longrightarrow> \<exists>v. field_value kw f = Inr v"
  by (auto simp: field_value_def Let_def map_of_eq_None_iff split: option.splits if_splits)

lemma format_ok: "fields_ok (keys kw) s \<Longrightarrow> \<exists>t. str_format kw s = Inr t"
proof (induction "keys kw" s rule: fields_ok.induct)
  case (2 c cs)
  let ?field = "takeWhile (\<lambda>x. x \<noteq> CHR ''}'') cs" and ?rest = "dropWhile (\<lambda>x. x \<noteq> CHR ''}'') cs"
  consider "c = CHR ''{''" "take 1 cs = ''{''" | (field) "c = CHR ''{''" "take 1 cs \<noteq> ''{''" | "c = CHR ''}''" | "c \<noteq> CHR ''{''" "c \<noteq> CHR ''}''"
    by blast
  then show ?case
  proof cases
    case field
    have ok: "?rest \<noteq> []" "(if endswith ?field ''!r'' then take (length ?field - 2) ?field else ?field) \<in> set (keys kw)"
      "fields_ok (keys kw) (drop 1 ?rest)"
      using "2.prems" field by (simp_all only: fields_ok.simps Let_def if_True if_False simp_thms)
    obtain v where "field_value kw ?field = Inr v" using field_value_ok [OF ok(2)] by blast
    moreover obtain t where "str_format kw (drop 1 ?rest) = Inr t"
      using "2.hyps"(2) [OF field refl refl ok(3)] by blast
    ultimately show ?thesis
      using field ok(1) by (simp only: str_format.simps Let_def if_True if_False rbind_simps) simp
  qed (use 2 in \<open>auto simp: fields_ok.simps str_format.simps\<close>)
qed (simp add: str_format.simps)

lemma fields_ok_step: "c \<noteq> CHR ''{'' \<Longrightarrow> c \<noteq> CHR ''}'' \<Longrightarrow> fields_ok ks (c # cs) = fields_ok ks cs"
  by (simp add: fields_ok.simps)

lemma fields_ok_append: "fields_ok ks a \<Longrightarrow> fields_ok ks (a @ b) = fields_ok ks b"
proof (induction ks a rule: fields_ok.induct)
  case (2 ks c cs)
  let ?field = "takeWhile (\<lambda>x. x \<noteq> CHR ''}'') cs" and ?rest = "dropWhile (\<lambda>x. x \<noteq> CHR ''}'') cs"
  consider (field) "c = CHR ''{''" "take 1 cs \<noteq> ''{''" | (brace) "c = CHR ''{''" "take 1 cs = ''{''"
    | (close) "c = CHR ''}''" | (plain) "c \<noteq> CHR ''{''" "c \<noteq> CHR ''}''"
    by blast
  then show ?case
  proof cases
    case field
    have ok: "?rest \<noteq> []" "(if endswith ?field ''!r'' then take (length ?field - 2) ?field else ?field) \<in> set ks"
      "fields_ok ks (drop 1 ?rest)"
      using "2.prems" field by (simp_all only: fields_ok.simps Let_def if_True if_False simp_thms)
    then obtain x where x: "x \<in> set cs" "x = CHR ''}''" by (auto simp: dropWhile_eq_Nil_conv)
    then have split: "takeWhile (\<lambda>x. x \<noteq> CHR ''}'') (cs @ b) = ?field" "dropWhile (\<lambda>x. x \<noteq> CHR ''}'') (cs @ b) = ?rest @ b"
      by (simp_all add: takeWhile_append1 dropWhile_append1)
    have "cs \<noteq> []" using x by auto
    then have "take 1 (cs @ b) \<noteq> ''{''" using field by (cases cs) auto
    then have "fields_ok ks ((c # cs) @ b) = fields_ok ks (drop 1 (?rest @ b))"
      using field ok by (simp add: fields_ok.simps split)
    then show ?thesis using "2.IH"(2) [OF field refl refl ok(3)] ok(1) by (cases ?rest) simp_all
  next
    case brace
    then show ?thesis using 2 by (cases cs) (auto simp: fields_ok.simps)
  next
    case close
    then show ?thesis using 2 by (cases cs) (auto simp: fields_ok.simps)
  next
    case plain
    then show ?thesis using 2 by (simp add: fields_ok_step)
  qed
qed simp

lemma fields_ok_lines: "list_all (fields_ok ks) ls \<Longrightarrow> fields_ok ks (join_with [nl] ls)"
  by (induction ls rule: induct_list012) (simp_all add: fields_ok_append fields_ok_step fields_ok.simps(1))

lemma template_formats: "list_all (fields_ok (keys kw)) ls \<Longrightarrow> \<exists>t. str_format kw (join_with [nl] ls) = Inr t"
  by (intro format_ok fields_ok_lines)

lemma templates_ok:
  "list_all (fields_ok [''MODULE'']) WSCRIPT_TEMPLATE"
  "list_all (fields_ok [''MODULE'']) MODEL_CC_TEMPLATE"
  "list_all (fields_ok [''MODULE'', ''INCLUDE_GUARD'']) MODEL_H_TEMPLATE"
  "list_all (fields_ok [''MODULE'']) HELPER_CC_TEMPLATE"
  "list_all (fields_ok [''MODULE'', ''INCLUDE_GUARD'']) HELPER_H_TEMPLATE"
  "list_all (fields_ok [''MODULE'']) EXAMPLES_WSCRIPT_TEMPLATE"
  "list_all (fields_ok [''MODULE'']) EXAMPLE_CC_TEMPLATE"
  "list_all (fields_ok [''MODULE'', ''CAPITALIZED'', ''COMPOUND'']) TEST_CC_TEMPLATE"
  "list_all (fields_ok [''MODULE'', ''MODULE_DIR'']) DOC_RST_TEMPLATE"
  by code_simp+

end
