(* ===== verification/ModuleTree.thy ===== *)
theory ModuleTree
  imports CreateModule
begin

text \<open>
  What \<^verbatim>\<open>create-module.py\<close> leaves on the disk.  The specification of a module is a plan, the list of its
  entries with their contents; carrying out a plan is the abstract operation \<open>place\<close>, which the \<open>make_\<close>
  functions implement, and a module is created either as the whole plan or not at all.
\<close>

section \<open>Plans\<close>

abbreviation same_rules :: "disk \<Rightarrow> disk \<Rightarrow> bool" where
  "same_rules d' d \<equiv> refused d' = refused d \<and> removable d' = removable d \<and> survives d' = survives d \<and> unreadable d' = unreadable d"

definition put_file :: "path \<Rightarrow> string \<Rightarrow> unit disk_op" where
  "put_file p t = st_bind (open_wt p) (\<lambda>_ d. (Inr (), d\<lparr>entries := (entries d)(p \<mapsto> File t)\<rparr>))"

fun place :: "(path \<times> fs_entry) list \<Rightarrow> unit disk_op" where
  "place [] d = (Inr (), d)"
| "place ((p, e) # xs) d = st_bind (case e of Dir \<Rightarrow> mkdir_one p | File t \<Rightarrow> put_file p t) (\<lambda>_. place xs) d"

definition formatted :: "(string \<times> string) list \<Rightarrow> string list \<Rightarrow> fs_entry" where
  "formatted kw T = File (case str_format kw (join_with [nl] T) of Inr t \<Rightarrow> t | Inl _ \<Rightarrow> '''')"

definition module_rel :: "path \<Rightarrow> path \<Rightarrow> string" where
  "module_rel cwd m = (case relpath (path_text cwd) (path_text m) (path_text cwd) of Inr r \<Rightarrow> r | Inl _ \<Rightarrow> '''')"

definition wscript_plan :: "path \<Rightarrow> string \<Rightarrow> (path \<times> fs_entry) list" where
  "wscript_plan m n = [(m @ [''wscript''], formatted [(''MODULE'', n)] WSCRIPT_TEMPLATE)]"

definition model_plan :: "path \<Rightarrow> string \<Rightarrow> (path \<times> fs_entry) list" where
  "model_plan m n =
     [(m @ [''model''], Dir),
      (m @ [''model'', n @ ''.cc''], formatted [(''MODULE'', n)] MODEL_CC_TEMPLATE),
      (m @ [''model'', n @ ''.h''], formatted [(''MODULE'', n), (''INCLUDE_GUARD'', guard_name n @ ''_H'')] MODEL_H_TEMPLATE)]"

definition test_plan :: "path \<Rightarrow> string \<Rightarrow> (path \<times> fs_entry) list" where
  "test_plan m n =
     (let ws = split_on (CHR ''-'') n
      in [(m @ [''test''], Dir),
          (m @ [''test'', n @ ''-test-suite.cc''],
           formatted [(''MODULE'', n), (''CAPITALIZED'', concat (map capitalize ws)),
                      (''COMPOUND'', concat (hd ws # map capitalize (tl ws)))] TEST_CC_TEMPLATE)])"

definition helper_plan :: "path \<Rightarrow> string \<Rightarrow> (path \<times> fs_entry) list" where
  "helper_plan m n =
     [(m @ [''helper''], Dir),
      (m @ [''helper'', n @ ''-helper.cc''], formatted [(''MODULE'', n)] HELPER_CC_TEMPLATE),
      (m @ [''helper'', n @ ''-helper.h''],
       formatted [(''MODULE'', n), (''INCLUDE_GUARD'', guard_name n @ ''_HELPER_H'')] HELPER_H_TEMPLATE)]"

definition examples_plan :: "path \<Rightarrow> string \<Rightarrow> (path \<times> fs_entry) list" where
  "examples_plan m n =
     [(m @ [''examples''], Dir),
      (m @ [''examples'', ''wscript''], formatted [(''MODULE'', n)] EXAMPLES_WSCRIPT_TEMPLATE),
      (m @ [''examples'', n @ ''-example.cc''], formatted [(''MODULE'', n)] EXAMPLE_CC_TEMPLATE)]"

definition doc_plan :: "path \<Rightarrow> path \<Rightarrow> string \<Rightarrow> (path \<times> fs_entry) list" where
  "doc_plan cwd m n =
     [(m @ [''doc''], Dir),
      (m @ [''doc'', n @ ''.rst''], formatted [(''MODULE'', n), (''MODULE_DIR'', module_rel cwd m)] DOC_RST_TEMPLATE)]"

definition module_plan :: "path \<Rightarrow> path \<Rightarrow> string \<Rightarrow> (path \<times> fs_entry) list" where
  "module_plan cwd m n =
     wscript_plan m n @ model_plan m n @ test_plan m n @ helper_plan m n @ examples_plan m n @ doc_plan cwd m n"

definition module_tree :: "path \<Rightarrow> path \<Rightarrow> string \<Rightarrow> path \<Rightarrow> fs_entry option" where
  "module_tree cwd m n = map_of ((m, Dir) # module_plan cwd m n)"

lemmas plan_defs = wscript_plan_def model_plan_def test_plan_def helper_plan_def examples_plan_def doc_plan_def

section \<open>Carrying out a plan\<close>

lemma st_bind_assoc: "st_bind (st_bind a f) g d = st_bind a (\<lambda>x. st_bind (f x) g) d"
  by (auto simp: st_bind_def split: sum.splits prod.splits)

lemma place_append: "place (xs @ ys) d = st_bind (place xs) (\<lambda>_. place ys) d"
proof (induction xs arbitrary: d)
  case (Cons x xs)
  then have "place (xs @ ys) = st_bind (place xs) (\<lambda>_. place ys)" by (rule ext)
  then show ?case by (cases x) (simp add: st_bind_assoc [symmetric])
qed (simp add: st_bind_def)

text \<open>A step adds or replaces one entry, or fails with the disk as it was up to an empty file.\<close>

lemma mkdir_one_changes: "mkdir_one p d = (r, d') \<Longrightarrow> q \<noteq> p \<Longrightarrow> entries d' q = entries d q"
  by (auto simp: mkdir_one_def split: if_splits)

lemma mkdir_one_res: "mkdir_one p d = (r, d') \<Longrightarrow> (case r of Inl e \<Rightarrow> d' = d | Inr _ \<Rightarrow> d' = d\<lparr>entries := (entries d)(p \<mapsto> Dir)\<rparr>)"
  by (auto simp: mkdir_one_def split: if_splits)

lemma put_file_res: "put_file p t d = (r, d') \<Longrightarrow> (case r of Inl e \<Rightarrow> d' = d | Inr _ \<Rightarrow> d' = d\<lparr>entries := (entries d)(p \<mapsto> File t)\<rparr>)"
  by (auto simp: put_file_def open_wt_def st_bind_def split: if_splits)

lemma place_step_res:
  "(case e of Dir \<Rightarrow> mkdir_one p | File t \<Rightarrow> put_file p t) d = (r, d') \<Longrightarrow>
     d' = (case r of Inl e \<Rightarrow> d | Inr _ \<Rightarrow> d\<lparr>entries := (entries d)(p \<mapsto> e)\<rparr>)"
  by (auto split: fs_entry.splits sum.splits dest: mkdir_one_res put_file_res)

lemma place_frame:
  "place xs d = (r, d') \<Longrightarrow> same_rules d' d \<and> (\<forall>q. q \<notin> fst ` set xs \<longrightarrow> entries d' q = entries d q)"
proof (induction xs arbitrary: d)
  case (Cons x xs)
  obtain p e where x: "x = (p, e)" by (cases x)
  obtain r1 d1 where s: "(case e of Dir \<Rightarrow> mkdir_one p | File t \<Rightarrow> put_file p t) d = (r1, d1)" by fastforce
  show ?case
  proof (cases r1)
    case (Inl a)
    then show ?thesis using Cons.prems s place_step_res [OF s] by (simp add: x st_bind_def)
  next
    case (Inr u)
    then have "place xs d1 = (r, d')" using Cons.prems s by (simp add: x st_bind_def)
    from Cons.IH [OF this] show ?thesis using place_step_res [OF s] Inr by (auto simp: x)
  qed
qed simp

lemma place_done:
  "place xs d = (Inr (), d') \<Longrightarrow> distinct (keys xs) \<Longrightarrow> d' = d\<lparr>entries := entries d ++ map_of xs\<rparr>"
proof (induction xs arbitrary: d)
  case (Cons x xs)
  obtain p e where x: "x = (p, e)" by (cases x)
  obtain d1 where s: "(case e of Dir \<Rightarrow> mkdir_one p | File t \<Rightarrow> put_file p t) d = (Inr (), d1)" and "place xs d1 = (Inr (), d')"
    using Cons.prems by (auto simp: x st_bind_eq)
  then have "d' = d1\<lparr>entries := entries d1 ++ map_of xs\<rparr>" using Cons by simp
  moreover have "d1 = d\<lparr>entries := (entries d)(p \<mapsto> e)\<rparr>" using place_step_res [OF s] by simp
  moreover have "map_of xs p = None" using Cons.prems by (simp add: x map_of_eq_None_iff)
  moreover have "entries d ++ map_of (x # xs) = (entries d)(p \<mapsto> e) ++ map_of xs"
    using calculation(3) by (auto simp: x map_add_def fun_eq_iff split: option.splits)
  ultimately show ?case by (simp only: disk.select_convs disk.update_convs disk.surjective) simp
qed simp

fun plan_ok :: "(path \<Rightarrow> fs_entry option) \<Rightarrow> (path \<times> fs_entry) list \<Rightarrow> bool" where
  "plan_ok es [] \<longleftrightarrow> True"
| "plan_ok es ((p, e) # xs) \<longleftrightarrow> es (butlast p) = Some Dir \<and> es p = None \<and> plan_ok (es(p \<mapsto> e)) xs"

lemma place_succeeds:
  "plan_ok (entries d) xs \<Longrightarrow> \<forall>p \<in> fst ` set xs. \<not> refused d p \<Longrightarrow> \<exists>d'. place xs d = (Inr (), d')"
proof (induction xs arbitrary: d)
  case (Cons x xs)
  obtain p e where x: "x = (p, e)" by (cases x)
  have "(case e of Dir \<Rightarrow> mkdir_one p | File t \<Rightarrow> put_file p t) d = (Inr (), d\<lparr>entries := (entries d)(p \<mapsto> e)\<rparr>)"
    using Cons.prems by (auto simp: x mkdir_one_def put_file_def open_wt_def st_bind_def split: fs_entry.splits)
  then show ?case using Cons.IH [of "d\<lparr>entries := (entries d)(p \<mapsto> e)\<rparr>"] Cons.prems by (simp add: x st_bind_def fun_upd_def)
qed simp

section \<open>The functions carry out their plans\<close>

lemma create_file_put:
  assumes "list_all (fields_ok (keys kw)) T"
  shows "create_file p T kw = (case formatted kw T of File t \<Rightarrow> put_file p t)"
  using template_formats [OF assms] by (auto simp: create_file_def put_file_def formatted_def)

lemma mkdir_below: "entries d m = Some Dir \<Longrightarrow> mkdir_parents (m @ [x]) d = mkdir_one (m @ [x]) d"
  by (simp add: mkdir_parents.simps)

lemma relpath_ok: "relpath (path_text cwd) (path_text m) (path_text cwd) = Inr (module_rel cwd m)"
  by (simp add: module_rel_def relpath_def path_text_def Let_def)

lemma with_suffix_plain: "CHR ''.'' \<notin> set n \<Longrightarrow> with_suffix n ext = n @ ext"
  by (simp add: with_suffix_def)

lemma allowed_no_dot: "allowed_name n \<Longrightarrow> CHR ''.'' \<notin> set n"
proof
  assume a: "allowed_name n" "CHR ''.'' \<in> set n"
  define s where "s = (if n \<noteq> [] \<and> last n = nl then butlast n else n)"
  have "CHR ''.'' \<in> set s"
    using a(2) by (cases n rule: rev_cases) (auto simp: s_def)
  moreover have "list_all (\<lambda>c. word_char c \<or> c = CHR ''-'') s"
    using a(1) by (simp add: allowed_name_def s_def Let_def)
  ultimately show False by (auto simp: list_all_iff word_char_def)
qed

definition then_true :: "unit disk_op \<Rightarrow> bool disk_op" where
  "then_true f = st_bind f (\<lambda>_ d. (Inr True, d))"

lemma st_bind_assoc_fun: "st_bind (st_bind a f) g = st_bind a (\<lambda>x. st_bind (f x) g)"
  by (rule ext) (rule st_bind_assoc)

lemma st_bind_ret: "st_bind (\<lambda>d. (Inr x, d)) f = f x"
  by (rule ext) (simp add: st_bind_def)

lemma place_fun:
  "place [] = (\<lambda>d. (Inr (), d))"
  "place ((p, Dir) # xs) = st_bind (mkdir_one p) (\<lambda>_. place xs)"
  "place ((p, File t) # xs) = st_bind (put_file p t) (\<lambda>_. place xs)"
  by (rule ext; simp)+

lemma st_bind_mkdir: "entries d m = Some Dir \<Longrightarrow> st_bind (mkdir_parents (m @ [x])) f d = st_bind (mkdir_one (m @ [x])) f d"
  by (simp add: st_bind_def mkdir_below)

lemmas to_plan = st_bind_mkdir create_file_put templates_ok formatted_def place_fun then_true_def st_bind_assoc_fun
  st_bind_ret plan_defs with_suffix_plain Let_def

definition implements :: "path \<Rightarrow> bool disk_op \<Rightarrow> (path \<times> fs_entry) list \<Rightarrow> bool" where
  "implements m f xs \<longleftrightarrow> m \<notin> fst ` set xs \<and> (\<forall>d. entries d m = Some Dir \<longrightarrow> f d = then_true (place xs) d)"

lemma make_wscript_plan: "implements m (make_wscript m n) (wscript_plan m n)"
  by (simp add: implements_def make_wscript_def to_plan)

lemma make_model_plan: "CHR ''.'' \<notin> set n \<Longrightarrow> implements m (make_model m n) (model_plan m n)"
  by (simp add: implements_def make_model_def to_plan)

lemma make_test_plan: "CHR ''.'' \<notin> set n \<Longrightarrow> implements m (make_test m n) (test_plan m n)"
  by (simp add: implements_def make_test_def to_plan)

lemma make_helper_plan: "CHR ''.'' \<notin> set n \<Longrightarrow> implements m (make_helper m n) (helper_plan m n)"
  by (simp add: implements_def make_helper_def to_plan)

lemma make_examples_plan: "CHR ''.'' \<notin> set n \<Longrightarrow> implements m (make_examples m n) (examples_plan m n)"
  by (simp add: implements_def make_examples_def to_plan)

lemma make_doc_plan: "implements m (make_doc cwd m n) (doc_plan cwd m n)"
  by (simp add: implements_def make_doc_def to_plan relpath_ok)

lemma run_all_implements:
  "list_all2 (implements m) fs ps \<Longrightarrow> implements m (run_all fs) (concat ps)"
proof (induction fs ps rule: list_all2_induct)
  case Nil
  then show ?case by (simp add: implements_def to_plan)
next
  case (Cons f fs xs ps)
  have "run_all (f # fs) d = then_true (place (xs @ concat ps)) d" if d: "entries d m = Some Dir" for d
  proof -
    obtain r d1 where s: "place xs d = (r, d1)" by fastforce
    then have "entries d1 m = Some Dir" using place_frame [OF s] Cons(1) d by (auto simp: implements_def)
    then show ?thesis
      using Cons d s by (cases r) (auto simp: implements_def then_true_def place_append st_bind_def)
  qed
  then show ?case using Cons by (auto simp: implements_def)
qed

lemma functions_implement: "CHR ''.'' \<notin> set n \<Longrightarrow> implements m (run_all (module_functions cwd m n)) (module_plan cwd m n)"
  using run_all_implements [of m "module_functions cwd m n"
      "[wscript_plan m n, model_plan m n, test_plan m n, helper_plan m n, examples_plan m n, doc_plan cwd m n]"]
  by (simp add: module_functions_def module_plan_def make_wscript_plan make_model_plan make_test_plan
      make_helper_plan make_examples_plan make_doc_plan)

section \<open>Making the directory\<close>

lemma mkdir_parents_frame:
  "mkdir_parents p d = (r, d') \<Longrightarrow>
     same_rules d' d \<and>
     (\<forall>q. entries d q \<noteq> None \<or> \<not> prefix q p \<longrightarrow> entries d' q = entries d q) \<and>
     (case r of Inl _ \<Rightarrow> entries d' p = entries d p | Inr _ \<Rightarrow> entries d' p = Some Dir)"
proof (induction p d arbitrary: r d' rule: mkdir_parents.induct)
  case (1 p d)
  show ?case
  proof (cases "p \<noteq> [] \<and> entries d (butlast p) = None")
    case True
    obtain r1 d1 where m: "mkdir_parents (butlast p) d = (r1, d1)" by fastforce
    have frame: "same_rules d1 d \<and>
        (\<forall>q. entries d q \<noteq> None \<or> \<not> prefix q (butlast p) \<longrightarrow> entries d1 q = entries d q)"
      using "1.IH" [OF _ _ m] True by simp
    have sub: "prefix q (butlast p) \<Longrightarrow> prefix q p" for q
      using prefix_order.trans [of q "butlast p" p] by (simp add: prefixeq_butlast)
    have "\<not> prefix p (butlast p)"
      using True prefix_length_le [of p "butlast p"] by (cases p) auto
    then have p: "entries d1 p = entries d p" using frame by blast
    show ?thesis
    proof (cases r1)
      case (Inl e)
      then have "r = Inl e" "d' = d1" using 1(2) True m by (auto simp: mkdir_parents.simps)
      then show ?thesis using frame p sub by auto
    next
      case (Inr u)
      then have s: "mkdir_one p d1 = (r, d')" using 1(2) True m by (simp add: mkdir_parents.simps [of p d])
      show ?thesis
      proof (cases r)
        case (Inl e)
        then have "d' = d1" using mkdir_one_res [OF s] by simp
        then show ?thesis using Inl frame p sub by auto
      next
        case (Inr u)
        then have "d' = d1\<lparr>entries := (entries d1)(p \<mapsto> Dir)\<rparr>" "entries d1 p = None"
          using mkdir_one_res [OF s] s by (auto simp: mkdir_one_def split: if_splits)
        then show ?thesis using Inr frame p sub by auto
      qed
    qed
  next
    case False
    then consider "p = []" "r = Inl OSError" "d' = d" | "mkdir_one p d = (r, d')"
      using 1(2) mkdir_parents.simps [of p d] by (cases "p = []") auto
    then show ?thesis
    proof cases
      case 2
      then show ?thesis by (auto simp: mkdir_one_def split: if_splits)
    qed simp
  qed
qed

lemma mkdir_parents_succeeds:
  assumes "p \<noteq> []" "entries d [] = Some Dir" "entries d p = None"
    and "\<And>q. prefix q p \<Longrightarrow> entries d q = None \<or> entries d q = Some Dir" "\<And>q. prefix q p \<Longrightarrow> \<not> refused d q"
  shows "\<exists>d'. mkdir_parents p d = (Inr (), d')"
  using assms
proof (induction p d rule: mkdir_parents.induct)
  case (1 p d)
  have sub: "prefix q (butlast p) \<Longrightarrow> prefix q p" for q
    using prefix_order.trans [of q "butlast p" p] by (simp add: prefixeq_butlast)
  show ?case
  proof (cases "entries d (butlast p) = None")
    case True
    then have "butlast p \<noteq> []" using 1(3) by auto
    then obtain d1 where m: "mkdir_parents (butlast p) d = (Inr (), d1)"
      using "1.IH" [OF 1(2) True _ 1(3) True 1(5) [OF sub] 1(6) [OF sub]] by blast
    have "\<not> prefix p (butlast p)"
      using 1(2) prefix_length_le [of p "butlast p"] by (cases p) auto
    then have "entries d1 p = None" "entries d1 (butlast p) = Some Dir" "\<not> refused d1 p"
      using mkdir_parents_frame [OF m] 1(4,6) by auto
    then show ?thesis using True 1(2) m by (subst mkdir_parents.simps) (simp add: mkdir_one_def)
  next
    case False
    then have "entries d (butlast p) = Some Dir" using 1(5) [OF sub, of "butlast p"] by auto
    then show ?thesis using 1(2,4,6) by (subst mkdir_parents.simps) (simp add: mkdir_one_def)
  qed
qed

section \<open>A module is created as a whole or not at all\<close>

lemma fill_module_place:
  assumes "CHR ''.'' \<notin> set n"
  shows "fill_module cwd m n d = st_bind (mkdir_parents m) (\<lambda>_. place (module_plan cwd m n)) d"
proof -
  obtain r d1 where m: "mkdir_parents m d = (r, d1)" by fastforce
  show ?thesis
  proof (cases r)
    case (Inr u)
    then have "run_all (module_functions cwd m n) d1 = then_true (place (module_plan cwd m n)) d1"
      using mkdir_parents_frame [OF m] functions_implement [OF assms, of m cwd] by (simp add: implements_def)
    then show ?thesis
      using m Inr by (auto simp: fill_module_def st_bind_def then_true_def split: sum.splits prod.splits)
  qed (simp add: fill_module_def st_bind_def m)
qed

lemma plan_below: "q \<in> fst ` set (module_plan cwd m n) \<Longrightarrow> strict_prefix m q"
  by (auto simp: module_plan_def plan_defs Let_def strict_prefix_def)

lemma plan_distinct: "distinct (keys (module_plan cwd m n))"
  by (simp add: module_plan_def plan_defs Let_def)

lemma plan_fits:
  assumes "es m = Some Dir" "\<And>q. strict_prefix m q \<Longrightarrow> es q = None"
  shows "plan_ok es (module_plan cwd m n)"
proof -
  have "es (m @ [x]) = None" "es (m @ [x, y]) = None" for x y
    using assms(2) by (simp_all add: strict_prefix_def)
  then show ?thesis using assms(1) by (simp add: module_plan_def plan_defs Let_def butlast_append)
qed

lemma fill_module_frame:
  assumes "CHR ''.'' \<notin> set n" "fill_module cwd m n d = (r, d')" "\<And>q. prefix m q \<Longrightarrow> entries d q = None"
  shows "same_rules d' d" "entries d q \<noteq> None \<or> \<not> prefix q m \<and> \<not> prefix m q \<Longrightarrow> entries d' q = entries d q"
    and "r = Inr () \<Longrightarrow> prefix m q \<Longrightarrow> entries d' q = module_tree cwd m n q"
    and "r = Inl e \<Longrightarrow> entries d' m = None \<Longrightarrow> prefix m q \<Longrightarrow> entries d' q = None"
proof -
  obtain r1 d1 where m: "mkdir_parents m d = (r1, d1)" by fastforce
  note frame = mkdir_parents_frame [OF m]
  have "entries d1 q = None" if "strict_prefix m q" for q
    using frame assms(3) [of q] that by (auto simp: strict_prefix_def dest: prefix_order.antisym)
  note below = this
  consider (failed) e where "r1 = Inl e" "r = Inl e" "d' = d1" | (made) "r1 = Inr ()" "place (module_plan cwd m n) d1 = (r, d')"
    using assms(2) m by (cases r1) (auto simp: fill_module_place [OF assms(1)] st_bind_def)
  then have "same_rules d' d \<and> (entries d q \<noteq> None \<or> \<not> prefix q m \<and> \<not> prefix m q \<longrightarrow> entries d' q = entries d q)
    \<and> (r = Inr () \<longrightarrow> prefix m q \<longrightarrow> entries d' q = module_tree cwd m n q)
    \<and> (\<forall>e. r = Inl e \<longrightarrow> entries d' m = None \<longrightarrow> prefix m q \<longrightarrow> entries d' q = None)"
  proof cases
    case failed
    have "entries d' q = None" if "prefix m q" "entries d' m = None"
      using that below [of q] failed by (cases "q = m") (auto simp: strict_prefix_def)
    then show ?thesis using frame failed by auto
  next
    case made
    note pf = place_frame [OF made(2)]
    have "entries d' m = entries d1 m" using pf plan_below [of m cwd m n] by blast
    then have m': "entries d' m = Some Dir" using frame made(1) by simp
    have "entries d' q = map_of (module_plan cwd m n) q" if "r = Inr ()" "strict_prefix m q"
    proof -
      have "d' = d1\<lparr>entries := entries d1 ++ map_of (module_plan cwd m n)\<rparr>"
        using place_done made(2) that plan_distinct by blast
      then have "entries d' q = (entries d1 ++ map_of (module_plan cwd m n)) q" by simp
      then show ?thesis using below [OF that(2)] by (simp add: map_add_def split: option.splits)
    qed
    then have 1: "r = Inr () \<longrightarrow> prefix m q \<longrightarrow> entries d' q = module_tree cwd m n q"
      using m' by (cases "q = m") (auto simp: strict_prefix_def module_tree_def)
    have 2: "entries d' q = entries d q" if "entries d q \<noteq> None \<or> \<not> prefix q m \<and> \<not> prefix m q"
    proof -
      have "\<not> prefix m q" using that assms(3) [of q] by auto
      then have "q \<notin> fst ` set (module_plan cwd m n)" using plan_below [of q cwd m n] by (auto simp: strict_prefix_def)
      then have "entries d' q = entries d1 q" using pf by blast
      then show ?thesis using frame that by auto
    qed
    from 1 2 m' frame pf show ?thesis by simp
  qed
  then show "same_rules d' d" "entries d q \<noteq> None \<or> \<not> prefix q m \<and> \<not> prefix m q \<Longrightarrow> entries d' q = entries d q"
    "r = Inr () \<Longrightarrow> prefix m q \<Longrightarrow> entries d' q = module_tree cwd m n q"
    "r = Inl e \<Longrightarrow> entries d' m = None \<Longrightarrow> prefix m q \<Longrightarrow> entries d' q = None"
    by blast+
qed

section \<open>Two disks\<close>

definition empty_tree :: disk where
  "empty_tree = \<lparr>entries = map_of [([], Dir), ([''ns3''], Dir), ([''ns3'', ''contrib''], Dir)], refused = (\<lambda>_. False),
     removable = (\<lambda>_. True), survives = (\<lambda>_ _. True), unreadable = (\<lambda>_ _. False)\<rparr>"

definition no_wscript_tree :: disk where
  "no_wscript_tree = empty_tree\<lparr>refused := (\<lambda>q. last q = ''wscript'')\<rparr>"

lemma empty_tree_below: "prefix [''ns3'', ''contrib'', ''new-one''] q \<Longrightarrow> entries empty_tree q = None"
  by (auto simp: empty_tree_def prefix_def)

lemma empty_tree_above:
  "prefix q [''ns3'', ''contrib'', ''new-one''] \<Longrightarrow> entries empty_tree q = None \<or> entries empty_tree q = Some Dir"
  by (simp add: empty_tree_def)

section \<open>The names of the command line\<close>

text \<open>\<open>main\<close> answers 0 whether or not a module could be made.\<close>

lemma failure_not_reported:
  assumes "check_dirs [base @ [''src''], base @ [''contrib'']] d = (Inr (), d)"
    and "select_modules base project names = Inr [(modpath, modname)]" "fst (make_module base modpath modname d) = Inr False"
  shows "fst (create_main base project names d) = 0"
  using assms by (cases "make_module base modpath modname d") (simp add: create_main_def)

text \<open>A name of two parts is not refused: the second part is dropped.\<close>

lemma second_part_dropped: "select_modules [''ns3''] '''' [''lte/extra''] = Inr [([''ns3'', ''contrib''], ''lte'')]"
  by code_simp

lemma src_alone_raises: "select_modules [''ns3''] '''' [''src''] = Inl IndexError"
  by code_simp

lemma newline_allowed: "allowed_name (''new'' @ [nl])"
  by code_simp

section \<open>Properties\<close>

text \<open>
  C27: Whatever goes wrong while a module is made, an entry that was on the disk is still there with its
  contents, and nothing changes outside the new module and the directories above it.  When
  \<open>make_module\<close> returns \<open>False\<close> no part of the module remains, when it returns \<open>True\<close> the module directory holds exactly
  the planned directories and files.  It raises only \<open>OSError\<close>: when the first test whether the module
  exists fails, with the disk unchanged; or, after a failed attempt, when the second such test or the removal fails, and
  then parts of the module may remain.
\<close>
theorem make_module_atomic:
  assumes "m = modpath @ [modname]" and "out = make_module cwd modpath modname d" and "allowed_name modname"
    and tree: "entries d m = None \<longrightarrow> (\<forall>q. prefix m q \<longrightarrow> entries d q = None)"
  shows "(\<forall>q. entries d q \<noteq> None \<or> \<not> prefix q m \<and> \<not> prefix m q \<longrightarrow> entries (snd out) q = entries d q) \<and>
    (fst out = Inr False \<longrightarrow> (\<forall>q. prefix m q \<longrightarrow> entries (snd out) q = entries d q)) \<and>
    (fst out = Inr True \<longrightarrow> (\<forall>q. prefix m q \<longrightarrow> entries d q = None \<and> entries (snd out) q = module_tree cwd m modname q)) \<and>
    (\<forall>e. fst out = Inl e \<longrightarrow> e = OSError \<and>
       (unreadable d (entries d) m \<and> snd out = d \<or>
        entries d m = None \<and> (unreadable d (entries (snd out)) m \<or> \<not> removable d m)))"
proof (cases "\<not> unreadable d (entries d) m \<and> entries d m = None")
  case True
  have dot: "CHR ''.'' \<notin> set modname" using assms(3) by (rule allowed_no_dot)
  obtain r1 d1 where f: "fill_module cwd m modname d = (r1, d1)" by fastforce
  have below: "prefix m q \<Longrightarrow> entries d q = None" for q using tree True by simp
  note frame = fill_module_frame [OF dot f below]
  have rules: "unreadable d1 = unreadable d" "removable d1 = removable d" "survives d1 = survives d"
    using frame(1) by simp_all
  have out: "out = (case r1 of Inr _ \<Rightarrow> (Inr True, d1)
      | Inl e \<Rightarrow> st_bind (path_exists m) (\<lambda>there.
          if there then st_bind (rmtree m) (\<lambda>_ d. (Inr False, d)) else (\<lambda>d. (Inr False, d))) d1)"
    using True f assms(1,2) by (simp add: make_module_def path_exists_def st_bind_def Let_def split: sum.splits)
  consider (whole) "r1 = Inr ()" "out = (Inr True, d1)"
    | (clean) e where "r1 = Inl e" "entries d1 m = None" "out = (Inr False, d1)"
    | (removed) "out = (Inr False, d1\<lparr>entries := (\<lambda>q. if prefix m q then None else entries d1 q)\<rparr>)"
    | (blind) "unreadable d (entries d1) m" "out = (Inl OSError, d1)"
    | (stuck) "\<not> removable d m" "out = (Inl OSError, d1\<lparr>entries := (\<lambda>q. if prefix m q \<and> \<not> survives d m q then None else entries d1 q)\<rparr>)"
    using out rules
    by (cases r1; cases "entries d1 m"; cases "removable d m"; cases "unreadable d (entries d1) m")
      (simp_all add: path_exists_def rmtree_def st_bind_def)
  then show ?thesis
  proof cases
    case whole
    then show ?thesis using below frame(2,3) by simp
  next
    case clean
    then show ?thesis using below frame(2,4) by simp
  next
    case removed
    then show ?thesis using below frame(2) by auto
  next
    case blind
    then show ?thesis using True frame(2) by simp
  next
    case stuck
    then show ?thesis using True below frame(2) by auto
  qed
qed (use assms(1,2) in \<open>auto simp: make_module_def path_exists_def st_bind_def Let_def\<close>)

theorem make_module_atomic_witness:
  "fst (make_module [''ns3''] [''ns3'', ''contrib''] ''new-one'' no_wscript_tree) = Inr False \<and>
   entries (snd (make_module [''ns3''] [''ns3'', ''contrib''] ''new-one'' no_wscript_tree)) [''ns3'', ''contrib'', ''new-one''] = None \<and>
   entries (snd (make_module [''ns3''] [''ns3'', ''contrib''] ''new-one'' no_wscript_tree)) [''ns3'', ''contrib''] = Some Dir"
proof -
  have "fst (make_module [''ns3''] [''ns3'', ''contrib''] ''new-one'' no_wscript_tree) = Inr False"
    by (simp add: make_module_def path_exists_def fill_module_def module_functions_def make_wscript_def create_file_def open_wt_def st_bind_def
        mkdir_parents.simps [of "[''ns3'', ''contrib'', ''new-one'']"] mkdir_one_def rmtree_def no_wscript_tree_def empty_tree_def Let_def)
  moreover have "allowed_name ''new-one''" by code_simp
  moreover have "entries no_wscript_tree = entries empty_tree" by (simp add: no_wscript_tree_def)
  moreover have "entries empty_tree [''ns3'', ''contrib''] = Some Dir" by (simp add: empty_tree_def)
  ultimately show ?thesis
    using make_module_atomic [of "[''ns3'', ''contrib'', ''new-one'']" "[''ns3'', ''contrib'']" "''new-one''" _ "[''ns3'']" no_wscript_tree]
      empty_tree_below by simp
qed

text \<open>
  On a disk where nothing is refused, the root and the existing directories above the module are
  directories and there is nothing at its path, \<open>make_module\<close> returns \<open>True\<close>.
\<close>
theorem make_module_succeeds:
  assumes "allowed_name modname" and "m = modpath @ [modname]"
    and "entries d [] = Some Dir" "\<And>q. prefix m q \<Longrightarrow> entries d q = None"
    and "\<And>q. prefix q m \<Longrightarrow> entries d q = None \<or> entries d q = Some Dir"
    and "\<And>q. prefix q m \<or> prefix m q \<Longrightarrow> \<not> refused d q" "\<not> unreadable d (entries d) m"
  shows "fst (make_module cwd modpath modname d) = Inr True"
proof -
  have dot: "CHR ''.'' \<notin> set modname" using assms(1) by (rule allowed_no_dot)
  obtain d1 where m: "mkdir_parents m d = (Inr (), d1)"
    using mkdir_parents_succeeds [of m d] assms by auto
  note frame = mkdir_parents_frame [OF m]
  have "entries d1 q = None" if "strict_prefix m q" for q
    using frame assms(4) [of q] that by (auto simp: strict_prefix_def dest: prefix_order.antisym)
  then have "plan_ok (entries d1) (module_plan cwd m modname)" using frame by (intro plan_fits) simp_all
  moreover have "\<forall>p \<in> fst ` set (module_plan cwd m modname). \<not> refused d1 p"
    using plan_below assms(6) frame by (auto simp: strict_prefix_def)
  ultimately obtain d2 where "place (module_plan cwd m modname) d1 = (Inr (), d2)" using place_succeeds by blast
  then show ?thesis
    using m assms(2,4,7) by (simp add: make_module_def path_exists_def fill_module_place [OF dot] st_bind_def)
qed

theorem make_module_succeeds_witness: "fst (make_module [''ns3''] [''ns3'', ''contrib''] ''new-one'' empty_tree) = Inr True"
proof (rule make_module_succeeds [of _ "[''ns3'', ''contrib'', ''new-one'']"])
  show "allowed_name ''new-one''" by code_simp
qed (simp_all add: empty_tree_below empty_tree_above, simp_all add: empty_tree_def)

end
