(* ===== verification/CFlags.thy ===== *)
theory CFlags
  imports PyLib
begin

text \<open>
  The compiler flags of the build profiles, \<^verbatim>\<open>waf-tools/cflags.py\<close>.  A traits object is a record of its
  table and its methods; the configuration set of waf is a parameter, the record \<open>config_set\<close> of the
  operations that the tool calls.
\<close>

section \<open>Compiler traits\<close>

text \<open>A method that falls off its last \<open>elif\<close> returns \<open>None\<close>.\<close>

record traits =
  warnings_flags :: "string list list"
  optimization_flags :: "int \<Rightarrow> string list option"
  debug_flags :: "int \<Rightarrow> (string list \<times> string list) option"

fun warnings_loop :: "string list list \<Rightarrow> nat list \<Rightarrow> string list \<Rightarrow> string list" where
  "warnings_loop table [] warnings = warnings"
| "warnings_loop table (l # ls) warnings =
     (if l < length table then warnings_loop table ls (warnings @ table ! l) else warnings)"

definition get_warnings_flags :: "traits \<Rightarrow> int \<Rightarrow> string list" where
  "get_warnings_flags tr level = warnings_loop (warnings_flags tr) [0..<nat level] []"

definition gnu_optimization :: "int \<Rightarrow> string list option" where
  "gnu_optimization level =
     (if level = 0 then Some [''-O0''] else if level = 1 then Some [''-O'']
      else if level = 2 then Some [''-O2''] else if level = 3 then Some [''-O3''] else None)"

definition gnu_debug :: "int \<Rightarrow> (string list \<times> string list) option" where
  "gnu_debug level =
     (if level = 0 then Some ([''-g0''], [''NDEBUG'']) else if level = 1 then Some ([''-g''], [])
      else if 2 \<le> level then Some ([''-ggdb'', ''-g3''], [''_DEBUG'']) else None)"

definition gcc :: traits where
  "gcc = \<lparr>warnings_flags = [[''-Wall''], [''-Werror''], [''-Wextra'']],
     optimization_flags = gnu_optimization, debug_flags = gnu_debug\<rparr>"

definition icc :: traits where
  "icc = \<lparr>warnings_flags = [[], [], [''-Wall'']], optimization_flags = gnu_optimization, debug_flags = gnu_debug\<rparr>"

definition msvc_optimization :: "int \<Rightarrow> string list option" where
  "msvc_optimization level =
     (if level = 0 then Some [''/Od''] else if level = 1 then Some []
      else if level = 2 then Some [''/O2''] else if level = 3 then Some [''/Ox''] else None)"

definition msvc_debug :: "int \<Rightarrow> (string list \<times> string list) option" where
  "msvc_debug level =
     (if level = 0 then Some ([], [''NDEBUG'']) else if level = 1 then Some ([''/ZI'', ''/RTC1''], [])
      else if 2 \<le> level then Some ([''/ZI'', ''/RTC1''], [''_DEBUG'']) else None)"

definition msvc :: traits where
  "msvc = \<lparr>warnings_flags = [[''/W2''], [''/WX''], [''/Wall'']],
     optimization_flags = msvc_optimization, debug_flags = msvc_debug\<rparr>"

definition compiler_mapping :: "(string \<times> traits) list" where
  "compiler_mapping =
     [(''gcc'', gcc), (''g++'', gcc), (''msvc'', msvc), (''icc'', icc), (''icpc'', icc), (''clang'', gcc), (''clang++'', gcc)]"

definition profiles :: "(string \<times> int \<times> int \<times> int) list" where
  "profiles = [(''default'', 2, 1, 1), (''debug'', 0, 2, 3), (''release'', 3, 1, 0)]"

definition default_profile :: string where
  "default_profile = ''default''"

section \<open>Configuring\<close>

text \<open>
  \<open>env[k]\<close> read as a text and as a list (an unset variable is empty), and \<open>append_value\<close>.  Appending
  \<open>None\<close> raises \<open>TypeError\<close>.
\<close>

record 'env config_set =
  env_str :: "'env \<Rightarrow> string \<Rightarrow> string"
  env_list :: "'env \<Rightarrow> string \<Rightarrow> string list"
  append_value :: "'env \<Rightarrow> string \<Rightarrow> string list \<Rightarrow> 'env"

definition append_flags :: "'env config_set \<Rightarrow> string \<Rightarrow> string list option \<Rightarrow> 'env \<Rightarrow> 'env res" where
  "append_flags cs var val env = (case val of None \<Rightarrow> Inl TypeError | Some flags \<Rightarrow> Inr (append_value cs env var flags))"

definition find_compiler :: "string \<Rightarrow> string \<Rightarrow> traits option" where
  "find_compiler cc cxx =
     (case map_of compiler_mapping cc of Some tr \<Rightarrow> Some tr | None \<Rightarrow> map_of compiler_mapping cxx)"

definition language_flags ::
  "'env config_set \<Rightarrow> string \<Rightarrow> string \<Rightarrow> string \<Rightarrow> string list option \<Rightarrow> string list \<Rightarrow> string list \<Rightarrow> string list \<Rightarrow> 'env \<Rightarrow> 'env res" where
  "language_flags cs name flags_var defs_var optimizations debug warnings debug_defs env =
     (if name \<noteq> '''' \<and> env_list cs env flags_var = [] then
        rbind (append_flags cs flags_var optimizations env) (\<lambda>env.
          let env = append_value cs env flags_var debug;
              env = append_value cs env flags_var warnings
          in Inr (append_value cs env defs_var debug_defs))
      else Inr env)"

definition configure :: "'env config_set \<Rightarrow> string \<Rightarrow> bool \<Rightarrow> 'env \<Rightarrow> 'env res" where
  "configure cs build_profile disable_werror env =
     (let cc = env_str cs env ''COMPILER_CC''; cxx = env_str cs env ''COMPILER_CXX''
      in if cc = '''' \<and> cxx = '''' then Inl (WafError ''neither COMPILER_CC nor COMPILER_CXX are defined'')
         else
           (case find_compiler cc cxx of
              None \<Rightarrow> Inr env
            | Some compiler \<Rightarrow>
                (case map_of profiles build_profile of
                   None \<Rightarrow> Inl KeyError
                 | Some (opt_level, warn_level, dbg_level) \<Rightarrow>
                     (case debug_flags compiler dbg_level of
                        None \<Rightarrow> Inl TypeError
                      | Some (debug, debug_defs) \<Rightarrow>
                          (let optimizations = optimization_flags compiler opt_level;
                               warnings = get_warnings_flags compiler warn_level;
                               warnings = (if disable_werror then remove1 ''-Werror'' warnings else warnings)
                           in rbind (language_flags cs cc ''CCFLAGS'' ''CCDEFINES'' optimizations debug warnings debug_defs env)
                                (language_flags cs cxx ''CXXFLAGS'' ''CXXDEFINES'' optimizations debug warnings debug_defs))))))"

section \<open>The contract of the traits\<close>

text \<open>
  What the tool relies on: the four optimisation levels and all levels of debugging exist, assertions
  are compiled out exactly at debug level 0, and \<open>-Werror\<close> occurs at most once among the warnings.
\<close>

locale compiler_traits =
  fixes tr :: traits
  assumes optimization_exists: "0 \<le> level \<Longrightarrow> level \<le> 3 \<Longrightarrow> optimization_flags tr level \<noteq> None"
    and debug_exists: "0 \<le> level \<Longrightarrow> debug_flags tr level \<noteq> None"
    and debug_defines: "debug_flags tr level = Some (fs, defs) \<Longrightarrow>
      defs = (if level = 0 then [''NDEBUG''] else if level = 1 then [] else [''_DEBUG''])"
    and one_werror: "count_list (concat (warnings_flags tr)) ''-Werror'' \<le> 1"
begin

lemma levels_exist:
  assumes "map_of profiles p = Some (ol, wl, dl)"
  shows "\<exists>opts debug. optimization_flags tr ol = Some opts \<and>
    debug_flags tr dl = Some (debug, if p = ''release'' then [''NDEBUG''] else if p = ''debug'' then [''_DEBUG''] else [])"
proof -
  have levels: "0 \<le> ol \<and> ol \<le> 3 \<and> 0 \<le> dl \<and> (p = ''release'' \<longleftrightarrow> dl = 0) \<and> (p = ''debug'' \<longleftrightarrow> 2 \<le> dl)"
    using assms by (auto simp: profiles_def split: if_splits)
  then obtain opts debug defs where "optimization_flags tr ol = Some opts" "debug_flags tr dl = Some (debug, defs)"
    using optimization_exists [of ol] debug_exists [of dl] by auto
  then show ?thesis using debug_defines [of dl debug defs] levels by auto
qed

end

lemma optimization_levels [simp]:
  "0 \<le> level \<Longrightarrow> level \<le> 3 \<Longrightarrow> gnu_optimization level \<noteq> None"
  "0 \<le> level \<Longrightarrow> level \<le> 3 \<Longrightarrow> msvc_optimization level \<noteq> None"
  by (auto simp: gnu_optimization_def msvc_optimization_def)

lemma debug_levels [simp]: "0 \<le> level \<Longrightarrow> gnu_debug level \<noteq> None" "0 \<le> level \<Longrightarrow> msvc_debug level \<noteq> None"
  by (auto simp: gnu_debug_def msvc_debug_def)

lemma debug_level_defines:
  "gnu_debug level = Some (fs, defs) \<Longrightarrow> defs = (if level = 0 then [''NDEBUG''] else if level = 1 then [] else [''_DEBUG''])"
  "msvc_debug level = Some (fs, defs) \<Longrightarrow> defs = (if level = 0 then [''NDEBUG''] else if level = 1 then [] else [''_DEBUG''])"
  by (simp_all add: gnu_debug_def msvc_debug_def split: if_splits)

interpretation gcc: compiler_traits gcc
  by unfold_locales (simp_all add: gcc_def debug_level_defines del: not_None_eq)

interpretation icc: compiler_traits icc
  by unfold_locales (simp_all add: icc_def debug_level_defines del: not_None_eq)

interpretation msvc: compiler_traits msvc
  by unfold_locales (simp_all add: msvc_def debug_level_defines del: not_None_eq)

lemma mapped_traits: "find_compiler cc cxx = Some tr \<Longrightarrow> compiler_traits tr"
  by (auto simp: find_compiler_def compiler_mapping_def gcc.compiler_traits_axioms icc.compiler_traits_axioms
      msvc.compiler_traits_axioms split: option.splits if_splits)

section \<open>Properties\<close>

lemma warnings_loop_concat: "warnings_loop table [a..<b] acc = acc @ concat (drop a (take b table))"
proof (induction "b - a" arbitrary: a acc)
  case (Suc n)
  then have "[a..<b] = a # [Suc a..<b]" by (simp add: upt_conv_Cons)
  moreover have "drop a (take b table) = table ! a # drop (Suc a) (take b table)" if "a < length table"
    using that Suc.hyps(2) by (simp add: Cons_nth_drop_Suc [symmetric, of a "take b table"])
  ultimately show ?case using Suc.hyps(1) [of "Suc a"] Suc.hyps(2) by simp
qed simp

lemma warnings_cumulative: "get_warnings_flags tr level = concat (take (nat level) (warnings_flags tr))"
  by (simp add: get_warnings_flags_def warnings_loop_concat)

text \<open>The documented behaviour of the configuration set: \<open>append_value\<close> extends the list of its variable and no other.\<close>

definition config_set_laws :: "'env config_set \<Rightarrow> bool" where
  "config_set_laws cs \<longleftrightarrow> (\<forall>env var flags k. env_list cs (append_value cs env var flags) k =
     (if k = var then env_list cs env k @ flags else env_list cs env k))"

lemma append_value_law:
  "config_set_laws cs \<Longrightarrow> env_list cs (append_value cs env var flags) k =
     (if k = var then env_list cs env k @ flags else env_list cs env k)"
  by (simp add: config_set_laws_def)

text \<open>The flags and the definitions of a profile.\<close>

definition profile_flags :: "traits \<Rightarrow> string \<Rightarrow> bool \<Rightarrow> string list" where
  "profile_flags tr p disable_werror =
     (case map_of profiles p of
        None \<Rightarrow> []
      | Some (opt_level, warn_level, dbg_level) \<Rightarrow>
          the (optimization_flags tr opt_level) @ fst (the (debug_flags tr dbg_level)) @
          filter (\<lambda>f. disable_werror \<longrightarrow> f \<noteq> ''-Werror'') (concat (take (nat warn_level) (warnings_flags tr))))"

definition profile_defines :: "string \<Rightarrow> string list" where
  "profile_defines p = (if p = ''release'' then [''NDEBUG''] else if p = ''debug'' then [''_DEBUG''] else [])"

lemma remove_once: "count_list xs x \<le> 1 \<Longrightarrow> remove1 x xs = filter (\<lambda>y. y \<noteq> x) xs"
  by (induction xs) (auto simp: count_list_0_iff split: if_splits intro!: filter_True [symmetric])

lemma count_list_take: "count_list (concat (take n xss)) x \<le> count_list (concat xss) x"
  by (metis append_take_drop_id concat_append count_list_append le_add1)

lemma werror_removed:
  assumes "compiler_traits tr"
  shows "(if dw then remove1 ''-Werror'' (get_warnings_flags tr level) else get_warnings_flags tr level) =
    filter (\<lambda>f. dw \<longrightarrow> f \<noteq> ''-Werror'') (concat (take (nat level) (warnings_flags tr)))"
proof -
  have "count_list (concat (take (nat level) (warnings_flags tr))) ''-Werror'' \<le> 1"
    by (rule le_trans [OF count_list_take compiler_traits.one_werror [OF assms]])
  then show ?thesis by (simp add: warnings_cumulative remove_once)
qed

definition defaults_apply :: "'env config_set \<Rightarrow> 'env \<Rightarrow> string \<Rightarrow> string \<Rightarrow> bool" where
  "defaults_apply cs env compiler var \<longleftrightarrow> env_str cs env compiler \<noteq> '''' \<and> env_list cs env var = []"

lemma language_flags_set:
  assumes "config_set_laws cs" "fv \<noteq> dv"
  shows "\<exists>env'. language_flags cs name fv dv (Some opts) debug warnings defs env = Inr env' \<and>
    (\<forall>k. env_list cs env' k = (if name \<noteq> '''' \<and> env_list cs env fv = [] then
       (if k = fv then opts @ debug @ warnings else if k = dv then env_list cs env k @ defs else env_list cs env k)
       else env_list cs env k))"
  using assms by (simp add: language_flags_def append_flags_def append_value_law Let_def)

text \<open>
  For a known compiler and a profile of the table, \<open>configure\<close> succeeds.  The flags of a language that
  has a compiler and no flags of its own become the optimisation, debug and warning flags of the profile,
  without \<open>-Werror\<close> if that is disabled, and its definitions are extended by \<open>NDEBUG\<close> in a release and
  \<open>_DEBUG\<close> in a debug build; flags the user gave, and every other variable, are left alone.
\<close>
theorem configure_flags:
  assumes "config_set_laws cs" "p \<in> set (keys profiles)"
    and "find_compiler (env_str cs env ''COMPILER_CC'') (env_str cs env ''COMPILER_CXX'') = Some tr"
  shows "\<exists>env'. configure cs p dw env = Inr env' \<and>
    (\<forall>k. env_list cs env' k =
       (if defaults_apply cs env ''COMPILER_CC'' ''CCFLAGS'' \<and> k = ''CCFLAGS'' \<or>
           defaults_apply cs env ''COMPILER_CXX'' ''CXXFLAGS'' \<and> k = ''CXXFLAGS'' then profile_flags tr p dw
        else if defaults_apply cs env ''COMPILER_CC'' ''CCFLAGS'' \<and> k = ''CCDEFINES'' \<or>
           defaults_apply cs env ''COMPILER_CXX'' ''CXXFLAGS'' \<and> k = ''CXXDEFINES'' then env_list cs env k @ profile_defines p
        else env_list cs env k))"
proof -
  let ?cc = "env_str cs env ''COMPILER_CC''" and ?cxx = "env_str cs env ''COMPILER_CXX''"
  have tr: "compiler_traits tr" using mapped_traits [OF assms(3)] .
  obtain ol wl dl where prof: "map_of profiles p = Some (ol, wl, dl)"
    using assms(2) by (metis map_of_eq_None_iff not_None_eq prod_cases3 set_map)
  obtain opts debug where levels: "optimization_flags tr ol = Some opts" "debug_flags tr dl = Some (debug, profile_defines p)"
    using compiler_traits.levels_exist [OF tr prof] by (auto simp: profile_defines_def)
  define ws where "ws = filter (\<lambda>f. dw \<longrightarrow> f \<noteq> ''-Werror'') (concat (take (nat wl) (warnings_flags tr)))"
  have flags: "profile_flags tr p dw = opts @ debug @ ws" by (simp add: profile_flags_def prof levels ws_def)
  obtain e1 where 1: "language_flags cs ?cc ''CCFLAGS'' ''CCDEFINES'' (Some opts) debug ws (profile_defines p) env = Inr e1"
    "\<forall>k. env_list cs e1 k = (if ?cc \<noteq> '''' \<and> env_list cs env ''CCFLAGS'' = [] then
       (if k = ''CCFLAGS'' then opts @ debug @ ws else if k = ''CCDEFINES'' then env_list cs env k @ profile_defines p
        else env_list cs env k) else env_list cs env k)"
    using language_flags_set [OF assms(1), of "''CCFLAGS''" "''CCDEFINES''" ?cc opts debug ws "profile_defines p" env] by auto
  obtain e2 where 2: "language_flags cs ?cxx ''CXXFLAGS'' ''CXXDEFINES'' (Some opts) debug ws (profile_defines p) e1 = Inr e2"
    "\<forall>k. env_list cs e2 k = (if ?cxx \<noteq> '''' \<and> env_list cs e1 ''CXXFLAGS'' = [] then
       (if k = ''CXXFLAGS'' then opts @ debug @ ws else if k = ''CXXDEFINES'' then env_list cs e1 k @ profile_defines p
        else env_list cs e1 k) else env_list cs e1 k)"
    using language_flags_set [OF assms(1), of "''CXXFLAGS''" "''CXXDEFINES''" ?cxx opts debug ws "profile_defines p" e1] by auto
  have "\<not> (?cc = '''' \<and> ?cxx = '''')"
    using assms(3) by (auto simp: find_compiler_def compiler_mapping_def)
  then have "configure cs p dw env = Inr e2"
    using assms(3) prof levels 1(1) 2(1) werror_removed [OF tr, of dw wl]
    by (simp add: configure_def ws_def Let_def)
  then show ?thesis
    using 1(2) 2(2) flags by (auto simp: defaults_apply_def)
qed

definition map_config_set :: "(string \<times> (string \<Rightarrow> string list)) config_set" where
  "map_config_set = \<lparr>env_str = (\<lambda>(cc, m) k. if k = ''COMPILER_CC'' then cc else ''''), env_list = snd,
     append_value = (\<lambda>(cc, m) k v. (cc, m(k := m k @ v)))\<rparr>"

lemma map_config_set_laws: "config_set_laws map_config_set"
  by (auto simp: config_set_laws_def map_config_set_def)

theorem configure_flags_witness:
  "\<exists>env'. configure map_config_set ''debug'' True (''gcc'', \<lambda>k. []) = Inr env' \<and>
     env_list map_config_set env' ''CCFLAGS'' = [''-O0'', ''-ggdb'', ''-g3'', ''-Wall''] \<and>
     env_list map_config_set env' ''CCDEFINES'' = [''_DEBUG''] \<and> env_list map_config_set env' ''CXXFLAGS'' = []"
proof -
  have "find_compiler (env_str map_config_set (''gcc'', \<lambda>k. []) ''COMPILER_CC'') (env_str map_config_set (''gcc'', \<lambda>k. []) ''COMPILER_CXX'') = Some gcc"
    "''debug'' \<in> set (keys profiles)"
    by (simp_all add: find_compiler_def compiler_mapping_def map_config_set_def profiles_def)
  moreover have "profile_flags gcc ''debug'' True = [''-O0'', ''-ggdb'', ''-g3'', ''-Wall'']" "profile_defines ''debug'' = [''_DEBUG'']"
    by code_simp+
  ultimately show ?thesis
    using configure_flags [OF map_config_set_laws, of "''debug''" "(''gcc'', \<lambda>k. [])" gcc True]
    by (auto simp: defaults_apply_def map_config_set_def)
qed

text \<open>With the Microsoft compiler, warnings stay errors.\<close>

lemma msvc_warnings_stay_errors: "''/WX'' \<in> set (profile_flags msvc ''debug'' True)"
  by code_simp

end
