(* ===== verification/CompileDb.thy ===== *)
theory CompileDb
  imports Shlex
begin

text \<open>
  The compilation database, \<^verbatim>\<open>waf-tools/clang_compilation_database.py\<close>: the tasks of the build that
  compile a file are collected, and at its end the command of each is written to
  \<^verbatim>\<open>compile_commands.json\<close>, over the entries that the file had.  A JSON object is an association list;
  reading and writing the file is left to \<open>json\<close>, so that the entries read (or the error raised) are an
  argument and the entries written are the result.
\<close>

section \<open>Collecting the tasks\<close>

text \<open>
  A task has \<open>last_cmd\<close> once it has run, \<open>cwd\<close> only if it was set, and a list of input nodes given by
  their absolute paths.
\<close>

record comp_task =
  compiles_c :: bool
  last_cmd :: "string list option"
  task_cwd :: "string option"
  task_inputs :: "string list"

record comp_build =
  clang_compilation_database_tasks :: "comp_task list option"
  post_funs :: nat

definition collect_compilation_db_tasks :: "comp_task list \<Rightarrow> comp_build \<Rightarrow> comp_build" where
  "collect_compilation_db_tasks compiled_tasks bld =
     (let bld = (case clang_compilation_database_tasks bld of
                   Some _ \<Rightarrow> bld
                 | None \<Rightarrow> bld\<lparr>clang_compilation_database_tasks := Some [], post_funs := post_funs bld + 1\<rparr>)
      in fold (\<lambda>task bld. if compiles_c task then
                bld\<lparr>clang_compilation_database_tasks := map_option (\<lambda>db. db @ [task]) (clang_compilation_database_tasks bld)\<rparr>
              else bld) compiled_tasks bld)"

section \<open>Writing the database\<close>

type_synonym json_obj = "(string \<times> string) list"

definition entry_file :: "json_obj \<Rightarrow> string res" where
  "entry_file x = (case map_of x ''file'' of None \<Rightarrow> Inl KeyError | Some f \<Rightarrow> Inr f)"

fun index_entries :: "json_obj list \<Rightarrow> (string \<times> json_obj) list \<Rightarrow> (string \<times> json_obj) list res" where
  "index_entries [] db = Inr db"
| "index_entries (x # xs) db = rbind (entry_file x) (\<lambda>f. index_entries xs (AList.update f x db))"

definition task_entry :: "string \<Rightarrow> string \<Rightarrow> comp_task \<Rightarrow> string list \<Rightarrow> json_obj res" where
  "task_entry cwd variant_dir task cmd =
     (let dir = (case task_cwd task of Some d \<Rightarrow> d | None \<Rightarrow> variant_dir)
      in rbind (py_index (task_inputs task) 0) (\<lambda>f_node.
         rbind (relpath cwd f_node dir) (\<lambda>filename.
           Inr [(''directory'', dir), (''command'', join_with '' '' (map shlex_quote cmd)), (''file'', filename)])))"

fun add_tasks :: "string \<Rightarrow> string \<Rightarrow> comp_task list \<Rightarrow> (string \<times> json_obj) list \<Rightarrow> (string \<times> json_obj) list res" where
  "add_tasks cwd variant_dir [] db = Inr db"
| "add_tasks cwd variant_dir (task # tasks) db =
     (case last_cmd task of
        None \<Rightarrow> add_tasks cwd variant_dir tasks db
      | Some cmd \<Rightarrow>
          rbind (task_entry cwd variant_dir task cmd) (\<lambda>x.
          rbind (entry_file x) (\<lambda>filename.
            add_tasks cwd variant_dir tasks (AList.update filename x db))))"

text \<open>\<open>IOError\<close> is caught; the tasks are those of the build, if it collected any.\<close>

definition write_compilation_database ::
  "string \<Rightarrow> string \<Rightarrow> json_obj list res \<Rightarrow> comp_build \<Rightarrow> json_obj list res" where
  "write_compilation_database cwd variant_dir loaded bld =
     rbind (case loaded of
              Inl OSError \<Rightarrow> Inr []
            | Inl (FileNotFoundError f) \<Rightarrow> Inr []
            | other \<Rightarrow> other) (\<lambda>root.
     rbind (index_entries root []) (\<lambda>clang_db.
     rbind (add_tasks cwd variant_dir (case clang_compilation_database_tasks bld of Some ts \<Rightarrow> ts | None \<Rightarrow> []) clang_db) (\<lambda>clang_db.
       Inr (map snd clang_db))))"

section \<open>Properties\<close>

text \<open>The entries that are indexed one after the other: a later one replaces an earlier one of the same file.\<close>

definition file_of :: "json_obj \<Rightarrow> string" where
  "file_of x = (case map_of x ''file'' of Some f \<Rightarrow> f | None \<Rightarrow> '''')"

definition indexed :: "(string \<times> json_obj) list \<Rightarrow> bool" where
  "indexed db \<longleftrightarrow> distinct (keys db) \<and> (\<forall>(f, x) \<in> set db. file_of x = f)"

definition last_entry :: "json_obj list \<Rightarrow> string \<Rightarrow> json_obj option" where
  "last_entry xs = map_of (rev (map (\<lambda>x. (file_of x, x)) xs))"

lemma last_entry_snoc: "last_entry (xs @ [x]) = (last_entry xs)(file_of x \<mapsto> x)"
  by (simp add: last_entry_def)

lemma set_update_pairs: "(f, y) \<in> set (AList.update k v db) \<Longrightarrow> (f, y) \<in> set db \<or> (f = k \<and> y = v)"
  by (induction db) (auto split: if_splits)

lemma indexed_update: "indexed db \<Longrightarrow> indexed (AList.update (file_of x) x db)"
  by (auto simp: indexed_def dest: set_update_pairs)

definition holds :: "json_obj list \<Rightarrow> (string \<times> json_obj) list \<Rightarrow> bool" where
  "holds xs db \<longleftrightarrow> indexed db \<and> map_of db = last_entry xs"

lemma holds_update: "holds xs db \<Longrightarrow> holds (xs @ [x]) (AList.update (file_of x) x db)"
  by (simp add: holds_def indexed_update last_entry_snoc)

lemma index_entries_holds:
  "holds ys db \<Longrightarrow> list_all (\<lambda>x. map_of x ''file'' \<noteq> None) xs \<Longrightarrow> \<exists>db'. index_entries xs db = Inr db' \<and> holds (ys @ xs) db'"
proof (induction xs arbitrary: ys db)
  case (Cons x xs)
  then have "entry_file x = Inr (file_of x)" by (auto simp: entry_file_def file_of_def)
  moreover have "\<exists>db'. index_entries xs (AList.update (file_of x) x db) = Inr db' \<and> holds ((ys @ [x]) @ xs) db'"
    using Cons by (intro Cons.IH holds_update) simp_all
  ultimately show ?case by simp
qed simp

definition ran :: "comp_task list \<Rightarrow> comp_task list" where
  "ran ts = filter (\<lambda>t. last_cmd t \<noteq> None) ts"

lemma task_entry_fields:
  "task_entry cwd vd t cmd = Inr x \<Longrightarrow> entry_file x = Inr (file_of x) \<and> shlex_split (the (map_of x ''command'')) = Inr cmd"
  by (auto simp: task_entry_def entry_file_def file_of_def rbind_eq_Inr Let_def split_quoted)

lemma add_tasks_holds:
  "holds ys db \<Longrightarrow> rmap (\<lambda>t. task_entry cwd vd t (the (last_cmd t))) (ran ts) = Inr new \<Longrightarrow>
     \<exists>db'. add_tasks cwd vd ts db = Inr db' \<and> holds (ys @ new) db'"
proof (induction ts arbitrary: ys db new)
  case (Cons t ts)
  show ?case
  proof (cases "last_cmd t")
    case None
    then show ?thesis using Cons by (simp add: ran_def)
  next
    case (Some cmd)
    then obtain x new' where x: "task_entry cwd vd t cmd = Inr x" "new = x # new'"
      and new': "rmap (\<lambda>t. task_entry cwd vd t (the (last_cmd t))) (ran ts) = Inr new'"
      using Cons.prems(2) by (auto simp: ran_def rbind_eq_Inr)
    then show ?thesis
      using Cons.IH [OF holds_update [OF Cons.prems(1), of x] new'] Some task_entry_fields [OF x(1)] by simp
  qed
qed (simp add: ran_def)

lemma holds_values: "holds xs db \<Longrightarrow> distinct (map file_of (map snd db)) \<and> (y \<in> set (map snd db) \<longleftrightarrow> last_entry xs (file_of y) = Some y)"
proof -
  assume h: "holds xs db"
  have ks: "map file_of (map snd db) = keys db" using h by (auto simp: holds_def indexed_def)
  have "(f, z) \<in> set db \<longleftrightarrow> last_entry xs f = Some z" for f z
    using h map_of_eq_Some_iff [of db f z] by (simp add: holds_def indexed_def)
  moreover have "y \<in> set (map snd db) \<longleftrightarrow> (file_of y, y) \<in> set db"
    using h by (force simp: holds_def indexed_def)
  moreover have "distinct (map file_of (map snd db))" unfolding ks using h by (simp add: holds_def indexed_def)
  ultimately show ?thesis by blast
qed

text \<open>
  With the entries \<open>old\<close> read from the database and the entries \<open>new\<close> of the tasks that have run, the
  database that is written has one entry for each file, the last of \<open>old\<close> and \<open>new\<close> for it, and splitting
  the command of a new entry like a shell gives the command of its task back.
\<close>
theorem database_last_entries:
  assumes "list_all (\<lambda>x. map_of x ''file'' \<noteq> None) old"
    and "clang_compilation_database_tasks bld = Some ts"
    and "rmap (\<lambda>t. task_entry cwd vd t (the (last_cmd t))) (ran ts) = Inr new"
  shows "\<exists>db. write_compilation_database cwd vd (Inr old) bld = Inr db \<and> distinct (map file_of db) \<and>
    (\<forall>x. x \<in> set db \<longleftrightarrow> last_entry (old @ new) (file_of x) = Some x) \<and>
    list_all2 (\<lambda>t x. shlex_split (the (map_of x ''command'')) = Inr (the (last_cmd t))) (ran ts) new"
proof -
  have "holds [] []" by (simp add: holds_def indexed_def last_entry_def)
  from index_entries_holds [OF this assms(1)] obtain db where db: "index_entries old [] = Inr db" "holds old db" by auto
  from add_tasks_holds [OF db(2) assms(3)] obtain db' where db': "add_tasks cwd vd ts db = Inr db'" "holds (old @ new) db'" by auto
  have "list_all2 (\<lambda>t x. task_entry cwd vd t (the (last_cmd t)) = Inr x) (ran ts) new" using assms(3) by (simp add: rmap_all2)
  then have "list_all2 (\<lambda>t x. shlex_split (the (map_of x ''command'')) = Inr (the (last_cmd t))) (ran ts) new"
    by (rule list_all2_mono) (simp add: task_entry_fields)
  then show ?thesis
    using holds_values [OF db'(2)] db(1) db'(1) assms(2) by (simp add: write_compilation_database_def)
qed

definition built :: comp_task where
  "built = \<lparr>compiles_c = True, last_cmd = Some [''gcc'', ''-DNAME=a b'', ''-c'', ''../x.c''], task_cwd = None,
     task_inputs = [''/ns3/x.c'']\<rparr>"

theorem database_last_entries_witness:
  "\<exists>db. write_compilation_database ''/'' ''/ns3/build'' (Inr [[(''file'', ''../x.c''), (''command'', ''cc'')]])
      \<lparr>clang_compilation_database_tasks = Some [built], post_funs = 1\<rparr> = Inr db \<and>
     db = [[(''directory'', ''/ns3/build''),
       (''command'', ''gcc '' @ [squote] @ ''-DNAME=a b'' @ [squote] @ '' -c ../x.c''), (''file'', ''../x.c'')]]"
proof -
  let ?bld = "\<lparr>clang_compilation_database_tasks = Some [built], post_funs = 1\<rparr>" and ?old = "[(''file'', ''../x.c''), (''command'', ''cc'')]"
    and ?new = "[(''directory'', ''/ns3/build''), (''command'', ''gcc '' @ [squote] @ ''-DNAME=a b'' @ [squote] @ '' -c ../x.c''), (''file'', ''../x.c'')]"
  have "rmap (\<lambda>t. task_entry ''/'' ''/ns3/build'' t (the (last_cmd t))) (ran [built]) = Inr [?new]" by code_simp
  then obtain db where db: "write_compilation_database ''/'' ''/ns3/build'' (Inr [?old]) ?bld = Inr db"
    and x: "distinct (map file_of db)" "\<And>x. x \<in> set db \<longleftrightarrow> last_entry [?old, ?new] (file_of x) = Some x"
    using database_last_entries [of "[?old]" ?bld "[built]" "''/''" "''/ns3/build''" "[?new]"] by auto
  have "last_entry [?old, ?new] = (\<lambda>_. None)(''../x.c'' \<mapsto> ?new)"
    by (auto simp: last_entry_def file_of_def)
  then have "x \<in> set db \<longleftrightarrow> x = ?new" for x unfolding x(2) by (auto simp: file_of_def)
  then have "set db = {?new}" by blast
  then have "db = [?new]" using x(1) by (cases db; cases "tl db") auto
  then show ?thesis using db by blast
qed

text \<open>A build registers the function that writes the database once, however many task generators it has.\<close>

lemma collect_once:
  assumes "bld' = collect_compilation_db_tasks ts bld"
  shows "post_funs bld' = (if clang_compilation_database_tasks bld = None then post_funs bld + 1 else post_funs bld) \<and>
    clang_compilation_database_tasks bld' =
      Some ((case clang_compilation_database_tasks bld of Some db \<Rightarrow> db | None \<Rightarrow> []) @ filter compiles_c ts)"
proof -
  let ?f = "\<lambda>task bld. if compiles_c task then
    bld\<lparr>clang_compilation_database_tasks := map_option (\<lambda>db. db @ [task]) (clang_compilation_database_tasks bld)\<rparr> else bld"
  have "clang_compilation_database_tasks b = Some db \<Longrightarrow>
    post_funs (fold ?f ts b) = post_funs b \<and> clang_compilation_database_tasks (fold ?f ts b) = Some (db @ filter compiles_c ts)" for b db
    by (induction ts arbitrary: b db) simp_all
  then show ?thesis unfolding assms collect_compilation_db_tasks_def Let_def by (auto split: option.splits)
qed

end
