(* ===== verification/BindingScan.thy ===== *)
theory BindingScan
  imports CreateModule
begin

text \<open>
  The hook that the scanner of the Python bindings runs on every C++ declaration,
  \<^verbatim>\<open>bindings/python/ns3modulescan-modular.py\<close>.  A declaration of pygccxml is a record of what the hook
  reads of it; the table \<open>type_annotations\<close>, which the hook changes, is part of the state.
\<close>

section \<open>Paths of headers\<close>

text \<open>\<open>os.path.split\<close>.\<close>

definition path_split :: "string \<Rightarrow> string \<times> string" where
  "path_split p =
     (let tail = rev (takeWhile (\<lambda>c. c \<noteq> CHR ''/'') (rev p)); head = take (length p - length tail) p
      in (if list_ex (\<lambda>c. c \<noteq> CHR ''/'') head then rev (dropWhile (\<lambda>c. c = CHR ''/'') (rev head)) else head, tail))"

lemma path_split_shorter: "length (fst (path_split p)) \<le> length p"
proof -
  have "length (dropWhile P (rev (take n p))) \<le> length p" for P n
    by (rule le_trans [OF length_dropWhile_le]) simp
  then show ?thesis by (simp add: path_split_def Let_def)
qed

lemma path_split_same: "length (fst (path_split p)) = length p \<Longrightarrow> fst (path_split p) = p"
proof -
  assume l: "length (fst (path_split p)) = length p"
  define tl where "tl = takeWhile (\<lambda>c. c \<noteq> CHR ''/'') (rev p)"
  define hd where "hd = take (length p - length tl) p"
  have fst: "fst (path_split p) = (if list_ex (\<lambda>c. c \<noteq> CHR ''/'') hd then rev (dropWhile (\<lambda>c. c = CHR ''/'') (rev hd)) else hd)"
    by (simp add: path_split_def Let_def tl_def hd_def)
  have "length (fst (path_split p)) \<le> length hd"
    unfolding fst using length_dropWhile_le [of "\<lambda>c. c = CHR ''/''" "rev hd"] by simp
  then have hd: "hd = p" using l by (auto simp: hd_def)
  show ?thesis
  proof (cases "list_ex (\<lambda>c. c \<noteq> CHR ''/'') hd")
    case True
    then have "length (dropWhile (\<lambda>c. c = CHR ''/'') (rev p)) = length (rev p)" using l fst hd by simp
    then have "dropWhile (\<lambda>c. c = CHR ''/'') (rev p) = rev p"
      by (metis append_eq_append_conv append_self_conv2 takeWhile_dropWhile_id)
    then show ?thesis using fst hd True by simp
  qed (use fst hd in simp)
qed

lemma path_split_less: "path_split h = (n, t) \<Longrightarrow> n \<noteq> h \<Longrightarrow> length n < length h"
  using path_split_shorter [of h] path_split_same [of h] by (cases "length n = length h") auto

function relative_loop :: "string \<Rightarrow> string list \<Rightarrow> string res" where
  "relative_loop head l =
     (if head = '''' then Inl AssertionError
      else
        (case path_split head of (new_head, tail) \<Rightarrow>
           if new_head = head then Inl ValueError
           else if tail = ''ns3'' then
             (case l of [] \<Rightarrow> Inl TypeError | x # xs \<Rightarrow> Inr (foldl path_join x xs))
           else relative_loop new_head (tail # l)))"
  by pat_completeness auto
termination
  by (relation "measure (\<lambda>(h, l). length h)") (auto dest!: path_split_less [OF sym])

declare relative_loop.simps [simp del]

definition get_ns3_relative_path :: "string \<Rightarrow> string option res" where
  "get_ns3_relative_path path = (if path = '''' then Inr None else rbind (relative_loop path []) (\<lambda>h. Inr (Some h)))"

section \<open>The hook\<close>

datatype decl_kind = MemberFunction | Constructor | FreeFunction | OtherCallable | ClassDecl | Enumeration | OtherDecl

record cpp_decl =
  location_file :: string
  decl_kind_of :: decl_kind
  decl_parent :: string
  decl_name :: string
  decl_string :: string
  decl_text :: string
  template_args :: "string list"
  is_instantiation :: bool
  template_files :: "string option list"

datatype annotation = ANone | ATrue | AText string

type_synonym annotations = "(string \<times> annotation) list"

type_synonym param_annotations = "(string \<times> (string \<times> string) list) list"

record type_annotation =
  plain_annotations :: annotations
  params_annotation :: "param_annotations option"

record scan =
  type_annotations :: "(string \<times> type_annotation) list"
  global_annotations :: annotations
  parameter_annotations :: param_annotations
  default_values :: "string option list"

definition annotate :: "string \<Rightarrow> annotation \<Rightarrow> scan \<Rightarrow> scan" where
  "annotate k v s = s\<lparr>global_annotations := AList.update k v (global_annotations s)\<rparr>"

definition update_all :: "('k \<times> 'v) list \<Rightarrow> ('k \<times> 'v) list \<Rightarrow> ('k \<times> 'v) list" where
  "update_all d new = foldl (\<lambda>d (k, v). AList.update k v d) d new"

definition fix_default :: "string option \<Rightarrow> string option" where
  "fix_default v =
     (if v = Some ''ns3::MilliSeconds( )'' then Some ''ns3::MilliSeconds(0)''
      else if v = Some ''ns3::Seconds( )'' then Some ''ns3::Seconds(0)'' else v)"

text \<open>\<open>headers_map[h]\<close>.\<close>

definition header_module :: "(string \<Rightarrow> string option) \<Rightarrow> string option \<Rightarrow> string res" where
  "header_module headers_map h = (case Option.bind h headers_map of None \<Rightarrow> Inl KeyError | Some m \<Rightarrow> Inr m)"

fun template_modules :: "(string \<Rightarrow> string option) \<Rightarrow> string option list \<Rightarrow> string list res" where
  "template_modules headers_map [] = Inr []"
| "template_modules headers_map (None # ts) = template_modules headers_map ts"
| "template_modules headers_map (Some f # ts) =
     (case get_ns3_relative_path f of
        Inl ValueError \<Rightarrow> template_modules headers_map ts
      | Inl e \<Rightarrow> Inl e
      | Inr h \<Rightarrow> rbind (header_module headers_map h) (\<lambda>m. rbind (template_modules headers_map ts) (\<lambda>ms. Inr (m # ms))))"

definition defining_module :: "(string \<Rightarrow> string option) \<Rightarrow> string \<Rightarrow> cpp_decl \<Rightarrow> string \<Rightarrow> string res" where
  "defining_module headers_map this d m =
     (if is_instantiation d then
        rbind (template_modules headers_map (template_files d)) (\<lambda>ms. Inr (if this \<in> set ms then this else m))
      else Inr m)"

definition annotate_method :: "cpp_decl \<Rightarrow> scan \<Rightarrow> scan" where
  "annotate_method d s =
     (let s = (if decl_parent d = ''Object'' \<and> decl_name d = ''GetObject'' \<and> template_args d = [''ns3::Object'']
               then annotate ''template_instance_names'' (AText ''ns3::Object=>GetObject'') s else s);
          s = (if decl_parent d = ''Simulator'' \<and> startswith (decl_name d) ''Schedule'' then annotate ''ignore'' ANone s else s)
      in if decl_parent d = ''Simulator'' \<and> decl_name d = ''Run'' then annotate ''ignore'' ATrue s else s)"

text \<open>The branch for classes, after which the hook has nothing left to do; the entries of classes have no \<open>params\<close>.\<close>

definition annotate_class :: "string \<Rightarrow> string \<Rightarrow> cpp_decl \<Rightarrow> scan \<Rightarrow> scan" where
  "annotate_class this m d s =
     (let s = (if m \<noteq> this then annotate ''import_from_module'' (AText (''ns.'' @ replace_char (CHR ''-'') ''_'' m)) s else s)
      in if startswith (decl_string d) ''::ns3::SimpleRefCount<'' then
           annotate ''automatic_type_narrowing'' (AText ''true'') (annotate ''peekref_method'' (AText ''GetReferenceCount'')
             (annotate ''decref_method'' (AText ''Unref'') (annotate ''incref_method'' (AText ''Ref'') s)))
         else if startswith (decl_string d) ''::ns3::Callback<'' \<or> startswith (decl_string d) ''::ns3::TracedCallback<'' \<or>
                 startswith (decl_string d) ''::ns3::Ptr<'' then annotate ''ignore'' ANone s
         else
           (case map_of (type_annotations s) (decl_string d) of
              None \<Rightarrow> s
            | Some a \<Rightarrow> s\<lparr>global_annotations := update_all (global_annotations s) (plain_annotations a)\<rparr>))"

text \<open>The parameters of a function: \<open>del annotations['params']\<close> takes them out of the table.\<close>

definition annotate_function :: "cpp_decl \<Rightarrow> scan \<Rightarrow> scan" where
  "annotate_function d s =
     (case map_of (type_annotations s) (decl_text d) of
        None \<Rightarrow> s
      | Some a \<Rightarrow>
          (let s = (case params_annotation a of
                      None \<Rightarrow> s
                    | Some ps \<Rightarrow> s\<lparr>parameter_annotations := update_all (parameter_annotations s) ps,
                                  type_annotations := AList.update (decl_text d) (a\<lparr>params_annotation := None\<rparr>) (type_annotations s)\<rparr>)
           in s\<lparr>global_annotations := update_all (global_annotations s) (plain_annotations a)\<rparr>))"

definition PreScanHook :: "(string \<Rightarrow> string option) \<Rightarrow> string \<Rightarrow> cpp_decl \<Rightarrow> scan \<Rightarrow> unit res \<times> scan" where
  "PreScanHook headers_map this d s =
     (case get_ns3_relative_path (location_file d) of
        Inl ValueError \<Rightarrow> (Inr (), s)
      | Inl e \<Rightarrow> (Inl e, s)
      | Inr None \<Rightarrow> (Inr (), s)
      | Inr (Some '''') \<Rightarrow> (Inr (), s)
      | Inr (Some h) \<Rightarrow>
          (case header_module headers_map (Some h) of
             Inl e \<Rightarrow> (Inl e, s)
           | Inr m \<Rightarrow>
               (let s = annotate ''pygen_comment'' (AText (h @ '' (module '' @ py_repr m @ ''): '' @ decl_text d)) s;
                    s = (if decl_kind_of d = MemberFunction then annotate_method d s else s);
                    s = (if decl_kind_of d \<in> {MemberFunction, Constructor, FreeFunction, OtherCallable}
                         then s\<lparr>default_values := map fix_default (default_values s)\<rparr> else s)
                in if decl_kind_of d = ClassDecl then
                     (case defining_module headers_map this d m of
                        Inl e \<Rightarrow> (Inl e, s)
                      | Inr m \<Rightarrow> (Inr (), annotate_class this m d s))
                   else if decl_kind_of d = Enumeration then
                     (Inr (), if m \<noteq> this then annotate ''import_from_module'' (AText (''ns.'' @ m)) s else s)
                   else if decl_kind_of d = FreeFunction \<and> (m \<noteq> this \<or> decl_name d = ''PeekPointer'') then
                     (Inr (), annotate ''ignore'' ANone s)
                   else if decl_kind_of d \<in> {FreeFunction, MemberFunction, Constructor} then (Inr (), annotate_function d s)
                   else (Inr (), s))))"

section \<open>The path below ns3\<close>

definition component :: "string \<Rightarrow> bool" where
  "component c \<longleftrightarrow> c \<noteq> [] \<and> CHR ''/'' \<notin> set c"

lemma tail_component: "CHR ''/'' \<notin> set c \<Longrightarrow> takeWhile (\<lambda>x. x \<noteq> CHR ''/'') (rev (h @ CHR ''/'' # c)) = rev c"
  by (induction c rule: rev_induct) auto

lemma component_ends: "component c \<Longrightarrow> c \<noteq> [] \<and> last c \<noteq> CHR ''/'' \<and> take 1 c \<noteq> ''/''"
  using last_in_set [of c] by (cases c) (auto simp: component_def)

lemma split_last: "CHR ''/'' \<notin> set c \<Longrightarrow> snd (path_split (h @ CHR ''/'' # c)) = c"
  using tail_component [of c h] by (simp add: path_split_def Let_def)

lemma split_component:
  assumes "CHR ''/'' \<notin> set c" "h \<noteq> []" "last h \<noteq> CHR ''/''"
  shows "path_split (h @ CHR ''/'' # c) = (h, c)"
proof -
  obtain g x where h: "h = g @ [x]" "x \<noteq> CHR ''/''" using assms(2,3) by (cases h rule: rev_cases) auto
  have "take (length (h @ CHR ''/'' # c) - length c) (h @ CHR ''/'' # c) = h @ ''/''" by simp
  then show ?thesis using tail_component [OF assms(1), of h] h by (simp add: path_split_def Let_def)
qed

lemma split_not_whole: "c \<noteq> [] \<Longrightarrow> CHR ''/'' \<notin> set c \<Longrightarrow> fst (path_split (h @ CHR ''/'' # c)) \<noteq> h @ CHR ''/'' # c"
proof
  assume c: "c \<noteq> []" "CHR ''/'' \<notin> set c" and "fst (path_split (h @ CHR ''/'' # c)) = h @ CHR ''/'' # c"
  moreover have "length (fst (path_split (h @ CHR ''/'' # c))) \<le> Suc (length h)"
    using tail_component [OF c(2), of h] length_dropWhile_le [of "\<lambda>c. c = CHR ''/''" "CHR ''/'' # rev h"]
    by (simp add: path_split_def Let_def)
  ultimately show False using c(1) by (cases c) simp_all
qed

definition below :: "string \<Rightarrow> string list \<Rightarrow> string" where
  "below h cs = h @ concat (map (\<lambda>c. CHR ''/'' # c) cs)"

lemma below_last: "h \<noteq> [] \<Longrightarrow> last h \<noteq> CHR ''/'' \<Longrightarrow> list_all component cs \<Longrightarrow> below h cs \<noteq> [] \<and> last (below h cs) \<noteq> CHR ''/''"
proof (induction cs rule: rev_induct)
  case (snoc c cs)
  then have "c \<noteq> [] \<and> last c \<noteq> CHR ''/''" using component_ends [of c] by simp
  then show ?case by (simp add: below_def)
qed (simp add: below_def)

lemma relative_loop_below:
  assumes "list_all component cs" "''ns3'' \<notin> set cs" "cs @ l \<noteq> []"
  shows "relative_loop (below (pre @ ''/ns3'') cs) l = Inr (foldl path_join (hd (cs @ l)) (tl (cs @ l)))"
  using assms
proof (induction cs arbitrary: l rule: rev_induct)
  case Nil
  then obtain x xs where l: "l = x # xs" by (cases l) auto
  have "snd (path_split (pre @ ''/ns3'')) = ''ns3''" "fst (path_split (pre @ ''/ns3'')) \<noteq> pre @ ''/ns3''"
    using split_last [of "''ns3''" pre] split_not_whole [of "''ns3''" pre] by simp_all
  then show ?case by (subst relative_loop.simps) (auto simp: below_def l split: prod.splits)
next
  case (snoc c cs)
  have c: "component c" "c \<noteq> ''ns3''" using snoc.prems by auto
  let ?h = "below (pre @ ''/ns3'') cs"
  have h: "?h \<noteq> []" "last ?h \<noteq> CHR ''/''" using below_last [of "pre @ ''/ns3''" cs] snoc.prems by simp_all
  have "path_split (?h @ CHR ''/'' # c) = (?h, c)" using split_component [OF _ h] c by (simp add: component_def)
  moreover have "below (pre @ ''/ns3'') (cs @ [c]) = ?h @ CHR ''/'' # c" by (simp add: below_def)
  ultimately have "relative_loop (below (pre @ ''/ns3'') (cs @ [c])) l = relative_loop ?h (c # l)"
    using c(2) by (subst relative_loop.simps) simp
  also have "\<dots> = Inr (foldl path_join (hd (cs @ c # l)) (tl (cs @ c # l)))" using snoc.prems by (intro snoc.IH) simp_all
  finally show ?case by simp
qed

lemma foldl_path_join:
  "x \<noteq> [] \<Longrightarrow> last x \<noteq> CHR ''/'' \<Longrightarrow> list_all component xs \<Longrightarrow> foldl path_join x xs = below x xs"
proof (induction xs arbitrary: x)
  case (Cons c xs)
  then have c: "c \<noteq> []" "take 1 c \<noteq> ''/''" "last c \<noteq> CHR ''/''" using component_ends [of c] by simp_all
  have "foldl path_join (x @ CHR ''/'' # c) xs = below (x @ CHR ''/'' # c) xs"
    using Cons c by (intro Cons.IH) auto
  moreover have "path_join x c = x @ CHR ''/'' # c" using Cons.prems c by (simp add: path_join_def)
  ultimately show ?case by (simp add: below_def)
qed (simp add: below_def)

section \<open>Properties\<close>

text \<open>
  For the file of a header in or below a directory \<open>ns3\<close>, the path returned is the part of the file
  name after the last component \<open>ns3\<close>, whatever stands in front of it.
\<close>
theorem relative_path_correct:
  assumes "list_all component cs" "cs \<noteq> []" "''ns3'' \<notin> set cs"
  shows "get_ns3_relative_path (pre @ ''/ns3/'' @ join_with ''/'' cs) = Inr (Some (join_with ''/'' cs))"
proof -
  have join: "join_with ''/'' cs = below (hd cs) (tl cs)"
    using assms(2) by (induction cs rule: induct_list012) (simp_all add: below_def)
  then have path: "pre @ ''/ns3/'' @ join_with ''/'' cs = below (pre @ ''/ns3'') cs"
    using assms(2) by (cases cs) (simp_all add: below_def)
  have "hd cs \<noteq> []" "last (hd cs) \<noteq> CHR ''/''" "list_all component (tl cs)"
    using assms(1,2) component_ends [of "hd cs"] by (cases cs; simp)+
  then have "foldl path_join (hd cs) (tl cs) = join_with ''/'' cs" using foldl_path_join join by simp
  then show ?thesis using relative_loop_below [OF assms(1,3), of "[]" pre] assms(2) path
    by (simp add: get_ns3_relative_path_def below_def)
qed

theorem relative_path_correct_witness:
  "get_ns3_relative_path (''/home/ns3/build'' @ ''/ns3/'' @ join_with ''/'' [''sub'', ''node.h'']) = Inr (Some (join_with ''/'' [''sub'', ''node.h'']))"
  by (rule relative_path_correct) (simp_all add: component_def)

text \<open>
  The parameter annotations of a method in the table are handed out the first time the hook meets the
  method and removed from the table, so that a later declaration with the same text gets none.
\<close>
theorem params_handed_out_once:
  assumes "get_ns3_relative_path (location_file d) = Inr (Some h)" "h \<noteq> ''''" "headers_map h = Some m"
    and "decl_kind_of d = MemberFunction \<or> decl_kind_of d = Constructor"
    and "map_of (type_annotations s) (decl_text d) = Some a" "params_annotation a = Some ps"
    and "PreScanHook headers_map this d s = (r, s1)" "type_annotations t = type_annotations s1"
  shows "r = Inr () \<and> parameter_annotations s1 = update_all (parameter_annotations s) ps \<and>
    (\<exists>t1. PreScanHook headers_map this d t = (Inr (), t1) \<and> parameter_annotations t1 = parameter_annotations t)"
proof -
  have hook: "\<exists>s0. PreScanHook headers_map this d s = (Inr (), annotate_function d s0) \<and>
      type_annotations s0 = type_annotations s \<and> parameter_annotations s0 = parameter_annotations s" for s
  proof -
    have "h = hd h # tl h" using assms(2) by simp
    then obtain c cs where h: "h = c # cs" by blast
    have m: "header_module headers_map (Some h) = Inr m" using assms(3) by (simp add: header_module_def)
    show ?thesis using assms(1,4) m unfolding h
      by (cases "decl_kind_of d = Constructor") (auto simp: PreScanHook_def Let_def annotate_method_def annotate_def)
  qed
  obtain s0 where s0: "s1 = annotate_function d s0" "r = Inr ()" "type_annotations s0 = type_annotations s"
    "parameter_annotations s0 = parameter_annotations s" using hook [of s] assms(7) by auto
  then have "parameter_annotations s1 = update_all (parameter_annotations s) ps"
    "map_of (type_annotations s1) (decl_text d) = Some (a\<lparr>params_annotation := None\<rparr>)"
    using assms(5,6) by (simp_all add: annotate_function_def Let_def)
  moreover obtain t0 where "PreScanHook headers_map this d t = (Inr (), annotate_function d t0)"
    "type_annotations t0 = type_annotations s1" "parameter_annotations t0 = parameter_annotations t" using hook [of t] assms(8) by auto
  ultimately show ?thesis using s0(2) by (simp add: annotate_function_def)
qed

definition seed_method :: cpp_decl where
  "seed_method = \<lparr>location_file = ''/build/ns3/random.h'', decl_kind_of = MemberFunction, decl_parent = ''R'', decl_name = ''GetSeed'',
     decl_string = ''::ns3::R::GetSeed'', decl_text = ''GetSeed(seed)'', template_args = [], is_instantiation = False, template_files = []\<rparr>"

definition seed_scan :: scan where
  "seed_scan = \<lparr>type_annotations = [(''GetSeed(seed)'',
       \<lparr>plain_annotations = [], params_annotation = Some [(''seed'', [(''direction'', ''out'')])]\<rparr>)],
     global_annotations = [], parameter_annotations = [], default_values = []\<rparr>"

theorem params_handed_out_once_witness:
  "\<exists>r s1 t1. PreScanHook (\<lambda>h. Some ''core'') ''core'' seed_method seed_scan = (r, s1) \<and>
     parameter_annotations s1 = [(''seed'', [(''direction'', ''out'')])] \<and>
     PreScanHook (\<lambda>h. Some ''core'') ''core'' seed_method (s1\<lparr>parameter_annotations := []\<rparr>) = (Inr (), t1) \<and> parameter_annotations t1 = []"
proof -
  obtain r s1 where first: "PreScanHook (\<lambda>h. Some ''core'') ''core'' seed_method seed_scan = (r, s1)" by fastforce
  have "get_ns3_relative_path (location_file seed_method) = Inr (Some ''random.h'')" by code_simp
  from params_handed_out_once [OF this, of "\<lambda>h. Some ''core''" "''core''" seed_scan _ "[(''seed'', [(''direction'', ''out'')])]" "''core''" r s1
      "s1\<lparr>parameter_annotations := []\<rparr>"] first
  show ?thesis by (auto simp: seed_method_def seed_scan_def update_all_def)
qed

text \<open>A class and an enumeration of one module are imported under different names if the module's name has a hyphen.\<close>

lemma enum_module_name:
  assumes "get_ns3_relative_path (location_file d) = Inr (Some (c # cs))" "headers_map (c # cs) = Some m" "m \<noteq> this"
    and "decl_kind_of d = Enumeration"
  shows "map_of (global_annotations (snd (PreScanHook headers_map this d s))) ''import_from_module'' = Some (AText (''ns.'' @ m))"
  using assms by (simp add: PreScanHook_def Let_def header_module_def annotate_def)

end
