(* ===== verification/VizData.thy ===== *)
theory VizData
  imports Complex_Main PyLib
begin

text \<open>
  The parts of the visualizer that do not draw: the statistics of the interfaces
  (\<^verbatim>\<open>plugins/interface_statistics.py\<close>) and the device traits and plugins of \<^verbatim>\<open>base.py\<close>.  What the
  simulator reports and what the import of a plugin does are arguments; floats are rationals.
\<close>

section \<open>Interface statistics\<close>

record dev_stats =
  transmittedPackets :: int
  transmittedBytes :: int
  receivedPackets :: int
  receivedBytes :: int

record net_dev_stats =
  txPackets :: int
  txBytes :: int
  rxPackets :: int
  rxBytes :: int
  txPacketRate :: rat
  rxPacketRate :: rat
  txBitRate :: rat
  rxBitRate :: rat

type_synonym collector = "(int \<times> dev_stats list list) list"

definition NODE_STATISTICS_MEMORY :: nat where
  "NODE_STATISTICS_MEMORY = 10"

function trim :: "'a list \<Rightarrow> 'a list" where
  "trim raw_stats_list =
     (if NODE_STATISTICS_MEMORY < length raw_stats_list then trim (tl raw_stats_list) else raw_stats_list)"
  by pat_completeness auto
termination
  by (relation "measure length") (auto simp: NODE_STATISTICS_MEMORY_def)

declare trim.simps [simp del]

text \<open>One node: the list of the dictionary is extended in place.\<close>

definition collect_node :: "int \<times> dev_stats list \<Rightarrow> collector \<Rightarrow> collector" where
  "collect_node stats node_statistics =
     (let raw_stats_list = (case map_of node_statistics (fst stats) of None \<Rightarrow> [] | Some l \<Rightarrow> l)
      in AList.update (fst stats) (trim (raw_stats_list @ [snd stats])) node_statistics)"

definition simulation_periodic_update :: "(int \<times> dev_stats list) list \<Rightarrow> collector \<Rightarrow> collector" where
  "simulation_periodic_update nodes_statistics c = fold collect_node nodes_statistics c"

definition over :: "rat \<Rightarrow> rat \<Rightarrow> rat res" where
  "over a k = (if k = 0 then Inl ZeroDivisionError else Inr (a / k))"

definition interface_rates :: "rat \<Rightarrow> dev_stats list \<Rightarrow> nat \<times> dev_stats \<Rightarrow> net_dev_stats res" where
  "interface_rates k first = (\<lambda>(iface, stats).
     rbind (py_index first (int iface)) (\<lambda>old.
     rbind (over (of_int (transmittedPackets stats - transmittedPackets old)) k) (\<lambda>tp.
     rbind (over (of_int (receivedPackets stats - receivedPackets old)) k) (\<lambda>rp.
     rbind (over (of_int (transmittedBytes stats - transmittedBytes old) * 8) k) (\<lambda>tb.
     rbind (over (of_int (receivedBytes stats - receivedBytes old) * 8) k) (\<lambda>rb.
       Inr \<lparr>txPackets = transmittedPackets stats, txBytes = transmittedBytes stats, rxPackets = receivedPackets stats,
            rxBytes = receivedBytes stats, txPacketRate = tp, rxPacketRate = rp, txBitRate = tb, rxBitRate = rb\<rparr>))))))"

definition get_interface_statistics :: "rat \<Rightarrow> collector \<Rightarrow> int \<Rightarrow> net_dev_stats list res" where
  "get_interface_statistics sample_period c nodeId =
     (case map_of c nodeId of
        None \<Rightarrow> Inr []
      | Some raw_stats_list \<Rightarrow>
          (if length raw_stats_list < NODE_STATISTICS_MEMORY then Inr []
           else if length raw_stats_list \<noteq> NODE_STATISTICS_MEMORY then Inl AssertionError
           else
             (let k = sample_period * (of_nat NODE_STATISTICS_MEMORY - 1); final = last raw_stats_list
              in rmap (interface_rates k (hd raw_stats_list)) (zip [0..<length final] final))))"

section \<open>Device traits\<close>

record traits_of_device =
  is_wireless :: "bool option"
  is_virtual :: bool

definition NetDeviceTraits :: "bool option \<Rightarrow> bool \<Rightarrow> traits_of_device res" where
  "NetDeviceTraits wireless virtual =
     (if virtual \<or> wireless \<noteq> None then Inr \<lparr>is_wireless = wireless, is_virtual = virtual\<rparr> else Inl AssertionError)"

type_synonym device_table = "(string \<times> traits_of_device) list"

definition netdevice_traits :: device_table where
  "netdevice_traits =
     [(''PointToPointNetDevice'', \<lparr>is_wireless = Some False, is_virtual = False\<rparr>),
      (''CsmaNetDevice'', \<lparr>is_wireless = Some False, is_virtual = False\<rparr>),
      (''WifiNetDevice'', \<lparr>is_wireless = Some True, is_virtual = False\<rparr>),
      (''BridgeNetDevice'', \<lparr>is_wireless = None, is_virtual = True\<rparr>),
      (''LoopbackNetDevice'', \<lparr>is_wireless = Some False, is_virtual = True\<rparr>),
      (''MeshPointDevice'', \<lparr>is_wireless = None, is_virtual = True\<rparr>),
      (''SubscriberStationNetDevice'', \<lparr>is_wireless = Some True, is_virtual = False\<rparr>),
      (''BaseStationNetDevice'', \<lparr>is_wireless = Some True, is_virtual = False\<rparr>),
      (''LteUeNetDevice'', \<lparr>is_wireless = Some True, is_virtual = False\<rparr>),
      (''LteEnbNetDevice'', \<lparr>is_wireless = Some True, is_virtual = False\<rparr>)]"

definition lookup_netdevice_traits :: "string \<Rightarrow> device_table \<Rightarrow> traits_of_device \<times> device_table" where
  "lookup_netdevice_traits class_type table =
     (case map_of table class_type of
        Some t \<Rightarrow> (t, table)
      | None \<Rightarrow> (let t = \<lparr>is_wireless = Some True, is_virtual = False\<rparr> in (t, AList.update class_type t table)))"

definition PIXELS_PER_METER :: rat where
  "PIXELS_PER_METER = 3"

definition transform_point_simulation_to_canvas :: "rat \<Rightarrow> rat \<Rightarrow> rat \<times> rat" where
  "transform_point_simulation_to_canvas x y = (x * PIXELS_PER_METER, y * PIXELS_PER_METER)"

definition transform_point_canvas_to_simulation :: "rat \<Rightarrow> rat \<Rightarrow> rat \<times> rat" where
  "transform_point_canvas_to_simulation x y = (x / PIXELS_PER_METER, y / PIXELS_PER_METER)"

section \<open>Plugins\<close>

text \<open>What importing a module does: it fails with \<open>ImportError\<close>, it raises something else, or it is there with or without \<open>register\<close>.\<close>

datatype imported = ImportFails | ImportRaises py_error | NoRegister | Registers string

record plugin_state =
  plugins :: "string list"
  plugin_modules :: "(string \<times> string) list"
  plugins_loaded :: bool
  sys_path :: "string list"

definition splitext :: "string \<Rightarrow> string \<times> string" where
  "splitext f =
     (let tail = takeWhile (\<lambda>c. c \<noteq> CHR ''.'') (rev f); i = length f - length tail - 1; stem = take i f
      in if CHR ''.'' \<in> set f \<and> list_ex (\<lambda>c. c \<noteq> CHR ''.'') stem then (stem, drop i f) else (f, ''''))"

definition register_plugin :: "string \<Rightarrow> string \<Rightarrow> string \<Rightarrow> plugin_state \<Rightarrow> plugin_state" where
  "register_plugin init name mod_obj st =
     st\<lparr>plugins := plugins st @ [init], plugin_modules := AList.update name mod_obj (plugin_modules st)\<rparr>"

fun load_files :: "(string \<Rightarrow> imported) \<Rightarrow> string list \<Rightarrow> plugin_state \<Rightarrow> unit res \<times> plugin_state" where
  "load_files imp [] st = (Inr (), st)"
| "load_files imp (filename # files) st =
     (case splitext filename of (name, ext) \<Rightarrow>
        if ext \<noteq> ''.py'' then load_files imp files st
        else (case imp name of
                ImportFails \<Rightarrow> load_files imp files st
              | ImportRaises e \<Rightarrow> (Inl e, st)
              | NoRegister \<Rightarrow> load_files imp files st
              | Registers f \<Rightarrow> load_files imp files (register_plugin f name name st)))"

definition load_plugins :: "string \<Rightarrow> string list \<Rightarrow> (string \<Rightarrow> imported) \<Rightarrow> plugin_state \<Rightarrow> unit res \<times> plugin_state" where
  "load_plugins plugins_dir files imp st =
     (if plugins_loaded st then (Inr (), st)
      else
        (let old_path = sys_path st
         in st_bind (load_files imp files) (\<lambda>_ st. (Inr (), st\<lparr>sys_path := old_path\<rparr>))
              (st\<lparr>plugins_loaded := True, sys_path := plugins_dir # sys_path st\<rparr>)))"

section \<open>Properties\<close>

definition window_of :: "'a list \<Rightarrow> 'a list" where
  "window_of xs = drop (length xs - NODE_STATISTICS_MEMORY) xs"

lemma trim_last: "trim xs = window_of xs"
proof (induction xs rule: trim.induct)
  case (1 xs)
  show ?case
  proof (cases "NODE_STATISTICS_MEMORY < length xs")
    case True
    then have "length xs - NODE_STATISTICS_MEMORY = Suc (length (tl xs) - NODE_STATISTICS_MEMORY)" by auto
    then show ?thesis using 1 True by (simp add: trim.simps [of xs] drop_Suc window_of_def)
  qed (simp add: trim.simps [of xs] window_of_def)
qed

definition samples :: "int \<Rightarrow> (int \<times> dev_stats list) list \<Rightarrow> dev_stats list list" where
  "samples nodeId us = map snd (filter (\<lambda>u. fst u = nodeId) us)"

lemma window_snoc: "window_of (window_of xs @ [x]) = window_of (xs @ [x])"
proof -
  have "length xs - (length xs - 10 + 9) + (length xs - 10) = length xs - 9" by arith
  then show ?thesis by (simp add: window_of_def NODE_STATISTICS_MEMORY_def)
qed

lemma collect_window:
  "map_of (fold collect_node us []) nodeId = (if samples nodeId us = [] then None else Some (window_of (samples nodeId us)))"
proof (induction us rule: rev_induct)
  case (snoc u us)
  show ?case
  proof (cases "fst u = nodeId")
    case True
    have "samples nodeId (us @ [u]) = samples nodeId us @ [snd u]" using True by (simp add: samples_def)
    moreover have "collect_node u c = AList.update nodeId (window_of ((case map_of c nodeId of None \<Rightarrow> [] | Some l \<Rightarrow> l) @ [snd u])) c" for c
      using True by (simp add: collect_node_def trim_last)
    ultimately show ?thesis using snoc window_snoc [of "samples nodeId us" "snd u"] by simp
  qed (use snoc in \<open>simp add: collect_node_def Let_def samples_def\<close>)
qed (simp add: samples_def)

lemma updates_fold: "fold simulation_periodic_update us c = fold collect_node (concat us) c"
  by (induction us arbitrary: c) (simp_all add: simulation_periodic_update_def)

lemma statistics_of_window:
  "get_interface_statistics sp (fold simulation_periodic_update us []) nodeId =
     (let xs = samples nodeId (concat us); n = length xs
      in if n < NODE_STATISTICS_MEMORY then Inr []
         else rmap (interface_rates (sp * 9) (xs ! (n - NODE_STATISTICS_MEMORY))) (zip [0..<length (last xs)] (last xs)))"
proof -
  define xs where "xs = samples nodeId (concat us)"
  have "hd (window_of xs) = xs ! (length xs - NODE_STATISTICS_MEMORY)" "last (window_of xs) = last xs" "length (window_of xs) = 10"
    if "NODE_STATISTICS_MEMORY \<le> length xs"
    using that by (simp_all add: window_of_def NODE_STATISTICS_MEMORY_def hd_drop_conv_nth last_drop)
  moreover have "length (window_of xs) = min 10 (length xs)" by (simp add: window_of_def NODE_STATISTICS_MEMORY_def)
  ultimately show ?thesis
    by (cases "NODE_STATISTICS_MEMORY \<le> length xs")
      (simp_all add: get_interface_statistics_def updates_fold collect_window Let_def flip: xs_def,
       auto simp: NODE_STATISTICS_MEMORY_def)
qed

text \<open>
  After any number of periodic updates, the statistics of a node with fewer than ten samples are empty.
  With ten or more, if the simulator has not lost interfaces, there is one entry for each interface of the
  newest sample, with its counters, and the rates are the differences to the sample nine periods older
  divided by nine periods (times eight for bits); no older sample has any influence.
\<close>
theorem interface_statistics_rates:
  fixes us :: "(int \<times> dev_stats list) list list"
  assumes "sp \<noteq> 0" "xs = samples nodeId (concat us)" "n = length xs"
    and "10 \<le> n \<longrightarrow> length (last xs) \<le> length (xs ! (n - 10))"
  shows "\<exists>out. get_interface_statistics sp (fold simulation_periodic_update us []) nodeId = Inr out \<and>
    length out = (if n < 10 then 0 else length (last xs)) \<and>
    (\<forall>i < length out. let new = last xs ! i; old = xs ! (n - 10) ! i in
       txPackets (out ! i) = transmittedPackets new \<and> rxBytes (out ! i) = receivedBytes new \<and>
       txPacketRate (out ! i) = of_int (transmittedPackets new - transmittedPackets old) / (9 * sp) \<and>
       rxPacketRate (out ! i) = of_int (receivedPackets new - receivedPackets old) / (9 * sp) \<and>
       txBitRate (out ! i) = 8 * of_int (transmittedBytes new - transmittedBytes old) / (9 * sp) \<and>
       rxBitRate (out ! i) = 8 * of_int (receivedBytes new - receivedBytes old) / (9 * sp))"
proof (cases "n < 10")
  case True
  then show ?thesis using assms(2,3) by (simp add: statistics_of_window NODE_STATISTICS_MEMORY_def)
next
  case False
  define rate where "rate i = (let new = last xs ! i; old = xs ! (n - 10) ! i in
    \<lparr>txPackets = transmittedPackets new, txBytes = transmittedBytes new, rxPackets = receivedPackets new, rxBytes = receivedBytes new,
     txPacketRate = of_int (transmittedPackets new - transmittedPackets old) / (sp * 9),
     rxPacketRate = of_int (receivedPackets new - receivedPackets old) / (sp * 9),
     txBitRate = of_int (transmittedBytes new - transmittedBytes old) * 8 / (sp * 9),
     rxBitRate = of_int (receivedBytes new - receivedBytes old) * 8 / (sp * 9)\<rparr>)" for i
  have "interface_rates (sp * 9) (xs ! (n - 10)) p = Inr (rate (fst p))" if "p \<in> set (zip [0..<length (last xs)] (last xs))" for p
    using that assms(1,4) False by (auto simp: set_zip interface_rates_def over_def rate_def Let_def)
  then have "get_interface_statistics sp (fold simulation_periodic_update us []) nodeId =
      Inr (map (\<lambda>p. rate (fst p)) (zip [0..<length (last xs)] (last xs)))"
    using False assms(2,3) by (simp add: statistics_of_window NODE_STATISTICS_MEMORY_def Let_def rmap_Inr)
  then show ?thesis using False by (simp add: rate_def Let_def mult.commute)
qed

definition sample_at :: "int \<Rightarrow> (int \<times> dev_stats list) list" where
  "sample_at i = [(7, [\<lparr>transmittedPackets = i, transmittedBytes = 100 * i, receivedPackets = 0, receivedBytes = 0\<rparr>])]"

theorem interface_statistics_rates_witness:
  "\<exists>st. get_interface_statistics 1 (fold simulation_periodic_update (map sample_at [0..11]) []) 7 = Inr [st] \<and> txPacketRate st = 1 \<and> txBitRate st = 800"
proof -
  define xs where "xs = samples 7 (concat (map sample_at [0..11]))"
  have xs: "xs = map (\<lambda>i. snd (hd (sample_at i))) [0..11]"
    by (simp add: xs_def samples_def sample_at_def comp_def upto_rec1)
  have "last xs = snd (hd (sample_at 11))" "xs ! 2 = snd (hd (sample_at 2))" "length xs = 12"
    by (simp_all add: xs upto_rec1)
  with interface_statistics_rates [of 1 xs 7 "map sample_at [0..11]" 12] show ?thesis
    by (auto simp: xs_def [symmetric] sample_at_def Let_def length_Suc_conv)
qed

text \<open>Loading twice is loading once; the module path is restored unless a plugin raises something other than \<open>ImportError\<close>.\<close>

lemma load_files_path: "load_files imp fs st = (r, st') \<Longrightarrow> sys_path st' = sys_path st \<and> plugins_loaded st' = plugins_loaded st"
  by (induction fs arbitrary: st) (auto simp: register_plugin_def split: prod.splits if_splits imported.splits)

lemma load_plugins_once:
  assumes "load_plugins dir fs imp st = (r, st')"
  shows "load_plugins dir fs imp st' = (Inr (), st')" "r = Inr () \<Longrightarrow> sys_path st' = sys_path st"
    and "r = Inl e \<Longrightarrow> sys_path st' = dir # sys_path st"
  using assms by (auto simp: load_plugins_def st_bind_def Let_def split: if_splits prod.splits sum.splits dest!: load_files_path)

lemma transform_inverse:
  "(case transform_point_simulation_to_canvas x y of (a, b) \<Rightarrow> transform_point_canvas_to_simulation a b) = (x, y)"
  by (simp add: transform_point_simulation_to_canvas_def transform_point_canvas_to_simulation_def PIXELS_PER_METER_def)

end
