(* ===== verification/VizSync.thy ===== *)
theory VizSync
  imports Transition Complex_Main "HOL-Library.Multiset"
begin

text \<open>
  The two threads of the visualizer (\<^verbatim>\<open>src/visualizer/visualizer/core.py\<close>): the simulation thread
  (\<^verbatim>\<open>SimulationThread.run\<close>) and the view thread, which runs the GTK main loop, its timers, idle
  callbacks and event handlers.  They share the simulator, a lock, the event \<^verbatim>\<open>go\<close>, the flag
  \<^verbatim>\<open>quit\<close>, the time to run to and the list of pause messages.

  A step of \<open>sync_step\<close> executes one statement of one thread.  The view thread is a stack of
  callbacks: \<^verbatim>\<open>update_view_timeout\<close> runs nested iterations of the main loop while the simulator
  is busy, so a callback can start on top of it.  Lists of messages are objects in a store, since both
  threads hold references to them.  What the outside decides is data of the event: which source the
  main loop dispatches, how far the simulator came, which messages it raised, whether the drawing code
  raised an exception.
\<close>

section \<open>State\<close>

datatype owner = Sim_thread | View_thread

text \<open>Where the simulation thread is in \<^verbatim>\<open>SimulationThread.run\<close>.\<close>

datatype sim_pc =
    S_test | S_wait | S_clear | S_check | S_acquire
  | S_run | S_load | S_fetch nat | S_extend nat "string list" | S_idle | S_release | S_dead

text \<open>The callbacks whose body runs between \<^verbatim>\<open>lock.acquire()\<close> and \<^verbatim>\<open>lock.release()\<close>.\<close>

datatype handler =
    Set_nodes_of_interest | Tooltip_query | Begin_node_drag | Node_drag_motion
  | Add_information_window | Update_ipython_selected_node | Update_capture_options

text \<open>A callback in execution, at its next statement; the number is the GLib source it serves.\<close>

datatype frame =
    V_try nat | V_events nat | V_take nat | V_reset nat nat | V_update nat nat | V_target nat nat
  | V_release nat nat | V_unwind nat nat | V_notify nat nat | V_finish nat
  | M_acquire | M_emit | M_release
  | L_acquire handler | L_body handler | L_release handler
  | A_body
  | Q_start | Q_go | Q_join | Q_main_quit

datatype source = Timer nat | Idle | Play | Speed rat | Locked handler | Autoscale | Quit

text \<open>The update timer and the two controls that start it, which only the view thread uses.\<close>

record ui =
  timers :: "(nat \<times> int) list"
  next_source :: nat
  update_timeout_id :: "nat option"
  active :: bool
  speed :: rat
  sample_period :: rat

record sync =
  lock :: "owner option"
  go :: bool
  quit :: bool
  target_time :: rat
  store :: "string list list"
  pause_messages :: nat
  sim_now :: rat
  helper_messages :: "string list"
  sim_pc :: sim_pc
  idle_sources :: nat
  ui :: ui
  autoscale_pending :: bool
  frames :: "frame list"
  main_quit :: bool
  runs :: nat
  emitted :: nat
  produced :: "string list"
  shown :: "string list list"
  dropped :: "string list"

definition SAMPLE_PERIOD :: rat where "SAMPLE_PERIOD = 1/10"

section \<open>The simulation thread\<close>

text \<open>
  One statement of \<^verbatim>\<open>SimulationThread.run\<close>.  The simulator runs from its current time at most
  to the target and reports the messages raised in this run; where it stops and what it reports are
  the arguments.
\<close>

definition run_until :: "rat \<Rightarrow> rat \<Rightarrow> rat \<Rightarrow> rat" where
  "run_until now target t = max now (min t target)"

fun sim_step :: "rat \<Rightarrow> string list \<Rightarrow> sync \<Rightarrow> sync option" where
  "sim_step t ms s = (case sim_pc s of
     S_test \<Rightarrow> Some (if quit s then s\<lparr>sim_pc := S_dead\<rparr> else s\<lparr>sim_pc := S_wait\<rparr>)
   | S_wait \<Rightarrow> if go s then Some (s\<lparr>sim_pc := S_clear\<rparr>) else None
   | S_clear \<Rightarrow> Some (s\<lparr>go := False, sim_pc := S_check\<rparr>)
   | S_check \<Rightarrow> Some (if quit s then s\<lparr>sim_pc := S_dead\<rparr> else s\<lparr>sim_pc := S_acquire\<rparr>)
   | S_acquire \<Rightarrow> if lock s = None then Some (s\<lparr>lock := Some Sim_thread, sim_pc := S_run\<rparr>) else None
   | S_run \<Rightarrow> Some (s\<lparr>sim_now := run_until (sim_now s) (target_time s) t, helper_messages := ms,
                   runs := runs s + 1, produced := produced s @ ms, sim_pc := S_load\<rparr>)
   | S_load \<Rightarrow> Some (s\<lparr>sim_pc := S_fetch (pause_messages s)\<rparr>)
   | S_fetch r \<Rightarrow> Some (s\<lparr>sim_pc := S_extend r (helper_messages s)\<rparr>)
   | S_extend r xs \<Rightarrow> Some (s\<lparr>store := (store s)[r := store s ! r @ xs], sim_pc := S_idle\<rparr>)
   | S_idle \<Rightarrow> Some (s\<lparr>idle_sources := idle_sources s + 1, sim_pc := S_release\<rparr>)
   | S_release \<Rightarrow> Some (s\<lparr>lock := None, sim_pc := S_test\<rparr>)
   | S_dead \<Rightarrow> None)"

section \<open>Timers\<close>

text \<open>\<^verbatim>\<open>GLib.source_remove\<close>: an identifier that is not that of a source is only warned about.\<close>

definition source_remove :: "nat \<Rightarrow> ui \<Rightarrow> ui" where
  "source_remove i u = u\<lparr>timers := filter (\<lambda>t. fst t \<noteq> i) (timers u)\<rparr>"

definition remove_update_timer :: "ui \<Rightarrow> ui" where
  "remove_update_timer u = (case update_timeout_id u of None \<Rightarrow> u | Some i \<Rightarrow> source_remove i u)"

text \<open>\<^verbatim>\<open>int(SAMPLE_PERIOD/min(self.speed, 1)*1e3)\<close>\<close>

definition update_interval :: "ui \<Rightarrow> int" where
  "update_interval u = \<lfloor>SAMPLE_PERIOD / min (speed u) 1 * 1000\<rfloor>"

definition start_update_timer :: "ui \<Rightarrow> ui" where
  "start_update_timer u = (let u = remove_update_timer u in
     u\<lparr>timers := timers u @ [(next_source u, update_interval u)],
       update_timeout_id := Some (next_source u), next_source := next_source u + 1\<rparr>)"

definition on_play_button_toggled :: "ui \<Rightarrow> ui" where
  "on_play_button_toggled u = (if active u then start_update_timer u else remove_update_timer u)"

text \<open>\<^verbatim>\<open>play_button.set_active\<close> emits \<^verbatim>\<open>toggled\<close> when the state changes.\<close>

definition set_active :: "bool \<Rightarrow> ui \<Rightarrow> ui" where
  "set_active b u = (if active u = b then u else on_play_button_toggled (u\<lparr>active := b\<rparr>))"

text \<open>The speed spin button: the adjustment keeps its value between 0.01 and 10.\<close>

definition speed_changed :: "rat \<Rightarrow> ui \<Rightarrow> ui" where
  "speed_changed v u = (let v = max (1/100) (min v 10) in
     start_update_timer (u\<lparr>speed := v, sample_period := SAMPLE_PERIOD * v\<rparr>))"

section \<open>The state at the start of the main loop\<close>

text \<open>
  \<^verbatim>\<open>SimulationThread.__init__\<close>, the attributes set by \<^verbatim>\<open>Visualizer.__init__\<close>,
  \<^verbatim>\<open>create_gui\<close>, which calls \<^verbatim>\<open>_speed_changed\<close> and so starts the timer while the play button is
  not active, and \<^verbatim>\<open>Visualizer.start\<close>; the last five fields record what has happened.
\<close>

definition start_ui :: ui where
  "start_ui = speed_changed 1 \<lparr>timers = [], next_source = 1, update_timeout_id = None, active = False, speed = 1,
     sample_period = SAMPLE_PERIOD\<rparr>"

definition start_state :: sync where
  "start_state = \<lparr>lock = None, go = False, quit = False, target_time = 0, store = [[]], pause_messages = 0,
     sim_now = 0, helper_messages = [], sim_pc = S_test, idle_sources = 0, ui = start_ui,
     autoscale_pending = True, frames = [], main_quit = False,
     runs = 0, emitted = 0, produced = [], shown = [], dropped = []\<rparr>"

section \<open>The view thread\<close>

text \<open>
  One statement of the callback on top of the stack; \<open>None\<close> while it is blocked.  In
  \<open>V_notify\<close> and \<open>V_finish\<close> several statements that touch only the state of the view thread make
  one step.  \<open>raises\<close> says that \<^verbatim>\<open>update_view\<close> raised: the \<^verbatim>\<open>finally\<close> clause releases the lock,
  the callback ends without a result and GLib drops its timer.
\<close>

fun view_timeout_step :: "bool \<Rightarrow> frame \<Rightarrow> frame list \<Rightarrow> sync \<Rightarrow> sync option" where
  "view_timeout_step raises (V_try i) fs s =
     (if lock s = None then Some (s\<lparr>lock := Some View_thread, frames := V_take i # fs\<rparr>)
      else Some (s\<lparr>frames := V_events i # fs\<rparr>))"
| "view_timeout_step raises (V_events i) fs s = Some (s\<lparr>frames := V_try i # fs\<rparr>)"
| "view_timeout_step raises (V_take i) fs s = Some (s\<lparr>frames := V_reset i (pause_messages s) # fs\<rparr>)"
| "view_timeout_step raises (V_reset i r) fs s =
     Some (s\<lparr>store := store s @ [[]], pause_messages := length (store s), frames := V_update i r # fs\<rparr>)"
| "view_timeout_step raises (V_update i r) fs s =
     Some (s\<lparr>frames := (if raises then V_unwind i r else V_target i r) # fs\<rparr>)"
| "view_timeout_step raises (V_target i r) fs s =
     Some (s\<lparr>target_time := sim_now s + sample_period (ui s), frames := V_release i r # fs\<rparr>)"
| "view_timeout_step raises (V_release i r) fs s = Some (s\<lparr>lock := None, frames := V_notify i r # fs\<rparr>)"
| "view_timeout_step raises (V_unwind i r) fs s =
     Some (s\<lparr>lock := None, ui := source_remove i (ui s), dropped := dropped s @ store s ! r, frames := fs\<rparr>)"
| "view_timeout_step raises (V_notify i r) fs s =
     Some (let s = s\<lparr>frames := V_finish i # fs\<rparr> in
           if store s ! r = [] then s else s\<lparr>shown := shown s @ [store s ! r], ui := set_active False (ui s)\<rparr>)"
| "view_timeout_step raises (V_finish i) fs s =
     Some (if active (ui s) then s\<lparr>go := True, frames := fs\<rparr>
           else s\<lparr>ui := source_remove i ((ui s)\<lparr>update_timeout_id := None\<rparr>), frames := fs\<rparr>)"
| "view_timeout_step raises _ fs s = None"

text \<open>\<^verbatim>\<open>update_model\<close>, as an idle callback: it returns \<^verbatim>\<open>None\<close>, so it runs once.\<close>

fun update_model_step :: "frame \<Rightarrow> frame list \<Rightarrow> sync \<Rightarrow> sync option" where
  "update_model_step M_acquire fs s =
     (if lock s = None then Some (s\<lparr>lock := Some View_thread, frames := M_emit # fs\<rparr>) else None)"
| "update_model_step M_emit fs s = Some (s\<lparr>emitted := emitted s + 1, frames := M_release # fs\<rparr>)"
| "update_model_step M_release fs s = Some (s\<lparr>lock := None, frames := fs\<rparr>)"
| "update_model_step _ fs s = None"

fun locked_step :: "frame \<Rightarrow> frame list \<Rightarrow> sync \<Rightarrow> sync option" where
  "locked_step (L_acquire h) fs s =
     (if lock s = None then Some (s\<lparr>lock := Some View_thread, frames := L_body h # fs\<rparr>) else None)"
| "locked_step (L_body h) fs s = Some (s\<lparr>frames := L_release h # fs\<rparr>)"
| "locked_step (L_release h) fs s = Some (s\<lparr>lock := None, frames := fs\<rparr>)"
| "locked_step _ fs s = None"

fun quit_step :: "frame \<Rightarrow> frame list \<Rightarrow> sync \<Rightarrow> sync option" where
  "quit_step Q_start fs s =
     Some (s\<lparr>ui := (remove_update_timer (ui s))\<lparr>update_timeout_id := None\<rparr>, quit := True, frames := Q_go # fs\<rparr>)"
| "quit_step Q_go fs s = Some (s\<lparr>go := True, frames := Q_join # fs\<rparr>)"
| "quit_step Q_join fs s = (if sim_pc s = S_dead then Some (s\<lparr>frames := Q_main_quit # fs\<rparr>) else None)"
| "quit_step Q_main_quit fs s = Some (s\<lparr>main_quit := True, frames := fs\<rparr>)"
| "quit_step _ fs s = None"

definition frame_step :: "bool \<Rightarrow> frame \<Rightarrow> frame list \<Rightarrow> sync \<Rightarrow> sync option" where
  "frame_step raises f fs s = (case f of
     M_acquire \<Rightarrow> update_model_step f fs s | M_emit \<Rightarrow> update_model_step f fs s
   | M_release \<Rightarrow> update_model_step f fs s
   | L_acquire h \<Rightarrow> locked_step f fs s | L_body h \<Rightarrow> locked_step f fs s | L_release h \<Rightarrow> locked_step f fs s
   | A_body \<Rightarrow> Some (s\<lparr>frames := fs\<rparr>)
   | Q_start \<Rightarrow> quit_step f fs s | Q_go \<Rightarrow> quit_step f fs s | Q_join \<Rightarrow> quit_step f fs s
   | Q_main_quit \<Rightarrow> quit_step f fs s
   | _ \<Rightarrow> view_timeout_step raises f fs s)"

definition view_step :: "bool \<Rightarrow> sync \<Rightarrow> sync option" where
  "view_step raises s = (case frames s of [] \<Rightarrow> None | f # fs \<Rightarrow> frame_step raises f fs s)"

section \<open>The main loop\<close>

text \<open>
  An iteration of the GTK main loop dispatches a source.  \<^verbatim>\<open>Gtk.main\<close> does so until
  \<^verbatim>\<open>main_quit\<close>; \<^verbatim>\<open>Gtk.main_iteration\<close> does so from the waiting loop of \<^verbatim>\<open>update_view_timeout\<close>.
  GLib does not dispatch a source again while its callback runs.
\<close>

definition can_dispatch :: "sync \<Rightarrow> bool" where
  "can_dispatch s = (case frames s of [] \<Rightarrow> \<not> main_quit s | V_events i # fs \<Rightarrow> True | _ \<Rightarrow> False)"

fun frame_source :: "frame \<Rightarrow> nat option" where
  "frame_source (V_try i) = Some i"
| "frame_source (V_events i) = Some i"
| "frame_source (V_take i) = Some i"
| "frame_source (V_reset i r) = Some i"
| "frame_source (V_update i r) = Some i"
| "frame_source (V_target i r) = Some i"
| "frame_source (V_release i r) = Some i"
| "frame_source (V_unwind i r) = Some i"
| "frame_source (V_notify i r) = Some i"
| "frame_source (V_finish i) = Some i"
| "frame_source _ = None"

fun dispatch_source :: "source \<Rightarrow> sync \<Rightarrow> sync option" where
  "dispatch_source (Timer i) s =
     (if i \<in> fst ` set (timers (ui s)) \<and> Some i \<notin> set (map frame_source (frames s))
      then Some (s\<lparr>frames := V_try i # frames s\<rparr>) else None)"
| "dispatch_source Idle s =
     (if idle_sources s = 0 then None
      else Some (s\<lparr>idle_sources := idle_sources s - 1, frames := M_acquire # frames s\<rparr>))"
| "dispatch_source Play s = Some (s\<lparr>ui := set_active (\<not> active (ui s)) (ui s)\<rparr>)"
| "dispatch_source (Speed v) s = Some (s\<lparr>ui := speed_changed v (ui s)\<rparr>)"
| "dispatch_source (Locked h) s = Some (s\<lparr>frames := L_acquire h # frames s\<rparr>)"
| "dispatch_source Autoscale s =
     (if autoscale_pending s then Some (s\<lparr>autoscale_pending := False, frames := A_body # frames s\<rparr>) else None)"
| "dispatch_source Quit s = Some (s\<lparr>frames := Q_start # frames s\<rparr>)"

datatype viz_event = Sim_step rat "string list" | View_step | View_raise | Dispatch source

fun sync_step :: "viz_event \<Rightarrow> sync \<Rightarrow> sync option" where
  "sync_step (Sim_step t ms) s = sim_step t ms s"
| "sync_step View_step s = view_step False s"
| "sync_step View_raise s = view_step True s"
| "sync_step (Dispatch d) s = (if can_dispatch s then dispatch_source d s else None)"


section \<open>Invariants\<close>

text \<open>Where a thread works on the simulator or on the shared list under the lock.\<close>

fun sim_locked :: "sim_pc \<Rightarrow> bool" where
  "sim_locked S_run = True"
| "sim_locked S_load = True"
| "sim_locked (S_fetch r) = True"
| "sim_locked (S_extend r ms) = True"
| "sim_locked S_idle = True"
| "sim_locked S_release = True"
| "sim_locked _ = False"

fun frame_locked :: "frame \<Rightarrow> bool" where
  "frame_locked (V_take i) = True"
| "frame_locked (V_reset i r) = True"
| "frame_locked (V_update i r) = True"
| "frame_locked (V_target i r) = True"
| "frame_locked (V_release i r) = True"
| "frame_locked (V_unwind i r) = True"
| "frame_locked M_emit = True"
| "frame_locked M_release = True"
| "frame_locked (L_body h) = True"
| "frame_locked (L_release h) = True"
| "frame_locked _ = False"

fun is_events :: "frame \<Rightarrow> bool" where
  "is_events (V_events i) = True"
| "is_events _ = False"

fun top_locked :: "frame list \<Rightarrow> bool" where
  "top_locked [] = False"
| "top_locked (f # fs) = frame_locked f"

definition lock_inv :: "sync \<Rightarrow> bool" where
  "lock_inv s \<longleftrightarrow> (lock s = Some Sim_thread \<longleftrightarrow> sim_locked (sim_pc s)) \<and>
     (lock s = Some View_thread \<longleftrightarrow> top_locked (frames s)) \<and> list_all is_events (tl (frames s))"

lemmas timer_defs = source_remove_def remove_update_timer_def start_update_timer_def
  on_play_button_toggled_def set_active_def speed_changed_def Let_def

lemmas frame_defs = view_step_def frame_step_def


lemma events_unlocked [simp]: "list_all is_events fs \<Longrightarrow> \<not> top_locked fs" "list_all is_events fs \<Longrightarrow> list_all is_events (tl fs)"
  by (cases fs; auto elim: is_events.elims)+

lemma lock_inv_sim: "lock_inv s \<Longrightarrow> sim_step t ms s = Some s' \<Longrightarrow> lock_inv s'"
  by (auto simp: lock_inv_def split: sim_pc.splits if_splits)

lemma lock_inv_view: "lock_inv s \<Longrightarrow> view_step b s = Some s' \<Longrightarrow> lock_inv s'"
  by (auto simp: lock_inv_def frame_defs Let_def split: list.splits frame.splits if_splits)

lemma lock_inv_dispatch: "lock_inv s \<Longrightarrow> can_dispatch s \<Longrightarrow> dispatch_source d s = Some s' \<Longrightarrow> lock_inv s'"
  by (cases d) (auto simp: lock_inv_def can_dispatch_def split: list.splits frame.splits if_splits)

lemma lock_inv_step: "lock_inv s \<Longrightarrow> sync_step e s = Some s' \<Longrightarrow> lock_inv s'"
  by (cases e) (auto intro: lock_inv_sim lock_inv_view lock_inv_dispatch simp del: sim_step.simps split: if_splits)


text \<open>
  The messages: those a callback has taken over, those on their way from the simulator to the shared
  list; who holds a reference to which list.
\<close>

fun taken :: "string list list \<Rightarrow> frame list \<Rightarrow> string list" where
  "taken st (V_update i r # fs) = st ! r"
| "taken st (V_target i r # fs) = st ! r"
| "taken st (V_release i r # fs) = st ! r"
| "taken st (V_unwind i r # fs) = st ! r"
| "taken st (V_notify i r # fs) = st ! r"
| "taken st _ = []"

fun arriving :: "string list \<Rightarrow> sim_pc \<Rightarrow> string list" where
  "arriving hm S_load = hm"
| "arriving hm (S_fetch r) = hm"
| "arriving hm (S_extend r ms) = ms"
| "arriving hm _ = []"

fun frame_refs_ok :: "nat \<Rightarrow> frame list \<Rightarrow> bool" where
  "frame_refs_ok n (V_reset i r # fs) = (r = n)"
| "frame_refs_ok n (V_update i r # fs) = (r < n)"
| "frame_refs_ok n (V_target i r # fs) = (r < n)"
| "frame_refs_ok n (V_release i r # fs) = (r < n)"
| "frame_refs_ok n (V_unwind i r # fs) = (r < n)"
| "frame_refs_ok n (V_notify i r # fs) = (r < n)"
| "frame_refs_ok n _ = True"

fun sim_refs_ok :: "nat \<Rightarrow> sim_pc \<Rightarrow> bool" where
  "sim_refs_ok n (S_fetch r) = (r = n)"
| "sim_refs_ok n (S_extend r ms) = (r = n)"
| "sim_refs_ok n _ = True"

definition refs_inv :: "sync \<Rightarrow> bool" where
  "refs_inv s \<longleftrightarrow> pause_messages s + 1 = length (store s) \<and> frame_refs_ok (pause_messages s) (frames s) \<and> sim_refs_ok (pause_messages s) (sim_pc s)"

definition message_inv :: "sync \<Rightarrow> bool" where
  "message_inv s \<longleftrightarrow> (dropped s = [] \<longrightarrow>
     concat (shown s) @ taken (store s) (frames s) @ store s ! pause_messages s @ arriving (helper_messages s) (sim_pc s) = produced s)"

text \<open>Whatever happens, every message is in one place: shown, dropped, taken, in the shared list or arriving.\<close>

definition account_inv :: "string \<Rightarrow> sync \<Rightarrow> bool" where
  "account_inv m s \<longleftrightarrow>
     count_list (concat (shown s)) m + count_list (dropped s) m + count_list (taken (store s) (frames s)) m +
     count_list (store s ! pause_messages s) m + count_list (arriving (helper_messages s) (sim_pc s)) m =
     count_list (produced s) m"

text \<open>The runs whose model update has not been queued yet, and the updates that have been begun.\<close>

fun unqueued :: "sim_pc \<Rightarrow> nat" where
  "unqueued S_load = 1"
| "unqueued (S_fetch r) = 1"
| "unqueued (S_extend r ms) = 1"
| "unqueued S_idle = 1"
| "unqueued _ = 0"

fun begun :: "frame list \<Rightarrow> nat" where
  "begun (M_acquire # fs) = 1"
| "begun (M_emit # fs) = 1"
| "begun _ = 0"

definition count_inv :: "sync \<Rightarrow> bool" where
  "count_inv s \<longleftrightarrow> emitted s + begun (frames s) + idle_sources s + unqueued (sim_pc s) = runs s"

text \<open>No wake-up is lost: once \<^verbatim>\<open>_quit\<close> has set the flag and the event, a waiting thread is woken.\<close>

definition wake_inv :: "sync \<Rightarrow> bool" where
  "wake_inv s \<longleftrightarrow> (quit s \<longrightarrow> sim_pc s = S_wait \<longrightarrow> go s \<or> hd (frames s) = Q_go \<and> frames s \<noteq> []) \<and>
     (frames s \<noteq> [] \<longrightarrow> hd (frames s) = Q_go \<or> hd (frames s) = Q_join \<longrightarrow> quit s)"

definition time_inv :: "sync \<Rightarrow> bool" where
  "time_inv s \<longleftrightarrow> sim_now s \<le> target_time s \<and> 0 < sample_period (ui s)"

lemma events_frames [simp]:
  assumes "list_all is_events fs"
  shows "taken st fs = []" "frame_refs_ok n fs" "begun fs = 0" "fs \<noteq> [] \<Longrightarrow> hd fs \<noteq> Q_go" "fs \<noteq> [] \<Longrightarrow> hd fs \<noteq> Q_join"
  using assms by (cases fs; auto elim: is_events.elims)+

lemma store_append [simp]: "r < length xs \<Longrightarrow> (xs @ [[]]) ! r = xs ! r" "n = length xs \<Longrightarrow> (xs @ [[]]) ! n = []"
  by (simp_all add: nth_append)

lemma refs_inv_sim: "refs_inv s \<Longrightarrow> sim_step t ms s = Some s' \<Longrightarrow> refs_inv s'"
  by (auto simp: refs_inv_def split: sim_pc.splits if_splits)

text \<open>A callback that holds the lock excludes the simulation thread, whatever it holds.\<close>

lemma unlocked_refs [simp]: "\<not> sim_locked pc \<Longrightarrow> sim_refs_ok n pc" "\<not> sim_locked pc \<Longrightarrow> arriving hm pc = []"
  by (cases pc; simp)+

lemma lock_inv_top:
  "lock_inv s \<Longrightarrow> frames s = f # fs \<Longrightarrow> frame_locked f \<Longrightarrow> \<not> sim_locked (sim_pc s)"
  "lock_inv s \<Longrightarrow> frames s = f # fs \<Longrightarrow> list_all is_events fs"
  by (auto simp: lock_inv_def)

lemma refs_inv_view: "lock_inv s \<Longrightarrow> refs_inv s \<Longrightarrow> view_step b s = Some s' \<Longrightarrow> refs_inv s'"
  by (auto simp: refs_inv_def frame_defs Let_def dest: lock_inv_top split: list.splits frame.splits if_splits)

lemma refs_inv_dispatch: "refs_inv s \<Longrightarrow> dispatch_source d s = Some s' \<Longrightarrow> refs_inv s'"
  by (cases d) (auto simp: refs_inv_def split: if_splits)

lemma taken_update [simp]: "frame_refs_ok n fs \<Longrightarrow> taken (st[n := x]) fs = taken st fs"
  by (cases "(st, fs)" rule: taken.cases) auto

lemma taken_append [simp]: "frame_refs_ok n fs \<Longrightarrow> n < length st \<Longrightarrow> taken (st @ [x]) fs = taken st fs"
  by (cases "(st, fs)" rule: taken.cases) (auto simp: nth_append)

lemma message_inv_sim:
  "refs_inv s \<Longrightarrow> message_inv s \<Longrightarrow> sim_step t ms s = Some s' \<Longrightarrow> message_inv s'"
  by (auto simp: message_inv_def refs_inv_def split: sim_pc.splits if_splits)

lemma message_inv_view:
  "lock_inv s \<Longrightarrow> refs_inv s \<Longrightarrow> message_inv s \<Longrightarrow> view_step b s = Some s' \<Longrightarrow> message_inv s'"
  by (auto simp: message_inv_def refs_inv_def frame_defs Let_def dest: lock_inv_top
      split: list.splits frame.splits if_splits)

lemma message_inv_dispatch:
  "can_dispatch s \<Longrightarrow> message_inv s \<Longrightarrow> dispatch_source d s = Some s' \<Longrightarrow> message_inv s'"
  by (cases d) (auto simp: message_inv_def can_dispatch_def split: list.splits frame.splits if_splits)

lemma account_inv_sim:
  "refs_inv s \<Longrightarrow> account_inv m s \<Longrightarrow> sim_step t ms s = Some s' \<Longrightarrow> account_inv m s'"
  by (auto simp: account_inv_def refs_inv_def split: sim_pc.splits if_splits)

lemma account_inv_view:
  "lock_inv s \<Longrightarrow> refs_inv s \<Longrightarrow> account_inv m s \<Longrightarrow> view_step b s = Some s' \<Longrightarrow> account_inv m s'"
  by (auto simp: account_inv_def refs_inv_def frame_defs Let_def dest: lock_inv_top
      split: list.splits frame.splits if_splits)

lemma account_inv_dispatch:
  "can_dispatch s \<Longrightarrow> account_inv m s \<Longrightarrow> dispatch_source d s = Some s' \<Longrightarrow> account_inv m s'"
  by (cases d) (auto simp: account_inv_def can_dispatch_def split: list.splits frame.splits if_splits)

lemma count_inv_sim: "count_inv s \<Longrightarrow> sim_step t ms s = Some s' \<Longrightarrow> count_inv s'"
  by (auto simp: count_inv_def split: sim_pc.splits if_splits)

lemma count_inv_view: "lock_inv s \<Longrightarrow> count_inv s \<Longrightarrow> view_step b s = Some s' \<Longrightarrow> count_inv s'"
  by (auto simp: count_inv_def frame_defs Let_def dest: lock_inv_top split: list.splits frame.splits if_splits)

lemma count_inv_dispatch: "can_dispatch s \<Longrightarrow> count_inv s \<Longrightarrow> dispatch_source d s = Some s' \<Longrightarrow> count_inv s'"
  by (cases d) (auto simp: count_inv_def can_dispatch_def split: list.splits frame.splits if_splits)

lemma wake_inv_sim: "wake_inv s \<Longrightarrow> sim_step t ms s = Some s' \<Longrightarrow> wake_inv s'"
  by (auto simp: wake_inv_def split: sim_pc.splits if_splits)

lemma wake_inv_view: "lock_inv s \<Longrightarrow> wake_inv s \<Longrightarrow> view_step b s = Some s' \<Longrightarrow> wake_inv s'"
  by (auto simp: wake_inv_def frame_defs Let_def dest: lock_inv_top split: list.splits frame.splits if_splits)

lemma wake_inv_dispatch: "can_dispatch s \<Longrightarrow> wake_inv s \<Longrightarrow> dispatch_source d s = Some s' \<Longrightarrow> wake_inv s'"
  by (cases d) (auto simp: wake_inv_def can_dispatch_def split: list.splits frame.splits if_splits)

lemma sample_period_kept [simp]:
  "sample_period (source_remove i u) = sample_period u"
  "sample_period (remove_update_timer u) = sample_period u"
  "sample_period (set_active b u) = sample_period u"
  "sample_period (start_update_timer u) = sample_period u"
  by (auto simp: timer_defs split: option.splits)

lemma sample_period_speed [simp]: "0 < sample_period (speed_changed v u)"
  by (auto simp: speed_changed_def Let_def SAMPLE_PERIOD_def)

lemma time_inv_sim: "time_inv s \<Longrightarrow> sim_step t ms s = Some s' \<Longrightarrow> time_inv s'"
  by (auto simp: time_inv_def run_until_def split: sim_pc.splits if_splits)

lemma time_inv_view: "time_inv s \<Longrightarrow> view_step b s = Some s' \<Longrightarrow> time_inv s'"
  by (auto simp: time_inv_def frame_defs Let_def split: list.splits frame.splits if_splits)

lemma time_inv_dispatch: "time_inv s \<Longrightarrow> dispatch_source d s = Some s' \<Longrightarrow> time_inv s'"
  by (cases d) (auto simp: time_inv_def split: if_splits)

definition sync_inv :: "sync \<Rightarrow> bool" where
  "sync_inv s \<longleftrightarrow> lock_inv s \<and> refs_inv s \<and> message_inv s \<and> count_inv s \<and> wake_inv s \<and> time_inv s"

lemmas sim_kept = lock_inv_sim refs_inv_sim message_inv_sim count_inv_sim wake_inv_sim time_inv_sim
lemmas view_kept = lock_inv_view refs_inv_view message_inv_view count_inv_view wake_inv_view time_inv_view
lemmas dispatch_kept = lock_inv_dispatch refs_inv_dispatch message_inv_dispatch count_inv_dispatch
  wake_inv_dispatch time_inv_dispatch

lemma sync_inv_step: "sync_inv s \<Longrightarrow> sync_step e s = Some s' \<Longrightarrow> sync_inv s'"
proof (cases e)
  case (Sim_step t ms)
  assume "sync_inv s" "sync_step e s = Some s'"
  then show ?thesis unfolding Sim_step sync_inv_def sync_step.simps by (auto intro: sim_kept simp del: sim_step.simps)
next
  case (Dispatch d)
  assume "sync_inv s" "sync_step e s = Some s'"
  then show ?thesis unfolding Dispatch sync_inv_def
    by (auto intro: dispatch_kept split: if_splits)
qed (auto simp: sync_inv_def intro: view_kept)

interpretation viz: invariant_system sync_step sync_inv
  by unfold_locales (rule sync_inv_step)

interpretation accounted: invariant_system sync_step "\<lambda>s. sync_inv s \<and> account_inv m s" for m
proof
  fix s e s'
  assume inv: "sync_inv s \<and> account_inv m s" and st: "sync_step e s = Some s'"
  then have "lock_inv s" "refs_inv s" "account_inv m s" by (simp_all add: sync_inv_def)
  then have "account_inv m s'" using st
    by (cases e) (auto intro: account_inv_sim account_inv_view account_inv_dispatch simp del: sim_step.simps split: if_splits)
  then show "sync_inv s' \<and> account_inv m s'" using sync_inv_step inv st by blast
qed

lemma start_inv: "sync_inv start_state"
  by (simp add: sync_inv_def start_state_def start_ui_def lock_inv_def refs_inv_def message_inv_def count_inv_def wake_inv_def
      time_inv_def SAMPLE_PERIOD_def)

lemmas reachable_inv = viz.run_good [OF start_inv]


section \<open>Waiting ends\<close>

text \<open>
  The view thread can be blocked in two places: on the lock, in a callback other than
  \<^verbatim>\<open>update_view_timeout\<close>, and in \<^verbatim>\<open>join\<close>.  In both the simulation thread alone makes it
  ready again, in a number of statements that depends only on where it is.
\<close>

fun steps_to_release :: "sim_pc \<Rightarrow> nat" where
  "steps_to_release S_run = 6"
| "steps_to_release S_load = 5"
| "steps_to_release (S_fetch r) = 4"
| "steps_to_release (S_extend r ms) = 3"
| "steps_to_release S_idle = 2"
| "steps_to_release S_release = 1"
| "steps_to_release _ = 0"

fun steps_to_end :: "sim_pc \<Rightarrow> nat" where
  "steps_to_end S_dead = 0"
| "steps_to_end S_test = 1"
| "steps_to_end S_check = 1"
| "steps_to_end S_clear = 2"
| "steps_to_end S_wait = 3"
| "steps_to_end S_acquire = 8"
| "steps_to_end pc = steps_to_release pc + 1"

definition sim_events :: "(rat \<times> string list) list \<Rightarrow> viz_event list" where
  "sim_events = map (\<lambda>(t, ms). Sim_step t ms)"

lemma sim_events_simps [simp]: "sim_events [] = []" "sim_events ((t, ms) # outs) = Sim_step t ms # sim_events outs"
  by (simp_all add: sim_events_def)

lemma sim_step_frames: "sim_step t ms s = Some s' \<Longrightarrow> frames s' = frames s \<and> quit s' = quit s"
  by (auto split: sim_pc.splits if_splits)

lemma steps_to_end_zero [simp]: "steps_to_end pc = 0 \<longleftrightarrow> pc = S_dead"
  by (cases pc) auto

lemma steps_to_end_le: "steps_to_end pc \<le> 8"
  by (cases pc) auto

lemma steps_to_release_le: "steps_to_release pc \<le> 6"
  by (cases pc) auto

lemma sim_locked_steps: "sim_locked pc \<longleftrightarrow> 0 < steps_to_release pc"
  by (cases pc) auto

lemma sim_step_releases:
  "0 < steps_to_release (sim_pc s) \<Longrightarrow>
     \<exists>s'. sim_step t ms s = Some s' \<and> steps_to_release (sim_pc s) = steps_to_release (sim_pc s') + 1"
  by (cases "sim_pc s") auto

lemma sim_step_ends:
  assumes "sync_inv s" "frames s = Q_join # fs" "sim_pc s \<noteq> S_dead"
  shows "\<exists>s'. sim_step t ms s = Some s' \<and> steps_to_end (sim_pc s) = steps_to_end (sim_pc s') + 1"
proof -
  have "quit s" "sim_pc s = S_wait \<longrightarrow> go s" using assms by (auto simp: sync_inv_def wake_inv_def)
  moreover have "sim_pc s = S_acquire \<longrightarrow> lock s = None"
  proof
    assume "sim_pc s = S_acquire"
    then have "lock s \<noteq> Some Sim_thread" "lock s \<noteq> Some View_thread"
      using assms by (auto simp: sync_inv_def lock_inv_def)
    then show "lock s = None" by (metis option.exhaust owner.exhaust)
  qed
  ultimately show ?thesis using assms(3) by (cases "sim_pc s") auto
qed

lemma lock_comes_free:
  "sync_inv s \<Longrightarrow> frames s = f # fs \<Longrightarrow> \<not> frame_locked f \<Longrightarrow> length outs = steps_to_release (sim_pc s) \<Longrightarrow>
     \<exists>s'. run_steps sync_step (sim_events outs) s = Some s' \<and> frames s' = f # fs \<and> lock s' = None"
proof (induction outs arbitrary: s)
  case Nil
  then have "\<not> sim_locked (sim_pc s)" by (simp add: sim_locked_steps)
  then have "lock s \<noteq> Some Sim_thread" "lock s \<noteq> Some View_thread"
    using Nil by (auto simp: sync_inv_def lock_inv_def)
  then have "lock s = None" by (metis option.exhaust owner.exhaust)
  with Nil show ?case by simp
next
  case (Cons out outs)
  obtain t ms where out: "out = (t, ms)" by force
  from Cons.prems(4) have "0 < steps_to_release (sim_pc s)" by simp
  from sim_step_releases [OF this] obtain s' where s': "sim_step t ms s = Some s'"
    "steps_to_release (sim_pc s) = steps_to_release (sim_pc s') + 1" by blast
  from s' have "sync_inv s'" using sync_inv_step [of s "Sim_step t ms" s'] Cons.prems(1) by simp
  with Cons.IH [of s'] s' Cons.prems sim_step_frames [OF s'(1)] out show ?case by (simp del: sim_step.simps)
qed

lemma join_comes_free:
  "sync_inv s \<Longrightarrow> frames s = Q_join # fs \<Longrightarrow> length outs = steps_to_end (sim_pc s) \<Longrightarrow>
     \<exists>s'. run_steps sync_step (sim_events outs) s = Some s' \<and> frames s' = Q_join # fs \<and> sim_pc s' = S_dead"
proof (induction outs arbitrary: s)
  case (Cons out outs)
  obtain t ms where out: "out = (t, ms)" by force
  from Cons.prems(3) have "sim_pc s \<noteq> S_dead" by auto
  from sim_step_ends [OF Cons.prems(1,2) this] obtain s' where s': "sim_step t ms s = Some s'"
    "steps_to_end (sim_pc s) = steps_to_end (sim_pc s') + 1" by blast
  from s' have "sync_inv s'" using sync_inv_step [of s "Sim_step t ms" s'] Cons.prems(1) by simp
  with Cons.IH [of s'] s' Cons.prems sim_step_frames [OF s'(1)] out show ?case by (simp del: sim_step.simps)
qed simp

lemma view_step_ready:
  "frames s = f # fs \<Longrightarrow> lock s = None \<Longrightarrow> f \<noteq> Q_join \<Longrightarrow> \<exists>s'. sync_step View_step s = Some s'"
  by (cases f) (auto simp: frame_defs)

lemma view_step_locked: "frames s = f # fs \<Longrightarrow> frame_locked f \<Longrightarrow> \<exists>s'. sync_step View_step s = Some s'"
  by (cases f) (auto simp: frame_defs)

lemma view_unblocks:
  assumes inv: "sync_inv s" and f: "frames s = f # fs"
  shows "\<exists>n \<le> 8. \<forall>outs. length outs = n \<longrightarrow>
    (\<exists>s' s''. run_steps sync_step (sim_events outs) s = Some s' \<and> frames s' = frames s \<and>
       sync_step View_step s' = Some s'')"
proof -
  consider "frame_locked f" | "f = Q_join" | "\<not> frame_locked f" "f \<noteq> Q_join" by blast
  then show ?thesis
  proof cases
    case 1
    with view_step_locked f show ?thesis by (intro exI [of _ 0]) simp
  next
    case 2
    have "\<exists>s' s''. run_steps sync_step (sim_events outs) s = Some s' \<and> frames s' = frames s \<and>
       sync_step View_step s' = Some s''" if "length outs = steps_to_end (sim_pc s)" for outs
      using join_comes_free [of s fs outs] that inv f 2 by (fastforce simp: frame_defs)
    with steps_to_end_le show ?thesis by blast
  next
    case 3
    have "\<exists>s' s''. run_steps sync_step (sim_events outs) s = Some s' \<and> frames s' = frames s \<and>
       sync_step View_step s' = Some s''" if "length outs = steps_to_release (sim_pc s)" for outs
      using lock_comes_free [of s f fs outs] view_step_ready [of _ f fs] that inv f 3 by metis
    moreover have "steps_to_release (sim_pc s) \<le> 8" using steps_to_release_le [of "sim_pc s"] by simp
    ultimately show ?thesis by blast
  qed
qed

text \<open>While a callback is in \<^verbatim>\<open>join\<close>, nothing but the simulation thread runs.\<close>

lemma dead_stays: "sim_pc s = S_dead \<Longrightarrow> run_steps sync_step es s = Some s' \<Longrightarrow> sim_pc s' = S_dead"
proof (induction es arbitrary: s)
  case (Cons e es)
  then obtain t where t: "sync_step e s = Some t" "run_steps sync_step es t = Some s'" by (auto split: option.splits)
  have "sim_pc t = S_dead" using t(1) Cons.prems(1)
  proof (cases e)
    case (Dispatch d)
    then show ?thesis using t(1) Cons.prems(1) by (cases d) (auto split: if_splits)
  qed (auto simp: frame_defs Let_def split: list.splits frame.splits if_splits)
  with Cons t show ?case by blast
qed simp

lemma join_only_sim:
  "frames s = Q_join # fs \<Longrightarrow> sim_pc s \<noteq> S_dead \<Longrightarrow> sync_step e s = Some s' \<Longrightarrow> \<exists>t ms. e = Sim_step t ms"
  by (cases e) (auto simp: frame_defs can_dispatch_def)

lemma join_bounded:
  "sync_inv s \<Longrightarrow> frames s = Q_join # fs \<Longrightarrow> run_steps sync_step es s = Some s' \<Longrightarrow>
     steps_to_end (sim_pc s) \<le> length es \<Longrightarrow> sim_pc s' = S_dead"
proof (induction es arbitrary: s)
  case (Cons e es)
  show ?case
  proof (cases "sim_pc s = S_dead")
    case False
    from Cons.prems obtain u where u: "sync_step e s = Some u" "run_steps sync_step es u = Some s'" by (auto split: option.splits)
    from join_only_sim [OF Cons.prems(2) False u(1)] obtain t ms where e: "e = Sim_step t ms" by blast
    with sim_step_ends [OF Cons.prems(1,2) False, of t ms] u
    have "steps_to_end (sim_pc s) = steps_to_end (sim_pc u) + 1" by (auto simp del: sim_step.simps)
    moreover have "frames u = Q_join # fs" using sim_step_frames [of t ms s u] u e Cons.prems(2) by simp
    ultimately show ?thesis using Cons.IH [of u] sync_inv_step [OF Cons.prems(1) u(1)] u Cons.prems(4) by simp
  qed (use dead_stays Cons.prems in blast)
qed simp


section \<open>Properties\<close>

text \<open>Without an exception in the drawing code no message is dropped.\<close>

fun is_unwind :: "frame \<Rightarrow> bool" where
  "is_unwind (V_unwind i r) = True"
| "is_unwind _ = False"

definition calm :: "sync \<Rightarrow> bool" where
  "calm s \<longleftrightarrow> dropped s = [] \<and> list_all (\<lambda>f. \<not> is_unwind f) (frames s)"

lemma calm_step: "calm s \<Longrightarrow> e \<noteq> View_raise \<Longrightarrow> sync_step e s = Some s' \<Longrightarrow> calm s'"
proof (cases e)
  case (Sim_step t ms)
  assume "calm s" "sync_step e s = Some s'"
  with Sim_step show ?thesis by (auto simp: calm_def split: sim_pc.splits if_splits)
next
  case View_step
  assume "calm s" "sync_step e s = Some s'"
  with View_step show ?thesis by (auto simp: calm_def frame_defs Let_def split: list.splits frame.splits if_splits)
next
  case (Dispatch d)
  assume "calm s" "sync_step e s = Some s'"
  with Dispatch show ?thesis by (cases d) (auto simp: calm_def split: if_splits)
qed simp

lemma calm_run: "calm s \<Longrightarrow> View_raise \<notin> set es \<Longrightarrow> run_steps sync_step es s = Some s' \<Longrightarrow> calm s'"
proof (induction es arbitrary: s)
  case (Cons e es)
  then obtain t where "sync_step e s = Some t" "run_steps sync_step es t = Some s'" by (auto split: option.splits)
  with Cons.IH [of t] Cons.prems calm_step [of s e t] show ?case by auto
qed simp

lemma start_calm: "calm start_state"
  by (simp add: calm_def start_state_def)

text \<open>A run in which the view thread waits for the simulator and the play button is used meanwhile.\<close>

definition play_events :: "viz_event list" where
  "play_events = [Dispatch Play, Dispatch (Timer 2)] @ replicate 8 View_step @
     [Sim_step 0 [], Sim_step 0 [], Sim_step 0 [], Sim_step 0 [], Sim_step 0 []]"

definition run_events :: "viz_event list" where
  "run_events = [Sim_step (1/10) [''halt''], Sim_step 0 [], Sim_step 0 [], Sim_step 0 [], Sim_step 0 [], Sim_step 0 []]"

definition overlap_events :: "viz_event list" where
  "overlap_events = play_events @ [Dispatch (Timer 2), View_step, Dispatch Play, Dispatch (Speed 2)] @ run_events @
     replicate 9 View_step @ [Dispatch Play]"

lemmas run_defs = start_state_def start_ui_def play_events_def run_events_def overlap_events_def run_until_def SAMPLE_PERIOD_def
  timer_defs update_interval_def frame_defs can_dispatch_def

lemma play_run: "(case run_steps sync_step play_events start_state of Some s \<Rightarrow> sim_pc s = S_run \<and> frames s = [] | None \<Rightarrow> False)"
  by (simp add: run_defs eval_nat_numeral)

lemma overlap_two_timers:
  "(case run_steps sync_step overlap_events start_state of
     Some s \<Rightarrow> map fst (timers (ui s)) = [3, 4] \<and> update_timeout_id (ui s) = Some 4 \<and> shown s = [[''halt'']] | None \<Rightarrow> False)"
  by (simp add: run_defs eval_nat_numeral)


lemma events_frame_unlocked: "is_events f \<Longrightarrow> \<not> frame_locked f"
  by (cases f) auto

lemma run_reach:
  "run_steps sync_step es start_state = Some s \<Longrightarrow> lock_inv s"
  "run_steps sync_step es start_state = Some s \<Longrightarrow> message_inv s"
  "run_steps sync_step es start_state = Some s \<Longrightarrow> count_inv s"
  "run_steps sync_step es start_state = Some s \<Longrightarrow> time_inv s"
  using reachable_inv by (auto simp: sync_inv_def)

text \<open>
  C5: The simulator is never used by two threads at once through the lock: while the simulation thread
  is between acquire and release, no callback of the view thread is; while one is, it is the innermost
  callback, it owns the lock and the simulation thread is outside its locked section.
\<close>
theorem lock_excludes:
  assumes "run_steps sync_step es start_state = Some s"
  shows "(sim_locked (sim_pc s) \<longrightarrow> lock s = Some Sim_thread \<and> (\<forall>f \<in> set (frames s). \<not> frame_locked f)) \<and>
    (\<forall>f \<in> set (frames s). frame_locked f \<longrightarrow>
       f = hd (frames s) \<and> lock s = Some View_thread \<and> \<not> sim_locked (sim_pc s))"
proof -
  note inv = run_reach(1) [OF assms]
  have low: "\<not> frame_locked f" if "f \<in> set (tl (frames s))" for f
    using inv that events_frame_unlocked [of f] by (auto simp: lock_inv_def list_all_iff)
  have top: "f = hd (frames s) \<or> f \<in> set (tl (frames s))" if "f \<in> set (frames s)" for f
    using that by (cases "frames s") auto
  have own: "lock s = Some View_thread" if "f \<in> set (frames s)" "frame_locked f" for f
    using inv that low top [OF that(1)] by (cases "frames s") (auto simp: lock_inv_def)
  with inv low top show ?thesis by (fastforce simp: lock_inv_def)
qed

theorem lock_excludes_witness:
  "(case run_steps sync_step play_events start_state of None \<Rightarrow> False
    | Some s \<Rightarrow> sim_locked (sim_pc s) \<and> lock s = Some Sim_thread)"
  using play_run lock_excludes [of play_events] by (auto split: option.splits)

text \<open>
  C8: No pause message of the simulator is lost or shown twice, unless \<open>update_view\<close> raises.  In every run,
  whenever no callback runs and the simulation thread is outside its locked section, every message raised
  is exactly one of: shown in a dialog, waiting in the shared list, or lost with a callback
  whose \<open>update_view\<close> raised an exception.  As long as no \<open>update_view\<close> raises, nothing is lost and
  the dialogs show the messages in the order they were raised: those shown so far are a prefix of those
  raised, and what is missing is then exactly the shared list.
\<close>
theorem messages_shown_once:
  assumes "run_steps sync_step es start_state = Some s"
  shows "(frames s = [] \<and> \<not> sim_locked (sim_pc s) \<longrightarrow>
       mset (produced s) = mset (concat (shown s)) + mset (dropped s) + mset (store s ! pause_messages s)) \<and>
    (View_raise \<notin> set es \<longrightarrow> dropped s = [] \<and> (\<exists>rest. produced s = concat (shown s) @ rest) \<and>
      (frames s = [] \<and> \<not> sim_locked (sim_pc s) \<longrightarrow>
         produced s = concat (shown s) @ store s ! pause_messages s))"
proof -
  note inv = run_reach(2) [OF assms, unfolded message_inv_def]
  have calm: "dropped s = []" if "View_raise \<notin> set es"
    using calm_run [OF start_calm that assms] by (simp add: calm_def)
  have order: "concat (shown s) @ taken (store s) (frames s) @ store s ! pause_messages s @
      arriving (helper_messages s) (sim_pc s) = produced s" if "View_raise \<notin> set es"
    using inv calm [OF that] by blast
  have "\<exists>rest. produced s = concat (shown s) @ rest" if "View_raise \<notin> set es"
    by (rule exI, rule order [OF that, symmetric])
  moreover have "produced s = concat (shown s) @ store s ! pause_messages s"
    if "View_raise \<notin> set es" "frames s = []" "\<not> sim_locked (sim_pc s)"
    using order [OF that(1)] that(2,3) by simp
  moreover have "account_inv m s" for m
    using accounted.run_good [of start_state m es s] start_inv assms by (simp add: account_inv_def start_state_def)
  then have "mset (produced s) = mset (concat (shown s)) + mset (dropped s) + mset (store s ! pause_messages s)"
    if "frames s = []" "\<not> sim_locked (sim_pc s)"
    using that by (intro multiset_eqI) (simp add: account_inv_def count_mset)
  ultimately show ?thesis using calm by blast
qed

lemma overlap_calm: "View_raise \<notin> set overlap_events"
  by (simp add: overlap_events_def play_events_def run_events_def)

theorem messages_shown_once_witness:
  "(case run_steps sync_step overlap_events start_state of None \<Rightarrow> False
    | Some s \<Rightarrow> \<exists>rest. produced s = [''halt''] @ rest)"
  using overlap_two_timers messages_shown_once [of overlap_events] overlap_calm by (fastforce split: option.splits)

text \<open>
  C6: The view thread never waits for ever: whenever a callback is running, there is a number of
  statements, at most eight, of the simulation thread after which the callback can execute its next
  statement, whatever the simulator does in them.
\<close>
theorem view_never_stuck:
  assumes "run_steps sync_step es start_state = Some s" "frames s = f # fs"
  shows "\<exists>n \<le> 8. \<forall>outs. length outs = n \<longrightarrow>
    (\<exists>s' s''. run_steps sync_step (sim_events outs) s = Some s' \<and> frames s' = f # fs \<and>
       sync_step View_step s' = Some s'')"
  using view_unblocks [OF reachable_inv [OF assms(1)] assms(2)] assms(2) by simp

lemma blocked_run:
  "(case run_steps sync_step (play_events @ [Dispatch (Locked Node_drag_motion)]) start_state of None \<Rightarrow> False
    | Some s \<Rightarrow> frames s = [L_acquire Node_drag_motion] \<and> sync_step View_step s = None)"
  by (simp add: run_defs eval_nat_numeral)

theorem view_never_stuck_witness:
  "\<exists>s n. run_steps sync_step (play_events @ [Dispatch (Locked Node_drag_motion)]) start_state = Some s \<and>
     sync_step View_step s = None \<and> n \<le> 8 \<and> (\<forall>outs. length outs = n \<longrightarrow>
       (\<exists>s' s''. run_steps sync_step (sim_events outs) s = Some s' \<and> sync_step View_step s' = Some s''))"
proof -
  obtain s where s: "run_steps sync_step (play_events @ [Dispatch (Locked Node_drag_motion)]) start_state = Some s"
    "frames s = [L_acquire Node_drag_motion]" "sync_step View_step s = None"
    using blocked_run by (auto split: option.splits)
  from view_never_stuck [OF s(1,2)] s show ?thesis by blast
qed

text \<open>
  C7: Quitting ends: once \<^verbatim>\<open>_quit\<close> waits for the simulation thread, every run of at least eight
  more statements has seen that thread end, and the run on which nothing else is left to do reaches
  the end of \<^verbatim>\<open>_quit\<close> with the main loop told to quit.
\<close>
theorem quit_terminates:
  assumes "run_steps sync_step es start_state = Some s" "frames s = Q_join # fs"
  shows "(\<forall>es' s'. run_steps sync_step es' s = Some s' \<longrightarrow> 8 \<le> length es' \<longrightarrow> sim_pc s' = S_dead) \<and>
    (\<exists>outs s'. run_steps sync_step (sim_events outs @ [View_step, View_step]) s = Some s' \<and>
       length outs \<le> 8 \<and> main_quit s' \<and> frames s' = fs \<and> sim_pc s' = S_dead)"
proof
  note inv = reachable_inv [OF assms(1)]
  show "\<forall>es' s'. run_steps sync_step es' s = Some s' \<longrightarrow> 8 \<le> length es' \<longrightarrow> sim_pc s' = S_dead"
    using join_bounded [OF inv assms(2)] steps_to_end_le [of "sim_pc s"] le_trans by blast
  let ?outs = "replicate (steps_to_end (sim_pc s)) (0, [])"
  obtain u where u: "run_steps sync_step (sim_events ?outs) s = Some u" "frames u = Q_join # fs" "sim_pc u = S_dead"
    using join_comes_free [OF inv assms(2), of ?outs] by auto
  then have "run_steps sync_step (sim_events ?outs @ [View_step, View_step]) s = Some (u\<lparr>main_quit := True, frames := fs\<rparr>)"
    by (simp add: run_steps_append frame_defs)
  with u(3) steps_to_end_le [of "sim_pc s"]
  show "\<exists>outs s'. run_steps sync_step (sim_events outs @ [View_step, View_step]) s = Some s' \<and>
       length outs \<le> 8 \<and> main_quit s' \<and> frames s' = fs \<and> sim_pc s' = S_dead"
    by (intro exI [of _ ?outs] exI [of _ "u\<lparr>main_quit := True, frames := fs\<rparr>"]) simp
qed

lemma quit_run:
  "(case run_steps sync_step (play_events @ [Dispatch (Timer 2), View_step, Dispatch Quit, View_step, View_step]) start_state of
      None \<Rightarrow> False | Some s \<Rightarrow> frames s = [Q_join, V_events 2])"
  by (simp add: run_defs eval_nat_numeral)

theorem quit_terminates_witness:
  "\<exists>s outs s'. run_steps sync_step (play_events @ [Dispatch (Timer 2), View_step, Dispatch Quit, View_step, View_step]) start_state = Some s \<and>
     frames s = [Q_join, V_events 2] \<and>
     run_steps sync_step (sim_events outs @ [View_step, View_step]) s = Some s' \<and> main_quit s' \<and> frames s' = [V_events 2]"
proof -
  obtain s where s: "run_steps sync_step (play_events @ [Dispatch (Timer 2), View_step, Dispatch Quit, View_step, View_step]) start_state = Some s"
    "frames s = [Q_join, V_events 2]" using quit_run by (auto split: option.splits)
  with quit_terminates [OF s] show ?thesis by blast
qed

text \<open>
  The simulator never runs past what the view asked for, and each run of it is followed by exactly one
  model update: those done, begun, queued and about to be queued are as many as the runs.
\<close>
lemma model_follows_runs:
  assumes "run_steps sync_step es start_state = Some s"
  shows "sim_now s \<le> target_time s" "emitted s + begun (frames s) + idle_sources s + unqueued (sim_pc s) = runs s"
  using run_reach(3,4) [OF assms] by (simp_all add: count_inv_def time_inv_def)

text \<open>
  \<^verbatim>\<open>autoscale_view\<close> reads the positions of the nodes without the lock: it can do so while the
  simulation thread runs the simulator.
\<close>
lemma autoscale_races:
  "(case run_steps sync_step (play_events @ [Dispatch Autoscale]) start_state of None \<Rightarrow> False
    | Some s \<Rightarrow> frames s = [A_body] \<and> sim_pc s = S_run \<and> lock s = Some Sim_thread)"
  by (simp add: run_defs eval_nat_numeral)

text \<open>
  An exception in the drawing code loses the messages the callback has taken and ends its timer, while
  the play button stays active and the identifier of the timer stays set.
\<close>
lemma exception_loses_messages:
  "(case run_steps sync_step (play_events @ run_events @ [Dispatch (Timer 2), View_step, View_step, View_step, View_raise, View_step])
       start_state of None \<Rightarrow> False
    | Some s \<Rightarrow> dropped s = [''halt''] \<and> shown s = [] \<and> timers (ui s) = [] \<and> active (ui s) \<and>
        update_timeout_id (ui s) = Some 2)"
  by (simp add: run_defs eval_nat_numeral)

text \<open>At every speed the spin button allows, the interval of the timer is between 100 ms and 10 s.\<close>

lemma update_interval_bounds:
  "1/100 \<le> speed u \<Longrightarrow> 100 \<le> update_interval u \<and> update_interval u \<le> 10000"
proof -
  assume v: "1/100 \<le> speed u"
  let ?m = "min (speed u) 1"
  have m: "1/100 \<le> ?m" "?m \<le> 1" "0 < ?m" using v by auto
  have "100 \<le> SAMPLE_PERIOD / ?m * 1000" "SAMPLE_PERIOD / ?m * 1000 \<le> 10000"
    using m by (auto simp: SAMPLE_PERIOD_def field_simps simp del: min_less_iff_conj)
  then show ?thesis unfolding update_interval_def by (simp add: le_floor_iff floor_le_iff)
qed

end
