(* ===== verification/VizNodes.thy ===== *)
theory VizNodes
  imports VizData PyLib Transition
begin

text \<open>
  The objects the visualizer draws (\<^verbatim>\<open>Node\<close>, \<^verbatim>\<open>Channel\<close> and \<^verbatim>\<open>WiredLink\<close> in
  \<^verbatim>\<open>core.py\<close>, \<^verbatim>\<open>SvgItem\<close> in \<^verbatim>\<open>svgitem.py\<close>), the selection of a node, and
  \<^verbatim>\<open>scan_topology\<close>, which makes them from the nodes, devices and channels of the simulator.
  Python objects that refer to each other are given by their keys: a node by its index, a channel by
  its identity, a link by its position in the list of links.  What the canvas keeps of an item (centre,
  radius, colours, path) is a field of the item.
\<close>

unbundle bit_operations_syntax

type_synonym point = "rat \<times> rat"

section \<open>SVG icons\<close>

record svg_item =
  svg_x :: rat
  svg_y :: rat
  svg_sx :: rat
  svg_sy :: rat
  svg_width :: rat
  svg_height :: rat
  custom_width :: "rat option"
  custom_height :: "rat option"
  svg_handle :: "rat \<times> rat"

definition new_svg_item :: "rat \<Rightarrow> rat \<Rightarrow> rat \<times> rat \<Rightarrow> svg_item" where
  "new_svg_item x y h = \<lparr>svg_x = x, svg_y = y, svg_sx = 1, svg_sy = 1, svg_width = fst h, svg_height = snd h,
     custom_width = None, custom_height = None, svg_handle = h\<rparr>"

definition size_changed :: "svg_item \<Rightarrow> svg_item res" where
  "size_changed t = (case (custom_width t, custom_height t, svg_handle t) of
     (None, None, (hw, hh)) \<Rightarrow> Inr (t\<lparr>svg_width := hw, svg_height := hh, svg_sx := 1, svg_sy := 1\<rparr>)
   | (Some w, None, (hw, hh)) \<Rightarrow>
       rbind (over w hw) (\<lambda>sx. Inr (t\<lparr>svg_width := w, svg_sx := sx, svg_sy := sx, svg_height := hh * sx\<rparr>))
   | (None, Some h, (hw, hh)) \<Rightarrow>
       rbind (over h hh) (\<lambda>sy. Inr (t\<lparr>svg_height := h, svg_sy := sy, svg_sx := sy, svg_width := hw * sy\<rparr>))
   | (Some w, Some h, (hw, hh)) \<Rightarrow>
       rbind (over w hw) (\<lambda>sx. rbind (over h hh) (\<lambda>sy.
         Inr (t\<lparr>svg_width := w, svg_height := h, svg_sx := sx, svg_sy := sy\<rparr>))))"

definition svg_set :: "string \<Rightarrow> rat \<Rightarrow> svg_item \<Rightarrow> svg_item res" where
  "svg_set p value t =
     (if p = ''x'' then Inr (t\<lparr>svg_x := value\<rparr>)
      else if p = ''y'' then Inr (t\<lparr>svg_y := value\<rparr>)
      else if p = ''width'' then size_changed (t\<lparr>custom_width := Some value\<rparr>)
      else if p = ''height'' then size_changed (t\<lparr>custom_height := Some value\<rparr>)
      else Inl AttributeError)"

definition svg_get :: "string \<Rightarrow> svg_item \<Rightarrow> rat res \<times> svg_item" where
  "svg_get p t =
     (if p = ''x'' then (Inr (svg_x t), t)
      else if p = ''y'' then (Inr (svg_y t), t)
      else if p = ''width'' then
        (Inr (fst (svg_handle t)), t\<lparr>svg_width := fst (svg_handle t), svg_height := snd (svg_handle t)\<rparr>)
      else if p = ''height'' then (Inr (svg_height t), t)
      else (Inl AttributeError, t))"

definition svg_bounds :: "svg_item \<Rightarrow> rat \<times> rat \<times> rat \<times> rat" where
  "svg_bounds t = (svg_x t, svg_y t, svg_x t + svg_width t, svg_y t + svg_height t)"

definition is_item_at :: "rat \<Rightarrow> rat \<Rightarrow> svg_item \<Rightarrow> bool" where
  "is_item_at x y t =
     (if (x < svg_x t \<or> x > svg_x t + svg_width t) \<or> (y < svg_y t \<or> y > svg_y t + svg_height t) then False else True)"

text \<open>\<^verbatim>\<open>rsvg_handle_factory\<close>: the cache, and the reading of a file as an argument.\<close>

definition rsvg_handle_factory ::
  "(string \<Rightarrow> (rat \<times> rat) res) \<Rightarrow> string \<Rightarrow> (string \<times> rat \<times> rat) list \<Rightarrow> (rat \<times> rat) res \<times> (string \<times> rat \<times> rat) list" where
  "rsvg_handle_factory load base_file_name cache = (case map_of cache base_file_name of
     Some h \<Rightarrow> (Inr h, cache)
   | None \<Rightarrow> (case load base_file_name of
       Inl e \<Rightarrow> (Inl e, cache)
     | Inr h \<Rightarrow> (Inr h, AList.update base_file_name h cache)))"

section \<open>Nodes, channels and links\<close>

record vnode =
  node_index :: int
  center :: point
  node_links :: "nat list"
  mobility_known :: "bool option"
  selected :: bool
  highlighted :: bool
  color :: int
  node_size :: rat
  svg :: "svg_item option"
  align :: point
  label :: "string option"
  label_item :: "(point \<times> string) option"
  radius :: rat
  fill_color :: int
  line_width :: rat
  stroke_color :: string

record vchannel =
  ch_center :: point
  ch_links :: "nat list"

datatype endpoint = Node_end int | Channel_end int

record wired_link =
  end1 :: int
  end2 :: endpoint
  path :: "(point \<times> point) option"

datatype transmissions_mode = Show_all | Show_none | Show_selected

record view =
  nodes :: "(int \<times> vnode) list"
  channels :: "(int \<times> vchannel) list"
  links :: "wired_link list"
  bounds :: "(rat \<times> rat \<times> rat \<times> rat) option"
  selected_node :: "int option"
  show_mode :: transmissions_mode
  nodes_of_interest :: "int list"

definition on_node :: "int \<Rightarrow> (vnode \<Rightarrow> vnode) \<Rightarrow> view \<Rightarrow> view" where
  "on_node i f v = v\<lparr>nodes := AList.map_entry i f (nodes v)\<rparr>"

definition on_channel :: "int \<Rightarrow> (vchannel \<Rightarrow> vchannel) \<Rightarrow> view \<Rightarrow> view" where
  "on_channel c f v = v\<lparr>channels := AList.map_entry c f (channels v)\<rparr>"

fun position_of :: "view \<Rightarrow> endpoint \<Rightarrow> point" where
  "position_of v (Node_end i) = (case map_of (nodes v) i of Some n \<Rightarrow> center n | None \<Rightarrow> (0, 0))"
| "position_of v (Channel_end c) = (case map_of (channels v) c of Some ch \<Rightarrow> ch_center ch | None \<Rightarrow> (0, 0))"

definition update_points :: "nat \<Rightarrow> view \<Rightarrow> view" where
  "update_points k v = (let l = links v ! k in
     v\<lparr>links := (links v)[k := l\<lparr>path := Some (position_of v (Node_end (end1 l)), position_of v (end2 l))\<rparr>]\<rparr>)"

definition DEFAULT_NODE_SIZE :: rat where "DEFAULT_NODE_SIZE = 1"

text \<open>The properties of the ellipse that \<^verbatim>\<open>_update_appearance\<close> sets.\<close>

definition appearance :: "vnode \<Rightarrow> vnode" where
  "appearance n = (let size = node_size n * PIXELS_PER_METER; alpha = (if svg n \<noteq> None then 0x80 else 0xff) in
     n\<lparr>radius := size, fill_color := (color n AND 0xffffff00) OR alpha,
       line_width := (if selected n then size * (3/10) else size * (15/100)),
       stroke_color := (if highlighted n then ''yellow'' else ''black'')\<rparr>)"

definition new_node :: "int \<Rightarrow> vnode" where
  "new_node i = appearance \<lparr>node_index = i, center = (0, 0), node_links = [], mobility_known = None,
     selected = False, highlighted = False, color = 0x808080ff, node_size = DEFAULT_NODE_SIZE, svg = None, align = (0, 0),
     label = None, label_item = None, radius = 0, fill_color = 0, line_width = 0, stroke_color = ''''\<rparr>"

definition place_svg :: "point \<Rightarrow> point \<Rightarrow> svg_item \<Rightarrow> svg_item" where
  "place_svg al p t =
     t\<lparr>svg_x := fst p - (1 - fst al) * svg_width t, svg_y := snd p - (1 - snd al) * svg_height t\<rparr>"

definition grow_bounds :: "point \<Rightarrow> view \<Rightarrow> view" where
  "grow_bounds p v = (case bounds v of
     None \<Rightarrow> v
   | Some (min_x, min_y, max_x, max_y) \<Rightarrow>
       (let new_bounds = (min (fst p) min_x, min (snd p) min_y, max (fst p) max_x, max (snd p) max_y)
        in if new_bounds \<noteq> (min_x, min_y, max_x, max_y) then v\<lparr>bounds := Some new_bounds\<rparr> else v))"

definition set_position :: "int \<Rightarrow> point \<Rightarrow> view \<Rightarrow> view" where
  "set_position i p v = (case map_of (nodes v) i of None \<Rightarrow> v | Some n \<Rightarrow>
     (let v = on_node i (\<lambda>n. n\<lparr>center := p, svg := map_option (place_svg (align n) p) (svg n)\<rparr>) v;
          v = fold update_points (node_links n) v;
          v = on_node i (\<lambda>n. n\<lparr>label_item := map_option (\<lambda>(q, t). ((fst p, snd p + node_size n * 3), t)) (label_item n)\<rparr>) v
      in grow_bounds p v))"

definition set_channel_position :: "int \<Rightarrow> point \<Rightarrow> view \<Rightarrow> view" where
  "set_channel_position c p v = (case map_of (channels v) c of None \<Rightarrow> v | Some ch \<Rightarrow>
     fold update_points (ch_links ch) (on_channel c (\<lambda>ch. ch\<lparr>ch_center := p\<rparr>) v))"

definition update_appearance :: "int \<Rightarrow> view \<Rightarrow> view" where
  "update_appearance i v = (let v = on_node i appearance v in
     case map_of (nodes v) i of None \<Rightarrow> v | Some n \<Rightarrow>
       (case label n of None \<Rightarrow> v | Some t \<Rightarrow>
          set_position i (center n)
            (on_node i (\<lambda>n. n\<lparr>label_item := Some (case label_item n of None \<Rightarrow> ((0, 0), t) | Some (q, _) \<Rightarrow> (q, t))\<rparr>) v)))"

definition set_selected :: "bool \<Rightarrow> int \<Rightarrow> view \<Rightarrow> view" where
  "set_selected b i v = update_appearance i (on_node i (\<lambda>n. n\<lparr>selected := b\<rparr>) v)"

definition set_highlighted :: "bool \<Rightarrow> int \<Rightarrow> view \<Rightarrow> view" where
  "set_highlighted b i v = update_appearance i (on_node i (\<lambda>n. n\<lparr>highlighted := b\<rparr>) v)"

definition set_size :: "rat \<Rightarrow> int \<Rightarrow> view \<Rightarrow> view" where
  "set_size sz i v = update_appearance i (on_node i (\<lambda>n. n\<lparr>node_size := sz\<rparr>) v)"

text \<open>\<^verbatim>\<open>set_label\<close> names \<^verbatim>\<open>basestring\<close>, which Python 3 does not have.\<close>

definition set_label :: "bool \<Rightarrow> string \<Rightarrow> int \<Rightarrow> view \<Rightarrow> view res" where
  "set_label py3 t i v =
     (if py3 then Inl NameError else Inr (update_appearance i (on_node i (\<lambda>n. n\<lparr>label := Some t\<rparr>) v)))"

text \<open>A colour name is looked up by \<^verbatim>\<open>Gdk.color_parse\<close> as three 16 bit numbers.\<close>

datatype colour = Parsed int int int | Rgba int

fun colour_value :: "colour \<Rightarrow> int" where
  "colour_value (Parsed r g b) =
     push_bit 24 (drop_bit 8 r) OR push_bit 16 (drop_bit 8 g) OR push_bit 8 (drop_bit 8 b) OR 0xff"
| "colour_value (Rgba c) = c"

definition set_color :: "colour \<Rightarrow> int \<Rightarrow> view \<Rightarrow> view" where
  "set_color c i v = update_appearance i (on_node i (\<lambda>n. n\<lparr>color := colour_value c\<rparr>) v)"

text \<open>
  \<^verbatim>\<open>set_svg_icon\<close>, with what \<^verbatim>\<open>rsvg_handle_factory\<close> gives for the file: the size of the
  picture, or the error of a module or file that is not there.
\<close>

definition set_svg_icon ::
  "(rat \<times> rat) res \<Rightarrow> rat option \<Rightarrow> rat option \<Rightarrow> point \<Rightarrow> int \<Rightarrow> view \<Rightarrow> view res" where
  "set_svg_icon handle width height al i v = (case map_of (nodes v) i of None \<Rightarrow> Inl KeyError | Some n \<Rightarrow>
     if width = None \<and> height = None then Inl ValueError
     else rbind handle (\<lambda>h. let t = new_svg_item (fst (center n)) (snd (center n)) h in
       rbind (case width of None \<Rightarrow> Inr t | Some w \<Rightarrow> svg_set ''width'' (w * PIXELS_PER_METER) t) (\<lambda>t.
       rbind (case height of None \<Rightarrow> Inr t | Some w \<Rightarrow> svg_set ''height'' (w * PIXELS_PER_METER) t) (\<lambda>t.
         Inr (update_appearance i
           (on_node i (\<lambda>n. n\<lparr>svg := Some (place_svg al (center n) t), align := al\<rparr>) v))))))"

definition get_node :: "int \<Rightarrow> view \<Rightarrow> view" where
  "get_node i v = (case map_of (nodes v) i of Some n \<Rightarrow> v | None \<Rightarrow> v\<lparr>nodes := AList.update i (new_node i) (nodes v)\<rparr>)"

definition get_channel :: "int \<Rightarrow> view \<Rightarrow> view" where
  "get_channel c v = (case map_of (channels v) c of Some ch \<Rightarrow> v
     | None \<Rightarrow> v\<lparr>channels := AList.update c \<lparr>ch_center = (0, 0), ch_links = []\<rparr> (channels v)\<rparr>)"

fun add_link_at :: "nat \<Rightarrow> endpoint \<Rightarrow> view \<Rightarrow> view" where
  "add_link_at k (Node_end i) v = on_node i (\<lambda>n. n\<lparr>node_links := node_links n @ [k]\<rparr>) v"
| "add_link_at k (Channel_end c) v = on_channel c (\<lambda>ch. ch\<lparr>ch_links := ch_links ch @ [k]\<rparr>) v"

definition create_link :: "int \<Rightarrow> endpoint \<Rightarrow> view \<Rightarrow> view" where
  "create_link i e v = (let k = length (links v) in
     add_link_at k e (add_link_at k (Node_end i) (v\<lparr>links := links v @ [\<lparr>end1 = i, end2 = e, path = None\<rparr>]\<rparr>)))"

section \<open>Selection\<close>

datatype node_arg = Sim_node int | Index int | View_node int | No_node | Other_value

definition set_nodes_of_interest :: "int list \<Rightarrow> view \<Rightarrow> view" where
  "set_nodes_of_interest is v = v\<lparr>nodes_of_interest := is\<rparr>"

definition interest_of_selection :: "view \<Rightarrow> view" where
  "interest_of_selection v = (case selected_node v of
     None \<Rightarrow> set_nodes_of_interest [] v | Some i \<Rightarrow> set_nodes_of_interest [i] v)"

definition set_show_transmissions_mode :: "nat \<Rightarrow> transmissions_mode \<Rightarrow> view \<Rightarrow> view" where
  "set_show_transmissions_mode n_nodes mode v = (let v = v\<lparr>show_mode := mode\<rparr> in case mode of
     Show_all \<Rightarrow> set_nodes_of_interest (map int [0..<n_nodes]) v
   | Show_none \<Rightarrow> set_nodes_of_interest [] v
   | Show_selected \<Rightarrow> interest_of_selection v)"

fun node_argument :: "view \<Rightarrow> node_arg \<Rightarrow> int option res" where
  "node_argument v (Sim_node i) = (if i \<in> set (keys (nodes v)) then Inr (Some i) else Inl KeyError)"
| "node_argument v (Index i) = (if i \<in> set (keys (nodes v)) then Inr (Some i) else Inl KeyError)"
| "node_argument v (View_node i) = Inr (Some i)"
| "node_argument v No_node = Inr None"
| "node_argument v Other_value = Inl TypeError"

definition select_node :: "node_arg \<Rightarrow> view \<Rightarrow> view res" where
  "select_node a v = rbind (node_argument v a) (\<lambda>node.
     if node = selected_node v then Inr v
     else (let v = (case selected_node v of None \<Rightarrow> v | Some i \<Rightarrow> set_selected False i v);
               v = v\<lparr>selected_node := node\<rparr>;
               v = (case node of None \<Rightarrow> v | Some i \<Rightarrow> set_selected True i v)
           in Inr (if show_mode v = Show_selected then interest_of_selection v else v)))"


section \<open>Invariants of the view\<close>

fun endpoint_known :: "view \<Rightarrow> endpoint \<Rightarrow> bool" where
  "endpoint_known v (Node_end i) \<longleftrightarrow> map_of (nodes v) i \<noteq> None"
| "endpoint_known v (Channel_end c) \<longleftrightarrow> map_of (channels v) c \<noteq> None"

fun endpoint_links :: "view \<Rightarrow> endpoint \<Rightarrow> nat list" where
  "endpoint_links v (Node_end i) = (case map_of (nodes v) i of Some n \<Rightarrow> node_links n | None \<Rightarrow> [])"
| "endpoint_links v (Channel_end c) = (case map_of (channels v) c of Some ch \<Rightarrow> ch_links ch | None \<Rightarrow> [])"

definition endpoints :: "wired_link \<Rightarrow> endpoint set" where
  "endpoints l = {Node_end (end1 l), end2 l}"

definition drawn_at :: "view \<Rightarrow> wired_link \<Rightarrow> point \<times> point" where
  "drawn_at v l = (position_of v (Node_end (end1 l)), position_of v (end2 l))"

definition link_ok :: "view \<Rightarrow> nat \<Rightarrow> wired_link \<Rightarrow> bool" where
  "link_ok v k l \<longleftrightarrow> (\<forall>e \<in> endpoints l. endpoint_known v e \<and> k \<in> set (endpoint_links v e)) \<and>
     (path l = None \<or> path l = Some (drawn_at v l))"

definition links_inv :: "view \<Rightarrow> bool" where
  "links_inv v \<longleftrightarrow> (\<forall>k < length (links v). link_ok v k (links v ! k))"

definition selection_inv :: "view \<Rightarrow> bool" where
  "selection_inv v \<longleftrightarrow> (\<forall>i n. map_of (nodes v) i = Some n \<longrightarrow> (selected n \<longleftrightarrow> selected_node v = Some i)) \<and>
     (\<forall>i. selected_node v = Some i \<longrightarrow> map_of (nodes v) i \<noteq> None) \<and>
     (show_mode v = Show_selected \<longrightarrow> nodes_of_interest v = (case selected_node v of None \<Rightarrow> [] | Some i \<Rightarrow> [i]))"

subsection \<open>What the operations leave alone\<close>

lemma map_of_on_node [simp]:
  "map_of (nodes (on_node i f v)) = (\<lambda>j. if j = i then map_option f (map_of (nodes v) i) else map_of (nodes v) j)"
  by (auto simp: on_node_def map_of_map_entry fun_eq_iff split: option.splits)

lemma on_node_fields [simp]:
  "channels (on_node i f v) = channels v" "links (on_node i f v) = links v" "bounds (on_node i f v) = bounds v"
  "selected_node (on_node i f v) = selected_node v" "show_mode (on_node i f v) = show_mode v"
  "nodes_of_interest (on_node i f v) = nodes_of_interest v"
  by (simp_all add: on_node_def)

lemma map_of_on_channel [simp]:
  "map_of (channels (on_channel c f v)) = (\<lambda>d. if d = c then map_option f (map_of (channels v) c) else map_of (channels v) d)"
  by (auto simp: on_channel_def map_of_map_entry fun_eq_iff split: option.splits)

lemma on_channel_fields [simp]:
  "nodes (on_channel c f v) = nodes v" "links (on_channel c f v) = links v"
  "selected_node (on_channel c f v) = selected_node v" "show_mode (on_channel c f v) = show_mode v"
  "nodes_of_interest (on_channel c f v) = nodes_of_interest v"
  by (simp_all add: on_channel_def)

lemma update_points_fields [simp]:
  "nodes (update_points k v) = nodes v" "channels (update_points k v) = channels v"
  "bounds (update_points k v) = bounds v"
  "length (links (update_points k v)) = length (links v)" "selected_node (update_points k v) = selected_node v"
  "show_mode (update_points k v) = show_mode v" "nodes_of_interest (update_points k v) = nodes_of_interest v"
  by (simp_all add: update_points_def Let_def)

lemma redraw_fields [simp]:
  "nodes (fold update_points ks v) = nodes v" "channels (fold update_points ks v) = channels v"
  "bounds (fold update_points ks v) = bounds v"
  "length (links (fold update_points ks v)) = length (links v)" "selected_node (fold update_points ks v) = selected_node v"
  "show_mode (fold update_points ks v) = show_mode v" "nodes_of_interest (fold update_points ks v) = nodes_of_interest v"
  by (induction ks arbitrary: v) simp_all

lemma grow_bounds_fields [simp]:
  "nodes (grow_bounds p v) = nodes v" "channels (grow_bounds p v) = channels v" "links (grow_bounds p v) = links v"
  "selected_node (grow_bounds p v) = selected_node v" "show_mode (grow_bounds p v) = show_mode v"
  "nodes_of_interest (grow_bounds p v) = nodes_of_interest v"
  by (simp_all add: grow_bounds_def Let_def split: option.splits)

lemma position_of_cong: "nodes v = nodes w \<Longrightarrow> channels v = channels w \<Longrightarrow> position_of v e = position_of w e"
  by (cases e) simp_all

lemma drawn_at_cong: "nodes v = nodes w \<Longrightarrow> channels v = channels w \<Longrightarrow> drawn_at v l = drawn_at w l"
  unfolding drawn_at_def by (rule arg_cong2 [where f = Pair]; rule position_of_cong)

lemma redraw_nth:
  "k < length (links v) \<Longrightarrow> links (fold update_points ks v) ! k =
     (if k \<in> set ks then (links v ! k)\<lparr>path := Some (drawn_at v (links v ! k))\<rparr> else links v ! k)"
proof (induction ks arbitrary: v)
  case (Cons j ks)
  have "drawn_at (update_points j v) l = drawn_at v l" for l by (rule drawn_at_cong) simp_all
  moreover have "links (update_points j v) ! k = (if k = j then (links v ! k)\<lparr>path := Some (drawn_at v (links v ! k))\<rparr> else links v ! k)"
    using Cons.prems by (auto simp: update_points_def Let_def drawn_at_def)
  moreover have "drawn_at v (l\<lparr>path := q\<rparr>) = drawn_at v l" for l q by (simp add: drawn_at_def)
  ultimately show ?case using Cons.IH [of "update_points j v"] Cons.prems by (cases "k = j") auto
qed simp

text \<open>Two views that agree on where the ends are and which links end there.\<close>

definition same_ends :: "view \<Rightarrow> view \<Rightarrow> bool" where
  "same_ends v w \<longleftrightarrow> (\<forall>e. endpoint_known v e \<longrightarrow>
     endpoint_known w e \<and> set (endpoint_links v e) \<subseteq> set (endpoint_links w e) \<and> position_of w e = position_of v e)"

lemma links_inv_same: "links_inv v \<Longrightarrow> same_ends v w \<Longrightarrow> links w = links v \<Longrightarrow> links_inv w"
  unfolding links_inv_def link_ok_def same_ends_def drawn_at_def
  by (auto simp: endpoints_def subset_iff simp del: endpoint_known.simps endpoint_links.simps position_of.simps)

lemma on_node_same:
  "(\<And>n. map_of (nodes v) i = Some n \<Longrightarrow> center (f n) = center n \<and> node_links (f n) = node_links n) \<Longrightarrow>
     same_ends v (on_node i f v)"
  unfolding same_ends_def
proof (intro allI impI)
  fix e assume *: "\<And>n. map_of (nodes v) i = Some n \<Longrightarrow> center (f n) = center n \<and> node_links (f n) = node_links n" "endpoint_known v e"
  then show "endpoint_known (on_node i f v) e \<and> set (endpoint_links v e) \<subseteq> set (endpoint_links (on_node i f v) e) \<and>
      position_of (on_node i f v) e = position_of v e"
    by (cases e) (auto split: option.splits)
qed

lemma redraw_inv:
  assumes inv: "links_inv v" and w: "links w = links v" "\<And>e. endpoint_known v e \<Longrightarrow> endpoint_known w e"
      "\<And>e. endpoint_links w e = endpoint_links v e" "\<And>e. e \<noteq> x \<Longrightarrow> position_of w e = position_of v e"
  shows "links_inv (fold update_points (endpoint_links v x) w)"
  unfolding links_inv_def
proof (intro allI impI)
  fix k let ?w = "fold update_points (endpoint_links v x) w"
  assume "k < length (links ?w)"
  then have k: "k < length (links v)" by (simp add: w)
  with inv have ok: "link_ok v k (links v ! k)" by (simp add: links_inv_def)
  have "endpoint_known ?w e = endpoint_known w e" "endpoint_links ?w e = endpoint_links w e" for e by (cases e; simp)+
  moreover have "drawn_at ?w l = drawn_at w l" for l by (rule drawn_at_cong) simp_all
  moreover have "endpoints (l\<lparr>path := q\<rparr>) = endpoints l" "drawn_at w (l\<lparr>path := q\<rparr>) = drawn_at w l" for l q
    by (simp_all add: endpoints_def drawn_at_def)
  moreover have "drawn_at w (links v ! k) = drawn_at v (links v ! k)" if "k \<notin> set (endpoint_links v x)"
  proof -
    have "e \<noteq> x" if "e \<in> endpoints (links v ! k)" for e
      using ok that \<open>k \<notin> set (endpoint_links v x)\<close> by (auto simp: link_ok_def)
    then show ?thesis by (simp add: drawn_at_def endpoints_def w(4) del: position_of.simps)
  qed
  ultimately show "link_ok ?w k (links ?w ! k)" using ok w k
    by (auto simp: link_ok_def redraw_nth)
qed


subsection \<open>Every operation keeps them\<close>

lemma on_node_links:
  "links_inv v \<Longrightarrow> (\<And>n. center (f n) = center n) \<Longrightarrow> (\<And>n. node_links (f n) = node_links n) \<Longrightarrow> links_inv (on_node i f v)"
  by (erule links_inv_same) (auto intro: on_node_same)

lemma links_inv_cong:
  assumes "links_inv v" "nodes w = nodes v" "channels w = channels v" "links w = links v"
  shows "links_inv w"
proof (rule links_inv_same [OF assms(1)])
  have "endpoint_known w e = endpoint_known v e" "endpoint_links w e = endpoint_links v e" for e
    using assms by (cases e; simp)+
  then show "same_ends v w" using position_of_cong [of w v] assms by (simp add: same_ends_def)
qed (fact assms)

lemma grow_bounds_links: "links_inv v \<Longrightarrow> links_inv (grow_bounds p v)"
  by (erule links_inv_cong) simp_all

lemma set_position_links: "links_inv v \<Longrightarrow> links_inv (set_position i p v)"
proof (cases "map_of (nodes v) i")
  case (Some n)
  assume inv: "links_inv v"
  let ?w = "on_node i (\<lambda>n. n\<lparr>center := p, svg := map_option (place_svg (align n) p) (svg n)\<rparr>) v"
  have "links_inv (fold update_points (endpoint_links v (Node_end i)) ?w)"
  proof (rule redraw_inv [OF inv])
    fix e
    show "endpoint_known v e \<Longrightarrow> endpoint_known ?w e" by (cases e) auto
    show "endpoint_links ?w e = endpoint_links v e" by (cases e) (auto split: option.splits)
    show "e \<noteq> Node_end i \<Longrightarrow> position_of ?w e = position_of v e" by (cases e) auto
  qed simp
  with Some show ?thesis
    by (auto simp: set_position_def Let_def intro!: grow_bounds_links on_node_links)
qed (simp add: set_position_def)

lemma set_channel_position_links: "links_inv v \<Longrightarrow> links_inv (set_channel_position c p v)"
proof (cases "map_of (channels v) c")
  case (Some ch)
  assume inv: "links_inv v"
  let ?w = "on_channel c (\<lambda>ch. ch\<lparr>ch_center := p\<rparr>) v"
  have "links_inv (fold update_points (endpoint_links v (Channel_end c)) ?w)"
  proof (rule redraw_inv [OF inv])
    fix e
    show "endpoint_known v e \<Longrightarrow> endpoint_known ?w e" by (cases e) auto
    show "endpoint_links ?w e = endpoint_links v e" by (cases e) (auto split: option.splits)
    show "e \<noteq> Channel_end c \<Longrightarrow> position_of ?w e = position_of v e" by (cases e) auto
  qed simp
  with Some show ?thesis by (simp add: set_channel_position_def)
qed (simp add: set_channel_position_def)

lemma update_appearance_links: "links_inv v \<Longrightarrow> links_inv (update_appearance i v)"
  by (auto simp: update_appearance_def Let_def appearance_def split: option.splits
      intro!: set_position_links on_node_links)

lemma get_node_links: "links_inv v \<Longrightarrow> links_inv (get_node i v)"
  by (erule links_inv_same) (auto simp: get_node_def same_ends_def elim!: endpoint_known.elims split: option.splits)

lemma get_channel_links: "links_inv v \<Longrightarrow> links_inv (get_channel i v)"
  by (erule links_inv_same) (auto simp: get_channel_def same_ends_def elim!: endpoint_known.elims split: option.splits)

lemma add_link_at_ends:
  "endpoint_known (add_link_at k x v) e = endpoint_known v e"
  "position_of (add_link_at k x v) e = position_of v e"
  "set (endpoint_links v e) \<subseteq> set (endpoint_links (add_link_at k x v) e)"
  "endpoint_known v x \<Longrightarrow> k \<in> set (endpoint_links (add_link_at k x v) x)"
  "links (add_link_at k x v) = links v"
proof -
  show "endpoint_known (add_link_at k x v) e = endpoint_known v e" by (cases x; cases e) simp_all
  show "position_of (add_link_at k x v) e = position_of v e" by (cases x; cases e) (simp_all split: option.splits)
  show "set (endpoint_links v e) \<subseteq> set (endpoint_links (add_link_at k x v) e)"
    by (cases x; cases e) (simp_all add: map_option_case subset_iff split: option.splits)
  show "endpoint_known v x \<Longrightarrow> k \<in> set (endpoint_links (add_link_at k x v) x)" by (cases x) auto
  show "links (add_link_at k x v) = links v" by (cases x) simp_all
qed

lemma create_link_links:
  assumes inv: "links_inv v" and known: "endpoint_known v (Node_end i)" "endpoint_known v e"
  shows "links_inv (create_link i e v)"
proof -
  let ?l = "\<lparr>end1 = i, end2 = e, path = None\<rparr>" and ?k = "length (links v)"
  let ?v = "v\<lparr>links := links v @ [?l]\<rparr>"
  let ?w = "add_link_at ?k e (add_link_at ?k (Node_end i) ?v)"
  have v: "endpoint_known ?v x = endpoint_known v x" "position_of ?v x = position_of v x" "endpoint_links ?v x = endpoint_links v x" for x
    by (cases x; simp)+
  have same: "endpoint_known ?w x = endpoint_known v x" "position_of ?w x = position_of v x" "set (endpoint_links v x) \<subseteq> set (endpoint_links ?w x)" for x
    using v [of x] add_link_at_ends(3) [of ?v x ?k "Node_end i"] add_link_at_ends(3) [of "add_link_at ?k (Node_end i) ?v" x ?k e]
    by (simp_all add: add_link_at_ends(1,2) del: add_link_at.simps endpoint_known.simps endpoint_links.simps position_of.simps)
  have drawn: "drawn_at ?w l = drawn_at v l" for l
    by (simp add: drawn_at_def same(2) del: add_link_at.simps position_of.simps)
  have new: "?k \<in> set (endpoint_links ?w e)" "?k \<in> set (endpoint_links ?w (Node_end i))"
    using add_link_at_ends(4) [of "add_link_at ?k (Node_end i) ?v" e ?k] add_link_at_ends(4) [of ?v "Node_end i" ?k]
      add_link_at_ends(3) [of "add_link_at ?k (Node_end i) ?v" "Node_end i" ?k e] v known
    by (simp_all only: add_link_at_ends(1) simp_thms) auto
  have "link_ok ?w k (links ?w ! k)" if "k < length (links ?w)" for k
  proof (cases "k < ?k")
    case True
    with inv have "link_ok v k (links v ! k)" by (simp add: links_inv_def)
    with True show ?thesis using same(1,3)
      by (auto simp: link_ok_def drawn add_link_at_ends(5) nth_append simp del: add_link_at.simps)
  next
    case False
    with that have "k = ?k" by (simp add: add_link_at_ends(5) del: add_link_at.simps)
    with new known show ?thesis
      by (simp add: link_ok_def endpoints_def same(1) add_link_at_ends(5) del: add_link_at.simps endpoint_known.simps endpoint_links.simps)
  qed
  then show ?thesis by (simp add: links_inv_def create_link_def Let_def del: add_link_at.simps)
qed


text \<open>The selection: operations that keep the flags, and the two that change them.\<close>

lemma on_node_selection:
  "selection_inv v \<Longrightarrow> (\<And>n. selected (f n) = selected n) \<Longrightarrow> selection_inv (on_node i f v)"
  by (auto simp: selection_inv_def)

lemma selection_cong:
  "nodes w = nodes v \<Longrightarrow> selected_node w = selected_node v \<Longrightarrow> show_mode w = show_mode v \<Longrightarrow>
     nodes_of_interest w = nodes_of_interest v \<Longrightarrow> selection_inv v \<Longrightarrow> selection_inv w"
  by (simp add: selection_inv_def)

text \<open>What a change of one node's drawing keeps of the view.\<close>

definition keeps :: "view \<Rightarrow> view \<Rightarrow> bool" where
  "keeps v w \<longleftrightarrow> map_option selected \<circ> map_of (nodes w) = map_option selected \<circ> map_of (nodes v) \<and>
     selected_node w = selected_node v \<and> show_mode w = show_mode v \<and> nodes_of_interest w = nodes_of_interest v"

lemma keeps_trans: "keeps u v \<Longrightarrow> keeps v w \<Longrightarrow> keeps u w"
  by (simp add: keeps_def)

lemma keeps_on_node [simp]: "(\<And>n. selected (f n) = selected n) \<Longrightarrow> keeps v (on_node i f v)"
  by (auto simp: keeps_def fun_eq_iff option.map_comp comp_def)

lemma keeps_same: "nodes w = nodes v \<Longrightarrow> selected_node w = selected_node v \<Longrightarrow> show_mode w = show_mode v \<Longrightarrow>
    nodes_of_interest w = nodes_of_interest v \<Longrightarrow> keeps v w"
  by (simp add: keeps_def)

lemma keeps_set_position: "keeps v (set_position i p v)"
proof (cases "map_of (nodes v) i")
  case (Some n)
  let ?w = "on_node i (\<lambda>n. n\<lparr>center := p, svg := map_option (place_svg (align n) p) (svg n)\<rparr>) v"
  let ?x = "fold update_points (node_links n) ?w"
  let ?y = "on_node i (\<lambda>n. n\<lparr>label_item := map_option (\<lambda>(q, t). ((fst p, snd p + node_size n * 3), t)) (label_item n)\<rparr>) ?x"
  have "keeps v ?w" "keeps ?x ?y" by simp_all
  moreover have "keeps ?w ?x" "keeps ?y (grow_bounds p ?y)" by (rule keeps_same; simp)+
  ultimately have "keeps v (grow_bounds p ?y)" by (blast intro: keeps_trans)
  then show ?thesis using Some by (simp add: set_position_def Let_def)
qed (simp add: set_position_def keeps_def)

lemma keeps_update_appearance: "keeps v (update_appearance i v)"
proof -
  let ?w = "on_node i appearance v"
  have w: "keeps v ?w" by (simp add: appearance_def Let_def)
  have "keeps ?w (set_position i p (on_node i (\<lambda>n. n\<lparr>label_item := Some (case label_item n of None \<Rightarrow> ((0, 0), t) | Some (q, _) \<Rightarrow> (q, t))\<rparr>) ?w))"
    for p t by (rule keeps_trans [OF _ keeps_set_position]) simp
  note keeps_trans [OF w this]
  with w show ?thesis unfolding update_appearance_def Let_def by (simp split: option.split)
qed

lemma keeps_flag: "keeps v w \<Longrightarrow> map_option selected (map_of (nodes w) j) = map_option selected (map_of (nodes v) j)"
  unfolding keeps_def comp_def by (elim conjE) (drule fun_cong [of _ _ j])

lemma keeps_selected: "keeps v w \<Longrightarrow> map_of (nodes w) j = Some n' \<Longrightarrow> \<exists>n. map_of (nodes v) j = Some n \<and> selected n' = selected n"
  using keeps_flag [of v w j] by (cases "map_of (nodes v) j") auto

lemma keeps_known: "keeps v w \<Longrightarrow> map_of (nodes w) j = None \<longleftrightarrow> map_of (nodes v) j = None"
  using keeps_flag [of v w j] by (cases "map_of (nodes v) j") auto

lemma keeps_selection:
  assumes k: "keeps v w" and inv: "selection_inv v"
  shows "selection_inv w"
proof -
  have "selected n \<longleftrightarrow> selected_node w = Some i" if "map_of (nodes w) i = Some n" for i n
    using keeps_selected [OF k that] inv k by (auto simp: selection_inv_def keeps_def)
  moreover have "map_of (nodes w) i \<noteq> None" if "selected_node w = Some i" for i
    using keeps_known [OF k, of i] inv that k by (auto simp: selection_inv_def keeps_def)
  ultimately show ?thesis using inv k by (auto simp: selection_inv_def keeps_def)
qed


lemma set_selected_flags:
  "map_of (nodes (set_selected b i v)) j = Some n' \<Longrightarrow>
     \<exists>n. map_of (nodes v) j = Some n \<and> selected n' = (if j = i then b else selected n)"
  unfolding set_selected_def
  by (drule keeps_selected [OF keeps_update_appearance]) (auto split: if_splits)

lemma set_selected_known: "map_of (nodes (set_selected b i v)) j = None \<longleftrightarrow> map_of (nodes v) j = None"
  unfolding set_selected_def using keeps_known [OF keeps_update_appearance] by simp

lemma set_selected_fields [simp]:
  "selected_node (set_selected b i v) = selected_node v" "show_mode (set_selected b i v) = show_mode v"
  "nodes_of_interest (set_selected b i v) = nodes_of_interest v"
  using keeps_update_appearance [of "on_node i (\<lambda>n. n\<lparr>selected := b\<rparr>) v" i] by (simp_all add: set_selected_def keeps_def)

definition select_flags :: "int option \<Rightarrow> view \<Rightarrow> view" where
  "select_flags node v =
     (let v = (case selected_node v of None \<Rightarrow> v | Some i \<Rightarrow> set_selected False i v);
          v = v\<lparr>selected_node := node\<rparr>
      in case node of None \<Rightarrow> v | Some i \<Rightarrow> set_selected True i v)"

lemma select_flags_mode [simp]: "show_mode (select_flags node v) = show_mode v"
  by (simp add: select_flags_def Let_def split: option.splits)

lemma select_node_flags:
  "select_node a v = rbind (node_argument v a) (\<lambda>node.
     if node = selected_node v then Inr v
     else Inr (if show_mode v = Show_selected then interest_of_selection (select_flags node v) else select_flags node v))"
proof (cases "node_argument v a")
  case (Inr node)
  then show ?thesis using select_flags_mode [of node v] by (simp add: select_node_def select_flags_def Let_def del: select_flags_mode)
qed (simp add: select_node_def)

lemma select_flags_inv:
  assumes inv: "selection_inv v" and node: "\<And>i. node = Some i \<Longrightarrow> map_of (nodes v) i \<noteq> None"
  shows "map_of (nodes (select_flags node v)) j = Some n \<Longrightarrow> selected n \<longleftrightarrow> node = Some j"
    and "map_of (nodes (select_flags node v)) j = None \<longleftrightarrow> map_of (nodes v) j = None"
    and "selected_node (select_flags node v) = node"
proof -
  define w where "w = (case selected_node v of None \<Rightarrow> v | Some i \<Rightarrow> set_selected False i v)"
  have w: "\<not> selected n" if "map_of (nodes w) j = Some n" for j n
    using that inv by (auto simp: w_def selection_inv_def split: option.splits if_splits dest!: set_selected_flags)
  have f: "select_flags node v = (case node of None \<Rightarrow> w\<lparr>selected_node := node\<rparr> | Some i \<Rightarrow> set_selected True i (w\<lparr>selected_node := node\<rparr>))"
    by (simp only: select_flags_def w_def Let_def)
  show "map_of (nodes (select_flags node v)) j = Some n \<Longrightarrow> selected n \<longleftrightarrow> node = Some j"
    unfolding f by (cases node) (auto dest!: set_selected_flags dest: w split: if_splits)
  show "map_of (nodes (select_flags node v)) j = None \<longleftrightarrow> map_of (nodes v) j = None"
    by (auto simp: f w_def set_selected_known split: option.splits)
  show "selected_node (select_flags node v) = node"
    by (simp add: f split: option.splits)
qed

lemma select_node_selection:
  assumes inv: "selection_inv v" and arg: "\<And>i. a = View_node i \<Longrightarrow> map_of (nodes v) i \<noteq> None"
    and r: "select_node a v = Inr w"
  shows "selection_inv w"
proof -
  obtain node where node: "node_argument v a = Inr node" using r by (cases "node_argument v a") (auto simp: select_node_flags)
  have known: "map_of (nodes v) i \<noteq> None" if "node = Some i" for i
    using node that arg by (cases a) (auto simp: map_of_eq_None_iff split: if_splits)
  show ?thesis
  proof (cases "node = selected_node v")
    case False
    let ?x = "select_flags node v"
    have x: "\<And>j n. map_of (nodes ?x) j = Some n \<Longrightarrow> selected n \<longleftrightarrow> node = Some j"
        "\<And>j. map_of (nodes ?x) j = None \<longleftrightarrow> map_of (nodes v) j = None" "selected_node ?x = node"
      using select_flags_inv [OF inv known] by blast+
    have w: "w = (if show_mode v = Show_selected then interest_of_selection ?x else ?x)"
      using r node False by (simp add: select_node_flags)
    have "map_of (nodes ?x) i \<noteq> None" if "node = Some i" for i using x(2) [of i] known [OF that] by simp
    then show ?thesis using x(1,3)
      by (auto simp: w selection_inv_def interest_of_selection_def set_nodes_of_interest_def split: option.splits)
  qed (use r node inv in \<open>simp add: select_node_flags\<close>)
qed

lemma set_selected_links: "links_inv v \<Longrightarrow> links_inv (set_selected b i v)"
  by (simp add: set_selected_def update_appearance_links on_node_links)

lemma links_inv_fields [simp]:
  "links_inv (v\<lparr>selected_node := x\<rparr>) = links_inv v" "links_inv (v\<lparr>nodes_of_interest := ks\<rparr>) = links_inv v"
  "links_inv (v\<lparr>show_mode := m\<rparr>) = links_inv v"
  by (auto elim: links_inv_cong)

lemma select_node_links: "links_inv v \<Longrightarrow> select_node a v = Inr w \<Longrightarrow> links_inv w"
proof -
  assume inv: "links_inv v" and r: "select_node a v = Inr w"
  have "links_inv (select_flags node v)" for node
    using inv by (simp add: select_flags_def Let_def set_selected_links split: option.split)
  with inv r show ?thesis
    by (auto simp: select_node_flags rbind_eq_Inr interest_of_selection_def set_nodes_of_interest_def
        split: if_splits option.splits)
qed


section \<open>All operations\<close>

datatype view_op =
    Get_node int | Get_channel int | Create_link int endpoint
  | Set_position int point | Set_channel_position int point
  | Set_highlighted bool int | Set_size rat int | Set_label string int | Set_color "colour option" int
  | Set_svg_icon "(rat \<times> rat) res" "rat option" "rat option" point int
  | Select_node node_arg | Set_mode nat transmissions_mode

text \<open>
  What a caller of an operation hands over: a link joins objects of the view, a node object that is
  selected is one of the view, and an icon read from a file has a width and a height.
\<close>

fun proper_op :: "view \<Rightarrow> view_op \<Rightarrow> bool" where
  "proper_op v (Create_link i e) \<longleftrightarrow> endpoint_known v (Node_end i) \<and> endpoint_known v e"
| "proper_op v (Select_node (View_node i)) \<longleftrightarrow> endpoint_known v (Node_end i)"
| "proper_op v (Set_svg_icon (Inr (hw, hh)) w ht al i) \<longleftrightarrow> 0 < hw \<and> 0 < hh"
| "proper_op v _ \<longleftrightarrow> True"

text \<open>
  An operation that raises: \<^verbatim>\<open>select_node\<close>, \<^verbatim>\<open>set_label\<close>, \<^verbatim>\<open>set_color\<close> for a name that
  \<^verbatim>\<open>Gdk.color_parse\<close> does not know, and \<^verbatim>\<open>set_svg_icon\<close> of a picture with a size
  (\<open>icon_raises_first\<close> below) raise before they change anything, so that the view goes on as it was.
\<close>

fun carry_on :: "view \<Rightarrow> view res \<Rightarrow> view" where
  "carry_on v (Inl e) = v"
| "carry_on v (Inr w) = w"

fun view_op_result :: "bool \<Rightarrow> view_op \<Rightarrow> view \<Rightarrow> view res" where
  "view_op_result py3 (Get_node i) v = Inr (get_node i v)"
| "view_op_result py3 (Get_channel c) v = Inr (get_channel c v)"
| "view_op_result py3 (Create_link i e) v = Inr (create_link i e v)"
| "view_op_result py3 (Set_position i p) v = Inr (set_position i p v)"
| "view_op_result py3 (Set_channel_position c p) v = Inr (set_channel_position c p v)"
| "view_op_result py3 (Set_highlighted b i) v = Inr (set_highlighted b i v)"
| "view_op_result py3 (Set_size sz i) v = Inr (set_size sz i v)"
| "view_op_result py3 (Set_label t i) v = set_label py3 t i v"
| "view_op_result py3 (Set_color None i) v = Inl ValueError"
| "view_op_result py3 (Set_color (Some c) i) v = Inr (set_color c i v)"
| "view_op_result py3 (Set_svg_icon h w ht al i) v = set_svg_icon h w ht al i v"
| "view_op_result py3 (Select_node a) v = select_node a v"
| "view_op_result py3 (Set_mode n m) v = Inr (set_show_transmissions_mode n m v)"

definition view_op_step :: "bool \<Rightarrow> view_op \<Rightarrow> view \<Rightarrow> view option" where
  "view_op_step py3 op v = (if proper_op v op then Some (carry_on v (view_op_result py3 op v)) else None)"

definition view_inv :: "view \<Rightarrow> bool" where
  "view_inv v \<longleftrightarrow> links_inv v \<and> selection_inv v"

definition empty_view :: view where
  "empty_view = \<lparr>nodes = [], channels = [], links = [], bounds = Some (-10000, -10000, 10000, 10000),
     selected_node = None, show_mode = Show_all, nodes_of_interest = []\<rparr>"

lemma keeps_inv: "selection_inv v \<Longrightarrow> keeps v w \<Longrightarrow> selection_inv w"
  by (rule keeps_selection)

lemma fold_same_keeps: "keeps v (fold update_points ks v)"
  by (rule keeps_same) simp_all

lemma set_channel_position_selection: "selection_inv v \<Longrightarrow> selection_inv (set_channel_position c p v)"
  by (erule selection_cong [rotated 4]) (simp_all add: set_channel_position_def split: option.splits)

lemma add_link_at_selection: "selection_inv v \<Longrightarrow> selection_inv (add_link_at k e v)"
  by (cases e) (auto intro: on_node_selection selection_cong [of "on_channel _ _ v" v])

lemma create_link_selection: "selection_inv v \<Longrightarrow> selection_inv (create_link i e v)"
  by (auto simp: create_link_def Let_def simp del: add_link_at.simps intro!: add_link_at_selection elim: selection_cong [rotated 4])

lemma get_node_selection: "selection_inv v \<Longrightarrow> selection_inv (get_node i v)"
  by (auto simp: get_node_def selection_inv_def new_node_def appearance_def Let_def split: option.splits)

lemma get_channel_selection: "selection_inv v \<Longrightarrow> selection_inv (get_channel i v)"
  by (erule selection_cong [rotated 4]) (simp_all add: get_channel_def split: option.splits)

lemma mode_selection: "selection_inv v \<Longrightarrow> selection_inv (set_show_transmissions_mode n m v)"
  by (auto simp: set_show_transmissions_mode_def selection_inv_def set_nodes_of_interest_def interest_of_selection_def Let_def
      split: transmissions_mode.splits option.splits)

lemma mode_links: "links_inv v \<Longrightarrow> links_inv (set_show_transmissions_mode n m v)"
  by (auto simp: set_show_transmissions_mode_def set_nodes_of_interest_def interest_of_selection_def Let_def
      split: transmissions_mode.splits option.splits)

lemma appearance_op:
  assumes "view_inv v" "\<And>n. center (f n) = center n" "\<And>n. node_links (f n) = node_links n" "\<And>n. selected (f n) = selected n"
  shows "view_inv (update_appearance i (on_node i f v))"
  using assms keeps_selection [OF keeps_update_appearance]
  by (simp add: view_inv_def update_appearance_links on_node_links on_node_selection)

text \<open>An icon of a positive size can be scaled: \<^verbatim>\<open>set_svg_icon\<close> raises only where nothing has been changed.\<close>

lemma svg_set_scales:
  assumes "0 < fst (svg_handle t)" "0 < snd (svg_handle t)" "p \<in> {''width'', ''height''}"
  shows "\<exists>u. svg_set p x t = Inr u \<and> svg_handle u = svg_handle t"
  using assms by (auto simp: svg_set_def size_changed_def over_def split: option.splits prod.splits)

lemma icon_raises_first:
  assumes "0 < hw" "0 < hh" "map_of (nodes v) i = Some n" "width \<noteq> None \<or> height \<noteq> None"
  shows "\<exists>w. set_svg_icon (Inr (hw, hh)) width height al i v = Inr w"
proof -
  let ?t = "new_svg_item (fst (center n)) (snd (center n)) (hw, hh)"
  obtain t where t: "(case width of None \<Rightarrow> Inr ?t | Some w \<Rightarrow> svg_set ''width'' (w * PIXELS_PER_METER) ?t) = Inr t"
    "svg_handle t = (hw, hh)"
    using assms(1,2) svg_set_scales [of ?t "''width''"] by (cases width) (auto simp: new_svg_item_def)
  obtain u where "(case height of None \<Rightarrow> Inr t | Some w \<Rightarrow> svg_set ''height'' (w * PIXELS_PER_METER) t) = Inr u"
    using assms(1,2) t(2) svg_set_scales [of t "''height''"] by (cases height) auto
  with assms t show ?thesis by (auto simp: set_svg_icon_def Let_def)
qed

lemma view_inv_result: "view_inv v \<Longrightarrow> proper_op v op \<Longrightarrow> view_op_result py3 op v = Inr w \<Longrightarrow> view_inv w"
proof (cases op)
  case (Set_svg_icon h wd ht al i)
  assume inv: "view_inv v" and st: "view_op_result py3 op v = Inr w"
  with Set_svg_icon obtain n t where "w = update_appearance i (on_node i (\<lambda>n. n\<lparr>svg := Some (place_svg al (center n) t), align := al\<rparr>) v)"
    by (auto simp: set_svg_icon_def Let_def rbind_eq_Inr split: option.splits if_splits)
  with inv show ?thesis by (simp add: appearance_op)
next
  case (Select_node a)
  assume inv: "view_inv v" and p: "proper_op v op" and st: "view_op_result py3 op v = Inr w"
  with Select_node have r: "select_node a v = Inr w" and a: "\<And>i. a = View_node i \<Longrightarrow> map_of (nodes v) i \<noteq> None"
    by auto
  from inv select_node_selection [OF _ a r] select_node_links [OF _ r] show ?thesis by (simp add: view_inv_def)
next
  case (Set_position i p)
  assume "view_inv v" "view_op_result py3 op v = Inr w"
  with Set_position show ?thesis
    by (auto simp: view_inv_def set_position_links intro: keeps_selection [OF keeps_set_position])
next
  case (Set_color c i)
  assume "view_inv v" "view_op_result py3 op v = Inr w"
  with Set_color show ?thesis by (cases c) (auto simp: set_color_def appearance_op)
qed (auto simp: view_inv_def get_node_links get_channel_links create_link_links set_channel_position_links mode_links
      get_node_selection get_channel_selection create_link_selection set_channel_position_selection mode_selection
    set_highlighted_def set_size_def set_label_def
    simp del: endpoint_known.simps intro!: update_appearance_links on_node_links keeps_selection [OF keeps_update_appearance] on_node_selection split: if_splits)

lemma view_inv_step: "view_inv v \<Longrightarrow> view_op_step py3 op v = Some w \<Longrightarrow> view_inv w"
  by (cases "view_op_result py3 op v") (auto simp: view_op_step_def view_inv_result split: if_splits)

interpretation viz_view: invariant_system "view_op_step py3" view_inv for py3
  by unfold_locales (rule view_inv_step)

lemma empty_view_inv: "view_inv empty_view"
  by (simp add: view_inv_def links_inv_def selection_inv_def empty_view_def)


text \<open>
  C28: Whatever operations are called on the scene, in any order, under Python 2 or 3, and also after
  operations that raised: both ends of every link are objects of the view that know the link, and a
  link that has been drawn joins the places where they are now; the \<^verbatim>\<open>_selected\<close> flag is set at
  exactly the selected node, if there is one; and in the mode that shows the selected node only
  (not the mode the visualizer starts in) the simulator is asked for just that node.  The callers join
  and select objects of the view, and icons have a positive size (\<open>proper_op\<close>).
\<close>
theorem view_consistent:
  assumes "run_steps (view_op_step py3) ops empty_view = Some v"
  shows "(\<forall>k < length (links v). let l = links v ! k in
      (\<forall>e \<in> {Node_end (end1 l), end2 l}. endpoint_known v e \<and> k \<in> set (endpoint_links v e)) \<and>
      (path l = None \<or> path l = Some (position_of v (Node_end (end1 l)), position_of v (end2 l)))) \<and>
    (\<forall>i n. map_of (nodes v) i = Some n \<longrightarrow> (selected n \<longleftrightarrow> selected_node v = Some i)) \<and>
    (show_mode v = Show_selected \<longrightarrow> nodes_of_interest v = (case selected_node v of None \<Rightarrow> [] | Some i \<Rightarrow> [i]))"
  using viz_view.run_good [OF empty_view_inv assms]
  by (simp add: view_inv_def links_inv_def link_ok_def selection_inv_def endpoints_def drawn_at_def Let_def
      del: endpoint_known.simps endpoint_links.simps position_of.simps)

definition two_nodes :: "view_op list" where
  "two_nodes = [Get_node 0, Get_node 1, Create_link 0 (Node_end 1), Set_position 0 (3, 4), Set_label ''a'' 0, Set_mode 2 Show_selected,
     Select_node (Index 1), Select_node (Index 7), Set_position 1 (5, 6)]"

lemmas view_op_defs = view_op_step_def set_label_def two_nodes_def empty_view_def get_node_def create_link_def set_position_def grow_bounds_def
  on_node_def select_node_def set_selected_def update_appearance_def appearance_def new_node_def
  set_show_transmissions_mode_def interest_of_selection_def set_nodes_of_interest_def update_points_def Let_def

lemma two_nodes_run:
  "(case run_steps (view_op_step True) two_nodes empty_view of None \<Rightarrow> False
    | Some v \<Rightarrow> map path (links v) = [Some ((3, 4), (5, 6))] \<and> show_mode v = Show_selected \<and> selected_node v = Some 1)"
  by (simp add: view_op_defs)

theorem view_consistent_witness:
  "(case run_steps (view_op_step True) two_nodes empty_view of None \<Rightarrow> False
    | Some v \<Rightarrow> nodes_of_interest v = [1] \<and> length (links v) = 1)"
  using two_nodes_run view_consistent [of True two_nodes] by (auto split: option.splits dest: arg_cong [where f = length])

text \<open>The canvas always holds the place of the node moved last, and its bounds never shrink.\<close>

lemma set_position_bounds:
  assumes "map_of (nodes v) i \<noteq> None" "bounds v = Some (x1, y1, x2, y2)"
  shows "\<exists>a b c d. bounds (set_position i p v) = Some (a, b, c, d) \<and> a \<le> fst p \<and> fst p \<le> c \<and> b \<le> snd p \<and> snd p \<le> d \<and>
    a \<le> x1 \<and> b \<le> y1 \<and> x2 \<le> c \<and> y2 \<le> d"
proof -
  have "\<exists>a b c d. bounds (grow_bounds p w) = Some (a, b, c, d) \<and> a \<le> fst p \<and> fst p \<le> c \<and> b \<le> snd p \<and> snd p \<le> d \<and>
    a \<le> x1 \<and> b \<le> y1 \<and> x2 \<le> c \<and> y2 \<le> d" if "bounds w = Some (x1, y1, x2, y2)" for w
    using that by (auto simp: grow_bounds_def Let_def min_def max_def)
  with assms show ?thesis by (auto simp: set_position_def Let_def)
qed

text \<open>
  An icon given one size keeps its proportions; given both, it has them.  Reading the property
  \<^verbatim>\<open>width\<close> of an icon gives the width of the file and undoes the scaling.
\<close>
lemma svg_scales:
  assumes "0 < hw" "0 < hh"
  shows "\<exists>t. svg_set ''width'' w (new_svg_item x y (hw, hh)) = Inr t \<and> svg_width t = w \<and> svg_height t * hw = hh * w"
    and "\<exists>t u. svg_set ''width'' w (new_svg_item x y (hw, hh)) = Inr t \<and> svg_set ''height'' h t = Inr u \<and>
      svg_bounds u = (x, y, x + w, y + h)"
  using assms by (simp_all add: svg_set_def size_changed_def new_svg_item_def over_def svg_bounds_def)

lemma svg_get_width_resets:
  "svg_get ''width'' t = (Inr (fst (svg_handle t)), u) \<Longrightarrow> (svg_width u, svg_height u) = svg_handle t"
  by (auto simp: svg_get_def)

lemma is_item_at_bounds:
  "is_item_at x y t \<longleftrightarrow> (case svg_bounds t of (x1, y1, x2, y2) \<Rightarrow> x1 \<le> x \<and> x \<le> x2 \<and> y1 \<le> y \<and> y \<le> y2)"
  by (auto simp: is_item_at_def svg_bounds_def)

end
