(* ===== verification/VizScan.thy ===== *)
theory VizScan
  imports VizNodes
begin

text \<open>
  \<^verbatim>\<open>Visualizer.scan_topology\<close>: the nodes of the simulator become nodes of the view, channels with
  more than two devices become channel objects, wired devices become links, and graphviz places the
  nodes that have no position of their own.  The simulator's data are a record; the layout graphviz
  computes for a graph is an argument.
\<close>

section \<open>The scan\<close>

record sim_device =
  device_type :: string
  device_channel :: "int option"

record sim_node =
  mobility :: "point option"
  devices :: "sim_device list"

text \<open>For each channel, by its identity, the nodes of its devices in order.\<close>

record topology =
  sim_nodes :: "sim_node list"
  channel_nodes :: "int \<Rightarrow> nat list"

record graph =
  graph_names :: "string list"
  graph_edges :: "(string \<times> string) list"

definition graph_add_node :: "string \<Rightarrow> graph \<Rightarrow> graph" where
  "graph_add_node a g = (if a \<in> set (graph_names g) then g else g\<lparr>graph_names := graph_names g @ [a]\<rparr>)"

definition graph_add_edge :: "string \<Rightarrow> string \<Rightarrow> graph \<Rightarrow> graph" where
  "graph_add_edge a b g = (let g = graph_add_node b (graph_add_node a g) in g\<lparr>graph_edges := graph_edges g @ [(a, b)]\<rparr>)"

definition node_name :: "nat \<Rightarrow> string" where "node_name i = ''Node '' @ dec_nat i"

definition channel_name :: "int \<Rightarrow> string" where "channel_name c = ''Channel '' @ dec c"

definition has_mobility :: "topology \<Rightarrow> nat \<Rightarrow> view \<Rightarrow> bool \<times> view" where
  "has_mobility topo i v = (case map_of (nodes v) (int i) of
     Some n \<Rightarrow> (case mobility_known n of
        Some b \<Rightarrow> (b, v)
      | None \<Rightarrow> (let b = (mobility (sim_nodes topo ! i) \<noteq> None)
                in (b, on_node (int i) (\<lambda>n. n\<lparr>mobility_known := Some b\<rparr>) v)))
   | None \<Rightarrow> (False, v))"

definition scan_other :: "topology \<Rightarrow> nat \<Rightarrow> nat \<Rightarrow> view \<times> graph \<Rightarrow> view \<times> graph" where
  "scan_other topo i other = (\<lambda>(v, g).
     let v = get_node (int other) v in
     if other = i then (v, g)
     else (let (v, g) = (if mobility (sim_nodes topo ! i) = None then
                           (case has_mobility topo other v of
                              (True, v) \<Rightarrow> (v, g)
                            | (False, v) \<Rightarrow> (v, graph_add_edge (node_name i) (node_name other) g))
                         else (v, g))
           in (create_link (int i) (Node_end (int other)) (get_node (int i) v), g)))"

definition scan_channel :: "topology \<Rightarrow> nat \<Rightarrow> int \<Rightarrow> view \<times> graph \<Rightarrow> view \<times> graph" where
  "scan_channel topo i c = (\<lambda>(v, g).
     if 2 < length (channel_nodes topo c) then
       (let g = (if mobility (sim_nodes topo ! i) = None then graph_add_edge (node_name i) (channel_name c) g else g);
            v = get_channel c v
        in (create_link (int i) (Channel_end c) (get_channel c (get_node (int i) v)), g))
     else fold (scan_other topo i) (channel_nodes topo c) (v, g))"

fun scan_devices :: "topology \<Rightarrow> nat \<Rightarrow> sim_device list \<Rightarrow> (view \<times> graph) \<times> device_table \<Rightarrow> ((view \<times> graph) \<times> device_table) res" where
  "scan_devices topo i [] (st, table) = Inr (st, table)"
| "scan_devices topo i (d # ds) (st, table) =
     (let (traits, table) = lookup_netdevice_traits (device_type d) table in
      if is_wireless traits = Some True then scan_devices topo i ds (st, table)
      else if is_virtual traits then scan_devices topo i ds (st, table)
      else (case device_channel d of
              None \<Rightarrow> Inl AttributeError
            | Some c \<Rightarrow> scan_devices topo i ds (scan_channel topo i c st, table)))"

definition scan_node :: "topology \<Rightarrow> nat \<Rightarrow> (view \<times> graph) \<times> device_table \<Rightarrow> ((view \<times> graph) \<times> device_table) res" where
  "scan_node topo i = (\<lambda>((v, g), table).
     let v = get_node (int i) v;
         (v, g) = (case mobility (sim_nodes topo ! i) of
             Some (x, y) \<Rightarrow> (set_position (int i) (transform_point_simulation_to_canvas x y)
                              (set_color (Parsed 65535 0 0) (int i) v), g)
           | None \<Rightarrow> (v, graph_add_node (node_name i) g))
     in scan_devices topo i (devices (sim_nodes topo ! i)) ((v, g), table))"

fun scan_nodes :: "topology \<Rightarrow> nat list \<Rightarrow> (view \<times> graph) \<times> device_table \<Rightarrow> ((view \<times> graph) \<times> device_table) res" where
  "scan_nodes topo [] st = Inr st"
| "scan_nodes topo (i # is) st = rbind (scan_node topo i st) (scan_nodes topo is)"

text \<open>
  The loop over the nodes of the graph.  A name that begins with neither word would leave the object of
  the previous round in \<^verbatim>\<open>obj\<close>, which is the argument \<open>obj\<close>.
\<close>

definition named_object :: "view \<Rightarrow> endpoint option \<Rightarrow> string \<Rightarrow> endpoint res" where
  "named_object v obj name = (case split_on (CHR '' '') name of
     [node_type, node_id] \<Rightarrow>
       (if node_type = ''Node'' then
          rbind (py_int node_id) (\<lambda>i. if endpoint_known v (Node_end i) then Inr (Node_end i) else Inl KeyError)
        else if node_type = ''Channel'' then
          rbind (py_int node_id) (\<lambda>c. if endpoint_known v (Channel_end c) then Inr (Channel_end c) else Inl KeyError)
        else (case obj of Some e \<Rightarrow> Inr e | None \<Rightarrow> Inl UnboundLocalError))
   | _ \<Rightarrow> Inl ValueError)"

fun place_object :: "endpoint \<Rightarrow> point \<Rightarrow> view \<Rightarrow> view" where
  "place_object (Node_end i) p v = set_position i p v"
| "place_object (Channel_end c) p v = set_channel_position c p v"

fun place_names :: "(string \<Rightarrow> point) \<Rightarrow> endpoint option \<Rightarrow> string list \<Rightarrow> view \<Rightarrow> view res" where
  "place_names pos obj [] v = Inr v"
| "place_names pos obj (a # as) v =
     rbind (named_object v obj a) (\<lambda>e. place_names pos (Some e) as (place_object e (pos a) v))"

definition scan_topology :: "(graph \<Rightarrow> string \<Rightarrow> point) \<Rightarrow> topology \<Rightarrow> view \<Rightarrow> view res" where
  "scan_topology layout topo v =
     rbind (scan_nodes topo [0..<length (sim_nodes topo)] ((v, \<lparr>graph_names = [], graph_edges = []\<rparr>), netdevice_traits))
       (\<lambda>((v, g), table). place_names (layout g) None (graph_names g) v)"

section \<open>What is observed of a view\<close>

definition ends :: "view \<Rightarrow> (int \<times> endpoint) list" where
  "ends v = map (\<lambda>l. (end1 l, end2 l)) (links v)"

definition mob_known :: "view \<Rightarrow> int \<Rightarrow> bool option" where
  "mob_known v i = (case map_of (nodes v) i of None \<Rightarrow> None | Some n \<Rightarrow> mobility_known n)"

definition same_field :: "(vnode \<Rightarrow> 'a) \<Rightarrow> view \<Rightarrow> view \<Rightarrow> bool" where
  "same_field g v w \<longleftrightarrow> (\<forall>j. map_option g (map_of (nodes w) j) = map_option g (map_of (nodes v) j))"

lemma same_field_on_node: "(\<And>n. g (f n) = g n) \<Longrightarrow> same_field g v (on_node i f v)"
  by (auto simp: same_field_def option.map_comp comp_def)

lemma same_field_trans: "same_field g u v \<Longrightarrow> same_field g v w \<Longrightarrow> same_field g u w"
  by (simp add: same_field_def)

lemma same_field_nodes: "nodes v = nodes w \<Longrightarrow> same_field g v w"
  by (simp add: same_field_def)

lemma set_position_field:
  assumes "\<And>n q t. g (n\<lparr>center := q, svg := t\<rparr>) = g n" "\<And>n t. g (n\<lparr>label_item := t\<rparr>) = g n"
  shows "same_field g v (set_position i p v)"
proof (cases "map_of (nodes v) i")
  case (Some n)
  let ?w = "on_node i (\<lambda>n. n\<lparr>center := p, svg := map_option (place_svg (align n) p) (svg n)\<rparr>) v"
  let ?x = "fold update_points (node_links n) ?w"
  let ?y = "on_node i (\<lambda>n. n\<lparr>label_item := map_option (\<lambda>(q, t). ((fst p, snd p + node_size n * 3), t)) (label_item n)\<rparr>) ?x"
  have "same_field g v ?w" "same_field g ?x ?y" using assms by (simp_all add: same_field_on_node)
  moreover have "same_field g ?w ?x" "same_field g ?y (grow_bounds p ?y)" by (rule same_field_nodes; simp)+
  ultimately have "same_field g v (grow_bounds p ?y)" by (blast intro: same_field_trans)
  then show ?thesis using Some by (simp add: set_position_def Let_def)
qed (simp add: set_position_def same_field_def)

lemma ends_update [simp]: "ends (update_points k v) = ends v"
proof (cases "k < length (links v)")
  case True
  then show ?thesis
    by (simp add: ends_def update_points_def Let_def map_update list_update_same_conv)
qed (simp add: ends_def update_points_def Let_def list_update_beyond)

lemma ends_redraw [simp]: "ends (fold update_points ks v) = ends v"
  by (induction ks arbitrary: v) simp_all

lemma ends_on_node [simp]: "ends (on_node i f v) = ends v" "ends (on_channel c h v) = ends v" "ends (grow_bounds p v) = ends v"
  by (simp_all add: ends_def)


text \<open>
  Each operation of the scan, seen through the four observations: which objects there are, where they
  are, which links there are, and what is remembered about mobility.
\<close>

named_theorems obs "observations of the operations of the view"

lemma same_field_known: "same_field g v w \<Longrightarrow> map_of (nodes w) j = None \<longleftrightarrow> map_of (nodes v) j = None"
  by (metis same_field_def option.map_disc_iff)

lemma same_field_mob: "same_field mobility_known v w \<Longrightarrow> mob_known w j = mob_known v j"
  unfolding same_field_def by (drule spec [of _ j]) (auto simp: mob_known_def split: option.splits)

lemma position_of_on_node: "(\<And>n. center (f n) = center n) \<Longrightarrow> position_of (on_node i f v) e = position_of v e"
  by (cases e) (auto split: option.splits)

lemma endpoint_known_on_node: "endpoint_known (on_node i f v) e = endpoint_known v e"
  by (cases e) auto

lemma set_position_channels [simp]: "channels (set_position i p v) = channels v"
  by (simp add: set_position_def Let_def split: option.splits)

lemma set_position_obs [obs]:
  "endpoint_known (set_position i p v) e = endpoint_known v e"
  "mob_known (set_position i p v) j = mob_known v j"
  "ends (set_position i p v) = ends v"
  "position_of (set_position i p v) e = (if e = Node_end i \<and> endpoint_known v e then p else position_of v e)"
proof -
  have f: "same_field node_index v (set_position i p v)" "same_field mobility_known v (set_position i p v)"
    by (rule set_position_field; simp)+
  show "endpoint_known (set_position i p v) e = endpoint_known v e"
    using same_field_known [OF f(1)] by (cases e) simp_all
  show "mob_known (set_position i p v) j = mob_known v j" by (rule same_field_mob [OF f(2)])
  show "ends (set_position i p v) = ends v" by (simp add: set_position_def Let_def split: option.splits)
  show "position_of (set_position i p v) e = (if e = Node_end i \<and> endpoint_known v e then p else position_of v e)"
    by (cases e) (auto simp: set_position_def Let_def split: option.splits)
qed

lemma set_channel_position_obs [obs]:
  "endpoint_known (set_channel_position c p v) e = endpoint_known v e"
  "mob_known (set_channel_position c p v) j = mob_known v j"
  "ends (set_channel_position c p v) = ends v"
  "position_of (set_channel_position c p v) (Node_end i) = position_of v (Node_end i)"
  by (cases e; simp add: set_channel_position_def mob_known_def split: option.splits)+

lemma update_appearance_fields:
  assumes "\<And>n q t. g (n\<lparr>svg := t\<rparr>) = g n" "\<And>n t. g (n\<lparr>label_item := t\<rparr>) = g n" "\<And>n. g (appearance n) = g n"
    "\<And>n q. g (n\<lparr>center := q\<rparr>) = g n"
  shows "same_field g v (update_appearance i v)"
proof -
  let ?w = "on_node i appearance v"
  have w: "same_field g v ?w" using assms by (simp add: same_field_on_node)
  have "same_field g ?w (set_position i p (on_node i (\<lambda>n. n\<lparr>label_item := Some (case label_item n of None \<Rightarrow> ((0, 0), t) | Some (q, _) \<Rightarrow> (q, t))\<rparr>) ?w))"
    for p t by (rule same_field_trans [OF same_field_on_node set_position_field]) (use assms in auto)
  note same_field_trans [OF w this]
  with w show ?thesis unfolding update_appearance_def Let_def by (simp split: option.split)
qed

lemma appearance_fields [simp]:
  "center (appearance n) = center n" "mobility_known (appearance n) = mobility_known n" "node_index (appearance n) = node_index n"
  by (simp_all add: appearance_def Let_def)

lemma update_appearance_obs:
  "endpoint_known (update_appearance i v) e = endpoint_known v e"
  "mob_known (update_appearance i v) j = mob_known v j"
  "ends (update_appearance i v) = ends v"
  "position_of (update_appearance i v) e = position_of v e"
proof -
  have f: "same_field node_index v (update_appearance i v)" "same_field mobility_known v (update_appearance i v)"
    by (rule update_appearance_fields; simp)+
  have c: "channels (update_appearance i v) = channels v" by (simp add: update_appearance_def Let_def split: option.splits)
  show "endpoint_known (update_appearance i v) e = endpoint_known v e"
    using same_field_known [OF f(1)] c by (cases e) simp_all
  show "mob_known (update_appearance i v) j = mob_known v j" by (rule same_field_mob [OF f(2)])
  show "ends (update_appearance i v) = ends v" by (simp add: update_appearance_def Let_def set_position_obs(3) split: option.splits)
  show "position_of (update_appearance i v) e = position_of v e"
  proof (cases "map_of (nodes v) i")
    case (Some n)
    have "position_of v (Node_end i) = center n" using Some by simp
    then show ?thesis using Some
      by (simp add: update_appearance_def Let_def set_position_obs(4) position_of_on_node endpoint_known_on_node del: position_of.simps split: option.split)
  qed (simp add: update_appearance_def Let_def position_of_on_node del: position_of.simps)
qed


lemma mob_known_on_node: "(\<And>n. mobility_known (f n) = mobility_known n) \<Longrightarrow> mob_known (on_node i f v) j = mob_known v j"
  by (auto simp: mob_known_def split: option.splits)

lemma set_color_obs [obs]:
  "endpoint_known (set_color c i v) e = endpoint_known v e" "mob_known (set_color c i v) j = mob_known v j"
  "ends (set_color c i v) = ends v" "position_of (set_color c i v) e = position_of v e"
  by (simp_all add: set_color_def update_appearance_obs endpoint_known_on_node position_of_on_node mob_known_on_node
      del: endpoint_known.simps position_of.simps)

lemma get_node_obs [obs]:
  "endpoint_known (get_node i v) e = (endpoint_known v e \<or> e = Node_end i)" "mob_known (get_node i v) j = mob_known v j"
  "ends (get_node i v) = ends v" "position_of (get_node i v) e = position_of v e"
proof -
  show "endpoint_known (get_node i v) e = (endpoint_known v e \<or> e = Node_end i)"
    by (cases e) (auto simp: get_node_def split: option.splits)
  show "mob_known (get_node i v) j = mob_known v j"
    by (auto simp: get_node_def mob_known_def new_node_def split: option.splits)
  show "ends (get_node i v) = ends v" by (simp add: get_node_def ends_def split: option.splits)
  show "position_of (get_node i v) e = position_of v e"
    by (cases e) (auto simp: get_node_def new_node_def split: option.splits)
qed

lemma get_channel_obs [obs]:
  "endpoint_known (get_channel c v) e = (endpoint_known v e \<or> e = Channel_end c)" "mob_known (get_channel c v) j = mob_known v j"
  "ends (get_channel c v) = ends v" "position_of (get_channel c v) e = position_of v e"
proof -
  show "endpoint_known (get_channel c v) e = (endpoint_known v e \<or> e = Channel_end c)"
    by (cases e) (auto simp: get_channel_def split: option.splits)
  show "mob_known (get_channel c v) j = mob_known v j"
    by (auto simp: get_channel_def mob_known_def split: option.splits)
  show "ends (get_channel c v) = ends v" by (simp add: get_channel_def ends_def split: option.splits)
  show "position_of (get_channel c v) e = position_of v e"
    by (cases e) (auto simp: get_channel_def split: option.splits)
qed

lemma add_link_at_mob: "mob_known (add_link_at k e v) j = mob_known v j"
  by (cases e) (auto simp: mob_known_def map_option_case split: option.splits)

lemma create_link_obs [obs]:
  "endpoint_known (create_link i x v) e = endpoint_known v e" "mob_known (create_link i x v) j = mob_known v j"
  "ends (create_link i x v) = ends v @ [(i, x)]" "position_of (create_link i x v) e = position_of v e"
proof -
  let ?v = "v\<lparr>links := links v @ [\<lparr>end1 = i, end2 = x, path = None\<rparr>]\<rparr>"
  have v: "endpoint_known ?v e = endpoint_known v e" "position_of ?v e = position_of v e" "mob_known ?v j = mob_known v j"
    by (cases e; simp add: mob_known_def)+
  show "endpoint_known (create_link i x v) e = endpoint_known v e" "mob_known (create_link i x v) j = mob_known v j"
    "position_of (create_link i x v) e = position_of v e"
    using v by (simp_all add: create_link_def Let_def add_link_at_ends add_link_at_mob del: add_link_at.simps endpoint_known.simps position_of.simps)
  show "ends (create_link i x v) = ends v @ [(i, x)]"
    by (simp add: create_link_def Let_def ends_def add_link_at_ends(5) del: add_link_at.simps)
qed

text \<open>What is remembered about mobility is right.\<close>

definition mob_ok :: "topology \<Rightarrow> view \<Rightarrow> bool" where
  "mob_ok topo v \<longleftrightarrow> (\<forall>i b. mob_known v (int i) = Some b \<longrightarrow> b = (mobility (sim_nodes topo ! i) \<noteq> None))"

lemma has_mobility_obs:
  assumes "has_mobility topo i v = (b, w)" "mob_ok topo v" "endpoint_known v (Node_end (int i))"
  shows "b = (mobility (sim_nodes topo ! i) \<noteq> None)" "mob_ok topo w" "endpoint_known w e = endpoint_known v e"
    "ends w = ends v" "position_of w e = position_of v e" "links_inv v \<Longrightarrow> links_inv w"
proof -
  from assms(3) obtain n where n: "map_of (nodes v) (int i) = Some n" by auto
  have k: "mob_known v (int i) = mobility_known n" using n by (simp add: mob_known_def)
  show "b = (mobility (sim_nodes topo ! i) \<noteq> None)"
    using assms(1,2) n k by (auto simp: has_mobility_def mob_ok_def Let_def split: option.splits)
  have "mob_known w j = (if j = int i \<and> mobility_known n = None then Some (mobility (sim_nodes topo ! i) \<noteq> None) else mob_known v j)" for j
    using assms(1) n by (auto simp: has_mobility_def mob_known_def Let_def split: option.splits)
  then show "mob_ok topo w" using assms(2) by (auto simp: mob_ok_def split: if_splits)
  show "endpoint_known w e = endpoint_known v e" "ends w = ends v" "position_of w e = position_of v e" "links_inv v \<Longrightarrow> links_inv w"
    using assms(1) n by (auto simp: has_mobility_def Let_def endpoint_known_on_node position_of_on_node simp del: endpoint_known.simps position_of.simps intro: on_node_links split: option.splits)
qed


section \<open>The scan step by step\<close>

definition wired :: "sim_device \<Rightarrow> bool" where
  "wired d \<longleftrightarrow> (let t = fst (lookup_netdevice_traits (device_type d) netdevice_traits)
     in is_wireless t \<noteq> Some True \<and> \<not> is_virtual t)"

text \<open>Every wired device is attached to a channel, whose devices belong to nodes of the simulation.\<close>

definition topology_ok :: "topology \<Rightarrow> bool" where
  "topology_ok topo \<longleftrightarrow> (\<forall>nd \<in> set (sim_nodes topo). \<forall>d \<in> set (devices nd). wired d \<longrightarrow>
     (case device_channel d of None \<Rightarrow> False
      | Some c \<Rightarrow> 0 \<le> c \<and> (\<forall>j \<in> set (channel_nodes topo c). j < length (sim_nodes topo))))"

definition channel_wires :: "topology \<Rightarrow> nat \<Rightarrow> int \<Rightarrow> (int \<times> endpoint) list" where
  "channel_wires topo i c =
     (if 2 < length (channel_nodes topo c) then [(int i, Channel_end c)]
      else [(int i, Node_end (int j)). j \<leftarrow> channel_nodes topo c, j \<noteq> i])"

definition device_wires :: "topology \<Rightarrow> nat \<Rightarrow> sim_device \<Rightarrow> (int \<times> endpoint) list" where
  "device_wires topo i d = (if wired d then (case device_channel d of None \<Rightarrow> [] | Some c \<Rightarrow> channel_wires topo i c) else [])"

definition node_wires :: "topology \<Rightarrow> nat \<Rightarrow> (int \<times> endpoint) list" where
  "node_wires topo i = concat (map (device_wires topo i) (devices (sim_nodes topo ! i)))"

abbreviation fixed_node :: "topology \<Rightarrow> nat \<Rightarrow> bool" where
  "fixed_node topo i \<equiv> mobility (sim_nodes topo ! i) = None"

definition name_ok :: "topology \<Rightarrow> view \<Rightarrow> string \<Rightarrow> bool" where
  "name_ok topo v a \<longleftrightarrow>
     (\<exists>j. fixed_node topo j \<and> a = node_name j \<and> endpoint_known v (Node_end (int j))) \<or>
     (\<exists>c \<ge> 0. a = channel_name c \<and> endpoint_known v (Channel_end c))"

definition scan_ok :: "topology \<Rightarrow> view \<times> graph \<Rightarrow> bool" where
  "scan_ok topo st \<longleftrightarrow> links_inv (fst st) \<and> mob_ok topo (fst st) \<and> distinct (graph_names (snd st)) \<and>
     (\<forall>a \<in> set (graph_names (snd st)). name_ok topo (fst st) a)"

definition grows :: "view \<times> graph \<Rightarrow> view \<times> graph \<Rightarrow> (int \<times> endpoint) list \<Rightarrow> bool" where
  "grows st st' ws \<longleftrightarrow> (\<forall>e. endpoint_known (fst st) e \<longrightarrow> endpoint_known (fst st') e) \<and>
     set (graph_names (snd st)) \<subseteq> set (graph_names (snd st')) \<and>
     (\<forall>e. position_of (fst st') e = position_of (fst st) e) \<and> ends (fst st') = ends (fst st) @ ws"

lemma grows_refl: "grows st st []"
  by (simp add: grows_def)

lemma grows_trans: "grows a b us \<Longrightarrow> grows b c ws \<Longrightarrow> grows a c (us @ ws)"
  by (auto simp: grows_def)

lemma graph_names_add [simp]:
  "set (graph_names (graph_add_node a g)) = insert a (set (graph_names g))"
  "distinct (graph_names (graph_add_node a g)) = distinct (graph_names g)"
  "set (graph_names (graph_add_edge a b g)) = {a, b} \<union> set (graph_names g)"
  "distinct (graph_names (graph_add_edge a b g)) = distinct (graph_names g)"
  by (auto simp: graph_add_node_def graph_add_edge_def Let_def)

lemma name_ok_mono: "name_ok topo v a \<Longrightarrow> (\<And>e. endpoint_known v e \<Longrightarrow> endpoint_known w e) \<Longrightarrow> name_ok topo w a"
  unfolding name_ok_def by blast

lemma name_ok_node: "fixed_node topo j \<Longrightarrow> endpoint_known v (Node_end (int j)) \<Longrightarrow> name_ok topo v (node_name j)"
  unfolding name_ok_def by blast

lemma name_ok_channel: "0 \<le> c \<Longrightarrow> endpoint_known v (Channel_end c) \<Longrightarrow> name_ok topo v (channel_name c)"
  unfolding name_ok_def by blast

lemma mob_ok_same: "mob_ok topo v \<Longrightarrow> (\<And>j. mob_known w j = mob_known v j) \<Longrightarrow> mob_ok topo w"
  by (simp add: mob_ok_def)

lemma scan_other_ok:
  assumes ok: "scan_ok topo (v, g)" and known: "endpoint_known v (Node_end (int i))"
    and r: "scan_other topo i other (v, g) = st'"
  shows "scan_ok topo st' \<and> grows (v, g) st' (if other = i then [] else [(int i, Node_end (int other))])"
proof -
  define u where "u = get_node (int other) v"
  have u: "links_inv u" "mob_ok topo u" "endpoint_known u e = (endpoint_known v e \<or> e = Node_end (int other))"
    "ends u = ends v" "position_of u e = position_of v e" for e
    using ok by (auto simp: u_def scan_ok_def obs get_node_links intro: mob_ok_same simp del: endpoint_known.simps position_of.simps)
  show ?thesis
  proof (cases "other = i")
    case True
    with r have "st' = (u, g)" by (simp add: scan_other_def u_def Let_def)
    with True u ok show ?thesis
      by (auto simp: scan_ok_def grows_def simp del: endpoint_known.simps position_of.simps elim!: name_ok_mono)
  next
    case False
    obtain w h where wh: "st' = (create_link (int i) (Node_end (int other)) (get_node (int i) w), h)"
      and w: "links_inv w" "mob_ok topo w" "\<And>e. endpoint_known w e = endpoint_known u e" "ends w = ends u"
        "\<And>e. position_of w e = position_of u e"
      and h: "h = g \<or> fixed_node topo i \<and> fixed_node topo other \<and> h = graph_add_edge (node_name i) (node_name other) g"
    proof (cases "fixed_node topo i")
      case True
      obtain b w where bw: "has_mobility topo other u = (b, w)" by force
      have m: "b = (mobility (sim_nodes topo ! other) \<noteq> None)" "mob_ok topo w" "endpoint_known w e = endpoint_known u e"
        "ends w = ends u" "position_of w e = position_of u e" "links_inv w" for e
        using has_mobility_obs [OF bw u(2)] u by blast+
      have "st' = (create_link (int i) (Node_end (int other)) (get_node (int i) w),
            if b then g else graph_add_edge (node_name i) (node_name other) g)"
        using r False True bw by (simp add: scan_other_def u_def Let_def split: bool.splits)
      with m True show thesis
        by (intro that [of w "if b then g else graph_add_edge (node_name i) (node_name other) g"]) auto
    next
      case False
      with r \<open>other \<noteq> i\<close> have "st' = (create_link (int i) (Node_end (int other)) (get_node (int i) u), g)"
        by (simp add: scan_other_def u_def Let_def)
      with u show thesis by (intro that [of u g]) auto
    qed
    let ?x = "create_link (int i) (Node_end (int other)) (get_node (int i) w)"
    have x: "links_inv ?x" "mob_ok topo ?x" "endpoint_known ?x e = (endpoint_known v e \<or> e = Node_end (int other))"
      "ends ?x = ends v @ [(int i, Node_end (int other))]" "position_of ?x e = position_of v e" for e
      using w u known
      by (auto simp: obs simp del: endpoint_known.simps position_of.simps intro!: create_link_links get_node_links intro: mob_ok_same)
    have old: "name_ok topo ?x a" if "a \<in> set (graph_names g)" for a
      by (rule name_ok_mono [of topo v]) (use ok that x(3) in \<open>simp_all add: scan_ok_def\<close>)
    have "name_ok topo ?x a" if "a \<in> set (graph_names h)" for a
      using that h old name_ok_node [of topo i ?x] name_ok_node [of topo other ?x] x(3) known by (auto simp del: endpoint_known.simps)
    with x h wh False ok show ?thesis by (auto simp: scan_ok_def grows_def simp del: endpoint_known.simps position_of.simps)
  qed
qed


lemma scan_others_ok:
  "scan_ok topo st \<Longrightarrow> endpoint_known (fst st) (Node_end (int i)) \<Longrightarrow>
     scan_ok topo (fold (scan_other topo i) js st) \<and>
     grows st (fold (scan_other topo i) js st) [(int i, Node_end (int j)). j \<leftarrow> js, j \<noteq> i]"
proof (induction js arbitrary: st)
  case (Cons j js)
  obtain v g where st: "st = (v, g)" by force
  let ?st = "scan_other topo i j st"
  have one: "scan_ok topo ?st" "grows st ?st (if j = i then [] else [(int i, Node_end (int j))])"
    using scan_other_ok [of topo v g i j ?st] Cons.prems st by simp_all
  then have "endpoint_known (fst ?st) (Node_end (int i))" using Cons.prems(2) unfolding grows_def by blast
  from Cons.IH [OF one(1) this] have "scan_ok topo (fold (scan_other topo i) js ?st)"
    "grows ?st (fold (scan_other topo i) js ?st) [(int i, Node_end (int j)). j \<leftarrow> js, j \<noteq> i]" by blast+
  with grows_trans [OF one(2) this(2)] show ?case by (cases "j = i") simp_all
qed (simp add: grows_refl)

lemma scan_channel_ok:
  assumes ok: "scan_ok topo st" and known: "endpoint_known (fst st) (Node_end (int i))" and c: "0 \<le> c"
  shows "scan_ok topo (scan_channel topo i c st) \<and> grows st (scan_channel topo i c st) (channel_wires topo i c)"
proof (cases "2 < length (channel_nodes topo c)")
  case True
  obtain v g where st: "st = (v, g)" by force
  let ?h = "if fixed_node topo i then graph_add_edge (node_name i) (channel_name c) g else g"
  let ?x = "create_link (int i) (Channel_end c) (get_channel c (get_node (int i) (get_channel c v)))"
  have r: "scan_channel topo i c st = (?x, ?h)" using True st by (simp add: scan_channel_def Let_def)
  have x: "links_inv ?x" "mob_ok topo ?x" "endpoint_known ?x e = (endpoint_known v e \<or> e = Channel_end c)"
      "ends ?x = ends v @ [(int i, Channel_end c)]" "position_of ?x e = position_of v e" for e
    using ok known st
    by (auto simp: scan_ok_def obs simp del: endpoint_known.simps position_of.simps
        intro!: create_link_links get_node_links get_channel_links intro: mob_ok_same)
  have old: "name_ok topo ?x a" if "a \<in> set (graph_names g)" for a
    by (rule name_ok_mono [of topo v]) (use ok st that x(3) in \<open>simp_all add: scan_ok_def\<close>)
  have "name_ok topo ?x a" if "a \<in> set (graph_names ?h)" for a
    using that old name_ok_node [of topo i ?x] name_ok_channel [OF c, of ?x topo] x(3) known st by (auto simp del: endpoint_known.simps split: if_splits)
  with x r True ok st show ?thesis
    by (auto simp: scan_ok_def grows_def channel_wires_def simp del: endpoint_known.simps position_of.simps)
next
  case False
  with scan_others_ok [OF ok known, of "channel_nodes topo c"] show ?thesis
    by (cases st) (simp add: scan_channel_def channel_wires_def)
qed

text \<open>The table of device types grows, but every type keeps its traits.\<close>

definition same_traits :: "device_table \<Rightarrow> bool" where
  "same_traits table \<longleftrightarrow> (\<forall>t. fst (lookup_netdevice_traits t table) = fst (lookup_netdevice_traits t netdevice_traits))"

lemma same_traits_lookup: "same_traits table \<Longrightarrow> same_traits (snd (lookup_netdevice_traits t table))" (is "_ \<Longrightarrow> ?thesis")
proof -
  have "fst (lookup_netdevice_traits t' (snd (lookup_netdevice_traits t table))) = fst (lookup_netdevice_traits t' table)" for t'
    by (cases "map_of table t"; cases "t' = t") (simp_all add: lookup_netdevice_traits_def Let_def split: option.split)
  then show "same_traits table \<Longrightarrow> ?thesis" by (simp add: same_traits_def)
qed

lemma scan_devices_ok:
  assumes "scan_ok topo st" "endpoint_known (fst st) (Node_end (int i))" "same_traits table"
    "\<And>d. d \<in> set ds \<Longrightarrow> wired d \<Longrightarrow> \<exists>c \<ge> 0. device_channel d = Some c"
  shows "\<exists>st' table'. scan_devices topo i ds (st, table) = Inr (st', table') \<and> scan_ok topo st' \<and> same_traits table' \<and>
    grows st st' (concat (map (device_wires topo i) ds))"
  using assms
proof (induction ds arbitrary: st table)
  case (Cons d ds)
  obtain t table' where l: "lookup_netdevice_traits (device_type d) table = (t, table')" by force
  then have table': "same_traits table'" using same_traits_lookup [OF Cons.prems(3), of "device_type d"] by simp
  have t: "t = fst (lookup_netdevice_traits (device_type d) netdevice_traits)"
    using Cons.prems(3) l by (metis same_traits_def fst_conv)
  have rest: "\<And>d. d \<in> set ds \<Longrightarrow> wired d \<Longrightarrow> \<exists>c \<ge> 0. device_channel d = Some c" using Cons.prems(4) by simp
  show ?case
  proof (cases "wired d")
    case True
    then obtain c where c: "0 \<le> c" "device_channel d = Some c" using Cons.prems(4) [of d] by auto
    let ?st = "scan_channel topo i c st"
    have one: "scan_ok topo ?st" "grows st ?st (channel_wires topo i c)"
      using scan_channel_ok [OF Cons.prems(1,2) c(1)] by blast+
    then have "endpoint_known (fst ?st) (Node_end (int i))" using Cons.prems(2) unfolding grows_def by blast
    from Cons.IH [OF one(1) this table' rest] obtain st' table'' where
      "scan_devices topo i ds (?st, table') = Inr (st', table'')" "scan_ok topo st'" "same_traits table''"
      "grows ?st st' (concat (map (device_wires topo i) ds))" by blast
    moreover have "device_wires topo i d = channel_wires topo i c" using True c by (simp add: device_wires_def)
    moreover have "scan_devices topo i (d # ds) (st, table) = scan_devices topo i ds (?st, table')"
      using l t c True by (simp add: wired_def Let_def)
    ultimately show ?thesis using grows_trans [OF one(2), of st'] by auto
  next
    case False
    then have "scan_devices topo i (d # ds) (st, table) = scan_devices topo i ds (st, table')"
      using l t by (auto simp: wired_def Let_def)
    moreover have "device_wires topo i d = []" using False by (simp add: device_wires_def)
    ultimately show ?thesis using Cons.IH [OF Cons.prems(1,2) table' rest] by simp
  qed
qed (simp add: grows_refl)


text \<open>A node of the simulator: its own position or a name in the graph, then its devices.\<close>

definition own_position :: "topology \<Rightarrow> nat \<Rightarrow> point option" where
  "own_position topo i = map_option (\<lambda>(x, y). transform_point_simulation_to_canvas x y) (mobility (sim_nodes topo ! i))"

definition scanned :: "topology \<Rightarrow> nat \<Rightarrow> view \<times> graph \<Rightarrow> bool" where
  "scanned topo i st \<longleftrightarrow> endpoint_known (fst st) (Node_end (int i)) \<and>
     (case own_position topo i of
        Some p \<Rightarrow> position_of (fst st) (Node_end (int i)) = p
      | None \<Rightarrow> node_name i \<in> set (graph_names (snd st)))"

lemma set_color_links: "links_inv v \<Longrightarrow> links_inv (set_color c i v)"
  by (simp add: set_color_def update_appearance_links on_node_links)

lemma scan_node_ok:
  assumes topo: "topology_ok topo" and i: "i < length (sim_nodes topo)" and ok: "scan_ok topo st" and tr: "same_traits table"
  shows "\<exists>st' table'. scan_node topo i (st, table) = Inr (st', table') \<and> scan_ok topo st' \<and> same_traits table' \<and>
    scanned topo i st' \<and> ends (fst st') = ends (fst st) @ node_wires topo i \<and>
    (\<forall>j. j \<noteq> i \<longrightarrow> scanned topo j st \<longrightarrow> scanned topo j st')"
proof -
  obtain v g where st: "st = (v, g)" by force
  define u where "u = (case own_position topo i of
      Some p \<Rightarrow> (set_position (int i) p (set_color (Parsed 65535 0 0) (int i) (get_node (int i) v)), g)
    | None \<Rightarrow> (get_node (int i) v, graph_add_node (node_name i) g))"
  have r: "scan_node topo i (st, table) = scan_devices topo i (devices (sim_nodes topo ! i)) (u, table)"
    by (auto simp: scan_node_def u_def own_position_def st Let_def split: option.splits)
  have known: "endpoint_known (fst u) e = (endpoint_known v e \<or> e = Node_end (int i))" for e
    by (simp add: u_def obs del: endpoint_known.simps split: option.split)
  have old: "name_ok topo (fst u) a" if "a \<in> set (graph_names g)" for a
    by (rule name_ok_mono [of topo v]) (use ok st that known in \<open>simp_all add: scan_ok_def\<close>)
  have "scan_ok topo u"
  proof (cases "own_position topo i")
    case None
    then have "fixed_node topo i" by (simp add: own_position_def)
    then show ?thesis using ok st None old known name_ok_node [of topo i "fst u"]
      by (auto simp: scan_ok_def u_def obs simp del: endpoint_known.simps intro: get_node_links mob_ok_same)
  next
    case (Some p)
    then show ?thesis using ok st old
      by (auto simp: scan_ok_def u_def obs simp del: endpoint_known.simps
          intro: get_node_links set_color_links set_position_links mob_ok_same)
  qed
  moreover have "\<exists>c \<ge> 0. device_channel d = Some c" if "d \<in> set (devices (sim_nodes topo ! i))" "wired d" for d
  proof -
    have "sim_nodes topo ! i \<in> set (sim_nodes topo)" using i by simp
    with topo that show ?thesis unfolding topology_ok_def by (cases "device_channel d") fastforce+
  qed
  ultimately obtain st' table' where st': "scan_devices topo i (devices (sim_nodes topo ! i)) (u, table) = Inr (st', table')"
      "scan_ok topo st'" "same_traits table'" "grows u st' (node_wires topo i)"
    using scan_devices_ok [of topo u i table] known tr unfolding node_wires_def by blast
  have "ends (fst u) = ends v" by (simp add: u_def obs split: option.split)
  moreover have "scanned topo i u"
    by (auto simp: scanned_def known u_def obs simp del: endpoint_known.simps position_of.simps split: option.splits)
  moreover have "scanned topo j u" if "j \<noteq> i" "scanned topo j st" for j
    using that by (auto simp: scanned_def known u_def obs st simp del: endpoint_known.simps position_of.simps split: option.splits)
  moreover have "scanned topo j st'" if "scanned topo j u" for j
    using that st'(4) by (auto simp: scanned_def grows_def simp del: endpoint_known.simps position_of.simps split: option.splits)
  ultimately show ?thesis using r st' st by (auto simp: grows_def)
qed

lemma scan_nodes_ok:
  assumes "topology_ok topo" "\<forall>i \<in> set is. i < length (sim_nodes topo)" "distinct is" "scan_ok topo st" "same_traits table"
  shows "\<exists>st' table'. scan_nodes topo is (st, table) = Inr (st', table') \<and> scan_ok topo st' \<and>
    ends (fst st') = ends (fst st) @ concat (map (node_wires topo) is) \<and>
    (\<forall>i \<in> set is. scanned topo i st') \<and> (\<forall>j. j \<notin> set is \<longrightarrow> scanned topo j st \<longrightarrow> scanned topo j st')"
  using assms
proof (induction "is" arbitrary: st table)
  case (Cons i "is")
  from Cons.prems scan_node_ok [of topo i st table] obtain st1 table1 where
    one: "scan_node topo i (st, table) = Inr (st1, table1)" "scan_ok topo st1" "same_traits table1" "scanned topo i st1"
      "ends (fst st1) = ends (fst st) @ node_wires topo i" "\<forall>j. j \<noteq> i \<longrightarrow> scanned topo j st \<longrightarrow> scanned topo j st1" by auto
  from Cons.prems Cons.IH [of st1 table1] one obtain st' table' where
    "scan_nodes topo is (st1, table1) = Inr (st', table')" "scan_ok topo st'"
      "ends (fst st') = ends (fst st1) @ concat (map (node_wires topo) is)" "\<forall>i \<in> set is. scanned topo i st'"
      "\<forall>j. j \<notin> set is \<longrightarrow> scanned topo j st1 \<longrightarrow> scanned topo j st'" by auto
  with one Cons.prems show ?case by auto
qed simp


section \<open>The layout\<close>

lemma split_named: "split_on (CHR '' '') (w @ CHR '' '' # dec_nat n) = split_on (CHR '' '') w @ [dec_nat n]"
  using digit_char dec_nat_digits by (subst split_on_append, subst split_on_single) blast+

lemma named_node: "endpoint_known v (Node_end (int i)) \<Longrightarrow> named_object v obj (node_name i) = Inr (Node_end (int i))"
  using split_named [of "''Node''" i] by (simp add: named_object_def node_name_def py_int_dec)

lemma named_channel: "endpoint_known v (Channel_end c) \<Longrightarrow> 0 \<le> c \<Longrightarrow> named_object v obj (channel_name c) = Inr (Channel_end c)"
  using split_named [of "''Channel''" "nat c"] by (simp add: named_object_def channel_name_def dec_def py_int_dec)

lemma node_name_inject: "node_name i = node_name j \<longleftrightarrow> i = j"
  by (metis node_name_def append_eq_append_conv py_int_dec sum.inject(2) of_nat_eq_iff)

lemma name_ok_fixed: "name_ok topo v (node_name i) \<Longrightarrow> fixed_node topo i"
  unfolding name_ok_def node_name_inject by (auto simp: node_name_def channel_name_def)

lemma place_object_links: "links_inv v \<Longrightarrow> links_inv (place_object e p v)"
  by (cases e) (simp_all add: set_position_links set_channel_position_links)

lemma place_object_obs:
  "endpoint_known (place_object x p v) e = endpoint_known v e" "ends (place_object x p v) = ends v"
  "position_of (place_object x p v) (Node_end i) = (if x = Node_end i \<and> endpoint_known v x then p else position_of v (Node_end i))"
proof -
  show "endpoint_known (place_object x p v) e = endpoint_known v e" "ends (place_object x p v) = ends v"
    by (cases x; simp add: obs del: endpoint_known.simps position_of.simps)+
  show "position_of (place_object x p v) (Node_end i) = (if x = Node_end i \<and> endpoint_known v x then p else position_of v (Node_end i))"
  proof (cases x)
    case (Node_end j)
    then show ?thesis by (cases "i = j") (simp_all add: obs del: endpoint_known.simps position_of.simps)
  qed (simp add: obs del: endpoint_known.simps position_of.simps)
qed

lemma named_ok:
  assumes "name_ok topo v a"
  obtains x where "named_object v obj a = Inr x" "endpoint_known v x" "\<And>i. x = Node_end (int i) \<longleftrightarrow> a = node_name i"
proof -
  from assms consider (node) j where "a = node_name j" "endpoint_known v (Node_end (int j))"
    | (channel) c where "0 \<le> c" "a = channel_name c" "endpoint_known v (Channel_end c)"
    unfolding name_ok_def by blast
  then show thesis
  proof cases
    case (node j)
    with that [of "Node_end (int j)"] named_node [of v j obj] show thesis by (simp add: node_name_inject del: endpoint_known.simps)
  next
    case (channel c)
    then have "a \<noteq> node_name i" for i by (simp add: node_name_def channel_name_def)
    with channel that [of "Channel_end c"] named_channel [of v c obj] show thesis by (simp del: endpoint_known.simps)
  qed
qed

lemma place_names_ok:
  assumes "links_inv v" "distinct as" "\<forall>a \<in> set as. name_ok topo v a"
  shows "\<exists>v'. place_names pos obj as v = Inr v' \<and> links_inv v' \<and> ends v' = ends v \<and>
    (\<forall>i. endpoint_known v (Node_end (int i)) \<longrightarrow> position_of v' (Node_end (int i)) =
      (if node_name i \<in> set as then pos (node_name i) else position_of v (Node_end (int i))))"
  using assms
proof (induction as arbitrary: obj v)
  case (Cons a as)
  then have "name_ok topo v a" by simp
  from named_ok [OF this] obtain x where x: "named_object v obj a = Inr x" "endpoint_known v x"
    "\<And>i. x = Node_end (int i) \<longleftrightarrow> a = node_name i" by blast
  let ?w = "place_object x (pos a) v"
  have "\<forall>a \<in> set as. name_ok topo ?w a"
    using Cons.prems(3) name_ok_mono [of topo v _ ?w] place_object_obs(1) by simp
  with Cons.IH [of ?w "Some x"] place_object_links [OF Cons.prems(1)] Cons.prems(2) obtain v' where
    v': "place_names pos (Some x) as ?w = Inr v'" "links_inv v'" "ends v' = ends v"
      "\<forall>i. endpoint_known v (Node_end (int i)) \<longrightarrow> position_of v' (Node_end (int i)) =
        (if node_name i \<in> set as then pos (node_name i) else position_of ?w (Node_end (int i)))"
    by (auto simp: place_object_obs simp del: endpoint_known.simps position_of.simps)
  have "position_of v' (Node_end (int i)) = (if node_name i \<in> set (a # as) then pos (node_name i) else position_of v (Node_end (int i)))"
    if "endpoint_known v (Node_end (int i))" for i
    using v'(4) that x(2,3) Cons.prems(2) by (auto simp: place_object_obs simp del: endpoint_known.simps position_of.simps)
  with v' x(1) show ?case by simp
qed simp

text \<open>
  C29: On a simulation in which every wired device is attached to a channel the scan succeeds: the links
  of the view are exactly the wires, in the order of nodes and devices, a channel with more than two
  devices as an object of its own and every other channel as a link from each of its nodes to the other;
  and every node is at its own position, or where the layout puts it if it has none.
\<close>
theorem scan_topology_wires:
  assumes "topology_ok topo"
  shows "\<exists>v g. scan_topology layout topo empty_view = Inr v \<and> links_inv v \<and>
    ends v = concat (map (node_wires topo) [0..<length (sim_nodes topo)]) \<and>
    (\<forall>i < length (sim_nodes topo). position_of v (Node_end (int i)) =
       (case own_position topo i of Some p \<Rightarrow> p | None \<Rightarrow> layout g (node_name i)))"
proof -
  let ?g = "\<lparr>graph_names = [], graph_edges = []\<rparr>" and ?is = "[0..<length (sim_nodes topo)]"
  have "scan_ok topo (empty_view, ?g)" using empty_view_inv
    by (simp add: scan_ok_def view_inv_def mob_ok_def mob_known_def empty_view_def)
  moreover have "same_traits netdevice_traits" by (simp add: same_traits_def)
  ultimately obtain v g table where s: "scan_nodes topo ?is ((empty_view, ?g), netdevice_traits) = Inr ((v, g), table)"
      "scan_ok topo (v, g)" "ends v = concat (map (node_wires topo) ?is)" "\<forall>i \<in> set ?is. scanned topo i (v, g)"
    using scan_nodes_ok [OF assms, of ?is "(empty_view, ?g)" netdevice_traits] by (auto simp: ends_def empty_view_def)
  then obtain v' where v': "place_names (layout g) None (graph_names g) v = Inr v'" "links_inv v'" "ends v' = ends v"
      "\<forall>i. endpoint_known v (Node_end (int i)) \<longrightarrow> position_of v' (Node_end (int i)) =
        (if node_name i \<in> set (graph_names g) then layout g (node_name i) else position_of v (Node_end (int i)))"
    using place_names_ok [of v "graph_names g" topo "layout g" None] by (auto simp: scan_ok_def)
  have "position_of v' (Node_end (int i)) = (case own_position topo i of Some p \<Rightarrow> p | None \<Rightarrow> layout g (node_name i))"
    if i: "i < length (sim_nodes topo)" for i
  proof -
    have fixed: "fixed_node topo i" if "node_name i \<in> set (graph_names g)"
      using s(2) that name_ok_fixed [of topo v i] by (simp add: scan_ok_def)
    have sc: "scanned topo i (v, g)" using s(4) i by simp
    then have pos: "position_of v' (Node_end (int i)) =
        (if node_name i \<in> set (graph_names g) then layout g (node_name i) else position_of v (Node_end (int i)))"
      using v'(4) by (simp add: scanned_def del: endpoint_known.simps position_of.simps)
    show ?thesis
    proof (cases "own_position topo i")
      case None
      with sc pos show ?thesis by (simp add: scanned_def del: endpoint_known.simps position_of.simps)
    next
      case (Some p)
      with fixed have "node_name i \<notin> set (graph_names g)" by (auto simp: own_position_def)
      with sc pos Some show ?thesis by (simp add: scanned_def del: endpoint_known.simps position_of.simps)
    qed
  qed
  with s v' show ?thesis by (auto simp: scan_topology_def)
qed


text \<open>A wireless node with a position, and three nodes on a bus, two of which also share a cable.\<close>

definition small_topology :: topology where
  "small_topology = \<lparr>sim_nodes =
     [\<lparr>mobility = Some (1, 2), devices = [\<lparr>device_type = ''WifiNetDevice'', device_channel = Some 7\<rparr>]\<rparr>,
      \<lparr>mobility = None, devices = [\<lparr>device_type = ''CsmaNetDevice'', device_channel = Some 8\<rparr>, \<lparr>device_type = ''PointToPointNetDevice'', device_channel = Some 9\<rparr>]\<rparr>,
      \<lparr>mobility = None, devices = [\<lparr>device_type = ''PointToPointNetDevice'', device_channel = Some 9\<rparr>]\<rparr>],
     channel_nodes = (\<lambda>c. if c = 9 then [1, 2] else [0, 1, 2])\<rparr>"

lemma small_topology_ok: "topology_ok small_topology"
  by (simp add: small_topology_def topology_ok_def)

theorem scan_topology_wires_witness:
  "\<exists>v. scan_topology (\<lambda>g a. (5, 5)) small_topology empty_view = Inr v \<and>
     ends v = [(1, Channel_end 8), (1, Node_end 2), (2, Node_end 1)] \<and> position_of v (Node_end 0) = (3, 6) \<and>
     position_of v (Node_end 2) = (5, 5)"
proof -
  have w: "concat (map (node_wires small_topology) [0..<length (sim_nodes small_topology)]) =
      [(1, Channel_end 8), (1, Node_end 2), (2, Node_end 1)]"
    by (simp add: small_topology_def node_wires_def device_wires_def channel_wires_def wired_def
        lookup_netdevice_traits_def netdevice_traits_def upt_rec numeral_eq_Suc)
  from scan_topology_wires [OF small_topology_ok, of "\<lambda>g a. (5, 5)"] obtain v where
    v: "scan_topology (\<lambda>g a. (5, 5)) small_topology empty_view = Inr v"
      "ends v = [(1, Channel_end 8), (1, Node_end 2), (2, Node_end 1)]"
      "\<forall>i < length (sim_nodes small_topology). position_of v (Node_end (int i)) =
       (case own_position small_topology i of Some p \<Rightarrow> p | None \<Rightarrow> (5, 5))" unfolding w by blast
  from v(3) [rule_format, of 0] v(3) [rule_format, of 2]
  have "position_of v (Node_end 0) = (3, 6)" "position_of v (Node_end 2) = (5, 5)"
    by (simp_all add: small_topology_def own_position_def transform_point_simulation_to_canvas_def PIXELS_PER_METER_def
        del: position_of.simps)
  with v show ?thesis by blast
qed

text \<open>A wired device without a channel ends the scan.\<close>

lemma scan_unattached:
  "scan_topology layout \<lparr>sim_nodes = [\<lparr>mobility = None, devices = [\<lparr>device_type = ''CsmaNetDevice'', device_channel = None\<rparr>]\<rparr>],
     channel_nodes = (\<lambda>c. [])\<rparr> v = Inl AttributeError"
  by (simp add: scan_topology_def scan_node_def lookup_netdevice_traits_def netdevice_traits_def Let_def)

end
