(* ===== verification/VizTraffic.thy ===== *)
theory VizTraffic
  imports VizScan
begin

text \<open>
  Traffic on the canvas: \<^verbatim>\<open>do_simulation_periodic_update\<close> keeps the samples of the last periods,
  \<^verbatim>\<open>_update_transmissions_view\<close> and \<^verbatim>\<open>_update_drops_view\<close> average them and draw an arrow with a label for
  each pair of nodes and each node that drops packets.  Canvas items are reused: those not needed are
  hidden and kept.  The logarithm of \<^verbatim>\<open>math.log\<close> is an argument.
\<close>

section \<open>Samples of the last periods\<close>

record transmission =
  transmitter :: int
  receiver :: int
  tx_bytes :: int

record drop_sample =
  dropper :: int
  drop_bytes :: int

text \<open>
  The loop pops the oldest sample while there are more than the factor; with a negative factor it also pops
  from the empty list, which raises.  \<^verbatim>\<open>int\<close> cuts off the fraction.
\<close>

function keep_last :: "int \<Rightarrow> 'a list \<Rightarrow> unit res \<times> 'a list" where
  "keep_last n xs =
     (if int (length xs) > n then (if xs = [] then (Inl IndexError, []) else keep_last n (tl xs)) else (Inr (), xs))"
  by auto

termination
  by (relation "measure (\<lambda>(n, xs). length xs)") auto

declare keep_last.simps [simp del]

record samples_state =
  last_transmissions :: "transmission list list"
  last_drops :: "drop_sample list list"

definition smooth_factor :: "rat \<Rightarrow> int" where
  "smooth_factor adjustment = (let x = adjustment * 10 in if 0 \<le> x then \<lfloor>x\<rfloor> else \<lceil>x\<rceil>)"

definition do_simulation_periodic_update ::
  "rat \<Rightarrow> transmission list \<Rightarrow> drop_sample list \<Rightarrow> samples_state \<Rightarrow> unit res \<times> samples_state" where
  "do_simulation_periodic_update adjustment ts ds s =
     (case keep_last (smooth_factor adjustment) (last_transmissions s @ [ts]) of
        (Inl e, kept) \<Rightarrow> (Inl e, s\<lparr>last_transmissions := kept\<rparr>)
      | (Inr _, kept) \<Rightarrow>
          (case keep_last (smooth_factor adjustment) (last_drops s @ [ds]) of
             (r, dropped) \<Rightarrow> (r, \<lparr>last_transmissions = kept, last_drops = dropped\<rparr>)))"

section \<open>Averages\<close>

definition add_sample :: "'k \<Rightarrow> int \<Rightarrow> ('k \<times> int \<times> nat) list \<Rightarrow> ('k \<times> int \<times> nat) list" where
  "add_sample key bytes avg =
     (let (b, count) = (case map_of avg key of Some p \<Rightarrow> p | None \<Rightarrow> (0, 0))
      in AList.update key (b + bytes, count + 1) avg)"

definition transmissions_average :: "transmission list list \<Rightarrow> ((int \<times> int) \<times> int \<times> nat) list" where
  "transmissions_average sets =
     fold (fold (\<lambda>t. add_sample (transmitter t, receiver t) (tx_bytes t))) sets []"

definition drops_average :: "drop_sample list list \<Rightarrow> (int \<times> int \<times> nat) list" where
  "drops_average sets = fold (fold (\<lambda>d. add_sample (dropper d) (drop_bytes d))) sets []"

section \<open>Arrows\<close>

text \<open>An arrow with its label: one canvas item of each kind, drawn by the same data.\<close>

record arrow =
  arrow_id :: nat
  visible :: bool
  arrow_points :: "point \<times> point"
  arrow_width :: rat
  kbps :: rat
  pointing_right :: bool

record arrow_pool =
  arrows :: "arrow list"
  next_arrow :: nat

definition hide :: "arrow \<Rightarrow> arrow" where
  "hide a = a\<lparr>visible := False\<rparr>"

definition new_arrow :: "nat \<Rightarrow> arrow" where
  "new_arrow i = \<lparr>arrow_id = i, visible = True, arrow_points = ((0, 0), (0, 0)), arrow_width = 2, kbps = 0, pointing_right = True\<rparr>"

text \<open>\<^verbatim>\<open>math.log\<close> raises \<^verbatim>\<open>ValueError\<close> unless its argument is positive.\<close>

definition py_log :: "(rat \<Rightarrow> rat) \<Rightarrow> rat \<Rightarrow> rat res" where
  "py_log lg x = (if 0 < x then Inr (lg x) else Inl ValueError)"

definition line_width_for :: "(rat \<Rightarrow> rat) \<Rightarrow> rat \<Rightarrow> rat \<Rightarrow> int \<times> nat \<Rightarrow> rat res" where
  "line_width_for lg period k = (\<lambda>(bytes, count).
     rbind (over (of_int bytes) (of_nat count)) (\<lambda>x. rbind (over x period) (\<lambda>x.
       rbind (py_log lg x) (\<lambda>l. Inr (max (1/10) (l * k))))))"

definition rate_kbps :: "rat \<Rightarrow> int \<times> nat \<Rightarrow> rat" where
  "rate_kbps period = (\<lambda>(bytes, count). of_int (bytes * 8) / 1000 / of_nat count / period)"

text \<open>What one arrow shows, given the places of its ends.\<close>

definition draw_arrow :: "(rat \<Rightarrow> rat) \<Rightarrow> rat \<Rightarrow> rat \<Rightarrow> point \<times> point \<Rightarrow> int \<times> nat \<Rightarrow> arrow \<Rightarrow> arrow res" where
  "draw_arrow lg period k pts avg a =
     rbind (line_width_for lg period k avg) (\<lambda>w.
       Inr (a\<lparr>visible := True, arrow_points := pts, arrow_width := w, kbps := rate_kbps period avg,
              pointing_right := (fst (fst pts) \<le> fst (snd pts))\<rparr>))"

text \<open>
  The loop over the averages: the nodes are fetched, which makes those the view does not have; an item is
  taken from the end of the old ones, or made.  The old list is the attribute itself, so when the loop
  raises, the items taken so far are no longer in it.
\<close>

fun draw_all ::
  "('k \<Rightarrow> view \<Rightarrow> view) \<Rightarrow> (view \<Rightarrow> 'k \<Rightarrow> point \<times> point) \<Rightarrow> (point \<times> point \<Rightarrow> int \<times> nat \<Rightarrow> arrow \<Rightarrow> arrow res) \<Rightarrow>
   ('k \<times> int \<times> nat) list \<Rightarrow> view \<Rightarrow> arrow list \<Rightarrow> nat \<Rightarrow> arrow list \<Rightarrow> arrow list res \<times> arrow_pool \<times> view" where
  "draw_all fetch place draw [] v old nx new = (Inr (new @ old), \<lparr>arrows = new @ old, next_arrow = nx\<rparr>, v)"
| "draw_all fetch place draw ((key, avg) # rest) v old nx new =
     (let v = fetch key v;
          (item, old, nx) = (if old = [] then (new_arrow nx, [], nx + 1) else (last old, butlast old, nx))
      in case draw (place v key) avg item of
           Inl e \<Rightarrow> (Inl e, \<lparr>arrows = old, next_arrow = nx\<rparr>, v)
         | Inr item \<Rightarrow> draw_all fetch place draw rest v old nx (new @ [item]))"

definition update_arrows ::
  "('k \<Rightarrow> view \<Rightarrow> view) \<Rightarrow> (view \<Rightarrow> 'k \<Rightarrow> point \<times> point) \<Rightarrow> (point \<times> point \<Rightarrow> int \<times> nat \<Rightarrow> arrow \<Rightarrow> arrow res) \<Rightarrow>
   ('k \<times> int \<times> nat) list \<Rightarrow> view \<Rightarrow> arrow_pool \<Rightarrow> arrow list res \<times> arrow_pool \<times> view" where
  "update_arrows fetch place draw avg v pool =
     draw_all fetch place draw avg v (map hide (arrows pool)) (next_arrow pool) []"

definition fetch_pair :: "int \<times> int \<Rightarrow> view \<Rightarrow> view" where
  "fetch_pair = (\<lambda>(tx, rx) v. get_node rx (get_node tx v))"

definition pair_place :: "view \<Rightarrow> int \<times> int \<Rightarrow> point \<times> point" where
  "pair_place v = (\<lambda>(tx, rx). (position_of v (Node_end tx), position_of v (Node_end rx)))"

definition drop_place :: "rat \<Rightarrow> view \<Rightarrow> int \<Rightarrow> point \<times> point" where
  "drop_place edge_y v tx = (let p = position_of v (Node_end tx) in (p, (fst p, edge_y)))"

definition update_transmissions_view ::
  "(rat \<Rightarrow> rat) \<Rightarrow> rat \<Rightarrow> rat \<Rightarrow> samples_state \<Rightarrow> view \<Rightarrow> arrow_pool \<Rightarrow> arrow list res \<times> arrow_pool \<times> view" where
  "update_transmissions_view lg period sz s v pool =
     update_arrows fetch_pair pair_place (draw_arrow lg period (sz / 5)) (transmissions_average (last_transmissions s)) v pool"

definition update_drops_view ::
  "(rat \<Rightarrow> rat) \<Rightarrow> rat \<Rightarrow> rat \<Rightarrow> rat \<Rightarrow> samples_state \<Rightarrow> view \<Rightarrow> arrow_pool \<Rightarrow> arrow list res \<times> arrow_pool \<times> view" where
  "update_drops_view lg period sz edge_y s v pool =
     update_arrows get_node (drop_place edge_y) (draw_arrow lg period (sz / 5)) (drops_average (last_drops s)) v pool"

section \<open>The windows\<close>

lemma keep_last_eq: "0 \<le> n \<Longrightarrow> keep_last n xs = (Inr (), drop (length xs - nat n) xs)"
proof (induction n xs rule: keep_last.induct)
  case (1 n xs)
  show ?case
  proof (cases "int (length xs) > n")
    case True
    then have "xs \<noteq> []" "length xs - nat n = Suc (length (tl xs) - nat n)" using 1(2) by (cases xs; auto)+
    with 1 True show ?thesis by (simp add: keep_last.simps [of n xs] drop_Suc)
  next
    case False
    then have "length xs - nat n = 0" using 1(2) by linarith
    with False show ?thesis by (simp add: keep_last.simps [of n xs])
  qed
qed

text \<open>A negative factor, which the scale of the window does not allow, would empty the list and raise.\<close>

lemma keep_last_negative: "n < 0 \<Longrightarrow> keep_last n xs = (Inl IndexError, [])"
  by (induction n xs rule: keep_last.induct) (subst keep_last.simps, auto)

lemma drop_last_snoc:
  "drop (Suc (length (drop (length xs - k) xs)) - k) (drop (length xs - k) xs @ [x]) = drop (Suc (length xs) - k) (xs @ [x])"
proof (cases "length xs \<le> k")
  case False
  then have "Suc (length xs) - (length xs - k + k) + (length xs - k) = Suc (length xs) - k" by simp
  with False show ?thesis by simp
qed simp

text \<open>After any number of updates with the same setting, the samples are those of the last periods.\<close>

lemma updates_keep_last:
  assumes "0 \<le> adj"
  shows "us = [] \<or> last_transmissions (fold (\<lambda>(ts, ds) s. snd (do_simulation_periodic_update adj ts ds s)) us s) =
     (let all = last_transmissions s @ map fst us in drop (length all - nat (smooth_factor adj)) all)"
proof (induction us rule: rev_induct)
  case (snoc u us)
  obtain ts ds where u: "u = (ts, ds)" by (cases u)
  have n: "0 \<le> smooth_factor adj" using assms by (simp add: smooth_factor_def Let_def)
  have step: "last_transmissions (snd (do_simulation_periodic_update adj ts ds t)) =
      drop (Suc (length (last_transmissions t)) - nat (smooth_factor adj)) (last_transmissions t @ [ts])" for t
    using keep_last_eq [OF n, of "last_transmissions t @ [ts]"] keep_last_eq [OF n, of "last_drops t @ [ds]"]
    by (simp add: do_simulation_periodic_update_def)
  show ?case
  proof (cases "us = []")
    case False
    with snoc.IH drop_last_snoc [of "last_transmissions s @ map fst us" "nat (smooth_factor adj)" ts] show ?thesis
      by (simp add: u step Let_def)
  qed (simp add: u step)
qed simp

section \<open>The averages\<close>

text \<open>What the averages of a list of keyed sizes are: the sum and the number for each key.\<close>

definition average_spec :: "('k \<times> int) list \<Rightarrow> 'k \<Rightarrow> (int \<times> nat) option" where
  "average_spec ss key = (let bs = map snd (filter (\<lambda>s. fst s = key) ss) in
     if bs = [] then None else Some (sum_list bs, length bs))"

lemma add_sample_spec:
  "map_of avg = average_spec ss \<Longrightarrow> map_of (add_sample key b avg) = average_spec (ss @ [(key, b)])"
  by (auto simp: add_sample_def average_spec_def Let_def fun_eq_iff split: option.splits prod.splits if_splits)

lemma fold_add_sample: "map_of (fold (\<lambda>(key, b). add_sample key b) ss []) = average_spec ss"
proof (induction ss rule: rev_induct)
  case (snoc x ss)
  then show ?case by (cases x) (simp add: add_sample_spec)
qed (simp add: average_spec_def fun_eq_iff)

lemma distinct_add_sample: "distinct (keys avg) \<Longrightarrow> distinct (keys (add_sample key b avg))"
  by (simp add: add_sample_def Let_def split: prod.split)

lemma distinct_fold_add: "distinct (keys (fold (\<lambda>(key, b). add_sample key b) ss []))"
  by (induction ss rule: rev_induct) (auto simp: distinct_add_sample)

text \<open>The keys of the averages, in the order in which they first occur.\<close>

definition first_occurrences :: "'k list \<Rightarrow> 'k list" where
  "first_occurrences ks = rev (remdups (rev ks))"

lemma set_first_occurrences: "set (first_occurrences ks) = set ks"
  by (simp add: first_occurrences_def)

lemma fold_add_keys: "map fst (fold (\<lambda>(key, b). add_sample key b) ss []) = first_occurrences (map fst ss)"
proof (induction ss rule: rev_induct)
  case (snoc x ss)
  obtain key b where x: "x = (key, b)" by (cases x)
  let ?avg = "fold (\<lambda>(key, b). add_sample key b) ss []"
  have "map fst (add_sample key b ?avg) = (if key \<in> set (map fst ?avg) then map fst ?avg else map fst ?avg @ [key])"
    by (simp add: add_sample_def Let_def update_keys split: prod.split)
  moreover have "set (map fst ?avg) = set (map fst ss)" unfolding snoc.IH by (rule set_first_occurrences)
  ultimately show ?case using snoc.IH by (simp add: x first_occurrences_def)
qed (simp add: first_occurrences_def)

definition tx_samples :: "transmission list list \<Rightarrow> ((int \<times> int) \<times> int) list" where
  "tx_samples sets = map (\<lambda>t. ((transmitter t, receiver t), tx_bytes t)) (concat sets)"

lemma transmissions_average_fold: "transmissions_average sets = fold (\<lambda>(key, b). add_sample key b) (tx_samples sets) []"
proof -
  have "fold (fold f) sets a = fold f (concat sets) a" for f :: "transmission \<Rightarrow> 'b \<Rightarrow> 'b" and a
    by (induction sets arbitrary: a) simp_all
  then show ?thesis by (simp add: transmissions_average_def tx_samples_def fold_map comp_def)
qed


section \<open>The arrows\<close>

definition look :: "arrow \<Rightarrow> (point \<times> point) \<times> rat \<times> rat \<times> bool" where
  "look a = (arrow_points a, arrow_width a, kbps a, pointing_right a)"

definition pool_ok :: "arrow_pool \<Rightarrow> bool" where
  "pool_ok pool \<longleftrightarrow> distinct (map arrow_id (arrows pool)) \<and> (\<forall>a \<in> set (arrows pool). arrow_id a < next_arrow pool)"

definition draws :: "(point \<times> point \<Rightarrow> int \<times> nat \<Rightarrow> arrow \<Rightarrow> arrow res) \<Rightarrow> point \<times> point \<Rightarrow> int \<times> nat \<Rightarrow> (point \<times> point) \<times> rat \<times> rat \<times> bool \<Rightarrow> bool" where
  "draws draw pts avg l \<longleftrightarrow> (\<forall>a. \<exists>a'. draw pts avg a = Inr a' \<and> arrow_id a' = arrow_id a \<and> visible a' \<and> look a' = l)"

lemma draw_all_items:
  assumes "\<And>key avg. (key, avg) \<in> set avgs \<Longrightarrow> draws draw (place v key) avg (spec key avg)"
    and stable: "\<And>k v. place (fetch k v) = place v"
  shows "\<exists>items. draw_all fetch place draw avgs v old nx new =
      (Inr (new @ items @ take (length old - length avgs) old),
       \<lparr>arrows = new @ items @ take (length old - length avgs) old, next_arrow = nx + (length avgs - length old)\<rparr>,
       fold fetch (map fst avgs) v) \<and>
    map look items = map (\<lambda>(key, avg). spec key avg) avgs \<and> list_all visible items \<and>
    map arrow_id items = map arrow_id (take (length avgs) (rev old)) @ [nx..<nx + (length avgs - length old)]"
  using assms(1)
proof (induction avgs arbitrary: v old nx new)
  case (Cons x avgs)
  obtain key avg where x: "x = (key, avg)" by (cases x) blast
  let ?v = "fetch key v"
  have rest: "\<And>key avg. (key, avg) \<in> set avgs \<Longrightarrow> draws draw (place ?v key) avg (spec key avg)" using Cons.prems by (simp add: stable)
  have d: "draws draw (place ?v key) avg (spec key avg)" using Cons.prems x by (simp add: stable)
  show ?case
  proof (cases old rule: rev_cases)
    case Nil
    from d obtain a where a: "draw (place ?v key) avg (new_arrow nx) = Inr a" "arrow_id a = arrow_id (new_arrow nx)" "visible a" "look a = spec key avg"
      unfolding draws_def by blast
    from Cons.IH [OF rest, of "[]" "nx + 1" "new @ [a]"] obtain items where
      "draw_all fetch place draw avgs ?v [] (nx + 1) (new @ [a]) =
        (Inr (new @ [a] @ items), \<lparr>arrows = new @ [a] @ items, next_arrow = nx + 1 + length avgs\<rparr>, fold fetch (map fst avgs) ?v)"
      "map look items = map (\<lambda>(key, avg). spec key avg) avgs" "list_all visible items"
      "map arrow_id items = [nx + 1..<nx + 1 + length avgs]" by auto
    moreover have "[nx..<Suc (nx + length avgs)] = nx # [nx + 1..<nx + 1 + length avgs]"
      by (subst upt_rec) (simp del: upt_Suc)
    moreover have "arrow_id a = nx" using a(2) by (simp add: new_arrow_def)
    ultimately show ?thesis using a(1,3,4) x Nil by (intro exI [of _ "a # items"]) simp
  next
    case (snoc ys y)
    from d obtain a where a: "draw (place ?v key) avg y = Inr a" "arrow_id a = arrow_id y" "visible a" "look a = spec key avg"
      unfolding draws_def by blast
    from Cons.IH [OF rest, of ys nx "new @ [a]"] obtain items where
      "draw_all fetch place draw avgs ?v ys nx (new @ [a]) =
        (Inr (new @ [a] @ items @ take (length ys - length avgs) ys),
         \<lparr>arrows = new @ [a] @ items @ take (length ys - length avgs) ys, next_arrow = nx + (length avgs - length ys)\<rparr>,
         fold fetch (map fst avgs) ?v)"
      "map look items = map (\<lambda>(key, avg). spec key avg) avgs" "list_all visible items"
      "map arrow_id items = map arrow_id (take (length avgs) (rev ys)) @ [nx..<nx + (length avgs - length ys)]" by auto
    with a x snoc show ?thesis by (intro exI [of _ "a # items"]) simp
  qed
qed simp

lemma take_rev_part: "mset (take n (rev xs)) + mset (take (length xs - n) xs) = mset xs"
  by (metis append_take_drop_id mset_append mset_rev rev_take union_commute length_rev rev_rev_ident drop_rev take_rev)


lemma update_arrows_ok:
  assumes pool: "pool_ok pool" and draw: "\<And>key avg. (key, avg) \<in> set avgs \<Longrightarrow> draws draw (place v key) avg (spec key avg)"
    and stable: "\<And>k v. place (fetch k v) = place v"
  shows "\<exists>pool'. update_arrows fetch place draw avgs v pool = (Inr (arrows pool'), pool', fold fetch (map fst avgs) v) \<and> pool_ok pool' \<and>
    map look (filter visible (arrows pool')) = map (\<lambda>(key, avg). spec key avg) avgs \<and>
    set (map arrow_id (arrows pool)) \<subseteq> set (map arrow_id (arrows pool')) \<and>
    length (arrows pool') = max (length avgs) (length (arrows pool))"
proof -
  let ?old = "map hide (arrows pool)" and ?n = "next_arrow pool"
  let ?m = "?n + (length avgs - length ?old)"
  from draw_all_items [where avgs = avgs and draw = draw and place = place and spec = spec and old = ?old and nx = ?n and new = "[]"
      and v = v and fetch = fetch, OF draw stable]
  obtain items where it: "draw_all fetch place draw avgs v ?old ?n [] =
      (Inr (items @ take (length ?old - length avgs) ?old),
       \<lparr>arrows = items @ take (length ?old - length avgs) ?old, next_arrow = ?m\<rparr>, fold fetch (map fst avgs) v)"
    "map look items = map (\<lambda>(key, avg). spec key avg) avgs" "list_all visible items"
    "map arrow_id items = map arrow_id (take (length avgs) (rev ?old)) @ [?n..<?m]" by auto
  let ?pool = "\<lparr>arrows = items @ take (length ?old - length avgs) ?old, next_arrow = ?m\<rparr>"
  have ids: "map arrow_id ?old = map arrow_id (arrows pool)" by (simp add: hide_def comp_def)
  have ms: "mset (map arrow_id (arrows ?pool)) = mset (map arrow_id (arrows pool)) + mset [?n..<?m]"
  proof -
    have "mset (map arrow_id (take (length avgs) (rev ?old))) + mset (map arrow_id (take (length ?old - length avgs) ?old)) = mset (map arrow_id ?old)"
      using arg_cong [OF take_rev_part [of "length avgs" ?old], of "image_mset arrow_id"] by (simp only: image_mset_union mset_map)
    then show ?thesis unfolding ids using it(4) by (simp add: union_ac)
  qed
  have "distinct (map arrow_id (arrows pool) @ [?n..<?m])"
    using pool by (auto simp: pool_ok_def)
  then have "distinct (map arrow_id (arrows ?pool))"
    using mset_eq_imp_distinct_iff [OF ms [folded mset_append]] by blast
  moreover have set_ids: "set (map arrow_id (arrows ?pool)) = set (map arrow_id (arrows pool)) \<union> {?n..<?m}"
    using arg_cong [OF ms, of set_mset] by simp
  moreover have "arrow_id a < ?m" if "a \<in> set (arrows ?pool)" for a
  proof -
    have "arrow_id a \<in> set (map arrow_id (arrows ?pool))" unfolding set_map using that by (rule imageI)
    with set_ids have "arrow_id a \<in> set (map arrow_id (arrows pool)) \<or> arrow_id a < ?m" by auto
    with pool show ?thesis by (auto simp: pool_ok_def)
  qed
  ultimately have "pool_ok ?pool" by (simp add: pool_ok_def)
  moreover have "filter visible (take k ?old) = []" for k by (auto simp: filter_empty_conv hide_def take_map)
  then have "filter visible (arrows ?pool) = items" using it(3) by (simp add: filter_id_conv list_all_iff)
  moreover have "length items = length avgs" using arg_cong [OF it(2), of length] by simp
  ultimately show ?thesis using it(1,2) set_ids by (intro exI [of _ ?pool]) (auto simp: update_arrows_def)
qed


text \<open>What the arrow for an average shows.\<close>

definition arrow_spec :: "(rat \<Rightarrow> rat) \<Rightarrow> rat \<Rightarrow> rat \<Rightarrow> point \<times> point \<Rightarrow> int \<times> nat \<Rightarrow> (point \<times> point) \<times> rat \<times> rat \<times> bool" where
  "arrow_spec lg period k pts avg = (pts, max (1/10) (lg (of_int (fst avg) / of_nat (snd avg) / period) * k),
     rate_kbps period avg, fst (fst pts) \<le> fst (snd pts))"

lemma draw_arrow_draws:
  assumes "0 < period" "0 < fst avg" "0 < snd avg"
  shows "draws (draw_arrow lg period k) pts avg (arrow_spec lg period k pts avg)"
proof -
  have "0 < of_int (fst avg) / of_nat (snd avg) / period" using assms by simp
  then show ?thesis using assms
    by (cases avg) (auto simp: draws_def draw_arrow_def line_width_for_def over_def py_log_def arrow_spec_def look_def)
qed

lemma average_positive:
  assumes "\<And>key b. (key, b) \<in> set ss \<Longrightarrow> 0 < b" "average_spec ss key = Some avg"
  shows "0 < fst avg \<and> 0 < snd avg"
proof -
  let ?bs = "map snd (filter (\<lambda>s. fst s = key) ss)"
  have bs: "?bs \<noteq> []" "avg = (sum_list ?bs, length ?bs)" using assms(2) by (auto simp: average_spec_def Let_def split: if_splits)
  have "0 < sum_list xs" if "xs \<noteq> []" "\<And>x. x \<in> set xs \<Longrightarrow> 0 < x" for xs :: "int list"
    using that by (induction xs) (auto, fastforce)
  moreover have "\<And>b. b \<in> set ?bs \<Longrightarrow> 0 < b" using assms(1) by auto
  ultimately have "0 < sum_list ?bs" using bs(1) by blast
  with bs show ?thesis by simp
qed

lemma fetch_pair_place: "pair_place (fetch_pair k v) = pair_place v"
  by (cases k) (simp add: fetch_pair_def pair_place_def fun_eq_iff get_node_obs(4) del: position_of.simps)

lemma fetch_pairs_position: "position_of (fold fetch_pair ks v) e = position_of v e"
  by (induction ks arbitrary: v) (auto simp: fetch_pair_def get_node_obs(4))

lemma fetch_pair_known:
  "endpoint_known (fold fetch_pair ks v) e \<longleftrightarrow> endpoint_known v e \<or> (\<exists>(tx, rx) \<in> set ks. e \<in> {Node_end tx, Node_end rx})"
  by (induction ks arbitrary: v) (auto simp: fetch_pair_def get_node_obs(1) simp del: endpoint_known.simps)

text \<open>
  C34: As long as every sample has a positive size (an empty packet makes the logarithm raise) and the sample
  period is positive, the transmissions are drawn without an error: the visible arrows are one for each pair of
  nodes that has a sample, in the order in which the pairs first occur, from the place of the transmitter to
  that of the receiver, with the total size divided by the number of samples of that pair and by the period;
  every other item is hidden; no canvas item is lost or used twice, whatever items there were before; and the
  view has both nodes of every pair afterwards, nodes it did not have being added at the origin.
\<close>
theorem transmissions_view_shows:
  assumes "pool_ok pool" "0 < period" "\<forall>t \<in> set (concat (last_transmissions s)). 0 < tx_bytes t"
  shows "\<exists>pool' v'. update_transmissions_view lg period sz s v pool = (Inr (arrows pool'), pool', v') \<and> pool_ok pool' \<and>
    map look (filter visible (arrows pool')) =
      map (\<lambda>(key, avg). arrow_spec lg period (sz / 5) (pair_place v key) avg) (transmissions_average (last_transmissions s)) \<and>
    map_of (transmissions_average (last_transmissions s)) = average_spec (tx_samples (last_transmissions s)) \<and>
    map fst (transmissions_average (last_transmissions s)) = first_occurrences (map fst (tx_samples (last_transmissions s))) \<and>
    set (map arrow_id (arrows pool)) \<subseteq> set (map arrow_id (arrows pool')) \<and>
    (\<forall>e. position_of v' e = position_of v e \<and>
      (endpoint_known v' e \<longleftrightarrow> endpoint_known v e \<or>
         (\<exists>(tx, rx) \<in> set (map fst (tx_samples (last_transmissions s))). e \<in> {Node_end tx, Node_end rx})))"
proof -
  let ?avg = "transmissions_average (last_transmissions s)" and ?ss = "tx_samples (last_transmissions s)"
  have avg: "map_of ?avg = average_spec ?ss" "distinct (keys ?avg)" "map fst ?avg = first_occurrences (map fst ?ss)"
    unfolding transmissions_average_fold by (rule fold_add_sample distinct_fold_add fold_add_keys)+
  have "draws (draw_arrow lg period (sz / 5)) (pair_place v key) avg (arrow_spec lg period (sz / 5) (pair_place v key) avg)"
    if "(key, avg) \<in> set ?avg" for key avg
  proof -
    have "average_spec ?ss key = Some avg" using that avg by (metis map_of_is_SomeI)
    then have "0 < fst avg \<and> 0 < snd avg" using assms(3) by (intro average_positive [of ?ss key]) (auto simp: tx_samples_def)
    with assms(2) show ?thesis by (simp add: draw_arrow_draws)
  qed
  from update_arrows_ok [where avgs = ?avg and place = pair_place and draw = "draw_arrow lg period (sz / 5)" and v = v
      and fetch = fetch_pair and spec = "\<lambda>key. arrow_spec lg period (sz / 5) (pair_place v key)", OF assms(1) this fetch_pair_place]
  obtain pool' where "update_transmissions_view lg period sz s v pool = (Inr (arrows pool'), pool', fold fetch_pair (map fst ?avg) v)"
    "pool_ok pool'" "map look (filter visible (arrows pool')) = map (\<lambda>(key, avg). arrow_spec lg period (sz / 5) (pair_place v key) avg) ?avg"
    "set (map arrow_id (arrows pool)) \<subseteq> set (map arrow_id (arrows pool'))"
    by (auto simp: update_transmissions_view_def)
  moreover have "set (map fst ?avg) = set (map fst ?ss)" unfolding avg(3) by (rule set_first_occurrences)
  then have "endpoint_known (fold fetch_pair (map fst ?avg) v) e \<longleftrightarrow> endpoint_known v e \<or>
      (\<exists>(tx, rx) \<in> set (map fst ?ss). e \<in> {Node_end tx, Node_end rx})" for e
    using fetch_pair_known [of "map fst ?avg" v e] by (simp only:)
  ultimately show ?thesis using avg(1,3) fetch_pairs_position by blast
qed

definition two_samples :: samples_state where
  "two_samples = \<lparr>last_transmissions = [[\<lparr>transmitter = 0, receiver = 1, tx_bytes = 100\<rparr>], [\<lparr>transmitter = 0, receiver = 1, tx_bytes = 300\<rparr>]],
     last_drops = []\<rparr>"

theorem transmissions_view_shows_witness:
  "\<exists>pool' v'. update_transmissions_view (\<lambda>x. 1) (1/10) 1 two_samples empty_view \<lparr>arrows = [], next_arrow = 0\<rparr> = (Inr (arrows pool'), pool', v') \<and>
     map (\<lambda>a. fst (snd (snd (look a)))) (filter visible (arrows pool')) = [16] \<and> endpoint_known v' (Node_end 1)"
proof -
  have avg: "transmissions_average (last_transmissions two_samples) = [((0, 1), 400, 2)]"
    by (simp add: two_samples_def transmissions_average_def add_sample_def)
  have ok: "pool_ok \<lparr>arrows = [], next_arrow = 0\<rparr>" "0 < (1/10 :: rat)" "\<forall>t \<in> set (concat (last_transmissions two_samples)). 0 < tx_bytes t"
    by (simp_all add: pool_ok_def two_samples_def)
  have rate: "fst (snd (snd (arrow_spec (\<lambda>x. 1) (1/10) (1 / 5) pts (400, 2)))) = 16" for pts
    by (simp add: arrow_spec_def rate_kbps_def)
  have samples: "set (map fst (tx_samples (last_transmissions two_samples))) = {(0, 1)}"
    by (auto simp: two_samples_def tx_samples_def)
  from transmissions_view_shows [OF ok, of "\<lambda>x. 1" 1 empty_view]
  obtain pool' v' where p: "update_transmissions_view (\<lambda>x. 1) (1/10) 1 two_samples empty_view \<lparr>arrows = [], next_arrow = 0\<rparr> = (Inr (arrows pool'), pool', v')"
    "map look (filter visible (arrows pool')) = [arrow_spec (\<lambda>x. 1) (1/10) (1 / 5) (pair_place empty_view (0, 1)) (400, 2)]"
    "endpoint_known v' (Node_end 1)"
    unfolding avg samples by (fastforce simp del: endpoint_known.simps)
  from arg_cong [OF p(2), of "map (\<lambda>l. fst (snd (snd l)))"]
  have "map (\<lambda>a. fst (snd (snd (look a)))) (filter visible (arrows pool')) = [16]"
    by (simp only: map_map comp_def list.map rate)
  with p(1,3) show ?thesis by (intro exI conjI)
qed

text \<open>A transmission of no bytes makes the drawing raise, and the item taken for it is lost.\<close>

lemma empty_transmission_raises:
  "update_arrows fetch place (draw_arrow lg period k) ((key, 0, 1) # rest) v pool =
     (Inl (if period = 0 then ZeroDivisionError else ValueError),
      \<lparr>arrows = butlast (map hide (arrows pool)), next_arrow = (if arrows pool = [] then next_arrow pool + 1 else next_arrow pool)\<rparr>,
      fetch key v)"
  by (auto simp: update_arrows_def draw_arrow_def line_width_for_def over_def py_log_def)

end
