(* ===== verification/VizAxes.thy ===== *)
theory VizAxes
  imports VizData
begin

text \<open>
  The axes drawn over the canvas (\<^verbatim>\<open>Axes\<close> in \<^verbatim>\<open>src/visualizer/visualizer/hud.py\<close>): the size of the
  divisions, the loop that draws one mark for each, and the labels, which are taken from those of the
  last drawing as far as they go.  Python's \<^verbatim>\<open>math.log10\<close> is an argument.
\<close>

section \<open>Divisions\<close>

definition rint :: "rat \<Rightarrow> int" where
  "rint x = \<lfloor>x + 1/2\<rfloor>"

record division_loop =
  ndiv :: rat
  division :: rat
  origin :: rat

definition division_step :: "(rat \<Rightarrow> rat) \<Rightarrow> rat \<Rightarrow> rat \<Rightarrow> rat \<Rightarrow> rat \<Rightarrow> nat \<Rightarrow> division_loop \<Rightarrow> division_loop" where
  "division_step lg xi sz text_width dx_over_ndiv n s =
     (let tbe = lg dx_over_ndiv;
          div0 = 10 powi rint tbe;
          d = (if \<bar>div0 / 2 - dx_over_ndiv\<bar> < \<bar>div0 - dx_over_ndiv\<bar> then div0 / 2
               else if \<bar>div0 * 2 - dx_over_ndiv\<bar> < \<bar>div0 - dx_over_ndiv\<bar> then div0 * 2
               else div0)
      in s\<lparr>division := d, origin := d * of_int \<lceil>xi / d\<rceil> - d,
           ndiv := (if 1 < n then of_int (rint (sz / text_width)) else ndiv s)\<rparr>)"

definition compute_divisions :: "(rat \<Rightarrow> rat) \<Rightarrow> rat \<Rightarrow> rat \<Rightarrow> (rat \<times> rat) res" where
  "compute_divisions lg xi xf =
     (if \<not> xf > xi then Inl AssertionError
      else (let dx = xf - xi; sz = dx; text_width = dx / 5 / 2; dx_over_ndiv = dx / 5;
                s = fold (division_step lg xi sz text_width dx_over_ndiv) [0..<5]
                      \<lparr>ndiv = 5, division = 0, origin = 0\<rparr>
            in Inr (origin s, division s)))"

section \<open>Marks and labels\<close>

text \<open>The loop that draws the marks does not end if the division is not positive.\<close>

partial_function (option) marks :: "rat \<Rightarrow> rat \<Rightarrow> rat \<Rightarrow> rat list option" where
  [code]: "marks x d x2 =
     (if x < x2 then Option.bind (marks (x + d) d x2) (\<lambda>xs. Some (x # xs)) else Some [])"

record labels =
  shown_labels :: "nat list"
  hidden_labels :: "nat list"
  next_label :: nat

definition get_label :: "labels \<Rightarrow> labels" where
  "get_label s = (case hidden_labels s of
     [] \<Rightarrow> s\<lparr>shown_labels := shown_labels s @ [next_label s], next_label := next_label s + 1\<rparr>
   | l # ls \<Rightarrow> s\<lparr>shown_labels := shown_labels s @ [l], hidden_labels := ls\<rparr>)"

text \<open>
  One drawing: hide all labels, draw both axes with a label for each mark, keep the labels left over.
  An exception on the way leaves only the labels taken so far, since the others are in a local variable.
  Before there is a zoom control nothing is drawn.
\<close>

datatype drawing = Not_ready | Never_ends | Drawn "rat list" "rat list"

definition axes_update_view ::
  "(rat \<Rightarrow> rat) \<Rightarrow> bool \<Rightarrow> rat \<times> rat \<Rightarrow> rat \<times> rat \<Rightarrow> labels \<Rightarrow> drawing res \<times> labels" where
  "axes_update_view lg has_zoom xs ys s =
     (if \<not> has_zoom then (Inr Not_ready, s) else
      let s = s\<lparr>hidden_labels := shown_labels s @ hidden_labels s, shown_labels := []\<rparr> in
      case compute_divisions lg (fst xs / PIXELS_PER_METER) (snd xs / PIXELS_PER_METER) of
        Inl e \<Rightarrow> (Inl e, s\<lparr>hidden_labels := []\<rparr>)
      | Inr (x0, xdiv) \<Rightarrow>
         (case marks x0 xdiv (snd xs / PIXELS_PER_METER) of
            None \<Rightarrow> (Inr Never_ends, s)
          | Some xms \<Rightarrow>
             (let s = (get_label ^^ length xms) s in
              case compute_divisions lg (fst ys / PIXELS_PER_METER) (snd ys / PIXELS_PER_METER) of
                Inl e \<Rightarrow> (Inl e, s\<lparr>hidden_labels := []\<rparr>)
              | Inr (y0, ydiv) \<Rightarrow>
                 (case marks y0 ydiv (snd ys / PIXELS_PER_METER) of
                    None \<Rightarrow> (Inr Never_ends, s)
                  | Some yms \<Rightarrow> (Inr (Drawn xms yms), (get_label ^^ length yms) s)))))"

section \<open>The division size\<close>

text \<open>
  The division of one round.  The rounds of the loop do not depend on what earlier rounds computed, so
  the five of them give what one would.
\<close>

definition best_division :: "(rat \<Rightarrow> rat) \<Rightarrow> rat \<Rightarrow> rat" where
  "best_division lg t = (let p = 10 powi rint (lg t) in
     if \<bar>p / 2 - t\<bar> < \<bar>p - t\<bar> then p / 2 else if \<bar>p * 2 - t\<bar> < \<bar>p - t\<bar> then p * 2 else p)"

lemma division_step_eq:
  "division (division_step lg xi sz tw t n s) = best_division lg t"
  "origin (division_step lg xi sz tw t n s) = best_division lg t * of_int \<lceil>xi / best_division lg t\<rceil> - best_division lg t"
  by (simp_all add: division_step_def best_division_def Let_def)

lemma compute_divisions_one_round:
  "xi < xf \<Longrightarrow> compute_divisions lg xi xf =
     (let d = best_division lg ((xf - xi) / 5) in Inr (d * of_int \<lceil>xi / d\<rceil> - d, d))"
  by (simp add: compute_divisions_def Let_def upt_rec division_step_eq)

text \<open>The rounded logarithm is that of the power of ten closest to the argument, in ratio.\<close>

definition log10_ok :: "(rat \<Rightarrow> rat) \<Rightarrow> rat \<Rightarrow> bool" where
  "log10_ok lg t \<longleftrightarrow> (let p = 10 powi rint (lg t) in p\<^sup>2 \<le> 10 * t\<^sup>2 \<and> t\<^sup>2 < 10 * p\<^sup>2)"

lemma square_less: "0 < a \<Longrightarrow> 0 \<le> b \<Longrightarrow> a\<^sup>2 < b\<^sup>2 \<Longrightarrow> a < (b :: rat)"
  by (rule power_less_imp_less_base)

lemma best_division_bounds:
  assumes t: "0 < t" and lg: "log10_ok lg t"
  shows "0 < best_division lg t" "3 * best_division lg t < 5 * t" "5 * t < 8 * best_division lg t"
proof -
  define p :: rat where "p = 10 powi rint (lg t)"
  have p: "0 < p" by (simp add: p_def)
  have sq: "p\<^sup>2 \<le> 10 * t\<^sup>2" "t\<^sup>2 < 10 * p\<^sup>2" using lg by (simp_all add: log10_ok_def p_def Let_def)
  have p2: "0 < p\<^sup>2" "0 < t\<^sup>2" using p t by simp_all
  have lo: "3 / 10 * p < t"
  proof (rule power_less_imp_less_base [of _ 2])
    show "(3 / 10 * p)\<^sup>2 < t\<^sup>2" using sq(1) p2 by (simp add: power_mult_distrib power2_eq_square)
  qed (use t in simp)
  have hi: "t < 16 / 5 * p"
  proof (rule power_less_imp_less_base [of _ 2])
    show "t\<^sup>2 < (16 / 5 * p)\<^sup>2" using sq(2) p2 by (simp add: power_mult_distrib power2_eq_square)
  qed (use p in simp)
  have d: "best_division lg t = (if \<bar>p / 2 - t\<bar> < \<bar>p - t\<bar> then p / 2 else if \<bar>p * 2 - t\<bar> < \<bar>p - t\<bar> then p * 2 else p)"
    by (simp add: best_division_def p_def Let_def)
  show "0 < best_division lg t" using p by (simp add: d)
  show "3 * best_division lg t < 5 * t" using lo p by (auto simp: d abs_if split: if_splits)
  show "5 * t < 8 * best_division lg t" using hi p by (auto simp: d abs_if split: if_splits)
qed


section \<open>The marks\<close>

lemma marks_returns:
  assumes d: "0 < d"
  shows "marks x d x2 = Some (map (\<lambda>k. x + of_nat k * d) [0..<nat \<lceil>(x2 - x) / d\<rceil>])"
proof (induction "nat \<lceil>(x2 - x) / d\<rceil>" arbitrary: x)
  case 0
  then have "x2 \<le> x" using d by (simp add: ceiling_le_zero divide_le_0_iff)
  with 0 show ?case by (simp add: marks.simps [of x])
next
  case (Suc n)
  then have pos: "0 < \<lceil>(x2 - x) / d\<rceil>" by linarith
  then have x: "x < x2" using d by (simp add: zero_less_ceiling zero_less_divide_iff)
  have "(x2 - (x + d)) / d = (x2 - x) / d - 1" using d by (simp add: field_simps)
  then have "\<lceil>(x2 - (x + d)) / d\<rceil> = \<lceil>(x2 - x) / d\<rceil> - 1" by simp
  with Suc.hyps(2) pos have n: "n = nat \<lceil>(x2 - (x + d)) / d\<rceil>" by linarith
  have "marks x d x2 = Some (x # map (\<lambda>k. x + d + of_nat k * d) [0..<n])"
    using Suc.hyps(1) [OF n] x n by (simp add: marks.simps [of x])
  also have "\<dots> = Some (map (\<lambda>k. x + of_nat k * d) (0 # map Suc [0..<n]))" by (simp add: algebra_simps comp_def)
  also have "0 # map Suc [0..<n] = [0..<Suc n]" by (simp only: map_Suc_upt upt_conv_Cons)
  finally show ?case using Suc.hyps(2) by simp
qed

lemma get_labels:
  "length (shown_labels ((get_label ^^ n) s)) = length (shown_labels s) + n"
  "set (shown_labels s) \<union> set (hidden_labels s) \<subseteq> set (shown_labels ((get_label ^^ n) s)) \<union> set (hidden_labels ((get_label ^^ n) s))"
proof (induction n)
  case (Suc n)
  { case 1 from Suc show ?case by (simp add: get_label_def split: list.split) }
  { case 2 from Suc show ?case by (auto simp: get_label_def split: list.split) }
qed simp_all

lemma axis_marks_total:
  "xi < xf \<Longrightarrow> log10_ok lg ((xf - xi) / 5) \<Longrightarrow> \<exists>x0 d ms. compute_divisions lg xi xf = Inr (x0, d) \<and> marks x0 d xf = Some ms"
  using best_division_bounds(1) [of "(xf - xi) / 5" lg] by (simp add: compute_divisions_one_round Let_def marks_returns)

text \<open>
  C35: On every visible range the division of an axis is positive, so the loop that draws the marks ends;
  it draws between four and nine marks, at consecutive multiples of the division, from the last multiple
  before the range up to its end.
\<close>
theorem axis_marks_bounded:
  assumes range: "xi < xf" and lg: "log10_ok lg ((xf - xi) / 5)"
  shows "\<exists>x0 d ms. compute_divisions lg xi xf = Inr (x0, d) \<and> 0 < d \<and> marks x0 d xf = Some ms \<and>
    4 \<le> length ms \<and> length ms \<le> 9 \<and> x0 < xi \<and> xi \<le> x0 + d \<and> (\<exists>z. x0 = of_int z * d) \<and>
    (\<forall>k < length ms. ms ! k = x0 + of_nat k * d \<and> ms ! k < xf) \<and> xf \<le> x0 + of_nat (length ms) * d"
proof -
  define d where "d = best_division lg ((xf - xi) / 5)"
  define x0 where "x0 = d * of_int \<lceil>xi / d\<rceil> - d"
  define n where "n = \<lceil>(xf - x0) / d\<rceil>"
  have t: "0 < (xf - xi) / 5" using range by simp
  note b = best_division_bounds [OF t lg, folded d_def]
  have c: "xi / d \<le> of_int \<lceil>xi / d\<rceil>" "of_int \<lceil>xi / d\<rceil> < xi / d + 1" by linarith+
  have "xi \<le> of_int \<lceil>xi / d\<rceil> * d" using c(1) b(1) by (simp only: pos_divide_le_eq)
  with c(2) b(1) have x0: "x0 < xi" "xi \<le> x0 + d" by (simp_all add: x0_def field_simps)
  have n: "of_int n - 1 < (xf - x0) / d" "(xf - x0) / d \<le> of_int n" unfolding n_def by linarith+
  have "3 < (xf - x0) / d" "(xf - x0) / d < 9" using b x0 by (simp_all add: field_simps)
  with n have bound: "4 \<le> n" "n \<le> 9" by linarith+
  define ms where "ms = map (\<lambda>k. x0 + of_nat k * d) [0..<nat n]"
  have ms: "marks x0 d xf = Some ms" unfolding ms_def n_def by (rule marks_returns [OF b(1)])
  have len: "length ms = nat n" and nth: "\<And>k. k < nat n \<Longrightarrow> ms ! k = x0 + of_nat k * d" by (simp_all add: ms_def)
  have inside: "x0 + of_nat k * d < xf" if "k < nat n" for k
  proof -
    have "int k \<le> n - 1" using that by linarith
    then have "of_int (int k) \<le> (of_int (n - 1) :: rat)" by (simp only: of_int_le_iff)
    then have "of_nat k < (xf - x0) / d" using n(1) by simp
    with b(1) show ?thesis by (simp add: field_simps)
  qed
  have last: "xf \<le> x0 + of_nat (nat n) * d"
  proof -
    have "xf - x0 \<le> of_int n * d" using n(2) b(1) by (simp only: pos_divide_le_eq)
    then show ?thesis using bound(1) by simp
  qed
  have "x0 = of_int (\<lceil>xi / d\<rceil> - 1) * d" by (simp add: x0_def algebra_simps)
  moreover have "compute_divisions lg xi xf = Inr (x0, d)"
    using compute_divisions_one_round [OF range, of lg] by (simp add: Let_def d_def x0_def)
  ultimately show ?thesis using b(1) ms bound x0 nth inside last len
    by (intro exI [of _ x0] exI [of _ d] exI [of _ ms] conjI) (auto simp del: of_int_diff)
qed

theorem axis_marks_bounded_witness:
  "\<exists>x0 d ms. compute_divisions (\<lambda>x. 1/2) (0 :: rat) 50 = Inr (x0, d) \<and> marks x0 d 50 = Some ms \<and> 4 \<le> length ms"
proof -
  have "log10_ok (\<lambda>x. 1/2) ((50 - 0) / 5)" by (simp add: log10_ok_def rint_def Let_def)
  from axis_marks_bounded [OF _ this] show ?thesis by auto
qed

text \<open>
  Drawing both axes of a window returns, shows one label for each mark, and loses no label.
\<close>
lemma axes_update_view_returns:
  assumes x: "x1 < x2" "log10_ok lg ((x2 / PIXELS_PER_METER - x1 / PIXELS_PER_METER) / 5)"
    and y: "y1 < y2" "log10_ok lg ((y2 / PIXELS_PER_METER - y1 / PIXELS_PER_METER) / 5)"
  shows "\<exists>xms yms s'. axes_update_view lg True (x1, x2) (y1, y2) s = (Inr (Drawn xms yms), s') \<and>
    length (shown_labels s') = length xms + length yms \<and>
    set (shown_labels s) \<union> set (hidden_labels s) \<subseteq> set (shown_labels s') \<union> set (hidden_labels s')"
proof -
  have "x1 / PIXELS_PER_METER < x2 / PIXELS_PER_METER" "y1 / PIXELS_PER_METER < y2 / PIXELS_PER_METER"
    using x y by (simp_all add: PIXELS_PER_METER_def)
  from axis_marks_total [OF this(1) x(2)] axis_marks_total [OF this(2) y(2)]
  obtain x0 xd xms y0 yd yms where
    r: "compute_divisions lg (x1 / PIXELS_PER_METER) (x2 / PIXELS_PER_METER) = Inr (x0, xd)" "marks x0 xd (x2 / PIXELS_PER_METER) = Some xms"
       "compute_divisions lg (y1 / PIXELS_PER_METER) (y2 / PIXELS_PER_METER) = Inr (y0, yd)" "marks y0 yd (y2 / PIXELS_PER_METER) = Some yms"
    by blast
  let ?s0 = "s\<lparr>hidden_labels := shown_labels s @ hidden_labels s, shown_labels := []\<rparr>"
  let ?s1 = "(get_label ^^ length xms) ?s0" let ?s2 = "(get_label ^^ length yms) ?s1"
  have "axes_update_view lg True (x1, x2) (y1, y2) s = (Inr (Drawn xms yms), ?s2)"
    using r by (simp add: axes_update_view_def Let_def)
  moreover have "length (shown_labels ?s2) = length xms + length yms" by (simp add: get_labels(1))
  moreover have "set (shown_labels s) \<union> set (hidden_labels s) \<subseteq> set (shown_labels ?s2) \<union> set (hidden_labels ?s2)"
    using get_labels(2) [of ?s0 "length xms"] get_labels(2) [of ?s1 "length yms"] by auto
  ultimately show ?thesis by blast
qed

end
