(* ===== verification/VizMouse.thy ===== *)
theory VizMouse
  imports VizScan
begin

text \<open>
  The mouse in the window of the visualizer (\<^verbatim>\<open>core.py\<close>): dragging a node, panning the canvas,
  zooming and clicking.  The state holds what the handlers keep between events, among them the signal
  handlers they connect and disconnect.  Places of the mouse are given in the coordinates each handler
  works with: canvas coordinates for a drag, pixels for panning.
\<close>

section \<open>State\<close>

text \<open>\<^verbatim>\<open>Gtk.Adjustment\<close>: its value is kept within its limits.\<close>

record adjustment =
  adj_value :: rat
  adj_lower :: rat
  adj_upper :: rat
  adj_page :: rat

definition set_value :: "rat \<Rightarrow> adjustment \<Rightarrow> adjustment" where
  "set_value x a = a\<lparr>adj_value := max (adj_lower a) (min x (max (adj_lower a) (adj_upper a - adj_page a)))\<rparr>"

record drag_state =
  canvas_0 :: point
  sim_0 :: point
  motion_signal :: nat

record panning_state =
  initial_mouse_pos :: point
  initial_canvas_pos :: point
  pan_signal :: nat

record mouse =
  scene :: view
  sim_position :: "int \<Rightarrow> point option"
  node_drag_state :: "drag_state option"
  node_handlers :: "(int \<times> nat) list"
  panning :: "panning_state option"
  canvas_handlers :: "nat list"
  next_signal :: nat
  hadj :: adjustment
  vadj :: adjustment
  zoom :: adjustment

section \<open>Dragging a node\<close>

definition begin_node_drag :: "int \<Rightarrow> point \<Rightarrow> mouse \<Rightarrow> mouse" where
  "begin_node_drag i p m = (case sim_position m i of
     None \<Rightarrow> m
   | Some pos \<Rightarrow> if node_drag_state m \<noteq> None then m
       else m\<lparr>node_drag_state := Some \<lparr>canvas_0 = p, sim_0 = pos, motion_signal = next_signal m\<rparr>,
              node_handlers := node_handlers m @ [(i, next_signal m)], next_signal := next_signal m + 1\<rparr>)"

definition transform_distance_canvas_to_simulation :: "rat \<Rightarrow> rat" where
  "transform_distance_canvas_to_simulation d = d / PIXELS_PER_METER"

definition node_drag_motion :: "int \<Rightarrow> point \<Rightarrow> mouse \<Rightarrow> bool \<times> mouse" where
  "node_drag_motion i p m = (case sim_position m i of
     None \<Rightarrow> (False, m)
   | Some _ \<Rightarrow> (case node_drag_state m of
        None \<Rightarrow> (False, m)
      | Some d \<Rightarrow>
         (let dx = fst p - fst (canvas_0 d); dy = snd p - snd (canvas_0 d);
              x = fst (sim_0 d) + transform_distance_canvas_to_simulation dx;
              y = snd (sim_0 d) + transform_distance_canvas_to_simulation dy
          in (True, m\<lparr>sim_position := (sim_position m)(i := Some (x, y)),
                       scene := set_position i (transform_point_simulation_to_canvas x y) (scene m)\<rparr>))))"

definition end_node_drag :: "int \<Rightarrow> mouse \<Rightarrow> mouse" where
  "end_node_drag i m = (case node_drag_state m of
     None \<Rightarrow> m
   | Some d \<Rightarrow> m\<lparr>node_handlers := filter (\<lambda>h. h \<noteq> (i, motion_signal d)) (node_handlers m), node_drag_state := None\<rparr>)"

section \<open>Panning and zooming\<close>

definition begin_panning :: "point \<Rightarrow> mouse \<Rightarrow> mouse" where
  "begin_panning p m = m\<lparr>
     panning := Some \<lparr>initial_mouse_pos = p, initial_canvas_pos = (adj_value (hadj m), adj_value (vadj m)),
                      pan_signal = next_signal m\<rparr>,
     canvas_handlers := canvas_handlers m @ [next_signal m], next_signal := next_signal m + 1\<rparr>"

definition end_panning :: "mouse \<Rightarrow> mouse" where
  "end_panning m = (case panning m of
     None \<Rightarrow> m
   | Some s \<Rightarrow> m\<lparr>canvas_handlers := filter (\<lambda>h. h \<noteq> pan_signal s) (canvas_handlers m), panning := None\<rparr>)"

definition panning_motion :: "point \<Rightarrow> mouse \<Rightarrow> mouse res" where
  "panning_motion p m = (case panning m of
     None \<Rightarrow> Inl AssertionError
   | Some s \<Rightarrow>
      (let dx = fst p - fst (initial_mouse_pos s); dy = snd p - snd (initial_mouse_pos s)
       in Inr (m\<lparr>hadj := set_value (fst (initial_canvas_pos s) - dx) (hadj m),
                 vadj := set_value (snd (initial_canvas_pos s) - dy) (vadj m)\<rparr>)))"

definition canvas_button_press :: "int \<Rightarrow> point \<Rightarrow> mouse \<Rightarrow> bool \<times> mouse" where
  "canvas_button_press button p m = (if button = 2 then (True, begin_panning p m) else (False, m))"

definition canvas_button_release :: "int \<Rightarrow> mouse \<Rightarrow> bool \<times> mouse" where
  "canvas_button_release button m = (if button = 2 then (True, end_panning m) else (False, m))"

datatype scroll = Up | Down | Sideways

definition canvas_scroll_event :: "scroll \<Rightarrow> mouse \<Rightarrow> bool \<times> mouse" where
  "canvas_scroll_event d m = (case d of
     Up \<Rightarrow> (True, m\<lparr>zoom := set_value (adj_value (zoom m) * (125/100)) (zoom m)\<rparr>)
   | Down \<Rightarrow> (True, m\<lparr>zoom := set_value (adj_value (zoom m) / (125/100)) (zoom m)\<rparr>)
   | Sideways \<Rightarrow> (False, m))"

text \<open>The zoom control as \<^verbatim>\<open>create_gui\<close> makes it.\<close>

definition zoom_adjustment :: adjustment where
  "zoom_adjustment = \<lparr>adj_value = 1, adj_lower = 1/100, adj_upper = 10, adj_page = 1\<rparr>"

section \<open>Clicks\<close>

text \<open>What a press on a node does, by button; the menu of the third button only shows entries.\<close>

definition on_node_button_press :: "int \<Rightarrow> point \<Rightarrow> int \<Rightarrow> mouse \<Rightarrow> bool res \<times> mouse" where
  "on_node_button_press button p i m =
     (if button = 1 then (case select_node (View_node i) (scene m) of
                            Inl e \<Rightarrow> (Inl e, m) | Inr v \<Rightarrow> (Inr True, m\<lparr>scene := v\<rparr>))
      else if button = 3 then (Inr True, m)
      else if button = 2 then (Inr True, begin_node_drag i p m)
      else (Inr False, m))"

definition on_node_button_release :: "int \<Rightarrow> int \<Rightarrow> mouse \<Rightarrow> bool \<times> mouse" where
  "on_node_button_release button i m = (if button = 2 then (True, end_node_drag i m) else (False, m))"

definition on_root_button_press :: "int \<Rightarrow> mouse \<Rightarrow> bool res \<times> mouse" where
  "on_root_button_press button m =
     (if button = 1 then (case select_node No_node (scene m) of
                            Inl e \<Rightarrow> (Inl e, m) | Inr v \<Rightarrow> (Inr True, m\<lparr>scene := v\<rparr>))
      else (Inr False, m))"

section \<open>A drag follows the mouse\<close>

abbreviation drag_motions :: "int \<Rightarrow> point list \<Rightarrow> mouse \<Rightarrow> mouse" where
  "drag_motions i ps m \<equiv> fold (\<lambda>p m. snd (node_drag_motion i p m)) ps m"

lemma drag_motions_keep:
  "node_drag_state (drag_motions i ps m) = node_drag_state m"
  "(sim_position (drag_motions i ps m) i = None) = (sim_position m i = None)"
  "endpoint_known (scene (drag_motions i ps m)) e = endpoint_known (scene m) e"
  by (induction ps arbitrary: m) (auto simp: node_drag_motion_def Let_def obs simp del: endpoint_known.simps split: option.splits)

text \<open>
  A node that is dragged is under the mouse: after pressing at one place and any motions, the node
  is where it was, in the simulator and on the canvas, displaced by exactly the distance between the
  place of the press and the place of the last motion; the motions in between leave no trace.
\<close>
theorem drag_follows_mouse:
  assumes "sim_position m i = Some (x, y)" "node_drag_state m = None" "endpoint_known (scene m) (Node_end i)"
  shows "let m' = snd (node_drag_motion i p (drag_motions i ps (begin_node_drag i p0 m))) in
    position_of (scene m') (Node_end i) = (x * PIXELS_PER_METER + (fst p - fst p0), y * PIXELS_PER_METER + (snd p - snd p0)) \<and>
    sim_position m' i = Some (x + (fst p - fst p0) / PIXELS_PER_METER, y + (snd p - snd p0) / PIXELS_PER_METER) \<and>
    (\<forall>j. j \<noteq> i \<longrightarrow> position_of (scene m') (Node_end j) = position_of (scene m) (Node_end j))"
proof -
  let ?b = "begin_node_drag i p0 m" let ?m = "drag_motions i ps ?b"
  have b: "scene ?b = scene m" "sim_position ?b = sim_position m"
      "node_drag_state ?b = Some \<lparr>canvas_0 = p0, sim_0 = (x, y), motion_signal = next_signal m\<rparr>"
    using assms by (simp_all add: begin_node_drag_def)
  have k: "node_drag_state ?m = node_drag_state ?b" "sim_position ?m i \<noteq> None" "endpoint_known (scene ?m) (Node_end i)"
    using drag_motions_keep [where i = i and m = ?b and ps = ps] assms b by (simp_all del: endpoint_known.simps)
  have others: "position_of (scene (drag_motions i ps n)) (Node_end j) = position_of (scene n) (Node_end j)" if "j \<noteq> i" for j n
    using that by (induction ps arbitrary: n) (auto simp: node_drag_motion_def Let_def obs simp del: endpoint_known.simps position_of.simps split: option.splits)
  have "PIXELS_PER_METER \<noteq> 0" by (simp add: PIXELS_PER_METER_def)
  then show ?thesis using k b others [of _ ?b]
    by (auto simp: node_drag_motion_def Let_def obs transform_point_simulation_to_canvas_def
        transform_distance_canvas_to_simulation_def field_simps simp del: endpoint_known.simps position_of.simps split: option.splits)
qed


definition one_node :: mouse where
  "one_node = \<lparr>scene = get_node 0 empty_view, sim_position = [0 \<mapsto> (1, 1)], node_drag_state = None, node_handlers = [],
     panning = None, canvas_handlers = [], next_signal = 1,
     hadj = \<lparr>adj_value = 50, adj_lower = 0, adj_upper = 1000, adj_page = 100\<rparr>,
     vadj = \<lparr>adj_value = 50, adj_lower = 0, adj_upper = 1000, adj_page = 100\<rparr>, zoom = zoom_adjustment\<rparr>"

theorem drag_follows_mouse_witness:
  "sim_position (snd (node_drag_motion 0 (16, 10) (drag_motions 0 [(100, 100)] (begin_node_drag 0 (10, 10) one_node)))) 0 = Some (3, 1)"
proof -
  have "sim_position one_node 0 = Some (1, 1)" "node_drag_state one_node = None" "endpoint_known (scene one_node) (Node_end 0)"
    by (simp_all add: one_node_def obs del: endpoint_known.simps)
  from drag_follows_mouse [OF this, of "(16, 10)" "[(100, 100)]" "(10, 10)"]
  have "sim_position (snd (node_drag_motion 0 (16, 10) (drag_motions 0 [(100, 100)] (begin_node_drag 0 (10, 10) one_node)))) 0 =
      Some (1 + (16 - 10) / PIXELS_PER_METER, 1 + (10 - 10) / PIXELS_PER_METER)" unfolding Let_def by (metis fst_conv snd_conv)
  then show ?thesis by (simp add: PIXELS_PER_METER_def)
qed

text \<open>
  Releasing the button over another node ends the drag, but leaves the motion handler of the dragged
  node connected.
\<close>
lemma release_elsewhere_keeps_handler:
  assumes "sim_position m i \<noteq> None" "node_drag_state m = None" "j \<noteq> i"
  shows "let m' = end_node_drag j (begin_node_drag i p m) in
    node_drag_state m' = None \<and> (i, next_signal m) \<in> set (node_handlers m')"
  using assms by (auto simp: begin_node_drag_def end_node_drag_def Let_def)

section \<open>Panning and zooming\<close>

text \<open>Panning moves the content with the mouse as long as the adjustments are within their limits.\<close>

lemma panning_follows_mouse:
  assumes "panning_motion p (begin_panning p0 m) = Inr m'"
    "adj_lower (hadj m) \<le> adj_value (hadj m) - (fst p - fst p0)" "adj_value (hadj m) - (fst p - fst p0) \<le> adj_upper (hadj m) - adj_page (hadj m)"
    "adj_lower (vadj m) \<le> adj_value (vadj m) - (snd p - snd p0)" "adj_value (vadj m) - (snd p - snd p0) \<le> adj_upper (vadj m) - adj_page (vadj m)"
  shows "adj_value (hadj m') + fst p = adj_value (hadj m) + fst p0" "adj_value (vadj m') + snd p = adj_value (vadj m) + snd p0"
  using assms by (auto simp: panning_motion_def begin_panning_def set_value_def Let_def)

lemma set_value_range: "adj_lower a \<le> adj_upper a - adj_page a \<Longrightarrow>
    adj_lower a \<le> adj_value (set_value x a) \<and> adj_value (set_value x a) \<le> adj_upper a - adj_page a"
  by (auto simp: set_value_def)

lemma zoom_up_down:
  assumes "adj_lower (zoom m) \<le> adj_value (zoom m)" "0 < adj_lower (zoom m)"
    "adj_value (zoom m) * (125/100) \<le> adj_upper (zoom m) - adj_page (zoom m)"
  shows "zoom (snd (canvas_scroll_event Down (snd (canvas_scroll_event Up m)))) = zoom m"
  using assms by (auto simp: canvas_scroll_event_def set_value_def max_def min_def)

text \<open>
  A press of the middle button that arrives twice, as for a double click, connects the motion handler
  twice.  The release disconnects the second one only; every later motion of the mouse calls the first
  one, which fails its assertion.
\<close>
lemma double_press_leaves_handler:
  "let m' = snd (canvas_button_release 2 (snd (canvas_button_press 2 p (snd (canvas_button_press 2 p m))))) in
    next_signal m \<in> set (canvas_handlers m') \<and> panning_motion q m' = Inl AssertionError"
  by (simp add: canvas_button_press_def canvas_button_release_def begin_panning_def end_panning_def panning_motion_def Let_def)

text \<open>Without it, press and release leave the handlers as they were.\<close>

lemma press_release_handlers:
  assumes "\<forall>h \<in> set (canvas_handlers m). h < next_signal m"
  shows "canvas_handlers (end_panning (begin_panning p m)) = canvas_handlers m"
  using assms by (auto simp: begin_panning_def end_panning_def filter_id_conv)

end
