(* ===== verification/FlowMonitor.thy ===== *)
theory FlowMonitor
  imports Complex_Main TestReport
begin

text \<open>
  The parser of flow monitor results, \<^verbatim>\<open>flowmon-parse-results.py\<close>: \<open>parse_time_ns\<close>, the classes
  \<open>FiveTuple\<close>, \<open>Histogram\<close>, \<open>Flow\<close>, \<open>ProbeFlowStats\<close>, \<open>Simulation\<close>, and \<open>main\<close>.  The script is written for
  Python 2.  The input is the element tree that \<open>iterparse\<close> walks.  A flow object is known by its
  place in the list \<open>flows\<close>; \<open>flow_map\<close> takes identifiers to places, so that what is stored through the
  map is seen in the list.  Floats are rationals with the special values, without rounding.  The
  report is the list of values that are printed, before they are rounded to two places.
\<close>

section \<open>Numbers of Python 2\<close>

definition dec_digit :: "char \<Rightarrow> bool" where
  "dec_digit c \<longleftrightarrow> (48 :: nat) \<le> of_char c \<and> (of_char c :: nat) \<le> 57"

definition dec_value :: "string \<Rightarrow> int" where
  "dec_value ds = foldl (\<lambda>a c. 10 * a + (int (of_char c) - 48)) 0 ds"

text \<open>A sign in front of a text: whether it is a minus, and the text after it.\<close>

definition signed :: "string \<Rightarrow> bool \<times> string" where
  "signed t = (take 1 t = ''-'', if take 1 t = ''-'' \<or> take 1 t = ''+'' then drop 1 t else t)"

definition digits_int :: "string \<Rightarrow> int res" where
  "digits_int t =
     (let (neg, ds) = signed t
      in if ds \<noteq> [] \<and> list_all dec_digit ds then Inr (if neg then - dec_value ds else dec_value ds)
         else Inl ValueError)"

definition py2_int :: "string \<Rightarrow> int res" where
  "py2_int s = digits_int (strip_by py2_space s)"

text \<open>\<open>long\<close> also takes the suffix that \<open>repr\<close> writes.\<close>

definition py2_long :: "string \<Rightarrow> int res" where
  "py2_long s =
     (let t = strip_by py2_space s
      in digits_int (if t \<noteq> [] \<and> last t \<in> {CHR ''l'', CHR ''L''} then butlast t else t))"

datatype pyfloat = Num rat | Inf bool | Nan

definition ten_to :: "int \<Rightarrow> rat" where
  "ten_to k = (if 0 \<le> k then 10 ^ nat k else 1 / 10 ^ nat (- k))"

definition exponent_of :: "string \<Rightarrow> int res" where
  "exponent_of r = (if r = [] then Inr 0 else if hd r \<in> {CHR ''e'', CHR ''E''} then digits_int (tl r) else Inl ValueError)"

definition float_digits :: "string \<Rightarrow> rat res" where
  "float_digits t =
     (let whole = takeWhile dec_digit t; r = dropWhile dec_digit t;
          point = (take 1 r = ''.'');
          frac = (if point then takeWhile dec_digit (drop 1 r) else []);
          rest = (if point then dropWhile dec_digit (drop 1 r) else r)
      in if whole = [] \<and> frac = [] then Inl ValueError
         else rbind (exponent_of rest) (\<lambda>k. Inr (of_int (dec_value (whole @ frac)) * ten_to (k - int (length frac)))))"

definition py2_float :: "string \<Rightarrow> pyfloat res" where
  "py2_float s =
     (let (neg, t) = signed (strip_by py2_space s); w = map lower_char t
      in if w = ''inf'' \<or> w = ''infinity'' then Inr (Inf neg)
         else if w = ''nan'' then Inr Nan
         else rbind (float_digits t) (\<lambda>r. Inr (Num (if neg then - r else r))))"

fun f_add :: "pyfloat \<Rightarrow> rat \<Rightarrow> pyfloat" where
  "f_add (Num a) b = Num (a + b)"
| "f_add x b = x"

fun f_mult :: "pyfloat \<Rightarrow> rat \<Rightarrow> pyfloat" where
  "f_mult (Num a) b = Num (a * b)"
| "f_mult (Inf neg) b = (if b = 0 then Nan else Inf (neg \<noteq> (b < 0)))"
| "f_mult Nan b = Nan"

fun f_div :: "pyfloat \<Rightarrow> pyfloat \<Rightarrow> pyfloat res" where
  "f_div x (Num b) = (if b = 0 then Inl ZeroDivisionError else Inr (f_mult x (1 / b)))"
| "f_div (Num a) (Inf neg) = Inr (Num 0)"
| "f_div x y = Inr Nan"

section \<open>Times and attributes\<close>

definition parse_time_ns :: "string \<Rightarrow> int res" where
  "parse_time_ns tm = (if endswith tm ''ns'' then py2_long (slice_to tm (- 4)) else Inl ValueError)"

abbreviation attr :: "xml \<Rightarrow> string \<Rightarrow> string option" where
  "attr el k \<equiv> map_of (x_attrib el) k"

text \<open>Conversions of \<open>el.get(k)\<close>: of \<open>None\<close> they raise \<open>TypeError\<close>, and so does the slice of \<open>None\<close>.\<close>

definition conv :: "(string \<Rightarrow> 'a res) \<Rightarrow> xml \<Rightarrow> string \<Rightarrow> 'a res" where
  "conv f el k = (case attr el k of None \<Rightarrow> Inl TypeError | Some s \<Rightarrow> f s)"

definition ticks :: "xml \<Rightarrow> string \<Rightarrow> int res" where
  "ticks = conv (\<lambda>s. py2_long (slice_to s (- 4)))"

record five_tuple =
  sourceAddress :: "string option"
  destinationAddress :: "string option"
  protocol :: int
  sourcePort :: int
  destinationPort :: int

definition FiveTuple :: "xml \<Rightarrow> five_tuple res" where
  "FiveTuple el =
     rbind (conv py2_int el ''sourcePort'') (\<lambda>sp.
     rbind (conv py2_int el ''destinationPort'') (\<lambda>dp.
     rbind (conv py2_int el ''protocol'') (\<lambda>p.
       Inr \<lparr>sourceAddress = attr el ''sourceAddress'', destinationAddress = attr el ''destinationAddress'',
            protocol = p, sourcePort = sp, destinationPort = dp\<rparr>)))"

type_synonym histogram = "(pyfloat \<times> pyfloat \<times> int) list"

definition Histogram :: "xml option \<Rightarrow> histogram res" where
  "Histogram el =
     (case el of None \<Rightarrow> Inr []
      | Some el \<Rightarrow> rmap (\<lambda>b. rbind (conv py2_float b ''start'') (\<lambda>s.
                           rbind (conv py2_float b ''width'') (\<lambda>w.
                           rbind (conv py2_int b ''count'') (\<lambda>c. Inr (s, w, c))))) (find_all ''bin'' el))"

section \<open>Flows\<close>

record probe_stats =
  probeId :: int
  packets :: int
  bytes :: int
  delayFromFirstProbe :: rat

record flow =
  flowId :: int
  hopCount :: pyfloat
  delayMean :: "pyfloat option"
  packetSizeMean :: "pyfloat option"
  rxBitrate :: "rat option"
  txBitrate :: "rat option"
  packetLossRatio :: "pyfloat option"
  rx_duration :: rat
  flowInterruptionsHistogram :: "histogram option"
  fiveTuple :: "five_tuple option"
  probe_stats_unsorted :: "probe_stats list"

text \<open>\<open>if rxPackets: ...\<close>, with the value for a flow of which nothing was received.\<close>

definition per_packet :: "int \<Rightarrow> 'a \<Rightarrow> 'a res \<Rightarrow> 'a res" where
  "per_packet rx dflt r = (if rx \<noteq> 0 then r else Inr dflt)"

definition duration :: "xml \<Rightarrow> string \<Rightarrow> string \<Rightarrow> rat res" where
  "duration el last_k first_k =
     rbind (ticks el last_k) (\<lambda>l. rbind (ticks el first_k) (\<lambda>f. Inr (of_int (l - f) / 10 ^ 9)))"

definition bitrate :: "xml \<Rightarrow> string \<Rightarrow> rat \<Rightarrow> rat option res" where
  "bitrate el k d =
     (if 0 < d then rbind (conv py2_long el k) (\<lambda>n. Inr (Some (of_int (n * 8) / d))) else Inr None)"

definition Flow :: "xml \<Rightarrow> flow res" where
  "Flow el =
     rbind (conv py2_int el ''flowId'') (\<lambda>fid.
     rbind (conv py2_long el ''rxPackets'') (\<lambda>rx.
     rbind (conv py2_long el ''txPackets'') (\<lambda>tx.
     rbind (duration el ''timeLastTxPacket'' ''timeFirstTxPacket'') (\<lambda>txd.
     rbind (duration el ''timeLastRxPacket'' ''timeFirstRxPacket'') (\<lambda>rxd.
     rbind (per_packet rx (Num (- 1000))
              (rbind (conv py2_float el ''timesForwarded'') (\<lambda>n.
               rbind (f_div n (Num (of_int rx))) (\<lambda>q. Inr (f_add q 1))))) (\<lambda>hops.
     rbind (per_packet rx None
              (rbind (conv (\<lambda>s. py2_float (slice_to s (- 4))) el ''delaySum'') (\<lambda>n.
               rbind (f_div n (Num (of_int rx))) (\<lambda>q. Inr (Some (f_mult q (1 / 10 ^ 9))))))) (\<lambda>delay.
     rbind (per_packet rx None
              (rbind (conv py2_float el ''rxBytes'') (\<lambda>n.
               rbind (f_div n (Num (of_int rx))) (\<lambda>q. Inr (Some q))))) (\<lambda>psize.
     rbind (bitrate el ''rxBytes'' rxd) (\<lambda>rxr.
     rbind (bitrate el ''txBytes'' txd) (\<lambda>txr.
     rbind (conv py2_float el ''lostPackets'') (\<lambda>lost.
     rbind (if rx = 0 then Inr None
            else rbind (f_div lost (f_add lost (of_int rx))) (\<lambda>q. Inr (Some q))) (\<lambda>ratio.
     rbind (case find_child ''flowInterruptionsHistogram'' el of
              None \<Rightarrow> Inr None
            | Some h \<Rightarrow> rbind (Histogram (Some h)) (\<lambda>b. Inr (Some b))) (\<lambda>hist.
       Inr \<lparr>flowId = fid, hopCount = hops, delayMean = delay, packetSizeMean = psize, rxBitrate = rxr,
            txBitrate = txr, packetLossRatio = ratio, rx_duration = rxd, flowInterruptionsHistogram = hist,
            fiveTuple = None, probe_stats_unsorted = []\<rparr>)))))))))))))"

section \<open>Simulations\<close>

text \<open>\<open>findall("a/b")\<close>.\<close>

definition find_path :: "string \<Rightarrow> string \<Rightarrow> xml \<Rightarrow> xml list" where
  "find_path a b el = concat (map (find_all b) (find_all a el))"

type_synonym flow_map = "int \<rightharpoonup> nat"

text \<open>The first loop; \<open>flow_map\<close> takes an identifier to the place of the last flow that has it.\<close>

fun read_flows :: "xml list \<Rightarrow> flow_map \<Rightarrow> flow list \<Rightarrow> (flow_map \<times> flow list) res" where
  "read_flows [] fm flows = Inr (fm, flows)"
| "read_flows (el # els) fm flows =
     rbind (Flow el) (\<lambda>flow. read_flows els (fm(flowId flow \<mapsto> length flows)) (flows @ [flow]))"

text \<open>An assignment through \<open>flow_map[i]\<close>.\<close>

definition on_flow :: "flow_map \<Rightarrow> int \<Rightarrow> (flow \<Rightarrow> flow) \<Rightarrow> flow list \<Rightarrow> flow list res" where
  "on_flow fm i f flows = (case fm i of None \<Rightarrow> Inl KeyError | Some k \<Rightarrow> Inr (flows[k := f (flows ! k)]))"

fun classify_flows :: "flow_map \<Rightarrow> xml list \<Rightarrow> flow list \<Rightarrow> flow list res" where
  "classify_flows fm [] flows = Inr flows"
| "classify_flows fm (el # els) flows =
     rbind (conv py2_int el ''flowId'') (\<lambda>i.
     rbind (FiveTuple el) (\<lambda>t.
     rbind (on_flow fm i (fiveTuple_update (\<lambda>_. Some t)) flows) (classify_flows fm els)))"

definition read_stats :: "int \<Rightarrow> xml \<Rightarrow> (int \<times> probe_stats) res" where
  "read_stats pid stats =
     rbind (conv py2_int stats ''flowId'') (\<lambda>i.
     rbind (conv py2_int stats ''packets'') (\<lambda>p.
     rbind (conv py2_long stats ''bytes'') (\<lambda>b.
     rbind (if 0 < p
            then rbind (case attr stats ''delayFromFirstProbeSum'' of None \<Rightarrow> Inl AttributeError | Some s \<Rightarrow> parse_time_ns s)
                   (\<lambda>t. Inr (of_int t / of_int p))
            else Inr 0) (\<lambda>d.
       Inr (i, \<lparr>probeId = pid, packets = p, bytes = b, delayFromFirstProbe = d\<rparr>)))))"

fun add_stats :: "flow_map \<Rightarrow> int \<Rightarrow> xml list \<Rightarrow> flow list \<Rightarrow> flow list res" where
  "add_stats fm pid [] flows = Inr flows"
| "add_stats fm pid (stats # rest) flows =
     rbind (read_stats pid stats) (\<lambda>(i, s).
     rbind (on_flow fm i (probe_stats_unsorted_update (\<lambda>ss. ss @ [s])) flows) (add_stats fm pid rest))"

fun add_probes :: "flow_map \<Rightarrow> xml list \<Rightarrow> flow list \<Rightarrow> flow list res" where
  "add_probes fm [] flows = Inr flows"
| "add_probes fm (el # els) flows =
     rbind (conv py2_int el ''index'') (\<lambda>pid.
     rbind (add_stats fm pid (find_all ''FlowStats'' el) flows) (add_probes fm els))"

definition Simulation :: "xml \<Rightarrow> flow list res" where
  "Simulation el =
     (case find_all ''Ipv4FlowClassifier'' el of
        [classifier] \<Rightarrow>
          rbind (read_flows (find_path ''FlowStats'' ''Flow'' el) Map.empty []) (\<lambda>(fm, flows).
          rbind (classify_flows fm (find_all ''Flow'' classifier) flows)
            (add_probes fm (find_path ''FlowProbes'' ''FlowProbe'' el)))
      | _ \<Rightarrow> Inl ValueError)"

section \<open>The program\<close>

datatype xml_event = Start xml | End xml

text \<open>What \<open>iterparse\<close> yields: an element is complete when its end is reported.\<close>

fun iterparse :: "xml \<Rightarrow> xml_event list" where
  "iterparse (Elem t as x cs) = Start (Elem t as x cs) # concat (map iterparse cs) @ [End (Elem t as x cs)]"

fun read_sims :: "int \<Rightarrow> xml_event list \<Rightarrow> flow list list \<Rightarrow> flow list list res" where
  "read_sims level [] sims = Inr sims"
| "read_sims level (Start el # evs) sims = read_sims (level + 1) evs sims"
| "read_sims level (End el # evs) sims =
     (if level - 1 = 0 \<and> x_tag el = ''FlowMonitor''
      then rbind (Simulation el) (\<lambda>sim. read_sims (level - 1) evs (sims @ [sim]))
      else read_sims (level - 1) evs sims)"

datatype report_line =
    FlowID int string "string option" int "string option" int
  | TXBitrate "rat option"
  | RXBitrate "rat option"
  | MeanDelay "pyfloat option"
  | LossRatio "pyfloat option"

definition protocol_name :: "int \<Rightarrow> string res" where
  "protocol_name p = (if p = 6 then Inr ''TCP'' else if p = 17 then Inr ''UDP'' else Inl KeyError)"

definition report_flow :: "flow \<Rightarrow> report_line list res" where
  "report_flow f =
     (case fiveTuple f of None \<Rightarrow> Inl AttributeError
      | Some t \<Rightarrow> rbind (protocol_name (protocol t)) (\<lambda>proto.
          Inr [FlowID (flowId f) proto (sourceAddress t) (sourcePort t) (destinationAddress t) (destinationPort t),
               TXBitrate (map_option (\<lambda>r. r / 10 ^ 3) (txBitrate f)),
               RXBitrate (map_option (\<lambda>r. r / 10 ^ 3) (rxBitrate f)),
               MeanDelay (map_option (\<lambda>d. f_mult d (10 ^ 3)) (delayMean f)),
               LossRatio (map_option (\<lambda>q. f_mult q 100) (packetLossRatio f))]))"

text \<open>The lines printed before the end or before the exception that ends the program.\<close>

fun report_flows :: "flow list \<Rightarrow> report_line list \<times> py_error option" where
  "report_flows [] = ([], None)"
| "report_flows (f # fs) =
     (case report_flow f of Inl e \<Rightarrow> ([], Some e)
      | Inr ls \<Rightarrow> (case report_flows fs of (out, e) \<Rightarrow> (ls @ out, e)))"

definition main :: "xml \<Rightarrow> report_line list \<times> py_error option" where
  "main el =
     (case read_sims 0 (iterparse el) [] of Inl e \<Rightarrow> ([], Some e)
      | Inr sims \<Rightarrow> report_flows (concat sims))"

section \<open>Where results are stored\<close>

text \<open>What the results say: the place of the last flow with an identifier, and the flows with what the
  classifier and the probes tell of them.\<close>

definition last_place :: "flow list \<Rightarrow> int \<Rightarrow> nat option" where
  "last_place fs i = map_of (rev (zip (map flowId fs) [0..<length fs])) i"

definition attached :: "(int \<times> five_tuple) list \<Rightarrow> (int \<times> probe_stats) list \<Rightarrow> flow \<Rightarrow> flow" where
  "attached cs ps f =
     f\<lparr>fiveTuple := map_of (rev cs) (flowId f), probe_stats_unsorted := map snd (filter (\<lambda>p. fst p = flowId f) ps)\<rparr>"

definition attach :: "flow list \<Rightarrow> (int \<times> five_tuple) list \<Rightarrow> (int \<times> probe_stats) list \<Rightarrow> flow list" where
  "attach fs cs ps =
     map (\<lambda>k. if last_place fs (flowId (fs ! k)) = Some k then attached cs ps (fs ! k) else fs ! k) [0..<length fs]"

definition class_entry :: "xml \<Rightarrow> (int \<times> five_tuple) res" where
  "class_entry el = rbind (conv py2_int el ''flowId'') (\<lambda>i. rbind (FiveTuple el) (\<lambda>t. Inr (i, t)))"

definition probe_entries :: "xml \<Rightarrow> (int \<times> probe_stats) list res" where
  "probe_entries el = rbind (conv py2_int el ''index'') (\<lambda>pid. rmap (read_stats pid) (find_all ''FlowStats'' el))"

lemma class_entry_Inr:
  "class_entry el = Inr (i, t) \<longleftrightarrow> conv py2_int el ''flowId'' = Inr i \<and> FiveTuple el = Inr t"
  by (auto simp: class_entry_def res_simps)

lemma probe_entries_Inr:
  "probe_entries el = Inr es \<longleftrightarrow>
     (\<exists>pid. conv py2_int el ''index'' = Inr pid \<and> rmap (read_stats pid) (find_all ''FlowStats'' el) = Inr es)"
  by (auto simp: probe_entries_def res_simps)

lemma last_place_snoc: "last_place (fs @ [f]) = (last_place fs)(flowId f \<mapsto> length fs)"
  by (auto simp: last_place_def fun_eq_iff zip_append)

lemma last_place_Nil: "last_place [] = Map.empty"
  by (simp add: last_place_def fun_eq_iff)

lemma last_place_Some: "last_place fs i = Some k \<Longrightarrow> k < length fs \<and> flowId (fs ! k) = i"
  by (induction fs rule: rev_induct) (auto simp: last_place_snoc last_place_Nil nth_append split: if_splits)

lemma last_place_None: "last_place fs i = None \<longleftrightarrow> i \<notin> flowId ` set fs"
  by (induction fs rule: rev_induct) (auto simp: last_place_snoc last_place_Nil)

lemma last_place_last: "last_place fs i = Some k \<Longrightarrow> k < j \<Longrightarrow> j < length fs \<Longrightarrow> flowId (fs ! j) \<noteq> i"
  by (induction fs rule: rev_induct) (auto simp: last_place_snoc last_place_Nil nth_append split: if_splits)

lemma read_flows_spec:
  "read_flows els (last_place flows) flows = rbind (rmap Flow els) (\<lambda>fs. Inr (last_place (flows @ fs), flows @ fs))"
proof (induction els arbitrary: flows)
  case (Cons el els)
  show ?case
  proof (cases "Flow el")
    case (Inr f)
    then show ?thesis using Cons.IH [of "flows @ [f]"] by (simp add: last_place_snoc [symmetric] rbind_assoc)
  qed simp
qed simp

lemma attach_step:
  assumes f: "\<And>x. flowId x = i \<Longrightarrow> f (attached cs ps x) = attached cs' ps' x"
    and other: "\<And>x. flowId x \<noteq> i \<Longrightarrow> attached cs ps x = attached cs' ps' x"
  shows "on_flow (last_place fs) i f (attach fs cs ps) =
     (if i \<in> flowId ` set fs then Inr (attach fs cs' ps') else Inl KeyError)"
proof (cases "last_place fs i")
  case None
  moreover from None have "i \<notin> flowId ` set fs" by (simp add: last_place_None)
  ultimately show ?thesis by (simp add: on_flow_def)
next
  case (Some k)
  then have k: "k < length fs" "flowId (fs ! k) = i" using last_place_Some by auto
  have "(attach fs cs ps)[k := f (attach fs cs ps ! k)] = attach fs cs' ps'"
  proof (rule nth_equalityI)
    fix j
    assume "j < length ((attach fs cs ps)[k := f (attach fs cs ps ! k)])"
    then have j: "j < length fs" by (simp add: attach_def)
    show "(attach fs cs ps)[k := f (attach fs cs ps ! k)] ! j = attach fs cs' ps' ! j"
    proof (cases "j = k")
      case True
      then show ?thesis using j k Some f by (simp add: attach_def)
    next
      case False
      then have "last_place fs (flowId (fs ! j)) = Some j \<Longrightarrow> flowId (fs ! j) \<noteq> i" using Some by auto
      then show ?thesis using j False other by (simp add: attach_def)
    qed
  qed (simp add: attach_def)
  moreover have "i \<in> flowId ` set fs" using k(1) k(2) [symmetric] by simp
  ultimately show ?thesis using Some by (simp add: on_flow_def)
qed

lemma classify_step:
  "on_flow (last_place fs) i (fiveTuple_update (\<lambda>_. Some t)) (attach fs cs ps) =
     (if i \<in> flowId ` set fs then Inr (attach fs (cs @ [(i, t)]) ps) else Inl KeyError)"
  by (rule attach_step) (simp_all add: attached_def)

lemma stats_step:
  "on_flow (last_place fs) i (probe_stats_unsorted_update (\<lambda>ss. ss @ [s])) (attach fs cs ps) =
     (if i \<in> flowId ` set fs then Inr (attach fs cs (ps @ [(i, s)])) else Inl KeyError)"
  by (rule attach_step) (simp_all add: attached_def)

lemma classify_flows_spec:
  "rmap class_entry els = Inr es \<Longrightarrow>
     classify_flows (last_place fs) els (attach fs cs ps) =
       (if fst ` set es \<subseteq> flowId ` set fs then Inr (attach fs (cs @ es) ps) else Inl KeyError)"
proof (induction els arbitrary: es cs)
  case (Cons el els)
  then obtain i t es' where "conv py2_int el ''flowId'' = Inr i" "FiveTuple el = Inr t" "es = (i, t) # es'"
    "rmap class_entry els = Inr es'"
    by (auto simp: class_entry_Inr rbind_eq_Inr)
  then show ?case using Cons.IH [of es' "cs @ [(i, t)]"] by (simp add: classify_step)
qed simp

lemma add_stats_spec:
  "rmap (read_stats pid) els = Inr es \<Longrightarrow>
     add_stats (last_place fs) pid els (attach fs cs ps) =
       (if fst ` set es \<subseteq> flowId ` set fs then Inr (attach fs cs (ps @ es)) else Inl KeyError)"
proof (induction els arbitrary: es ps)
  case (Cons el els)
  then obtain i s es' where "read_stats pid el = Inr (i, s)" "es = (i, s) # es'" "rmap (read_stats pid) els = Inr es'"
    by (auto simp: res_simps)
  then show ?case using Cons.IH [of es' "ps @ [(i, s)]"] by (simp add: stats_step)
qed simp

lemma add_probes_spec:
  "rmap probe_entries els = Inr ess \<Longrightarrow>
     add_probes (last_place fs) els (attach fs cs ps) =
       (if fst ` set (concat ess) \<subseteq> flowId ` set fs then Inr (attach fs cs (ps @ concat ess)) else Inl KeyError)"
proof (induction els arbitrary: ess ps)
  case (Cons el els)
  then obtain pid es ess' where "conv py2_int el ''index'' = Inr pid" "rmap (read_stats pid) (find_all ''FlowStats'' el) = Inr es"
    "ess = es # ess'" "rmap probe_entries els = Inr ess'"
    by (auto simp: probe_entries_Inr rbind_eq_Inr)
  then show ?case using Cons.IH [of ess' "ps @ es"] by (auto simp: add_stats_spec image_Un)
qed simp

lemma attach_start: "(\<And>f. f \<in> set fs \<Longrightarrow> fiveTuple f = None \<and> probe_stats_unsorted f = []) \<Longrightarrow> attach fs [] [] = fs"
  by (rule nth_equalityI) (auto simp: attach_def attached_def)

lemma Flow_empty: "Flow el = Inr f \<Longrightarrow> fiveTuple f = None \<and> probe_stats_unsorted f = []"
  by (auto simp: Flow_def res_simps)

text \<open>
  C36: the constructor of \<open>Simulation\<close> stores the results where they belong.  When the classifier is
  there once and all attributes can be read, it returns exactly if every identifier that the classifier
  and the probes use is one of a flow, and raises \<open>KeyError\<close> otherwise; the flows are those of the file in
  their order, the last flow of an identifier has the last five-tuple the classifier gives for it and
  the statistics of all probes for it in the order of the file, and earlier flows of the same identifier
  have nothing.
\<close>
theorem simulation_attaches:
  assumes "find_all ''Ipv4FlowClassifier'' el = [classifier]"
    and "rmap Flow (find_path ''FlowStats'' ''Flow'' el) = Inr fs"
    and "rmap class_entry (find_all ''Flow'' classifier) = Inr cs"
    and "rmap probe_entries (find_path ''FlowProbes'' ''FlowProbe'' el) = Inr pss"
  shows "Simulation el =
     (if fst ` set cs \<union> fst ` set (concat pss) \<subseteq> flowId ` set fs then Inr (attach fs cs (concat pss)) else Inl KeyError)"
proof -
  have start: "attach fs [] [] = fs"
    using rmap_Inr_source [OF assms(2)] Flow_empty by (intro attach_start) blast
  have "read_flows (find_path ''FlowStats'' ''Flow'' el) Map.empty [] = Inr (last_place fs, fs)"
    using read_flows_spec [of _ "[]"] assms(2) by (simp add: last_place_Nil)
  moreover have "classify_flows (last_place fs) (find_all ''Flow'' classifier) fs =
      (if fst ` set cs \<subseteq> flowId ` set fs then Inr (attach fs cs []) else Inl KeyError)"
    using classify_flows_spec [OF assms(3), of fs "[]" "[]"] start by simp
  ultimately show ?thesis
    using add_probes_spec [OF assms(4), of fs cs "[]"] assms(1) by (simp add: Simulation_def)
qed

definition demo_flow :: "string \<Rightarrow> xml" where
  "demo_flow i = Elem ''Flow''
     [(''flowId'', i), (''timeFirstTxPacket'', ''+0.0ns''), (''timeFirstRxPacket'', ''+0.0ns''),
      (''timeLastTxPacket'', ''+1000000000.0ns''), (''timeLastRxPacket'', ''+1000000000.0ns''),
      (''delaySum'', ''+5000000.0ns''), (''txBytes'', ''1000''), (''rxBytes'', ''750''), (''txPackets'', ''4''),
      (''rxPackets'', ''3''), (''lostPackets'', ''1''), (''timesForwarded'', ''3'')] None []"

definition demo_monitor :: "string list \<Rightarrow> xml" where
  "demo_monitor ids = Elem ''FlowMonitor'' [] None
     [Elem ''FlowStats'' [] None (map demo_flow ids),
      Elem ''Ipv4FlowClassifier'' [] None
        [Elem ''Flow'' [(''flowId'', ''1''), (''sourceAddress'', ''10.0.0.1''), (''destinationAddress'', ''10.0.0.2''),
           (''protocol'', ''17''), (''sourcePort'', ''9''), (''destinationPort'', ''10'')] None []],
      Elem ''FlowProbes'' [] None
        [Elem ''FlowProbe'' [(''index'', ''0'')] None
           [Elem ''FlowStats'' [(''flowId'', ''1''), (''packets'', ''2''), (''bytes'', ''500''),
              (''delayFromFirstProbeSum'', ''+8.0ns'')] None []]]]"

lemmas number_defs = py2_int_def py2_long_def py2_float_def digits_int_def signed_def dec_digit_def dec_value_def
  strip_by_def py2_space_def float_digits_def exponent_of_def ten_to_def slice_to_def norm_index_def lower_char_def Let_def

lemma demo_tuple:
  "class_entry (Elem ''Flow'' [(''flowId'', ''1''), (''sourceAddress'', ''10.0.0.1''), (''destinationAddress'', ''10.0.0.2''),
       (''protocol'', ''17''), (''sourcePort'', ''9''), (''destinationPort'', ''10'')] None []) =
     Inr (1, \<lparr>sourceAddress = Some ''10.0.0.1'', destinationAddress = Some ''10.0.0.2'', protocol = 17,
              sourcePort = 9, destinationPort = 10\<rparr>)"
  by (simp add: class_entry_def FiveTuple_def conv_def number_defs)

lemma demo_stats:
  "probe_entries (Elem ''FlowProbe'' [(''index'', ''0'')] None
     [Elem ''FlowStats'' [(''flowId'', ''1''), (''packets'', ''2''), (''bytes'', ''500''),
        (''delayFromFirstProbeSum'', ''+8.0ns'')] None []]) =
   Inr [(1, \<lparr>probeId = 0, packets = 2, bytes = 500, delayFromFirstProbe = 4\<rparr>)]"
  by (simp add: probe_entries_def find_all_def read_stats_def parse_time_ns_def endswith_def conv_def number_defs)

lemma demo_ints:
  "py2_int ''1'' = Inr 1" "py2_long ''3'' = Inr 3" "py2_long ''4'' = Inr 4" "py2_long ''750'' = Inr 750"
  "py2_long ''1000'' = Inr 1000" "py2_long (slice_to ''+0.0ns'' (- 4)) = Inr 0"
  "py2_long (slice_to ''+1000000000.0ns'' (- 4)) = Inr 1000000000"
  by (simp_all add: number_defs)

lemma demo_floats:
  "py2_float ''1'' = Inr (Num 1)" "py2_float ''3'' = Inr (Num 3)" "py2_float ''750'' = Inr (Num 750)"
  "py2_float (slice_to ''+5000000.0ns'' (- 4)) = Inr (Num 5000000)"
  by (simp_all add: number_defs)

lemma demo_flow_read:
  "Flow (demo_flow ''1'') =
     Inr \<lparr>flowId = 1, hopCount = Num 2, delayMean = Some (Num (1 / 600)), packetSizeMean = Some (Num 250),
          rxBitrate = Some 6000, txBitrate = Some 8000, packetLossRatio = Some (Num (1 / 4)), rx_duration = 1,
          flowInterruptionsHistogram = None, fiveTuple = None, probe_stats_unsorted = []\<rparr>"
  by (simp add: Flow_def demo_flow_def duration_def ticks_def bitrate_def per_packet_def find_child_def find_all_def
      conv_def demo_ints demo_floats)

lemma demo_tag: "x_tag (demo_flow i) = ''Flow''"
  by (simp add: demo_flow_def)

lemmas demo_parts = demo_monitor_def find_all_def find_path_def demo_tag demo_flow_read demo_tuple demo_stats

theorem simulation_attaches_witness:
  "\<exists>f. Simulation (demo_monitor [''1'']) = Inr [f] \<and> map packets (probe_stats_unsorted f) = [2] \<and>
     map_option destinationPort (fiveTuple f) = Some 10"
proof -
  obtain f where f: "Flow (demo_flow ''1'') = Inr f" and i: "flowId f = 1" using demo_flow_read by simp
  define cl where "cl = hd (find_all ''Ipv4FlowClassifier'' (demo_monitor [''1'']))"
  have a: "find_all ''Ipv4FlowClassifier'' (demo_monitor [''1'']) = [cl]" by (simp add: cl_def demo_parts)
  have b: "rmap Flow (find_path ''FlowStats'' ''Flow'' (demo_monitor [''1''])) = Inr [f]"
    using f by (simp add: demo_monitor_def find_all_def find_path_def demo_tag)
  obtain t where c: "rmap class_entry (find_all ''Flow'' cl) = Inr [(1, t)]" and t: "destinationPort t = 10"
    by (simp add: cl_def demo_parts)
  obtain s where d: "rmap probe_entries (find_path ''FlowProbes'' ''FlowProbe'' (demo_monitor [''1''])) = Inr [[(1, s)]]"
    and s: "packets s = 2"
    by (simp add: demo_parts)
  show ?thesis
    using simulation_attaches [OF a b c d] i t s by (simp add: attach_def attached_def last_place_def)
qed

section \<open>Times\<close>

lemma long_digits: "py2_long (CHR ''+'' # dec_nat n) = Inr (int n)"
proof -
  have d: "dec_digit c" "\<not> py2_space c" "c \<notin> {CHR ''l'', CHR ''L''}" if "c \<in> set (dec_nat n)" for c
    using dec_nat_digits [OF that] by (auto simp: dec_digit_def py2_space_def)
  have "strip_by py2_space (CHR ''+'' # dec_nat n) = CHR ''+'' # dec_nat n"
    using d by (intro strip_by_none) (auto simp: py2_space_def)
  moreover have "last (dec_nat n) \<notin> {CHR ''l'', CHR ''L''}" by (rule d(3) [OF last_in_set [OF dec_nat_not_Nil]])
  moreover have "list_all dec_digit (dec_nat n)" using d(1) by (auto simp: list_all_iff)
  ultimately show ?thesis
    using dec_nat_value [of n] by (simp add: py2_long_def digits_int_def signed_def dec_value_def Let_def)
qed

lemma dec_nat_step: "10 \<le> n \<Longrightarrow> dec_nat n = dec_nat (n div 10) @ [char_of (48 + n mod 10)]"
  by (subst dec_nat.simps) simp

text \<open>
  A time that is written with one decimal, \<open>+n.0ns\<close>, is read back as \<open>n\<close>.  The two characters in front
  of the unit are dropped whatever they are: a time written as \<open>+nns\<close>, the way \<^verbatim>\<open>time.cc\<close> prints whole
  numbers of nanoseconds, loses its last two digits, and below one hundred it is rejected.
\<close>
theorem time_digits_dropped:
  "parse_time_ns (''+'' @ dec_nat n @ ''.0ns'') = Inr (int n) \<and>
   parse_time_ns (''+'' @ dec_nat n @ ''ns'') = (if 100 \<le> n then Inr (int (n div 100)) else Inl ValueError)"
proof
  have ends: "endswith (t @ ''ns'') ''ns''" for t by (simp add: endswith_def)
  show "parse_time_ns (''+'' @ dec_nat n @ ''.0ns'') = Inr (int n)"
    using ends [of "''+'' @ dec_nat n @ ''.0''"] slice_to_neg [of 4 "''+'' @ dec_nat n @ ''.0ns''"] long_digits
    by (simp add: parse_time_ns_def)
  show "parse_time_ns (''+'' @ dec_nat n @ ''ns'') = (if 100 \<le> n then Inr (int (n div 100)) else Inl ValueError)"
  proof (cases "100 \<le> n")
    case True
    then have "dec_nat n = dec_nat (n div 100) @ [char_of (48 + n div 10 mod 10), char_of (48 + n mod 10)]"
      using dec_nat_step [of n] dec_nat_step [of "n div 10"] by (simp add: div_mult2_eq [symmetric])
    then show ?thesis
      using True ends [of "''+'' @ dec_nat n"] slice_to_neg [of 4 "''+'' @ dec_nat n @ ''ns''"] long_digits
      by (simp add: parse_time_ns_def)
  next
    case False
    then have "length (dec_nat n) \<le> 2"
      using dec_nat_step [of n] by (cases "10 \<le> n") (simp_all add: dec_nat.simps [of "n div 10"] dec_nat.simps [of n])
    then have "slice_to (''+'' @ dec_nat n @ ''ns'') (- 4) \<in> {'''', ''+''}"
      using slice_to_neg [of 4 "''+'' @ dec_nat n @ ''ns''"] by (cases "length (dec_nat n) = 2") auto
    moreover have "py2_long '''' = Inl ValueError" "py2_long ''+'' = Inl ValueError" by (simp_all add: number_defs)
    ultimately show ?thesis using False ends [of "''+'' @ dec_nat n"] by (auto simp: parse_time_ns_def)
  qed
qed

section \<open>The report\<close>

lemma read_sims_inner:
  "1 \<le> level \<Longrightarrow> read_sims level (iterparse el @ evs) sims = read_sims level evs sims"
proof (induction el arbitrary: level evs rule: iterparse.induct)
  case (1 t as x cs)
  have "read_sims (level + 1) (concat (map iterparse cs') @ evs') sims = read_sims (level + 1) evs' sims"
    if "set cs' \<subseteq> set cs" for cs' evs'
    using that 1 by (induction cs') auto
  then show ?case using 1(2) by simp
qed

text \<open>Only the outermost element counts, and only when it is called \<open>FlowMonitor\<close>.\<close>

lemma main_outermost:
  "main el = (if x_tag el = ''FlowMonitor''
     then (case Simulation el of Inl e \<Rightarrow> ([], Some e) | Inr flows \<Rightarrow> report_flows flows) else ([], None))"
proof (cases el)
  case (Elem t as x cs)
  have "read_sims 1 (concat (map iterparse cs') @ evs) sims = read_sims 1 evs sims" for cs' evs sims
    by (induction cs') (simp_all add: read_sims_inner)
  then show ?thesis using Elem by (auto simp: main_def split: sum.splits)
qed

text \<open>A flow whose identifier is used again further down ends the report with \<open>AttributeError\<close>.\<close>

lemma repeated_flow_unreported:
  assumes "k < j" "j < length fs" "flowId (fs ! j) = flowId (fs ! k)" "fiveTuple (fs ! k) = None"
  shows "report_flow (attach fs cs ps ! k) = Inl AttributeError"
proof -
  have "last_place fs (flowId (fs ! k)) \<noteq> Some k" using last_place_last [of fs "flowId (fs ! k)" k j] assms by auto
  then show ?thesis using assms by (simp add: attach_def report_flow_def)
qed

text \<open>The loss ratio is a ratio, and is left out for a flow of which nothing arrived.\<close>

lemma loss_ratio_range:
  assumes "Flow el = Inr f" "conv py2_long el ''rxPackets'' = Inr rx" "0 \<le> rx"
    and "conv py2_float el ''lostPackets'' = Inr (Num lost)" "0 \<le> lost"
  shows "packetLossRatio f = (if rx = 0 then None else Some (Num (lost / (lost + of_int rx)))) \<and>
     (rx \<noteq> 0 \<longrightarrow> 0 \<le> lost / (lost + of_int rx) \<and> lost / (lost + of_int rx) < 1)"
proof
  have "lost + of_int rx \<noteq> 0" if "rx \<noteq> 0"
    using assms(3,5) that by (metis add_nonneg_eq_0_iff of_int_0_le_iff of_int_eq_0_iff)
  then show "packetLossRatio f = (if rx = 0 then None else Some (Num (lost / (lost + of_int rx))))"
    using assms by (auto simp: Flow_def rbind_eq_Inr)
  show "rx \<noteq> 0 \<longrightarrow> 0 \<le> lost / (lost + of_int rx) \<and> lost / (lost + of_int rx) < 1"
    using assms(3,5) by (simp add: divide_less_eq_1)
qed

end
