(* ===== verification/WafMisc.thy ===== *)
theory WafMisc
  imports Launcher "HOL-Library.List_Lexorder" "HOL-Library.Char_ord"
begin

text \<open>
  The build tool \<^verbatim>\<open>waf-tools/misc.py\<close>: copying, substitution of \<open>@name@\<close> in a file, and commands whose
  output is a file of the build.  The node tree of waf is a record of its search functions, its
  configuration set the function \<open>get_flat\<close>, its hash the function \<open>h_list\<close>, and the process the function
  \<open>popen\<close>.  The dictionary of a substitution is one object that all the tasks of a generator share, so
  that it is threaded through them.
\<close>

section \<open>The substitution\<close>

datatype m4_token = Var string | Chr char

text \<open>What \<open>re.compile('@(\\w+)@')\<close> finds from left to right, with the characters in between.\<close>

function m4_re :: "string \<Rightarrow> m4_token list" where
  "m4_re [] = []"
| "m4_re (c # cs) =
     (let w = takeWhile word_char cs; r = dropWhile word_char cs
      in if c = CHR ''@'' \<and> w \<noteq> [] \<and> take 1 r = ''@'' then Var w # m4_re (drop 1 r) else Chr c # m4_re cs)"
  by pat_completeness auto
termination
  by (relation "measure length") (auto simp: less_Suc_eq_le length_dropWhile_le le_diff_conv intro: le_SucI)

declare m4_re.simps [simp del]

fun found :: "m4_token \<Rightarrow> string list" where
  "found (Var w) = [w]"
| "found (Chr c) = []"

definition m4_findall :: "string \<Rightarrow> string list" where
  "m4_findall code = concat (map found (m4_re code))"

fun conversion :: "m4_token \<Rightarrow> string" where
  "conversion (Var w) = ''%('' @ w @ '')s''"
| "conversion (Chr c) = [c]"

text \<open>\<open>m4_re.sub(r'%(\1)s', code)\<close>.\<close>

definition m4_sub :: "string \<Rightarrow> string" where
  "m4_sub code = concat (map conversion (m4_re code))"

text \<open>\<open>s % di\<close> for a dictionary, with the conversions \<open>%%\<close> and \<open>%(name)s\<close>; anything else after \<open>%\<close> is an error
  here, and no text that \<open>subst_func\<close> formats has anything else.\<close>

function percent_dict :: "(string \<times> string) list \<Rightarrow> string \<Rightarrow> string res" where
  "percent_dict di [] = Inr []"
| "percent_dict di (c # cs) =
     (if c \<noteq> CHR ''%'' then rbind (percent_dict di cs) (\<lambda>r. Inr (c # r))
      else if take 1 cs = ''%'' then rbind (percent_dict di (drop 1 cs)) (\<lambda>r. Inr (CHR ''%'' # r))
      else if take 1 cs = ''('' then
        (let name = takeWhile (\<lambda>c. c \<noteq> CHR '')'') (drop 1 cs); rest = dropWhile (\<lambda>c. c \<noteq> CHR '')'') (drop 1 cs)
         in if rest = [] then Inl ValueError
            else (case map_of di name of None \<Rightarrow> Inl KeyError
                  | Some v \<Rightarrow> if take 2 rest = '')s'' then rbind (percent_dict di (drop 2 rest)) (\<lambda>r. Inr (v @ r))
                              else Inl ValueError))
      else Inl ValueError)"
  by pat_completeness auto
termination
  by (relation "measure (\<lambda>(di, s). length s)")
    (auto simp: less_Suc_eq_le le_diff_conv intro: le_trans [OF length_dropWhile_le] le_trans [OF diff_le_self])

declare percent_dict.simps [simp del]

text \<open>\<open>env.get_flat(i) or env.get_flat(i.upper())\<close>.\<close>

definition flat_value :: "(string \<Rightarrow> string) \<Rightarrow> string \<Rightarrow> string" where
  "flat_value get_flat i = (if get_flat i \<noteq> '''' then get_flat i else get_flat (map upper_char i))"

text \<open>What the task writes, and the dictionary afterwards: when it is empty the names of this file are
  put into it, and it is the object that the generator holds.\<close>

definition subst_func :: "(string \<Rightarrow> string) \<Rightarrow> (string \<times> string) list \<Rightarrow> string \<Rightarrow> string res \<times> (string \<times> string) list" where
  "subst_func get_flat di code0 =
     (let code = replace_char (CHR ''%'') ''%%'' code0;
          s = m4_sub code;
          di = (if di = [] then foldl (\<lambda>d i. AList.update i (flat_value get_flat i) d) di (m4_findall code) else di)
      in (percent_dict di s, di))"

text \<open>The substitution tasks of a generator, one after the other.\<close>

fun subst_tasks :: "(string \<Rightarrow> string) \<Rightarrow> (string \<times> string) list \<Rightarrow> string list \<Rightarrow> string res list" where
  "subst_tasks get_flat di [] = []"
| "subst_tasks get_flat di (code # codes) =
     (case subst_func get_flat di code of (r, di) \<Rightarrow> r # subst_tasks get_flat di codes)"

section \<open>Task generators for copies\<close>

record 'n tree =
  find_resource :: "string \<Rightarrow> 'n option"
  find_or_declare :: "string \<Rightarrow> 'n option"
  find_dir :: "string \<Rightarrow> 'n option"
  node_name :: "'n \<Rightarrow> string"
  change_ext :: "'n \<Rightarrow> string \<Rightarrow> 'n"
  abs_path :: "'n \<Rightarrow> string"
  src_path :: "'n \<Rightarrow> string"
  bld_path :: "'n \<Rightarrow> string"

definition cannot_find :: "string \<Rightarrow> py_error" where
  "cannot_find filename = WafError (''cannot find input file '' @ filename @ '' for processing'')"

text \<open>\<open>shutil.copy2\<close> and \<open>os.chmod\<close> are parameters that say whether they raise; an error of \<open>chmod\<close> is not caught.\<close>

definition copy_func :: "('n \<Rightarrow> 'n \<Rightarrow> bool) \<Rightarrow> ('n \<Rightarrow> int \<Rightarrow> bool) \<Rightarrow> 'n list \<Rightarrow> 'n list \<Rightarrow> int \<Rightarrow> int res" where
  "copy_func copy2 chmod inputs outputs mode =
     rbind (py_index inputs 0) (\<lambda>infile.
     rbind (py_index outputs 0) (\<lambda>outfile.
       if \<not> copy2 infile outfile then Inr 1
       else if mode \<noteq> 0 \<and> \<not> chmod outfile mode then Inl OSError
       else Inr 0))"

definition apply_copy :: "'n tree \<Rightarrow> string \<Rightarrow> string list \<Rightarrow> ('n \<times> 'n option) list res" where
  "apply_copy tr target lst =
     rmap (\<lambda>filename. case find_resource tr filename of
        None \<Rightarrow> Inl (cannot_find filename)
      | Some node \<Rightarrow> Inr (node, find_or_declare tr (if target = '''' \<or> 1 < length lst then node_name tr node else target))) lst"

record 'n subst_gen =
  sg_tasks :: "('n \<times> 'n option) list"
  sg_hash :: "string option"

text \<open>The hash of the values, in the order of their names, is recorded once for the generator.\<close>

definition dict_hash :: "(string list \<Rightarrow> string) \<Rightarrow> (string \<times> string) list \<Rightarrow> string option \<Rightarrow> string option" where
  "dict_hash h_list di hash =
     (if di \<noteq> [] \<and> (hash = None \<or> hash = Some '''')
      then Some (h_list (map (\<lambda>k. the (map_of di k)) (sort (keys di)))) else hash)"

fun apply_subst ::
  "(string list \<Rightarrow> string) \<Rightarrow> 'n tree \<Rightarrow> string \<Rightarrow> (string \<times> string) list \<Rightarrow> string list \<Rightarrow> 'n subst_gen \<Rightarrow> 'n subst_gen res" where
  "apply_subst h_list tr target di [] g = Inr g"
| "apply_subst h_list tr target di (filename # rest) g =
     (case find_resource tr filename of
        None \<Rightarrow> Inl (cannot_find filename)
      | Some node \<Rightarrow>
          (let newnode = (if target \<noteq> '''' then find_or_declare tr target else Some (change_ext tr node ''''))
           in apply_subst h_list tr target di rest
                (g\<lparr>sg_hash := dict_hash h_list di (sg_hash g), sg_tasks := sg_tasks g @ [(node, newnode)]\<rparr>)))"

section \<open>Commands with output files\<close>

datatype arg_kind = InputFile | OutputFile | InputDir | OutputDir

record 'n cmd_arg =
  arg_kind :: arg_kind
  arg_name :: string
  arg_template :: string
  arg_node :: "'n option"

text \<open>The messages of \<open>find_node\<close> have one conversion for two values: formatting them raises \<open>TypeError\<close>.\<close>

definition find_node :: "'n tree \<Rightarrow> 'n cmd_arg \<Rightarrow> 'n cmd_arg res" where
  "find_node tr a =
     (case (case arg_kind a of InputFile \<Rightarrow> find_resource tr (arg_name a)
            | OutputFile \<Rightarrow> find_or_declare tr (arg_name a)
            | _ \<Rightarrow> find_dir tr (arg_name a)) of
        None \<Rightarrow> Inl TypeError
      | Some n \<Rightarrow> Inr (a\<lparr>arg_node := Some n\<rparr>))"

definition get_path :: "'n tree \<Rightarrow> bool \<Rightarrow> 'n cmd_arg \<Rightarrow> string launched" where
  "get_path tr absolute a =
     (case arg_node a of None \<Rightarrow> Inl (PyError AttributeError)
      | Some n \<Rightarrow>
          format_s (arg_template a)
            (Some (case arg_kind a of
                     InputFile \<Rightarrow> (if absolute then abs_path tr n else src_path tr n)
                   | OutputFile \<Rightarrow> (if absolute then abs_path tr n else bld_path tr n)
                   | _ \<Rightarrow> abs_path tr n)))"

datatype 'n cmd_word = Word string | Arg "'n cmd_arg"

datatype 'n cmd_name = External string | Program 'n

record 'n command_output =
  co_command :: "'n cmd_name"
  co_dep_nodes :: "'n list"
  co_args :: "'n cmd_word list"
  co_stdin :: "'n option"
  co_stdout :: "'n option"
  co_stderr :: "'n option"
  co_cwd :: "string option"
  co_inputs :: "'n list"
  co_outputs :: "'n list"
  co_run_after :: "nat list"

definition input_path :: "'n tree \<Rightarrow> 'n command_output \<Rightarrow> 'n \<Rightarrow> string" where
  "input_path tr t n = (if co_cwd t = None then bld_path tr n else abs_path tr n)"

fun word_path :: "'n tree \<Rightarrow> bool \<Rightarrow> 'n cmd_word \<Rightarrow> string launched" where
  "word_path tr absolute (Word s) = Inr s"
| "word_path tr absolute (Arg a) = get_path tr absolute a"

fun words_argv :: "'n tree \<Rightarrow> bool \<Rightarrow> 'n cmd_word list \<Rightarrow> string list launched" where
  "words_argv tr absolute [] = Inr []"
| "words_argv tr absolute (w # ws) =
     lbind (word_path tr absolute w) (\<lambda>s. lbind (words_argv tr absolute ws) (\<lambda>r. Inr (s # r)))"

definition command_argv :: "'n tree \<Rightarrow> 'n command_output \<Rightarrow> string list launched" where
  "command_argv tr t =
     lbind (words_argv tr (co_cwd t \<noteq> None) (co_args t)) (\<lambda>ws.
       Inr ((case co_command t of Program n \<Rightarrow> input_path tr t n | External s \<Rightarrow> s) # ws))"

definition opened :: "(string \<Rightarrow> bool) \<Rightarrow> string option \<Rightarrow> string option launched" where
  "opened can_open p = (case p of None \<Rightarrow> Inr None | Some f \<Rightarrow> if can_open f then Inr (Some f) else Inl (PyError OSError))"

text \<open>\<open>popen\<close> gets the argument list, the three files and the directory, and gives the exit status.\<close>

definition run_command_output ::
  "'n tree \<Rightarrow> (string \<Rightarrow> bool) \<Rightarrow> (string list \<Rightarrow> string option \<Rightarrow> string option \<Rightarrow> string option \<Rightarrow> string option \<Rightarrow> int launched) \<Rightarrow>
     'n command_output \<Rightarrow> int launched" where
  "run_command_output tr can_open popen t =
     lbind (command_argv tr t) (\<lambda>argv.
     lbind (opened can_open (map_option (input_path tr t) (co_stdin t))) (\<lambda>i.
     lbind (opened can_open (map_option (input_path tr t) (co_stdout t))) (\<lambda>out.
     lbind (opened can_open (map_option (input_path tr t) (co_stderr t))) (\<lambda>err.
       popen argv i out err (co_cwd t)))))"

section \<open>The generator of a command\<close>

text \<open>A generator; the others it depends on are given by their number and the numbers of their tasks.\<close>

record 'n generator =
  g_number :: nat
  g_command :: "string option"
  g_external :: bool
  g_argv :: "'n cmd_word list"
  g_stdin :: "string option"
  g_stdout :: "string option"
  g_stderr :: "string option"
  g_hidden_inputs :: "string list"
  g_hidden_outputs :: "string list"
  g_no_inputs :: bool
  g_no_outputs :: bool
  g_cwd :: "'n cmd_arg option"
  g_dependencies :: "(nat \<times> nat list) list"

definition file_not_found :: "string \<Rightarrow> py_error" where
  "file_not_found s = WafError (''File '' @ s @ '' not found'')"

definition file_not_found_in :: "string \<Rightarrow> string \<Rightarrow> py_error" where
  "file_not_found_in dir s = WafError (''File '' @ s @ '' not found in dir '' @ dir)"

definition lookup_node :: "(string \<Rightarrow> 'n option) \<Rightarrow> (string \<Rightarrow> py_error) \<Rightarrow> string \<Rightarrow> 'n res" where
  "lookup_node f err s = (case f s of None \<Rightarrow> Inl (err s) | Some n \<Rightarrow> Inr n)"

definition lookup_opt :: "(string \<Rightarrow> 'n option) \<Rightarrow> string option \<Rightarrow> 'n option res" where
  "lookup_opt f s = (case s of None \<Rightarrow> Inr None | Some s \<Rightarrow> rbind (lookup_node f file_not_found s) (\<lambda>n. Inr (Some n)))"

fun find_word :: "'n tree \<Rightarrow> 'n cmd_word \<Rightarrow> 'n cmd_word res" where
  "find_word tr (Word s) = Inr (Word s)"
| "find_word tr (Arg a) = rbind (find_node tr a) (\<lambda>a. Inr (Arg a))"

fun word_nodes :: "arg_kind \<Rightarrow> 'n cmd_word \<Rightarrow> 'n list" where
  "word_nodes k (Word s) = []"
| "word_nodes k (Arg a) = (if arg_kind a = k then (case arg_node a of None \<Rightarrow> [] | Some n \<Rightarrow> [n]) else [])"

definition opt_list :: "'a option \<Rightarrow> 'a list" where
  "opt_list x = (case x of None \<Rightarrow> [] | Some y \<Rightarrow> [y])"

text \<open>The order of execution that \<open>dependencies\<close> asks for.\<close>

definition run_after :: "nat \<Rightarrow> (nat \<times> nat list) list \<Rightarrow> nat list res" where
  "run_after self deps = rbind (rmap (\<lambda>(g, ts). if g = self then Inl AssertionError else Inr ts) deps) (\<lambda>tss. Inr (concat tss))"

text \<open>
  The checks of the inputs and outputs, and the task.  With no input file the methods of the task are
  replaced by \<open>type(Task.TaskBase.run)(runnable_status, task, task.__class__)\<close>; in Python 3 that is the
  constructor of functions, which takes a code object, and the call raises \<open>TypeError\<close>.  The directory is
  always that of the variant, whatever \<open>cwd\<close> of the generator says.
\<close>

definition make_task ::
  "string \<Rightarrow> 'n generator \<Rightarrow> 'n cmd_name \<Rightarrow> 'n list \<Rightarrow> 'n cmd_word list \<Rightarrow> 'n option \<Rightarrow> 'n option \<Rightarrow> 'n option \<Rightarrow>
     'n list \<Rightarrow> 'n list \<Rightarrow> 'n command_output res" where
  "make_task variant_dir g cmd dep_nodes args inp out err inputs outputs =
     (if inputs = [] \<and> \<not> g_no_inputs g
      then Inl (WafError ''command-output objects must have at least one input file or give self.no_inputs'')
      else if outputs = [] \<and> \<not> g_no_outputs g
      then Inl (WafError ''command-output objects must have at least one output file or give self.no_outputs'')
      else rbind (run_after (g_number g) (g_dependencies g)) (\<lambda>after.
        if inputs = [] then Inl TypeError
        else Inr \<lparr>co_command = cmd, co_dep_nodes = dep_nodes, co_args = args, co_stdin = inp, co_stdout = out,
                  co_stderr = err, co_cwd = Some variant_dir, co_inputs = inputs, co_outputs = outputs,
                  co_run_after = after\<rparr>))"

definition apply_cmd_output :: "'n tree \<Rightarrow> string \<Rightarrow> string \<Rightarrow> 'n generator \<Rightarrow> 'n command_output res" where
  "apply_cmd_output tr dir variant_dir g =
     rbind (case g_command g of None \<Rightarrow> Inl (WafError ''command-output missing command'') | Some c \<Rightarrow> Inr c) (\<lambda>command.
     rbind (if g_external g then Inr (External command, [])
            else (case find_resource tr command of None \<Rightarrow> Inl AssertionError | Some n \<Rightarrow> Inr (Program n, [n]))) (\<lambda>cmd.
     rbind (rmap (find_word tr) (g_argv g)) (\<lambda>args.
     rbind (lookup_opt (find_or_declare tr) (g_stdout g)) (\<lambda>out.
     rbind (lookup_opt (find_or_declare tr) (g_stderr g)) (\<lambda>err.
     rbind (lookup_opt (find_resource tr) (g_stdin g)) (\<lambda>inp.
     rbind (rmap (lookup_node (find_resource tr) (file_not_found_in dir)) (g_hidden_inputs g)) (\<lambda>hi.
     rbind (rmap (lookup_node (find_or_declare tr) (file_not_found_in dir)) (g_hidden_outputs g)) (\<lambda>ho.
       make_task variant_dir g (fst cmd) (snd cmd) args inp out err
         (concat (map (word_nodes InputFile) args) @ opt_list inp @ hi)
         (concat (map (word_nodes OutputFile) args) @ opt_list out @ opt_list err @ ho)))))))))"

section \<open>What the substitution writes\<close>

text \<open>The file with every \<open>@name@\<close> replaced by its value.\<close>

fun token_value :: "(string \<Rightarrow> string option) \<Rightarrow> m4_token \<Rightarrow> string res" where
  "token_value look (Var w) = (case look w of None \<Rightarrow> Inl KeyError | Some v \<Rightarrow> Inr v)"
| "token_value look (Chr c) = Inr [c]"

definition replace_vars :: "(string \<Rightarrow> string option) \<Rightarrow> string \<Rightarrow> string res" where
  "replace_vars look code = rbind (rmap (token_value look) (m4_re code)) (\<lambda>ts. Inr (concat ts))"

abbreviation escaped :: "string \<Rightarrow> string" where
  "escaped \<equiv> replace_char (CHR ''%'') ''%%''"

fun escaped_token :: "m4_token \<Rightarrow> m4_token list" where
  "escaped_token (Var w) = [Var w]"
| "escaped_token (Chr c) = (if c = CHR ''%'' then [Chr c, Chr c] else [Chr c])"

lemma escaped_simps [simp]:
  "escaped [] = []" "escaped (c # cs) = (if c = CHR ''%'' then ''%%'' else [c]) @ escaped cs"
  by (simp_all add: replace_char_def)

lemma not_word_char [simp]: "\<not> word_char (CHR ''%'')" "\<not> word_char (CHR ''@'')" "\<not> word_char (CHR '')'')"
  by (simp_all add: word_char_def)

lemma escaped_word: "takeWhile word_char (escaped s) = takeWhile word_char s" "dropWhile word_char (escaped s) = escaped (dropWhile word_char s)"
  by (induction s) auto

lemma escaped_first: "take 1 (escaped s) = ''@'' \<longleftrightarrow> take 1 s = ''@''" "take 1 s = ''@'' \<Longrightarrow> drop 1 (escaped s) = escaped (drop 1 s)"
  by (cases s; simp)+

lemma m4_re_plain: "c \<noteq> CHR ''@'' \<Longrightarrow> m4_re (c # cs) = Chr c # m4_re cs"
  by (simp add: m4_re.simps)

lemma m4_re_escaped: "m4_re (escaped s) = concat (map escaped_token (m4_re s))"
proof (induction s rule: m4_re.induct)
  case (2 c cs)
  define w where "w = takeWhile word_char cs"
  define r where "r = dropWhile word_char cs"
  show ?case
  proof (cases "c = CHR ''@'' \<and> w \<noteq> [] \<and> take 1 r = ''@''")
    case True
    then show ?thesis
      using 2(1) [OF w_def r_def True] escaped_first [of r] escaped_word [of cs]
      by (simp add: m4_re.simps w_def [symmetric] r_def [symmetric])
  next
    case False
    have IH: "m4_re (escaped cs) = concat (map escaped_token (m4_re cs))" by (rule 2(2) [OF w_def r_def False])
    show ?thesis
    proof (cases "c = CHR ''@''")
      case True
      then show ?thesis
        using False IH escaped_first(1) [of r] escaped_word [of cs]
        by (auto simp: m4_re.simps(2) [of "CHR ''@''"] Let_def w_def [symmetric] r_def [symmetric])
    qed (use IH in \<open>simp add: m4_re_plain\<close>)
  qed
qed (simp add: m4_re.simps)

lemma m4_re_words: "Var w \<in> set (m4_re s) \<Longrightarrow> list_all word_char w"
proof (induction s rule: m4_re.induct)
  case (2 c cs)
  define u where "u = takeWhile word_char cs"
  define r where "r = dropWhile word_char cs"
  have u: "list_all word_char u" by (auto simp: u_def list_all_iff dest: set_takeWhileD)
  have "m4_re (c # cs) = (if c = CHR ''@'' \<and> u \<noteq> [] \<and> take 1 r = ''@'' then Var u # m4_re (drop 1 r) else Chr c # m4_re cs)"
    unfolding u_def r_def m4_re.simps(2) Let_def by (rule refl)
  then show ?case using 2(1) [OF u_def r_def] 2(2) [OF u_def r_def] 2(3) u by (auto split: if_splits)
qed (simp add: m4_re.simps)

lemma findall_escaped: "m4_findall (escaped s) = m4_findall s"
proof -
  have "concat (map found (escaped_token t)) = found t" for t by (cases t) auto
  then have "concat (map found (concat (map escaped_token ts))) = concat (map found ts)" for ts by (induction ts) simp_all
  then show ?thesis by (simp add: m4_findall_def m4_re_escaped)
qed

lemma format_name:
  assumes "list_all word_char w"
  shows "percent_dict di (''%('' @ w @ '')s'' @ s) =
     (case map_of di w of None \<Rightarrow> Inl KeyError | Some v \<Rightarrow> rbind (percent_dict di s) (\<lambda>r. Inr (v @ r)))"
proof -
  have "c \<noteq> CHR '')''" if "c \<in> set w" for c using assms that by (auto simp: list_all_iff)
  then have "takeWhile (\<lambda>c. c \<noteq> CHR '')'') (w @ '')s'' @ s) = w" "dropWhile (\<lambda>c. c \<noteq> CHR '')'') (w @ '')s'' @ s) = '')s'' @ s"
    by (simp_all add: takeWhile_append2 dropWhile_append2)
  then show ?thesis by (simp add: percent_dict.simps Let_def numeral_2_eq_2 split: option.split)
qed

lemma format_tokens:
  assumes "\<And>w. Var w \<in> set ts \<Longrightarrow> list_all word_char w"
  shows "percent_dict di (concat (map conversion (concat (map escaped_token ts)))) =
     rbind (rmap (token_value (map_of di)) ts) (\<lambda>rs. Inr (concat rs))"
  using assms
proof (induction ts)
  case (Cons t ts)
  then have IH: "percent_dict di (concat (map conversion (concat (map escaped_token ts)))) =
     rbind (rmap (token_value (map_of di)) ts) (\<lambda>rs. Inr (concat rs))" by simp
  show ?case
  proof (cases t)
    case (Var w)
    then show ?thesis using Cons.prems [of w] IH format_name [of w di]
      by (simp add: rbind_assoc split: option.split)
  next
    case (Chr c)
    then show ?thesis using IH by (simp add: percent_dict.simps rbind_assoc)
  qed
qed (simp add: percent_dict.simps)

lemma percent_replaces: "percent_dict di (m4_sub (escaped code)) = replace_vars (map_of di) code"
  unfolding m4_sub_def m4_re_escaped replace_vars_def by (rule format_tokens) (rule m4_re_words)

lemma map_of_fold_update:
  "map_of (foldl (\<lambda>d i. AList.update i (f i) d) d ns) = (\<lambda>w. if w \<in> set ns then Some (f w) else map_of d w)"
  by (induction ns arbitrary: d) (auto simp: fun_eq_iff)

lemma fold_update_Nil: "foldl (\<lambda>d i. AList.update i (f i) d) d ns = [] \<longleftrightarrow> d = [] \<and> ns = []"
proof (induction ns arbitrary: d)
  case (Cons n ns)
  have "AList.update n (f n) d \<noteq> []" by (cases d) (auto split: if_splits)
  then show ?case using Cons by simp
qed simp

definition env_vars_of :: "(string \<Rightarrow> string) \<Rightarrow> string \<Rightarrow> string \<Rightarrow> string option" where
  "env_vars_of get_flat code w = (if w \<in> set (m4_findall code) then Some (flat_value get_flat w) else None)"

lemma subst_func_dict: "di \<noteq> [] \<Longrightarrow> subst_func get_flat di code = (replace_vars (map_of di) code, di)"
  by (simp add: subst_func_def percent_replaces Let_def)

lemma subst_func_env:
  "\<exists>di. subst_func get_flat [] code = (replace_vars (env_vars_of get_flat code) code, di) \<and>
     map_of di = env_vars_of get_flat code \<and> (di = [] \<longleftrightarrow> m4_findall code = [])"
proof -
  define d where "d = foldl (\<lambda>d i. AList.update i (flat_value get_flat i) d) [] (m4_findall code)"
  have "map_of d = env_vars_of get_flat code" by (simp add: d_def map_of_fold_update env_vars_of_def fun_eq_iff)
  moreover have "subst_func get_flat [] code = (replace_vars (map_of d) code, d)"
    by (simp add: subst_func_def percent_replaces Let_def findall_escaped d_def)
  moreover have "d = [] \<longleftrightarrow> m4_findall code = []" by (simp add: d_def fold_update_Nil)
  ultimately show ?thesis by auto
qed

lemma subst_tasks_dict: "di \<noteq> [] \<Longrightarrow> subst_tasks get_flat di codes = map (replace_vars (map_of di)) codes"
  by (induction codes) (simp_all add: subst_func_dict)

lemma found_name: "w \<in> set (m4_findall code) \<longleftrightarrow> Var w \<in> set (m4_re code)"
proof -
  have "w \<in> set (found t) \<longleftrightarrow> t = Var w" for t by (cases t) auto
  then show ?thesis by (auto simp: m4_findall_def)
qed

lemma replace_vars_defined:
  "(\<exists>r. replace_vars look code = Inr r) \<longleftrightarrow> (\<forall>w \<in> set (m4_findall code). look w \<noteq> None)"
proof -
  have t: "(\<exists>r. token_value look t = Inr r) \<longleftrightarrow> (\<forall>w. t = Var w \<longrightarrow> look w \<noteq> None)" for t
    by (cases t) (auto split: option.splits)
  have "(\<exists>rs. rmap (token_value look) ts = Inr rs) \<longleftrightarrow> (\<forall>t \<in> set ts. \<exists>r. token_value look t = Inr r)" for ts
    by (induction ts) (auto simp: rbind_eq_Inr)
  then show ?thesis by (auto simp: replace_vars_def rbind_eq_Inr t found_name)
qed

text \<open>
  The substitution of several files.  With a dictionary every file is written with each \<open>@name@\<close>
  replaced by its value and every other character as it is, percent signs included.  Without one the
  files up to the first that has a name are written from the environment; all later ones are written
  from the names of that file, because the tasks share the dictionary it filled, and \<open>KeyError\<close> is
  raised for every file with a name that it has not.
\<close>
theorem shared_substitution:
  assumes "\<forall>c \<in> set plain. m4_findall c = []" "m4_findall code \<noteq> []"
  shows "(di \<noteq> [] \<longrightarrow> subst_tasks get_flat di codes = map (replace_vars (map_of di)) codes) \<and>
     subst_tasks get_flat [] (plain @ code # codes) =
       map (replace_vars (env_vars_of get_flat code)) (plain @ code # codes)"
proof
  show "di \<noteq> [] \<longrightarrow> subst_tasks get_flat di codes = map (replace_vars (map_of di)) codes" by (simp add: subst_tasks_dict)
  have plain: "replace_vars look c = replace_vars look' c" if "m4_findall c = []" for look look' c
  proof -
    have "rmap (token_value look) (m4_re c) = rmap (token_value look') (m4_re c)"
    proof (rule rmap_cong)
      fix t assume "t \<in> set (m4_re c)"
      moreover have "Var w \<notin> set (m4_re c)" for w using that found_name [of w c] by simp
      ultimately obtain x where "t = Chr x" by (metis m4_token.exhaust)
      then show "token_value look t = token_value look' t" by simp
    qed simp
    then show ?thesis by (simp add: replace_vars_def)
  qed
  obtain d where d: "subst_func get_flat [] code = (replace_vars (env_vars_of get_flat code) code, d)"
    "map_of d = env_vars_of get_flat code" "d \<noteq> []"
    using subst_func_env [of get_flat code] assms(2) by auto
  show "subst_tasks get_flat [] (plain @ code # codes) = map (replace_vars (env_vars_of get_flat code)) (plain @ code # codes)"
    using assms(1)
  proof (induction plain)
    case Nil
    then show ?case using d by (simp add: subst_tasks_dict)
  next
    case (Cons c cs)
    then have "subst_func get_flat [] c = (replace_vars (env_vars_of get_flat code) c, [])"
      using subst_func_env [of get_flat c] plain [of c] by auto
    then show ?case using Cons by simp
  qed
qed

theorem shared_substitution_witness:
  "subst_tasks (\<lambda>i. ''v'') [] [''100%'', ''@a@'', ''@b@''] = [Inr ''100%'', Inr ''v'', Inl KeyError]"
proof -
  have "subst_tasks (\<lambda>i. ''v'') [] ([''100%''] @ ''@a@'' # [''@b@'']) =
     map (replace_vars (env_vars_of (\<lambda>i. ''v'') ''@a@'')) ([''100%''] @ ''@a@'' # [''@b@''])"
    by (rule conjunct2 [OF shared_substitution]) (simp_all add: m4_findall_def m4_re.simps word_char_def)
  also have "\<dots> = [Inr ''100%'', Inr ''v'', Inl KeyError]"
    by (simp add: replace_vars_def env_vars_of_def flat_value_def m4_findall_def m4_re.simps word_char_def)
  finally show ?thesis by simp
qed

section \<open>What a command gets\<close>

lemma find_node_abs: "find_node tr a = Inr b \<Longrightarrow> \<exists>n. b = a\<lparr>arg_node := Some n\<rparr>"
  by (auto simp: find_node_def split: option.splits arg_kind.splits)

lemma make_task_fields:
  "make_task variant_dir g cmd dep_nodes args inp out err inputs outputs = Inr t \<Longrightarrow>
     co_cwd t = Some variant_dir \<and> co_args t = args \<and> co_inputs t = inputs \<and> inputs \<noteq> []"
  by (auto simp: make_task_def rbind_eq_Inr split: if_splits)

lemma apply_cmd_output_task:
  assumes "apply_cmd_output tr dir variant_dir g = Inr t"
  shows "co_cwd t = Some variant_dir \<and> rmap (find_word tr) (g_argv g) = Inr (co_args t)"
  using assms unfolding apply_cmd_output_def rbind_eq_Inr by (auto dest!: make_task_fields)

text \<open>Without input files no task is made, also where \<open>no_inputs\<close> allows it.\<close>

lemma no_inputs_rejected:
  assumes "g_argv g = []" "g_stdin g = None" "g_hidden_inputs g = []"
  shows "apply_cmd_output tr dir variant_dir g \<noteq> Inr t"
  unfolding apply_cmd_output_def rbind_eq_Inr using assms
  by (auto simp: lookup_opt_def opt_list_def dest!: make_task_fields)

text \<open>A missing argument is reported by \<open>TypeError\<close>, from the message.\<close>

lemma missing_argument:
  assumes "g_command g = Some c" "g_external g" "g_argv g = Arg a # ws" "find_node tr a = Inl e"
  shows "apply_cmd_output tr dir variant_dir g = Inl TypeError"
proof -
  have "e = TypeError" using assms(4) by (auto simp: find_node_def split: option.splits)
  then show ?thesis using assms by (simp add: apply_cmd_output_def)
qed

fun absolute_word :: "'n tree \<Rightarrow> 'n cmd_word \<Rightarrow> string" where
  "absolute_word tr (Word s) = s"
| "absolute_word tr (Arg a) = abs_path tr (the (arg_node a))"

text \<open>
  A task that has been made runs in the directory of the variant with absolute paths: \<open>cwd\<close> of the
  generator has no effect.
\<close>

lemma command_absolute:
  assumes "apply_cmd_output tr dir variant_dir g = Inr t"
    and "\<And>a. Arg a \<in> set (g_argv g) \<Longrightarrow> arg_template a = ''%s''"
  shows "\<exists>first. command_argv tr t = Inr (first # map (absolute_word tr) (co_args t)) \<and> co_cwd t = Some variant_dir"
proof -
  have "words_argv tr True bs = Inr (map (absolute_word tr) bs)"
    if "rmap (find_word tr) ws = Inr bs" "\<And>a. Arg a \<in> set ws \<Longrightarrow> arg_template a = ''%s''" for ws bs
    using that
  proof (induction ws arbitrary: bs)
    case (Cons w ws)
    then obtain b bs' where b: "find_word tr w = Inr b" "bs = b # bs'" "rmap (find_word tr) ws = Inr bs'"
      by (auto simp: rbind_eq_Inr)
    have "word_path tr True b = Inr (absolute_word tr b)"
    proof (cases w)
      case (Arg a)
      then have "arg_template a = ''%s''" using Cons.prems(2) by simp
      then show ?thesis using Arg b(1) find_node_abs
        by (auto simp: rbind_eq_Inr get_path_def split: arg_kind.splits dest!: find_node_abs)
    qed (use b(1) in auto)
    then show ?case using b Cons by simp
  qed simp
  then show ?thesis
    using apply_cmd_output_task [OF assms(1)] assms(2) by (auto simp: command_argv_def)
qed

end
