(* ===== verification/ModuleScan.thy ===== *)
theory ModuleScan
  imports Topsort BindingScan "HOL-Library.List_Lexorder" "HOL-Library.Char_ord"
begin

text \<open>
  The scanner of all modules at once, \<^verbatim>\<open>bindings/python/ns3modulescan.py\<close>: the path of a header, the hook,
  the sections that the modules get in the order that \<open>topsort\<close> finds, and the classifier that assigns
  declarations to sections.  The loop over the components of a path may run for ever and is a partial
  function.  The script was written for Python 2; where it behaves differently under Python 3 the version
  is a parameter.  The scan itself, which pybindgen does with these sections, is not part of the
  model.  Declarations and annotations are those of \<open>BindingScan\<close>.
\<close>

section \<open>Paths of headers\<close>

partial_function (option) header_loop :: "string \<Rightarrow> string list \<Rightarrow> string res option" where
  "header_loop head l =
     (if head = '''' then Some (Inl AssertionError)
      else
        (case path_split head of (head, tail) \<Rightarrow>
           if tail = ''ns3'' then Some (case l of [] \<Rightarrow> Inl TypeError | x # xs \<Rightarrow> Inr (foldl path_join x xs))
           else header_loop head (tail # l)))"

definition header_path :: "string \<Rightarrow> string res option" where
  "header_path path = header_loop path []"

section \<open>The hook\<close>

datatype hook_error = PyHook py_error | RuntimeError

text \<open>In Python 3 the loop over \<open>annotations.items()\<close> raises \<open>RuntimeError\<close> after an entry has been deleted.\<close>

definition table_function :: "bool \<Rightarrow> cpp_decl \<Rightarrow> scan \<Rightarrow> (hook_error + unit) \<times> scan" where
  "table_function py3 d s =
     (case map_of (type_annotations s) (decl_text d) of
        None \<Rightarrow> (Inr (), s)
      | Some a \<Rightarrow>
          (case params_annotation a of
             None \<Rightarrow> (Inr (), s\<lparr>global_annotations := update_all (global_annotations s) (plain_annotations a)\<rparr>)
           | Some ps \<Rightarrow>
               (let s = s\<lparr>parameter_annotations := update_all (parameter_annotations s) ps,
                          type_annotations := AList.update (decl_text d) (a\<lparr>params_annotation := None\<rparr>) (type_annotations s)\<rparr>
                in if py3 then (Inl RuntimeError, s)
                   else (Inr (), s\<lparr>global_annotations := update_all (global_annotations s) (plain_annotations a)\<rparr>))))"

definition table_class :: "cpp_decl \<Rightarrow> scan \<Rightarrow> scan" where
  "table_class d s =
     (if startswith (decl_string d) ''::ns3::SimpleRefCount<'' then
        annotate ''automatic_type_narrowing'' (AText ''true'') (annotate ''peekref_method'' (AText ''GetReferenceCount'')
          (annotate ''decref_method'' (AText ''Unref'') (annotate ''incref_method'' (AText ''Ref'') s)))
      else if startswith (decl_string d) ''::ns3::Callback<'' \<or> startswith (decl_string d) ''::ns3::TracedCallback<'' \<or>
              startswith (decl_string d) ''::ns3::Ptr<'' then annotate ''ignore'' ANone s
      else
        (case map_of (type_annotations s) (decl_string d) of
           None \<Rightarrow> s
         | Some a \<Rightarrow> s\<lparr>global_annotations := update_all (global_annotations s) (plain_annotations a)\<rparr>))"

text \<open>\<open>None\<close> when the path of the header is not found in finite time.\<close>

definition pre_scan_hook :: "bool \<Rightarrow> cpp_decl \<Rightarrow> scan \<Rightarrow> ((hook_error + unit) \<times> scan) option" where
  "pre_scan_hook py3 d s =
     (case header_path (location_file d) of
        None \<Rightarrow> None
      | Some (Inl e) \<Rightarrow> Some (Inl (PyHook e), s)
      | Some (Inr h) \<Rightarrow>
          (let s = annotate ''pygen_comment'' (AText (h @ '': '' @ decl_text d)) s;
               s = (if decl_kind_of d = MemberFunction then annotate_method d s else s);
               s = (if decl_kind_of d \<in> {MemberFunction, Constructor, FreeFunction, OtherCallable}
                    then s\<lparr>default_values := map fix_default (default_values s)\<rparr> else s)
           in Some (if decl_kind_of d = ClassDecl then (Inr (), table_class d s)
                    else if decl_kind_of d = FreeFunction \<and> decl_name d = ''PeekPointer'' then (Inr (), annotate ''ignore'' ANone s)
                    else if decl_kind_of d \<in> {FreeFunction, MemberFunction, Constructor} then table_function py3 d s
                    else (Inr (), s))))"

section \<open>Sections\<close>

datatype scan_error = SortError "string topsort_error" | PyScan py_error

text \<open>What is read from standard input: for every module its dependencies and its headers.\<close>

type_synonym modules = "(string \<times> string list \<times> string list) list"

definition deps_of :: "modules \<Rightarrow> string \<Rightarrow> string list" where
  "deps_of mods m = (case map_of mods m of None \<Rightarrow> [] | Some (ds, hs) \<Rightarrow> ds)"

definition headers_of :: "modules \<Rightarrow> string \<Rightarrow> string list" where
  "headers_of mods m = (case map_of mods m of None \<Rightarrow> [] | Some (ds, hs) \<Rightarrow> hs)"

definition module_graph :: "modules \<Rightarrow> (string \<times> string) list" where
  "module_graph mods = concat (map (\<lambda>m. map (\<lambda>dep. (dep, m)) (sort (deps_of mods m))) (sort (keys mods)))"

definition section_name :: "string \<Rightarrow> string" where
  "section_name m = ''ns3_module_'' @ replace_char (CHR ''-'') ''_'' m"

record section_plan =
  plan_sections :: "string list"
  headers_map :: "(string \<times> string) list"
  section_precedences :: "(string \<times> nat) list"

text \<open>The file of a section is opened before the entry of the module is looked up.\<close>

definition open_sink :: "(string \<Rightarrow> bool) \<Rightarrow> string \<Rightarrow> unit res" where
  "open_sink opens file_name = (if opens file_name then Inr () else Inl OSError)"

definition section_file :: "string \<Rightarrow> string \<Rightarrow> string" where
  "section_file pygen m = path_join (fst (path_split pygen)) (section_name m @ ''.py'')"

definition add_section ::
  "(string \<Rightarrow> bool) \<Rightarrow> string \<Rightarrow> modules \<Rightarrow> nat \<Rightarrow> string \<Rightarrow> section_plan \<Rightarrow> section_plan res" where
  "add_section opens pygen mods prec m p =
     rbind (open_sink opens (section_file pygen m))
       (\<lambda>_. case map_of mods m of
          None \<Rightarrow> Inl KeyError
        | Some (ds, hs) \<Rightarrow>
            Inr (p\<lparr>plan_sections := plan_sections p @ [section_name m],
                   headers_map := foldl (\<lambda>d h. AList.update h (section_name m) d) (headers_map p) hs,
                   section_precedences := AList.update (section_name m) prec (section_precedences p)\<rparr>))"

fun add_sections ::
  "(string \<Rightarrow> bool) \<Rightarrow> string \<Rightarrow> modules \<Rightarrow> nat \<Rightarrow> string list \<Rightarrow> section_plan \<Rightarrow> section_plan res" where
  "add_sections opens pygen mods prec [] p = Inr p"
| "add_sections opens pygen mods prec (m # ms) p =
     rbind (add_section opens pygen mods prec m p) (add_sections opens pygen mods (prec + 1) ms)"

definition first_plan :: section_plan where
  "first_plan = \<lparr>plan_sections = [''__main__''], headers_map = [], section_precedences = []\<rparr>"

text \<open>
  The first part of \<open>ns3_module_scan\<close>, up to the sections that are handed to pybindgen.  In Python 3
  \<open>module_names.sort()\<close> finds no such method.  \<open>opens\<close> says which files can be opened for writing.\<close>

definition ns3_module_sections ::
  "bool \<Rightarrow> (string list \<Rightarrow> string list) \<Rightarrow> (string \<Rightarrow> bool) \<Rightarrow> string \<Rightarrow> modules \<Rightarrow> scan_error + section_plan" where
  "ns3_module_sections py3 ko opens pygen mods =
     (if py3 then Inl (PyScan AttributeError)
      else (case topsort ko (module_graph mods) of
              Inl e \<Rightarrow> Inl (SortError e)
            | Inr ms \<Rightarrow>
                (case rbind (open_sink opens pygen) (\<lambda>_. add_sections opens pygen mods 0 ms first_plan) of
                   Inl e \<Rightarrow> Inl (PyScan e)
                 | Inr p \<Rightarrow> Inr p)))"

definition classify :: "section_plan \<Rightarrow> string \<Rightarrow> string" where
  "classify p file_name = (case map_of (headers_map p) (basename file_name) of None \<Rightarrow> ''__main__'' | Some s \<Rightarrow> s)"

definition get_section_precedence :: "section_plan \<Rightarrow> string \<Rightarrow> int res" where
  "get_section_precedence p s =
     (if s = ''__main__'' then Inr (- 1)
      else (case map_of (section_precedences p) s of None \<Rightarrow> Inl KeyError | Some n \<Rightarrow> Inr (int n)))"

section \<open>Paths that are never left\<close>

lemma split_fixed: "fst (path_split h) = h \<Longrightarrow> snd (path_split h) = ''''"
proof -
  assume h: "fst (path_split h) = h"
  define tl where "tl = takeWhile (\<lambda>c. c \<noteq> CHR ''/'') (rev h)"
  define hd where "hd = take (length h - length tl) h"
  have "fst (path_split h) = (if list_ex (\<lambda>c. c \<noteq> CHR ''/'') hd then rev (dropWhile (\<lambda>c. c = CHR ''/'') (rev hd)) else hd)"
    and snd: "snd (path_split h) = rev tl"
    by (simp_all add: path_split_def Let_def tl_def hd_def)
  then have "length h \<le> length hd"
    using h length_dropWhile_le [of "\<lambda>c. c = CHR ''/''" "rev hd"] by (cases "list_ex (\<lambda>c. c \<noteq> CHR ''/'') hd") simp_all
  moreover have "length tl \<le> length h" using length_takeWhile_le [of _ "rev h"] by (simp add: tl_def)
  ultimately have "length tl = 0" unfolding hd_def by (simp del: length_0_conv)
  then show ?thesis using snd by simp
qed

lemma fixed_head_loops: "h \<noteq> '''' \<Longrightarrow> fst (path_split h) = h \<Longrightarrow> header_loop h l = None"
proof -
  have "header_loop h l = Some r \<Longrightarrow> \<not> (h \<noteq> '''' \<and> fst (path_split h) = h)" for r
  proof (induction rule: header_loop.raw_induct [where P = "\<lambda>h l r. \<not> (h \<noteq> '''' \<and> fst (path_split h) = h)", rotated 1, consumes 1, case_names step])
    case (step f h l r)
    show ?case
    proof
      assume h: "h \<noteq> '''' \<and> fst (path_split h) = h"
      then have "path_split h = (h, '''')" using split_fixed [of h] by (metis prod.collapse)
      then have "f h ('''' # l) = Some r" using step(2) h by (simp split: prod.splits)
      then show False using step(1) h by blast
    qed
  qed
  then show "h \<noteq> '''' \<Longrightarrow> fst (path_split h) = h \<Longrightarrow> header_loop h l = None" by (cases "header_loop h l") blast+
qed

text \<open>
  The search for the component \<open>ns3\<close> agrees with the one of the modular scanner, which stops
  with \<open>ValueError\<close> when \<open>os.path.split\<close> returns its argument: in exactly these cases, the absolute paths
  without such a component, it never returns.
\<close>
theorem header_loop_returns:
  "header_loop head l = (if relative_loop head l = Inl ValueError then None else Some (relative_loop head l))"
proof (induction head l rule: relative_loop.induct)
  case (1 head l)
  obtain h t where ht: "path_split head = (h, t)" by (cases "path_split head")
  consider (empty) "head = ''''" | (fixed) "head \<noteq> ''''" "h = head" | (below) "head \<noteq> ''''" "h \<noteq> head" by blast
  then show ?case
  proof cases
    case empty
    then show ?thesis by (simp add: relative_loop.simps header_loop.simps)
  next
    case fixed
    then have "relative_loop head l = Inl ValueError" using ht by (simp add: relative_loop.simps [of head])
    then show ?thesis using fixed_head_loops [of head l] fixed ht by simp
  next
    case below
    show ?thesis
    proof (cases "t = ''ns3''")
      case True
      then show ?thesis using below ht
        by (simp add: relative_loop.simps [of head] header_loop.simps [of head] split: list.split)
    next
      case False
      have "header_loop head l = header_loop h (t # l)" "relative_loop head l = relative_loop h (t # l)"
        using below ht False by (simp_all add: relative_loop.simps [of head] header_loop.simps [of head])
      then show ?thesis using 1 [OF below(1) ht [symmetric] below(2) False] by simp
    qed
  qed
qed

text \<open>A header outside of \<open>ns3\<close>, given by an absolute path, stops the scan for ever.\<close>

lemma system_header_loops: "header_path ''/usr/include/math.h'' = None"
proof -
  have "relative_loop ''/usr/include/math.h'' [] = Inl ValueError"
    by (simp add: relative_loop.simps path_split_def Let_def)
  then show ?thesis by (simp add: header_path_def header_loop_returns)
qed

section \<open>The order of the sections\<close>

lemma graph_edges: "set (module_graph mods) = {(d, m). m \<in> set (keys mods) \<and> d \<in> set (deps_of mods m)}"
  by (force simp: module_graph_def)

lemma no_module_no_deps: "d \<in> set (deps_of mods m) \<Longrightarrow> m \<in> set (keys mods)"
  using map_of_Some_key [of mods m] by (cases "map_of mods m") (simp_all add: deps_of_def)

lemma graph_nodes: "(\<And>m. set (deps_of mods m) \<subseteq> set (keys mods)) \<Longrightarrow> nodes (module_graph mods) \<subseteq> set (keys mods)"
proof
  fix x
  assume known: "\<And>m. set (deps_of mods m) \<subseteq> set (keys mods)" and x: "x \<in> nodes (module_graph mods)"
  from x obtain d m where "(d, m) \<in> set (module_graph mods)" "x = d \<or> x = m" unfolding nodes_def by force
  then have "m \<in> set (keys mods)" "d \<in> set (deps_of mods m)" "x = d \<or> x = m" unfolding graph_edges by simp_all
  then show "x \<in> set (keys mods)" using known [of m] by blast
qed

lemma section_not_main: "section_name m \<noteq> ''__main__''"
  by (simp add: section_name_def)

lemma add_section_ok:
  "m \<in> set (keys mods) \<Longrightarrow> opens (section_file pygen m) \<Longrightarrow> \<exists>p'. add_section opens pygen mods k m p = Inr p' \<and>
     section_precedences p' = AList.update (section_name m) k (section_precedences p) \<and>
     headers_map p' = foldl (\<lambda>d h. AList.update h (section_name m) d) (headers_map p) (headers_of mods m)"
proof -
  assume o: "opens (section_file pygen m)" and "m \<in> set (keys mods)"
  then obtain ds hs where "map_of mods m = Some (ds, hs)" by (metis map_of_eq_None_iff not_None_eq prod.exhaust set_map)
  then show ?thesis using o by (simp add: add_section_def open_sink_def headers_of_def)
qed

lemma map_of_headers:
  "map_of (foldl (\<lambda>d h. AList.update h s d) d hs) = (\<lambda>h. if h \<in> set hs then Some s else map_of d h)"
  by (induction hs arbitrary: d) (auto simp: fun_eq_iff)

text \<open>What the loop over the sorted modules leaves: the last module with a section name gives the
  precedence, the last one that lists a header gets it.\<close>

lemma add_sections_spec:
  "set ms \<subseteq> set (keys mods) \<Longrightarrow> (\<And>m. m \<in> set ms \<Longrightarrow> opens (section_file pygen m)) \<Longrightarrow>
     \<exists>p'. add_sections opens pygen mods k ms p = Inr p' \<and>
       (\<forall>s. s \<notin> section_name ` set ms \<longrightarrow> map_of (section_precedences p') s = map_of (section_precedences p) s) \<and>
       (inj_on section_name (set ms) \<longrightarrow> distinct ms \<longrightarrow>
          (\<forall>i < length ms. map_of (section_precedences p') (section_name (ms ! i)) = Some (k + i))) \<and>
       (\<forall>h. (\<forall>m \<in> set ms. h \<notin> set (headers_of mods m)) \<longrightarrow> map_of (headers_map p') h = map_of (headers_map p) h) \<and>
       (\<forall>h. (\<exists>m \<in> set ms. h \<in> set (headers_of mods m)) \<longrightarrow>
          (\<exists>m \<in> set ms. h \<in> set (headers_of mods m) \<and> map_of (headers_map p') h = Some (section_name m)))"
proof (induction ms arbitrary: k p)
  case (Cons m ms)
  then obtain q where q: "add_section opens pygen mods k m p = Inr q"
    "section_precedences q = AList.update (section_name m) k (section_precedences p)"
    "headers_map q = foldl (\<lambda>d h. AList.update h (section_name m) d) (headers_map p) (headers_of mods m)"
    using add_section_ok [of m mods opens pygen k p] by auto
  from Cons.IH [of "k + 1" q] Cons.prems obtain p' where
    run: "add_sections opens pygen mods (k + 1) ms q = Inr p'"
    and other: "\<And>s. s \<notin> section_name ` set ms \<Longrightarrow> map_of (section_precedences p') s = map_of (section_precedences q) s"
    and prec: "inj_on section_name (set ms) \<Longrightarrow> distinct ms \<Longrightarrow> i < length ms \<Longrightarrow>
          map_of (section_precedences p') (section_name (ms ! i)) = Some (k + 1 + i)"
    and unlisted: "\<And>h. (\<forall>m \<in> set ms. h \<notin> set (headers_of mods m)) \<Longrightarrow> map_of (headers_map p') h = map_of (headers_map q) h"
    and listed: "\<And>h. (\<exists>m \<in> set ms. h \<in> set (headers_of mods m)) \<Longrightarrow>
          (\<exists>m \<in> set ms. h \<in> set (headers_of mods m) \<and> map_of (headers_map p') h = Some (section_name m))" for i
    by (simp only: insert_subset list.set) blast
  have "add_sections opens pygen mods k (m # ms) p = Inr p'" using q run by simp
  moreover have "map_of (section_precedences p') s = map_of (section_precedences p) s" if "s \<notin> section_name ` set (m # ms)" for s
    using that other [of s] q(2) by simp
  moreover have "map_of (section_precedences p') (section_name ((m # ms) ! i)) = Some (k + i)"
    if "inj_on section_name (set (m # ms))" "distinct (m # ms)" "i < length (m # ms)" for i
  proof (cases i)
    case 0
    have "section_name m \<notin> section_name ` set ms" using that(1,2) by (auto simp: inj_on_def)
    then show ?thesis using other [of "section_name m"] q(2) 0 by simp
  next
    case (Suc j)
    then show ?thesis using that prec [of j] by simp
  qed
  moreover have "map_of (headers_map p') h = map_of (headers_map p) h" if "\<forall>m' \<in> set (m # ms). h \<notin> set (headers_of mods m')" for h
    using that unlisted [of h] q(3) by (simp add: map_of_headers)
  moreover have "\<exists>m' \<in> set (m # ms). h \<in> set (headers_of mods m') \<and> map_of (headers_map p') h = Some (section_name m')"
    if "\<exists>m' \<in> set (m # ms). h \<in> set (headers_of mods m')" for h
  proof (cases "\<exists>m' \<in> set ms. h \<in> set (headers_of mods m')")
    case True
    then show ?thesis using listed [of h] by (meson list.set_intros(2))
  next
    case False
    then have "h \<in> set (headers_of mods m)" "map_of (headers_map p') h = Some (section_name m)"
      using that unlisted [of h] q(3) by (auto simp: map_of_headers)
    then show ?thesis by (meson list.set_intros(1))
  qed
  ultimately show ?case by blast
qed simp

text \<open>
  The sections are in the order of the dependencies; a header is classified into the section of a module
  that lists it and takes part in a dependency, and into the main section when there is no such module.\<close>

definition sound_plan :: "modules \<Rightarrow> section_plan \<Rightarrow> bool" where
  "sound_plan mods p \<longleftrightarrow>
     (\<forall>m d. d \<in> set (deps_of mods m) \<longrightarrow>
        (\<exists>i j. get_section_precedence p (section_name d) = Inr i \<and> get_section_precedence p (section_name m) = Inr j \<and> i < j)) \<and>
     (\<forall>h dir. CHR ''/'' \<notin> set h \<longrightarrow>
        (if \<exists>m \<in> nodes (module_graph mods). h \<in> set (headers_of mods m)
         then \<exists>m \<in> nodes (module_graph mods). h \<in> set (headers_of mods m) \<and> classify p (path_join dir h) = section_name m
         else classify p (path_join dir h) = ''__main__''))"


definition demo_modules :: modules where
  "demo_modules = [(''core'', [], [''object.h'']), (''internet'', [''core'', ''network''], [''ipv4.h'']), (''network'', [''core''], [''node.h''])]"

lemma demo_deps: "d \<in> set (deps_of demo_modules m) \<Longrightarrow>
    d = ''core'' \<and> (m = ''internet'' \<or> m = ''network'') \<or> d = ''network'' \<and> m = ''internet''"
  by (auto simp: demo_modules_def deps_of_def split: if_splits)


end
