(* ===== verification/VizWifi.thy ===== *)
theory VizWifi
  imports Complex_Main PyLib Transition
begin

text \<open>
  The plugin \<^verbatim>\<open>wifi_intrastructure_link.py\<close> of the visualizer: a link on the canvas from every wireless
  station to the access point it is associated with.  Links are objects, known by their place in the
  list of all links ever made; \<open>w_at n\<close> are the wireless links in the list \<open>links\<close> of node \<open>n\<close>.  What the
  devices answer is the argument of an update.  An exception ends a handler, and the changes it has made
  remain.
\<close>

section \<open>Links\<close>

record wifi_link =
  w_node1 :: "nat option"
  w_dev :: nat
  w_node2 :: "nat option"
  w_visible :: bool
  w_points :: "((rat \<times> rat) \<times> (rat \<times> rat)) option"

record wifi =
  w_links :: "wifi_link list"
  w_at :: "nat \<Rightarrow> nat list"
  w_pos :: "nat \<Rightarrow> rat \<times> rat"
  access_points :: "string \<rightharpoonup> nat"
  stations :: "(nat \<times> nat \<times> nat) list"

definition on_link :: "nat \<Rightarrow> (wifi_link \<Rightarrow> wifi_link) \<Rightarrow> wifi \<Rightarrow> wifi" where
  "on_link l f s = s\<lparr>w_links := (w_links s)[l := f (w_links s ! l)]\<rparr>"

definition add_link :: "nat \<Rightarrow> nat \<Rightarrow> wifi \<Rightarrow> wifi" where
  "add_link n l s = s\<lparr>w_at := (w_at s)(n := w_at s n @ [l])\<rparr>"

definition remove_link :: "nat \<Rightarrow> nat \<Rightarrow> wifi \<Rightarrow> wifi res" where
  "remove_link n l s = (if l \<in> set (w_at s n) then Inr (s\<lparr>w_at := (w_at s)(n := remove1 l (w_at s n))\<rparr>) else Inl ValueError)"

definition update_link_points :: "nat \<Rightarrow> wifi \<Rightarrow> wifi res" where
  "update_link_points l s =
     (case w_node2 (w_links s ! l) of
        None \<Rightarrow> Inr s
      | Some n2 \<Rightarrow>
          (case w_node1 (w_links s ! l) of
             None \<Rightarrow> Inl AttributeError
           | Some n1 \<Rightarrow> Inr (on_link l (w_points_update (\<lambda>_. Some (w_pos s n1, w_pos s n2))) s)))"

definition set_ap :: "nat \<Rightarrow> nat option \<Rightarrow> wifi \<Rightarrow> wifi res" where
  "set_ap l ap s =
     (if ap = w_node2 (w_links s ! l) then Inr s
      else
        rbind (case w_node2 (w_links s ! l) of None \<Rightarrow> Inr s | Some n \<Rightarrow> remove_link n l s) (\<lambda>s.
        update_link_points l
          (let s = on_link l (w_node2_update (\<lambda>_. ap)) s
           in case ap of
                None \<Rightarrow> on_link l (w_visible_update (\<lambda>_. False)) s
              | Some n \<Rightarrow> on_link l (w_visible_update (\<lambda>_. True)) (add_link n l s))))"

text \<open>The constructor; its call of \<open>set_ap(None)\<close> finds \<open>node2\<close> to be \<open>None\<close> and returns.\<close>

definition WifiLink :: "nat \<Rightarrow> nat \<Rightarrow> wifi \<Rightarrow> (nat \<times> wifi) res" where
  "WifiLink sta dev s =
     (let l = length (w_links s);
          s = s\<lparr>w_links := w_links s @ [\<lparr>w_node1 = Some sta, w_dev = dev, w_node2 = None, w_visible = True, w_points = None\<rparr>]\<rparr>
      in rbind (set_ap l None s) (\<lambda>s. Inr (l, s)))"

definition destroy :: "nat \<Rightarrow> wifi \<Rightarrow> wifi" where
  "destroy l s = on_link l (\<lambda>k. k\<lparr>w_node1 := None, w_node2 := None, w_visible := False\<rparr>) s"

section \<open>The monitor\<close>

text \<open>A device of a node: one that is not wireless, a station, or an access point with its address.\<close>

datatype wifi_dev = OtherDev | StaDev nat | ApDev string

definition no_bssid :: string where
  "no_bssid = ''00:00:00:00:00:00''"

fun scan_wifi_device :: "nat \<Rightarrow> wifi_dev \<Rightarrow> wifi \<Rightarrow> wifi res" where
  "scan_wifi_device node OtherDev s = Inr s"
| "scan_wifi_device node (StaDev dev) s =
     rbind (WifiLink node dev s) (\<lambda>(l, s). Inr (s\<lparr>stations := stations s @ [(dev, node, l)]\<rparr>))"
| "scan_wifi_device node (ApDev bssid) s = Inr (s\<lparr>access_points := (access_points s)(bssid \<mapsto> node)\<rparr>)"

fun scan_wifi_devices :: "(nat \<times> wifi_dev) list \<Rightarrow> wifi \<Rightarrow> wifi res" where
  "scan_wifi_devices [] s = Inr s"
| "scan_wifi_devices ((node, d) # ds) s = rbind (scan_wifi_device node d s) (scan_wifi_devices ds)"

text \<open>The devices of all nodes, in the order of the nodes.\<close>

definition scan_wifi_nodes :: "(nat \<times> wifi_dev list) list \<Rightarrow> wifi \<Rightarrow> wifi res" where
  "scan_wifi_nodes nodes s =
     (let s = foldl (\<lambda>s (dev, node, l). destroy l s) s (stations s)
      in scan_wifi_devices (concat (map (\<lambda>(n, ds). map (Pair n) ds) nodes)) (s\<lparr>access_points := Map.empty, stations := []\<rparr>))"

text \<open>Where a station belongs: \<open>Inl\<close> for an address that no access point of the scan has.\<close>

definition association :: "wifi \<Rightarrow> (nat \<Rightarrow> bool \<times> string) \<Rightarrow> nat \<Rightarrow> nat option res" where
  "association s status dev =
     (case status dev of (up, bssid) \<Rightarrow>
        if \<not> up \<or> bssid = no_bssid then Inr None
        else (case access_points s bssid of None \<Rightarrow> Inl KeyError | Some ap \<Rightarrow> Inr (Some ap)))"

fun update_stations :: "(nat \<Rightarrow> bool \<times> string) \<Rightarrow> (nat \<times> nat \<times> nat) list \<Rightarrow> wifi \<Rightarrow> unit res \<times> wifi" where
  "update_stations status [] s = (Inr (), s)"
| "update_stations status ((dev, node, l) # rest) s =
     (case rbind (association s status dev) (\<lambda>ap. set_ap l ap s) of
        Inl e \<Rightarrow> (Inl e, s)
      | Inr s \<Rightarrow> update_stations status rest s)"

definition wifi_periodic_update :: "(nat \<Rightarrow> bool \<times> string) \<Rightarrow> wifi \<Rightarrow> unit res \<times> wifi" where
  "wifi_periodic_update status s = update_stations status (stations s) s"

fun redraw_links :: "nat list \<Rightarrow> wifi \<Rightarrow> wifi res" where
  "redraw_links [] s = Inr s"
| "redraw_links (l # ls) s = rbind (update_link_points l s) (redraw_links ls)"

definition update_wifi_view :: "wifi \<Rightarrow> wifi res" where
  "update_wifi_view s = redraw_links (map (\<lambda>(dev, node, l). l) (stations s)) s"

text \<open>\<open>Node.set_position\<close>, as far as the links of the node are concerned.\<close>

definition move_node :: "nat \<Rightarrow> rat \<times> rat \<Rightarrow> wifi \<Rightarrow> wifi res" where
  "move_node n p s = (let s = s\<lparr>w_pos := (w_pos s)(n := p)\<rparr> in redraw_links (w_at s n) s)"

datatype wifi_event =
    TopologyScanned "(nat \<times> wifi_dev list) list"
  | PeriodicUpdate "nat \<Rightarrow> bool \<times> string"
  | UpdateView
  | Move nat "rat \<times> rat"

definition or_same :: "wifi \<Rightarrow> wifi res \<Rightarrow> wifi" where
  "or_same s r = (case r of Inl e \<Rightarrow> s | Inr t \<Rightarrow> t)"

fun wifi_step :: "wifi_event \<Rightarrow> wifi \<Rightarrow> wifi option" where
  "wifi_step (TopologyScanned nodes) s = Some (or_same s (scan_wifi_nodes nodes s))"
| "wifi_step (PeriodicUpdate status) s = Some (snd (wifi_periodic_update status s))"
| "wifi_step UpdateView s = Some (or_same s (update_wifi_view s))"
| "wifi_step (Move n p) s = Some (or_same s (move_node n p s))"

definition no_wifi :: wifi where
  "no_wifi = \<lparr>w_links = [], w_at = (\<lambda>_. []), w_pos = (\<lambda>_. (0, 0)), access_points = Map.empty, stations = []\<rparr>"

section \<open>The invariant\<close>

text \<open>A link that leads to an access point is listed there once, is visible and has a station; what a
  node lists leads to it or has been destroyed; the links of the stations are different and alive.\<close>

definition link_at :: "wifi \<Rightarrow> nat \<Rightarrow> bool" where
  "link_at s l \<longleftrightarrow>
     (\<forall>n. w_node2 (w_links s ! l) = Some n \<longrightarrow>
        l \<in> set (w_at s n) \<and> w_visible (w_links s ! l) \<and> w_node1 (w_links s ! l) \<noteq> None)"

definition listed_at :: "wifi \<Rightarrow> nat \<Rightarrow> bool" where
  "listed_at s n \<longleftrightarrow>
     distinct (w_at s n) \<and>
     (\<forall>l \<in> set (w_at s n). l < length (w_links s) \<and> (w_node2 (w_links s ! l) = Some n \<or> w_node1 (w_links s ! l) = None))"

definition station_ok :: "wifi \<Rightarrow> nat \<times> nat \<times> nat \<Rightarrow> bool" where
  "station_ok s t \<longleftrightarrow> (case t of (dev, node, l) \<Rightarrow> l < length (w_links s) \<and> w_node1 (w_links s ! l) = Some node)"

definition wifi_inv :: "wifi \<Rightarrow> bool" where
  "wifi_inv s \<longleftrightarrow>
     (\<forall>l < length (w_links s). link_at s l) \<and> (\<forall>n. listed_at s n) \<and>
     (\<forall>t \<in> set (stations s). station_ok s t) \<and> distinct (map (\<lambda>(dev, node, l). l) (stations s))"

lemma set_ap_result:
  assumes inv: "link_at s l" "w_node1 (w_links s ! l) \<noteq> None" and l: "l < length (w_links s)"
  obtains s' where "set_ap l ap s = Inr s'" "w_pos s' = w_pos s" "access_points s' = access_points s" "stations s' = stations s"
    "length (w_links s') = length (w_links s)" "\<And>k. k \<noteq> l \<Longrightarrow> w_links s' ! k = w_links s ! k"
    "w_node1 (w_links s' ! l) = w_node1 (w_links s ! l)" "w_node2 (w_links s' ! l) = ap"
    "ap \<noteq> None \<Longrightarrow> w_visible (w_links s' ! l)"
    "\<And>n. w_at s' n = (if ap = w_node2 (w_links s ! l) then w_at s n
       else (if w_node2 (w_links s ! l) = Some n then remove1 l (w_at s n) else w_at s n) @ (if ap = Some n then [l] else []))"
proof (cases "ap = w_node2 (w_links s ! l)")
  case True
  show thesis by (rule that [of s]) (use True inv(1) in \<open>auto simp: set_ap_def link_at_def\<close>)
next
  case False
  define old where "old = w_node2 (w_links s ! l)"
  define at' where "at' = (case old of None \<Rightarrow> w_at s | Some n \<Rightarrow> (w_at s)(n := remove1 l (w_at s n)))"
  have removed: "(case old of None \<Rightarrow> Inr s | Some n \<Rightarrow> remove_link n l s) = Inr (s\<lparr>w_at := at'\<rparr>)"
    using inv(1) by (auto simp: remove_link_def link_at_def old_def at'_def split: option.splits)
  obtain n1 where n1: "w_node1 (w_links s ! l) = Some n1" using inv(2) by blast
  note defs = set_ap_def old_def [symmetric] removed on_link_def add_link_def update_link_points_def Let_def
  show thesis
  proof (cases ap)
    case None
    show thesis
      by (rule that [of "on_link l (w_visible_update (\<lambda>_. False)) (on_link l (w_node2_update (\<lambda>_. ap)) (s\<lparr>w_at := at'\<rparr>))"])
        (use None False l in \<open>auto simp: defs at'_def split: option.splits\<close>)
  next
    case (Some n)
    define t where "t = on_link l (w_visible_update (\<lambda>_. True)) (add_link n l (on_link l (w_node2_update (\<lambda>_. ap)) (s\<lparr>w_at := at'\<rparr>)))"
    have t: "set_ap l ap s = update_link_points l t" using Some False by (simp add: set_ap_def old_def [symmetric] removed t_def)
    have links: "w_links t = (w_links s)[l := (w_links s ! l)\<lparr>w_node2 := ap, w_visible := True\<rparr>]" and pos: "w_pos t = w_pos s"
      and at: "w_at t = at'(n := at' n @ [l])" and rest: "access_points t = access_points s" "stations t = stations s"
      using l by (simp_all add: t_def on_link_def add_link_def)
    have u: "update_link_points l t = Inr (on_link l (w_points_update (\<lambda>_. Some (w_pos s n1, w_pos s n))) t)"
      using l n1 Some pos by (simp add: update_link_points_def links)
    show thesis
      by (rule that [OF t [unfolded u]])
        (use Some False l in \<open>auto simp: on_link_def links pos at rest at'_def old_def split: option.splits\<close>)
  qed
qed

lemma set_ap_inv:
  assumes "wifi_inv s" "station_ok s (dev, node, l)"
  obtains s' where "set_ap l ap s = Inr s'" "wifi_inv s'" "stations s' = stations s" "access_points s' = access_points s" "w_pos s' = w_pos s"
    "\<And>k. k \<noteq> l \<Longrightarrow> w_links s' ! k = w_links s ! k" "w_node2 (w_links s' ! l) = ap"
    "\<And>t. station_ok s t \<Longrightarrow> station_ok s' t"
proof -
  have l: "l < length (w_links s)" and n1: "w_node1 (w_links s ! l) = Some node" using assms(2) by (simp_all add: station_ok_def)
  have at_l: "link_at s l" using assms(1) l by (simp add: wifi_inv_def)
  from set_ap_result [OF at_l _ l, of ap] n1 obtain s' where s': "set_ap l ap s = Inr s'" "w_pos s' = w_pos s"
    "access_points s' = access_points s" "stations s' = stations s" "length (w_links s') = length (w_links s)"
    and other: "\<And>k. k \<noteq> l \<Longrightarrow> w_links s' ! k = w_links s ! k"
    and own: "w_node1 (w_links s' ! l) = Some node" "w_node2 (w_links s' ! l) = ap" "ap \<noteq> None \<Longrightarrow> w_visible (w_links s' ! l)"
    and at: "\<And>n. w_at s' n = (if ap = w_node2 (w_links s ! l) then w_at s n
       else (if w_node2 (w_links s ! l) = Some n then remove1 l (w_at s n) else w_at s n) @ (if ap = Some n then [l] else []))"
    by (metis option.distinct(1))
  have listed: "listed_at s n" for n using assms(1) by (simp add: wifi_inv_def)
  have elsewhere: "l \<notin> set (w_at s n)" if "w_node2 (w_links s ! l) \<noteq> Some n" for n
    using listed [of n] that n1 by (auto simp: listed_at_def)
  have keep: "station_ok s' t" if "station_ok s t" for t
    using that s'(5) other own(1) n1 by (cases t) (metis (no_types, lifting) case_prod_conv station_ok_def)
  have "link_at s' k" if k: "k < length (w_links s')" for k
  proof (cases "k = l")
    case True
    show ?thesis unfolding link_at_def
    proof (intro allI impI)
      fix n
      assume "w_node2 (w_links s' ! k) = Some n"
      then have n: "ap = Some n" using own(2) True by simp
      have "l \<in> set (w_at s' n)" using at_l n by (auto simp: at link_at_def)
      then show "k \<in> set (w_at s' n) \<and> w_visible (w_links s' ! k) \<and> w_node1 (w_links s' ! k) \<noteq> None"
        using True own n by simp
    qed
  next
    case False
    have "link_at s k" using assms(1) k s'(5) by (simp add: wifi_inv_def)
    then show ?thesis using other [OF False] False by (auto simp: link_at_def at)
  qed
  moreover have "listed_at s' n" for n
    unfolding listed_at_def
  proof
    show "distinct (w_at s' n)"
      using listed [of n] elsewhere [of n] by (auto simp: at listed_at_def distinct_remove1)
    show "\<forall>k \<in> set (w_at s' n). k < length (w_links s') \<and> (w_node2 (w_links s' ! k) = Some n \<or> w_node1 (w_links s' ! k) = None)"
    proof
      fix k
      assume k: "k \<in> set (w_at s' n)"
      show "k < length (w_links s') \<and> (w_node2 (w_links s' ! k) = Some n \<or> w_node1 (w_links s' ! k) = None)"
      proof (cases "k = l")
        case True
        then have "ap = Some n"
          using k elsewhere [of n] listed [of n] by (auto simp: at listed_at_def split: if_splits)
        then show ?thesis using True own(2) l s'(5) by simp
      next
        case False
        then have "k \<in> set (w_at s n)" using k by (auto simp: at dest: notin_set_remove1 split: if_splits)
        then show ?thesis using listed [of n] other [OF False] s'(5) by (simp add: listed_at_def)
      qed
    qed
  qed
  ultimately have inv': "wifi_inv s'" using assms(1) s'(4) keep by (auto simp: wifi_inv_def)
  show thesis by (rule that [OF s'(1) inv' s'(4) s'(3) s'(2) other own(2) keep])
qed

lemma update_points_inv:
  assumes "wifi_inv s" "l < length (w_links s)"
  obtains s' where "update_link_points l s = Inr s'" "wifi_inv s'" "stations s' = stations s" "w_pos s' = w_pos s" "w_at s' = w_at s"
    "length (w_links s') = length (w_links s)"
    "\<And>k. w_node1 (w_links s' ! k) = w_node1 (w_links s ! k) \<and> w_node2 (w_links s' ! k) = w_node2 (w_links s ! k)"
    "\<And>k. w_visible (w_links s' ! k) = w_visible (w_links s ! k)"
    "\<And>k. k \<noteq> l \<Longrightarrow> w_points (w_links s' ! k) = w_points (w_links s ! k)"
    "\<And>n1 n2. w_node1 (w_links s ! l) = Some n1 \<Longrightarrow> w_node2 (w_links s ! l) = Some n2 \<Longrightarrow>
        w_points (w_links s' ! l) = Some (w_pos s n1, w_pos s n2)"
proof (cases "w_node2 (w_links s ! l)")
  case None
  then show thesis using assms(1) by (intro that [of s]) (simp_all add: update_link_points_def)
next
  case (Some n2)
  have "link_at s l" using assms by (simp add: wifi_inv_def)
  then obtain n1 where n1: "w_node1 (w_links s ! l) = Some n1" using Some by (auto simp: link_at_def)
  define t where "t = on_link l (w_points_update (\<lambda>_. Some (w_pos s n1, w_pos s n2))) s"
  have res: "update_link_points l s = Inr t" using Some n1 by (simp add: update_link_points_def t_def)
  have same: "w_node1 (w_links t ! k) = w_node1 (w_links s ! k) \<and> w_node2 (w_links t ! k) = w_node2 (w_links s ! k)"
    "w_visible (w_links t ! k) = w_visible (w_links s ! k)" for k
    using assms(2) by (cases "k = l"; simp add: t_def on_link_def)+
  have rest: "w_at t = w_at s" "stations t = stations s" "w_pos t = w_pos s" "length (w_links t) = length (w_links s)"
    by (simp_all add: t_def on_link_def)
  have "wifi_inv t" using assms(1) by (simp add: wifi_inv_def link_at_def listed_at_def station_ok_def same rest)
  then show thesis using assms(2) Some n1 by (intro that [OF res _ _ _ _ _ same(1) same(2)]) (simp_all add: rest, simp_all add: t_def on_link_def)
qed

text \<open>A node whose links are redrawn: those among them that lead somewhere end up at the current places.\<close>

definition drawn :: "wifi \<Rightarrow> nat \<Rightarrow> bool" where
  "drawn s l \<longleftrightarrow>
     (\<forall>n1 n2. w_node1 (w_links s ! l) = Some n1 \<longrightarrow> w_node2 (w_links s ! l) = Some n2 \<longrightarrow>
        w_points (w_links s ! l) = Some (w_pos s n1, w_pos s n2))"

lemma redraw_links_inv:
  "wifi_inv s \<Longrightarrow> set ls \<subseteq> {..<length (w_links s)} \<Longrightarrow>
     \<exists>s'. redraw_links ls s = Inr s' \<and> wifi_inv s' \<and> stations s' = stations s \<and>
       (\<forall>k. k \<in> set ls \<or> drawn s k \<longrightarrow> drawn s' k)"
proof (induction ls arbitrary: s)
  case (Cons l ls)
  then have l: "l < length (w_links s)" by simp
  from update_points_inv [OF Cons.prems(1) l] obtain t where t: "update_link_points l s = Inr t" "wifi_inv t" "stations t = stations s"
    "w_pos t = w_pos s" "length (w_links t) = length (w_links s)"
    and same: "\<And>k. w_node1 (w_links t ! k) = w_node1 (w_links s ! k) \<and> w_node2 (w_links t ! k) = w_node2 (w_links s ! k)"
    and other: "\<And>k. k \<noteq> l \<Longrightarrow> w_points (w_links t ! k) = w_points (w_links s ! k)"
    and own: "\<And>n1 n2. w_node1 (w_links s ! l) = Some n1 \<Longrightarrow> w_node2 (w_links s ! l) = Some n2 \<Longrightarrow>
        w_points (w_links t ! l) = Some (w_pos s n1, w_pos s n2)" by metis
  have dl: "drawn t l" using same own t(4) by (simp add: drawn_def)
  have dk: "drawn t k" if "drawn s k" for k
    using that same [of k] other [of k] dl t(4) by (cases "k = l") (simp_all add: drawn_def)
  from Cons.IH [OF t(2)] Cons.prems(2) t(5) obtain s' where "redraw_links ls t = Inr s'" "wifi_inv s'" "stations s' = stations t"
    "\<forall>k. k \<in> set ls \<or> drawn t k \<longrightarrow> drawn s' k" by auto
  then show ?case using t(1,3) dl dk by auto
qed simp

lemma update_view_ok:
  assumes "wifi_inv s"
  shows "\<exists>s'. update_wifi_view s = Inr s' \<and> wifi_inv s' \<and> stations s' = stations s \<and> (\<forall>(dev, node, l) \<in> set (stations s'). drawn s' l)"
proof -
  have "set (map (\<lambda>(dev, node, l). l) (stations s)) \<subseteq> {..<length (w_links s)}"
    using assms by (auto simp: wifi_inv_def station_ok_def)
  from redraw_links_inv [OF assms this] show ?thesis by (fastforce simp: update_wifi_view_def)
qed

lemma move_node_ok:
  assumes "wifi_inv s"
  shows "\<exists>s'. move_node n p s = Inr s' \<and> wifi_inv s'"
proof -
  let ?s = "s\<lparr>w_pos := (w_pos s)(n := p)\<rparr>"
  have "wifi_inv ?s" using assms by (simp add: wifi_inv_def link_at_def listed_at_def station_ok_def)
  moreover have "set (w_at ?s n) \<subseteq> {..<length (w_links ?s)}" using assms by (auto simp: wifi_inv_def listed_at_def)
  ultimately show ?thesis using redraw_links_inv [of ?s "w_at ?s n"] by (simp add: move_node_def Let_def) blast
qed

lemma destroy_inv:
  assumes "\<forall>l < length (w_links s). link_at s l" "\<forall>n. listed_at s n" "l < length (w_links s)"
  shows "(\<forall>k < length (w_links (destroy l s)). link_at (destroy l s) k) \<and> (\<forall>n. listed_at (destroy l s) n)"
proof -
  have nth: "w_links (destroy l s) ! k = (if k = l then (w_links s ! l)\<lparr>w_node1 := None, w_node2 := None, w_visible := False\<rparr> else w_links s ! k)" for k
    using assms(3) by (simp add: destroy_def on_link_def)
  have "w_at (destroy l s) = w_at s" "length (w_links (destroy l s)) = length (w_links s)" by (simp_all add: destroy_def on_link_def)
  then show ?thesis using assms by (auto simp: link_at_def listed_at_def nth)
qed

lemma destroy_all_inv:
  assumes "\<forall>l < length (w_links s). link_at s l" "\<forall>n. listed_at s n" "\<forall>(dev, node, l) \<in> set ts. l < length (w_links s)"
  shows "(\<forall>k < length (w_links (foldl (\<lambda>s (dev, node, l). destroy l s) s ts)). link_at (foldl (\<lambda>s (dev, node, l). destroy l s) s ts) k) \<and>
     (\<forall>n. listed_at (foldl (\<lambda>s (dev, node, l). destroy l s) s ts) n)"
  using assms
proof (induction ts arbitrary: s)
  case (Cons t ts)
  obtain dev node l where t: "t = (dev, node, l)" by (cases t)
  have "length (w_links (destroy l s)) = length (w_links s)" by (simp add: destroy_def on_link_def)
  then show ?case using Cons.IH [of "destroy l s"] destroy_inv [OF Cons.prems(1,2), of l] Cons.prems(3) t by simp
qed simp

lemma new_link_inv:
  assumes "wifi_inv s"
  shows "\<exists>s'. scan_wifi_device node d s = Inr s' \<and> wifi_inv s'"
proof (cases d)
  case (StaDev dev)
  define l where "l = length (w_links s)"
  define s' where "s' = s\<lparr>w_links := w_links s @ [\<lparr>w_node1 = Some node, w_dev = dev, w_node2 = None, w_visible = True, w_points = None\<rparr>],
     stations := stations s @ [(dev, node, l)]\<rparr>"
  have "scan_wifi_device node d s = Inr s'" by (simp add: StaDev WifiLink_def set_ap_def s'_def l_def)
  moreover have "wifi_inv s'"
    using assms by (auto simp: wifi_inv_def s'_def l_def link_at_def listed_at_def station_ok_def nth_append less_Suc_eq)
  ultimately show ?thesis by blast
qed (use assms in \<open>simp_all add: wifi_inv_def link_at_def listed_at_def station_ok_def\<close>)

lemma scan_wifi_devices_inv: "wifi_inv s \<Longrightarrow> \<exists>s'. scan_wifi_devices ds s = Inr s' \<and> wifi_inv s'"
proof (induction ds arbitrary: s)
  case (Cons x ds)
  obtain node d where x: "x = (node, d)" by (cases x)
  from new_link_inv [OF Cons.prems, of node d] obtain t where "scan_wifi_device node d s = Inr t" "wifi_inv t" by blast
  then show ?case using Cons.IH [of t] x by simp
qed simp

lemma scan_wifi_nodes_ok:
  assumes "wifi_inv s"
  shows "\<exists>s'. scan_wifi_nodes nodes s = Inr s' \<and> wifi_inv s'"
proof -
  define t where "t = foldl (\<lambda>s (dev, node, l). destroy l s) s (stations s)"
  have "\<forall>(dev, node, l) \<in> set (stations s). l < length (w_links s)" using assms by (auto simp: wifi_inv_def station_ok_def)
  with assms have "(\<forall>k < length (w_links t). link_at t k) \<and> (\<forall>n. listed_at t n)"
    unfolding t_def by (intro destroy_all_inv) (simp_all add: wifi_inv_def)
  then have "wifi_inv (t\<lparr>access_points := Map.empty, stations := []\<rparr>)" by (simp add: wifi_inv_def link_at_def listed_at_def)
  then show ?thesis using scan_wifi_devices_inv by (simp add: scan_wifi_nodes_def Let_def t_def)
qed

text \<open>Whether the update of the stations reaches its end, and where it leaves their links.\<close>

lemma update_stations_spec:
  "wifi_inv s \<Longrightarrow> set ts \<subseteq> set (stations s) \<Longrightarrow> distinct (map (\<lambda>(dev, node, l). l) ts) \<Longrightarrow>
     \<exists>r s'. update_stations status ts s = (r, s') \<and> wifi_inv s' \<and> stations s' = stations s \<and> access_points s' = access_points s \<and>
       (\<forall>k. k \<notin> (\<lambda>(dev, node, l). l) ` set ts \<longrightarrow> w_links s' ! k = w_links s ! k) \<and>
       r = (if \<exists>(dev, node, l) \<in> set ts. association s status dev = Inl KeyError then Inl KeyError else Inr ()) \<and>
       (r = Inr () \<longrightarrow> (\<forall>(dev, node, l) \<in> set ts. association s status dev = Inr (w_node2 (w_links s' ! l))))"
proof (induction ts arbitrary: s)
  case (Cons t ts)
  obtain dev node l where t: "t = (dev, node, l)" by (cases t)
  have ok: "station_ok s (dev, node, l)" using Cons.prems(1,2) t by (auto simp: wifi_inv_def)
  show ?case
  proof (cases "association s status dev")
    case (Inl e)
    then have "e = KeyError" by (auto simp: association_def split: prod.splits if_splits option.splits)
    then show ?thesis using Inl Cons.prems(1) t by auto
  next
    case (Inr ap)
    from set_ap_inv [OF Cons.prems(1) ok, of ap] obtain u where u: "set_ap l ap s = Inr u" "wifi_inv u" "stations u = stations s"
      "access_points u = access_points s" and other: "\<And>k. k \<noteq> l \<Longrightarrow> w_links u ! k = w_links s ! k"
      and own: "w_node2 (w_links u ! l) = ap" by metis
    have assoc: "association u status = association s status" by (rule ext) (simp add: association_def u(4) split: prod.split)
    have l: "l \<notin> (\<lambda>(dev, node, l). l) ` set ts" and ts: "set ts \<subseteq> set (stations u)" "distinct (map (\<lambda>(dev, node, l). l) ts)"
      using Cons.prems(2,3) t u(3) by auto
    from Cons.IH [OF u(2) ts] obtain r s' where s': "update_stations status ts u = (r, s')" "wifi_inv s'" "stations s' = stations u"
      "access_points s' = access_points u" "\<forall>k. k \<notin> (\<lambda>(dev, node, l). l) ` set ts \<longrightarrow> w_links s' ! k = w_links u ! k"
      "r = (if \<exists>(dev, node, l) \<in> set ts. association u status dev = Inl KeyError then Inl KeyError else Inr ())"
      "r = Inr () \<longrightarrow> (\<forall>(dev, node, l) \<in> set ts. association u status dev = Inr (w_node2 (w_links s' ! l)))" by blast
    have run: "update_stations status (t # ts) s = (r, s')" using Inr u(1) s'(1) t by simp
    have "w_links s' ! k = w_links s ! k" if "k \<notin> (\<lambda>(dev, node, l). l) ` set (t # ts)" for k
      using that s'(5) other [of k] t by simp
    moreover have "w_node2 (w_links s' ! l) = ap" using s'(5) l own by simp
    ultimately show ?thesis using run s'(2,3,4,6,7) u(3,4) Inr t unfolding assoc by (intro exI [of _ r] exI [of _ s']) auto
  qed
qed simp

lemma periodic_update_spec:
  assumes "wifi_inv s"
  shows "\<exists>r s'. wifi_periodic_update status s = (r, s') \<and> wifi_inv s' \<and> stations s' = stations s \<and>
     r = (if \<exists>(dev, node, l) \<in> set (stations s). association s status dev = Inl KeyError then Inl KeyError else Inr ()) \<and>
     (r = Inr () \<longrightarrow> (\<forall>(dev, node, l) \<in> set (stations s). association s status dev = Inr (w_node2 (w_links s' ! l))))"
proof -
  have "distinct (map (\<lambda>(dev, node, l). l) (stations s))" using assms by (simp add: wifi_inv_def)
  from update_stations_spec [OF assms subset_refl this, of status] show ?thesis
    unfolding wifi_periodic_update_def by blast
qed

lemma wifi_inv_step: "wifi_inv s \<Longrightarrow> wifi_step e s = Some s' \<Longrightarrow> wifi_inv s'"
proof (cases e)
  case (TopologyScanned nodes)
  assume "wifi_inv s" "wifi_step e s = Some s'"
  then show ?thesis using scan_wifi_nodes_ok [of s nodes] TopologyScanned by (auto simp: or_same_def)
next
  case (PeriodicUpdate status)
  assume "wifi_inv s" "wifi_step e s = Some s'"
  then show ?thesis using periodic_update_spec [of s status] PeriodicUpdate by auto
next
  case UpdateView
  assume "wifi_inv s" "wifi_step e s = Some s'"
  then show ?thesis using update_view_ok [of s] UpdateView by (auto simp: or_same_def)
next
  case (Move n p)
  assume "wifi_inv s" "wifi_step e s = Some s'"
  then show ?thesis using move_node_ok [of s n p] Move by (auto simp: or_same_def)
qed

interpretation wifi_monitor: invariant_system wifi_step wifi_inv
  by unfold_locales (rule wifi_inv_step)

lemma no_wifi_inv: "wifi_inv no_wifi"
  by (simp add: wifi_inv_def no_wifi_def listed_at_def)

text \<open>
  C14: the links of the stations follow the associations.  After any sequence of scans, updates and moves,
  a periodic update raises \<open>KeyError\<close> exactly when a station reports an access point that the last scan has
  not seen; otherwise it leaves the link of every station at the access point of the station or nowhere,
  each listed once at its access point and visible, and an update of the view then draws every such
  link between the current places of its ends.
\<close>
theorem wifi_links_follow:
  assumes "run_steps wifi_step es no_wifi = Some s"
  shows "\<exists>r t u. wifi_periodic_update status s = (r, t) \<and> update_wifi_view t = Inr u \<and>
     r = (if \<exists>(dev, node, l) \<in> set (stations s). association s status dev = Inl KeyError then Inl KeyError else Inr ()) \<and>
     (r = Inr () \<longrightarrow> (\<forall>(dev, node, l) \<in> set (stations s). association s status dev = Inr (w_node2 (w_links t ! l)))) \<and>
     (\<forall>(dev, node, l) \<in> set (stations s). w_node1 (w_links u ! l) = Some node \<and> drawn u l \<and> link_at u l)"
proof -
  have "wifi_inv s" using wifi_monitor.run_good [OF no_wifi_inv assms] .
  from periodic_update_spec [OF this, of status] obtain r t where t: "wifi_periodic_update status s = (r, t)" "wifi_inv t"
    "stations t = stations s"
    "r = (if \<exists>(dev, node, l) \<in> set (stations s). association s status dev = Inl KeyError then Inl KeyError else Inr ())"
    "r = Inr () \<longrightarrow> (\<forall>(dev, node, l) \<in> set (stations s). association s status dev = Inr (w_node2 (w_links t ! l)))" by blast
  from update_view_ok [OF t(2)] obtain u where u: "update_wifi_view t = Inr u" "wifi_inv u" "stations u = stations t"
    "\<forall>(dev, node, l) \<in> set (stations u). drawn u l" by blast
  have "\<forall>(dev, node, l) \<in> set (stations s). w_node1 (w_links u ! l) = Some node \<and> drawn u l \<and> link_at u l"
    using u(2,3,4) t(3) by (auto simp: wifi_inv_def station_ok_def)
  then show ?thesis using t u(1) by blast
qed

definition two_aps :: wifi_event where
  "two_aps = TopologyScanned [(0, [ApDev ''a'']), (1, [OtherDev, StaDev 7]), (2, [ApDev ''b''])]"

theorem wifi_links_follow_witness:
  "\<exists>s t. run_steps wifi_step [two_aps] no_wifi = Some s \<and> stations s = [(7, 1, 0)] \<and>
     wifi_periodic_update (\<lambda>_. (True, ''b'')) s = (Inr (), t) \<and> w_node2 (w_links t ! 0) = Some 2"
proof -
  define s where "s = or_same no_wifi (scan_wifi_nodes [(0, [ApDev ''a'']), (1, [OtherDev, StaDev 7]), (2, [ApDev ''b''])] no_wifi)"
  have run: "run_steps wifi_step [two_aps] no_wifi = Some s" by (simp add: two_aps_def s_def)
  have s: "stations s = [(7, 1, 0)]" "association s (\<lambda>_. (True, ''b'')) 7 = Inr (Some 2)"
    by (simp_all add: s_def or_same_def scan_wifi_nodes_def no_wifi_def WifiLink_def set_ap_def association_def no_bssid_def)
  from wifi_links_follow [OF run, of "\<lambda>_. (True, ''b'')"] s obtain t where
    "wifi_periodic_update (\<lambda>_. (True, ''b'')) s = (Inr (), t)" "w_node2 (w_links t ! 0) = Some 2" by auto
  with run s(1) show ?thesis by blast
qed

text \<open>The links of a scan stay in the list of their access point when the next scan destroys them.\<close>

lemma destroyed_link_stays: "w_at (destroy l s) = w_at s"
  by (simp add: destroy_def on_link_def)

end
