(* ===== verification/StackTrace.thy ===== *)
theory StackTrace
  imports Complex_Main PyLib
begin

text \<open>
  The script \<^verbatim>\<open>scratch/stacktrace_to_graph.py\<close>: it reads a log of scheduled events with the stacks from
  which they were scheduled, finds for every event the frames that the stacks of what it schedules have
  in common, and writes a graph of the events.  The deque of lines is a list, the graph a dictionary in
  the order of insertion; the entry \<open>shared_stack\<close>, which the second pass adds to a node, is an option.
  Times in seconds are rationals.
\<close>

section \<open>Reading the trace\<close>

record event_node =
  edges :: "(int \<times> int \<times> string list) list"
  timestamp_s :: rat
  context_id :: int
  shared_stack :: "string list option"

type_synonym event_graph = "(int \<times> event_node) list"

fun discard_lines :: "string list \<Rightarrow> string list res" where
  "discard_lines [] = Inl IndexError"
| "discard_lines (l # ls) = (if occurs ''SimulationTime'' l then Inr (l # ls) else discard_lines ls)"

text \<open>\<open>[int(temp[i]) for i in range(1, 10, 2)]\<close>.\<close>

definition read_numbers :: "string \<Rightarrow> int list res" where
  "read_numbers l = rmap (\<lambda>i. rbind (py_index (split_on (CHR '' '') l) i) py_int) [1, 3, 5, 7, 9]"

text \<open>The lines of a stack, up to the one that holds only its line end.\<close>

fun read_stack :: "string list \<Rightarrow> (string list \<times> string list) res" where
  "read_stack [] = Inl IndexError"
| "read_stack (l # ls) =
     (if 1 < length l then
        rbind (py_index (split_on (CHR ''#'') l) 1) (\<lambda>f.
        rbind (read_stack ls) (\<lambda>(fs, rest). Inr (f # fs, rest)))
      else Inr ([], l # ls))"

definition set_node :: "int \<Rightarrow> (event_node \<Rightarrow> event_node) \<Rightarrow> event_graph \<Rightarrow> event_graph" where
  "set_node i f g = map (\<lambda>(k, n). (k, if k = i then f n else n)) g"

definition add_event :: "int \<Rightarrow> int \<Rightarrow> int \<Rightarrow> int \<Rightarrow> int \<Rightarrow> string list \<Rightarrow> event_graph \<Rightarrow> event_graph" where
  "add_event timestamp_ns current scheduled scheduled_ns ctx stack g =
     (let g = (if current \<in> set (keys g) then g
               else g @ [(current, \<lparr>edges = [], timestamp_s = 0, context_id = - 1, shared_stack = None\<rparr>)]);
          g = set_node current (edges_update (AList.update scheduled (timestamp_ns, rev stack))) g
      in if scheduled \<in> set (keys g) then g
         else g @ [(scheduled, \<lparr>edges = [], timestamp_s = of_int scheduled_ns / 10 ^ 9,
                                context_id = (if ctx \<noteq> 4294967295 then ctx else - 1), shared_stack = None\<rparr>)])"

lemma read_stack_shorter: "read_stack ls = Inr (fs, rest) \<Longrightarrow> length rest \<le> length ls"
  by (induction ls arbitrary: fs rest) (fastforce simp: rbind_eq_Inr split: if_splits)+

text \<open>The loop, with its own count of the lines that are left.\<close>

function read_events :: "int \<Rightarrow> string list \<Rightarrow> event_graph \<Rightarrow> event_graph res" where
  "read_events trace_log_len ls g =
     (if trace_log_len \<le> 0 then Inr g
      else
        (case ls of
           [] \<Rightarrow> Inl IndexError
         | l # ls \<Rightarrow>
             (case read_numbers l of
                Inl e \<Rightarrow> Inl e
              | Inr ns \<Rightarrow>
                  (case read_stack ls of
                     Inl e \<Rightarrow> Inl e
                   | Inr (stack, rest) \<Rightarrow>
                       read_events (trace_log_len - 2 - int (length stack)) (tl rest)
                         (add_event (ns ! 0) (ns ! 1) (ns ! 2) (ns ! 3) (ns ! 4) stack g)))))"
  by pat_completeness auto
termination
  by (relation "measure (\<lambda>(k, ls, g). length ls)") (auto dest!: read_stack_shorter)

declare read_events.simps [simp del]

definition get_graph :: "string \<Rightarrow> event_graph res" where
  "get_graph text = rbind (discard_lines (file_lines text)) (\<lambda>ls. read_events (int (length ls)) ls [])"

section \<open>The shared frames\<close>

text \<open>A frame or nothing that counts as true.\<close>

definition truthy :: "string option \<Rightarrow> bool" where
  "truthy c \<longleftrightarrow> c \<noteq> None \<and> c \<noteq> Some ''''"

fun common_frame :: "string option \<Rightarrow> string list list \<Rightarrow> string option" where
  "common_frame c [] = c"
| "common_frame c ([] # ss) = None"
| "common_frame c ((f # fs) # ss) =
     (let c = (if truthy c then c else Some f) in if c \<noteq> Some f then None else common_frame c ss)"

lemma common_frame_shorter:
  "truthy (common_frame c ss) \<Longrightarrow> \<not> truthy c \<Longrightarrow> ss \<noteq> [] \<and> hd ss \<noteq> []"
  by (cases "(c, ss)" rule: common_frame.cases) (auto simp: truthy_def)

function shared_loop :: "string list list \<Rightarrow> string list \<Rightarrow> string list \<times> string list list" where
  "shared_loop ss shared =
     (let c = common_frame None ss
      in if truthy c then shared_loop (map tl ss) (shared @ [the c]) else (shared, ss))"
  by pat_completeness auto
termination
proof (relation "measure (\<lambda>(ss, shared). length (hd ss))", goal_cases)
  case (2 ss shared c)
  then have "ss \<noteq> [] \<and> hd ss \<noteq> []" by (intro common_frame_shorter [of None]) (simp_all add: truthy_def)
  then show ?case by (cases ss) (simp_all add: hd_map)
qed simp

declare shared_loop.simps [simp del]

definition put_stacks :: "(int \<times> int \<times> string list) list \<Rightarrow> string list list \<Rightarrow> (int \<times> int \<times> string list) list" where
  "put_stacks es ss = map2 (\<lambda>(i, t, _) s. (i, t, s)) es ss"

fun smallest :: "int option \<Rightarrow> int list \<Rightarrow> int option" where
  "smallest s [] = s"
| "smallest s (t # ts) =
     (let s = (if s = None \<or> s = Some 0 then Some t else s) in smallest (if t < the s then Some t else s) ts)"

definition share_node :: "event_node \<Rightarrow> event_node" where
  "share_node n =
     (case shared_loop (map (\<lambda>(i, t, s). s) (edges n)) [] of
        (shared, rests) \<Rightarrow>
          n\<lparr>edges := put_stacks (edges n) rests, shared_stack := Some shared,
            timestamp_s := (case smallest None (map (\<lambda>(i, t, s). t) (edges n)) of
                              None \<Rightarrow> timestamp_s n | Some t \<Rightarrow> of_int t / 10 ^ 9)\<rparr>)"

definition get_shared_stack :: "event_graph \<Rightarrow> event_graph" where
  "get_shared_stack g = map (\<lambda>(i, n). (i, share_node n)) g"

section \<open>The chart\<close>

text \<open>The conversion \<open>%f\<close>: six decimals, rounded half to even.\<close>

definition round_even :: "rat \<Rightarrow> int" where
  "round_even r = (let n = floor r in if r - of_int n < 1 / 2 \<or> (r - of_int n = 1 / 2 \<and> even n) then n else n + 1)"

definition format_f :: "rat \<Rightarrow> string" where
  "format_f r =
     (let n = round_even (\<bar>r\<bar> * 10 ^ 6); fraction = dec (n mod 10 ^ 6)
      in (if r < 0 then ''-'' else '''') @ dec (n div 10 ^ 6) @ ''.'' @ replicate (6 - length fraction) (CHR ''0'') @ fraction)"

text \<open>The last frame that does not mention \<open>Schedule\<close>, or all of them; the end of a line becomes a semicolon.\<close>

definition stack_text :: "string list \<Rightarrow> string" where
  "stack_text st =
     replace_char nl '';'' (case find (\<lambda>f. \<not> occurs ''Schedule'' f) (rev st) of Some f \<Rightarrow> f | None \<Rightarrow> concat st)"

definition node_line :: "int \<times> event_node \<Rightarrow> string res" where
  "node_line n =
     (case n of (i, n) \<Rightarrow>
        (case shared_stack n of
           None \<Rightarrow> Inl KeyError
         | Some st \<Rightarrow> Inr (dec i @ '' [label='' @ [dquote] @ '' Timestamp='' @ format_f (timestamp_s n) @ ''s, Context='' @
                            dec (context_id n) @ '', Shared Stack='' @ stack_text st @ [dquote] @ ''];'')))"

definition edge_line :: "event_graph \<Rightarrow> int \<times> event_node \<Rightarrow> int \<times> int \<times> string list \<Rightarrow> string res" where
  "edge_line g n e =
     (case (n, e) of ((i, n), (k, t, st)) \<Rightarrow>
        (case map_of g k of
           None \<Rightarrow> Inl KeyError
         | Some d \<Rightarrow> Inr (dec i @ '' -> '' @ dec k @ '' [label='' @ [dquote] @ ''Delay='' @
                           format_f (timestamp_s d - timestamp_s n) @ '', Stack='' @ stack_text st @ [dquote] @ ''];'')))"

definition get_flow_chart :: "event_graph \<Rightarrow> string res" where
  "get_flow_chart g =
     rbind (rmap node_line g) (\<lambda>ns.
     rbind (rmap (\<lambda>(i, n). rmap (edge_line g (i, n)) (edges n)) g) (\<lambda>es.
       Inr (''digraph sim {'' @ [nl] @ join_with [nl] ns @ [nl] @ join_with [nl] (concat es) @ [nl] @ ''}'' @ [nl])))"

text \<open>The script, from the text of \<^verbatim>\<open>stacktrace.txt\<close> to that of \<^verbatim>\<open>flowchart.dot\<close>.\<close>

definition stacktrace_to_graph :: "string \<Rightarrow> string res" where
  "stacktrace_to_graph text = rbind (get_graph text) (\<lambda>g. get_flow_chart (get_shared_stack g))"

section \<open>Traces as the simulator writes them\<close>

record trace_event =
  ev_now :: nat
  ev_current :: nat
  ev_scheduled :: nat
  ev_time :: nat
  ev_context :: nat
  ev_frames :: "string list"

definition event_header :: "trace_event \<Rightarrow> string" where
  "event_header e =
     ''SimulationTime: '' @ dec_nat (ev_now e) @ '' CurrentEventID: '' @ dec_nat (ev_current e) @
     '' ScheduledEventID: '' @ dec_nat (ev_scheduled e) @ '' ScheduledTimestamp: '' @ dec_nat (ev_time e) @
     '' Context: '' @ dec_nat (ev_context e) @ [nl]"

definition frame_line :: "nat \<Rightarrow> string \<Rightarrow> string" where
  "frame_line k f = (if k < 10 then '' '' else '''') @ dec_nat k @ ''#'' @ f"

definition event_lines :: "trace_event \<Rightarrow> string list" where
  "event_lines e = event_header e # map2 frame_line [0..<length (ev_frames e)] (ev_frames e) @ [[nl]]"

text \<open>A frame is one line.  What is read of it ends at a further \<open>#\<close>, if it has one.\<close>

definition plain_frame :: "string \<Rightarrow> bool" where
  "plain_frame f \<longleftrightarrow> (\<exists>t. f = t @ [nl] \<and> nl \<notin> set t)"

definition frame_text :: "string \<Rightarrow> string" where
  "frame_text f = takeWhile (\<lambda>c. c \<noteq> CHR ''#'') f"

definition trace_step :: "event_graph \<Rightarrow> trace_event \<Rightarrow> event_graph" where
  "trace_step g e =
     add_event (int (ev_now e)) (int (ev_current e)) (int (ev_scheduled e)) (int (ev_time e)) (int (ev_context e)) (map frame_text (ev_frames e)) g"

lemma dec_nat_plain: "c \<in> set (dec_nat n) \<Longrightarrow> c \<noteq> CHR '' '' \<and> c \<noteq> nl \<and> c \<noteq> CHR ''#'' \<and> \<not> py3_space c"
  using dec_nat_digits [of c n] by (auto simp: py3_space_def)

lemma py_int_line: "py_int (dec_nat n @ [nl]) = Inr (int n)"
proof -
  have "py3_space nl" by (simp add: py3_space_def)
  moreover have "dropWhile py3_space (dec_nat n @ [nl]) = dec_nat n @ [nl]"
    using dec_nat_plain [of "hd (dec_nat n)" n] by (cases "dec_nat n") (simp_all add: dec_nat_not_Nil [THEN notE])
  moreover have "py_strip (dec_nat n) = dec_nat n" using dec_nat_plain by (intro strip_by_none) blast
  moreover have "dropWhile py3_space (rev (dec_nat n)) = rev (dec_nat n)" using dec_nat_plain by (intro dropWhile_none) simp
  ultimately have "py_strip (dec_nat n @ [nl]) = py_strip (dec_nat n)" by (simp add: strip_by_def)
  then show ?thesis using py_int_dec [of n] by (simp add: py_int_def)
qed

lemma split_word: "CHR '' '' \<notin> set w \<Longrightarrow> split_on (CHR '' '') (w @ '' '' @ s) = w # split_on (CHR '' '') s"
  using split_on_append [of "CHR '' ''" w s] split_on_single [of "CHR '' ''" w] by simp

lemma header_numbers:
  "read_numbers (event_header e) = Inr [int (ev_now e), int (ev_current e), int (ev_scheduled e), int (ev_time e), int (ev_context e)]"
proof -
  have d: "CHR '' '' \<notin> set (dec_nat n)" for n using dec_nat_plain [of "CHR '' ''" n] by blast
  have l: "CHR '' '' \<notin> set (dec_nat n @ [nl])" for n using d by simp
  have w: "CHR '' '' \<notin> set ''SimulationTime:''" "CHR '' '' \<notin> set ''CurrentEventID:''" "CHR '' '' \<notin> set ''ScheduledEventID:''"
    "CHR '' '' \<notin> set ''ScheduledTimestamp:''" "CHR '' '' \<notin> set ''Context:''" by simp_all
  have h: "event_header e = ''SimulationTime:'' @ '' '' @ dec_nat (ev_now e) @ '' '' @ ''CurrentEventID:'' @ '' '' @ dec_nat (ev_current e) @ '' '' @
     ''ScheduledEventID:'' @ '' '' @ dec_nat (ev_scheduled e) @ '' '' @ ''ScheduledTimestamp:'' @ '' '' @ dec_nat (ev_time e) @ '' '' @
     ''Context:'' @ '' '' @ dec_nat (ev_context e) @ [nl]" by (simp add: event_header_def)
  have "split_on (CHR '' '') (event_header e) = [''SimulationTime:'', dec_nat (ev_now e), ''CurrentEventID:'', dec_nat (ev_current e), ''ScheduledEventID:'',
     dec_nat (ev_scheduled e), ''ScheduledTimestamp:'', dec_nat (ev_time e), ''Context:'', dec_nat (ev_context e) @ [nl]]"
    unfolding h by (simp only: split_word d l w split_on_single not_False_eq_True)
  then show ?thesis by (simp add: read_numbers_def py_index_def py_int_dec py_int_line nth_Cons')
qed

lemma split_on_hd: "\<exists>r. split_on c s = takeWhile (\<lambda>x. x \<noteq> c) s # r"
proof (cases "c \<in> set s")
  case True
  then obtain a b where s: "s = a @ c # b" "c \<notin> set a" by (meson split_list_first)
  then have "takeWhile (\<lambda>x. x \<noteq> c) s = a" by (auto simp: takeWhile_append)
  then show ?thesis using s by (simp add: split_on_append split_on_single)
next
  case False
  then have "takeWhile (\<lambda>x. x \<noteq> c) s = s" unfolding takeWhile_eq_all_conv by blast
  then show ?thesis unfolding split_on_single [OF False] by metis
qed

lemma frame_line_read:
  assumes "plain_frame f"
  shows "1 < length (frame_line k f) \<and> py_index (split_on (CHR ''#'') (frame_line k f)) 1 = Inr (frame_text f)"
proof -
  obtain t where t: "f = t @ [nl]" using assms by (auto simp: plain_frame_def)
  let ?p = "(if k < 10 then '' '' else '''') @ dec_nat k"
  obtain r where r: "split_on (CHR ''#'') f = frame_text f # r" using split_on_hd unfolding frame_text_def by blast
  have "CHR ''#'' \<notin> set ?p" using dec_nat_plain [of "CHR ''#''" k] by auto
  then have "split_on (CHR ''#'') ?p = [?p]" by (rule split_on_single)
  then have "split_on (CHR ''#'') (?p @ CHR ''#'' # f) = ?p # frame_text f # r"
    unfolding split_on_append r by simp
  moreover have "frame_line k f = ?p @ CHR ''#'' # f" by (simp add: frame_line_def)
  ultimately show ?thesis using t by (simp add: py_index_def)
qed

lemma read_written_stack:
  "list_all plain_frame fs \<Longrightarrow> read_stack (map2 frame_line [k..<k + length fs] fs @ [nl] # rest) = Inr (map frame_text fs, [nl] # rest)"
proof (induction fs arbitrary: k)
  case (Cons f fs)
  have "[k..<k + length (f # fs)] = k # [Suc k..<Suc k + length fs]" by (simp add: upt_conv_Cons del: upt_Suc)
  then show ?case using Cons.IH [of "Suc k"] Cons.prems frame_line_read [of f k] by simp
qed simp

lemma read_written_events:
  "list_all (\<lambda>e. list_all plain_frame (ev_frames e)) es \<Longrightarrow>
     read_events (int (length (concat (map event_lines es)))) (concat (map event_lines es)) g = Inr (foldl trace_step g es)"
proof (induction es arbitrary: g)
  case (Cons e es)
  let ?rest = "concat (map event_lines es)" and ?fs = "ev_frames e"
  have lines: "concat (map event_lines (e # es)) = event_header e # map2 frame_line [0..<length ?fs] ?fs @ [nl] # ?rest"
    by (simp add: event_lines_def)
  have stack: "read_stack (map2 frame_line [0..<length ?fs] ?fs @ [nl] # ?rest) = Inr (map frame_text ?fs, [nl] # ?rest)"
    using read_written_stack [of ?fs 0 ?rest] Cons.prems by simp
  have "read_events (int (length (concat (map event_lines (e # es))))) (concat (map event_lines (e # es))) g =
      read_events (int (length ?rest)) ?rest (trace_step g e)"
    unfolding lines by (subst read_events.simps) (simp add: header_numbers stack trace_step_def)
  then show ?case using Cons by simp
qed (simp add: read_events.simps)

lemma header_found: "occurs ''SimulationTime'' (event_header e)"
  unfolding occurs_iff event_header_def by (rule exI [of _ "[]"]) simp

lemma written_lines_end:
  assumes "list_all (\<lambda>e. list_all plain_frame (ev_frames e)) es" "w \<in> set (concat (map event_lines es))"
  shows "\<exists>t. w = t @ [nl] \<and> nl \<notin> set t"
proof -
  have d: "nl \<notin> set (dec_nat n)" for n using dec_nat_plain [of nl n] by blast
  obtain e where e: "e \<in> set es" "w = event_header e \<or> w \<in> set (map2 frame_line [0..<length (ev_frames e)] (ev_frames e)) \<or> w = [nl]"
    using assms(2) by (auto simp: event_lines_def)
  have frame: "\<exists>t. frame_line k f = t @ [nl] \<and> nl \<notin> set t" if p: "plain_frame f" for k f
  proof -
    obtain t where "f = t @ [nl]" "nl \<notin> set t" using p by (auto simp: plain_frame_def)
    then show ?thesis using d by (intro exI [of _ "(if k < 10 then '' '' else '''') @ dec_nat k @ ''#'' @ t"]) (simp add: frame_line_def)
  qed
  have header: "\<exists>t. event_header e = t @ [nl] \<and> nl \<notin> set t"
    using d by (intro exI [of _ "''SimulationTime: '' @ dec_nat (ev_now e) @ '' CurrentEventID: '' @ dec_nat (ev_current e) @
     '' ScheduledEventID: '' @ dec_nat (ev_scheduled e) @ '' ScheduledTimestamp: '' @ dec_nat (ev_time e) @
     '' Context: '' @ dec_nat (ev_context e)"]) (simp add: event_header_def)
  from e(2) show ?thesis
  proof (elim disjE)
    assume "w \<in> set (map2 frame_line [0..<length (ev_frames e)] (ev_frames e))"
    then obtain k f where w: "w = frame_line k f" "f \<in> set (ev_frames e)" by (auto dest: set_zip_rightD)
    then have "plain_frame f" using assms(1) e(1) by (simp add: list_all_iff)
    then show ?thesis using frame w(1) by blast
  qed (use header in auto)
qed

text \<open>What a graph says of the event \<open>s\<close> scheduled by \<open>c\<close>, and what the last such event of the trace says.\<close>

definition edge_of :: "event_graph \<Rightarrow> int \<Rightarrow> int \<Rightarrow> (int \<times> string list) option" where
  "edge_of g c s = Option.bind (map_of g c) (\<lambda>n. map_of (edges n) s)"

definition last_scheduled :: "trace_event list \<Rightarrow> int \<Rightarrow> int \<Rightarrow> (int \<times> string list) option" where
  "last_scheduled es c s =
     map_option (\<lambda>e. (int (ev_now e), rev (map frame_text (ev_frames e))))
       (find (\<lambda>e. int (ev_current e) = c \<and> int (ev_scheduled e) = s) (rev es))"

lemma map_of_set_node: "map_of (set_node i f g) k = map_option (if k = i then f else id) (map_of g k)"
  by (induction g) (auto simp: set_node_def option.map_id0)

lemma edge_of_snoc: "edges n = [] \<Longrightarrow> edge_of (g @ [(k, n)]) c s = edge_of g c s"
  by (cases "map_of g c") (simp_all add: edge_of_def map_add_def)

lemma edge_of_set_node:
  "i \<in> set (keys g) \<Longrightarrow> edge_of (set_node i (edges_update (AList.update k v)) g) c s = (if c = i \<and> s = k then Some v else edge_of g c s)"
  by (cases "map_of g c") (auto simp: edge_of_def map_of_set_node update_conv map_of_eq_None_iff option.map_id)

lemma edge_of_add_event:
  "edge_of (add_event t cur sch ts ctx stack g) c s = (if c = cur \<and> s = sch then Some (t, rev stack) else edge_of g c s)"
  by (simp add: add_event_def Let_def edge_of_snoc edge_of_set_node del: list.set_map)

lemma keys_set_node: "keys (set_node i f g) = keys g"
  by (simp add: set_node_def split_def comp_def)

lemma nodes_set_node: "fst ` set (set_node i f g) = fst ` set g"
  using keys_set_node [of i f g] by (metis list.set_map)

lemma keys_add_event: "set (keys (add_event t cur sch ts ctx stack g)) = insert cur (insert sch (set (keys g)))"
  by (simp add: add_event_def Let_def nodes_set_node insert_absorb insert_commute)

lemma edge_of_trace_step:
  "edge_of (trace_step g e) c s =
     (if int (ev_current e) = c \<and> int (ev_scheduled e) = s then Some (int (ev_now e), rev (map frame_text (ev_frames e))) else edge_of g c s)"
  by (auto simp: trace_step_def edge_of_add_event)

lemma nodes_trace_step: "set (keys (trace_step g e)) = {int (ev_current e), int (ev_scheduled e)} \<union> set (keys g)"
  by (simp only: trace_step_def keys_add_event) auto

lemma trace_graph:
  "set (keys (foldl trace_step [] es)) = (\<Union>e \<in> set es. {int (ev_current e), int (ev_scheduled e)}) \<and>
   edge_of (foldl trace_step [] es) c s = last_scheduled es c s"
proof (induction es rule: rev_induct)
  case (snoc e es)
  have "set (keys (foldl trace_step [] (es @ [e]))) = {int (ev_current e), int (ev_scheduled e)} \<union> set (keys (foldl trace_step [] es))"
    by (simp only: foldl_append foldl.simps nodes_trace_step)
  then show ?case using snoc by (simp add: edge_of_trace_step last_scheduled_def)
qed (simp add: edge_of_def last_scheduled_def)

text \<open>
  C38: a trace of at least one event, as the simulator writes it, with lines in front of it that do not mention
  \<open>SimulationTime\<close>, is read back: \<open>get_graph\<close> returns a graph whose nodes are the events of the trace, and which
  has an edge from one event to another exactly when the first has scheduled the second, with the time and the
  reversed stack of the last time it did.  Of each frame the text up to a further \<open>#\<close> is kept, which is all of it
  when there is none (\<open>frame_text\<close>).
\<close>
theorem trace_read_back:
  assumes "es \<noteq> []" "list_all (\<lambda>e. list_all plain_frame (ev_frames e)) es"
    and "\<And>l. l \<in> set pre \<Longrightarrow> nl \<notin> set l \<and> \<not> occurs ''SimulationTime'' (l @ [nl])"
  shows "\<exists>g. get_graph (concat (map (\<lambda>l. l @ [nl]) pre) @ concat (concat (map event_lines es))) = Inr g \<and>
     set (keys g) = (\<Union>e \<in> set es. {int (ev_current e), int (ev_scheduled e)}) \<and>
     (\<forall>c s. edge_of g c s = last_scheduled es c s)"
proof -
  let ?ls = "concat (map event_lines es)"
  have "file_lines (concat (map (\<lambda>l. l @ [nl]) pre @ ?ls)) = map (\<lambda>l. l @ [nl]) pre @ ?ls"
    using written_lines_end [OF assms(2)] assms(3) by (intro file_lines_concat) auto
  moreover have "discard_lines (map (\<lambda>l. l @ [nl]) pre @ ?ls) = Inr ?ls"
    using assms(3)
  proof (induction pre)
    case Nil
    obtain e es' where "es = e # es'" using assms(1) by (cases es) auto
    then show ?case using header_found [of e] by (simp add: event_lines_def)
  qed simp
  ultimately have "get_graph (concat (map (\<lambda>l. l @ [nl]) pre) @ concat ?ls) = Inr (foldl trace_step [] es)"
    using read_written_events [OF assms(2), of "[]"] by (simp add: get_graph_def)
  then show ?thesis using trace_graph [of es] by blast
qed

definition demo_event :: trace_event where
  "demo_event = \<lparr>ev_now = 0, ev_current = 0, ev_scheduled = 4, ev_time = 5, ev_context = 1, ev_frames = ['' main()::{lambda()#1}'' @ [nl], '' run'' @ [nl]]\<rparr>"

theorem trace_read_back_witness:
  "\<exists>g. get_graph (''log'' @ [nl] @ concat (event_lines demo_event)) = Inr g \<and> set (keys g) = {0, 4} \<and>
     edge_of g 0 4 = Some (0, ['' run'' @ [nl], '' main()::{lambda()''])"
proof -
  have "plain_frame ('' main()::{lambda()#1}'' @ [nl])" "plain_frame ('' run'' @ [nl])" unfolding plain_frame_def
    by (rule exI [of _ "'' main()::{lambda()#1}''"], simp) (rule exI [of _ "'' run''"], simp)
  then obtain g where g: "get_graph (concat (map (\<lambda>l. l @ [nl]) [''log'']) @ concat (concat (map event_lines [demo_event]))) = Inr g"
    "set (keys g) = (\<Union>e \<in> set [demo_event]. {int (ev_current e), int (ev_scheduled e)})"
    "\<forall>c s. edge_of g c s = last_scheduled [demo_event] c s"
    using trace_read_back [of "[demo_event]" "[''log'']"] by (auto simp: demo_event_def startswith_def)
  have "last_scheduled [demo_event] 0 4 = Some (0, ['' run'' @ [nl], '' main()::{lambda()''])"
    by (simp add: last_scheduled_def demo_event_def frame_text_def)
  then show ?thesis using g by (simp add: demo_event_def)
qed

text \<open>A frame that mentions a lambda by its number is cut at the second \<open>#\<close>.\<close>

lemma lambda_frame_cut: "read_stack ['' 0# f()::{lambda()#1}'' @ [nl], [nl]] = Inr (['' f()::{lambda()''], [[nl]])"
  by (simp add: py_index_def)

section \<open>The frames that stacks share\<close>

lemma common_frame_Some:
  "f \<noteq> '''' \<Longrightarrow> common_frame (Some f) ss = (if \<forall>s \<in> set ss. s \<noteq> [] \<and> hd s = f then Some f else None)"
proof (induction ss)
  case (Cons s ss)
  then show ?case by (cases s) (auto simp: truthy_def)
qed simp

lemma common_frame_None:
  assumes "\<And>s f. s \<in> set ss \<Longrightarrow> f \<in> set s \<Longrightarrow> f \<noteq> ''''"
  shows "common_frame None ss = (if ss \<noteq> [] \<and> (\<forall>s \<in> set ss. s \<noteq> [] \<and> hd s = hd (hd ss)) then Some (hd (hd ss)) else None)"
proof (cases ss)
  case (Cons s ss')
  show ?thesis
  proof (cases s)
    case (Cons f fs)
    then have "f \<noteq> ''''" using assms [of s f] \<open>ss = s # ss'\<close> by simp
    then show ?thesis using common_frame_Some [of f ss'] Cons \<open>ss = s # ss'\<close> by (simp add: truthy_def)
  qed (use Cons in simp)
qed simp

lemma shared_loop_prefix:
  "ss \<noteq> [] \<Longrightarrow> (\<And>s f. s \<in> set ss \<Longrightarrow> f \<in> set s \<Longrightarrow> f \<noteq> '''') \<Longrightarrow>
     shared_loop ss acc = (acc @ Longest_common_prefix (set ss), map (drop (length (Longest_common_prefix (set ss)))) ss)"
proof (induction ss acc rule: shared_loop.induct)
  case (1 ss acc)
  let ?L = "Longest_common_prefix (set ss)"
  have cf: "common_frame None ss = (if ss \<noteq> [] \<and> (\<forall>s \<in> set ss. s \<noteq> [] \<and> hd s = hd (hd ss)) then Some (hd (hd ss)) else None)"
    by (rule common_frame_None) (rule 1(3))
  show ?case
  proof (cases "\<forall>s \<in> set ss. s \<noteq> [] \<and> hd s = hd (hd ss)")
    case True
    define f where "f = hd (hd ss)"
    have hd_in: "hd ss \<in> set ss" using 1(2) by simp
    then have "hd ss \<noteq> []" using True by blast
    then have "f \<in> set (hd ss)" by (simp add: f_def)
    then have f: "f \<noteq> ''''" by (rule 1(3) [OF hd_in])
    have t: "common_frame None ss = Some f" unfolding f_def by (rule trans [OF cf if_P]) (use 1(2) True in blast)
    have "f # tl s = s" if "s \<in> set ss" for s using True that by (metis f_def list.collapse)
    then have "map ((#) f) (map tl ss) = ss" unfolding map_map by (intro map_idI) simp
    then have image: "set ss = (#) f ` set (map tl ss)" by (metis set_map)
    have "set (map tl ss) \<noteq> {}" using 1(2) by simp
    from Longest_common_prefix_image_Cons [OF this, of f] have L: "?L = f # Longest_common_prefix (set (map tl ss))"
      unfolding image [symmetric] .
    have "shared_loop ss acc = shared_loop (map tl ss) (acc @ [f])"
      using t f by (subst shared_loop.simps) (simp add: truthy_def)
    also have "\<dots> = ((acc @ [f]) @ Longest_common_prefix (set (map tl ss)),
        map (drop (length (Longest_common_prefix (set (map tl ss))))) (map tl ss))"
    proof -
      have tr: "truthy (common_frame None ss)" and the_f: "the (common_frame None ss) = f" using t f by (simp_all add: truthy_def)
      have ne: "map tl ss \<noteq> []" using 1(2) by simp
      have fr: "g \<noteq> ''''" if "s \<in> set (map tl ss)" "g \<in> set s" for s g
        using that 1(3) by (auto dest: list.set_sel(2) [rotated]) (metis list.set_sel(2) list.sel(2))
      have "shared_loop (map tl ss) (acc @ [the (common_frame None ss)]) =
          ((acc @ [the (common_frame None ss)]) @ Longest_common_prefix (set (map tl ss)),
           map (drop (length (Longest_common_prefix (set (map tl ss))))) (map tl ss))"
        by (rule 1(1) [OF refl tr ne]) (rule fr)
      then show ?thesis unfolding the_f .
    qed
    finally show ?thesis using L by (simp add: drop_Suc)
  next
    case False
    have none: "common_frame None ss = None" by (rule trans [OF cf if_not_P]) (use False in blast)
    have run: "shared_loop ss acc = (acc, ss)" by (subst shared_loop.simps) (simp add: truthy_def none)
    have "?L = []"
    proof (rule ccontr)
      assume "?L \<noteq> []"
      then obtain x p where L: "?L = x # p" by (cases ?L) auto
      have "s \<noteq> [] \<and> hd s = x" if "s \<in> set ss" for s
        using Longest_common_prefix_prefix [OF that] L by (cases s) auto
      then show False using False 1(2) by (metis hd_in_set)
    qed
    then show ?thesis using run by simp
  qed
qed

lemma put_stacks_drop: "put_stacks es (map (drop k) (map (\<lambda>(i, t, s). s) es)) = map (\<lambda>(i, t, s). (i, t, drop k s)) es"
  by (induction es) (auto simp: put_stacks_def)

text \<open>
  C39: for an event that has scheduled others, the shared stack is the longest common prefix of the
  stacks of what it has scheduled, from the outermost frame on; every edge keeps its target and time, and
  the shared frames followed by the frames left to an edge are the stack it had.
\<close>
theorem shared_stack_longest:
  assumes "edges n \<noteq> []" "\<And>i t s f. (i, t, s) \<in> set (edges n) \<Longrightarrow> f \<in> set s \<Longrightarrow> f \<noteq> ''''"
  shows "\<exists>p. shared_stack (share_node n) = Some p \<and>
     p = Longest_common_prefix ((\<lambda>(i, t, s). s) ` set (edges n)) \<and>
     map (\<lambda>(i, t, s). (i, t, p @ s)) (edges (share_node n)) = edges n"
proof -
  let ?ss = "map (\<lambda>(i, t, s). s) (edges n)" and ?p = "Longest_common_prefix ((\<lambda>(i, t, s). s) ` set (edges n))"
  have "f \<noteq> ''''" if "s \<in> set ?ss" "f \<in> set s" for s f using assms(2) that by auto
  then have run: "shared_loop ?ss [] = (?p, map (drop (length ?p)) ?ss)"
    using shared_loop_prefix [of ?ss "[]"] assms(1) by simp
  have "?p @ drop (length ?p) s = s" if "(i, t, s) \<in> set (edges n)" for i t s
  proof -
    have "s \<in> (\<lambda>(i, t, s). s) ` set (edges n)" using that by force
    from Longest_common_prefix_prefix [OF this] show ?thesis by (auto elim!: prefixE)
  qed
  then have "map (\<lambda>(i, t, s). (i, t, ?p @ s)) (map (\<lambda>(i, t, s). (i, t, drop (length ?p) s)) (edges n)) = edges n"
    unfolding map_map by (intro map_idI) (auto split: prod.splits)
  then show ?thesis using run by (simp add: share_node_def put_stacks_drop del: map_map)
qed

definition demo_node :: event_node where
  "demo_node = \<lparr>edges = [(2, 7, [''main'', ''Run'', ''Send'']), (3, 7, [''main'', ''Run'', ''Ack''])], timestamp_s = 0,
     context_id = 0, shared_stack = None\<rparr>"

theorem shared_stack_longest_witness:
  "shared_stack (share_node demo_node) = Some [''main'', ''Run''] \<and>
   Longest_common_prefix ((\<lambda>(i, t, s). s) ` set (edges demo_node)) = [''main'', ''Run'']"
proof -
  have "shared_stack (share_node demo_node) = Some [''main'', ''Run'']"
    by (simp add: demo_node_def share_node_def shared_loop.simps truthy_def)
  moreover have "edges demo_node \<noteq> []" "\<And>i t s f. (i, t, s) \<in> set (edges demo_node) \<Longrightarrow> f \<in> set s \<Longrightarrow> f \<noteq> ''''"
    by (auto simp: demo_node_def)
  ultimately show ?thesis using shared_stack_longest [of demo_node] by auto
qed

section \<open>The chart\<close>

text \<open>Every event that is scheduled has a node of its own.\<close>

definition targets_known :: "event_graph \<Rightarrow> bool" where
  "targets_known g \<longleftrightarrow> (\<forall>(i, n) \<in> set g. fst ` set (edges n) \<subseteq> set (keys g))"

lemma targets_knownI: "(\<And>i n. (i, n) \<in> set g \<Longrightarrow> fst ` set (edges n) \<subseteq> set (keys g)) \<Longrightarrow> targets_known g"
  unfolding targets_known_def by blast

lemma targets_knownD: "targets_known g \<Longrightarrow> (i, n) \<in> set g \<Longrightarrow> fst ` set (edges n) \<subseteq> set (keys g)"
  unfolding targets_known_def by blast

lemma update_targets: "fst ` set (AList.update k v d) = insert k (fst ` set d)"
  using keys_update [of k v d] by (metis list.set_map insert_absorb set_append list.simps(15) empty_set Un_insert_right sup_bot_right)

lemma add_event_known:
  assumes "targets_known g"
  shows "targets_known (add_event t cur sch ts ctx stack g)"
proof -
  define new where "new = (\<lparr>edges = [], timestamp_s = 0, context_id = - 1, shared_stack = None\<rparr> :: event_node)"
  define g1 where "g1 = (if cur \<in> set (keys g) then g else g @ [(cur, new)])"
  define g2 where "g2 = set_node cur (edges_update (AList.update sch (t, rev stack))) g1"
  have "set (keys g) \<subseteq> set (keys g1)" by (auto simp: g1_def)
  moreover have "(i, n) \<in> set g \<or> edges n = []" if "(i, n) \<in> set g1" for i n
    using that by (auto simp: g1_def new_def split: if_splits)
  ultimately have g1: "targets_known g1"
    using targets_knownD [OF assms] by (intro targets_knownI) (metis empty_set image_empty empty_subsetI subset_trans)
  have targets: "fst ` set (edges n) \<subseteq> insert sch (set (keys g1))" if mem: "(i, n) \<in> set g2" for i n
  proof -
    obtain m where m: "(i, m) \<in> set g1" "n = (if i = cur then edges_update (AList.update sch (t, rev stack)) m else m)"
      using mem by (auto simp: g2_def set_node_def)
    have "fst ` set (edges m) \<subseteq> set (keys g1)" by (rule targets_knownD [OF g1 m(1)])
    moreover have "fst ` set (edges n) \<subseteq> insert sch (fst ` set (edges m))"
      using m(2) update_targets [of sch "(t, rev stack)" "edges m"] by auto
    ultimately show ?thesis by blast
  qed
  have keys: "keys g2 = keys g1" by (simp add: g2_def keys_set_node)
  let ?g3 = "add_event t cur sch ts ctx stack g"
  have g3: "?g3 = (if sch \<in> set (keys g2) then g2
     else g2 @ [(sch, \<lparr>edges = [], timestamp_s = of_int ts / 10 ^ 9, context_id = (if ctx \<noteq> 4294967295 then ctx else - 1), shared_stack = None\<rparr>)])"
    by (simp add: add_event_def Let_def g1_def g2_def new_def)
  have all: "insert sch (set (keys g1)) \<subseteq> set (keys ?g3)" 
    unfolding g3 keys [symmetric] by (simp add: subset_insertI2 insert_absorb)
  have "(i, n) \<in> set g2 \<or> edges n = []" if "(i, n) \<in> set ?g3" for i n
    using that unfolding g3 by (auto simp del: list.set_map split: if_splits)
  then show ?thesis using targets all by (intro targets_knownI) (metis empty_set image_empty empty_subsetI subset_trans)
qed

lemma read_events_known: "targets_known g \<Longrightarrow> read_events k ls g = Inr g' \<Longrightarrow> targets_known g'"
proof (induction k ls g rule: read_events.induct)
  case (1 k ls g)
  note run = 1(3) [unfolded read_events.simps [of k ls g]]
  show ?case using run 1(1,2) add_event_known [OF 1(2)] by (auto split: if_splits list.splits sum.splits prod.splits)
qed

lemma get_graph_known: "get_graph text = Inr g \<Longrightarrow> targets_known g"
proof -
  assume "get_graph text = Inr g"
  then obtain ls where "read_events (int (length ls)) ls [] = Inr g" by (auto simp: get_graph_def rbind_eq_Inr)
  then show ?thesis by (rule read_events_known [rotated]) (simp add: targets_known_def)
qed

lemma put_stacks_targets: "fst ` set (put_stacks es ss) \<subseteq> fst ` set es"
proof (induction es arbitrary: ss)
  case (Cons e es)
  show ?case
  proof (cases ss)
    case (Cons s ss')
    then have "put_stacks (e # es) ss = (fst e, fst (snd e), s) # put_stacks es ss'" by (simp add: put_stacks_def split_def)
    then show ?thesis using Cons.IH [of ss'] by auto
  qed (simp add: put_stacks_def)
qed (simp add: put_stacks_def)

lemma share_node_targets: "fst ` set (edges (share_node n)) \<subseteq> fst ` set (edges n)"
  using put_stacks_targets by (simp add: share_node_def split: prod.splits)

lemma rmap_total: "(\<And>x. x \<in> set xs \<Longrightarrow> \<exists>y. f x = Inr y) \<Longrightarrow> \<exists>ys. rmap f xs = Inr ys"
  by (induction xs) (fastforce simp: rbind_eq_Inr)+

lemma keys_shared: "keys (get_shared_stack g) = keys g"
  by (simp add: get_shared_stack_def split_def comp_def)

lemma shared_known: "targets_known g \<Longrightarrow> targets_known (get_shared_stack g)"
proof (rule targets_knownI)
  fix i n assume g: "targets_known g" and "(i, n) \<in> set (get_shared_stack g)"
  then obtain m where m: "(i, m) \<in> set g" "n = share_node m" by (auto simp: get_shared_stack_def)
  have "fst ` set (edges n) \<subseteq> fst ` set (edges m)" unfolding m(2) by (rule share_node_targets)
  also have "\<dots> \<subseteq> set (keys g)" by (rule targets_knownD [OF g m(1)])
  finally show "fst ` set (edges n) \<subseteq> set (keys (get_shared_stack g))" by (simp only: keys_shared)
qed

lemma share_node_shared: "\<exists>p. shared_stack (share_node n) = Some p"
  by (simp add: share_node_def split: prod.splits)

lemma node_lines_total: "\<exists>ns. rmap node_line (get_shared_stack g) = Inr ns"
proof (rule rmap_total)
  fix x assume "x \<in> set (get_shared_stack g)"
  then obtain i m where "x = (i, share_node m)" by (auto simp: get_shared_stack_def)
  then show "\<exists>y. node_line x = Inr y" using share_node_shared [of m] by (auto simp: node_line_def)
qed

lemma edge_lines_total:
  assumes "targets_known g"
  shows "\<exists>es. rmap (\<lambda>(i, n). rmap (edge_line g (i, n)) (edges n)) g = Inr es"
proof (rule rmap_total)
  fix x assume "x \<in> set g"
  then obtain i n where x: "x = (i, n)" "(i, n) \<in> set g" by (metis surj_pair)
  have "\<exists>y. edge_line g (i, n) e = Inr y" if e: "e \<in> set (edges n)" for e
  proof -
    have "fst e \<in> fst ` set g" using targets_knownD [OF assms x(2)] e by auto
    then obtain d where "map_of g (fst e) = Some d" by (metis map_of_eq_None_iff not_None_eq)
    then show ?thesis by (cases e) (simp add: edge_line_def)
  qed
  then show "\<exists>y. (case x of (i, n) \<Rightarrow> rmap (edge_line g (i, n)) (edges n)) = Inr y" unfolding x(1) by (simp add: rmap_total)
qed

text \<open>
  C40: the script writes a chart for every trace that it can read, and fails only where reading fails: the
  chart has, in the order of the graph, the line of every event and then, event by event, the line of
  every event it has scheduled; no event is missing from the graph.
\<close>
theorem chart_written:
  "case get_graph text of
     Inl e \<Rightarrow> stacktrace_to_graph text = Inl e
   | Inr g \<Rightarrow> \<exists>ns es. stacktrace_to_graph text =
         Inr (''digraph sim {'' @ [nl] @ join_with [nl] ns @ [nl] @ join_with [nl] (concat es) @ [nl] @ ''}'' @ [nl]) \<and>
       list_all2 (\<lambda>n l. node_line n = Inr l) (get_shared_stack g) ns \<and>
       list_all2 (\<lambda>n ls. list_all2 (\<lambda>e l. edge_line (get_shared_stack g) n e = Inr l) (edges (snd n)) ls) (get_shared_stack g) es"
proof (cases "get_graph text")
  case (Inr g)
  let ?g = "get_shared_stack g"
  have "targets_known ?g" by (intro shared_known get_graph_known [OF Inr])
  then obtain es where es: "rmap (\<lambda>(i, n). rmap (edge_line ?g (i, n)) (edges n)) ?g = Inr es" using edge_lines_total by blast
  obtain ns where ns: "rmap node_line ?g = Inr ns" using node_lines_total by blast
  have "list_all2 (\<lambda>n ls. list_all2 (\<lambda>e l. edge_line ?g n e = Inr l) (edges (snd n)) ls) ?g es"
    using es unfolding rmap_all2 by (rule list_all2_mono) (auto simp: rmap_all2)
  then show ?thesis using es ns 
    by (auto simp: Inr stacktrace_to_graph_def get_flow_chart_def rmap_all2 [of node_line, symmetric] intro!: exI [of _ ns] exI [of _ es])
qed (simp add: stacktrace_to_graph_def)

text \<open>The time of an event is the least of its edges, as long as none of them is zero.\<close>

lemma smallest_pos: "0 < s \<Longrightarrow> (\<And>t. t \<in> set ts \<Longrightarrow> 0 < t) \<Longrightarrow> smallest (Some s) ts = Some (Min (insert s (set ts)))"
proof (induction ts arbitrary: s)
  case (Cons t ts)
  have "smallest (Some s) (t # ts) = smallest (Some (min s t)) ts" using Cons.prems(1) by (simp add: min_def not_less)
  also have "\<dots> = Some (Min (insert (min s t) (set ts)))" using Cons.prems by (intro Cons.IH) (simp_all add: min_def)
  also have "Min (insert (min s t) (set ts)) = Min (insert s (set (t # ts)))" by (cases "ts = []") (simp_all add: min.assoc)
  finally show ?case .
qed simp

lemma smallest_Min: "ts \<noteq> [] \<Longrightarrow> (\<And>t. t \<in> set ts \<Longrightarrow> 0 < t) \<Longrightarrow> smallest None ts = Some (Min (set ts))"
  using smallest_pos [of "hd ts" "tl ts"] by (cases ts) simp_all

lemma smallest_zero_lost: "smallest None [0, 5] = Some 5"
  by simp

end
