(* ===== verification/Boost.thy ===== *)
theory Boost
  imports PyLib "HOL-Library.List_Lexorder" "HOL-Library.Char_ord" "HOL-Library.Product_Lexorder"
begin

text \<open>
  The search for the boost libraries, \<^verbatim>\<open>waf-tools/boost.py\<close>: where the headers and the libraries are, which
  file is taken for each library, and what is stored in the environment.  The configuration context of
  waf is a parameter, the record \<open>boost_conf\<close> of the operations that the tool calls; the regular
  expressions are those of the module \<open>re\<close>, with its search by backtracking.
\<close>

section \<open>Regular expressions\<close>

datatype rx =
    RxEmpty
  | RxChar char
  | RxAny
  | RxDigit
  | RxNonDigit
  | RxSeq rx rx
  | RxAlt rx rx
  | RxOpt rx
  | RxLook rx
  | RxNotLook rx
  | RxEnd

definition digit_char :: "char \<Rightarrow> bool" where
  "digit_char c \<longleftrightarrow> 48 \<le> (of_char c :: nat) \<and> (of_char c :: nat) \<le> 57"

text \<open>What is left of a text after each way to match its beginning.\<close>

fun rx_rests :: "rx \<Rightarrow> string \<Rightarrow> string list" where
  "rx_rests RxEmpty s = [s]"
| "rx_rests (RxChar c) s = (case s of [] \<Rightarrow> [] | d # t \<Rightarrow> if d = c then [t] else [])"
| "rx_rests RxAny s = (case s of [] \<Rightarrow> [] | d # t \<Rightarrow> if d = nl then [] else [t])"
| "rx_rests RxDigit s = (case s of [] \<Rightarrow> [] | d # t \<Rightarrow> if digit_char d then [t] else [])"
| "rx_rests RxNonDigit s = (case s of [] \<Rightarrow> [] | d # t \<Rightarrow> if digit_char d then [] else [t])"
| "rx_rests (RxSeq a b) s = concat (map (rx_rests b) (rx_rests a s))"
| "rx_rests (RxAlt a b) s = rx_rests a s @ rx_rests b s"
| "rx_rests (RxOpt a) s = rx_rests a s @ [s]"
| "rx_rests (RxLook a) s = (if rx_rests a s = [] then [] else [s])"
| "rx_rests (RxNotLook a) s = (if rx_rests a s = [] then [s] else [])"
| "rx_rests RxEnd s = (if s = [] \<or> s = [nl] then [s] else [])"

definition rx_search :: "rx \<Rightarrow> string \<Rightarrow> bool" where
  "rx_search r s \<longleftrightarrow> list_ex (\<lambda>t. rx_rests r t \<noteq> []) (suffixes s)"

text \<open>
  A text that is put into a pattern as it is, provided that it is made of letters, digits, dashes and
  underscores (\<open>plain_text\<close> below); the dot of an extension stands for any character.  Texts with other
  characters, which may have a meaning in a regular expression, are outside of the model, and the theorems
  about the search for libraries exclude them.
\<close>

definition plain_text :: "string \<Rightarrow> bool" where
  "plain_text s \<longleftrightarrow> list_all (\<lambda>c. word_char c \<or> c = CHR ''-'' \<or> c = CHR ''.'') s"

fun rx_text :: "string \<Rightarrow> rx" where
  "rx_text [] = RxEmpty"
| "rx_text (c # s) = RxSeq (if c = CHR ''.'' then RxAny else RxChar c) (rx_text s)"

fun rx_seq :: "rx list \<Rightarrow> rx" where
  "rx_seq [] = RxEmpty"
| "rx_seq (r # rs) = RxSeq r (rx_seq rs)"

section \<open>What waf provides\<close>

text \<open>The argument of \<open>lib\<close> and \<open>stlib\<close>: nothing, a text or a list.\<close>

datatype libs_arg = NoLibs | LibText string | LibList "string list"

fun libs_given :: "libs_arg \<Rightarrow> bool" where
  "libs_given NoLibs \<longleftrightarrow> False"
| "libs_given (LibText s) \<longleftrightarrow> s \<noteq> ''''"
| "libs_given (LibList ls) \<longleftrightarrow> ls \<noteq> []"

text \<open>\<open>x in lib\<close>, which for a text looks for a part of it.\<close>

fun in_libs :: "string \<Rightarrow> libs_arg \<Rightarrow> bool" where
  "in_libs x NoLibs \<longleftrightarrow> False"
| "in_libs x (LibText s) \<longleftrightarrow> occurs x s"
| "in_libs x (LibList ls) \<longleftrightarrow> x \<in> set ls"

text \<open>
  \<open>bc_version_file\<close> is the node of \<^verbatim>\<open>boost/version.hpp\<close> in a directory, with the text it reads unless that
  raises; \<open>bc_glob\<close> the names that \<open>ant_glob('*boost_*')\<close> finds; \<open>bc_check_version\<close> and
  \<open>bc_check_link\<close> are \<open>check_cxx\<close>, which raises \<open>ConfigurationError\<close> or not.
\<close>

record ('env, 'n) boost_conf =
  bc_list :: "'env \<Rightarrow> string \<Rightarrow> string list"
  bc_str :: "'env \<Rightarrow> string \<Rightarrow> string"
  bc_set_list :: "'env \<Rightarrow> string \<Rightarrow> string list \<Rightarrow> 'env"
  bc_set_str :: "'env \<Rightarrow> string \<Rightarrow> string \<Rightarrow> 'env"
  bc_del :: "'env \<Rightarrow> string \<Rightarrow> 'env"
  bc_find_dir :: "string \<Rightarrow> 'n option"
  bc_version_file :: "'n \<Rightarrow> string option option"
  bc_glob :: "'n \<Rightarrow> string list"
  bc_abspath :: "'n \<Rightarrow> string"
  bc_listdir :: "string \<Rightarrow> string list"
  bc_environ :: "string \<Rightarrow> string"
  bc_platform :: string
  bc_to_list :: "libs_arg \<Rightarrow> string list"
  bc_check_version :: "string \<Rightarrow> string res"
  bc_check_link :: "string \<Rightarrow> 'env \<Rightarrow> bool"

record boost_params =
  bp_lib :: libs_arg
  bp_stlib :: libs_arg
  bp_required :: bool
  bp_includes :: string
  bp_libs :: string
  bp_mt :: bool
  bp_abi :: string
  bp_autodetect :: bool
  bp_toolset :: string
  bp_python :: string

definition configuration_failed :: py_error where
  "configuration_failed = WafError ''The configuration failed''"

definition BOOST_LIBS :: "string list" where
  "BOOST_LIBS = [''/usr/lib/x86_64-linux-gnu'', ''/usr/lib/i386-linux-gnu'', ''/usr/lib'', ''/usr/local/lib'', ''/opt/local/lib'',
     ''/sw/lib'', ''/lib'']"

definition BOOST_INCLUDES :: "string list" where
  "BOOST_INCLUDES = [''/usr/include'', ''/usr/local/include'', ''/opt/local/include'', ''/sw/include'']"

section \<open>Toolsets\<close>

datatype toolset = Fixed string | Detect_intel | Detect_clang | Detect_mingw

definition BOOST_TOOLSETS :: "(string \<times> toolset) list" where
  "BOOST_TOOLSETS =
     [(''borland'', Fixed ''bcb''), (''clang'', Detect_clang), (''como'', Fixed ''como''), (''cw'', Fixed ''cw''),
      (''darwin'', Fixed ''xgcc''), (''edg'', Fixed ''edg''), (''g++'', Detect_mingw), (''gcc'', Detect_mingw),
      (''icpc'', Detect_intel), (''intel'', Detect_intel), (''kcc'', Fixed ''kcc''), (''kylix'', Fixed ''bck''),
      (''mipspro'', Fixed ''mp''), (''mingw'', Fixed ''mgw''), (''msvc'', Fixed ''vc''), (''qcc'', Fixed ''qcc''),
      (''sun'', Fixed ''sw''), (''sunc++'', Fixed ''sw''), (''tru64cxx'', Fixed ''tru''), (''vacpp'', Fixed ''xlc'')]"

definition boost_get_toolset :: "('env, 'n) boost_conf \<Rightarrow> 'env \<Rightarrow> string \<Rightarrow> string res" where
  "boost_get_toolset bc env cc =
     (let cc' = (if cc = '''' then (if bc_platform bc \<in> set (keys BOOST_TOOLSETS) then bc_platform bc else bc_str bc env ''CXX_NAME'')
                 else cc);
          toolset = (case map_of BOOST_TOOLSETS cc' of None \<Rightarrow> Fixed cc | Some t \<Rightarrow> t)
      in (case toolset of
            Fixed t \<Rightarrow> if t \<noteq> '''' then Inr t else Inl TypeError
          | Detect_intel \<Rightarrow> Inr (if bc_platform bc = ''win32'' then ''iw'' else ''il'')
          | Detect_clang \<Rightarrow> Inr (if bc_platform bc = ''darwin'' then ''clang-darwin'' else ''clang'')
          | Detect_mingw \<Rightarrow> rbind (py_index (bc_list bc env ''CXX'') 0) (\<lambda>cxx. Inr (if occurs ''MinGW'' cxx then ''mgw'' else ''gcc''))))"

section \<open>Headers\<close>

definition boost_get_version_file :: "('env, 'n) boost_conf \<Rightarrow> string \<Rightarrow> string option option" where
  "boost_get_version_file bc d = (if d = '''' then None else Option.bind (bc_find_dir bc d) (bc_version_file bc))"

text \<open>The pattern \<open>^#define\s+BOOST_LIB_VERSION\s+"(.*)"\<close> at the start of a text; the group reaches to the last quote of its line.\<close>

definition version_value :: "string \<Rightarrow> string option" where
  "version_value s =
     (let rest = takeWhile (\<lambda>c. c \<noteq> nl) s
      in if startswith s [dquote] \<and> dquote \<in> set (tl rest)
         then Some (rev (tl (dropWhile (\<lambda>c. c \<noteq> dquote) (rev (tl rest))))) else None)"

definition skip_spaces :: "string \<Rightarrow> string option" where
  "skip_spaces s = (if s \<noteq> [] \<and> py3_space (hd s) then Some (dropWhile py3_space s) else None)"

definition version_define :: "string \<Rightarrow> string option" where
  "version_define s =
     (if startswith s ''#define'' then
        Option.bind (skip_spaces (drop 7 s)) (\<lambda>s.
          if startswith s ''BOOST_LIB_VERSION'' then Option.bind (skip_spaces (drop 17 s)) version_value else None)
      else None)"

text \<open>The first start of a line where it matches.\<close>

fun search_define :: "bool \<Rightarrow> string \<Rightarrow> string option" where
  "search_define at_start [] = None"
| "search_define at_start (c # s) =
     (case (if at_start then version_define (c # s) else None) of Some v \<Rightarrow> Some v | None \<Rightarrow> search_define (c = nl) s)"

definition boost_get_version :: "('env, 'n) boost_conf \<Rightarrow> string \<Rightarrow> string res" where
  "boost_get_version bc d =
     (case Option.bind (Option.bind (boost_get_version_file bc d) id) (search_define True) of
        Some v \<Rightarrow> Inr v
      | None \<Rightarrow> bc_check_version bc d)"

definition boost_get_includes :: "('env, 'n) boost_conf \<Rightarrow> string \<Rightarrow> string res" where
  "boost_get_includes bc includes =
     (if includes \<noteq> '''' \<and> boost_get_version_file bc includes \<noteq> None then Inr includes
      else
        (case find (\<lambda>d. boost_get_version_file bc d \<noteq> None) (split_on (CHR '';'') (bc_environ bc ''INCLUDE'') @ BOOST_INCLUDES) of
           Some d \<Rightarrow> Inr d
         | None \<Rightarrow> Inl configuration_failed))"

section \<open>Libraries\<close>

text \<open>The loop over the directories, with the values of \<open>path\<close> and \<open>files\<close> when it ends.\<close>

fun search_dirs :: "('env, 'n) boost_conf \<Rightarrow> string list \<Rightarrow> 'n option \<Rightarrow> string list option \<Rightarrow> 'n option \<times> string list option" where
  "search_dirs bc [] path fs = (path, fs)"
| "search_dirs bc (d # ds) path fs =
     (if d = '''' then search_dirs bc ds path fs
      else
        (let path = bc_find_dir bc d; fs = (case path of None \<Rightarrow> fs | Some n \<Rightarrow> Some (bc_glob bc n))
         in if path \<noteq> None \<and> fs \<noteq> Some [] then (path, fs)
            else
              (let path = bc_find_dir bc (d @ ''64''); fs = (case path of None \<Rightarrow> fs | Some n \<Rightarrow> Some (bc_glob bc n))
               in if path \<noteq> None \<and> fs \<noteq> Some [] then (path, fs) else search_dirs bc ds path fs)))"

definition given_dir :: "('env, 'n) boost_conf \<Rightarrow> string \<Rightarrow> ('n option \<times> string list option) res" where
  "given_dir bc libs =
     (if libs = '''' then Inr (None, None)
      else (case bc_find_dir bc libs of None \<Rightarrow> Inl AttributeError | Some n \<Rightarrow> Inr (Some n, Some (bc_glob bc n))))"

definition boost_get_libs_path :: "('env, 'n) boost_conf \<Rightarrow> boost_params \<Rightarrow> ('n option \<times> string list) res" where
  "boost_get_libs_path bc kw =
     rbind (given_dir bc (bp_libs kw)) (\<lambda>(path, fs).
       case (if bp_libs kw = '''' \<or> fs = Some []
             then search_dirs bc (split_on (CHR '';'') (bc_environ bc ''LIB'') @ BOOST_LIBS) path fs else (path, fs)) of
         (path, fs) \<Rightarrow>
           if path = None \<and> bp_required kw then Inl configuration_failed
           else (case fs of None \<Rightarrow> Inl UnboundLocalError | Some fs \<Rightarrow> Inr (path, fs)))"

definition find_lib :: "rx \<Rightarrow> string list \<Rightarrow> string option" where
  "find_lib r fs = find (rx_search r) fs"

definition last_dot :: "string \<Rightarrow> int" where
  "last_dot s = int (length s) - 1 - int (length (takeWhile (\<lambda>c. c \<noteq> CHR ''.'') (rev s)))"

definition format_lib_name :: "bool \<Rightarrow> string \<Rightarrow> string" where
  "format_lib_name msvc name =
     (let name = (if startswith name ''lib'' \<and> \<not> msvc then drop 3 name else name) in slice_to name (last_dot name))"

text \<open>\<open>ext.partition('%s')[2]\<close>.\<close>

fun after_name :: "string \<Rightarrow> string" where
  "after_name [] = []"
| "after_name (c # s) = (if startswith (c # s) ''%s'' then tl s else after_name s)"

text \<open>\<open>pattern % ''\<close>, for a pattern with one name in it.\<close>

fun without_name :: "string \<Rightarrow> string res" where
  "without_name [] = Inl TypeError"
| "without_name (c # s) = (if startswith (c # s) ''%s'' then Inr (tl s) else rbind (without_name s) (\<lambda>t. Inr (c # t)))"

definition lib_tags :: "boost_params \<Rightarrow> bool \<Rightarrow> string" where
  "lib_tags kw is_static =
     (if bp_mt kw then ''-mt'' else '''') @
     (if bp_abi kw \<noteq> '''' then (if is_static then ''-s'' else ''-'') @ bp_abi kw else if is_static then ''-s'' else '''')"

definition python_tags :: "string \<Rightarrow> string \<Rightarrow> rx res" where
  "python_tags tags python =
     rbind (py_index python 0) (\<lambda>major.
       Inr (RxSeq (RxOpt (rx_text tags))
         (RxAlt (rx_text (''-py'' @ python))
         (RxAlt (RxSeq (rx_text (''-py'' @ [major])) (RxLook RxNonDigit))
         (RxAlt (rx_text python)
         (RxAlt (RxSeq (rx_text [major]) (RxLook RxNonDigit))
                (RxSeq (RxLook RxNonDigit) (RxNotLook (rx_text ''-py'')))))))))"

text \<open>The patterns for one library, from the most strict to the least.\<close>

definition lib_patterns :: "string \<Rightarrow> string \<Rightarrow> string \<Rightarrow> rx \<Rightarrow> string \<Rightarrow> rx list" where
  "lib_patterns toolset version lib tags ext =
     (let boost = rx_text (''boost_'' @ lib);
          toolset_pat = RxSeq (rx_text (''-'' @ toolset)) (RxOpt (RxSeq RxDigit (RxOpt (RxSeq RxDigit (RxOpt RxDigit)))))
      in [rx_seq [boost, toolset_pat, tags, rx_text version, rx_text ext, RxEnd],
          rx_seq [boost, tags, rx_text version, rx_text ext, RxEnd],
          rx_seq [boost, toolset_pat, tags, rx_text ext, RxEnd],
          rx_seq [boost, tags, rx_text ext, RxEnd],
          rx_seq [boost, rx_text ext, RxEnd],
          boost])"

fun first_match :: "rx list \<Rightarrow> string list \<Rightarrow> string option" where
  "first_match [] fs = None"
| "first_match (r # rs) fs = (case find_lib r fs of Some f \<Rightarrow> Some f | None \<Rightarrow> first_match rs fs)"

fun match_each ::
  "boost_params \<Rightarrow> bool \<Rightarrow> string \<Rightarrow> string \<Rightarrow> string \<Rightarrow> string \<Rightarrow> string list \<Rightarrow> string list \<Rightarrow> string list res" where
  "match_each kw msvc toolset version tags ext fs [] = Inr []"
| "match_each kw msvc toolset version tags ext fs (lib # libs) =
     rbind (if lib = ''python'' then python_tags tags (bp_python kw) else Inr (rx_text tags)) (\<lambda>lib_tag.
     case first_match (lib_patterns toolset version lib lib_tag ext) fs of
       Some f \<Rightarrow> rbind (match_each kw msvc toolset version tags ext fs libs) (\<lambda>ns. Inr (format_lib_name msvc f # ns))
     | None \<Rightarrow> if bp_required kw then Inl configuration_failed else match_each kw msvc toolset version tags ext fs libs)"

definition match_libs ::
  "('env, 'n) boost_conf \<Rightarrow> 'env \<Rightarrow> boost_params \<Rightarrow> string \<Rightarrow> string list \<Rightarrow> libs_arg \<Rightarrow> bool \<Rightarrow> string list res" where
  "match_libs bc env kw toolset fs lib_names is_static =
     match_each kw (bc_str bc env ''CC_NAME'' = ''msvc'') toolset (''-'' @ bc_str bc env ''BOOST_VERSION'') (lib_tags kw is_static)
       (after_name (bc_str bc env (if is_static then ''cxxstlib_PATTERN'' else ''cxxshlib_PATTERN''))) fs (bc_to_list bc lib_names)"

text \<open>The files are tried from the longest name to the shortest, and by name from the last to the first.\<close>

definition sort_files :: "string list \<Rightarrow> string list" where
  "sort_files fs = rev (sort_key (\<lambda>f. (length f, f)) fs)"

definition boost_get_libs :: "('env, 'n) boost_conf \<Rightarrow> 'env \<Rightarrow> boost_params \<Rightarrow> (string \<times> string list \<times> string list) res" where
  "boost_get_libs bc env kw =
     rbind (boost_get_libs_path bc kw) (\<lambda>(path, fs).
       let fs = sort_files fs
       in rbind (boost_get_toolset bc env (bp_toolset kw)) (\<lambda>toolset.
          case path of
            None \<Rightarrow> Inl AttributeError
          | Some path \<Rightarrow>
              rbind (match_libs bc env kw toolset fs (bp_lib kw) False) (\<lambda>libs.
              rbind (match_libs bc env kw toolset fs (bp_stlib kw) True) (\<lambda>stlibs.
                Inr (bc_abspath bc path, libs, stlibs)))))"

section \<open>The check\<close>

definition try_link :: "('env, 'n) boost_conf \<Rightarrow> boost_params \<Rightarrow> 'env \<Rightarrow> bool" where
  "try_link bc params env \<longleftrightarrow>
     (in_libs ''system'' (bp_lib params) \<or> in_libs ''system'' (bp_stlib params) \<longrightarrow> bc_check_link bc ''BOOST_ERROR_CODE'' env) \<and>
     (in_libs ''thread'' (bp_lib params) \<or> in_libs ''thread'' (bp_stlib params) \<longrightarrow> bc_check_link bc ''BOOST_THREAD_CODE'' env)"

text \<open>A failed attempt goes back to the environment that \<open>stash\<close> had kept.\<close>

fun try_flags :: "('env, 'n) boost_conf \<Rightarrow> boost_params \<Rightarrow> string \<Rightarrow> string list list \<Rightarrow> 'env \<Rightarrow> 'env res" where
  "try_flags bc params var [] env = Inl configuration_failed"
| "try_flags bc params var (flags # others) env =
     (let env' = bc_set_list bc env (''CXXFLAGS_'' @ var) (bc_list bc env (''CXXFLAGS_'' @ var) @ flags)
      in if try_link bc params env' then Inr env' else try_flags bc params var others env)"

definition autodetect :: "('env, 'n) boost_conf \<Rightarrow> boost_params \<Rightarrow> string \<Rightarrow> string \<Rightarrow> string \<Rightarrow> string list \<Rightarrow> 'env \<Rightarrow> 'env res" where
  "autodetect bc params kw_toolset var path libs env =
     rbind (boost_get_toolset bc env kw_toolset) (\<lambda>toolset.
       if toolset = ''vc'' then
         (let env = bc_set_list bc env (''DEFINES_'' @ var) (bc_list bc env (''DEFINES_'' @ var) @ [''BOOST_ALL_NO_LIB''])
          in rbind (if bc_listdir bc path = [] then Inr [] else without_name (bc_str bc env ''cxxshlib_PATTERN'')) (\<lambda>dll.
             let has_dlls = list_ex (\<lambda>x. endswith x dll) (bc_listdir bc path);
                 env = (if has_dlls then env
                        else bc_del bc (bc_del bc (bc_set_list bc (bc_set_list bc env (''STLIBPATH_'' @ var) [path]) (''STLIB_'' @ var) libs)
                               (''LIB_'' @ var)) (''LIBPATH_'' @ var))
             in try_flags bc params var [[''/MD'', ''/EHsc''], []] env))
       else Inl configuration_failed)"

text \<open>The options of the command line, or else the arguments of the call.\<close>

definition merge_params :: "boost_params \<Rightarrow> boost_params \<Rightarrow> boost_params" where
  "merge_params options kw =
     kw\<lparr>bp_includes := (if bp_includes options \<noteq> '''' then bp_includes options else bp_includes kw),
        bp_libs := (if bp_libs options \<noteq> '''' then bp_libs options else bp_libs kw),
        bp_mt := (bp_mt options \<or> bp_mt kw),
        bp_abi := (if bp_abi options \<noteq> '''' then bp_abi options else bp_abi kw),
        bp_autodetect := (bp_autodetect options \<or> bp_autodetect kw),
        bp_toolset := (if bp_toolset options \<noteq> '''' then bp_toolset options else bp_toolset kw),
        bp_python := (if bp_python options \<noteq> '''' then bp_python options else bp_python kw)\<rparr>"

definition check_boost :: "('env, 'n) boost_conf \<Rightarrow> boost_params \<Rightarrow> boost_params \<Rightarrow> string \<Rightarrow> 'env \<Rightarrow> 'env res" where
  "check_boost bc options kw var env =
     (if bc_list bc env ''CXX'' = [] then Inl (WafError (''load a c++ compiler first, conf.load('' @ [dquote] @ ''compiler_cxx'' @ [dquote] @ '')''))
      else
        let params = merge_params options kw
        in rbind (boost_get_includes bc (bp_includes params)) (\<lambda>inc.
        let env = bc_set_str bc env (''INCLUDES_'' @ var) inc
        in rbind (boost_get_version bc inc) (\<lambda>version.
           let env = bc_set_str bc env ''BOOST_VERSION'' version
           in if \<not> libs_given (bp_lib params) \<and> \<not> libs_given (bp_stlib params) then Inr env
              else
                rbind (boost_get_libs bc env params) (\<lambda>(path, libs, stlibs).
                let env = bc_set_list bc env (''LIBPATH_'' @ var) [path];
                    env = bc_set_list bc env (''STLIBPATH_'' @ var) [path];
                    env = bc_set_list bc env (''LIB_'' @ var) libs;
                    env = bc_set_list bc env (''STLIB_'' @ var) stlibs
                in if bp_autodetect params then autodetect bc params (bp_toolset kw) var path libs env
                   else if try_link bc params env then Inr env else Inl configuration_failed))))"

text \<open>The installation on Windows, once; \<open>find_dll\<close> is \<open>find_file\<close> with \<open>find_node\<close>, and a library it does not find is left out.\<close>

definition install_boost :: "(string \<Rightarrow> 'f option) \<Rightarrow> bool \<Rightarrow> string \<Rightarrow> string list \<Rightarrow> bool \<Rightarrow> 'f list \<times> bool" where
  "install_boost find_dll is_win32 cmd libs is_done =
     (if is_done \<or> \<not> is_win32 \<or> \<not> startswith cmd ''install'' then ([], is_done) else (List.map_filter find_dll libs, True))"

section \<open>Which files match\<close>

text \<open>A name that stands for itself in a pattern, and for which the tags are not those of Python.\<close>

definition plain_name :: "string \<Rightarrow> bool" where
  "plain_name lib \<longleftrightarrow> lib \<noteq> ''python'' \<and> plain_text lib \<and> CHR ''.'' \<notin> set lib"

lemma rx_text_rests: "CHR ''.'' \<notin> set p \<Longrightarrow> rx_rests (rx_text p) s = (if startswith s p then [drop (length p) s] else [])"
  by (induction p arbitrary: s) (auto simp: startswith_def split: list.splits)

lemma rx_search_iff: "rx_search r s \<longleftrightarrow> (\<exists>a t. s = a @ t \<and> rx_rests r t \<noteq> [])"
  unfolding rx_search_def list_ex_iff set_suffixes_eq suffix_def by blast

lemma rx_search_text: "CHR ''.'' \<notin> set p \<Longrightarrow> rx_search (rx_text p) s \<longleftrightarrow> occurs p s"
  unfolding rx_search_iff occurs_iff by (simp add: rx_text_rests startswith_iff) blast

lemma rx_search_Seq: "rx_search (RxSeq a b) s \<Longrightarrow> rx_search a s"
  unfolding rx_search_iff by fastforce

text \<open>Every pattern for a library asks for its name, and the last for nothing else.\<close>

lemma pattern_name:
  assumes "CHR ''.'' \<notin> set lib" "r \<in> set (lib_patterns toolset version lib tags ext)" "rx_search r f"
  shows "occurs (''boost_'' @ lib) f"
proof -
  let ?b = "''boost_'' @ lib"
  have dot: "CHR ''.'' \<notin> set ?b" using assms(1) by simp
  from assms(2,3) have "rx_search (rx_text ?b) f"
    unfolding lib_patterns_def Let_def by (auto simp only: set_simps rx_seq.simps insert_iff empty_iff dest: rx_search_Seq)
  then show ?thesis by (simp only: rx_search_text [OF dot])
qed

lemma first_match_sound: "first_match rs fs = Some f \<Longrightarrow> f \<in> set fs \<and> (\<exists>r \<in> set rs. rx_search r f)"
  by (induction rs) (auto simp: find_lib_def find_Some_iff split: option.splits)

lemma first_match_None: "first_match rs fs = None \<longleftrightarrow> (\<forall>r \<in> set rs. \<forall>f \<in> set fs. \<not> rx_search r f)"
proof (induction rs)
  case (Cons r rs)
  show ?case
  proof (cases "find_lib r fs")
    case None
    then have "\<forall>f \<in> set fs. \<not> rx_search r f" by (auto simp: find_lib_def find_None_iff)
    then show ?thesis using None Cons by simp
  next
    case (Some f)
    then have "f \<in> set fs \<and> rx_search r f" by (auto simp: find_lib_def find_Some_iff)
    then show ?thesis using Some by auto
  qed
qed simp

lemma library_match:
  assumes "CHR ''.'' \<notin> set lib"
  shows "case first_match (lib_patterns toolset version lib tags ext) fs of
     Some f \<Rightarrow> f \<in> set fs \<and> occurs (''boost_'' @ lib) f
   | None \<Rightarrow> \<forall>f \<in> set fs. \<not> occurs (''boost_'' @ lib) f"
proof (cases "first_match (lib_patterns toolset version lib tags ext) fs")
  case None
  have dot: "CHR ''.'' \<notin> set (''boost_'' @ lib)" using assms by simp
  have "rx_text (''boost_'' @ lib) \<in> set (lib_patterns toolset version lib tags ext)" by (simp add: lib_patterns_def Let_def)
  then have "\<forall>f \<in> set fs. \<not> rx_search (rx_text (''boost_'' @ lib)) f" using None unfolding first_match_None by blast
  then have "\<forall>f \<in> set fs. \<not> occurs (''boost_'' @ lib) f" by (simp only: rx_search_text [OF dot])
  then show ?thesis unfolding None option.case .
next
  case (Some f)
  then show ?thesis using first_match_sound [OF Some] pattern_name [OF assms] by auto
qed

text \<open>
  The file that is taken: it matches the strictest pattern that any file matches, and among the files
  that match this pattern it has the longest name, and of those the last in the order of names.\<close>

definition best_match :: "rx list \<Rightarrow> string list \<Rightarrow> string \<Rightarrow> bool" where
  "best_match rs fs f \<longleftrightarrow> f \<in> set fs \<and>
     (\<exists>k < length rs. rx_search (rs ! k) f \<and> (\<forall>i < k. \<forall>g \<in> set fs. \<not> rx_search (rs ! i) g) \<and>
        (\<forall>g \<in> set fs. rx_search (rs ! k) g \<longrightarrow> (length g, g) \<le> (length f, f)))"

lemma set_sort_files [simp]: "set (sort_files fs) = set fs"
  by (simp add: sort_files_def)

lemma find_lib_sorted:
  assumes "find_lib r (sort_files fs) = Some f" "g \<in> set fs" "rx_search r g"
  shows "(length g, g) \<le> (length f, f)"
proof -
  let ?key = "\<lambda>f :: string. (length f, f)"
  from assms(1) obtain i where i: "i < length (sort_files fs)" "sort_files fs ! i = f" "\<And>j. j < i \<Longrightarrow> \<not> rx_search r (sort_files fs ! j)"
    by (auto simp: find_lib_def find_Some_iff)
  obtain j where j: "j < length (sort_files fs)" "sort_files fs ! j = g"
    using assms(2) by (metis in_set_conv_nth set_sort_files)
  have "i \<le> j" using i(3) [of j] j assms(3) by (metis not_le)
  moreover have "sorted (rev (map ?key (sort_files fs)))" unfolding sort_files_def by (simp flip: rev_map)
  ultimately have "map ?key (sort_files fs) ! j \<le> map ?key (sort_files fs) ! i"
    using sorted_rev_nth_mono [of "map ?key (sort_files fs)" i j] j(1) by simp
  then show ?thesis using i(1,2) j by simp
qed

lemma first_match_best: "first_match rs (sort_files fs) = Some f \<Longrightarrow> best_match rs fs f"
proof (induction rs)
  case (Cons r rs)
  show ?case
  proof (cases "find_lib r (sort_files fs)")
    case None
    then have no: "\<forall>g \<in> set fs. \<not> rx_search r g" by (auto simp: find_lib_def find_None_iff)
    from Cons None have "best_match rs fs f" by simp
    then obtain k where "f \<in> set fs" "k < length rs" "rx_search (rs ! k) f" "\<forall>i < k. \<forall>g \<in> set fs. \<not> rx_search (rs ! i) g"
      "\<forall>g \<in> set fs. rx_search (rs ! k) g \<longrightarrow> (length g, g) \<le> (length f, f)" by (auto simp: best_match_def)
    with no show ?thesis unfolding best_match_def by (intro conjI exI [of _ "Suc k"]) (auto simp: less_Suc_eq_0_disj)
  next
    case (Some g)
    then have "g = f" using Cons.prems by simp
    moreover have "g \<in> set (sort_files fs)" "rx_search r g"
      using Some by (auto simp: find_lib_def find_Some_iff simp del: set_sort_files)
    ultimately show ?thesis using find_lib_sorted [OF Some] unfolding best_match_def
      by (intro conjI exI [of _ 0]) simp_all
  qed
qed simp

text \<open>The file that stands for a library.\<close>

definition lib_file :: "(string \<Rightarrow> rx list) \<Rightarrow> string list \<Rightarrow> bool \<Rightarrow> string \<Rightarrow> string \<Rightarrow> bool" where
  "lib_file pats fs msvc lib name \<longleftrightarrow>
     (\<exists>f. best_match (pats lib) fs f \<and> occurs (''boost_'' @ lib) f \<and> name = format_lib_name msvc f)"

lemma match_each_exact:
  assumes "bp_required kw" "\<And>lib. lib \<in> set libs \<Longrightarrow> plain_name lib"
  shows "case match_each kw msvc toolset version tags ext (sort_files fs) libs of
     Inr ns \<Rightarrow> list_all2 (lib_file (\<lambda>lib. lib_patterns toolset version lib (rx_text tags) ext) fs msvc) libs ns
   | Inl e \<Rightarrow> e = configuration_failed \<and> (\<exists>lib \<in> set libs. \<forall>f \<in> set fs. \<not> occurs (''boost_'' @ lib) f)"
  using assms(2)
proof (induction libs)
  case (Cons lib libs)
  let ?each = "match_each kw msvc toolset version tags ext (sort_files fs)"
  let ?pats = "\<lambda>lib. lib_patterns toolset version lib (rx_text tags) ext"
  have tag: "lib \<noteq> ''python''" "CHR ''.'' \<notin> set lib" using Cons.prems [of lib] by (simp_all add: plain_name_def)
  have IH: "case ?each libs of Inr ns \<Rightarrow> list_all2 (lib_file ?pats fs msvc) libs ns
     | Inl e \<Rightarrow> e = configuration_failed \<and> (\<exists>lib \<in> set libs. \<forall>f \<in> set fs. \<not> occurs (''boost_'' @ lib) f)"
    using Cons by simp
  note m = library_match [OF tag(2), where toolset = toolset and version = version and tags = "rx_text tags" and ext = ext and fs = "sort_files fs",
      unfolded set_sort_files]
  show ?case
  proof (cases "first_match (?pats lib) (sort_files fs)")
    case None
    then show ?thesis using m assms(1) tag by simp
  next
    case (Some f)
    then have "lib_file ?pats fs msvc lib (format_lib_name msvc f)" using m first_match_best [OF Some] by (auto simp: lib_file_def)
    then show ?thesis using IH Some tag by (cases "?each libs") simp_all
  qed
qed simp

lemma search_dirs_glob:
  "search_dirs bc ds path fs = (Some n, fs') \<Longrightarrow> (\<And>m. path = Some m \<Longrightarrow> fs = Some (bc_glob bc m)) \<Longrightarrow> fs' = Some (bc_glob bc n)"
  by (induction bc ds path fs rule: search_dirs.induct) (auto simp: Let_def split: if_splits option.splits)

lemma libs_path_glob:
  assumes "boost_get_libs_path bc kw = Inr (Some n, fs)"
  shows "fs = bc_glob bc n"
proof -
  let ?dirs = "split_on (CHR '';'') (bc_environ bc ''LIB'') @ BOOST_LIBS"
  obtain path fs0 where given: "given_dir bc (bp_libs kw) = Inr (path, fs0)"
    using assms by (cases "given_dir bc (bp_libs kw)") (auto simp: boost_get_libs_path_def)
  have start: "\<And>m. path = Some m \<Longrightarrow> fs0 = Some (bc_glob bc m)" using given by (auto simp: given_dir_def split: if_splits option.splits)
  obtain p f where pf: "(if bp_libs kw = '''' \<or> fs0 = Some [] then search_dirs bc ?dirs path fs0 else (path, fs0)) = (p, f)"
    by (rule prod.exhaust)
  have "p = Some n \<and> f = Some fs"
    using assms unfolding boost_get_libs_path_def given rbind_simps prod.case pf by (simp split: if_splits option.splits)
  then have res: "p = Some n" "f = Some fs" by simp_all
  show ?thesis
  proof (cases "bp_libs kw = '''' \<or> fs0 = Some []")
    case True
    then have "search_dirs bc ?dirs path fs0 = (Some n, Some fs)" using pf res by (simp only: if_True)
    then have "Some fs = Some (bc_glob bc n)" by (rule search_dirs_glob) (rule start)
    then show ?thesis by simp
  next
    case False
    then show ?thesis using pf res start by simp
  qed
qed

text \<open>The patterns that \<open>match_libs\<close> makes up for a library other than Python.\<close>

definition asked_patterns :: "('env, 'n) boost_conf \<Rightarrow> 'env \<Rightarrow> boost_params \<Rightarrow> string \<Rightarrow> bool \<Rightarrow> string \<Rightarrow> rx list" where
  "asked_patterns bc env kw toolset is_static lib =
     lib_patterns toolset (''-'' @ bc_str bc env ''BOOST_VERSION'') lib (rx_text (lib_tags kw is_static))
       (after_name (bc_str bc env (if is_static then ''cxxstlib_PATTERN'' else ''cxxshlib_PATTERN'')))"

lemma match_libs_exact:
  assumes "bp_required kw" "\<And>lib. lib \<in> set (bc_to_list bc arg) \<Longrightarrow> plain_name lib"
  shows "case match_libs bc env kw toolset (sort_files fs) arg st of
     Inr ns \<Rightarrow> list_all2 (lib_file (asked_patterns bc env kw toolset st) fs (bc_str bc env ''CC_NAME'' = ''msvc'')) (bc_to_list bc arg) ns
   | Inl e \<Rightarrow> e = configuration_failed \<and> (\<exists>lib \<in> set (bc_to_list bc arg). \<forall>f \<in> set fs. \<not> occurs (''boost_'' @ lib) f)"
  unfolding match_libs_def asked_patterns_def by (rule match_each_exact [OF assms])

text \<open>No text that is put into a pattern has a character with a meaning in regular expressions, but the dot.\<close>

definition plain_texts :: "('env, 'n) boost_conf \<Rightarrow> 'env \<Rightarrow> boost_params \<Rightarrow> string \<Rightarrow> bool" where
  "plain_texts bc env kw toolset \<longleftrightarrow>
     list_all plain_text [toolset, bp_abi kw, bc_str bc env ''BOOST_VERSION'',
       after_name (bc_str bc env ''cxxshlib_PATTERN''), after_name (bc_str bc env ''cxxstlib_PATTERN'')]"

text \<open>
  C25: with a directory and a toolset found, the libraries required, and none of them Python: the function
  \<open>boost_get_libs\<close> fails exactly when a library is asked for whose name occurs in no file of the directory after \<^verbatim>\<open>boost_\<close>,
  whatever the stricter patterns say; otherwise it gives, for each library in turn, the name of the file
  that matches the strictest pattern any file matches and has the longest name among those (the last by name
  for equal lengths), and that file has the library's name in it.  The names of the libraries are letters, digits,
  dashes and underscores, and the toolset, ABI, version and extension have no special character but dots.
\<close>
theorem boost_libs_exact:
  assumes "boost_get_libs_path bc kw = Inr (Some n, fs)" "boost_get_toolset bc env (bp_toolset kw) = Inr toolset"
    and "bp_required kw" "plain_texts bc env kw toolset"
    and "\<And>lib. lib \<in> set (bc_to_list bc (bp_lib kw)) \<union> set (bc_to_list bc (bp_stlib kw)) \<Longrightarrow> plain_name lib"
  shows "case boost_get_libs bc env kw of
     Inr (path, libs, stlibs) \<Rightarrow> path = bc_abspath bc n \<and>
       list_all2 (lib_file (asked_patterns bc env kw toolset False) (bc_glob bc n) (bc_str bc env ''CC_NAME'' = ''msvc''))
         (bc_to_list bc (bp_lib kw)) libs \<and>
       list_all2 (lib_file (asked_patterns bc env kw toolset True) (bc_glob bc n) (bc_str bc env ''CC_NAME'' = ''msvc''))
         (bc_to_list bc (bp_stlib kw)) stlibs
   | Inl e \<Rightarrow> e = configuration_failed \<and>
       (\<exists>lib \<in> set (bc_to_list bc (bp_lib kw)) \<union> set (bc_to_list bc (bp_stlib kw)). \<forall>f \<in> set (bc_glob bc n). \<not> occurs (''boost_'' @ lib) f)"
proof -
  let ?m = "bc_str bc env ''CC_NAME'' = ''msvc''" and ?fs = "bc_glob bc n"
  have each: "case match_libs bc env kw toolset (sort_files ?fs) arg st of
     Inr ns \<Rightarrow> list_all2 (lib_file (asked_patterns bc env kw toolset st) ?fs ?m) (bc_to_list bc arg) ns
   | Inl e \<Rightarrow> e = configuration_failed \<and> (\<exists>lib \<in> set (bc_to_list bc arg). \<forall>f \<in> set ?fs. \<not> occurs (''boost_'' @ lib) f)"
    if "arg = bp_lib kw \<or> arg = bp_stlib kw" for arg st
    using that by (intro match_libs_exact assms(3)) (auto intro: assms(5))
  have "boost_get_libs bc env kw = rbind (match_libs bc env kw toolset (sort_files ?fs) (bp_lib kw) False) (\<lambda>libs.
      rbind (match_libs bc env kw toolset (sort_files ?fs) (bp_stlib kw) True) (\<lambda>stlibs. Inr (bc_abspath bc n, libs, stlibs)))"
    using assms(1,2) libs_path_glob [OF assms(1)] by (simp add: boost_get_libs_def Let_def)
  then show ?thesis using each [of "bp_lib kw" False] each [of "bp_stlib kw" True]
    by (auto split: sum.splits simp: rbind_def)
qed

text \<open>A context in which two libraries are installed.\<close>

definition dict_conf :: "string list \<Rightarrow> ((string \<Rightarrow> string list) \<times> (string \<Rightarrow> string), unit) boost_conf" where
  "dict_conf fs =
     \<lparr>bc_list = fst, bc_str = snd, bc_set_list = (\<lambda>(l, s) k v. (l(k := v), s)), bc_set_str = (\<lambda>(l, s) k v. (l, s(k := v))),
      bc_del = (\<lambda>(l, s) k. (l(k := []), s(k := ''''))), bc_find_dir = (\<lambda>d. if d = ''/usr/lib'' \<or> d = ''/usr/include'' then Some () else None),
      bc_version_file = (\<lambda>n. Some (Some (''#define BOOST_LIB_VERSION '' @ [dquote] @ ''1_65'' @ [dquote] @ [nl]))), bc_glob = (\<lambda>n. fs),
      bc_abspath = (\<lambda>n. ''/usr/lib''), bc_listdir = (\<lambda>d. fs), bc_environ = (\<lambda>k. ''''), bc_platform = ''linux'',
      bc_to_list = (\<lambda>a. case a of NoLibs \<Rightarrow> [] | LibText t \<Rightarrow> split_on (CHR '' '') t | LibList ls \<Rightarrow> ls),
      bc_check_version = (\<lambda>d. Inl configuration_failed), bc_check_link = (\<lambda>c e. True)\<rparr>"

definition linux_env :: "(string \<Rightarrow> string list) \<times> (string \<Rightarrow> string)" where
  "linux_env = ((\<lambda>k. [])(''CXX'' := [''/usr/bin/g++'']),
     (\<lambda>k. '''')(''CXX_NAME'' := ''gcc'', ''CC_NAME'' := ''gcc'', ''cxxshlib_PATTERN'' := ''lib%s.so'', ''cxxstlib_PATTERN'' := ''lib%s.a''))"

definition ask :: "string list \<Rightarrow> boost_params" where
  "ask ls = \<lparr>bp_lib = LibList ls, bp_stlib = NoLibs, bp_required = True, bp_includes = '''', bp_libs = '''', bp_mt = False, bp_abi = '''',
     bp_autodetect = False, bp_toolset = '''', bp_python = ''27''\<rparr>"

definition demo_libs :: "string list" where
  "demo_libs = [''libboost_thread.so'', ''libboost_log_setup.so'']"

lemma demo_selectors:
  "bc_glob (dict_conf fs) n = fs" "bc_abspath (dict_conf fs) n = ''/usr/lib''" "bc_str (dict_conf fs) linux_env ''CC_NAME'' = ''gcc''"
  "bc_to_list (dict_conf fs) NoLibs = []" "bc_to_list (dict_conf fs) (LibList ls) = ls" "bp_lib (ask ls) = LibList ls"
  "bp_stlib (ask ls) = NoLibs" "bp_required (ask ls)" "bp_python (ask ls) = ''27''" "bp_toolset (ask ls) = ''''" "demo_libs \<noteq> []"
  by (simp_all add: dict_conf_def linux_env_def ask_def demo_libs_def)

lemma demo_path: "fs \<noteq> [] \<Longrightarrow> boost_get_libs_path (dict_conf fs) (ask ls) = Inr (Some (), fs)"
  by (simp add: boost_get_libs_path_def given_dir_def dict_conf_def ask_def BOOST_LIBS_def)

lemma demo_toolset: "boost_get_toolset (dict_conf fs) linux_env '''' = Inr ''gcc''"
  by (simp add: boost_get_toolset_def dict_conf_def linux_env_def BOOST_TOOLSETS_def py_index_def startswith_def)

lemma demo_texts: "plain_texts (dict_conf fs) linux_env (ask ls) ''gcc''"
  by (simp add: plain_texts_def dict_conf_def linux_env_def ask_def plain_text_def word_char_def startswith_def)

lemma demo_names: "plain_name ''thread''" "plain_name ''regex''"
  by (simp_all add: plain_name_def plain_text_def word_char_def)

theorem boost_libs_exact_witness:
  "boost_get_libs (dict_conf demo_libs) linux_env (ask [''thread'']) = Inr (''/usr/lib'', [''boost_thread''], []) \<and>
   boost_get_libs (dict_conf demo_libs) linux_env (ask [''regex'']) = Inl configuration_failed"
proof -
  let ?bc = "dict_conf demo_libs"
  have exact: "case boost_get_libs ?bc linux_env (ask [lib]) of
     Inr (path, libs, stlibs) \<Rightarrow> path = ''/usr/lib'' \<and> stlibs = [] \<and>
       list_all2 (lib_file (asked_patterns ?bc linux_env (ask [lib]) ''gcc'' False) demo_libs False) [lib] libs
   | Inl e \<Rightarrow> e = configuration_failed \<and> (\<forall>f \<in> set demo_libs. \<not> occurs (''boost_'' @ lib) f)"
    if "plain_name lib" for lib
    using boost_libs_exact [of ?bc "ask [lib]" "()" demo_libs linux_env "''gcc''"] that
    by (auto simp: demo_selectors demo_path demo_toolset demo_texts split: sum.splits)
  have "lib_file pats demo_libs False ''thread'' x \<Longrightarrow> x = ''boost_thread''" for x pats
    by (auto simp: lib_file_def best_match_def demo_libs_def startswith_def format_lib_name_def slice_to_def norm_index_def last_dot_def)
  moreover have "occurs ''boost_thread'' ''libboost_thread.so''" "\<not> lib_file pats demo_libs False ''regex'' x" for x pats
    by (auto simp: startswith_def lib_file_def best_match_def demo_libs_def)
  ultimately show ?thesis
    using exact [of "''thread''"] exact [of "''regex''"]
    by (auto simp: demo_names list_all2_Cons1 demo_libs_def split: sum.splits)
qed

section \<open>The whole check\<close>

text \<open>The documented behaviour of the environment: a variable that is set has its value, and no other changes.\<close>

locale boost_env =
  fixes bc :: "('env, 'n) boost_conf"
  assumes list_set: "bc_list bc (bc_set_list bc e k v) k' = (if k' = k then v else bc_list bc e k')"
    and str_set: "bc_str bc (bc_set_str bc e k w) k' = (if k' = k then w else bc_str bc e k')"
    and list_other: "k' \<noteq> k \<Longrightarrow> bc_list bc (bc_set_str bc e k w) k' = bc_list bc e k'"
    and str_other: "k' \<noteq> k \<Longrightarrow> bc_str bc (bc_set_list bc e k v) k' = bc_str bc e k'"
begin

lemmas env_laws = list_set str_set list_other str_other

text \<open>What a successful check has stored.\<close>

lemma check_stores:
  assumes "check_boost bc options kw var env = Inr env'" "\<not> bp_autodetect (merge_params options kw)"
    and "libs_given (bp_lib kw) \<or> libs_given (bp_stlib kw)"
  shows "\<exists>inc version path libs stlibs. boost_get_includes bc (bp_includes (merge_params options kw)) = Inr inc \<and>
    boost_get_version bc inc = Inr version \<and>
    boost_get_libs bc (bc_set_str bc (bc_set_str bc env (''INCLUDES_'' @ var) inc) ''BOOST_VERSION'' version) (merge_params options kw) = Inr (path, libs, stlibs) \<and>
    bc_str bc env' (''INCLUDES_'' @ var) = inc \<and> bc_str bc env' ''BOOST_VERSION'' = version \<and>
    bc_list bc env' (''LIBPATH_'' @ var) = [path] \<and> bc_list bc env' (''LIB_'' @ var) = libs \<and>
    bc_list bc env' (''STLIBPATH_'' @ var) = [path] \<and> bc_list bc env' (''STLIB_'' @ var) = stlibs \<and>
    try_link bc (merge_params options kw) env'"
proof -
  let ?p = "merge_params options kw"
  have given: "libs_given (bp_lib ?p) \<or> libs_given (bp_stlib ?p)" using assms(3) by (simp add: merge_params_def)
  obtain inc where inc: "boost_get_includes bc (bp_includes ?p) = Inr inc"
    using assms(1) by (cases "boost_get_includes bc (bp_includes ?p)") (simp_all add: check_boost_def Let_def split: if_splits)
  obtain version where v: "boost_get_version bc inc = Inr version"
    using assms(1) inc by (cases "boost_get_version bc inc") (simp_all add: check_boost_def Let_def split: if_splits)
  let ?e = "bc_set_str bc (bc_set_str bc env (''INCLUDES_'' @ var) inc) ''BOOST_VERSION'' version"
  obtain path libs stlibs where l: "boost_get_libs bc ?e ?p = Inr (path, libs, stlibs)"
    using assms(1) inc v given by (cases "boost_get_libs bc ?e ?p") (auto simp: check_boost_def Let_def split: if_splits)
  let ?e' = "bc_set_list bc (bc_set_list bc (bc_set_list bc (bc_set_list bc ?e (''LIBPATH_'' @ var) [path]) (''STLIBPATH_'' @ var) [path])
    (''LIB_'' @ var) libs) (''STLIB_'' @ var) stlibs"
  have "env' = ?e' \<and> try_link bc ?p ?e'"
    using assms(1,2) inc v l given by (auto simp: check_boost_def Let_def split: if_splits)
  then show ?thesis using inc v l by (simp add: env_laws)
qed

end

interpretation dict_env: boost_env "dict_conf fs"
  by unfold_locales (auto simp: dict_conf_def)

lemma includes_hold: "boost_get_includes bc inc0 = Inr inc \<Longrightarrow> boost_get_version_file bc inc \<noteq> None"
  by (auto simp: boost_get_includes_def find_Some_iff split: if_splits option.splits)

lemma libs_run:
  assumes "boost_get_libs bc env kw = Inr (path, libs, stlibs)"
  shows "\<exists>n fs ts. boost_get_libs_path bc kw = Inr (Some n, fs) \<and> boost_get_toolset bc env (bp_toolset kw) = Inr ts"
proof -
  obtain p fs where p: "boost_get_libs_path bc kw = Inr (p, fs)"
    using assms by (cases "boost_get_libs_path bc kw") (auto simp: boost_get_libs_def)
  obtain ts where t: "boost_get_toolset bc env (bp_toolset kw) = Inr ts"
    using assms p by (cases "boost_get_toolset bc env (bp_toolset kw)") (simp_all add: boost_get_libs_def Let_def)
  show ?thesis using assms p t by (cases p) (simp_all add: boost_get_libs_def Let_def)
qed

lemma libs_found:
  assumes "boost_get_libs bc env kw = Inr (path, libs, stlibs)" "bp_required kw"
    and "\<And>lib. lib \<in> set (bc_to_list bc (bp_lib kw)) \<union> set (bc_to_list bc (bp_stlib kw)) \<Longrightarrow> plain_name lib"
  shows "\<exists>n ts. path = bc_abspath bc n \<and>
    list_all2 (lib_file (asked_patterns bc env kw ts False) (bc_glob bc n) (bc_str bc env ''CC_NAME'' = ''msvc'')) (bc_to_list bc (bp_lib kw)) libs \<and>
    list_all2 (lib_file (asked_patterns bc env kw ts True) (bc_glob bc n) (bc_str bc env ''CC_NAME'' = ''msvc'')) (bc_to_list bc (bp_stlib kw)) stlibs"
proof -
  obtain n fs ts where run: "boost_get_libs_path bc kw = Inr (Some n, fs)" "boost_get_toolset bc env (bp_toolset kw) = Inr ts"
    using libs_run [OF assms(1)] by blast
  have fs: "fs = bc_glob bc n" by (rule libs_path_glob [OF run(1)])
  have "match_libs bc env kw ts (sort_files (bc_glob bc n)) (bp_lib kw) False = Inr libs \<and>
      match_libs bc env kw ts (sort_files (bc_glob bc n)) (bp_stlib kw) True = Inr stlibs \<and> path = bc_abspath bc n"
    using assms(1) run by (auto simp: boost_get_libs_def Let_def fs rbind_eq_Inr)
  then show ?thesis
    using match_libs_exact [OF assms(2), where bc = bc and arg = "bp_lib kw" and env = env and toolset = ts and fs = "bc_glob bc n" and st = False]
      match_libs_exact [OF assms(2), where bc = bc and arg = "bp_stlib kw" and env = env and toolset = ts and fs = "bc_glob bc n" and st = True]
      assms(3) by (intro exI [of _ n] exI [of _ ts]) auto
qed

text \<open>A file whose name has the name of the library in it is stored for it.\<close>

definition named_file :: "string list \<Rightarrow> bool \<Rightarrow> string \<Rightarrow> string \<Rightarrow> bool" where
  "named_file fs msvc lib name \<longleftrightarrow> (\<exists>f \<in> set fs. occurs (''boost_'' @ lib) f \<and> name = format_lib_name msvc f)"

lemma lib_file_named: "list_all2 (lib_file pats fs msvc) libs ns \<Longrightarrow> list_all2 (named_file fs msvc) libs ns"
  by (erule list_all2_mono) (auto simp: lib_file_def named_file_def best_match_def)

text \<open>
  When \<open>check_boost\<close> succeeds, the stored directory of headers holds \<^verbatim>\<open>boost/version.hpp\<close>, the stored
  directory of libraries holds for each shared and each static library that was asked for the file whose
  name is stored, and the checks of linking have succeeded in exactly the environment that is kept.
\<close>
theorem check_boost_sound:
  assumes "boost_env bc" "check_boost bc options kw var env = Inr env'" "\<not> bp_autodetect (merge_params options kw)"
    and "libs_given (bp_lib kw) \<or> libs_given (bp_stlib kw)" "bp_required kw"
    and "\<And>lib. lib \<in> set (bc_to_list bc (bp_lib kw)) \<union> set (bc_to_list bc (bp_stlib kw)) \<Longrightarrow> plain_name lib"
  shows "boost_get_version_file bc (bc_str bc env' (''INCLUDES_'' @ var)) \<noteq> None \<and>
    (\<exists>n. bc_list bc env' (''LIBPATH_'' @ var) = [bc_abspath bc n] \<and> bc_list bc env' (''STLIBPATH_'' @ var) = [bc_abspath bc n] \<and>
       list_all2 (named_file (bc_glob bc n) (bc_str bc env ''CC_NAME'' = ''msvc'')) (bc_to_list bc (bp_lib kw)) (bc_list bc env' (''LIB_'' @ var)) \<and>
       list_all2 (named_file (bc_glob bc n) (bc_str bc env ''CC_NAME'' = ''msvc'')) (bc_to_list bc (bp_stlib kw)) (bc_list bc env' (''STLIB_'' @ var))) \<and>
    try_link bc (merge_params options kw) env'"
proof -
  let ?p = "merge_params options kw"
  have p: "bp_lib ?p = bp_lib kw" "bp_stlib ?p = bp_stlib kw" "bp_required ?p = bp_required kw" by (simp_all add: merge_params_def)
  obtain inc version path libs stlibs where run: "boost_get_includes bc (bp_includes ?p) = Inr inc"
    "boost_get_libs bc (bc_set_str bc (bc_set_str bc env (''INCLUDES_'' @ var) inc) ''BOOST_VERSION'' version) ?p = Inr (path, libs, stlibs)"
    and kept: "bc_str bc env' (''INCLUDES_'' @ var) = inc" "bc_list bc env' (''LIBPATH_'' @ var) = [path]" "bc_list bc env' (''LIB_'' @ var) = libs"
    "bc_list bc env' (''STLIBPATH_'' @ var) = [path]" "bc_list bc env' (''STLIB_'' @ var) = stlibs" "try_link bc ?p env'"
    using boost_env.check_stores [OF assms(1-4)] by blast
  have cc: "bc_str bc (bc_set_str bc (bc_set_str bc env (''INCLUDES_'' @ var) inc) ''BOOST_VERSION'' version) ''CC_NAME'' = bc_str bc env ''CC_NAME''"
    by (simp add: boost_env.str_set [OF assms(1)])
  show ?thesis
    using includes_hold [OF run(1)] libs_found [OF run(2)] assms(5,6) lib_file_named unfolding cc p kept by (auto simp: kept)
qed

lemma demo_thread:
  assumes "bc_str (dict_conf demo_libs) e ''CXX_NAME'' = ''gcc''" "bc_list (dict_conf demo_libs) e ''CXX'' = [''/usr/bin/g++'']"
  shows "\<exists>r. boost_get_libs (dict_conf demo_libs) e (ask [''thread'']) = Inr r"
proof -
  let ?bc = "dict_conf demo_libs"
  have t: "boost_get_toolset ?bc e '''' = Inr ''gcc''"
    using assms by (simp add: boost_get_toolset_def BOOST_TOOLSETS_def py_index_def startswith_def) (simp add: dict_conf_def)
  have "\<exists>f \<in> set demo_libs. occurs ''boost_thread'' f" by (simp add: demo_libs_def startswith_def)
  then have "\<exists>ns. match_libs ?bc e (ask [''thread'']) ''gcc'' (sort_files demo_libs) (LibList [''thread'']) False = Inr ns"
    using match_libs_exact [where kw = "ask [''thread'']" and bc = ?bc and arg = "LibList [''thread'']" and env = e and toolset = "''gcc''"
        and fs = demo_libs and st = False] by (auto simp: demo_selectors demo_names split: sum.splits)
  moreover have "match_libs ?bc e (ask [''thread'']) ''gcc'' fs NoLibs True = Inr []" for fs by (simp add: match_libs_def demo_selectors)
  ultimately show ?thesis by (auto simp: boost_get_libs_def demo_path demo_selectors t)
qed

theorem check_boost_sound_witness:
  "\<exists>env'. check_boost (dict_conf demo_libs) (ask []) (ask [''thread'']) ''BOOST'' linux_env = Inr env' \<and>
     list_all2 (named_file demo_libs False) [''thread''] (bc_list (dict_conf demo_libs) env' ''LIB_BOOST'')"
proof -
  let ?bc = "dict_conf demo_libs"
  have same: "merge_params (ask []) (ask [''thread'']) = ask [''thread'']" by (simp add: merge_params_def ask_def)
  have inc: "boost_get_includes ?bc '''' = Inr ''/usr/include''" "boost_get_version ?bc ''/usr/include'' = Inr ''1_65''"
    by (simp_all add: boost_get_includes_def boost_get_version_def boost_get_version_file_def BOOST_INCLUDES_def dict_conf_def
        version_define_def version_value_def skip_spaces_def startswith_def py3_space_def)
  let ?e = "bc_set_str ?bc (bc_set_str ?bc linux_env ''INCLUDES_BOOST'' ''/usr/include'') ''BOOST_VERSION'' ''1_65''"
  have "\<exists>r. boost_get_libs ?bc ?e (ask [''thread'']) = Inr r" by (rule demo_thread) (simp_all add: dict_conf_def linux_env_def)
  then obtain path libs stlibs where libs: "boost_get_libs ?bc ?e (ask [''thread'']) = Inr (path, libs, stlibs)" by (metis prod_cases3)
  have ok: "bc_list ?bc linux_env ''CXX'' \<noteq> []" "try_link ?bc (ask [''thread'']) e" "libs_given (bp_lib (ask [''thread'']))"
    "\<not> bp_autodetect (ask [''thread''])" "bp_includes (ask [''thread'']) = ''''" for e
    by (simp_all add: dict_conf_def linux_env_def try_link_def ask_def)
  obtain env' where "check_boost ?bc (ask []) (ask [''thread'']) ''BOOST'' linux_env = Inr env'"
    using ok inc libs by (simp add: check_boost_def same)
  then show ?thesis
    using check_boost_sound [OF dict_env.boost_env_axioms, of demo_libs "ask []" "ask [''thread'']" "''BOOST''" linux_env env']
      ok(3,4) by (auto simp: same demo_selectors demo_names)
qed

section \<open>Where the search goes wrong\<close>

text \<open>Without a toolset, on a platform and with a compiler that the table does not know, the empty text is called.\<close>

lemma unknown_toolset:
  assumes "bc_platform bc \<notin> set (keys BOOST_TOOLSETS)" "bc_str bc env ''CXX_NAME'' \<notin> set (keys BOOST_TOOLSETS)"
  shows "boost_get_toolset bc env '''' = Inl TypeError"
proof -
  have "map_of BOOST_TOOLSETS (bc_str bc env ''CXX_NAME'') = None" using assms(2) by (simp add: map_of_eq_None_iff)
  then show ?thesis using assms(1) by (simp add: boost_get_toolset_def del: set_map)
qed

text \<open>The last pattern takes a library whose name only begins with the one that is asked for.\<close>

lemma other_library_taken:
  "first_match (lib_patterns ''gcc'' ''-1_65'' ''log'' (rx_text '''') ''.so'') [''libboost_log_setup.so''] = Some ''libboost_log_setup.so''"
  by code_simp

text \<open>The patterns for Python 2.7 reject a library for Python 3, but the last one does not look at the tags.\<close>

lemma python3_rejected:
  "python_tags '''' ''27'' = Inr tags \<Longrightarrow> \<not> rx_search (rx_seq [rx_text ''boost_python'', tags, rx_text ''.so'', RxEnd]) ''libboost_python3.so''"
  by (auto simp: python_tags_def py_index_def rx_search_def digit_char_def)

lemma python3_taken:
  "python_tags '''' ''27'' = Inr tags \<Longrightarrow>
     first_match (lib_patterns ''gcc'' ''-1_65'' ''python'' tags ''.so'') [''libboost_python3.so''] = Some ''libboost_python3.so''"
  using library_match [where lib = "''python''" and toolset = "''gcc''" and version = "''-1_65''" and tags = tags and ext = "''.so''"
      and fs = "[''libboost_python3.so'']"]
  by (auto simp: startswith_def split: option.splits)

text \<open>The detection of the linkage looks at the argument of the call only, not at the option of the command line.\<close>

lemma try_flags_option: "try_flags bc (params\<lparr>bp_toolset := t\<rparr>) var fs env = try_flags bc params var fs env"
  by (induction fs arbitrary: env) (simp_all add: try_link_def Let_def)

lemma autodetect_ignores_option:
  "autodetect bc (params\<lparr>bp_toolset := t\<rparr>) kw_toolset var path libs env = autodetect bc params kw_toolset var path libs env"
  unfolding autodetect_def Let_def try_flags_option ..

end
