(* ===== verification/Relocation.thy ===== *)
theory Relocation
  imports PyLib
begin

text \<open>
  The detection of a moved project, \<^verbatim>\<open>waf-tools/relocation.py\<close>.  The nodes of waf refer to each other, so they
  live in a store, by number: a node has a parent and a dictionary of children.  What waf does with them
  (\<open>find_node\<close>, \<open>make_node\<close>, the replaced methods \<open>store\<close> and \<open>init_dirs\<close>) is an argument.
\<close>

section \<open>Nodes\<close>

record waf_node =
  n_parent :: "nat option"
  n_children :: "(string \<times> nat) list"

type_synonym waf_nodes = "nat \<Rightarrow> waf_node"

text \<open>The node at the end of a path of names.\<close>

fun walk_names :: "waf_nodes \<Rightarrow> nat \<Rightarrow> string list \<Rightarrow> nat option" where
  "walk_names ns n [] = Some n"
| "walk_names ns n (k # ks) = (case map_of (n_children (ns n)) k of None \<Rightarrow> None | Some v \<Rightarrow> walk_names ns v ks)"

definition set_children :: "nat \<Rightarrow> (string \<times> nat) list \<Rightarrow> waf_nodes \<Rightarrow> waf_nodes" where
  "set_children n cs ns = ns(n := (ns n)\<lparr>n_children := cs\<rparr>)"

definition set_parent :: "nat \<Rightarrow> nat \<Rightarrow> waf_nodes \<Rightarrow> waf_nodes" where
  "set_parent v p ns = ns(v := (ns v)\<lparr>n_parent := Some p\<rparr>)"

section \<open>Relocation\<close>

definition move_child :: "nat \<Rightarrow> string \<times> nat \<Rightarrow> waf_nodes \<Rightarrow> waf_nodes" where
  "move_child srcnode item ns =
     (case item of (k, v) \<Rightarrow> set_parent v srcnode (set_children srcnode (AList.update k v (n_children (ns srcnode))) ns))"

definition move_children :: "nat \<Rightarrow> nat \<Rightarrow> waf_nodes \<Rightarrow> waf_nodes" where
  "move_children d srcnode ns =
     (let ns = set_children srcnode [] ns;
          ns = fold (move_child srcnode) (n_children (ns d)) ns
      in set_children d [] ns)"

text \<open>
  \<open>load\<close> is the directory that the last build has recorded, if it can be read; \<open>make_node\<close> may add nodes.
\<close>

definition init_dirs ::
  "bool \<Rightarrow> string option \<Rightarrow> (string \<Rightarrow> nat option) \<Rightarrow> (string \<Rightarrow> waf_nodes \<Rightarrow> nat \<times> waf_nodes) \<Rightarrow> (waf_nodes \<Rightarrow> waf_nodes res) \<Rightarrow> string \<Rightarrow> waf_nodes \<Rightarrow> waf_nodes res" where
  "init_dirs dirs_absolute load find_node make_node old2 top_dir ns =
     (if \<not> dirs_absolute then Inl (WafError (''The project was not configured: run '' @ [dquote] @ ''waf configure'' @ [dquote] @ '' first!''))
      else
        old2 (case load of
                None \<Rightarrow> ns
              | Some srcdir \<Rightarrow>
                  if srcdir = '''' then ns
                  else
                    (case find_node srcdir of
                       None \<Rightarrow> ns
                     | Some d \<Rightarrow>
                         if srcdir \<noteq> top_dir \<and> n_children (ns d) \<noteq> []
                         then (case make_node top_dir ns of (srcnode, ns) \<Rightarrow> move_children d srcnode ns)
                         else ns)))"

text \<open>What the next build finds: the directory that is recorded after a build.\<close>

definition store_srcdir :: "string \<Rightarrow> string option" where
  "store_srcdir srcnode_path = Some srcnode_path"

text \<open>The identifier of a task, kept once it is made; \<open>md5\<close> of all that \<open>update\<close> has been given.\<close>

definition task_uid :: "(string \<Rightarrow> string) \<Rightarrow> string \<Rightarrow> ('n \<Rightarrow> string) \<Rightarrow> 'n list \<Rightarrow> 'n list \<Rightarrow> string option \<Rightarrow> string \<times> string option" where
  "task_uid md5 class_name path_from_src ins outs uid =
     (case uid of
        Some u \<Rightarrow> (u, uid)
      | None \<Rightarrow> (let u = md5 (class_name @ concat (map path_from_src (ins @ outs))) in (u, Some u)))"

definition apply_incpaths :: "('n \<Rightarrow> bool) \<Rightarrow> ('n \<Rightarrow> string) \<Rightarrow> ('n \<Rightarrow> string) \<Rightarrow> 'n list \<Rightarrow> 'n list \<times> string list" where
  "apply_incpaths is_child_of_src path_from_bld node_abspath lst =
     (lst, map (\<lambda>x. if is_child_of_src x \<and> path_from_bld x \<noteq> '''' then path_from_bld x else node_abspath x) lst)"

section \<open>Where the files are afterwards\<close>

lemma set_children_sel: "n_children (set_children n cs ns m) = (if m = n then cs else n_children (ns m))"
  by (simp add: set_children_def)

lemma set_children_parent: "n_parent (set_children n cs ns m) = n_parent (ns m)"
  by (simp add: set_children_def)

lemma set_parent_sel: "n_children (set_parent v p ns m) = n_children (ns m)"
  by (simp add: set_parent_def)

lemma move_child_sel:
  "n_children (move_child srcnode (k, v) ns m) = (if m = srcnode then AList.update k v (n_children (ns m)) else n_children (ns m))"
  by (simp add: move_child_def set_children_sel set_parent_sel)

lemma move_child_parent: "n_parent (move_child srcnode (k, v) ns m) = (if m = v then Some srcnode else n_parent (ns m))"
  by (simp add: move_child_def set_children_def set_parent_def)

lemma fold_move_other: "m \<noteq> srcnode \<Longrightarrow> n_children (fold (move_child srcnode) items ns m) = n_children (ns m)"
  by (induction items arbitrary: ns) (auto simp: move_child_sel)

lemma fold_move_src:
  "map_of (n_children (fold (move_child srcnode) items ns srcnode)) = map_of (n_children (ns srcnode)) ++ map_of (rev items)"
  by (induction items arbitrary: ns) (auto simp: move_child_sel map_add_def fun_eq_iff split: option.splits)

lemma fold_move_parent:
  "n_parent (fold (move_child srcnode) items ns m) = (if m \<in> snd ` set items then Some srcnode else n_parent (ns m))"
  by (induction items arbitrary: ns) (auto simp: move_child_parent)

text \<open>The old directory has no node above itself among its descendants, and the new one is not below it.\<close>

definition places_apart :: "waf_nodes \<Rightarrow> nat \<Rightarrow> nat \<Rightarrow> bool" where
  "places_apart ns d srcnode \<longleftrightarrow> d \<noteq> srcnode \<and> (\<forall>p. p \<noteq> [] \<longrightarrow> walk_names ns d p \<noteq> Some d \<and> walk_names ns d p \<noteq> Some srcnode)"

lemma move_children_sel:
  assumes "d \<noteq> srcnode" "distinct (keys (n_children (ns d)))"
  shows "n_children (move_children d srcnode ns d) = []"
    and "map_of (n_children (move_children d srcnode ns srcnode)) = map_of (n_children (ns d))"
    and "m \<noteq> d \<Longrightarrow> m \<noteq> srcnode \<Longrightarrow> n_children (move_children d srcnode ns m) = n_children (ns m)"
    and "v \<in> snd ` set (n_children (ns d)) \<Longrightarrow> n_parent (move_children d srcnode ns v) = Some srcnode"
proof -
  have rev: "map_of (rev (n_children (ns d))) = map_of (n_children (ns d))"
    using assms(2) by (intro map_of_inject_set [THEN iffD2]) (simp_all add: rev_map [symmetric])
  show "n_children (move_children d srcnode ns d) = []" by (simp add: move_children_def set_children_sel)
  show "map_of (n_children (move_children d srcnode ns srcnode)) = map_of (n_children (ns d))"
    using assms(1) by (simp add: move_children_def set_children_sel fold_move_src rev)
  show "n_children (move_children d srcnode ns m) = n_children (ns m)" if "m \<noteq> d" "m \<noteq> srcnode"
    using that by (simp add: move_children_def set_children_sel fold_move_other)
  show "n_parent (move_children d srcnode ns v) = Some srcnode" if "v \<in> snd ` set (n_children (ns d))"
    using that assms(1) by (simp add: move_children_def Let_def set_children_parent set_children_sel fold_move_parent)
qed

lemma walk_below:
  assumes "places_apart ns d srcnode" "distinct (keys (n_children (ns d)))" "walk_names ns d q = Some v" "q \<noteq> []"
  shows "walk_names (move_children d srcnode ns) v p = walk_names ns v p"
  using assms(3,4)
proof (induction p arbitrary: v q)
  case (Cons k p)
  have "v \<noteq> d" "v \<noteq> srcnode" using assms(1) Cons.prems by (auto simp: places_apart_def)
  then have same: "n_children (move_children d srcnode ns v) = n_children (ns v)"
    using assms(1,2) by (intro move_children_sel(3)) (auto simp: places_apart_def)
  have step: "walk_names ns d (q @ [k]) = map_of (n_children (ns v)) k"
    using Cons.prems(1) by (induction q arbitrary: d) (auto split: option.splits)
  show ?case using Cons.IH [of "q @ [k]"] step by (auto simp: same split: option.splits)
qed simp

lemma moved_paths:
  assumes "places_apart ns d srcnode" "distinct (keys (n_children (ns d)))"
  shows "(p \<noteq> [] \<longrightarrow> walk_names (move_children d srcnode ns) srcnode p = walk_names ns d p) \<and>
    n_children (move_children d srcnode ns d) = [] \<and>
    (v \<in> snd ` set (n_children (ns d)) \<longrightarrow> n_parent (move_children d srcnode ns v) = Some srcnode)"
proof -
  have ne: "d \<noteq> srcnode" using assms(1) by (simp add: places_apart_def)
  have "walk_names (move_children d srcnode ns) srcnode (k # ks) = walk_names ns d (k # ks)" for k ks
  proof (cases "map_of (n_children (ns d)) k")
    case (Some v)
    then have "walk_names ns d [k] = Some v" by simp
    from walk_below [OF assms this] show ?thesis using Some move_children_sel(2) [where ns = ns, OF ne assms(2)] by simp
  qed (simp add: move_children_sel(2) [where ns = ns, OF ne assms(2)])
  then show ?thesis using move_children_sel(1,4) [where ns = ns, OF ne assms(2)] by (cases p) auto
qed

text \<open>
  C26: when the recorded directory still has nodes and the project is now in another one that is not below it,
  \<open>init_dirs\<close> moves the whole tree before it goes on: every path leads from the new directory to the node to which
  it led from the old one, the moved nodes have the new directory as their parent, and the old one is empty.
\<close>
theorem relocation_keeps_paths:
  assumes "find_node srcdir = Some d" "make_node top_dir ns = (srcnode, ns')" "srcdir \<noteq> ''''" "srcdir \<noteq> top_dir" "n_children (ns d) \<noteq> []"
    and "places_apart ns' d srcnode" "distinct (keys (n_children (ns' d)))"
  shows "\<exists>ns2. init_dirs True (Some srcdir) find_node make_node old2 top_dir ns = old2 ns2 \<and>
    (\<forall>p. p \<noteq> [] \<longrightarrow> walk_names ns2 srcnode p = walk_names ns' d p) \<and> n_children (ns2 d) = [] \<and>
    (\<forall>v. v \<in> snd ` set (n_children (ns' d)) \<longrightarrow> n_parent (ns2 v) = Some srcnode)"
proof -
  have "init_dirs True (Some srcdir) find_node make_node old2 top_dir ns = old2 (move_children d srcnode ns')"
    using assms(1-5) by (simp add: init_dirs_def)
  then show ?thesis using moved_paths [OF assms(6,7)] by blast
qed

definition demo_nodes :: waf_nodes where
  "demo_nodes = (\<lambda>n. \<lparr>n_parent = None, n_children = []\<rparr>)
     (5 := \<lparr>n_parent = Some 4, n_children = [(''src'', 6)]\<rparr>, 6 := \<lparr>n_parent = Some 5, n_children = [(''core'', 7)]\<rparr>)"

lemma demo_walk: "walk_names demo_nodes 5 p = (if p = [] then Some 5 else if p = [''src''] then Some 6 else if p = [''src'', ''core''] then Some 7 else None)"
  by (cases p; cases "tl p"; cases "tl (tl p)") (auto simp: demo_nodes_def)

theorem relocation_keeps_paths_witness:
  "\<exists>ns2. init_dirs True (Some ''/old'') (\<lambda>s. Some 5) (\<lambda>s ns. (8, ns)) Inr ''/new'' demo_nodes = Inr ns2 \<and>
     walk_names ns2 8 [''src'', ''core''] = Some 7 \<and> n_children (ns2 5) = []"
proof -
  have "places_apart demo_nodes 5 8" by (simp add: places_apart_def demo_walk)
  moreover have "distinct (keys (n_children (demo_nodes 5)))" "n_children (demo_nodes 5) \<noteq> []" by (simp_all add: demo_nodes_def)
  ultimately obtain ns2 where "init_dirs True (Some ''/old'') (\<lambda>s. Some 5) (\<lambda>s ns. (8, ns)) Inr ''/new'' demo_nodes = Inr ns2"
    "\<forall>p. p \<noteq> [] \<longrightarrow> walk_names ns2 8 p = walk_names demo_nodes 5 p" "n_children (ns2 5) = []"
    using relocation_keeps_paths [of "\<lambda>s. Some 5" "''/old''" 5 "\<lambda>s ns. (8, ns)" "''/new''" demo_nodes 8 demo_nodes Inr] by auto
  then show ?thesis by (intro exI [of _ ns2]) (simp add: demo_walk del: walk_names.simps)
qed

text \<open>A project that is moved into a directory below its old place becomes its own child.\<close>

lemma moved_below_itself:
  assumes "d \<noteq> srcnode" "distinct (keys (n_children (ns d)))" "map_of (n_children (ns d)) k = Some srcnode"
  shows "walk_names (move_children d srcnode ns) srcnode [k] = Some srcnode \<and> n_parent (move_children d srcnode ns srcnode) = Some srcnode"
proof -
  have "srcnode \<in> snd ` set (n_children (ns d))" using map_of_SomeD [OF assms(3)] by force
  then show ?thesis using move_children_sel(2,4) [where ns = ns, OF assms(1,2)] assms(3) by simp
qed

end
