(* ===== verification/VizWindows.thy ===== *)
theory VizWindows
  imports VizData Transition
begin

text \<open>
  The information windows of the visualizer: the tables of last packets, of routes and of interface
  statistics (\<^verbatim>\<open>plugins/show_last_packets.py\<close>, \<^verbatim>\<open>plugins/ipv4_routing_table.py\<close>, \<^verbatim>\<open>plugins/olsr.py\<close>,
  \<^verbatim>\<open>plugins/interface_statistics.py\<close>), the packet filter, and the list of open windows in \<^verbatim>\<open>core.py\<close>.
  What the simulator answers is an argument, the record \<open>answers\<close>; a table is the list of its rows.
\<close>

section \<open>The packet filter\<close>

text \<open>
  The registered types, with the parent of each (\<open>HasParent\<close>, \<open>GetParent\<close>).  The loop goes up until it meets a
  header or a trailer, or a type without parent; where the parents go in a circle it does not end.
\<close>

partial_function (option) header_type :: "('t \<Rightarrow> 't option) \<Rightarrow> 't \<Rightarrow> 't \<Rightarrow> 't \<Rightarrow> bool option" where
  "header_type parent hdr trl t =
     (if t = hdr \<or> t = trl then Some True
      else (case parent t of Some p \<Rightarrow> header_type parent hdr trl p | None \<Rightarrow> Some False))"

record 't typeid_config =
  tc_name :: string
  tc_selected :: bool
  tc_typeid :: 't

fun filter_list :: "('t \<Rightarrow> 't option) \<Rightarrow> ('t \<Rightarrow> string) \<Rightarrow> 't \<Rightarrow> 't \<Rightarrow> 't list \<Rightarrow> 't typeid_config list option" where
  "filter_list parent name hdr trl [] = Some []"
| "filter_list parent name hdr trl (t # ts) =
     (case header_type parent hdr trl t of
        None \<Rightarrow> None
      | Some type_is_good \<Rightarrow>
          map_option (\<lambda>cs. if type_is_good \<and> t \<noteq> hdr \<and> t \<noteq> trl then \<lparr>tc_name = name t, tc_selected = True, tc_typeid = t\<rparr> # cs else cs)
            (filter_list parent name hdr trl ts))"

text \<open>The options that are set for the node, with the lock of the simulation held; \<open>VizSync\<close> has the steps of the lock.\<close>

datatype capture_mode = Headers_and | Headers_or

record 't capture_options =
  co_mode :: capture_mode
  co_num :: nat
  co_headers :: "'t list"

record 't packet_window =
  pw_filter :: "'t typeid_config list"
  pw_and :: bool
  pw_options :: "'t capture_options option"

definition update_capture_options :: "'t packet_window \<Rightarrow> 't packet_window" where
  "update_capture_options w =
     w\<lparr>pw_options := Some \<lparr>co_mode = (if pw_and w then Headers_and else Headers_or), co_num = 100,
                          co_headers = map tc_typeid (filter tc_selected (pw_filter w))\<rparr>\<rparr>"

definition sel_all_cb :: "bool \<Rightarrow> 't packet_window \<Rightarrow> 't packet_window" where
  "sel_all_cb b w = update_capture_options (w\<lparr>pw_filter := map (\<lambda>c. c\<lparr>tc_selected := b\<rparr>) (pw_filter w)\<rparr>)"

text \<open>The constructor, and what the user does: both buttons, the choice between \<open>AND\<close> and \<open>OR\<close>, and one cell of the list.\<close>

definition open_filter :: "'t typeid_config list \<Rightarrow> 't packet_window" where
  "open_filter cs = update_capture_options \<lparr>pw_filter = cs, pw_and = False, pw_options = None\<rparr>"

datatype filter_event = Sel_all | Sel_none | Toggled | Cell_edited nat bool

fun filter_step :: "filter_event \<Rightarrow> 't packet_window \<Rightarrow> 't packet_window option" where
  "filter_step Sel_all w = Some (sel_all_cb True w)"
| "filter_step Sel_none w = Some (sel_all_cb False w)"
| "filter_step Toggled w = Some (update_capture_options (w\<lparr>pw_and := \<not> pw_and w\<rparr>))"
| "filter_step (Cell_edited i b) w =
     (if i < length (pw_filter w)
      then Some (update_capture_options (w\<lparr>pw_filter := (pw_filter w)[i := (pw_filter w ! i)\<lparr>tc_selected := b\<rparr>]\<rparr>)) else None)"

section \<open>Tables\<close>

datatype table_cell = Text string | Num int

type_synonym table = "table_cell list list"

text \<open>A device with the name that \<open>Names.FindName\<close> has for it, empty if none.\<close>

record net_device =
  nd_name :: string
  nd_index :: int

definition numbered :: "int \<Rightarrow> string" where
  "numbered i = ''(interface '' @ dec i @ '')''"

record sample =
  sm_time :: string
  sm_device :: "net_device option"
  sm_size :: int
  sm_packet :: string

definition packet_row :: "sample \<Rightarrow> table_cell list" where
  "packet_row s =
     [Text (sm_time s),
      Text (case sm_device s of
              None \<Rightarrow> ''(unknown)''
            | Some d \<Rightarrow> if nd_name d \<noteq> '''' then nd_name d else numbered (nd_index d)),
      Text (dec (sm_size s)), Text (sm_packet s)]"

definition packet_list_update :: "sample list \<Rightarrow> table \<Rightarrow> table" where
  "packet_list_update ss tbl = map packet_row ss"

record route =
  rt_dest :: string
  rt_gateway :: string
  rt_interface :: int

datatype routing = Static_routing "route list" | Global_routing "route list" | List_routing "(routing \<times> int) list" | Other_routing

record ipv4 =
  ip_routing :: "routing option"
  ip_device :: "int \<Rightarrow> net_device option"

definition interface_name :: "ipv4 \<Rightarrow> int \<Rightarrow> string" where
  "interface_name ip i =
     (case ip_device ip i of
        None \<Rightarrow> ''lo''
      | Some d \<Rightarrow> if nd_name d \<noteq> '''' then nd_name d else numbered i)"

fun listed_protocol :: "routing \<times> int \<Rightarrow> (route list \<times> string \<times> int) list" where
  "listed_protocol (Static_routing rs, prio) = [(rs, ''static'', prio)]"
| "listed_protocol (Global_routing rs, prio) = [(rs, ''global'', prio)]"
| "listed_protocol (List_routing _, prio) = []"
| "listed_protocol (Other_routing, prio) = []"

fun routing_protocols :: "routing \<Rightarrow> (route list \<times> string \<times> int) list" where
  "routing_protocols (Static_routing rs) = [(rs, ''static'', 0)]"
| "routing_protocols (List_routing ps) = concat (map listed_protocol ps)"
| "routing_protocols (Global_routing rs) = []"
| "routing_protocols Other_routing = []"

definition route_row :: "ipv4 \<Rightarrow> string \<Rightarrow> int \<Rightarrow> route \<Rightarrow> table_cell list" where
  "route_row ip type_string prio r =
     [Text (rt_dest r), Text (rt_gateway r), Text (interface_name ip (rt_interface r)), Text type_string, Num prio]"

definition routing_table_update :: "ipv4 option \<Rightarrow> table \<Rightarrow> unit res \<times> table" where
  "routing_table_update ipv4 tbl =
     (case ipv4 of
        None \<Rightarrow> (Inl AttributeError, tbl)
      | Some ip \<Rightarrow>
          (case ip_routing ip of
             None \<Rightarrow> (Inr (), tbl)
           | Some routing \<Rightarrow>
               (Inr (), if routing_protocols routing = [] then tbl
                        else concat (map (\<lambda>(rs, type_string, prio). map (route_row ip type_string prio) rs) (routing_protocols routing)))))"

record olsr_entry =
  oe_dest :: string
  oe_next :: string
  oe_interface :: int
  oe_distance :: int

definition olsr_row :: "ipv4 \<Rightarrow> olsr_entry \<Rightarrow> table_cell list" where
  "olsr_row ip e = [Text (oe_dest e), Text (oe_next e), Text (interface_name ip (oe_interface e)), Num (oe_distance e)]"

text \<open>The row is appended, still empty, before the device is asked for.\<close>

definition olsr_table_update :: "olsr_entry list option \<Rightarrow> ipv4 option \<Rightarrow> table \<Rightarrow> unit res \<times> table" where
  "olsr_table_update olsr ipv4 tbl =
     (case olsr of
        None \<Rightarrow> (Inr (), tbl)
      | Some es \<Rightarrow>
          (case ipv4 of
             Some ip \<Rightarrow> (Inr (), map (olsr_row ip) es)
           | None \<Rightarrow> if es = [] then (Inr (), []) else (Inl AttributeError, [[]])))"

text \<open>\<open>str_rate\<close> is \<open>str\<close> of a float, and \<open>device_name\<close> the name of the device with a number.\<close>

definition statistics_row :: "(rat \<Rightarrow> string) \<Rightarrow> (nat \<Rightarrow> string) \<Rightarrow> nat \<times> net_dev_stats \<Rightarrow> table_cell list" where
  "statistics_row str_rate device_name x =
     (case x of (iface, s) \<Rightarrow>
        [Text (if device_name iface \<noteq> '''' then device_name iface else numbered (int iface)),
         Text (dec (txPackets s)), Text (dec (txBytes s)), Text (str_rate (txPacketRate s)), Text (str_rate (txBitRate s)),
         Text (dec (rxPackets s)), Text (dec (rxBytes s)), Text (str_rate (rxPacketRate s)), Text (str_rate (rxBitRate s))])"

definition statistics_table_update :: "(rat \<Rightarrow> string) \<Rightarrow> (nat \<Rightarrow> string) \<Rightarrow> net_dev_stats list res \<Rightarrow> table \<Rightarrow> unit res \<times> table" where
  "statistics_table_update str_rate device_name stats tbl =
     (case stats of
        Inl e \<Rightarrow> (Inl e, tbl)
      | Inr stats_list \<Rightarrow> (Inr (), map (statistics_row str_rate device_name) (enumerate 0 stats_list)))"

section \<open>Windows\<close>

text \<open>
  What the simulator answers about each node at one time, and the statistics that the collector of
  \<open>VizData\<close> has gathered by then.
\<close>

record answers =
  an_transmitted :: "int \<Rightarrow> sample list"
  an_received :: "int \<Rightarrow> sample list"
  an_dropped :: "int \<Rightarrow> sample list"
  an_ipv4 :: "int \<Rightarrow> ipv4 option"
  an_olsr :: "int \<Rightarrow> olsr_entry list option"
  an_device_name :: "int \<Rightarrow> nat \<Rightarrow> string"
  an_str_rate :: "rat \<Rightarrow> string"
  an_period :: rat
  an_collector :: collector

datatype info_tables = Last_packets table table table | Ipv4_routes table | Olsr_routes table | Interface_statistics table

record info_win =
  iw_id :: nat
  iw_node :: int
  iw_tables :: info_tables

fun tables_update :: "answers \<Rightarrow> int \<Rightarrow> info_tables \<Rightarrow> unit res \<times> info_tables" where
  "tables_update an n (Last_packets tx rx drops) =
     (Inr (), Last_packets (packet_list_update (an_transmitted an n) tx) (packet_list_update (an_received an n) rx)
                (packet_list_update (an_dropped an n) drops))"
| "tables_update an n (Ipv4_routes tbl) = map_prod id Ipv4_routes (routing_table_update (an_ipv4 an n) tbl)"
| "tables_update an n (Olsr_routes tbl) = map_prod id Olsr_routes (olsr_table_update (an_olsr an n) (an_ipv4 an n) tbl)"
| "tables_update an n (Interface_statistics tbl) =
     map_prod id Interface_statistics
       (statistics_table_update (an_str_rate an) (an_device_name an n) (get_interface_statistics (an_period an) (an_collector an) n) tbl)"

definition window_update :: "answers \<Rightarrow> info_win \<Rightarrow> unit res \<times> info_win" where
  "window_update an w = (case tables_update an (iw_node w) (iw_tables w) of (r, t) \<Rightarrow> (r, w\<lparr>iw_tables := t\<rparr>))"

text \<open>The loop of \<open>update_view\<close>, which an exception ends.\<close>

fun update_windows :: "answers \<Rightarrow> info_win list \<Rightarrow> unit res \<times> info_win list" where
  "update_windows an [] = (Inr (), [])"
| "update_windows an (w # ws) =
     (case window_update an w of
        (Inl e, w) \<Rightarrow> (Inl e, w # ws)
      | (Inr _, w) \<Rightarrow> (case update_windows an ws of (r, ws) \<Rightarrow> (r, w # ws)))"

record windows =
  information_windows :: "info_win list"
  shown :: "nat set"
  next_id :: nat

text \<open>A constructor: the window is shown only after its first update.\<close>

definition add_information_window :: "answers \<Rightarrow> info_win \<Rightarrow> windows \<Rightarrow> unit res \<times> windows" where
  "add_information_window an w s =
     (case window_update an w of (r, w) \<Rightarrow> (r, s\<lparr>information_windows := information_windows s @ [w]\<rparr>))"

definition open_info :: "answers \<Rightarrow> info_tables \<Rightarrow> int \<Rightarrow> windows \<Rightarrow> unit res \<times> windows" where
  "open_info an empty_tables n s =
     (let i = next_id s
      in case add_information_window an \<lparr>iw_id = i, iw_node = n, iw_tables = empty_tables\<rparr> (s\<lparr>next_id := Suc i\<rparr>) of
           (Inl e, s) \<Rightarrow> (Inl e, s)
         | (Inr _, s) \<Rightarrow> (Inr (), s\<lparr>shown := insert i (shown s)\<rparr>))"

text \<open>The user closes a window that is shown; \<open>remove\<close> takes it out of the list.\<close>

definition response_cb :: "nat \<Rightarrow> windows \<Rightarrow> windows res" where
  "response_cb i s =
     (if i \<in> iw_id ` set (information_windows s)
      then Inr (s\<lparr>information_windows := filter (\<lambda>w. iw_id w \<noteq> i) (information_windows s), shown := shown s - {i}\<rparr>)
      else Inl ValueError)"

datatype window_kind = Kind_packets | Kind_ipv4 | Kind_olsr | Kind_statistics

fun empty_tables :: "window_kind \<Rightarrow> info_tables" where
  "empty_tables Kind_packets = Last_packets [] [] []"
| "empty_tables Kind_ipv4 = Ipv4_routes []"
| "empty_tables Kind_olsr = Olsr_routes []"
| "empty_tables Kind_statistics = Interface_statistics []"

datatype window_event = Menu window_kind int answers | Close nat | View answers

fun window_step :: "window_event \<Rightarrow> windows \<Rightarrow> windows option" where
  "window_step (Menu k n an) s = Some (snd (open_info an (empty_tables k) n s))"
| "window_step (Close i) s = (if i \<in> shown s then (case response_cb i s of Inr s \<Rightarrow> Some s | Inl e \<Rightarrow> None) else None)"
| "window_step (View an) s = Some (s\<lparr>information_windows := snd (update_windows an (information_windows s))\<rparr>)"

definition no_windows :: windows where
  "no_windows = \<lparr>information_windows = [], shown = {}, next_id = 0\<rparr>"

section \<open>Which types the filter lists\<close>

abbreviation ancestor :: "('t \<Rightarrow> 't option) \<Rightarrow> 't \<Rightarrow> 't \<Rightarrow> bool" where
  "ancestor parent \<equiv> (\<lambda>t p. parent t = Some p)\<^sup>*\<^sup>*"

lemma header_type_returns:
  "header_type parent hdr trl t = Some b \<Longrightarrow>
     (if b then \<exists>a. ancestor parent t a \<and> (a = hdr \<or> a = trl) else \<exists>a. ancestor parent t a \<and> parent a = None)"
proof (induction rule: header_type.raw_induct [where P = "\<lambda>parent hdr trl t b.
      if b then \<exists>a. ancestor parent t a \<and> (a = hdr \<or> a = trl) else \<exists>a. ancestor parent t a \<and> parent a = None",
      rotated 1, consumes 1, case_names step])
  case (step f parent hdr trl t b)
  show ?case
  proof (cases "t = hdr \<or> t = trl")
    case False
    show ?thesis
    proof (cases "parent t")
      case (Some p)
      have "f parent hdr trl p = Some b" using step(2) False Some by simp
      from step(1) [OF this] show ?thesis
        using converse_rtranclp_into_rtranclp [of "\<lambda>t p. parent t = Some p" t p] Some by (auto split: if_splits)
    qed (use step(2) False in auto)
  qed (use step(2) in auto)
qed

lemma header_type_True: "ancestor parent t a \<Longrightarrow> a = hdr \<or> a = trl \<Longrightarrow> header_type parent hdr trl t = Some True"
  by (induction rule: converse_rtranclp_induct) (simp_all add: header_type.simps)

lemma header_type_False:
  "ancestor parent t a \<Longrightarrow> parent a = None \<Longrightarrow> \<not> (\<exists>b. ancestor parent t b \<and> (b = hdr \<or> b = trl)) \<Longrightarrow> header_type parent hdr trl t = Some False"
proof (induction rule: converse_rtranclp_induct)
  case base
  then have "a \<noteq> hdr" "a \<noteq> trl" by blast+
  then show ?case using base by (subst header_type.simps) simp
next
  case (step t u)
  have "t \<noteq> hdr" "t \<noteq> trl" using step.prems by blast+
  moreover have "\<not> (\<exists>b. ancestor parent u b \<and> (b = hdr \<or> b = trl))"
    using step.prems(2) step.hyps(1) converse_rtranclp_into_rtranclp [of "\<lambda>t p. parent t = Some p" t u] by blast
  ultimately show ?case using step by (subst header_type.simps) simp
qed

lemma header_type_exact:
  "header_type parent hdr trl t =
     (if \<exists>a. ancestor parent t a \<and> (a = hdr \<or> a = trl) then Some True
      else if \<exists>a. ancestor parent t a \<and> parent a = None then Some False else None)"
proof (cases "header_type parent hdr trl t")
  case None
  then show ?thesis using header_type_True [of parent t _ hdr trl] header_type_False [of parent t _ hdr trl] by fastforce
next
  case (Some b)
  then show ?thesis using header_type_returns [OF Some] header_type_True [of parent t _ hdr trl] by (auto split: if_splits)
qed

text \<open>The chain of parents comes to a header or trailer, or to an end; and a type has one of them above it.\<close>

definition chain_ends :: "('t \<Rightarrow> 't option) \<Rightarrow> 't \<Rightarrow> 't \<Rightarrow> 't \<Rightarrow> bool" where
  "chain_ends parent hdr trl t \<longleftrightarrow> (\<exists>a. ancestor parent t a \<and> (a = hdr \<or> a = trl \<or> parent a = None))"

definition below_header :: "('t \<Rightarrow> 't option) \<Rightarrow> 't \<Rightarrow> 't \<Rightarrow> 't \<Rightarrow> bool" where
  "below_header parent hdr trl t \<longleftrightarrow> ancestor parent t hdr \<or> ancestor parent t trl"

lemma header_type_ends:
  "header_type parent hdr trl t = (if chain_ends parent hdr trl t then Some (below_header parent hdr trl t) else None)"
proof -
  have up: "(\<exists>a. ancestor parent t a \<and> (a = hdr \<or> a = trl)) \<longleftrightarrow> below_header parent hdr trl t"
    unfolding below_header_def by blast
  have ends: "chain_ends parent hdr trl t \<longleftrightarrow> below_header parent hdr trl t \<or> (\<exists>a. ancestor parent t a \<and> parent a = None)"
    unfolding chain_ends_def below_header_def by blast
  show ?thesis unfolding header_type_exact up ends by simp
qed

text \<open>
  C30: The list of the packet filter is made exactly when from every registered type the chain of parents
  comes to a header or trailer or to an end, and then it holds, in the order of registration, each with its
  name and selected, the types other than \<open>ns3::Header\<close> and \<open>ns3::Trailer\<close> that have one of these among
  their ancestors.
\<close>
theorem filter_list_exact:
  "filter_list parent name hdr trl ts =
     (if list_all (chain_ends parent hdr trl) ts
      then Some (map (\<lambda>t. \<lparr>tc_name = name t, tc_selected = True, tc_typeid = t\<rparr>)
                   (filter (\<lambda>t. t \<noteq> hdr \<and> t \<noteq> trl \<and> below_header parent hdr trl t) ts))
      else None)"
  by (induction ts) (simp_all add: header_type_ends)

section \<open>The options follow the selection\<close>

definition options_set :: "'t list \<Rightarrow> 't packet_window \<Rightarrow> bool" where
  "options_set types w \<longleftrightarrow> map tc_typeid (pw_filter w) = types \<and>
     pw_options w = Some \<lparr>co_mode = (if pw_and w then Headers_and else Headers_or), co_num = 100,
       co_headers = map tc_typeid (filter tc_selected (pw_filter w))\<rparr>"

lemma edit_keeps_types: "map tc_typeid (cs[i := (cs ! i)\<lparr>tc_selected := b\<rparr>]) = map tc_typeid cs"
  by (cases "i < length cs") (auto intro!: nth_equalityI simp: nth_list_update)

lemma filter_step_options: "options_set types w \<Longrightarrow> filter_step e w = Some w' \<Longrightarrow> options_set types w'"
  by (cases e) (auto simp: options_set_def sel_all_cb_def update_capture_options_def comp_def edit_keeps_types split: if_splits)

interpretation packet_filter: invariant_system filter_step "options_set types" for types
  by unfold_locales (rule filter_step_options)

lemma options_follow:
  "run_steps filter_step es (open_filter cs) = Some w \<Longrightarrow> options_set (map tc_typeid cs) w"
  by (rule packet_filter.run_good) (simp_all add: open_filter_def update_capture_options_def options_set_def)

section \<open>Which windows are updated\<close>

lemma window_update_result: "fst (window_update an w) = fst (tables_update an (iw_node w) (iw_tables w))"
  by (simp add: window_update_def split: prod.splits)

lemma update_windows_Cons:
  "update_windows an (w # ws) =
     (case fst (window_update an w) of
        Inl e \<Rightarrow> (Inl e, snd (window_update an w) # ws)
      | Inr _ \<Rightarrow> (fst (update_windows an ws), snd (window_update an w) # snd (update_windows an ws)))"
  by (cases "window_update an w") (auto split: sum.splits prod.splits)

declare update_windows.simps(2) [simp del]

lemma update_windows_ok:
  "\<forall>w \<in> set ws. fst (window_update an w) = Inr () \<Longrightarrow> update_windows an ws = (Inr (), map (snd \<circ> window_update an) ws)"
  by (induction ws) (simp_all add: update_windows_Cons)

lemma update_windows_fail:
  "fst (window_update an w) = Inl e \<Longrightarrow> \<forall>v \<in> set pre. fst (window_update an v) = Inr () \<Longrightarrow>
     update_windows an (pre @ w # post) = (Inl e, map (snd \<circ> window_update an) pre @ snd (window_update an w) # post)"
  by (induction pre) (simp_all add: update_windows_Cons)

lemma update_windows_raises:
  assumes "w \<in> set ws" "fst (window_update an w) \<noteq> Inr ()"
  shows "fst (update_windows an ws) \<noteq> Inr ()"
  using assms by (induction ws) (auto simp: update_windows_Cons split: sum.splits)

text \<open>An update changes the rows of a window and nothing else.\<close>

fun kind_of :: "info_tables \<Rightarrow> window_kind" where
  "kind_of (Last_packets tx rx drops) = Kind_packets"
| "kind_of (Ipv4_routes tbl) = Kind_ipv4"
| "kind_of (Olsr_routes tbl) = Kind_olsr"
| "kind_of (Interface_statistics tbl) = Kind_statistics"

definition identity :: "info_win \<Rightarrow> nat \<times> int \<times> window_kind" where
  "identity w = (iw_id w, iw_node w, kind_of (iw_tables w))"

lemma tables_update_kind: "kind_of (snd (tables_update an n t)) = kind_of t"
  by (cases t) (simp_all add: map_prod_def split: prod.splits)

lemma window_update_identity: "identity (snd (window_update an w)) = identity w"
  using tables_update_kind [of an "iw_node w" "iw_tables w"]
  by (cases "tables_update an (iw_node w) (iw_tables w)") (simp add: window_update_def identity_def)

lemma update_windows_identity: "map identity (snd (update_windows an ws)) = map identity ws"
  by (induction ws) (auto simp: update_windows_Cons window_update_identity split: sum.splits)

lemma iw_id_identity: "iw_id w = fst (identity w)"
  by (simp add: identity_def)

lemma update_windows_ids: "map iw_id (snd (update_windows an ws)) = map iw_id ws"
  using arg_cong [OF update_windows_identity [of an ws], of "map fst"] by (simp add: iw_id_identity [abs_def] comp_def)

text \<open>The windows have their own numbers, and every window that is shown is in the list.\<close>

definition windows_ok :: "windows \<Rightarrow> bool" where
  "windows_ok s \<longleftrightarrow> distinct (map iw_id (information_windows s)) \<and> (\<forall>i \<in> iw_id ` set (information_windows s). i < next_id s) \<and>
     shown s \<subseteq> iw_id ` set (information_windows s)"

lemma open_info_state:
  "\<exists>w. identity w = (next_id s, n, kind_of t) \<and> fst (open_info an t n s) = fst (tables_update an n t) \<and>
     snd (open_info an t n s) = s\<lparr>information_windows := information_windows s @ [w], next_id := Suc (next_id s),
       shown := (if fst (tables_update an n t) = Inr () then insert (next_id s) (shown s) else shown s)\<rparr>"
proof -
  let ?w = "\<lparr>iw_id = next_id s, iw_node = n, iw_tables = t\<rparr>"
  have "identity (snd (window_update an ?w)) = (next_id s, n, kind_of t)"
    unfolding window_update_identity by (simp add: identity_def)
  then show ?thesis
    by (intro exI [of _ "snd (window_update an ?w)"])
      (auto simp: open_info_def add_information_window_def window_update_def Let_def split: prod.splits sum.splits)
qed

lemma windows_ok_step: "windows_ok s \<Longrightarrow> window_step e s = Some s' \<Longrightarrow> windows_ok s'"
proof (cases e)
  case (Menu k n an)
  assume ok: "windows_ok s" and step: "window_step e s = Some s'"
  obtain w where "identity w = (next_id s, n, kind_of (empty_tables k))"
    "s' = s\<lparr>information_windows := information_windows s @ [w], next_id := Suc (next_id s),
       shown := (if fst (tables_update an n (empty_tables k)) = Inr () then insert (next_id s) (shown s) else shown s)\<rparr>"
    using open_info_state [of s n "empty_tables k" an] step Menu by auto
  then show "windows_ok s'" using ok by (auto simp: windows_ok_def iw_id_identity)
next
  case (Close i)
  assume "windows_ok s" "window_step e s = Some s'"
  then show "windows_ok s'" using Close by (auto simp: windows_ok_def response_cb_def distinct_map inj_on_def split: if_splits)
next
  case (View an)
  assume ok: "windows_ok s" and step: "window_step e s = Some s'"
  have ids: "map iw_id (information_windows s') = map iw_id (information_windows s)"
    using step View update_windows_ids by auto
  then have "iw_id ` set (information_windows s') = iw_id ` set (information_windows s)" by (metis list.set_map)
  then show "windows_ok s'" using ok ids step View by (auto simp: windows_ok_def)
qed

interpretation window_list: invariant_system window_step windows_ok
  by unfold_locales (rule windows_ok_step)

text \<open>A window that is in the list and not shown cannot be closed.\<close>

definition hidden :: "nat \<times> int \<times> window_kind \<Rightarrow> windows \<Rightarrow> bool" where
  "hidden x s \<longleftrightarrow> x \<in> identity ` set (information_windows s) \<and> fst x \<notin> shown s \<and> fst x < next_id s"

lemma hidden_step: "hidden x s \<Longrightarrow> window_step e s = Some s' \<Longrightarrow> hidden x s'"
proof (cases e)
  case (Menu k n an)
  assume ok: "hidden x s" and step: "window_step e s = Some s'"
  obtain w where "s' = s\<lparr>information_windows := information_windows s @ [w], next_id := Suc (next_id s),
       shown := (if fst (tables_update an n (empty_tables k)) = Inr () then insert (next_id s) (shown s) else shown s)\<rparr>"
    using open_info_state [of s n "empty_tables k" an] step Menu by auto
  then show "hidden x s'" using ok by (auto simp: hidden_def)
next
  case (Close i)
  assume ok: "hidden x s" and step: "window_step e s = Some s'"
  obtain w where w: "w \<in> set (information_windows s)" "x = identity w" using ok by (auto simp: hidden_def)
  have "i \<in> shown s" "s' = s\<lparr>information_windows := filter (\<lambda>w. iw_id w \<noteq> i) (information_windows s), shown := shown s - {i}\<rparr>"
    using step Close by (auto simp: response_cb_def split: if_splits)
  moreover have "iw_id w \<noteq> i" using ok calculation(1) w(2) by (auto simp: hidden_def iw_id_identity)
  ultimately show "hidden x s'" using ok w by (simp add: hidden_def)
next
  case (View an)
  assume ok: "hidden x s" and step: "window_step e s = Some s'"
  have "map identity (information_windows s') = map identity (information_windows s)" using step View update_windows_identity by auto
  then have "identity ` set (information_windows s') = identity ` set (information_windows s)" by (metis list.set_map)
  then show "hidden x s'" using ok step View by (auto simp: hidden_def)
qed

interpretation hidden_window: invariant_system window_step "hidden x" for x
  by unfold_locales (rule hidden_step)

text \<open>
  C31: a routing window that is opened for a node without an IPv4 stack is never shown but stays in the list
  for good: whatever the user does afterwards and whatever the simulator answers, every later update of the view
  for which the node still has no IPv4 stack raises in the loop over the windows.
\<close>
theorem routing_window_stays:
  assumes "run_steps window_step es no_windows = Some s" "an_ipv4 an n = None"
    and "run_steps window_step fs (snd (open_info an (empty_tables Kind_ipv4) n s)) = Some s'" "an_ipv4 an' n = None"
  shows "fst (open_info an (empty_tables Kind_ipv4) n s) = Inl AttributeError \<and>
    next_id s \<notin> shown s' \<and> fst (update_windows an' (information_windows s')) \<noteq> Inr ()"
proof -
  let ?x = "(next_id s, n, Kind_ipv4)"
  have "windows_ok s" by (rule window_list.run_good [OF _ assms(1)]) (simp add: windows_ok_def no_windows_def)
  then have fresh: "next_id s \<notin> shown s" unfolding windows_ok_def by blast
  obtain w where w: "identity w = ?x" "fst (open_info an (empty_tables Kind_ipv4) n s) = fst (tables_update an n (Ipv4_routes []))"
    "snd (open_info an (empty_tables Kind_ipv4) n s) = s\<lparr>information_windows := information_windows s @ [w], next_id := Suc (next_id s),
       shown := (if fst (tables_update an n (Ipv4_routes [])) = Inr () then insert (next_id s) (shown s) else shown s)\<rparr>"
    using open_info_state [of s n "empty_tables Kind_ipv4" an] by auto
  have fails: "fst (tables_update an n (Ipv4_routes t)) = Inl AttributeError" if "an_ipv4 an n = None" for an t
    using that by (simp add: routing_table_update_def)
  have "hidden ?x (snd (open_info an (empty_tables Kind_ipv4) n s))"
    using w fails [OF assms(2)] fresh by (auto simp: hidden_def)
  then have hid: "hidden ?x s'" by (rule hidden_window.run_good [OF _ assms(3)])
  then obtain v where v: "v \<in> set (information_windows s')" "identity v = ?x" by (auto simp: hidden_def)
  then obtain t where "iw_tables v = Ipv4_routes t" "iw_node v = n" by (cases "iw_tables v") (auto simp: identity_def)
  then have "fst (window_update an' v) \<noteq> Inr ()"
    using fails [OF assms(4)] by (simp add: window_update_result del: tables_update.simps)
  then show ?thesis using update_windows_raises [OF v(1)] hid w(2) fails [OF assms(2)] by (simp add: hidden_def)
qed

text \<open>A simulation in which no node has a stack.\<close>

definition bare_answers :: answers where
  "bare_answers = \<lparr>an_transmitted = (\<lambda>n. []), an_received = (\<lambda>n. []), an_dropped = (\<lambda>n. []), an_ipv4 = (\<lambda>n. None), an_olsr = (\<lambda>n. None),
     an_device_name = (\<lambda>n i. ''''), an_str_rate = (\<lambda>r. ''''), an_period = 1, an_collector = []\<rparr>"

theorem routing_window_stays_witness:
  "\<exists>s'. run_steps window_step [Menu Kind_packets 3 bare_answers, View bare_answers] (snd (open_info bare_answers (empty_tables Kind_ipv4) 2 no_windows)) = Some s' \<and>
     fst (update_windows bare_answers (information_windows s')) \<noteq> Inr ()"
  using routing_window_stays [of "[]" no_windows bare_answers 2 "[Menu Kind_packets 3 bare_answers, View bare_answers]" _ bare_answers]
  by (simp add: bare_answers_def)

text \<open>Where the routing protocol is one that the window does not know, the old rows stay.\<close>

lemma stale_routes: "ip_routing ip = Some Other_routing \<Longrightarrow> routing_table_update (Some ip) tbl = (Inr (), tbl)"
  by (simp add: routing_table_update_def)

end
