(* ===== verification/VizConsole.thy ===== *)
theory VizConsole
  imports PyLib
begin

text \<open>
  The console of the visualizer, \<^verbatim>\<open>ipython_view.py\<close>: the history of commands, the completion of a line, the
  coloured output and the keys.  IPython is a parameter (the list \<open>In\<close> of inputs, its \<open>complete\<close>, what a run
  prints); what the console does to the text view is the list of its calls.
\<close>

section \<open>History\<close>

definition get_history :: "string list \<Rightarrow> int \<Rightarrow> string" where
  "get_history inputs level = (case py_index inputs level of Inr s \<Rightarrow> strip_by (\<lambda>c. c = nl) s | Inl _ \<Rightarrow> '''')"

definition history_back :: "string list \<Rightarrow> int \<Rightarrow> string \<times> int" where
  "history_back inputs level =
     (let level = level - 1; level = (if get_history inputs level = '''' then level + 1 else level)
      in (get_history inputs level, level))"

definition history_forward :: "string list \<Rightarrow> int \<Rightarrow> string \<times> int" where
  "history_forward inputs level =
     (let level = (if level < 0 then level + 1 else level) in (get_history inputs level, level))"

section \<open>Completion\<close>

definition complete_sep :: "char \<Rightarrow> bool" where
  "complete_sep c \<longleftrightarrow> py2_space c \<or> c \<in> set ''{}[]()''"

text \<open>\<open>complete_sep.split\<close>.\<close>

fun sep_split :: "string \<Rightarrow> string list" where
  "sep_split [] = [[]]"
| "sep_split (c # s) =
     (if complete_sep c then [] # sep_split s else (case sep_split s of [] \<Rightarrow> [[c]] | w # ws \<Rightarrow> (c # w) # ws))"

fun common_prefix_from :: "nat \<Rightarrow> string \<Rightarrow> string \<Rightarrow> nat \<Rightarrow> string" where
  "common_prefix_from 0 str1 str2 i = str1"
| "common_prefix_from (Suc n) str1 str2 i =
     (if \<not> startswith str2 (take (Suc i) str1) then take i str1 else common_prefix_from n str1 str2 (Suc i))"

definition common_prefix_of :: "string \<Rightarrow> string \<Rightarrow> string" where
  "common_prefix_of str1 str2 = common_prefix_from (length str1) str1 str2 0"

definition complete_line :: "(string \<Rightarrow> string list) \<Rightarrow> string \<Rightarrow> string \<times> string list" where
  "complete_line ip_complete line =
     (let word = last (sep_split line); possibilities = (if word \<noteq> '''' then ip_complete word else [])
      in (case possibilities of
            [] \<Rightarrow> (line, possibilities)
          | m # ms \<Rightarrow>
              (let common = foldl common_prefix_of m ms; common = (if common \<noteq> '''' then common else [last line])
               in (slice_to line (- int (length word)) @ common, possibilities))))"

section \<open>Coloured output\<close>

text \<open>The pattern of a colour at the start of a text: its tag, and the text behind it.\<close>

definition match_color :: "string \<Rightarrow> (string \<times> string) option" where
  "match_color s =
     (let s = (if startswith s [CHR 0x01] then tl s else s)
      in if startswith s [esc, CHR ''[''] then
           (let body = drop 2 s; tag = takeWhile (\<lambda>c. c \<noteq> CHR ''m'') body; rest = drop (length tag) body
            in if rest \<noteq> [] \<and> nl \<notin> set tag
               then Some (tag, if startswith (tl rest) [CHR 0x02] then tl (tl rest) else tl rest) else None)
         else None)"

lemma match_color_shorter: "match_color s = Some (tag, rest) \<Longrightarrow> length rest < length s"
proof -
  assume m: "match_color s = Some (tag, rest)"
  let ?s = "if startswith s [CHR 0x01] then tl s else s"
  have "startswith ?s [esc, CHR ''['']" "length rest \<le> length (drop 2 ?s) "
    using m by (auto simp: match_color_def Let_def split: if_splits)
  then have "length rest < length ?s" by (auto simp: startswith_iff)
  then show ?thesis by (auto split: if_splits)
qed

text \<open>\<open>color_pat.split\<close>: the text before the first colour, and each colour with the text that follows.\<close>

function color_split :: "string \<Rightarrow> string \<times> (string \<times> string) list" where
  "color_split s =
     (case match_color s of
        Some (tag, rest) \<Rightarrow> (case color_split rest of (t, ps) \<Rightarrow> ([], (tag, t) # ps))
      | None \<Rightarrow> (case s of [] \<Rightarrow> ([], []) | c # s \<Rightarrow> (case color_split s of (t, ps) \<Rightarrow> (c # t, ps))))"
  by pat_completeness auto
termination
  by (relation "measure length") (auto dest: match_color_shorter)

declare color_split.simps [simp del]

text \<open>The tags that the text buffer has.\<close>

definition buffer_tags :: "string list" where
  "buffer_tags = [''0;30'', ''0;31'', ''0;32'', ''0;33'', ''0;34'', ''0;35'', ''0;36'', ''0;37'',
     ''1;30'', ''1;31'', ''1;32'', ''1;33'', ''1;34'', ''1;35'', ''1;36'', ''1;37'', ''0'', ''notouch'']"

text \<open>
  The loop over the tags: \<open>segments.index(tag)\<close>, the insertion, which is refused for a tag that the buffer does
  not have, and only the tag is taken out.  The result is what has been inserted, and the error that ended the loop.
\<close>

fun index_of :: "'a \<Rightarrow> 'a list \<Rightarrow> nat option" where
  "index_of x [] = None"
| "index_of x (y # ys) = (if y = x then Some 0 else map_option Suc (index_of x ys))"

fun insert_tagged :: "string list \<Rightarrow> string list \<Rightarrow> (string \<times> string option) list \<times> py_error option" where
  "insert_tagged segments [] = ([], None)"
| "insert_tagged segments (tag # tags) =
     (case index_of tag segments of
        None \<Rightarrow> ([], Some ValueError)
      | Some i \<Rightarrow>
          (case py_index segments (int i + 1) of
             Inl e \<Rightarrow> ([], Some e)
           | Inr text \<Rightarrow>
               if tag \<notin> set buffer_tags then ([], Some ValueError)
               else (case insert_tagged (take i segments @ drop (Suc i) segments) tags of
                       (ws, e) \<Rightarrow> ((text, Some tag) # ws, e))))"

definition write_text :: "string \<Rightarrow> (string \<times> string option) list \<times> py_error option" where
  "write_text text =
     (case color_split text of (segment, pairs) \<Rightarrow>
        (case insert_tagged (concat (map (\<lambda>(tag, t). [tag, t]) pairs)) (map fst pairs) of
           (ws, e) \<Rightarrow> ((segment, None) # ws, e)))"

section \<open>Keys\<close>

text \<open>The calls that the console makes or queues.\<close>

datatype console_call = Write string | ShowPrompt string | ChangeLine string | ShowReturned string

record console =
  history_level :: int
  interrupt :: bool

datatype console_key = Control_c | Return | Up | Down | Tab | Other_key

text \<open>
  \<open>run_line\<close> is the rest of \<open>execute\<close>: it gets the line, or nothing after an interrupt, and returns what was printed.
\<close>

definition process_line :: "(string option \<Rightarrow> string) \<Rightarrow> string \<Rightarrow> console \<Rightarrow> console_call list \<times> console" where
  "process_line run_line line c =
     (let input = (if interrupt c then None else Some line); c = c\<lparr>history_level := 0, interrupt := False\<rparr>;
          rv = run_line input
      in ([ShowReturned (strip_by (\<lambda>x. x = nl) rv)], c))"

definition on_key_press ::
  "(string option \<Rightarrow> string) \<Rightarrow> (string \<Rightarrow> string list) \<Rightarrow> string list \<Rightarrow> string \<Rightarrow> string \<Rightarrow> console_key \<Rightarrow> console \<Rightarrow>
     (bool \<times> console_call list \<times> console) res" where
  "on_key_press run_line ip_complete inputs prompt line key c =
     (case key of
        Control_c \<Rightarrow> Inr (True, process_line run_line line (c\<lparr>interrupt := True\<rparr>))
      | Return \<Rightarrow> Inr (True, process_line run_line line c)
      | Up \<Rightarrow> (case history_back inputs (history_level c) of (t, l) \<Rightarrow> Inr (True, [ChangeLine t], c\<lparr>history_level := l\<rparr>))
      | Down \<Rightarrow> (case history_forward inputs (history_level c) of (t, l) \<Rightarrow> Inr (True, [ChangeLine t], c\<lparr>history_level := l\<rparr>))
      | Tab \<Rightarrow>
          if strip_by py2_space line = '''' then Inr (False, [], c)
          else
            (case complete_line ip_complete line of (completed, possibilities) \<Rightarrow>
               if completed = '''' \<and> length possibilities \<le> 1 then Inl UnboundLocalError
               else Inr (True,
                 (if 1 < length possibilities
                  then Write [nl] # map (\<lambda>symbol. Write (symbol @ [nl])) possibilities @ [ShowPrompt prompt] else []) @
                 [ChangeLine (if completed \<noteq> '''' then completed else line)], c))
      | Other_key \<Rightarrow> Inr (False, [], c))"

section \<open>The history is walked through\<close>

text \<open>The inputs of IPython begin with an empty one.\<close>

lemma history_back_steps:
  assumes "\<And>t. t \<in> set cmds \<Longrightarrow> strip_by (\<lambda>c. c = nl) t \<noteq> ''''"
  shows "k < length cmds \<Longrightarrow> history_back ('''' # cmds) (- int k) = (strip_by (\<lambda>c. c = nl) (rev cmds ! k), - int (Suc k))"
    and "history_back ('''' # cmds) (- int (length cmds)) = (get_history ('''' # cmds) (- int (length cmds)), - int (length cmds))"
proof -
  have get: "get_history ('''' # cmds) (- int (Suc k)) = strip_by (\<lambda>c. c = nl) (rev cmds ! k)" if "k < length cmds" for k
    using that by (simp add: get_history_def py_index_def rev_nth nth_Cons' nat_diff_distrib' Suc_diff_Suc)
  show "history_back ('''' # cmds) (- int k) = (strip_by (\<lambda>c. c = nl) (rev cmds ! k), - int (Suc k))" if k: "k < length cmds"
  proof -
    have "strip_by (\<lambda>c. c = nl) (rev cmds ! k) \<noteq> ''''" using assms [of "rev cmds ! k"] k by (metis length_rev nth_mem set_rev)
    moreover have "- int k - 1 = - int (Suc k)" by simp
    ultimately show ?thesis using get [OF k] by (simp only: history_back_def Let_def if_False prod.inject simp_thms)
  qed
  have "get_history ('''' # cmds) (- int (length cmds) - 1) = ''''"
    by (simp add: get_history_def py_index_def strip_by_def)
  then show "history_back ('''' # cmds) (- int (length cmds)) = (get_history ('''' # cmds) (- int (length cmds)), - int (length cmds))"
    by (simp add: history_back_def Let_def)
qed

section \<open>The completed line\<close>

lemma common_prefix_from_longest:
  "n + i = length str1 \<Longrightarrow> prefix (take i str1) str2 \<Longrightarrow> common_prefix_from n str1 str2 i = longest_common_prefix str1 str2"
proof (induction n arbitrary: i)
  case 0
  then have "prefix str1 str2" by simp
  then have "prefix str1 (longest_common_prefix str1 str2)" by (intro longest_common_prefix_max_prefix) simp
  then show ?case using longest_common_prefix_prefix1 [of str1 str2] by (simp add: prefix_order.antisym)
next
  case (Suc n)
  have sw: "startswith s p \<longleftrightarrow> prefix p s" for s p by (simp add: startswith_iff prefix_def)
  show ?case
  proof (cases "prefix (take (Suc i) str1) str2")
    case True
    then show ?thesis using Suc by (simp add: sw)
  next
    case False
    let ?l = "longest_common_prefix str1 str2"
    have max: "prefix (take i str1) ?l" using Suc.prems by (intro longest_common_prefix_max_prefix) (simp_all add: take_is_prefix)
    have "length ?l \<le> i"
    proof (rule ccontr)
      assume "\<not> length ?l \<le> i"
      moreover have "?l = take (length ?l) str1" using longest_common_prefix_prefix1 [of str1 str2] by (metis append_eq_conv_conj prefix_def)
      ultimately have "prefix (take (Suc i) str1) ?l" by (metis Suc_leI not_le take_is_prefix take_take min.absorb1)
      then show False using False longest_common_prefix_prefix2 [of str1 str2] by (metis prefix_order.trans)
    qed
    then have "?l = take i str1" using max Suc.prems(1) by (auto elim!: prefixE)
    then show ?thesis using False by (simp add: sw)
  qed
qed

lemma common_prefix_longest: "common_prefix_of str1 str2 = longest_common_prefix str1 str2"
  unfolding common_prefix_of_def by (rule common_prefix_from_longest) simp_all

lemma prefix_lcp: "prefix p (longest_common_prefix a b) \<longleftrightarrow> prefix p a \<and> prefix p b"
  by (meson longest_common_prefix_max_prefix longest_common_prefix_prefix1 longest_common_prefix_prefix2 prefix_order.trans)

lemma foldl_common: "foldl common_prefix_of m ms = Longest_common_prefix (set (m # ms))"
proof -
  have "prefix p (foldl common_prefix_of m ms) \<longleftrightarrow> (\<forall>x \<in> set (m # ms). prefix p x)" for p
    by (induction ms arbitrary: m) (auto simp: common_prefix_longest prefix_lcp)
  moreover have "prefix p (Longest_common_prefix (set (m # ms))) \<longleftrightarrow> (\<forall>x \<in> set (m # ms). prefix p x)" for p
  proof
    assume "prefix p (Longest_common_prefix (set (m # ms)))"
    then show "\<forall>x \<in> set (m # ms). prefix p x" by (intro ballI) (rule prefix_order.trans, assumption, rule Longest_common_prefix_prefix)
  next
    assume "\<forall>x \<in> set (m # ms). prefix p x"
    then show "prefix p (Longest_common_prefix (set (m # ms)))" by (intro Longest_common_prefix_max_prefix) blast+
  qed
  ultimately show ?thesis by (metis prefix_order.antisym prefix_order.refl)
qed

lemma sep_split_not_Nil [simp]: "sep_split s \<noteq> []"
  by (induction s) (auto split: list.splits)

lemma sep_split_parts: "\<exists>pre. s = pre @ last (sep_split s) \<and> (tl (sep_split s) = [] \<longrightarrow> pre = [])"
proof (induction s)
  case (Cons c s)
  then obtain pre where pre: "s = pre @ last (sep_split s)" "tl (sep_split s) = [] \<longrightarrow> pre = []" by blast
  obtain w ws where ws: "sep_split s = w # ws" by (cases "sep_split s") auto
  show ?case
  proof (cases "complete_sep c \<or> ws \<noteq> []")
    case True
    then show ?thesis using pre ws by (intro exI [of _ "c # pre"]) auto
  next
    case False
    then show ?thesis using pre ws by simp
  qed
qed simp

text \<open>The completed line: what the matches have in common takes the place of the last word.\<close>

theorem completion_longest:
  assumes "complete_line ip_complete line = (completed, ms)"
  shows "\<exists>pre. line = pre @ last (sep_split line) \<and>
    completed = (if ms = [] then line
                 else pre @ (if Longest_common_prefix (set ms) \<noteq> '''' then Longest_common_prefix (set ms) else [last line]))"
proof -
  let ?w = "last (sep_split line)"
  obtain pre where pre: "line = pre @ ?w" using sep_split_parts by blast
  have cut: "slice_to line (- int (length ?w)) = pre" if "?w \<noteq> ''''"
  proof -
    have "slice_to line (- int (length ?w)) = take (length line - length ?w) line" using that by (intro slice_to_neg) simp
    also have "\<dots> = pre" using arg_cong [OF pre, of length] pre by (metis append_eq_conv_conj add_diff_cancel_right' length_append)
    finally show ?thesis .
  qed
  show ?thesis
  proof (cases ms)
    case Nil
    then show ?thesis using assms pre by (intro exI [of _ pre]) (auto simp: complete_line_def Let_def split: list.splits)
  next
    case (Cons m ms')
    then have w: "?w \<noteq> ''''" "ip_complete ?w = m # ms'" using assms by (auto simp: complete_line_def Let_def split: list.splits if_splits)
    then have "completed = pre @ (if foldl common_prefix_of m ms' \<noteq> '''' then foldl common_prefix_of m ms' else [last line])"
      using assms cut by (simp add: complete_line_def Let_def)
    then show ?thesis using pre Cons unfolding foldl_common by (intro exI [of _ pre]) simp
  qed
qed

section \<open>Colours are read back\<close>

definition color_code :: "bool \<Rightarrow> string \<Rightarrow> string" where
  "color_code marked tag = (if marked then [CHR 0x01] else []) @ [esc, CHR ''[''] @ tag @ ''m'' @ (if marked then [CHR 0x02] else [])"

definition colored :: "bool \<Rightarrow> string \<Rightarrow> (string \<times> string) list \<Rightarrow> string" where
  "colored marked t pairs = t @ concat (map (\<lambda>(tag, t). color_code marked tag @ t) pairs)"

definition plain_tag :: "string \<Rightarrow> bool" where
  "plain_tag tag \<longleftrightarrow> CHR ''m'' \<notin> set tag \<and> nl \<notin> set tag"

definition plain_part :: "string \<Rightarrow> bool" where
  "plain_part t \<longleftrightarrow> esc \<notin> set t \<and> CHR 0x01 \<notin> set t \<and> CHR 0x02 \<notin> set t"

lemma color_split_part: "plain_part t \<Longrightarrow> color_split (t @ s) = (t @ fst (color_split s), snd (color_split s))"
proof (induction t)
  case (Cons c t)
  have "c \<noteq> esc" "c \<noteq> CHR 0x01" using Cons.prems by (auto simp: plain_part_def)
  then have "\<not> startswith (c # t @ s) [CHR 0x01]" "\<not> startswith (c # t @ s) [esc, CHR ''['']" by (auto simp: startswith_iff)
  then have "match_color (c # t @ s) = None" by (simp only: match_color_def Let_def if_False)
  moreover have "plain_part t" using Cons.prems by (simp add: plain_part_def)
  ultimately show ?case using Cons.IH by (subst color_split.simps) (simp split: prod.splits)
qed simp

lemma match_color_code:
  assumes "plain_tag tag" "\<not> startswith s [CHR 0x02]"
  shows "match_color (color_code marked tag @ s) = Some (tag, s)"
proof -
  have "takeWhile (\<lambda>c. c \<noteq> CHR ''m'') (tag @ CHR ''m'' # r) = tag" for r
    using assms(1) by (induction tag) (auto simp: plain_tag_def)
  then show ?thesis using assms by (auto simp: match_color_def color_code_def startswith_def plain_tag_def)
qed

lemma colored_starts: "plain_part t \<Longrightarrow> \<not> startswith (colored marked t pairs) [CHR 0x02]"
  by (cases t; cases pairs) (auto simp: colored_def startswith_def plain_part_def color_code_def)

lemma color_split_colored:
  "plain_part t \<Longrightarrow> list_all (\<lambda>(tag, t). plain_tag tag \<and> plain_part t) pairs \<Longrightarrow> color_split (colored marked t pairs) = (t, pairs)"
proof (induction pairs arbitrary: t)
  case Nil
  then show ?case using color_split_part [of t "[]"] by (simp add: colored_def color_split.simps [of "[]"] match_color_def startswith_def)
next
  case (Cons p pairs)
  obtain tag u where p: "p = (tag, u)" by (cases p)
  have "color_split (color_code marked tag @ colored marked u pairs) = ([], (tag, u) # pairs)"
    using match_color_code [of tag "colored marked u pairs" marked] colored_starts [of u marked pairs] Cons p
    by (subst color_split.simps) simp
  moreover have "colored marked t (p # pairs) = t @ color_code marked tag @ colored marked u pairs" by (simp add: colored_def p)
  ultimately show ?case using color_split_part [OF Cons.prems(1)] by (simp add: p)
qed

lemma index_of_skip: "x \<notin> set xs \<Longrightarrow> index_of x (xs @ x # ys) = Some (length xs)"
  by (induction xs) auto

lemma insert_tagged_ok:
  "(\<And>tag. tag \<in> fst ` set pairs \<Longrightarrow> tag \<in> set buffer_tags \<and> tag \<notin> set before \<and> tag \<notin> snd ` set pairs) \<Longrightarrow>
     insert_tagged (before @ concat (map (\<lambda>(tag, t). [tag, t]) pairs)) (map fst pairs) = (map (\<lambda>(tag, t). (t, Some tag)) pairs, None)"
proof (induction pairs arbitrary: before)
  case (Cons p pairs)
  obtain tag t where p: "p = (tag, t)" by (cases p)
  have "tag \<notin> set before" "tag \<in> set buffer_tags" using Cons.prems [of tag] by (simp_all add: p)
  moreover have "insert_tagged ((before @ [t]) @ concat (map (\<lambda>(tag, t). [tag, t]) pairs)) (map fst pairs) =
    (map (\<lambda>(tag, t). (t, Some tag)) pairs, None)"
  proof (rule Cons.IH)
    fix tag' assume "tag' \<in> fst ` set pairs"
    then show "tag' \<in> set buffer_tags \<and> tag' \<notin> set (before @ [t]) \<and> tag' \<notin> snd ` set pairs" using Cons.prems [of tag'] by (simp add: p)
  qed
  moreover have "py_index (before @ tag # t # r) (int (length before) + 1) = Inr t" for r
    by (simp add: py_index_def nth_append nat_add_distrib)
  ultimately show ?case by (simp add: p index_of_skip)
qed simp

text \<open>
  A text with colours, as IPython writes it, with or without the marks for readline, is shown as it is meant:
  each part is inserted once, in order and in its colour, as long as the buffer has the tags and no part has the
  same text as a tag.
\<close>
lemma console_colours:
  assumes "plain_part t" "list_all (\<lambda>(tag, t). plain_tag tag \<and> plain_part t) pairs"
    and "fst ` set pairs \<subseteq> set buffer_tags" "fst ` set pairs \<inter> snd ` set pairs = {}"
  shows "write_text (colored marked t pairs) = ((t, None) # map (\<lambda>(tag, t). (t, Some tag)) pairs, None)"
proof -
  have "insert_tagged ([] @ concat (map (\<lambda>(tag, t). [tag, t]) pairs)) (map fst pairs) = (map (\<lambda>(tag, t). (t, Some tag)) pairs, None)"
    using assms(3,4) by (intro insert_tagged_ok) auto
  then show ?thesis by (simp add: write_text_def color_split_colored [OF assms(1,2)])
qed

text \<open>
  A part that is the same as a later tag is taken for the tag: a red zero is shown twice.  A colour of another
  form, such as bold, ends the writing with the part lost.
\<close>

lemma red_zero_doubled:
  "write_text (colored False '''' [(''0;31'', ''0''), (''0'', '''')]) =
     ([('''', None), (''0'', Some ''0;31''), (''0'', Some ''0'')], None)"
proof -
  have "color_split (colored False '''' [(''0;31'', ''0''), (''0'', '''')]) = ('''', [(''0;31'', ''0''), (''0'', '''')])"
    by (rule color_split_colored) (simp_all add: plain_part_def plain_tag_def)
  then show ?thesis by (simp add: write_text_def py_index_def buffer_tags_def)
qed

lemma unknown_colour_lost:
  "write_text (colored False ''a'' [(''1'', ''b''), (''0'', ''c'')]) = ([(''a'', None)], Some ValueError)"
proof -
  have "color_split (colored False ''a'' [(''1'', ''b''), (''0'', ''c'')]) = (''a'', [(''1'', ''b''), (''0'', ''c'')])"
    by (rule color_split_colored) (simp_all add: plain_part_def plain_tag_def)
  then show ?thesis by (simp add: write_text_def py_index_def buffer_tags_def)
qed

text \<open>An empty input in the history cannot be passed.\<close>

lemma blank_input_blocks: "history_back [''a'', '''', ''b''] (- 1) = (''b'', - 1)"
  by (simp add: history_back_def get_history_def py_index_def strip_by_def)

end
