(* ===== verification/ModuleGen.thy ===== *)
theory ModuleGen
  imports ModuleScan
begin

text \<open>
  The generator of the Python bindings, \<^verbatim>\<open>bindings/python/ns3modulegen.py\<close>, and the part of
  \<^verbatim>\<open>ns3modulegen_core_customizations.py\<close> that decides names: smart pointers, callbacks, attributes.
  The types that pybindgen knows and the module it builds are arguments.
\<close>

section \<open>Smart pointers\<close>

text \<open>The pattern \<open>(ns3::|::ns3::|)Ptr<([^>]+)>\s*$\<close>, and its second group.\<close>

definition drop_ns3 :: "string \<Rightarrow> string" where
  "drop_ns3 s = (if startswith s ''ns3::'' then drop 5 s else if startswith s ''::ns3::'' then drop 7 s else s)"

definition ptr_match :: "string \<Rightarrow> string option" where
  "ptr_match name =
     (let s = drop_ns3 name
      in if startswith s ''Ptr<'' then
           (let body = drop 4 s; t = takeWhile (\<lambda>c. c \<noteq> CHR ''>'') body; rest = drop (length t) body
            in if t \<noteq> [] \<and> rest \<noteq> [] \<and> list_all py3_space (tl rest) then Some t else None)
         else None)"

definition cut_const :: "string \<Rightarrow> string \<times> bool" where
  "cut_const name1 =
     (let (name1, is_const) = (if startswith name1 ''const '' then (drop 6 name1, True) else (name1, False))
      in if endswith name1 '' const'' then (take (length name1 - 6) name1, True) else (name1, is_const))"

definition untransformed_type_traits :: "string \<Rightarrow> string option \<times> bool" where
  "untransformed_type_traits name =
     (case ptr_match name of
        None \<Rightarrow> (None, False)
      | Some t \<Rightarrow>
          (case cut_const (py_strip t) of (name1, is_const) \<Rightarrow>
             (let new_name = name1 @ '' *'' in (Some (if startswith new_name ''::'' then drop 2 new_name else new_name), is_const))))"

text \<open>\<open>create_type_handler\<close>: the type that the handler gets, and the one it is set to transform from.\<close>

definition create_type_handler :: "string \<Rightarrow> (string \<times> string) res" where
  "create_type_handler ctype =
     (case untransformed_type_traits ctype of
        (None, _) \<Rightarrow> Inl TypeError
      | (Some orig_ctype, is_const) \<Rightarrow>
          Inr (''ns3::Ptr< '' @ take (length orig_ctype - 2) orig_ctype @ (if is_const then '' const >'' else '' >''), orig_ctype))"

definition untransform :: "string \<Rightarrow> string \<Rightarrow> string" where
  "untransform untransformed_ctype expression = ''const_cast<'' @ untransformed_ctype @ ''> (ns3::PeekPointer ('' @ expression @ ''))''"

definition transform :: "string \<Rightarrow> string \<Rightarrow> string res" where
  "transform untransformed_ctype expression =
     rbind (py_index untransformed_ctype (- 1)) (\<lambda>c.
       if c = CHR ''*'' then Inr (''ns3::Ptr< '' @ butlast untransformed_ctype @ '' > ('' @ expression @ '')'') else Inl AssertionError)"

section \<open>Callbacks\<close>

record callback_handler =
  cb_type :: string
  cb_impl :: nat
  cb_disabled :: bool

definition callback_type :: "string list \<Rightarrow> string" where
  "callback_type params = ''ns3::Callback< '' @ join_with '', '' params @ '' >''"

definition register_callback_classes :: "string list list \<Rightarrow> callback_handler list" where
  "register_callback_classes callbacks =
     map (\<lambda>(n, params). \<lparr>cb_type = callback_type params, cb_impl = n, cb_disabled = False\<rparr>) (enumerate 0 callbacks)"

definition disable :: "string \<Rightarrow> callback_handler list \<Rightarrow> callback_handler list" where
  "disable ty hs = map (\<lambda>h. if cb_type h = ty then h\<lparr>cb_disabled := True\<rparr> else h) hs"

text \<open>
  One callback: the numbers of the classes that are written, and the handlers.  \<open>ret_known\<close> and \<open>par_known\<close> say
  whether \<open>ReturnValue.new\<close> and \<open>Parameter.new\<close> succeed.
\<close>

definition generate_callback ::
  "(string \<Rightarrow> bool) \<Rightarrow> (string \<Rightarrow> bool) \<Rightarrow> nat \<times> string list \<Rightarrow> nat list \<times> callback_handler list \<Rightarrow> (nat list \<times> callback_handler list) res" where
  "generate_callback ret_known par_known = (\<lambda>(n, params) (classes, hs).
     rbind (py_index params 0) (\<lambda>callback_return.
       if \<not> ret_known callback_return then Inr (classes, hs)
       else if list_all par_known (filter (\<lambda>arg. arg \<noteq> ''ns3::empty'') (tl params)) then Inr (classes @ [n], hs)
       else Inr (classes, disable (callback_type params) hs)))"

fun generate_callbacks ::
  "(string \<Rightarrow> bool) \<Rightarrow> (string \<Rightarrow> bool) \<Rightarrow> (nat \<times> string list) list \<Rightarrow> nat list \<times> callback_handler list \<Rightarrow> (nat list \<times> callback_handler list) res" where
  "generate_callbacks ret_known par_known [] s = Inr s"
| "generate_callbacks ret_known par_known (c # cs) s =
     rbind (generate_callback ret_known par_known c s) (generate_callbacks ret_known par_known cs)"

definition generate_callback_classes ::
  "(string \<Rightarrow> bool) \<Rightarrow> (string \<Rightarrow> bool) \<Rightarrow> string list list \<Rightarrow> callback_handler list \<Rightarrow> (nat list \<times> callback_handler list) res" where
  "generate_callback_classes ret_known par_known callbacks hs = generate_callbacks ret_known par_known (enumerate 0 callbacks) ([], hs)"

section \<open>Attributes\<close>

record cpp_param =
  pa_class :: "string option"
  pa_default :: "string option"
  pa_default_type :: "string option"

definition attribute_param :: "cpp_param \<Rightarrow> cpp_param" where
  "attribute_param p =
     (if pa_class p = Some ''AttributeValue'' \<and> pa_default p \<noteq> None \<and> pa_default_type p = None
      then p\<lparr>pa_default_type := Some ''ns3::EmptyAttributeValue''\<rparr> else p)"

definition Attribute_customizations :: "cpp_param list list list \<Rightarrow> cpp_param list list list" where
  "Attribute_customizations classes = map (map (map attribute_param)) classes"

section \<open>The generator\<close>

text \<open>The sinks of the sections: the main file and one for each module.\<close>

definition section_sinks :: "string list \<Rightarrow> string list" where
  "section_sinks mods = ''__main__'' # map section_name mods"

definition get_section_code_sink :: "string list \<Rightarrow> string \<Rightarrow> string res" where
  "get_section_code_sink mods s = (if s \<in> set (section_sinks mods) then Inr s else Inl KeyError)"

record gen_module =
  gm_classes :: "string list"
  gm_enums :: "string list"

text \<open>\<open>root_module[name]\<close>, then \<open>remove\<close>.\<close>

definition remove_class :: "string \<Rightarrow> gen_module \<Rightarrow> gen_module res" where
  "remove_class name g =
     (if name \<in> set (gm_classes g) then Inr (g\<lparr>gm_classes := remove1 name (gm_classes g)\<rparr>)
      else if name \<in> set (gm_enums g) then Inl ValueError else Inl KeyError)"

definition remove_enum :: "string \<Rightarrow> gen_module \<Rightarrow> gen_module res" where
  "remove_enum name g =
     (if name \<in> set (gm_enums g) then Inr (g\<lparr>gm_enums := remove1 name (gm_enums g)\<rparr>)
      else if name \<in> set (gm_classes g) then Inl ValueError else Inl KeyError)"

fun remove_classes :: "string list \<Rightarrow> gen_module \<Rightarrow> gen_module res" where
  "remove_classes [] g = Inr g"
| "remove_classes (c # cs) g = rbind (remove_class (''ns3::'' @ c) g) (remove_classes cs)"

definition try_remove :: "string \<Rightarrow> gen_module \<Rightarrow> gen_module res" where
  "try_remove name g = (case remove_class name g of Inl KeyError \<Rightarrow> Inr g | r \<Rightarrow> r)"

definition if_disabled :: "string list \<Rightarrow> string \<Rightarrow> (gen_module \<Rightarrow> gen_module res) \<Rightarrow> gen_module \<Rightarrow> gen_module res" where
  "if_disabled enabled_features feature f g = (if feature \<in> set enabled_features then Inr g else f g)"

definition remove_features :: "string \<Rightarrow> gen_module \<Rightarrow> gen_module res" where
  "remove_features env g =
     (let fs = split_on (CHR '','') env
      in rbind (if_disabled fs ''GtkConfigStore'' (try_remove ''ns3::GtkConfigStore'') g) (\<lambda>g.
         rbind (if_disabled fs ''SqliteDataOutput'' (try_remove ''ns3::SqliteDataOutput'') g) (\<lambda>g.
         rbind (if_disabled fs ''Threading''
                  (remove_classes [''SystemThread'', ''SystemMutex'', ''SystemCondition'', ''CriticalSection'',
                     ''SimpleRefCount< ns3::SystemThread, ns3::empty, ns3::DefaultDeleter<ns3::SystemThread> >'']) g) (\<lambda>g.
         rbind (if_disabled fs ''EmuNetDevice''
                  (\<lambda>g. rbind (remove_classes [''EmuNetDevice'', ''EmuHelper''] g) (remove_enum ''ns3::EmuNetDevice::EncapsulationMode'')) g) (\<lambda>g.
         rbind (if_disabled fs ''RealTime''
                  (\<lambda>g. rbind (remove_classes [''WallClockSynchronizer'', ''RealtimeSimulatorImpl''] g)
                         (remove_enum ''ns3::RealtimeSimulatorImpl::SynchronizationMode'')) g) (\<lambda>g.
           if_disabled fs ''TapBridge''
             (\<lambda>g. rbind (remove_classes [''TapBridge'', ''TapBridgeHelper'', ''TapBridgeFdReader''] g) (remove_enum ''ns3::TapBridge::Mode'')) g))))))"

section \<open>Names of smart pointers\<close>

text \<open>The name of a class as it stands inside a pointer.\<close>

definition class_name :: "string \<Rightarrow> bool" where
  "class_name t \<longleftrightarrow> t \<noteq> [] \<and> CHR ''>'' \<notin> set t \<and> \<not> py3_space (hd t) \<and> \<not> py3_space (last t) \<and>
     \<not> startswith t ''::'' \<and> \<not> startswith t ''const '' \<and> t \<noteq> ''const'' \<and> \<not> endswith t '' const''"

lemma strip_spaces:
  assumes "list_all p a" "list_all p b" "s \<noteq> []" "\<not> p (hd s)" "\<not> p (last s)"
  shows "strip_by p (a @ s @ b) = s"
proof -
  have "dropWhile p (a @ s @ b) = s @ b" using assms by (cases s) (simp_all add: dropWhile_append2 list_all_iff)
  moreover have "dropWhile p (rev (s @ b)) = rev s"
  proof -
    have "dropWhile p (rev b @ rev s) = dropWhile p (rev s)" using assms(2) by (intro dropWhile_append2) (simp add: list_all_iff)
    also have "\<dots> = rev s" using assms(3,5) by (cases s rule: rev_cases) simp_all
    finally show ?thesis by simp
  qed
  ultimately show ?thesis by (simp add: strip_by_def)
qed

lemma ptr_match_inner:
  assumes "ns \<in> {'''', ''ns3::'', ''::ns3::''}" "t \<noteq> []" "CHR ''>'' \<notin> set t" "list_all py3_space sp"
  shows "ptr_match (ns @ ''Ptr<'' @ t @ ''>'' @ sp) = Some t"
proof -
  have "drop_ns3 (ns @ ''Ptr<'' @ t @ ''>'' @ sp) = ''Ptr<'' @ t @ ''>'' @ sp"
    using assms(1) by (auto simp: drop_ns3_def startswith_def)
  moreover have "takeWhile (\<lambda>c. c \<noteq> CHR ''>'') (t @ CHR ''>'' # sp) = t" using assms(3) by (induction t) auto
  ultimately show ?thesis using assms(2,4) by (simp add: ptr_match_def startswith_def)
qed

lemma const_behind:
  assumes "class_name t"
  shows "\<not> startswith (t @ '' const'') ''const ''"
proof
  assume "startswith (t @ '' const'') ''const ''"
  then obtain ta where ta: "t @ '' const'' = ''const '' @ ta" unfolding startswith_iff by blast
  have eq: "take 6 (t @ '' const'') = ''const ''" unfolding ta by simp
  show False
  proof (cases "6 \<le> length t")
    case True
    then have "t = ''const '' @ drop 6 t" using eq append_take_drop_id [of 6 t] by simp
    then show False using assms by (metis class_name_def startswith_append)
  next
    case False
    then have len: "length t < 6" by simp
    have "''const '' ! length t = CHR '' ''" using arg_cong [OF eq, of "\<lambda>s. s ! length t"] len by (simp add: nth_append)
    then have "length t = 5" using len by (auto simp: nth_Cons' numeral_eq_Suc less_Suc_eq split: if_splits)
    then have "t = ''const''" using eq by (auto simp: take_Cons' numeral_eq_Suc length_Suc_conv)
    then show False using assms by (simp add: class_name_def)
  qed
qed

text \<open>A class, a constant class in front and behind.\<close>

definition ptr_spelling :: "bool \<Rightarrow> string \<Rightarrow> string \<Rightarrow> bool" where
  "ptr_spelling c t inner \<longleftrightarrow> \<not> c \<and> inner = t \<or> c \<and> (inner = ''const '' @ t \<or> inner = t @ '' const'')"

lemma cut_spelling:
  assumes "class_name t" "ptr_spelling c t inner"
  shows "cut_const inner = (t, c)"
proof -
  have t: "\<not> startswith t ''const ''" "\<not> endswith t '' const''" using assms(1) by (simp_all add: class_name_def)
  have behind: "cut_const (t @ '' const'') = (t, True)"
    using const_behind [OF assms(1)] by (simp add: cut_const_def endswith_def)
  have front: "cut_const (''const '' @ t) = (t, True)" using t(2) by (simp add: cut_const_def startswith_def)
  have plain: "cut_const t = (t, False)" using t by (simp add: cut_const_def)
  show ?thesis using assms(2) behind front plain by (auto simp: ptr_spelling_def)
qed

lemma spelling_shape:
  assumes "class_name t" "ptr_spelling c t inner"
  shows "inner \<noteq> []" "CHR ''>'' \<notin> set inner" "\<not> py3_space (hd inner)" "\<not> py3_space (last inner)"
  using assms by (auto simp: ptr_spelling_def class_name_def py3_space_def hd_append)

lemma pointer_name:
  assumes "ns \<in> {'''', ''ns3::'', ''::ns3::''}" "class_name t" "ptr_spelling c t inner"
    and "list_all py3_space a" "list_all py3_space b" "list_all py3_space e"
  shows "create_type_handler (ns @ ''Ptr<'' @ (a @ inner @ b) @ ''>'' @ e) =
    Inr (''ns3::Ptr< '' @ t @ (if c then '' const >'' else '' >''), t @ '' *'')"
proof -
  have sp: "\<not> py3_space (CHR ''>'')" by (simp add: py3_space_def)
  have "CHR ''>'' \<notin> set (a @ inner @ b)"
    using spelling_shape(2) [OF assms(2,3)] assms(4,5) sp by (auto simp: list_all_iff)
  then have m: "ptr_match (ns @ ''Ptr<'' @ (a @ inner @ b) @ ''>'' @ e) = Some (a @ inner @ b)"
    using assms(1,6) spelling_shape(1) [OF assms(2,3)] by (intro ptr_match_inner) simp_all
  have "py_strip (a @ inner @ b) = inner" using spelling_shape [OF assms(2,3)] assms(4,5) by (intro strip_spaces)
  moreover have "\<not> startswith (t @ '' *'') ''::''"
    using assms(2) by (cases t; cases "tl t") (auto simp: class_name_def startswith_def)
  ultimately have "untransformed_type_traits (ns @ ''Ptr<'' @ (a @ inner @ b) @ ''>'' @ e) = (Some (t @ '' *''), c)"
    using m cut_spelling [OF assms(2,3)] by (simp add: untransformed_type_traits_def del: append_assoc)
  then show ?thesis by (simp add: create_type_handler_def)
qed

text \<open>
  However a pointer to a class is spelled, with or without namespace, spaces and \<open>const\<close>, in front or behind, the handler
  gets the one normal form, and the normal form stands for itself.
\<close>
theorem pointer_normal_form:
  assumes "ns \<in> {'''', ''ns3::'', ''::ns3::''}" "class_name t" "ptr_spelling c t inner"
    and "list_all py3_space a" "list_all py3_space b" "list_all py3_space e"
  shows "\<exists>n. create_type_handler (ns @ ''Ptr<'' @ (a @ inner @ b) @ ''>'' @ e) = Inr (n, t @ '' *'') \<and> create_type_handler n = Inr (n, t @ '' *'')"
proof -
  let ?i = "if c then t @ '' const'' else t"
  have "create_type_handler (''ns3::'' @ ''Ptr<'' @ ('' '' @ ?i @ '' '') @ ''>'' @ '''') =
      Inr (''ns3::Ptr< '' @ t @ (if c then '' const >'' else '' >''), t @ '' *'')"
    using assms(2) by (intro pointer_name) (simp_all add: ptr_spelling_def py3_space_def)
  then show ?thesis using pointer_name [OF assms] by (cases c) auto
qed

section \<open>Callbacks without a class\<close>

text \<open>
  A handler that is not disabled refers to the class of its number.  That class is missing exactly when the return
  type is not known: only an unknown parameter disables the handler.
\<close>

lemma unknown_return_enabled:
  "\<not> ret_known r \<Longrightarrow> generate_callback_classes ret_known par_known [r # ps] (register_callback_classes [r # ps]) =
     Inr ([], [\<lparr>cb_type = callback_type (r # ps), cb_impl = 0, cb_disabled = False\<rparr>])"
  by (simp add: generate_callback_classes_def generate_callback_def register_callback_classes_def py_index_def)

lemma generate_step:
  assumes "generate_callbacks rk pk cs (classes, hs) = Inr (classes', hs')"
  shows "set classes' = set classes \<union> {n. \<exists>ps. (n, ps) \<in> set cs \<and> rk (hd ps) \<and> list_all pk (filter (\<lambda>a. a \<noteq> ''ns3::empty'') (tl ps))} \<and>
    map cb_type hs' = map cb_type hs \<and> map cb_impl hs' = map cb_impl hs"
  using assms
proof (induction cs arbitrary: classes hs)
  case (Cons c cs)
  obtain n ps where c: "c = (n, ps)" by (cases c)
  obtain classes1 hs1 where g: "generate_callback rk pk c (classes, hs) = Inr (classes1, hs1)"
    "generate_callbacks rk pk cs (classes1, hs1) = Inr (classes', hs')"
    using Cons.prems by (auto simp: rbind_eq_Inr)
  have ps: "ps \<noteq> []" using g(1) by (cases ps) (auto simp: generate_callback_def c py_index_def)
  then have hd: "py_index ps 0 = Inr (hd ps)" by (cases ps) (simp_all add: py_index_def)
  have dis: "map cb_type (disable ty hs) = map cb_type hs" "map cb_impl (disable ty hs) = map cb_impl hs" for ty
    by (auto simp: disable_def)
  have "map cb_type hs1 = map cb_type hs \<and> map cb_impl hs1 = map cb_impl hs \<and>
      set classes1 = set classes \<union> (if rk (hd ps) \<and> list_all pk (filter (\<lambda>a. a \<noteq> ''ns3::empty'') (tl ps)) then {n} else {})"
    using g(1) by (auto simp: generate_callback_def c hd dis split: if_splits)
  then show ?case using Cons.IH [OF g(2)] by (auto simp: c)
qed simp

text \<open>Every section that the scanner names for a module has its sink in the generator.\<close>

lemma add_sections_names:
  "add_sections opens pygen mods k ms p = Inr p' \<Longrightarrow> plan_sections p' = plan_sections p @ map section_name ms \<and> set ms \<subseteq> set (keys mods)"
proof (induction ms arbitrary: k p)
  case (Cons m ms)
  then obtain q where q: "add_section opens pygen mods k m p = Inr q" "add_sections opens pygen mods (k + 1) ms q = Inr p'" by (auto simp: rbind_eq_Inr)
  have "plan_sections q = plan_sections p @ [section_name m] \<and> m \<in> set (keys mods)"
    using q(1) map_of_Some_key [of mods m] by (cases "map_of mods m") (auto simp: add_section_def rbind_eq_Inr)
  then show ?case using Cons.IH [OF q(2)] by simp
qed simp

lemma sections_have_sinks:
  assumes "ns3_module_sections py3 ko opens pygen mods = Inr p" "set (keys mods) \<subseteq> set argv" "s \<in> set (plan_sections p)"
  shows "get_section_code_sink argv s = Inr s"
proof -
  obtain ms where "add_sections opens pygen mods 0 ms first_plan = Inr p"
    using assms(1) by (auto simp: ns3_module_sections_def rbind_eq_Inr split: if_splits sum.splits)
  from add_sections_names [OF this] have ms: "plan_sections p = ''__main__'' # map section_name ms" "set ms \<subseteq> set argv"
    using assms(2) by (auto simp add: first_plan_def)
  then have "s = ''__main__'' \<or> s \<in> section_name ` set argv" using assms(3) by auto
  then show ?thesis by (auto simp: get_section_code_sink_def section_sinks_def)
qed

end
