(* ===== verification/TestRunner.thy ===== *)
theory TestRunner
  imports PyLib
begin

text \<open>
  The script \<^verbatim>\<open>utils/test-runner-script.py\<close>, which runs every test of the test runner and records which
  failed.  The processes and the file of the last results are arguments; \<open>Pool.starmap\<close> returns the results
  in the order of the tests.
\<close>

section \<open>Directories\<close>

definition cwd_offsets :: "int \<Rightarrow> (string \<times> int) list" where
  "cwd_offsets n =
     [(''ns-3-dev'', n), (''NS3'', n), (''utils'', - 1), (''build'', - 1), (''bin'', - 2), (''src'', - 1), (''cmake-cache'', - 1),
      (''cmake-build-debug'', - 1), (''cmake-build-release'', - 1), (''cmake-build-minsizerel'', - 1), (''cmake-build-relwithdebinfo'', - 1)]"

definition ns3_path :: "string \<Rightarrow> string res" where
  "ns3_path cwd =
     (let comps = split_on (CHR ''/'') cwd
      in (case map_of (cwd_offsets (int (length comps))) (last comps) of
            None \<Rightarrow> Inl KeyError
          | Some off \<Rightarrow> Inr (join_with ''/'' (slice_to comps off))))"

definition bin_path :: "string \<Rightarrow> string" where
  "bin_path ns3 = join_with ''/'' [ns3, ''build'', '''']"

definition utils_path :: "string \<Rightarrow> string" where
  "utils_path ns3 = join_with ''/'' [ns3, ''utils'', '''']"

section \<open>One test\<close>

type_synonym test_result = "string \<times> string option \<times> bool"

text \<open>
  \<open>run\<close> gives the decoded output of the process, or nothing if it cannot be started or fails.  The word is the first of the
  last line but one; without it the output stays as it was at that moment.
\<close>

definition run_test :: "(string \<Rightarrow> string option) \<Rightarrow> string \<Rightarrow> test_result" where
  "run_test run test_name =
     (case run test_name of
        None \<Rightarrow> (test_name, None, True)
      | Some output \<Rightarrow>
          (case py_index (split_on nl output) (- 2) of
             Inl _ \<Rightarrow> (test_name, Some output, True)
           | Inr l \<Rightarrow> (test_name, Some (hd (split_on (CHR '' '') l)), False)))"

section \<open>All tests\<close>

definition failed_of :: "test_result list \<Rightarrow> (string \<times> string option \<times> bool) list" where
  "failed_of results = foldl (\<lambda>d r. if snd (snd r) then AList.update (fst r) (snd r) d else d) [] results"

definition dispatch_tests :: "(string \<Rightarrow> string option) \<Rightarrow> string list \<Rightarrow> test_result list \<times> (string \<times> string option \<times> bool) list" where
  "dispatch_tests run tests = (let results = map (run_test run) tests in (results, failed_of results))"

text \<open>The names that the runner lists, without carriage returns and without what follows the last line end.\<close>

definition list_tests :: "string \<Rightarrow> string list" where
  "list_tests out = butlast (split_on nl (replace_char (CHR 0x0D) '''' out))"

definition load_previous :: "test_result list option \<Rightarrow> bool \<times> test_result list \<times> (string \<times> string option \<times> bool) list" where
  "load_previous file = (case file of None \<Rightarrow> (False, [], []) | Some results \<Rightarrow> (True, results, failed_of results))"

text \<open>
  The number that is printed, and the results that the file then holds; \<open>rerunFailed\<close> is fixed to false in the
  source.
\<close>

definition main_run ::
  "bool \<Rightarrow> string option \<Rightarrow> (string \<Rightarrow> string option) \<Rightarrow> test_result list option \<Rightarrow> int \<times> test_result list option" where
  "main_run rerunFailed listed run file =
     (case listed of
        None \<Rightarrow> (- 1, file)
      | Some out \<Rightarrow>
          (case load_previous file of (have_previous, previous, failed) \<Rightarrow>
             (let tests = (if rerunFailed \<and> have_previous then keys failed else list_tests out);
                  results = fst (dispatch_tests run tests)
              in (int (length results), Some results))))"

section \<open>What is recorded\<close>

lemma failed_keys: "set (keys (foldl (\<lambda>d r. if snd (snd r) then AList.update (fst r) (snd r) d else d) d results)) =
    set (keys d) \<union> fst ` set (filter (\<lambda>r. snd (snd r)) results)"
proof (induction results arbitrary: d)
  case (Cons r results)
  have "set (keys (AList.update (fst r) (snd r) d)) = insert (fst r) (set (keys d))"
    unfolding keys_update by (simp add: insert_absorb)
  then show ?case using Cons by simp
qed simp

lemma run_test_failed: "snd (snd (run_test run t)) \<longleftrightarrow> (\<forall>out. run t = Some out \<longrightarrow> nl \<notin> set out)"
proof (cases "run t")
  case (Some out)
  have "(\<exists>l. py_index (split_on nl out) (- 2) = Inr l) \<longleftrightarrow> 2 \<le> length (split_on nl out)" by (auto simp: py_index_def)
  also have "\<dots> \<longleftrightarrow> nl \<in> set out"
  proof
    assume "nl \<in> set out"
    then obtain a b where "out = a @ nl # b" by (meson split_list)
    then show "2 \<le> length (split_on nl out)" by (cases "split_on nl a"; cases "split_on nl b") (auto simp: split_on_append)
  next
    assume "2 \<le> length (split_on nl out)"
    then show "nl \<in> set out" using split_on_single [of nl out] by fastforce
  qed
  finally show ?thesis using Some by (auto simp: run_test_def split: sum.splits)
qed (simp add: run_test_def)

text \<open>
  When the tests can be listed, every listed test is run, the results are recorded in their order, and the tests that are
  recorded as failed are those that could not be run or gave no full line.
\<close>
theorem runner_records:
  assumes "main_run False (Some out) run file = (n, file')"
  shows "\<exists>results. file' = Some results \<and> n = int (length (list_tests out)) \<and> map fst results = list_tests out \<and>
    load_previous file' = (True, results, failed_of results) \<and>
    set (keys (failed_of results)) = {t \<in> set (list_tests out). \<forall>o'. run t = Some o' \<longrightarrow> nl \<notin> set o'}"
proof -
  let ?rs = "map (run_test run) (list_tests out)"
  have name: "fst (run_test run t) = t" for t by (simp add: run_test_def split: option.splits sum.splits)
  then have names: "map fst ?rs = list_tests out" by (simp add: comp_def)
  have run: "file' = Some ?rs" "n = int (length (list_tests out))"
    using assms by (auto simp: main_run_def dispatch_tests_def Let_def split: prod.splits)
  have "set (keys (failed_of ?rs)) = fst ` set (filter (\<lambda>r. snd (snd r)) ?rs)" unfolding failed_of_def failed_keys by simp
  also have "\<dots> = {t \<in> set (list_tests out). snd (snd (run_test run t))}" by (simp add: filter_map comp_def image_image name)
  also have "\<dots> = {t \<in> set (list_tests out). \<forall>o'. run t = Some o' \<longrightarrow> nl \<notin> set o'}" unfolding run_test_failed ..
  finally show ?thesis using run names by (intro exI [of _ ?rs]) (simp add: load_previous_def)
qed

end
