(* ===== verification/Spec2Isabelle.thy ===== *)
theory Spec2Isabelle
  imports Prelude PyLib Transition RadUtil Topsort TestJobs JobPool ConfigFile TestPlan TestReport
    CheckStyle GridData GridWindow Shlex ShellCmd ShellGrammar ShellExec Launcher Versioning ModuleTemplates
    CreateModule ModuleTree CFlags CompileDb BindingScan VizData VizSync
    VizNodes VizScan VizTraffic VizAxes VizMouse FlowMonitor WafMisc ModuleScan VizWifi StackTrace Boost Relocation VizWindows VizConsole ModuleGen TestRunner
begin

text \<open>
  \<^bold>\<open>A verification library for the Python tools of ns-3.\<close>

  ns-3 is a network simulator in C++; around it stand Python programs that build it, test it, check
  its style and show its traces.  This library models the Python programs that carry logic of their
  own, from their sources, and proves what makes them correct.

  \<^bold>\<open>Parts of the program and how they work together.\<close>
  \<^item> \<^verbatim>\<open>test.py\<close> is the test driver.  It reads the configuration that \<^verbatim>\<open>utils.py\<close>
    finds in the build status files, selects test suites and examples, makes a job for each, and has a
    pool of worker threads run them; the main thread queues the jobs, then one break job per worker,
    collects the results, joins the threads and writes the reports.
  \<^item> \<^verbatim>\<open>bindings/python/topsort.py\<close> sorts dependencies; it calls \<open>is_rotated\<close> of
    \<^verbatim>\<open>bindings/python/rad_util.py\<close>, a collection of helper functions.
  \<^item> \<^verbatim>\<open>utils/check-style.py\<close> compares files with what uncrustify makes of them, by parsing,
    editing and applying patches.
  \<^item> \<^verbatim>\<open>utils/grid.py\<close> reads a trace into timelines and shows them in a window with a range to select.
  \<^item> \<^verbatim>\<open>wutils.py\<close> starts the programs of the build tree for \<^verbatim>\<open>waf --run\<close>, and
    \<^verbatim>\<open>utils/create-module.py\<close> writes the skeleton of a new module.
  \<^item> \<^verbatim>\<open>waf-tools\<close> extends the build system: \<^verbatim>\<open>command.py\<close> runs command lines that
    \<^verbatim>\<open>shellcmd.py\<close> parses and executes, \<^verbatim>\<open>versioning.py\<close> asks git for the version,
    \<^verbatim>\<open>cflags.py\<close> chooses compiler flags, \<^verbatim>\<open>clang_compilation_database.py\<close> records the
    compiler commands, \<^verbatim>\<open>misc.py\<close> makes tasks that copy files, substitute variables and run commands,
    \<^verbatim>\<open>boost.py\<close> looks for the boost libraries, \<^verbatim>\<open>relocation.py\<close> repairs the nodes of a project that was moved.
  \<^item> \<^verbatim>\<open>bindings/python\<close> scans the C++ headers for the Python bindings;
    \<^verbatim>\<open>ns3modulescan.py\<close> puts the modules into the order that \<open>topsort\<close> finds, and \<^verbatim>\<open>ns3modulegen.py\<close>
    writes the bindings, section by section.
  \<^item> \<^verbatim>\<open>src/visualizer\<close> shows a simulation while it runs: a thread runs the simulator in steps, and the
    thread of the user interface starts each step, takes what it has measured and draws nodes, links, arrows
    and axes; the user selects, drags, pans and zooms, and plugins add links, tables and a console.
  \<^item> \<^verbatim>\<open>src/flow-monitor/examples/flowmon-parse-results.py\<close> reads the results that the flow monitor has
    written and reports them; \<^verbatim>\<open>scratch/stacktrace_to_graph.py\<close> draws a graph of the events of a
    simulation from a trace of the stacks that scheduled them.

  \<^bold>\<open>Theories.\<close>
  \<^item> \<open>Prelude\<close>: Python's exceptions as the datatype \<open>py_error\<close>, fallible results \<open>'a res\<close> with
    \<open>rbind\<close> and \<open>rmap\<close>, list indexing and slices, dictionaries as association lists in insertion order,
    and the locale \<open>key_order\<close> (an order in which a dictionary may list its keys).
  \<^item> \<open>PyLib\<close>: the string, path, file and \<open>fnmatch\<close> functions that the scripts call, and the locale
    \<open>fifo\<close> with \<open>queue.Queue\<close> as its interpretation.
  \<^item> \<open>Transition\<close>: runs of state machines, with the locales \<open>invariant_system\<close>, \<open>bounded_system\<close> (every run
    ends), \<open>progress_system\<close> (healthy states can be completed) and \<open>simulation\<close>.
  \<^item> \<open>RadUtil\<close>: \<^verbatim>\<open>rad_util.py\<close>, function by function.
  \<^item> \<open>Topsort\<close>: \<open>topsort\<close>, \<open>topsort_levels\<close> and \<open>find_cycles\<close>.
  \<^item> \<open>TestJobs\<close>: \<open>Job\<close>, \<open>run_job_synchronously\<close>, \<open>worker_thread\<close>, \<open>sigint_hook\<close> and the second half of
    \<open>run_tests\<close> (dispatch, break jobs, collection, join, summary, return value).  The state is the
    record \<open>sys\<close>: two queues, the program counter of each worker and of the main thread, the flag the
    signal handler sets, the counters and the report.  A worker whose job raises is \<open>Dead\<close>: its thread is gone,
    and the result never comes.
  \<^item> \<open>JobPool\<close>: the specification of the runner as the relation \<open>pool_step\<close>, and the simulation.
  \<^item> \<open>ConfigFile\<close>: \<^verbatim>\<open>utils.py\<close>.
  \<^item> \<open>TestPlan\<close>: \<open>make_paths\<close>, \<open>parse_examples_to_run_file\<close> and the first half of \<open>run_tests\<close>, up to the
    list of jobs and the number of workers.
  \<^item> \<open>TestRunner\<close>: \<^verbatim>\<open>utils/test-runner-script.py\<close>.
  \<^item> \<open>TestReport\<close>: \<open>read_test\<close>, \<open>translate_to_text\<close> and \<open>translate_to_html\<close>.
  \<^item> \<open>CheckStyle\<close>: \<^verbatim>\<open>check-style.py\<close>, with the objects that Python shares by reference given by
    their positions.
  \<^item> \<open>GridData\<close>: the data classes, searches, reader, colours and tick distance of \<^verbatim>\<open>grid.py\<close>.
  \<^item> \<open>GridWindow\<close>: layout, visible range and event handlers of \<^verbatim>\<open>grid.py\<close>, one record \<open>window\<close> for
    \<open>GraphicRenderer\<close> and \<open>GtkGraphicRenderer\<close>, an interpretation of \<open>invariant_system\<close>.
  \<^item> \<open>Shlex\<close>: \<open>shlex.split\<close> and \<open>shlex.quote\<close>, as a scanner with its states.
  \<^item> \<open>ShellCmd\<close>: \<open>Pipeline.parse\<close>, \<open>Pipeline.run\<close> and the substitution of \<^verbatim>\<open>command.py\<close>; \<open>ShellGrammar\<close>
    and \<open>ShellExec\<close> hold what is proved of the parser and of the runs.
  \<^item> \<open>Launcher\<close>: \<^verbatim>\<open>wutils.py\<close>.  \<open>Versioning\<close>: \<^verbatim>\<open>versioning.py\<close>.  \<open>CFlags\<close>: \<^verbatim>\<open>cflags.py\<close>,
    with the locale \<open>compiler_traits\<close> interpreted for the three compilers.  \<open>CompileDb\<close>:
    \<^verbatim>\<open>clang_compilation_database.py\<close>.
  \<^item> \<open>WafMisc\<close>: \<^verbatim>\<open>misc.py\<close>; the dictionary that the tasks of a generator share is threaded through them.
    \<open>Boost\<close>: \<^verbatim>\<open>boost.py\<close>, with the part of the module \<open>re\<close> that it uses as a matcher with backtracking (names and
    options that go into a pattern are texts without special characters), and the locale \<open>boost_env\<close> for the environment.  \<open>Relocation\<close>: \<^verbatim>\<open>relocation.py\<close>, on a store of nodes.
  \<^item> \<open>BindingScan\<close>: the hook of \<^verbatim>\<open>bindings/python/ns3modulescan-modular.py\<close>.  \<open>ModuleScan\<close>:
    \<^verbatim>\<open>bindings/python/ns3modulescan.py\<close> up to the sections, on top of \<open>Topsort\<close> and \<open>BindingScan\<close>.  \<open>ModuleGen\<close>: the
    generator, with the names of smart pointers and callbacks, on the sections of \<open>ModuleScan\<close>.
  \<^item> \<open>VizData\<close>: interface statistics, device traits and plugins of the visualizer.  \<open>VizSync\<close>: the two threads of
    \<^verbatim>\<open>core.py\<close>, one step of \<open>sync_step\<close> for each statement that touches shared state, in any interleaving.
    \<open>VizNodes\<close>: \<open>Node\<close>, \<open>Channel\<close>, \<open>WiredLink\<close>, the selection, and \<^verbatim>\<open>svgitem.py\<close>; objects are known by number, and
    the record \<open>view\<close> holds the scene.  \<open>VizScan\<close>: \<open>scan_topology\<close>.  \<open>VizTraffic\<close>: samples, averages and arrows.
    \<open>VizAxes\<close>: \<^verbatim>\<open>hud.py\<close>.  \<open>VizMouse\<close>: dragging, panning, zooming and clicks.  \<open>VizWifi\<close>: the plugin
    \<^verbatim>\<open>wifi_intrastructure_link.py\<close>.  \<open>VizWindows\<close>: the windows with tables of packets, routes and statistics, the packet
    filter, and the list of open windows.  \<open>VizConsole\<close>: \<^verbatim>\<open>ipython_view.py\<close>, with the calls it makes to the text view.
  \<^item> \<open>FlowMonitor\<close>: \<^verbatim>\<open>flowmon-parse-results.py\<close>, on the element trees of \<open>TestReport\<close>; flow objects are
    known by their place in the list of flows.
  \<^item> \<open>StackTrace\<close>: \<^verbatim>\<open>stacktrace_to_graph.py\<close>, from the text of the trace to that of the chart.
  \<^item> \<open>ModuleTemplates\<close> and \<open>CreateModule\<close>: \<^verbatim>\<open>create-module.py\<close>, the templates and the program, on a
    file system that may refuse any operation; \<open>ModuleTree\<close>: the plan of a module as specification.

  \<^bold>\<open>What the lemmas show.\<close>
  \<^item> Sorting: \<open>topsort\<close> returns a topological order of all elements or, exactly on cyclic input,
    raises \<open>CycleError\<close>; \<open>topsort_levels\<close> yields the levels; \<open>find_cycles\<close>, whose search loop is a partial
    function, is shown to return, with every elementary cycle exactly once up to rotation.
  \<^item> Runner: every interleaving ends after at most \<open>6 m + 4 n + 4\<close> thread steps for \<open>m\<close> jobs on \<open>n\<close> workers;
    one that cannot go on before the main thread has returned has a dead worker, whose process could not be
    started or whose interpreter was not configured, and as long as no worker dies the run can be completed.  When
    the main thread returns, every job was collected exactly once and the counters and the return value agree
    with what the jobs did; the thread system refines the pool.
  \<^item> Plan, configuration and reports: which suites and jobs the options select, what the readers
    return or raise, that the text report lists every test, which rows the HTML report closes.
  \<^item> Style checker: reading what the patch writer wrote gives the patches back; the whitespace pass
    takes one trailing blank off each line that has one and keeps everything else.
  \<^item> Viewer and helpers: the binary searches, the grouping and sorting of a trace, the colour
    assignment; round trips, Euclid, permutations, rotations, Gray codes.
  \<^item> Window: no sequence of events takes the visible range below 0 or beyond the upper bound of the trace, and an
    edge that is dragged lands under the mouse.
  \<^item> Command lines: the parser accepts exactly the sentences of a grammar; a run closes what it opened
    and waits for what it started, finishes if the files open, the processes start and the waits for them end, and
    nests \<open>&&\<close> and \<open>||\<close> to the right unless it is verbose, where every such line raises; substitution replaces exactly the variables.
  \<^item> Build tools: a template and a list of arguments start the same process, the return code becomes
    the right error, release tags are taken apart and stored, the version fields are complete or absent,
    flags the user gave are respected, the compilation database can be split back into its commands.
    A substitution writes every file with its variables replaced, from the names of the first file only.
    The search for boost fails exactly when a library is in no file name, and a successful check has stored
    directories and names that exist; a moved project keeps all its paths unless it was moved below itself.
  \<^item> Bindings: the path of a header, where the search for it never ends, the annotations of a declaration;
    the sections of the modules respect their dependencies and have their files; every spelling of a smart pointer
    has one normal form; which callbacks are left without a class.
  \<^item> Visualizer threads: in every interleaving the locked sections exclude each other, no callback waits for
    ever, quitting ends after at most eight statements of the simulation thread, and every message of the
    simulator is shown, waiting, or lost with a callback that raised; without such a callback they are shown once
    and in order.
  \<^item> Visualizer scene: links are drawn between the current places of their ends and exactly the selected node has the
    flag after any operations, also those that raise; a scan makes exactly the wires of the simulation; there is one
    arrow for each pair with traffic, with the average over its samples, if no packet was empty; an axis gets four to nine marks; a dragged
    node follows the mouse; wireless links follow the associations.
  \<^item> Visualizer windows and console: the packet filter lists exactly the types of headers and trailers, and its options
    follow the selection; which windows an exception leaves without update, and that a routing window for a
    node without a stack breaks every later update; coloured text is shown part by part when the buffer has its colours, and a completed line ends in
    what all matches have in common.
  \<^item> Flow monitor: five-tuples and statistics end up at the right flow; which times are misread.
  \<^item> Event graph: a trace that the simulator wrote is read back, each frame up to a further \<open>#\<close>; the shared stack is the longest common prefix,
    and a chart is written for every trace that can be read.
  \<^item> Module generator: a module is created as a whole, or removed again as far as the disk allows, and nothing else
    is touched; what a clean-up that fails leaves behind.
  \<^item> Where the code does not do what it means to, the theorem states what it does; the text in front
    of the theorem says so.

  \<^bold>\<open>Parameters.\<close>  What is not part of the sources is an argument: Python's \<open>eval\<close> of expressions
  found in files, the processes that are run (whether they start, return code, output, time, results file, and whether a
  wait for them ends), the order of
  dictionary keys where the result may depend on it, uncrustify, the patch program, \<open>difflib\<close> and the stat signatures
  that \<open>filecmp\<close> compares, the
  element tree that \<open>xml.etree\<close> parses, what git answers, the text extents of cairo, declarations of pygccxml, the configuration set
  (and whether it can be stored) and the node tree of waf, the entries \<open>json\<close> reads, IPython, the layout that graphviz computes, what the simulator and its devices answer,
  \<open>math.log\<close>, \<open>Gdk.color_parse\<close>, the sizes of icons, and a file system or machine that decides which operations succeed.  The
  hypotheses on them are the locale \<open>key_order\<close> (the keys are listed completely and once), the law of
  \<open>append_value\<close> in \<open>config_set_laws\<close>, and what single theorems name.

  \<^bold>\<open>Bounds.\<close>  Integers are unbounded, as in Python; floats are rationals or reals, without
  rounding.  No definition uses fuel: loops are functions with termination proofs, and five are defined by
  \<open>partial_function\<close>: the search of \<open>find_cycles\<close>, the loop over the marks of an axis and the one over the binary
  numbers are proved to return, and
  for the search in a path and the search for a header type it is proved exactly when they do.  Runs of the thread systems are
  finite lists of events of any length.

  \<^bold>\<open>Not modelled.\<close>  The console output of the scripts; the painting of \<^verbatim>\<open>grid.py\<close>; functions of
  \<^verbatim>\<open>rad_util.py\<close> on floating-point numbers; the scan of pybindgen's parser that ends \<open>ns3_module_scan\<close>; tooltips, menus and screenshots of the visualizer and the layout of its
  widgets, and the text buffer of its console, which belong to GTK; the C++ text that pybindgen writes; the generated Python
  bindings, the tests of the bindings, and the C++ simulator, which are not part of these tools.
\<close>

section \<open>From the plan to the last worker\<close>

lemma planned_completion:
  assumes plan: "run_tests_plan h conf opts d = Inr (RunJobs n js)" and n: "0 < n"
    and run: "run_steps (sys_step conf opts use) es (start_sys (nat n) js) = Some s"
    and py: "PYTHON conf \<noteq> [] \<or> (\<forall>j \<in> set js. is_pyexample j \<longrightarrow> is_skip j)" and started: "\<forall>i. Worker i None \<notin> set es"
  obtains es' s' where "run_steps (sys_step conf opts use) (es @ es') (start_sys (nat n) js) = Some s'" "finished s'"
proof -
  have inv: "runner_inv js (nat n) s"
    using n by (intro runner.run_good [OF runner_inv_start [OF _ plan_not_break [OF plan]] run]) simp
  have "\<forall>j \<in> set js. startable conf opts j" unfolding startable_def using worker_command_returns py by blast
  from runner.run_completes [OF inv healthy_run [OF run healthy_start [OF this] started]]
  obtain es' s' where "run_steps (sys_step conf opts use) es' s = Some s'" "finished s'" by blast
  with run that show thesis by (simp add: run_steps_append)
qed

text \<open>
  C20: whatever \<open>run_tests\<close> has planned, it can finish, provided that \<open>PYTHON\<close> was set or no Python example
  is to be run, and as long as no process has failed to start: from every state an interleaving of the
  threads and signals may then reach there is a continuation in which the main thread ends and all workers have
  stopped.  Without any such condition, in every continuation that returns a value the results collected
  are those of the planned jobs, each once.\<close>
theorem planned_tests_complete:
  assumes "run_tests_plan h conf opts d = Inr (RunJobs n js)" "0 < n"
    and "run_steps (sys_step conf opts use) es (start_sys (nat n) js) = Some s"
  shows "((PYTHON conf \<noteq> [] \<or> (\<forall>j \<in> set js. is_pyexample j \<longrightarrow> is_skip j)) \<and> (\<forall>i. Worker i None \<notin> set es) \<longrightarrow>
      (\<exists>es' s'. run_steps (sys_step conf opts use) (es @ es') (start_sys (nat n) js) = Some s' \<and> finished s')) \<and>
    (\<forall>es' s' rc. run_steps (sys_step conf opts use) (es @ es') (start_sys (nat n) js) = Some s' \<and>
       main_thread s' = Done rc \<longrightarrow> mset (map job_key (collected s')) = mset (map job_key js))"
proof -
  have "mset (map job_key (collected s')) = mset (map job_key js)"
    if "run_steps (sys_step conf opts use) (es @ es') (start_sys (nat n) js) = Some s'" "main_thread s' = Done rc" for es' s' rc
    using done_collected [OF _ plan_not_break [OF assms(1)] that] assms(2) by simp
  moreover have "\<exists>es' s'. run_steps (sys_step conf opts use) (es @ es') (start_sys (nat n) js) = Some s' \<and> finished s'"
    if "PYTHON conf \<noteq> [] \<or> (\<forall>j \<in> set js. is_pyexample j \<longrightarrow> is_skip j)" "\<forall>i. Worker i None \<notin> set es"
    by (rule planned_completion [OF assms that]) blast
  ultimately show ?thesis by (intro conjI impI allI) (elim conjE; assumption?)+
qed

theorem planned_tests_complete_witness:
  "\<exists>es s. run_steps (sys_step demo_conf demo_opts True) es
      (start_sys (nat 1) [suite_job demo_host demo_conf demo_opts ''testpy-output/d'' ''a'']) = Some s \<and> finished s"
  using planned_tests_complete [OF demo_plan, of True "[]"] by (auto simp: demo_conf_def)

end
